(* ===== verification/Mcdb_Prelude.thy ===== *)
theory Mcdb_Prelude
  imports Main "HOL-Library.Word" "HOL-Library.Monad_Syntax"
begin

unbundle bit_operations_syntax

text \<open>
  Shared vocabulary of the development: the fixed-width integer types of the C code, byte
  memories indexed by file offset, big-endian byte strings, and the generic facts about
  slices, updates and the option monad that every component uses.

  A memory operation of the code is a partial function: \<^term>\<open>None\<close> stands for
  undefined behaviour (a load or store outside the mapped object, a misaligned word access,
  a loop that does not end).  A theorem that says a function returns \<^term>\<open>Some\<close>
  therefore also says that none of these happens.
\<close>

type_synonym u8 = "8 word"
type_synonym u16 = "16 word"
type_synonym u32 = "32 word"
type_synonym u64 = "64 word"
type_synonym bytes = "u8 list"

text \<open>Byte memories: a content function; the object's extent is kept beside it.\<close>

type_synonym mem = "nat \<Rightarrow> u8"

named_theorems mem_simps \<open>slices and updates of byte memories\<close>
named_theorems be_simps \<open>big-endian byte strings\<close>

definition mem_slice :: "mem \<Rightarrow> nat \<Rightarrow> nat \<Rightarrow> bytes" where
  "mem_slice f a n = map f [a..<a + n]"

definition mem_upd :: "mem \<Rightarrow> nat \<Rightarrow> bytes \<Rightarrow> mem" where
  "mem_upd f a bs = (\<lambda>i. if a \<le> i \<and> i < a + length bs then bs ! (i - a) else f i)"

definition mem_fill :: "mem \<Rightarrow> nat \<Rightarrow> nat \<Rightarrow> u8 \<Rightarrow> mem" where
  "mem_fill f a n c = (\<lambda>i. if a \<le> i \<and> i < a + n then c else f i)"

lemma length_mem_slice [simp]: "length (mem_slice f a n) = n"
  by (simp add: mem_slice_def)

lemma mem_slice_0 [simp]: "mem_slice f a 0 = []"
  by (simp add: mem_slice_def)

lemma nth_mem_slice [simp]: "i < n \<Longrightarrow> mem_slice f a n ! i = f (a + i)"
  by (simp add: mem_slice_def)

lemma mem_slice_eqI: "(\<And>i. a \<le> i \<Longrightarrow> i < a + n \<Longrightarrow> f i = g i) \<Longrightarrow> mem_slice f a n = mem_slice g a n"
  by (simp add: mem_slice_def)

lemma mem_slice_eqD: "mem_slice f a n = mem_slice g a n \<Longrightarrow> a \<le> i \<Longrightarrow> i < a + n \<Longrightarrow> f i = g i"
  by (simp add: mem_slice_def)

lemma mem_slice_add: "mem_slice f a (m + n) = mem_slice f a m @ mem_slice f (a + m) n"
  by (rule nth_equalityI) (auto simp: nth_append)

lemma take_mem_slice: "k \<le> n \<Longrightarrow> take k (mem_slice f a n) = mem_slice f a k"
  by (rule nth_equalityI) auto

lemma drop_mem_slice: "k \<le> n \<Longrightarrow> drop k (mem_slice f a n) = mem_slice f (a + k) (n - k)"
  by (rule nth_equalityI) (auto simp: add.assoc)

lemma mem_upd_Nil [simp]: "mem_upd f a [] = f"
  by (rule ext) (auto simp: mem_upd_def)

lemma mem_upd_in [mem_simps]: "a \<le> i \<Longrightarrow> i < a + length bs \<Longrightarrow> mem_upd f a bs i = bs ! (i - a)"
  by (simp add: mem_upd_def)

lemma mem_upd_out [mem_simps]: "i < a \<or> a + length bs \<le> i \<Longrightarrow> mem_upd f a bs i = f i"
  by (auto simp: mem_upd_def)

lemma mem_fill_in [mem_simps]: "a \<le> i \<Longrightarrow> i < a + n \<Longrightarrow> mem_fill f a n c i = c"
  by (simp add: mem_fill_def)

lemma mem_fill_out [mem_simps]: "i < a \<or> a + n \<le> i \<Longrightarrow> mem_fill f a n c i = f i"
  by (auto simp: mem_fill_def)

lemma mem_fill_0 [simp]: "mem_fill f a 0 c = f"
  by (rule ext) (auto simp: mem_fill_def)

lemma mem_slice_upd_same [simp]: "n = length bs \<Longrightarrow> mem_slice (mem_upd f a bs) a n = bs"
  by (rule nth_equalityI) (auto simp: mem_upd_def)

lemma mem_slice_upd_disjoint [mem_simps]:
  "b + n \<le> a \<or> a + length bs \<le> b \<Longrightarrow> mem_slice (mem_upd f a bs) b n = mem_slice f b n"
  by (rule mem_slice_eqI) (auto simp: mem_upd_def)

lemma mem_slice_upd_within:
  "a \<le> b \<Longrightarrow> b + n \<le> a + length bs \<Longrightarrow>
   mem_slice (mem_upd f a bs) b n = take n (drop (b - a) bs)"
  by (rule nth_equalityI) (auto simp: mem_upd_def)

lemma mem_slice_fill_disjoint [mem_simps]:
  "b + n \<le> a \<or> a + m \<le> b \<Longrightarrow> mem_slice (mem_fill f a m c) b n = mem_slice f b n"
  by (rule mem_slice_eqI) (auto simp: mem_fill_def)

lemma mem_slice_fill_within [mem_simps]:
  "a \<le> b \<Longrightarrow> b + n \<le> a + m \<Longrightarrow> mem_slice (mem_fill f a m c) b n = replicate n c"
  by (rule nth_equalityI) (auto simp: mem_fill_def)

lemma mem_upd_append: "mem_upd (mem_upd f a xs) (a + length xs) ys = mem_upd f a (xs @ ys)"
  by (auto simp: mem_upd_def fun_eq_iff nth_append)

subsection \<open>Big-endian byte strings\<close>

fun be_bytes :: "nat \<Rightarrow> nat \<Rightarrow> bytes" where
  "be_bytes 0 v = []"
| "be_bytes (Suc k) v = be_bytes k (v div 256) @ [word_of_nat (v mod 256)]"

definition be_val :: "bytes \<Rightarrow> nat" where
  "be_val bs = foldl (\<lambda>a b. a * 256 + unat b) 0 bs"

lemma length_be_bytes [simp]: "length (be_bytes k v) = k"
  by (induction k arbitrary: v) auto

lemma be_val_Nil [simp]: "be_val [] = 0"
  by (simp add: be_val_def)

lemma be_val_snoc: "be_val (bs @ [b]) = be_val bs * 256 + unat b"
  by (simp add: be_val_def)

lemma unat_byte_mod [simp]: "unat (word_of_nat (v mod 256) :: u8) = v mod 256"
  by (simp add: unat_of_nat)

lemma be_val_be_bytes [be_simps]: "be_val (be_bytes k v) = v mod 256 ^ k"
proof (induction k arbitrary: v)
  case 0
  then show ?case by simp
next
  case (Suc k)
  have "v mod (256 * 256 ^ k) = 256 * (v div 256 mod 256 ^ k) + v mod 256"
    by (rule mod_mult2_eq)
  then show ?case using Suc by (simp add: be_val_snoc)
qed

lemma be_val_bound: "be_val bs < 256 ^ length bs"
proof (induction bs rule: rev_induct)
  case Nil
  then show ?case by simp
next
  case (snoc b bs)
  have "unat b < 256" using unsigned_less [of b] by simp
  with snoc show ?case by (simp add: be_val_snoc)
qed

lemma be_bytes_be_val [be_simps]: "be_bytes (length bs) (be_val bs) = bs"
proof (induction bs rule: rev_induct)
  case Nil
  then show ?case by simp
next
  case (snoc b bs)
  have "unat b < 256" using unsigned_less [of b] by simp
  with snoc show ?case by (simp add: be_val_snoc)
qed

lemma be_bytes_inject:
  "a < 256 ^ k \<Longrightarrow> b < 256 ^ k \<Longrightarrow> be_bytes k a = be_bytes k b \<longleftrightarrow> a = b"
  by (metis be_val_be_bytes mod_less)

lemma be_bytes_add:
  "be_bytes (m + n) v = be_bytes m (v div 256 ^ n) @ be_bytes n v"
proof (induction n arbitrary: v)
  case 0
  then show ?case by simp
next
  case (Suc n)
  then show ?case by (simp add: div_mult2_eq)
qed

lemma be_bytes_0: "be_bytes k 0 = replicate k 0"
  by (induction k) (simp_all add: replicate_append_same)

lemma be_bytes_eq_0_iff:
  "v < 256 ^ k \<Longrightarrow> be_bytes k v = replicate k 0 \<longleftrightarrow> v = 0"
  by (metis be_bytes_0 be_bytes_inject neq0_conv order_le_less_trans zero_le)

subsection \<open>Words\<close>

lemma unat_u32_less: "unat (w :: u32) < 4294967296"
  using unsigned_less [of w] by simp

lemma unat_u64_less: "unat (w :: u64) < 18446744073709551616"
  using unsigned_less [of w] by simp

lemma unat_of_nat_u32: "n < 4294967296 \<Longrightarrow> unat (word_of_nat n :: u32) = n"
  by (simp add: unat_of_nat)

lemma unat_of_nat_u64: "n < 18446744073709551616 \<Longrightarrow> unat (word_of_nat n :: u64) = n"
  by (simp add: unat_of_nat)

text \<open>Masking with the low bits of a power of two and with their complement.\<close>

lemma and_mask_nat: "(n :: nat) AND (2 ^ k - 1) = n mod 2 ^ k"
  by (metis mask_eq_exp_minus_1 take_bit_eq_mask take_bit_eq_mod)

subsection \<open>The option monad\<close>

lemma bind_Some_iff: "Option.bind x f = Some y \<longleftrightarrow> (\<exists>z. x = Some z \<and> f z = Some y)"
  by (cases x) auto

definition guard :: "bool \<Rightarrow> unit option" where
  "guard b = (if b then Some () else None)"

lemma guard_simps [simp]: "guard True = Some ()" "guard False = None"
  by (simp_all add: guard_def)

lemma guard_eq_Some [simp]: "guard b = Some u \<longleftrightarrow> b"
  by (simp add: guard_def)

lemma of_nat_not_all_ones:
  assumes "n < 4294967295"
  shows "(word_of_nat n :: u32) \<noteq> -1"
proof
  assume "(word_of_nat n :: u32) = -1"
  then have "unat (word_of_nat n :: u32) = unat (-1 :: u32)" by simp
  moreover have "unat (-1 :: u32) = 4294967295" unfolding unsigned_minus_1_eq_mask by (simp add: mask_eq_exp_minus_1)
  ultimately show False using assms by (simp add: unat_of_nat_u32)
qed

end
