(* ===== verification/Uint32.thy ===== *)
theory Uint32
  imports Mcdb_Prelude
begin

text \<open>
  The integer codecs of uint32.h and uint32.c: big-endian packing, the djb hash, the branchless
  hexadecimal conversions and the base-10 conversions.

  The byte-order primitives themselves (\<^verbatim>\<open>plasma_endian_*\<close>) belong to the plasma submodule,
  which is not part of the repository.  They are the record \<^verbatim>\<open>plasma_endian\<close>, a parameter of
  every definition that packs or unpacks, and \<^verbatim>\<open>plasma_bigendian\<close> states what their names
  and the file-format notes promise: four (eight) bytes, most significant byte first.
\<close>

subsection \<open>Byte order\<close>

record plasma_endian =
  be32enc :: "u32 \<Rightarrow> bytes"      \<comment> \<open>bytes stored by \<^verbatim>\<open>plasma_endian_be32enc_macro(s,u)\<close>\<close>
  be32dec :: "bytes \<Rightarrow> u32"      \<comment> \<open>\<^verbatim>\<open>plasma_endian_be32dec_macro(s)\<close> on the four bytes at s\<close>
  htobe32 :: "u32 \<Rightarrow> bytes"      \<comment> \<open>memory image of \<^verbatim>\<open>plasma_endian_htobe32(u)\<close>\<close>
  be32ptoh :: "bytes \<Rightarrow> u32"     \<comment> \<open>\<^verbatim>\<open>plasma_endian_be32ptoh(p)\<close> on the four bytes at p\<close>
  htobe64 :: "u64 \<Rightarrow> bytes"
  be64ptoh :: "bytes \<Rightarrow> u64"

definition plasma_bigendian :: "plasma_endian \<Rightarrow> bool" where
  "plasma_bigendian P \<longleftrightarrow>
     (\<forall>u. be32enc P u = be_bytes 4 (unat u)) \<and>
     (\<forall>u. htobe32 P u = be_bytes 4 (unat u)) \<and>
     (\<forall>u. htobe64 P u = be_bytes 8 (unat u)) \<and>
     (\<forall>bs. length bs = 4 \<longrightarrow> be32dec P bs = word_of_nat (be_val bs)) \<and>
     (\<forall>bs. length bs = 4 \<longrightarrow> be32ptoh P bs = word_of_nat (be_val bs)) \<and>
     (\<forall>bs. length bs = 8 \<longrightarrow> be64ptoh P bs = word_of_nat (be_val bs))"

text \<open>A concrete byte-order library that satisfies the hypothesis.\<close>

definition plasma_ref :: plasma_endian where
  "plasma_ref = \<lparr> be32enc = (\<lambda>u. be_bytes 4 (unat u)), be32dec = (\<lambda>bs. word_of_nat (be_val bs)),
     htobe32 = (\<lambda>u. be_bytes 4 (unat u)), be32ptoh = (\<lambda>bs. word_of_nat (be_val bs)),
     htobe64 = (\<lambda>u. be_bytes 8 (unat u)), be64ptoh = (\<lambda>bs. word_of_nat (be_val bs)) \<rparr>"

lemma plasma_ref_bigendian [simp]: "plasma_bigendian plasma_ref"
  by (simp add: plasma_bigendian_def plasma_ref_def)

definition uint32_strpack_bigendian_macro :: "plasma_endian \<Rightarrow> u32 \<Rightarrow> bytes" where
  "uint32_strpack_bigendian_macro P u = be32enc P u"

definition uint32_strunpack_bigendian_macro :: "plasma_endian \<Rightarrow> bytes \<Rightarrow> u32" where
  "uint32_strunpack_bigendian_macro P s = be32dec P s"

definition uint32_strpack_bigendian_aligned_macro :: "plasma_endian \<Rightarrow> u32 \<Rightarrow> bytes" where
  "uint32_strpack_bigendian_aligned_macro P u = htobe32 P u"

definition uint32_strunpack_bigendian_aligned_macro :: "plasma_endian \<Rightarrow> bytes \<Rightarrow> u32" where
  "uint32_strunpack_bigendian_aligned_macro P s = be32ptoh P s"

definition uint64_strpack_bigendian_aligned_macro :: "plasma_endian \<Rightarrow> u64 \<Rightarrow> bytes" where
  "uint64_strpack_bigendian_aligned_macro P u = htobe64 P u"

definition uint64_strunpack_bigendian_aligned_macro :: "plasma_endian \<Rightarrow> bytes \<Rightarrow> u64" where
  "uint64_strunpack_bigendian_aligned_macro P s = be64ptoh P s"

lemmas pack_defs =
  uint32_strpack_bigendian_macro_def uint32_strunpack_bigendian_macro_def
  uint32_strpack_bigendian_aligned_macro_def uint32_strunpack_bigendian_aligned_macro_def
  uint64_strpack_bigendian_aligned_macro_def uint64_strunpack_bigendian_aligned_macro_def

lemma pack_be [be_simps]:
  assumes "plasma_bigendian P"
  shows "uint32_strpack_bigendian_macro P u = be_bytes 4 (unat u)"
    and "uint32_strpack_bigendian_aligned_macro P u = be_bytes 4 (unat u)"
    and "uint64_strpack_bigendian_aligned_macro P v = be_bytes 8 (unat v)"
  using assms by (simp_all add: plasma_bigendian_def pack_defs)

lemma unpack_be:
  assumes "plasma_bigendian P"
  shows "length s = 4 \<Longrightarrow> uint32_strunpack_bigendian_macro P s = word_of_nat (be_val s)"
    and "length s = 4 \<Longrightarrow> uint32_strunpack_bigendian_aligned_macro P s = word_of_nat (be_val s)"
    and "length s = 8 \<Longrightarrow> uint64_strunpack_bigendian_aligned_macro P s = word_of_nat (be_val s)"
  using assms by (simp_all add: plasma_bigendian_def pack_defs)

lemma unpack_be_bytes [be_simps]:
  assumes "plasma_bigendian P"
  shows "v < 4294967296 \<Longrightarrow> uint32_strunpack_bigendian_macro P (be_bytes 4 v) = word_of_nat v"
    and "v < 4294967296 \<Longrightarrow> uint32_strunpack_bigendian_aligned_macro P (be_bytes 4 v) = word_of_nat v"
    and "v < 18446744073709551616 \<Longrightarrow>
           uint64_strunpack_bigendian_aligned_macro P (be_bytes 8 v) = word_of_nat v"
  using assms by (simp_all add: unpack_be be_val_be_bytes)

lemma uint_pack_roundtrip:
  assumes "plasma_bigendian P"
  shows "uint32_strunpack_bigendian_macro P (uint32_strpack_bigendian_macro P u) = u"
    and "uint32_strunpack_bigendian_aligned_macro P (uint32_strpack_bigendian_aligned_macro P u) = u"
    and "uint64_strunpack_bigendian_aligned_macro P (uint64_strpack_bigendian_aligned_macro P v) = v"
  using assms unat_u32_less [of u] unat_u64_less [of v] by (simp_all add: be_simps)

subsection \<open>The djb hash\<close>

definition UINT32_HASH_DJB_INIT :: u32 where
  "UINT32_HASH_DJB_INIT = 5381"

definition uint32_hash_djb_uchar :: "u32 \<Rightarrow> u8 \<Rightarrow> u32" where
  "uint32_hash_djb_uchar h c = (h + push_bit 5 h) XOR ucast c"

fun uint32_hash_djb :: "u32 \<Rightarrow> bytes \<Rightarrow> u32" where
  "uint32_hash_djb h [] = h"
| "uint32_hash_djb h (c # buf) = uint32_hash_djb (uint32_hash_djb_uchar h c) buf"

text \<open>Hashing a buffer in parts (tag character first, key next) is hashing their concatenation.\<close>

lemma uint32_hash_djb_append:
  "uint32_hash_djb h (xs @ ys) = uint32_hash_djb (uint32_hash_djb h xs) ys"
  by (induction xs arbitrary: h) auto

text \<open>
  The hash function is a function pointer of the database; the code compares it with
  \<^verbatim>\<open>uint32_hash_djb\<close> and inlines that one.  A pointer is therefore either that function or
  some other one.
\<close>

datatype hash_fn = Hash_djb | Hash_custom "u32 \<Rightarrow> bytes \<Rightarrow> u32"

primrec call_hash_fn :: "hash_fn \<Rightarrow> u32 \<Rightarrow> bytes \<Rightarrow> u32" where
  "call_hash_fn Hash_djb h buf = uint32_hash_djb h buf"
| "call_hash_fn (Hash_custom f) h buf = f h buf"

text \<open>\<^verbatim>\<open>uint32_hash_identity\<close> loads the first four bytes in host order (little-endian here).\<close>

definition uint32_hash_identity :: "u32 \<Rightarrow> bytes \<Rightarrow> u32 option" where
  "uint32_hash_identity h buf =
     (if 4 \<le> length buf then Some (word_of_nat (be_val (rev (take 4 buf)))) else None)"

subsection \<open>Branchless selection and hexadecimal digits\<close>

definition int32_x_lt_y_returns_all_ones :: "u32 \<Rightarrow> u32 \<Rightarrow> u32" where
  "int32_x_lt_y_returns_all_ones x y = - drop_bit 31 (x - y)"

definition int32_x_lt_y_select_a_else_b :: "u32 \<Rightarrow> u32 \<Rightarrow> u32 \<Rightarrow> u32 \<Rightarrow> u32" where
  "int32_x_lt_y_select_a_else_b x y a b = (int32_x_lt_y_returns_all_ones x y AND (a XOR b)) XOR b"

definition ntoux :: "u32 \<Rightarrow> u8" where
  "ntoux n = ucast (n + int32_x_lt_y_select_a_else_b n 10 48 (65 - 10))"

definition uxton :: "u32 \<Rightarrow> u32" where
  "uxton x = x - int32_x_lt_y_select_a_else_b x 65 48 (65 - 10)"

definition ntolx :: "u32 \<Rightarrow> u8" where
  "ntolx n = ucast (n + int32_x_lt_y_select_a_else_b n 10 48 (97 - 10))"

definition lxton :: "u32 \<Rightarrow> u32" where
  "lxton x = x - int32_x_lt_y_select_a_else_b x 97 48 (97 - 10)"

definition int32_intermediate_select_a_else_b :: "u32 \<Rightarrow> u32 \<Rightarrow> u32 \<Rightarrow> u32" where
  "int32_intermediate_select_a_else_b m a b = (m AND a) OR (NOT m AND b)"

definition xton_select_lt_A :: "u32 \<Rightarrow> u32 \<Rightarrow> u32" where
  "xton_select_lt_A x x_lt_A_all_ones =
     int32_intermediate_select_a_else_b x_lt_A_all_ones (x - 48) ((x AND 7) + 9)"

definition uint32_to_ascii8uphex :: "u32 \<Rightarrow> bytes" where
  "uint32_to_ascii8uphex n =
    (let n0 = drop_bit 28 (n AND 0xF0000000); n1 = drop_bit 24 (n AND 0x0F000000);
         n2 = drop_bit 20 (n AND 0x00F00000); n3 = drop_bit 16 (n AND 0x000F0000);
         n4 = drop_bit 12 (n AND 0x0000F000); n5 = drop_bit 8 (n AND 0x00000F00);
         n6 = drop_bit 4 (n AND 0x000000F0); n7 = n AND 0x0000000F
     in [ntoux n0, ntoux n1, ntoux n2, ntoux n3, ntoux n4, ntoux n5, ntoux n6, ntoux n7])"

definition uint16_to_ascii4uphex :: "u32 \<Rightarrow> bytes" where
  "uint16_to_ascii4uphex n =
    (let n0 = drop_bit 12 (n AND 0x0000F000); n1 = drop_bit 8 (n AND 0x00000F00);
         n2 = drop_bit 4 (n AND 0x000000F0); n3 = n AND 0x0000000F
     in [ntoux n0, ntoux n1, ntoux n2, ntoux n3])"

text \<open>The readers take the characters of the buffer; fewer than eight (four) is an overrun.\<close>

fun uint32_from_ascii8uphex :: "bytes \<Rightarrow> u32 option" where
  "uint32_from_ascii8uphex (x0 # x1 # x2 # x3 # x4 # x5 # x6 # x7 # _) =
    Some (push_bit 28 (uxton (ucast x0)) OR push_bit 24 (uxton (ucast x1)) OR
          push_bit 20 (uxton (ucast x2)) OR push_bit 16 (uxton (ucast x3)) OR
          push_bit 12 (uxton (ucast x4)) OR push_bit 8 (uxton (ucast x5)) OR
          push_bit 4 (uxton (ucast x6)) OR uxton (ucast x7))"
| "uint32_from_ascii8uphex _ = None"

fun uint16_from_ascii4uphex :: "bytes \<Rightarrow> u16 option" where
  "uint16_from_ascii4uphex (x0 # x1 # x2 # x3 # _) =
    Some (ucast (push_bit 12 (uxton (ucast x0)) OR push_bit 8 (uxton (ucast x1)) OR
                 push_bit 4 (uxton (ucast x2)) OR uxton (ucast x3)))"
| "uint16_from_ascii4uphex _ = None"

definition xton :: "u32 \<Rightarrow> u32" where
  "xton x = xton_select_lt_A x (int32_x_lt_y_returns_all_ones x 65)"

fun uint32_from_ascii8hex :: "bytes \<Rightarrow> u32 option" where
  "uint32_from_ascii8hex (x0 # x1 # x2 # x3 # x4 # x5 # x6 # x7 # _) =
    Some (push_bit 28 (xton (ucast x0)) OR push_bit 24 (xton (ucast x1)) OR
          push_bit 20 (xton (ucast x2)) OR push_bit 16 (xton (ucast x3)) OR
          push_bit 12 (xton (ucast x4)) OR push_bit 8 (xton (ucast x5)) OR
          push_bit 4 (xton (ucast x6)) OR xton (ucast x7))"
| "uint32_from_ascii8hex _ = None"

fun uint16_from_ascii4hex :: "bytes \<Rightarrow> u16 option" where
  "uint16_from_ascii4hex (x0 # x1 # x2 # x3 # _) =
    Some (ucast (push_bit 12 (xton (ucast x0)) OR push_bit 8 (xton (ucast x1)) OR
                 push_bit 4 (xton (ucast x2)) OR xton (ucast x3)))"
| "uint16_from_ascii4hex _ = None"

subsection \<open>Base-10 conversion\<close>

text \<open>
  The loop fills a 12-byte buffer from its end; the first argument counts the bytes still free
  before the ones written, and a store before the buffer is a fault.  The function's result is
  the bytes it copies to the caller's buffer; the C return value is their number.
\<close>

fun base10_loop_from :: "nat \<Rightarrow> u32 \<Rightarrow> bytes \<Rightarrow> bytes option" where
  "base10_loop_from 0 x b = None"
| "base10_loop_from (Suc i) x b =
     (let b' = ucast ((x mod 10) + 48) # b; x' = x div 10
      in if x' \<noteq> 0 then base10_loop_from i x' b' else Some b')"

definition uint32_to_ascii_base10_loop :: "u32 \<Rightarrow> bytes option" where
  "uint32_to_ascii_base10_loop x = base10_loop_from 12 x []"

definition uint32_to_ascii_base10 :: "u32 \<Rightarrow> bytes option" where
  "uint32_to_ascii_base10 x =
     (if x < 10 then Some [ucast (x + 48)]
      else if x < 100 then Some [ucast ((x div 10) + 48), ucast ((x mod 10) + 48)]
      else uint32_to_ascii_base10_loop x)"

text \<open>The \<^verbatim>\<open>int32_t\<close> argument is its two's complement pattern.\<close>

definition int32_to_ascii_base10 :: "u32 \<Rightarrow> bytes option" where
  "int32_to_ascii_base10 x =
     (if sint x < 0 then
        if x \<noteq> 0x80000000 then
          map_option (\<lambda>s. 45 # s) (uint32_to_ascii_base10 (- x))
        else Some [45, 50, 49, 52, 55, 52, 56, 51, 54, 52, 56]
      else uint32_to_ascii_base10 x)"

subsection \<open>Correctness of the hexadecimal conversions\<close>

lemma nibble_cases:
  assumes "(n :: u32) < 16"
  shows "n \<in> {0,1,2,3,4,5,6,7,8,9,10,11,12,13,14,15}"
proof -
  have "unat n < 16" using assms by (simp add: word_less_nat_alt)
  then have "unat n = 0 \<or> unat n = 1 \<or> unat n = 2 \<or> unat n = 3 \<or> unat n = 4 \<or> unat n = 5 \<or> unat n = 6 \<or> unat n = 7 
   \<or> unat n = 8 \<or> unat n = 9 \<or> unat n = 10 \<or> unat n = 11 \<or> unat n = 12 \<or> unat n = 13 \<or> unat n = 14 \<or> unat n = 15" by presburger
  then have "unat n \<in> {0,1,2,3,4,5,6,7,8,9,10,11,12,13,14,15}" by simp
  then have "word_of_nat (unat n) \<in> (word_of_nat :: nat \<Rightarrow> u32) ` {0,1,2,3,4,5,6,7,8,9,10,11,12,13,14,15}"
    by blast
  then show ?thesis by simp
qed

lemma nibble_mask: 
   "drop_bit 28 (n AND 0xF0000000) = take_bit 4 (drop_bit 28 (n :: u32))"
   "drop_bit 24 (n AND 0x0F000000) = take_bit 4 (drop_bit 24 n)"
   "drop_bit 20 (n AND 0x00F00000) = take_bit 4 (drop_bit 20 n)"
   "drop_bit 16 (n AND 0x000F0000) = take_bit 4 (drop_bit 16 n)"
   "drop_bit 12 (n AND 0x0000F000) = take_bit 4 (drop_bit 12 n)"
   "drop_bit 8 (n AND 0x00000F00) = take_bit 4 (drop_bit 8 n)"
   "drop_bit 4 (n AND 0x000000F0) = take_bit 4 (drop_bit 4 n)"
   "n AND 0x0000000F = take_bit 4 n"
  by (simp_all add: take_bit_eq_mask mask_eq_exp_minus_1)

lemma nibble_less: "take_bit 4 (n :: u32) < 16"
  by (simp add: take_bit_eq_mod word_less_nat_alt unat_mod)

lemma nibble_join: "push_bit k (take_bit 4 (drop_bit k n)) OR take_bit k n = take_bit (k + 4) (n :: u32)"
  by (rule bit_eqI) (auto simp: bit_simps)

lemma nibbles_join:
  "push_bit 28 (take_bit 4 (drop_bit 28 n)) OR push_bit 24 (take_bit 4 (drop_bit 24 n)) OR
   push_bit 20 (take_bit 4 (drop_bit 20 n)) OR push_bit 16 (take_bit 4 (drop_bit 16 n)) OR
   push_bit 12 (take_bit 4 (drop_bit 12 n)) OR push_bit 8 (take_bit 4 (drop_bit 8 n)) OR
   push_bit 4 (take_bit 4 (drop_bit 4 n)) OR take_bit 4 n = (n :: u32)"
  using nibble_join [of 4 n] nibble_join [of 8 n] nibble_join [of 12 n] nibble_join [of 16 n]
    nibble_join [of 20 n] nibble_join [of 24 n] nibble_join [of 28 n] take_bit_word_eq_self [of 32 n]
  by simp

lemmas select_defs = int32_x_lt_y_select_a_else_b_def int32_x_lt_y_returns_all_ones_def
  xton_select_lt_A_def int32_intermediate_select_a_else_b_def

lemma uxton_ntoux: "(n :: u32) < 16 \<Longrightarrow> uxton (ucast (ntoux n)) = n"
  using nibble_cases [of n] by (auto simp: uxton_def ntoux_def select_defs)

lemma xton_ntoux: "(n :: u32) < 16 \<Longrightarrow> xton (ucast (ntoux n)) = n"
  using nibble_cases [of n] by (auto simp: xton_def ntoux_def select_defs)

lemma xton_ntolx: "(n :: u32) < 16 \<Longrightarrow> xton (ucast (ntolx n)) = n"
  using nibble_cases [of n] by (auto simp: xton_def ntolx_def select_defs)

lemma ascii8uphex_roundtrip: "uint32_from_ascii8uphex (uint32_to_ascii8uphex n @ rest) = Some n"
  by (simp add: uint32_to_ascii8uphex_def nibble_mask uxton_ntoux nibble_less nibbles_join)

lemma ascii8hex_reads_upper: "uint32_from_ascii8hex (uint32_to_ascii8uphex n @ rest) = Some n"
  by (simp add: uint32_to_ascii8uphex_def nibble_mask xton_ntoux nibble_less nibbles_join)

lemma nibble_join4:
  "push_bit 12 (take_bit 4 (drop_bit 12 n)) OR push_bit 8 (take_bit 4 (drop_bit 8 n)) OR
   push_bit 4 (take_bit 4 (drop_bit 4 n)) OR take_bit 4 n = take_bit 16 (n :: u32)"
  using nibble_join [of 4 n] nibble_join [of 8 n] nibble_join [of 12 n] by simp

lemma ucast_take_bit16: "ucast (take_bit 16 n :: u32) = (ucast n :: u16)"
  by (rule bit_eqI) (auto simp: bit_simps)

lemma ascii4hex_reads_upper: "uint16_from_ascii4hex (uint16_to_ascii4uphex n @ rest) = Some (ucast n)"
  by (simp add: uint16_to_ascii4uphex_def nibble_mask xton_ntoux nibble_less nibble_join4 ucast_take_bit16)

lemma ascii4uphex_roundtrip: "uint16_from_ascii4uphex (uint16_to_ascii4uphex n @ rest) = Some (ucast n)"
  by (simp add: uint16_to_ascii4uphex_def nibble_mask uxton_ntoux nibble_less nibble_join4 ucast_take_bit16)

subsection \<open>Correctness of the base-10 conversions\<close>

definition is_digit :: "u8 \<Rightarrow> bool" where "is_digit c \<longleftrightarrow> 48 \<le> c \<and> c \<le> 57"

definition dec_val :: "bytes \<Rightarrow> nat" where "dec_val s = foldl (\<lambda>a c. a * 10 + (unat c - 48)) 0 s"

text \<open>The decimal digits of a number, most significant first: the reference the conversions meet.\<close>

fun dec_digits :: "nat \<Rightarrow> bytes" where
  "dec_digits n = (if n < 10 then [word_of_nat n + 48] else dec_digits (n div 10) @ [word_of_nat (n mod 10) + 48])"

declare dec_digits.simps [simp del]

lemma unat_digit: "d < 10 \<Longrightarrow> unat (word_of_nat d + 48 :: u8) = d + 48"
  by (simp add: unat_word_ariths unat_of_nat)

lemma dec_val_snoc: "dec_val (s @ [c]) = dec_val s * 10 + (unat c - 48)"
  by (simp add: dec_val_def)

lemma dec_val_dec_digits [simp]: "dec_val (dec_digits n) = n"
proof (induction n rule: dec_digits.induct)
  case (1 n)
  then show ?case
    by (cases "n < 10") (auto simp: dec_digits.simps [of n] dec_val_snoc unat_digit dec_val_def)
qed

lemma is_digit_of_nat: "d < 10 \<Longrightarrow> is_digit (word_of_nat d + 48)"
  by (simp add: is_digit_def word_le_nat_alt unat_digit)

lemma dec_digits_digits: "c \<in> set (dec_digits n) \<Longrightarrow> is_digit c"
proof (induction n rule: dec_digits.induct)
  case (1 n)
  then show ?case
    by (cases "n < 10") (auto simp: dec_digits.simps [of n] is_digit_of_nat)
qed

lemma dec_digits_nonempty [simp]: "dec_digits n \<noteq> []"
  by (simp add: dec_digits.simps)

lemma length_dec_digits: "n < 10 ^ k \<Longrightarrow> 0 < k \<Longrightarrow> length (dec_digits n) \<le> k"
proof (induction n arbitrary: k rule: dec_digits.induct)
  case (1 n)
  show ?case
  proof (cases "n < 10")
    case True
    with 1(3) show ?thesis by (simp add: dec_digits.simps [of n])
  next
    case False
    then obtain j where j: "k = Suc j" "0 < j" using 1(2,3) by (cases k; cases "k - 1") auto
    then have "n div 10 < 10 ^ j" using 1(2) by (simp add: less_mult_imp_div_less mult.commute)
    with 1(1) [OF False, of j] j False show ?thesis by (simp add: dec_digits.simps [of n])
  qed
qed

lemma dec_digits_no_leading_zero: "10 \<le> n \<Longrightarrow> hd (dec_digits n) \<noteq> 48"
proof (induction n rule: dec_digits.induct)
  case (1 n)
  show ?case
  proof (cases "n div 10 < 10")
    case True
    with 1(2) have "hd (dec_digits n) = word_of_nat (n div 10) + 48"
      by (simp add: dec_digits.simps [of n] dec_digits.simps [of "n div 10"])
    moreover have "unat (word_of_nat (n div 10) + 48 :: u8) \<noteq> unat (48 :: u8)"
      using True 1(2) by (subst unat_digit) auto
    ultimately show ?thesis by metis
  next
    case False
    with 1 show ?thesis by (simp add: dec_digits.simps [of n])
  qed
qed

lemma digit_word: "(ucast ((x mod 10) + 48 :: u32) :: u8) = word_of_nat (unat x mod 10) + 48"
proof -
  have "(x mod 10) + 48 = (word_of_nat (unat x mod 10 + 48) :: u32)"
    by (rule word_unat_eq_iff [THEN iffD2]) (simp add: unat_word_ariths unat_of_nat unat_mod)
  also have "(ucast \<dots> :: u8) = word_of_nat (take_bit LENGTH(32) (unat x mod 10 + 48))"
    by (rule unsigned_of_nat)
  also have "take_bit LENGTH(32) (unat x mod 10 + 48) = unat x mod 10 + 48"
    by (rule take_bit_nat_eq_self) (simp add: le_less_trans [of _ "57"])
  finally show ?thesis by simp
qed

lemma base10_loop_from_eq:
  "unat x < 10 ^ i \<Longrightarrow> 0 < i \<Longrightarrow> base10_loop_from i x b = Some (dec_digits (unat x) @ b)"
proof (induction i x b rule: base10_loop_from.induct)
  case (1 x b)
  then show ?case by simp
next
  case (2 i x b)
  have u: "unat (x div 10) = unat x div 10" by (simp add: unat_div)
  show ?case
  proof (cases "x div 10 = 0")
    case True
    then have "unat x div 10 = 0" using u by simp
    then have "unat x < 10" by linarith
    with True show ?thesis by (simp add: digit_word dec_digits.simps [of "unat x"])
  next
    case False
    then have nz: "\<not> unat x < 10" using u by (metis div_less unat_0_iff)
    then have "0 < i" using 2(2) by (cases i) auto
    moreover have "unat (x div 10) < 10 ^ i" using 2(2) u by (simp add: less_mult_imp_div_less mult.commute)
    ultimately show ?thesis using 2(1) False nz u
      by (simp add: digit_word dec_digits.simps [of "unat x"] Let_def)
  qed
qed

lemma base10_loop_eq: "uint32_to_ascii_base10_loop x = Some (dec_digits (unat x))"
  using unat_u32_less [of x] by (simp add: uint32_to_ascii_base10_loop_def base10_loop_from_eq)

lemma base10_eq: "uint32_to_ascii_base10 x = Some (dec_digits (unat x))"
proof -
  consider "unat x < 10" | "10 \<le> unat x" "unat x < 100" | "100 \<le> unat x" by linarith
  then show ?thesis
  proof cases
    case 1
    then have "x < 10" "x mod 10 = x" by (simp_all add: word_less_nat_alt word_unat_eq_iff unat_mod)
    with 1 show ?thesis using digit_word [of x]
      by (simp add: uint32_to_ascii_base10_def dec_digits.simps [of "unat x"])
  next
    case 2
    then have "\<not> x < 10" "x < 100" "x div 10 mod 10 = x div 10" by (simp_all add: word_less_nat_alt word_unat_eq_iff unat_mod unat_div)
    moreover have "unat x div 10 < 10" "unat x div 10 mod 10 = unat x div 10" using 2 by auto
    ultimately show ?thesis using 2 digit_word [of x] digit_word [of "x div 10"]
      by (simp add: uint32_to_ascii_base10_def dec_digits.simps [of "unat x"] dec_digits.simps [of "unat x div 10"] unat_div)
  next
    case 3
    then have "\<not> x < 10" "\<not> x < 100" by (simp_all add: word_less_nat_alt)
    then show ?thesis by (simp add: uint32_to_ascii_base10_def base10_loop_eq)
  qed
qed

lemma unat_sint_nonneg: "0 \<le> sint (x :: u32) \<Longrightarrow> unat x = nat (sint x)"
  using sint_lt [of x] by (simp add: unat_eq_nat_uint uint_sint take_bit_eq_mod)

lemma unat_neg_sint:
  assumes "sint (x :: u32) < 0"
  shows "unat (- x) = nat (- sint x)"
proof -
  have "uint (- x) = (- uint x) mod 2 ^ 32" by (simp add: uint_word_ariths)
  also have "\<dots> = (- sint x) mod 2 ^ 32" by (simp add: uint_sint take_bit_eq_mod mod_minus_eq)
  also have "\<dots> = - sint x" using assms sint_ge [of x] by simp
  finally show ?thesis by (simp add: unat_eq_nat_uint)
qed

lemma int32_base10: 
  "int32_to_ascii_base10 x =
     Some (if sint x < 0 then 45 # dec_digits (nat (- sint x)) else dec_digits (nat (sint x)))"
proof -
  have min: "sint (0x80000000 :: u32) = - 2147483648" by simp
  have digits_min: "dec_digits 2147483648 = [50, 49, 52, 55, 52, 56, 51, 54, 52, 56]"
    by (simp add: dec_digits.simps)
  show ?thesis
    by (cases "sint x < 0"; cases "x = 0x80000000")
      (simp_all add: int32_to_ascii_base10_def base10_eq digits_min unat_neg_sint unat_sint_nonneg)
qed

end
