(* ===== verification/Mcdb_Os.thy ===== *)
theory Mcdb_Os
  imports Mcdb_Prelude
begin

text \<open>
  What the database writer sees of the operating system: one output file behind a descriptor,
  the blocks obtained from \<^verbatim>\<open>fn_malloc\<close>, \<^verbatim>\<open>errno\<close>, and an environment that decides the
  outcome of every external call.  The k-th external call succeeds when
  \<^verbatim>\<open>o_fail w k\<close> is 0 and otherwise fails with that error number; \<^verbatim>\<open>o_count w k\<close> is the number
  of bytes a short write transfers.  A theorem over an arbitrary \<^verbatim>\<open>os\<close> state therefore
  quantifies over every pattern of failures.

  The file is a content function with a length; a shared mapping of the file is a window
  on this content, so stores through the mapping and \<^verbatim>\<open>write()\<close> to the descriptor meet in
  the same bytes.
\<close>

record os =
  o_file :: mem                     \<comment> \<open>content of the output file\<close>
  o_flen :: nat                     \<comment> \<open>its length\<close>
  o_off :: nat                      \<comment> \<open>file offset of the descriptor\<close>
  o_fail :: "nat \<Rightarrow> nat"            \<comment> \<open>outcome of each external call\<close>
  o_count :: "nat \<Rightarrow> nat"           \<comment> \<open>bytes taken by each \<^verbatim>\<open>write()\<close>\<close>
  o_step :: nat                     \<comment> \<open>external calls made so far\<close>
  o_errno :: nat
  o_live :: "nat list"              \<comment> \<open>allocated blocks\<close>
  o_fresh :: nat                    \<comment> \<open>address of the next block\<close>

definition EPERM :: nat where "EPERM = 1"
definition ENOENT :: nat where "ENOENT = 2"
definition EINTR :: nat where "EINTR = 4"
definition EBADF :: nat where "EBADF = 9"
definition ENOMEM :: nat where "ENOMEM = 12"
definition EINVAL :: nat where "EINVAL = 22"

definition ext_call :: "os \<Rightarrow> bool \<times> os" where
  "ext_call w =
     (let r = o_fail w (o_step w); w' = w\<lparr>o_step := Suc (o_step w)\<rparr>
      in if r = 0 then (True, w') else (False, w'\<lparr>o_errno := r\<rparr>))"

text \<open>\<^verbatim>\<open>fn_malloc\<close> and \<^verbatim>\<open>fn_free\<close>; freeing a block that is not allocated is undefined.\<close>

definition os_malloc :: "os \<Rightarrow> nat option \<times> os" where
  "os_malloc w =
     (let (ok, w1) = ext_call w
      in if ok then (Some (o_fresh w1), w1\<lparr>o_live := o_fresh w1 # o_live w1, o_fresh := Suc (o_fresh w1)\<rparr>)
         else (None, w1))"

definition os_free :: "nat \<Rightarrow> os \<Rightarrow> os option" where
  "os_free p w = (if p \<in> set (o_live w) then Some (w\<lparr>o_live := remove1 p (o_live w)\<rparr>) else None)"

fun os_free_list :: "nat list \<Rightarrow> os \<Rightarrow> os option" where
  "os_free_list [] w = Some w"
| "os_free_list (p # ps) w = Option.bind (os_free p w) (os_free_list ps)"

text \<open>Setting the length of the file; bytes past the old end read as zero.\<close>

definition set_flen :: "nat \<Rightarrow> os \<Rightarrow> os" where
  "set_flen n w = w\<lparr>o_file := (\<lambda>i. if i < o_flen w \<and> i < n then o_file w i else 0), o_flen := n\<rparr>"

text \<open>\<^verbatim>\<open>posix_fallocate(fd,off,len)\<close>: the file has at least off+len bytes afterwards; the
  result is an error number and \<^verbatim>\<open>errno\<close> is assigned from it by the caller.\<close>

definition os_fallocate :: "nat \<Rightarrow> nat \<Rightarrow> os \<Rightarrow> nat \<times> os" where
  "os_fallocate off len w =
     (let r = o_fail w (o_step w); w1 = w\<lparr>o_step := Suc (o_step w)\<rparr>
      in if r = 0 then (0, if o_flen w < off + len then set_flen (off + len) w1 else w1) else (r, w1))"

definition os_ftruncate :: "nat \<Rightarrow> os \<Rightarrow> bool \<times> os" where
  "os_ftruncate n w = (let (ok, w1) = ext_call w in (ok, if ok then set_flen n w1 else w1))"

definition os_lseek :: "nat \<Rightarrow> os \<Rightarrow> bool \<times> os" where
  "os_lseek n w = (let (ok, w1) = ext_call w in (ok, if ok then w1\<lparr>o_off := n\<rparr> else w1))"

text \<open>\<^verbatim>\<open>write()\<close> of a non-empty buffer: an error, or between one byte and all of them.\<close>

definition os_write :: "bytes \<Rightarrow> os \<Rightarrow> nat option \<times> os" where
  "os_write buf w =
     (let n = min (length buf) (max 1 (o_count w (o_step w))); (ok, w1) = ext_call w
      in if ok then (Some n, w1\<lparr>o_file := mem_upd (o_file w1) (o_off w1) (take n buf),
                                o_flen := max (o_flen w1) (o_off w1 + n), o_off := o_off w1 + n\<rparr>)
         else (None, w1))"

text \<open>
  \<^verbatim>\<open>nointr_write\<close> (nointr.c): write until everything is written, again after \<^verbatim>\<open>EINTR\<close>;
  the result is whether it succeeded.  A call that is interrupted for ever does not return.
\<close>

partial_function (option) nointr_write :: "bytes \<Rightarrow> os \<Rightarrow> (bool \<times> os) option" where
  "nointr_write buf w =
     (case os_write buf w of
        (Some n, w1) \<Rightarrow> (if drop n buf \<noteq> [] then nointr_write (drop n buf) w1 else Some (True, w1))
      | (None, w1) \<Rightarrow> (if o_errno w1 = EINTR then nointr_write buf w1 else Some (False, w1)))"

text \<open>An empty output file in an environment with the given outcomes.\<close>

definition os_empty :: "(nat \<Rightarrow> nat) \<Rightarrow> (nat \<Rightarrow> nat) \<Rightarrow> os" where
  "os_empty fail count = \<lparr>o_file = (\<lambda>_. 0), o_flen = 0, o_off = 0, o_fail = fail, o_count = count,
     o_step = 0, o_errno = 0, o_live = [], o_fresh = 0\<rparr>"

text \<open>The environment does not interrupt for ever.\<close>

definition eintr_fair :: "os \<Rightarrow> bool" where
  "eintr_fair w \<longleftrightarrow> (\<forall>k. \<exists>j \<ge> k. o_fail w j \<noteq> EINTR)"

lemma ext_call_frame:
  "ext_call w = (ok, w') \<Longrightarrow>
     o_file w' = o_file w \<and> o_flen w' = o_flen w \<and> o_off w' = o_off w \<and> o_fail w' = o_fail w \<and>
     o_count w' = o_count w \<and> o_live w' = o_live w \<and> o_fresh w' = o_fresh w"
  by (auto simp: ext_call_def Let_def split: if_splits)

end
