(* ===== verification/Mcdb_Make.thy ===== *)
theory Mcdb_Make
  imports Uint32 Mcdb_Os
begin

text \<open>
  The database writer, mcdb\_make.c, on the 64-bit build with glibc.  The state is the struct
  \<^verbatim>\<open>mcdb_make\<close>; the per-slot lists of hash entries are the chains of \<^verbatim>\<open>mcdb_hplist\<close> nodes,
  newest first, as \<^verbatim>\<open>next\<close> links them.
\<close>

subsection \<open>Constants of mcdb.h and limits.h\<close>

definition MCDB_SLOT_BITS :: nat where "MCDB_SLOT_BITS = 8"
definition MCDB_SLOTS :: nat where "MCDB_SLOTS = 256"
definition MCDB_SLOT_MASK :: u32 where "MCDB_SLOT_MASK = 255"
definition MCDB_HEADER_SZ :: nat where "MCDB_HEADER_SZ = 4096"
definition MCDB_MMAP_SZ :: nat where "MCDB_MMAP_SZ = 524288"
definition MCDB_BLOCK_SZ :: nat where "MCDB_BLOCK_SZ = 4194304"
definition MCDB_PAD_ALIGN :: nat where "MCDB_PAD_ALIGN = 16"
definition MCDB_HPLIST :: nat where "MCDB_HPLIST = 250"
definition INT_MAX :: nat where "INT_MAX = 2147483647"
definition UINT_MAX :: nat where "UINT_MAX = 4294967295"

lemmas mcdb_consts = MCDB_SLOT_BITS_def MCDB_SLOTS_def MCDB_SLOT_MASK_def MCDB_HEADER_SZ_def
  MCDB_MMAP_SZ_def MCDB_BLOCK_SZ_def MCDB_PAD_ALIGN_def MCDB_HPLIST_def INT_MAX_def UINT_MAX_def

definition slot_of :: "u32 \<Rightarrow> nat" where
  "slot_of h = unat (h AND MCDB_SLOT_MASK)"

subsection \<open>State\<close>

record mcdb_hp =
  hp_p :: nat    \<comment> \<open>file position of the record\<close>
  hp_h :: u32    \<comment> \<open>hash of its key\<close>
  hp_l :: u32    \<comment> \<open>key length; all ones is the flag to allocate lists\<close>

text \<open>
  A list node.  Node i of an allocated array only ever serves slot i, so the node is named by
  its array's block; \<^verbatim>\<open>hl_hps\<close> are the first \<^verbatim>\<open>num\<close> elements of \<^verbatim>\<open>hp[]\<close>; \<^verbatim>\<open>hl_pend\<close> are
  the blocks of the chain from \<^verbatim>\<open>pend\<close> on, \<^term>\<open>None\<close> while the field is uninitialised.
\<close>

record mcdb_hplist =
  hl_blk :: nat
  hl_hps :: "mcdb_hp list"
  hl_pend :: "nat list option"

record mcdb_make =
  mk_pos :: nat
  mk_offset :: nat
  mk_mapped :: bool                    \<comment> \<open>\<^verbatim>\<open>map != MAP_FAILED\<close>\<close>
  mk_hash_init :: u32
  mk_hash_fn :: hash_fn
  mk_fsz :: nat
  mk_osz :: nat
  mk_msz :: nat
  mk_pgalign :: u64
  mk_hp :: mcdb_hp
  mk_fd :: int
  mk_count :: "nat \<Rightarrow> u32"
  mk_head :: "nat \<Rightarrow> mcdb_hplist list"  \<comment> \<open>\<^term>\<open>[]\<close> is the null pointer\<close>

text \<open>Rounding a size down and up to whole pages with the mask \<^verbatim>\<open>pgalign\<close>.\<close>

definition pg_down :: "u64 \<Rightarrow> nat \<Rightarrow> nat" where
  "pg_down pgalign x = unat (word_of_nat x AND pgalign)"

definition pg_up :: "u64 \<Rightarrow> nat \<Rightarrow> nat" where
  "pg_up pgalign x = unat ((word_of_nat x + NOT pgalign) AND pgalign)"

text \<open>Access through the current mapping at a file position: outside the window, or past the
  end of the file behind it, the access is a fault.\<close>

definition mk_access :: "mcdb_make \<Rightarrow> os \<Rightarrow> nat \<Rightarrow> nat \<Rightarrow> bool" where
  "mk_access m w a n \<longleftrightarrow> mk_mapped m \<and> mk_offset m \<le> a \<and> a + n \<le> mk_offset m + mk_msz m \<and>
     (mk_fd m = -1 \<or> a + n \<le> o_flen w)"

definition mk_store :: "mcdb_make \<Rightarrow> nat \<Rightarrow> bytes \<Rightarrow> os \<Rightarrow> os option" where
  "mk_store m a bs w =
     (if mk_access m w a (length bs) then Some (w\<lparr>o_file := mem_upd (o_file w) a bs\<rparr>) else None)"

definition mk_fill :: "mcdb_make \<Rightarrow> nat \<Rightarrow> nat \<Rightarrow> u8 \<Rightarrow> os \<Rightarrow> os option" where
  "mk_fill m a n c w =
     (if mk_access m w a n then Some (w\<lparr>o_file := mem_fill (o_file w) a n c\<rparr>) else None)"

definition mk_load :: "mcdb_make \<Rightarrow> nat \<Rightarrow> nat \<Rightarrow> os \<Rightarrow> bytes option" where
  "mk_load m a n w = (if mk_access m w a n then Some (mem_slice (o_file w) a n) else None)"

text \<open>Word accesses of \<^term>\<open>k\<close> bytes need an aligned address (the mapping is page aligned).\<close>

definition mk_store_aligned :: "mcdb_make \<Rightarrow> nat \<Rightarrow> bytes \<Rightarrow> os \<Rightarrow> os option" where
  "mk_store_aligned m a bs w = (if a mod length bs = 0 then mk_store m a bs w else None)"

definition mk_load_aligned :: "mcdb_make \<Rightarrow> nat \<Rightarrow> nat \<Rightarrow> os \<Rightarrow> bytes option" where
  "mk_load_aligned m a n w = (if a mod n = 0 then mk_load m a n w else None)"

subsection \<open>Destruction and errors\<close>

text \<open>
  Every block is freed through its element 0.  The code clears \<^verbatim>\<open>head[0]\<close> only; the other
  heads dangle, which the model makes null pointers, so that following one is a fault too.
\<close>

definition mcdb_make_destroy :: "mcdb_make \<Rightarrow> os \<Rightarrow> (int \<times> mcdb_make \<times> os) option" where
  "mcdb_make_destroy m w =
     (let (rc, m1, w1) =
        (if mk_mapped m \<and> mk_fd m \<noteq> -1 then
           (let errsave = o_errno w; (ok, w') = ext_call w   \<comment> \<open>munmap\<close>
            in (if ok then 0 else -1, m\<lparr>mk_mapped := False\<rparr>,
                if errsave \<noteq> 0 then w'\<lparr>o_errno := errsave\<rparr> else w'))
         else (0, m, w))
      in case mk_head m1 0 of
           [] \<Rightarrow> Some (rc, m1, w1)
         | x # xs \<Rightarrow> do {
             pend \<leftarrow> hl_pend x;
             w2 \<leftarrow> os_free_list pend w1;
             w3 \<leftarrow> os_free_list (map hl_blk (x # xs)) w2;
             Some (rc, m1\<lparr>mk_head := (\<lambda>_. [])\<rparr>, w3) })"

definition mcdb_make_err :: "mcdb_make \<Rightarrow> nat \<Rightarrow> os \<Rightarrow> (int \<times> mcdb_make \<times> os) option" where
  "mcdb_make_err m errnum w = do {
     (_, m1, w1) \<leftarrow> mcdb_make_destroy m w;
     Some (-1, m1, w1\<lparr>o_errno := errnum\<rparr>) }"

text \<open>\<^verbatim>\<open>mcdb_make_err(NULL, errnum)\<close>.\<close>

definition mcdb_make_err_null :: "mcdb_make \<Rightarrow> nat \<Rightarrow> os \<Rightarrow> (int \<times> mcdb_make \<times> os) option" where
  "mcdb_make_err_null m errnum w = Some (-1, m, w\<lparr>o_errno := errnum\<rparr>)"

subsection \<open>Lists of hash entries\<close>

definition mcdb_hplist_alloc :: "mcdb_make \<Rightarrow> os \<Rightarrow> (bool \<times> mcdb_make \<times> os) option" where
  "mcdb_hplist_alloc m w =
     (let i = slot_of (hp_h (mk_hp m))
      in case mk_head m i of
           [] \<Rightarrow> None
         | head # nxt \<Rightarrow> do {
             pend \<leftarrow> hl_pend head;
             case pend of
               p # ps \<Rightarrow>
                 Some (True, m\<lparr>mk_head := (mk_head m)
                   (i := \<lparr>hl_blk = p, hl_hps = [], hl_pend = Some ps\<rparr> # head # nxt)\<rparr>, w)
             | [] \<Rightarrow>
                 (case os_malloc w of
                    (None, w1) \<Rightarrow> Some (False, m, w1)
                  | (Some blk, w1) \<Rightarrow> do {
                      _ \<leftarrow> guard (\<forall>j \<in> set [0..<MCDB_SLOTS].
                             mk_head m j \<noteq> [] \<and>
                             (length (hl_hps (hd (mk_head m j))) \<noteq> MCDB_HPLIST \<longrightarrow>
                                hl_pend (hd (mk_head m j)) \<noteq> None));
                      let m1 = m\<lparr>mk_head := (\<lambda>j.
                        if j < MCDB_SLOTS then
                          (if length (hl_hps (hd (mk_head m j))) \<noteq> MCDB_HPLIST
                           then (hd (mk_head m j))\<lparr>hl_pend :=
                                   map_option (\<lambda>ps. blk # ps) (hl_pend (hd (mk_head m j)))\<rparr>
                                # tl (mk_head m j)
                           else \<lparr>hl_blk = blk, hl_hps = [], hl_pend = Some []\<rparr> # mk_head m j)
                        else mk_head m j)\<rparr>;
                      let cnt = sum_list (map (mk_count m) [0..<MCDB_SLOTS]);
                      (if unat cnt < INT_MAX then Some (True, m1, w1)
                       else Some (False, m1, w1\<lparr>o_errno := ENOMEM\<rparr>)) }) })"

subsection \<open>Moving the mapping\<close>

text \<open>The file is extended to hold the new window (lines 291-320 of \<^verbatim>\<open>mcdb_mmap_upsize\<close>).\<close>

definition upsize_file :: "mcdb_make \<Rightarrow> nat \<Rightarrow> nat \<Rightarrow> os \<Rightarrow> bool \<times> mcdb_make \<times> os" where
  "upsize_file m offset msz w =
    (if mk_fd m \<noteq> -1 \<and> mk_fsz m < offset + msz then
       (let blk = (if mk_offset m \<noteq> 0 then MCDB_BLOCK_SZ else MCDB_MMAP_SZ);
            m1 = m\<lparr>mk_fsz := (offset + msz + (blk - 1)) div blk * blk\<rparr>;
            (r, w1) = os_fallocate (mk_osz m1) (mk_fsz m1 - mk_osz m1) w;
            w2 = w1\<lparr>o_errno := r\<rparr>
        in if r = 0 then (True, m1\<lparr>mk_osz := mk_fsz m1\<rparr>, w2) else (False, m1, w2))
     else (True, m, w))"

text \<open>The old window is flushed and unmapped (lines 323-331).\<close>

definition upsize_unmap :: "mcdb_make \<Rightarrow> os \<Rightarrow> bool \<times> mcdb_make \<times> os" where
  "upsize_unmap m w =
    (if mk_mapped m then
       (let (ok, w1) = (if mk_fd m = -1 \<or> mk_pos m - mk_offset m = 0 then (True, w)
                        else ext_call w);                                \<comment> \<open>msync\<close>
            (ok2, w2) = (if ok then ext_call w1 else (False, w1))        \<comment> \<open>munmap\<close>
        in if ok2 then (True, m\<lparr>mk_mapped := False\<rparr>, w2) else (False, m, w2))
     else (True, m, w))"

definition mcdb_mmap_upsize :: "mcdb_make \<Rightarrow> nat \<Rightarrow> os \<Rightarrow> bool \<times> mcdb_make \<times> os" where
  "mcdb_mmap_upsize m sz w =
    (let offset = pg_down (mk_pgalign m) (mk_pos m);
         msz = (if MCDB_MMAP_SZ > sz - offset then MCDB_MMAP_SZ else pg_up (mk_pgalign m) (sz - offset));
         (ok1, m1, w1) = upsize_file m offset msz w
     in if \<not> ok1 then (False, m1, w1)
        else
          (let (ok2, m2, w2) = upsize_unmap m1 w1
           in if \<not> ok2 then (False, m2, w2)
              else
                (let (ok3, w3) = ext_call w2                             \<comment> \<open>mmap\<close>
                 in if ok3 then (True, m2\<lparr>mk_mapped := True, mk_offset := offset, mk_msz := msz\<rparr>,
                                 if mk_fd m2 \<noteq> -1 then w3 else w3\<lparr>o_file := (\<lambda>_. 0)\<rparr>)
                    else (False, m2, w3))))"

subsection \<open>Adding records\<close>

definition mcdb_make_addbegin ::
  "plasma_endian \<Rightarrow> mcdb_make \<Rightarrow> nat \<Rightarrow> nat \<Rightarrow> os \<Rightarrow> (int \<times> mcdb_make \<times> os) option" where
  "mcdb_make_addbegin P m keylen datalen w =
    (let pos = mk_pos m; len = 8 + keylen + datalen
     in if \<not> mk_mapped m \<and> mk_fd m \<noteq> -1 then mcdb_make_err_null m EPERM w
        else do {
          (ok, m1, w1) \<leftarrow> (if hp_l (mk_hp m) = -1 then mcdb_hplist_alloc m w else Some (True, m, w));
          if \<not> ok then mcdb_make_err_null m1 (o_errno w1) w1
          else
            (let m2 = m1\<lparr>mk_hp := (mk_hp m1)\<lparr>hp_p := pos, hp_h := mk_hash_init m1\<rparr>\<rparr>
             in if keylen > INT_MAX - 8 \<or> datalen > INT_MAX - 8 then mcdb_make_err_null m2 EINVAL w1
                else
                  (let m3 = m2\<lparr>mk_hp := (mk_hp m2)\<lparr>hp_l := word_of_nat keylen\<rparr>\<rparr>;
                       (ok2, m4, w2) =
                         (if mk_offset m3 + mk_msz m3 < pos + len
                          then mcdb_mmap_upsize m3 (pos + len) w1 else (True, m3, w1))
                   in if \<not> ok2 then mcdb_make_err_null m4 (o_errno w2) w2
                      else do {
                        w3 \<leftarrow> mk_store m4 pos (uint32_strpack_bigendian_macro P (word_of_nat keylen)) w2;
                        w4 \<leftarrow> mk_store m4 (pos + 4) (uint32_strpack_bigendian_macro P (word_of_nat datalen)) w3;
                        Some (0, m4\<lparr>mk_pos := mk_pos m4 + 8\<rparr>, w4) })) })"

definition mcdb_make_addbuf_data :: "mcdb_make \<Rightarrow> bytes \<Rightarrow> os \<Rightarrow> (mcdb_make \<times> os) option" where
  "mcdb_make_addbuf_data m buf w = do {
     w1 \<leftarrow> mk_store m (mk_pos m) buf w;
     Some (m\<lparr>mk_pos := mk_pos m + length buf\<rparr>, w1) }"

definition mcdb_make_addbuf_key :: "mcdb_make \<Rightarrow> bytes \<Rightarrow> os \<Rightarrow> (mcdb_make \<times> os) option" where
  "mcdb_make_addbuf_key m buf w =
     mcdb_make_addbuf_data
       (m\<lparr>mk_hp := (mk_hp m)\<lparr>hp_h := call_hash_fn (mk_hash_fn m) (hp_h (mk_hp m)) buf\<rparr>\<rparr>) buf w"

definition mcdb_make_addend :: "mcdb_make \<Rightarrow> mcdb_make option" where
  "mcdb_make_addend m =
     (let slot_idx = slot_of (hp_h (mk_hp m))
      in case mk_head m slot_idx of
           [] \<Rightarrow> None
         | x # xs \<Rightarrow>
             (let i = length (hl_hps x)
              in if i < MCDB_HPLIST then
                   Some (m\<lparr>mk_head := (mk_head m)(slot_idx := x\<lparr>hl_hps := hl_hps x @ [mk_hp m]\<rparr> # xs),
                           mk_count := (mk_count m)(slot_idx := mk_count m slot_idx + 1),
                           mk_hp := (if i = MCDB_HPLIST - 1 then (mk_hp m)\<lparr>hp_l := -1\<rparr> else mk_hp m)\<rparr>)
                 else None))"

definition mcdb_make_addrevert :: "mcdb_make \<Rightarrow> mcdb_make" where
  "mcdb_make_addrevert m = m\<lparr>mk_pos := hp_p (mk_hp m)\<rparr>"

definition mcdb_make_add ::
  "plasma_endian \<Rightarrow> mcdb_make \<Rightarrow> bytes \<Rightarrow> bytes \<Rightarrow> os \<Rightarrow> (int \<times> mcdb_make \<times> os) option" where
  "mcdb_make_add P m key data w = do {
     (rc, m1, w1) \<leftarrow> mcdb_make_addbegin P m (length key) (length data) w;
     if rc = 0 then do {
       (m2, w2) \<leftarrow> mcdb_make_addbuf_key m1 key w1;
       (m3, w3) \<leftarrow> mcdb_make_addbuf_data m2 data w2;
       m4 \<leftarrow> mcdb_make_addend m3;
       Some (0, m4, w3) }
     else Some (-1, m1, w1) }"

subsection \<open>Starting\<close>

text \<open>\<^verbatim>\<open>pagesize\<close> is what \<^verbatim>\<open>plasma_sysconf_pagesize()\<close> returns.\<close>

definition mcdb_make_start :: "nat \<Rightarrow> int \<Rightarrow> os \<Rightarrow> (int \<times> mcdb_make \<times> os) option" where
  "mcdb_make_start pagesize fd w =
    (let m0 = \<lparr> mk_pos = MCDB_HEADER_SZ, mk_offset = 0, mk_mapped = False,
                mk_hash_init = UINT32_HASH_DJB_INIT, mk_hash_fn = Hash_djb,
                mk_fsz = 0, mk_osz = 0, mk_msz = 0, mk_pgalign = NOT (word_of_nat pagesize - 1),
                mk_hp = \<lparr>hp_p = MCDB_HEADER_SZ, hp_h = 0, hp_l = 0\<rparr>, mk_fd = fd,
                mk_count = (\<lambda>_. 0), mk_head = (\<lambda>_. []) \<rparr>
     in case os_malloc w of
          (None, w1) \<Rightarrow> do { (_, m2, w2) \<leftarrow> mcdb_make_destroy m0 w1; Some (-1, m2, w2) }
        | (Some blk, w1) \<Rightarrow>
            (let node = \<lparr>hl_blk = blk, hl_hps = [], hl_pend = None\<rparr>;
                 m1 = m0\<lparr>mk_head := (mk_head m0)(0 := [node])\<rparr>;
                 (ok, m2, w2) = (if fd = -1 then (True, m1, w1) else mcdb_mmap_upsize m1 MCDB_MMAP_SZ w1)
             in if ok then
                  Some (0, m2\<lparr>mk_head := (\<lambda>u. if u < MCDB_SLOTS then [node\<lparr>hl_pend := Some []\<rparr>] else [])\<rparr>, w2)
                else do { (_, m3, w3) \<leftarrow> mcdb_make_destroy m2 w2; Some (-1, m3, w3) }))"

subsection \<open>Finishing\<close>

text \<open>
  The search for a free cell of a table whose position words start at file position
  \<^term>\<open>q\<close>, with cells of \<^term>\<open>2 ^ b\<close> bytes: a table without a free cell would be searched
  for ever.
\<close>

partial_function (option) find_cell ::
  "mcdb_make \<Rightarrow> os \<Rightarrow> nat \<Rightarrow> nat \<Rightarrow> u32 \<Rightarrow> u32 \<Rightarrow> u32 option" where
  "find_cell m w q b len u = do {
     cell \<leftarrow> mk_load_aligned m (q + unat u * 2 ^ b) (if b = 3 then 4 else 8) w;
     if list_all (\<lambda>x. x = 0) cell then Some u
     else find_cell m w q b len (if u + 1 = len then 0 else u + 1) }"

text \<open>
  One entry of the list is put into the table at \<^term>\<open>p\<close>.  The address of the stores is
  computed with a 32-bit shift (\<^verbatim>\<open>q += (u<<3)\<close>), unlike the address of the search.
\<close>

definition finish_entry ::
  "plasma_endian \<Rightarrow> mcdb_make \<Rightarrow> nat \<Rightarrow> nat \<Rightarrow> u32 \<Rightarrow> mcdb_hp \<Rightarrow> os \<Rightarrow> os option" where
  "finish_entry P m p b len hp w = do {
     _ \<leftarrow> guard (len \<noteq> 0);
     let q = p + (if b = 3 then 4 else 8);
     u \<leftarrow> find_cell m w q b len (drop_bit MCDB_SLOT_BITS (hp_h hp) mod len);
     let a = q + unat (push_bit b u);
     if b = 3 then do {
       w1 \<leftarrow> mk_store_aligned m (a - 4) (uint32_strpack_bigendian_aligned_macro P (hp_h hp)) w;
       mk_store_aligned m a (uint32_strpack_bigendian_aligned_macro P (word_of_nat (hp_p hp))) w1 }
     else do {
       w1 \<leftarrow> mk_store_aligned m (a - 8) (uint32_strpack_bigendian_aligned_macro P (hp_h hp)) w;
       w2 \<leftarrow> mk_store_aligned m (a - 4) (uint32_strpack_bigendian_aligned_macro P (hp_l hp)) w1;
       mk_store_aligned m a (uint64_strpack_bigendian_aligned_macro P (word_of_nat (hp_p hp))) w2 } }"

fun finish_entries ::
  "plasma_endian \<Rightarrow> mcdb_make \<Rightarrow> nat \<Rightarrow> nat \<Rightarrow> u32 \<Rightarrow> mcdb_hp list \<Rightarrow> os \<Rightarrow> os option" where
  "finish_entries P m p b len [] w = Some w"
| "finish_entries P m p b len (hp # hps) w = do {
     w1 \<leftarrow> finish_entry P m p b len hp w;
     finish_entries P m p b len hps w1 }"

text \<open>The entries of slot \<^term>\<open>i\<close> in the order in which the chain of lists holds them.\<close>

definition slot_entries :: "mcdb_make \<Rightarrow> nat \<Rightarrow> mcdb_hp list" where
  "slot_entries m i = concat (map hl_hps (mk_head m i))"

text \<open>
  The loop over the slots, from slot \<^term>\<open>i\<close> with \<^term>\<open>n\<close> slots to go.  It ends early, with
  the slot it was at, when the mapping cannot be moved; \<^term>\<open>hdr\<close> is the header buffer.
\<close>

fun finish_slots ::
  "plasma_endian \<Rightarrow> nat \<Rightarrow> nat \<Rightarrow> nat \<Rightarrow> mcdb_make \<Rightarrow> mem \<Rightarrow> os \<Rightarrow> (nat \<times> mcdb_make \<times> mem \<times> os) option" where
  "finish_slots P b 0 i m hdr w = Some (i, m, hdr, w)"
| "finish_slots P b (Suc n) i m hdr w =
    (let len = push_bit 1 (mk_count m i); d = mk_pos m; sz = unat len * 2 ^ b;
         (ok, m1, w1) = (if mk_offset m + mk_msz m < d + sz
                         then mcdb_mmap_upsize m (d + sz) w else (True, m, w))
     in if \<not> ok then Some (i, m1, hdr, w1)
        else
          (let h1 = mem_upd hdr (i * 16) (uint64_strpack_bigendian_aligned_macro P (word_of_nat d));
               h2 = mem_upd h1 (i * 16 + 8) (uint32_strpack_bigendian_aligned_macro P len);
               h3 = mem_upd h2 (i * 16 + 12) [0, 0, 0, 0];
               m2 = m1\<lparr>mk_pos := mk_pos m1 + sz\<rparr>
           in do {
             w2 \<leftarrow> mk_fill m2 d sz 0 w1;
             w3 \<leftarrow> finish_entries P m2 d b len (slot_entries m2 i) w2;
             finish_slots P b n (Suc i) m2 h3 w3 }))"

definition mcdb_mmap_commit :: "mcdb_make \<Rightarrow> bytes \<Rightarrow> os \<Rightarrow> (bool \<times> os) option" where
  "mcdb_mmap_commit m header w =
     (if mk_fd m = -1 then
        (if mk_offset m = 0 then do { w1 \<leftarrow> mk_store m 0 header w; Some (True, w1) }
         else Some (True, w))
      else
        (let (ok1, w1) = os_ftruncate (mk_pos m) w;
             (ok2, w2) = (if ok1 then (if mk_pos m - mk_offset m = 0 then (True, w1) else ext_call w1)
                          else (False, w1));                                   \<comment> \<open>msync\<close>
             (ok3, w3) = (if ok2 then os_lseek 0 w2 else (False, w2))
         in if ok3 then nointr_write header w3 else Some (False, w3)))"

definition mcdb_make_finish ::
  "plasma_endian \<Rightarrow> mcdb_make \<Rightarrow> os \<Rightarrow> (int \<times> mcdb_make \<times> os) option" where
  "mcdb_make_finish P m w =
    (let u = sum_list (map (mk_count m) [0..<MCDB_SLOTS]);
         d = (MCDB_PAD_ALIGN - mk_pos m mod MCDB_PAD_ALIGN) mod MCDB_PAD_ALIGN
     in if \<not> mk_mapped m then mcdb_make_err m EPERM w
        else if unat u > INT_MAX then mcdb_make_err m ENOMEM w
        else
          (let (ok, m1, w1) = (if mk_offset m + mk_msz m < mk_pos m + d
                               then mcdb_mmap_upsize m (mk_pos m + d) w else (True, m, w))
           in if \<not> ok then mcdb_make_err m1 (o_errno w1) w1
              else do {
                w2 \<leftarrow> (if d \<noteq> 0 then mk_fill m1 (mk_pos m1) d (-1) w1 else Some w1);
                let m2 = m1\<lparr>mk_pos := mk_pos m1 + d\<rparr>;
                let b = (if mk_pos m2 < UINT_MAX then 3 else 4);
                (i, m3, hdr, w3) \<leftarrow> finish_slots P b MCDB_SLOTS 0 m2 (\<lambda>_. 0) w2;
                (ok4, w4) \<leftarrow> (if i = MCDB_SLOTS then mcdb_mmap_commit m3 (mem_slice hdr 0 MCDB_HEADER_SZ) w3
                             else Some (False, w3));
                (rc, m5, w5) \<leftarrow> mcdb_make_destroy m3 w4;
                Some (if ok4 then rc else -1, m5, w5) }))"

subsection \<open>A whole run of the writer\<close>

text \<open>
  The calls a client makes to create a database: start, one \<^verbatim>\<open>mcdb_make_add\<close> per record, finish;
  after an error, \<^verbatim>\<open>mcdb_make_destroy\<close>.
\<close>

fun make_adds ::
  "plasma_endian \<Rightarrow> (bytes \<times> bytes) list \<Rightarrow> mcdb_make \<Rightarrow> os \<Rightarrow> (int \<times> mcdb_make \<times> os) option" where
  "make_adds P [] m w = Some (0, m, w)"
| "make_adds P ((k, d) # recs) m w = do {
     (rc, m1, w1) \<leftarrow> mcdb_make_add P m k d w;
     if rc = 0 then make_adds P recs m1 w1 else Some (rc, m1, w1) }"

definition make_db ::
  "plasma_endian \<Rightarrow> nat \<Rightarrow> int \<Rightarrow> (bytes \<times> bytes) list \<Rightarrow> os \<Rightarrow> (int \<times> os) option" where
  "make_db P pagesize fd recs w = do {
     (rc, m1, w1) \<leftarrow> mcdb_make_start pagesize fd w;
     if rc \<noteq> 0 then Some (rc, w1)
     else do {
       (rc2, m2, w2) \<leftarrow> make_adds P recs m1 w1;
       if rc2 = 0 then do {
         (rc3, m3, w3) \<leftarrow> mcdb_make_finish P m2 w2;
         Some (rc3, w3) }
       else do {
         (_, m3, w3) \<leftarrow> mcdb_make_destroy m2 w2;
         Some (rc2, w3) } } }"

lemma slots_0 [simp]: "0 < MCDB_SLOTS"
  by (simp add: MCDB_SLOTS_def)

end
