(* ===== verification/Mcdb_Map.thy ===== *)
theory Mcdb_Map
  imports Mcdb_Make
begin

text \<open>
  The life of a database map, mcdb.c: creating, opening, refreshing, registering threads and
  releasing.  Maps live in a heap, linked through \<^verbatim>\<open>next\<close> from an outdated map to its
  replacement; a pointer is an address of the heap, \<^term>\<open>None\<close> the null pointer, and using a
  freed map is undefined (the operation has no result).
\<close>

subsection \<open>State\<close>

text \<open>\<^verbatim>\<open>fname\<close> is null, the map's own buffer, or an allocated string.\<close>

datatype fname_ref = Fname_null | Fname_buf | Fname_blk nat

record mcdb_mmap =
  mm_ptr :: "mem option"        \<comment> \<open>the mapped bytes; \<^term>\<open>None\<close> is the null pointer\<close>
  mm_b :: nat                   \<comment> \<open>hash table stride bits\<close>
  mm_n :: u32
  mm_hash_init :: u32
  mm_hash_fn :: hash_fn
  mm_size :: nat
  mm_mtime :: int
  mm_next :: "nat option"
  mm_has_malloc :: bool         \<comment> \<open>\<^verbatim>\<open>fn_malloc != NULL\<close>\<close>
  mm_has_free :: bool           \<comment> \<open>\<^verbatim>\<open>fn_free != NULL\<close>\<close>
  mm_fname :: fname_ref
  mm_fnamebuf :: bytes
  mm_allocated :: bool
  mm_dfd :: int
  mm_refcnt :: u32

record disk_file =
  f_bytes :: mem
  f_size :: nat
  f_mtime :: int

datatype fdobj = Fd_dir bytes | Fd_file disk_file

text \<open>
  The environment of the reader: the heap of maps, allocated names, the global spin lock, open
  descriptors, and a file system that names files by directory (\<^term>\<open>None\<close>: the current one)
  and name.  As for the writer, \<^verbatim>\<open>r_fail\<close> decides the outcome of every external call
  and \<^verbatim>\<open>r_newfd\<close> the descriptor that a successful open returns.
\<close>

record rd =
  r_maps :: "nat \<Rightarrow> mcdb_mmap option"
  r_strs :: "nat \<Rightarrow> bytes option"
  r_fresh :: nat
  r_lock :: bool
  r_fs :: "bytes option \<Rightarrow> bytes \<Rightarrow> disk_file option"
  r_fds :: "int \<Rightarrow> fdobj option"
  r_newfd :: "nat \<Rightarrow> int"
  r_fail :: "nat \<Rightarrow> nat"
  r_step :: nat
  r_errno :: nat


definition rd_call :: "rd \<Rightarrow> bool \<times> rd" where
  "rd_call w =
     (let r = r_fail w (r_step w); w' = w\<lparr>r_step := Suc (r_step w)\<rparr>
      in if r = 0 then (True, w') else (False, w'\<lparr>r_errno := r\<rparr>))"

definition get_map :: "nat \<Rightarrow> rd \<Rightarrow> mcdb_mmap option" where
  "get_map p w = r_maps w p"

definition put_map :: "nat \<Rightarrow> mcdb_mmap \<Rightarrow> rd \<Rightarrow> rd" where
  "put_map p mm w = w\<lparr>r_maps := (r_maps w)(p \<mapsto> mm)\<rparr>"

text \<open>The spin lock: acquiring it while it is held would never return.\<close>

definition lock_acquire :: "rd \<Rightarrow> rd option" where
  "lock_acquire w = (if r_lock w then None else Some (w\<lparr>r_lock := True\<rparr>))"

definition lock_release :: "rd \<Rightarrow> rd option" where
  "lock_release w = (if r_lock w then Some (w\<lparr>r_lock := False\<rparr>) else None)"

text \<open>The string behind \<^verbatim>\<open>fname\<close>.\<close>

definition fname_str :: "mcdb_mmap \<Rightarrow> rd \<Rightarrow> bytes option" where
  "fname_str mm w = (case mm_fname mm of Fname_null \<Rightarrow> None | Fname_buf \<Rightarrow> Some (mm_fnamebuf mm)
     | Fname_blk q \<Rightarrow> r_strs w q)"

text \<open>The directory that \<^verbatim>\<open>dfd\<close> stands for.\<close>

definition dir_of :: "int \<Rightarrow> rd \<Rightarrow> bytes option option" where
  "dir_of dfd w = (if dfd = -1 then Some None
     else case r_fds w dfd of Some (Fd_dir d) \<Rightarrow> Some (Some d) | _ \<Rightarrow> None)"

subsection \<open>System calls of the reader\<close>

text \<open>\<^verbatim>\<open>nointr_open\<close> of a directory and \<^verbatim>\<open>nointr_openat\<close>/\<^verbatim>\<open>nointr_open\<close> of a
  database file: the descriptor or -1.\<close>

definition open_fd :: "fdobj option \<Rightarrow> rd \<Rightarrow> int \<times> rd" where
  "open_fd obj w =
     (let fd = r_newfd w (r_step w); (ok, w1) = rd_call w
      in if \<not> ok then (-1, w1)
         else case obj of None \<Rightarrow> (-1, w1\<lparr>r_errno := ENOENT\<rparr>)
            | Some x \<Rightarrow> (fd, w1\<lparr>r_fds := (r_fds w1)(fd \<mapsto> x)\<rparr>))"

definition nointr_close :: "int \<Rightarrow> rd \<Rightarrow> rd" where
  "nointr_close fd w = (snd (rd_call w))\<lparr>r_fds := (r_fds w)(fd := None)\<rparr>"

definition sys_fstat :: "int \<Rightarrow> rd \<Rightarrow> disk_file option \<times> rd" where
  "sys_fstat fd w =
     (let (ok, w1) = rd_call w
      in if \<not> ok then (None, w1)
         else case r_fds w fd of Some (Fd_file x) \<Rightarrow> (Some x, w1) | _ \<Rightarrow> (None, w1\<lparr>r_errno := EBADF\<rparr>))"

definition sys_stat :: "int \<Rightarrow> bytes \<Rightarrow> rd \<Rightarrow> disk_file option \<times> rd" where
  "sys_stat dfd name w =
     (let (ok, w1) = rd_call w
      in if \<not> ok then (None, w1)
         else case Option.bind (dir_of dfd w) (\<lambda>d. r_fs w d name) of
            Some x \<Rightarrow> (Some x, w1) | None \<Rightarrow> (None, w1\<lparr>r_errno := ENOENT\<rparr>))"

text \<open>\<^verbatim>\<open>mmap\<close> of no bytes is invalid.\<close>

definition sys_mmap :: "nat \<Rightarrow> rd \<Rightarrow> bool \<times> rd" where
  "sys_mmap len w =
     (let (ok, w1) = rd_call w in if len = 0 then (False, w1\<lparr>r_errno := EINVAL\<rparr>) else (ok, w1))"

definition rd_malloc :: "rd \<Rightarrow> nat option \<times> rd" where
  "rd_malloc w = (let (ok, w1) = rd_call w
     in if ok then (Some (r_fresh w1), w1\<lparr>r_fresh := Suc (r_fresh w1)\<rparr>) else (None, w1))"

subsection \<open>Mapping a file\<close>

definition mcdb_mmap_unmap :: "nat \<Rightarrow> rd \<Rightarrow> rd option" where
  "mcdb_mmap_unmap p w = do {
     mm \<leftarrow> get_map p w;
     let w1 = (if mm_ptr mm \<noteq> None then snd (rd_call w) else w);
     Some (put_map p (mm\<lparr>mm_ptr := None, mm_size := 0\<rparr>) w1) }"

definition mcdb_mmap_init :: "nat \<Rightarrow> int \<Rightarrow> rd \<Rightarrow> (bool \<times> rd) option" where
  "mcdb_mmap_init p fd w = do {
     w1 \<leftarrow> mcdb_mmap_unmap p w;
     let (st, w2) = sys_fstat fd w1;
     case st of None \<Rightarrow> Some (False, w2)
     | Some st \<Rightarrow>
         (let (ok, w3) = sys_mmap (f_size st) w2;
              (ok', w4) = (if \<not> ok \<and> r_errno w3 = EINVAL then sys_mmap (f_size st) w3 else (ok, w3))
          in if \<not> ok' then Some (False, w4)
             else do {
               mm \<leftarrow> get_map p w4;
               Some (True, put_map p (mm\<lparr>mm_ptr := Some (f_bytes st), mm_size := f_size st,
                   mm_b := (if f_size st < UINT_MAX \<or> mem_slice (f_bytes st) 0 4 = [0, 0, 0, 0] then 3 else 4),
                   mm_n := -1, mm_mtime := f_mtime st, mm_next := None, mm_refcnt := 0,
                   mm_hash_init := UINT32_HASH_DJB_INIT, mm_hash_fn := Hash_djb\<rparr>) w4) }) }"

text \<open>\<^verbatim>\<open>posix_madvise\<close> has no effect on what the program computes.\<close>

definition mcdb_mmap_madvise :: "nat \<Rightarrow> rd \<Rightarrow> rd option" where
  "mcdb_mmap_madvise p w = do { _ \<leftarrow> get_map p w; Some (snd (rd_call w)) }"

definition mcdb_mmap_prefault :: "nat \<Rightarrow> rd \<Rightarrow> rd option" where
  "mcdb_mmap_prefault p w = do { _ \<leftarrow> get_map p w; Some (snd (rd_call w)) }"

subsection \<open>Releasing\<close>

definition free_str :: "nat \<Rightarrow> rd \<Rightarrow> rd option" where
  "free_str q w = (if r_strs w q = None then None else Some (w\<lparr>r_strs := (r_strs w)(q := None)\<rparr>))"

definition free_map :: "nat \<Rightarrow> rd \<Rightarrow> rd option" where
  "free_map p w = (if r_maps w p = None then None else Some (w\<lparr>r_maps := (r_maps w)(p := None)\<rparr>))"

definition mcdb_mmap_free :: "nat option \<Rightarrow> rd \<Rightarrow> rd option" where
  "mcdb_mmap_free mp w =
     (case mp of None \<Rightarrow> Some w
      | Some p \<Rightarrow> do {
          w1 \<leftarrow> mcdb_mmap_unmap p w;
          mm \<leftarrow> get_map p w1;
          if mm_has_free mm then do {
            w2 \<leftarrow> (case mm_fname mm of
                    Fname_blk q \<Rightarrow> do { w' \<leftarrow> free_str q w1; Some (put_map p (mm\<lparr>mm_fname := Fname_null\<rparr>) w') }
                  | _ \<Rightarrow> Some w1);
            if \<not> mm_allocated mm then free_map p w2 else Some w2 }
          else Some w1 })"

definition mcdb_mmap_destroy :: "nat option \<Rightarrow> rd \<Rightarrow> rd option" where
  "mcdb_mmap_destroy mp w =
     (case mp of None \<Rightarrow> Some w
      | Some p \<Rightarrow> do {
          mm \<leftarrow> get_map p w;
          let w1 = (if mm_dfd mm \<noteq> -1 then put_map p (mm\<lparr>mm_dfd := -1\<rparr>) (nointr_close (mm_dfd mm) w) else w);
          mcdb_mmap_free (Some p) w1 })"

subsection \<open>Opening\<close>

definition mcdb_mmap_reopen :: "nat \<Rightarrow> rd \<Rightarrow> (bool \<times> rd) option" where
  "mcdb_mmap_reopen p w = do {
     mm \<leftarrow> get_map p w;
     name \<leftarrow> fname_str mm w;
     let (fd, w1) = open_fd (map_option Fd_file (Option.bind (dir_of (mm_dfd mm) w) (\<lambda>d. r_fs w d name))) w;
     if fd = -1 then Some (False, w1)
     else do {
       (rc, w2) \<leftarrow> mcdb_mmap_init p fd w1;
       Some (rc, nointr_close fd w2) } }"

definition mcdb_mmap_refresh_check :: "nat \<Rightarrow> rd \<Rightarrow> (bool \<times> rd) option" where
  "mcdb_mmap_refresh_check p w = do {
     mm \<leftarrow> get_map p w;
     if mm_ptr mm = None then Some (True, w)
     else do {
       name \<leftarrow> fname_str mm w;
       let (st, w1) = sys_stat (mm_dfd mm) name w;
       Some (case st of Some x \<Rightarrow> mm_mtime mm \<noteq> f_mtime x | None \<Rightarrow> False, w1) } }"

definition mcdb_mmap_refresh :: "nat \<Rightarrow> rd \<Rightarrow> (bool \<times> rd) option" where
  "mcdb_mmap_refresh p w = do {
     (stale, w1) \<leftarrow> mcdb_mmap_refresh_check p w;
     if \<not> stale then Some (True, w1) else mcdb_mmap_reopen p w1 }"

text \<open>
  \<^verbatim>\<open>mcdb_mmap_create\<close>; a caller's own map is passed as its address, which must be in the
  heap.  \<^verbatim>\<open>O_CLOEXEC\<close> is available, so the descriptor flag is not set again.
\<close>

definition mmap_blank :: "bool \<Rightarrow> mcdb_mmap" where
  "mmap_blank allocated = \<lparr>mm_ptr = None, mm_b = 0, mm_n = 0, mm_hash_init = 0, mm_hash_fn = Hash_djb,
     mm_size = 0, mm_mtime = 0, mm_next = None, mm_has_malloc = True, mm_has_free = True,
     mm_fname = Fname_null, mm_fnamebuf = replicate 112 0, mm_allocated = allocated, mm_dfd = -1, mm_refcnt = 0\<rparr>"

definition create_open_dir :: "nat \<Rightarrow> bytes option \<Rightarrow> rd \<Rightarrow> (bool \<times> rd) option" where
  "create_open_dir p dname w =
     (case dname of None \<Rightarrow> Some (True, w)
      | Some d \<Rightarrow> do {
          mm \<leftarrow> get_map p w;
          let (fd, w1) = open_fd (Some (Fd_dir d)) w;
          let w2 = put_map p (mm\<lparr>mm_dfd := fd\<rparr>) w1;
          if fd > 2 then Some (True, w2)
          else do { w3 \<leftarrow> mcdb_mmap_destroy (Some p) w2; Some (False, w3) } })"

definition create_name :: "nat \<Rightarrow> bytes \<Rightarrow> rd \<Rightarrow> (bool \<times> rd) option" where
  "create_name p fname w = do {
     mm \<leftarrow> get_map p w;
     if 112 > length fname then
       Some (True, put_map p (mm\<lparr>mm_fname := Fname_buf, mm_fnamebuf := fname\<rparr>) w)
     else
       (let (q, w1) = rd_malloc w
        in case q of
             None \<Rightarrow> do { w2 \<leftarrow> mcdb_mmap_destroy (Some p) w1; Some (False, w2) }
           | Some q \<Rightarrow> Some (True, put_map p (mm\<lparr>mm_fname := Fname_blk q\<rparr>) (w1\<lparr>r_strs := (r_strs w1)(q \<mapsto> fname)\<rparr>))) }"

definition mcdb_mmap_create ::
  "nat option \<Rightarrow> bytes option \<Rightarrow> bytes \<Rightarrow> rd \<Rightarrow> (nat option \<times> rd) option" where
  "mcdb_mmap_create mp dname fname w =
     (let (p, w1) = (case mp of Some p \<Rightarrow> (Some p, w) | None \<Rightarrow> rd_malloc w)
      in case p of
           None \<Rightarrow> Some (None, w1)
         | Some p \<Rightarrow> do {
             _ \<leftarrow> guard (mp = None \<or> get_map p w1 \<noteq> None);
             let w2 = put_map p (mmap_blank (mp \<noteq> None)) w1;
             (ok, w3) \<leftarrow> create_open_dir p dname w2;
             if \<not> ok then Some (None, w3)
             else do {
               (ok, w4) \<leftarrow> create_name p fname w3;
               if \<not> ok then Some (None, w4)
               else do {
                 (rc, w5) \<leftarrow> mcdb_mmap_reopen p w4;
                 if rc then do {
                   mm \<leftarrow> get_map p w5;
                   Some (Some p, put_map p (mm\<lparr>mm_refcnt := mm_refcnt mm + 1\<rparr>) w5) }
                 else do { w6 \<leftarrow> mcdb_mmap_destroy (Some p) w5; Some (None, w6) } } } })"

end
