(* ===== verification/Mcdb_Thread.thy ===== *)
theory Mcdb_Thread
  imports Mcdb_Map
begin

text \<open>
  Registration of threads with a map and the thread-safe refresh, mcdb.c.  Everything between
  taking and releasing the global spin lock is one operation on the heap; the refresh is four
  (claim, open, link, finish), because the lock is not held while the new file is opened and linked.
\<close>

definition REFCNT_REOPENING :: u32 where "REFCNT_REOPENING = 0x80000000"
definition REFCNT_NOT_OLDEST :: u32 where "REFCNT_NOT_OLDEST = 0x40000000"

text \<open>The newest map of a chain.\<close>

partial_function (option) chain_last :: "nat \<Rightarrow> rd \<Rightarrow> nat option" where
  "chain_last p w = do {
     mm \<leftarrow> get_map p w;
     case mm_next mm of None \<Rightarrow> Some p | Some q \<Rightarrow> chain_last q w }"

text \<open>
  The unused maps that follow a released one: they are moved from the chain onto the list
  \<^term>\<open>unmap\<close>.  The result is the map at which the walk stopped, and that list.
\<close>

partial_function (option) collect_unused ::
  "nat \<Rightarrow> nat option \<Rightarrow> rd \<Rightarrow> (nat option \<times> nat option \<times> rd) option" where
  "collect_unused p unmap w = do {
     mm \<leftarrow> get_map p w;
     case mm_next mm of
       None \<Rightarrow> Some (None, unmap, w)
     | Some q \<Rightarrow> do {
         nx \<leftarrow> get_map q w;
         if mm_refcnt nx AND NOT REFCNT_NOT_OLDEST = 0 then
           (let w1 = put_map p (mm\<lparr>mm_next := mm_next nx\<rparr>) w
            in collect_unused p (Some q) (put_map q (nx\<lparr>mm_next := unmap, mm_fname := Fname_null\<rparr>) w1))
         else Some (Some q, unmap, w) } }"

partial_function (option) free_chain :: "nat option \<Rightarrow> rd \<Rightarrow> rd option" where
  "free_chain unmap w =
     (case unmap of None \<Rightarrow> Some w
      | Some p \<Rightarrow> do {
          mm \<leftarrow> get_map p w;
          w1 \<leftarrow> mcdb_mmap_free (Some p) w;
          free_chain (mm_next mm) w1 })"

text \<open>Lines 605-618: the reference to map \<^term>\<open>p\<close> is dropped.\<close>

definition release_ref :: "nat \<Rightarrow> rd \<Rightarrow> (nat option \<times> rd) option" where
  "release_ref p w = do {
     mm \<leftarrow> get_map p w;
     let w1 = put_map p (mm\<lparr>mm_refcnt := mm_refcnt mm - 1\<rparr>) w;
     if mm_refcnt mm - 1 \<noteq> 0 then Some (None, w1)
     else do {
       (nx, unmap, w2) \<leftarrow> collect_unused p None w1;
       w3 \<leftarrow> (case nx of None \<Rightarrow> Some w2
              | Some q \<Rightarrow> do { n \<leftarrow> get_map q w2;
                  Some (put_map q (n\<lparr>mm_refcnt := mm_refcnt n AND NOT REFCNT_NOT_OLDEST\<rparr>) w2) });
       m \<leftarrow> get_map p w3;
       Some (Some p, put_map p (m\<lparr>mm_next := unmap, mm_fname := Fname_null\<rparr>) w3) } }"

text \<open>
  \<^verbatim>\<open>mcdb_mmap_thread_registration\<close>: the thread's map pointer is an argument and, as left
  behind, a result; the first result is whether the returned pointer is not null.
\<close>

definition mcdb_mmap_thread_registration ::
  "nat option \<Rightarrow> bool \<Rightarrow> bool \<Rightarrow> rd \<Rightarrow> (bool \<times> nat option \<times> rd) option" where
  "mcdb_mmap_thread_registration mapptr incr already_locked w0 = do {
     w \<leftarrow> (if already_locked then Some w0 else lock_acquire w0);
     case mapptr of
       None \<Rightarrow> do { w1 \<leftarrow> lock_release w; Some (\<not> incr, None, w1) }
     | Some p \<Rightarrow> do {
         mm \<leftarrow> get_map p w;
         if mm_ptr mm = None \<and> incr then do { w1 \<leftarrow> lock_release w; Some (False, Some p, w1) }
         else do {
           (moved, mapptr1, w1) \<leftarrow>
             (if incr then
                (case mm_next mm of
                   None \<Rightarrow> Some (False, Some p, put_map p (mm\<lparr>mm_refcnt := mm_refcnt mm + 1\<rparr>) w)
                 | Some q \<Rightarrow> do {
                     l \<leftarrow> chain_last q w;
                     n \<leftarrow> get_map l w;
                     Some (True, Some l, put_map l (n\<lparr>mm_refcnt := mm_refcnt n + 1\<rparr>) w) })
              else Some (False, Some p, w));
           (unmap, w2) \<leftarrow> (if \<not> incr \<or> moved then release_ref p w1 else Some (None, w1));
           let mapptr2 = (if unmap \<noteq> None \<and> \<not> incr then None else mapptr1);
           w3 \<leftarrow> lock_release w2;
           w4 \<leftarrow> free_chain unmap w3;
           Some (True, mapptr2, w4) } } }"

text \<open>\<^verbatim>\<open>mcdb_thread_refresh_self\<close>.\<close>

definition mcdb_thread_refresh_self :: "nat \<Rightarrow> rd \<Rightarrow> (nat option \<times> rd) option" where
  "mcdb_thread_refresh_self p w = do {
     mm \<leftarrow> get_map p w;
     if mm_next mm = None then Some (Some p, w)
     else do { (_, p', w1) \<leftarrow> mcdb_mmap_thread_registration (Some p) True False w; Some (p', w1) } }"

subsection \<open>Thread-safe refresh\<close>

text \<open>Lines 645-656.\<close>

datatype claim_result = Claim_registered bool "nat option" | Claim_busy | Claim_ours

definition reopen_claim :: "nat \<Rightarrow> rd \<Rightarrow> (claim_result \<times> rd) option" where
  "reopen_claim p w0 = do {
     w \<leftarrow> lock_acquire w0;
     mm \<leftarrow> get_map p w;
     if mm_next mm \<noteq> None then do {
       (r, mapptr, w1) \<leftarrow> mcdb_mmap_thread_registration (Some p) True True w;
       Some (Claim_registered r mapptr, w1) }
     else if mm_refcnt mm < REFCNT_REOPENING then do {
       w1 \<leftarrow> lock_release (put_map p (mm\<lparr>mm_refcnt := mm_refcnt mm OR REFCNT_REOPENING\<rparr>) w);
       Some (Claim_ours, w1) }
     else do { w1 \<leftarrow> lock_release w; Some (Claim_busy, w1) } }"

text \<open>Lines 658-673: a map for the new file, not yet reachable by other threads.\<close>

definition reopen_open :: "nat \<Rightarrow> rd \<Rightarrow> (nat option \<times> rd) option" where
  "reopen_open p w = do {
     mm \<leftarrow> get_map p w;
     if \<not> mm_has_malloc mm then Some (None, w)
     else
       (let (q, w1) = rd_malloc w
        in case q of None \<Rightarrow> Some (None, w1)
           | Some q \<Rightarrow> do {
               let w2 = put_map q (mm\<lparr>mm_ptr := None\<rparr>) w1;
               (rc, w3) \<leftarrow> mcdb_mmap_reopen q w2;
               if \<not> rc then do { w4 \<leftarrow> free_map q w3; Some (None, w4) }
               else do {
                 n \<leftarrow> get_map q w3;
                 Some (Some q, put_map q (n\<lparr>mm_hash_init := mm_hash_init mm, mm_hash_fn := mm_hash_fn mm,
                    mm_refcnt := mm_refcnt n OR REFCNT_NOT_OLDEST\<rparr>) w3) } }) }"

text \<open>Line 675, which other threads see before the lock is taken, and lines 676-680.\<close>

definition reopen_link :: "nat \<Rightarrow> nat \<Rightarrow> rd \<Rightarrow> rd option" where
  "reopen_link p q w = do { mm \<leftarrow> get_map p w; Some (put_map p (mm\<lparr>mm_next := Some q\<rparr>) w) }"

definition reopen_finish :: "nat \<Rightarrow> rd \<Rightarrow> (bool \<times> nat option \<times> rd) option" where
  "reopen_finish p w = do {
     w1 \<leftarrow> lock_acquire w;
     mm \<leftarrow> get_map p w1;
     mcdb_mmap_thread_registration (Some p) True True
       (put_map p (mm\<lparr>mm_refcnt := mm_refcnt mm AND NOT REFCNT_REOPENING\<rparr>) w1) }"

definition reopen_publish :: "nat \<Rightarrow> nat \<Rightarrow> rd \<Rightarrow> (bool \<times> nat option \<times> rd) option" where
  "reopen_publish p q w = do { w1 \<leftarrow> reopen_link p q w; reopen_finish p w1 }"

definition mcdb_mmap_reopen_threadsafe :: "nat \<Rightarrow> rd \<Rightarrow> (bool \<times> nat option \<times> rd) option" where
  "mcdb_mmap_reopen_threadsafe p w = do {
     (c, w1) \<leftarrow> reopen_claim p w;
     case c of
       Claim_registered r mapptr \<Rightarrow> Some (r, mapptr, w1)
     | Claim_busy \<Rightarrow> Some (True, Some p, w1)
     | Claim_ours \<Rightarrow> do {
         (q, w2) \<leftarrow> reopen_open p w1;
         case q of None \<Rightarrow> Some (False, Some p, w2) | Some q \<Rightarrow> reopen_publish p q w2 } }"

definition mcdb_thread_refresh :: "nat \<Rightarrow> rd \<Rightarrow> (bool \<times> nat option \<times> rd) option" where
  "mcdb_thread_refresh p w = do {
     (stale, w1) \<leftarrow> mcdb_mmap_refresh_check p w;
     if \<not> stale then Some (True, Some p, w1) else mcdb_mmap_reopen_threadsafe p w1 }"

end
