(* ===== verification/Mcdb_Find.thy ===== *)
theory Mcdb_Find
  imports Mcdb_Thread
begin

text \<open>
  Queries of a mapped database, mcdb.c.  Positions are the code's \<^verbatim>\<open>uintptr_t\<close> offsets from
  the start of the mapping; a load outside the file or a misaligned word load is undefined.
\<close>

record mcdb =
  m_map :: nat
  m_loop :: u32
  m_hslots :: u32
  m_kpos :: u64
  m_hpos :: u64
  m_dpos :: u64
  m_dlen :: u32
  m_klen :: u32
  m_khash :: bytes     \<comment> \<open>the hash as its four big-endian bytes\<close>

definition map_load :: "mcdb_mmap \<Rightarrow> u64 \<Rightarrow> nat \<Rightarrow> bytes option" where
  "map_load mm a n = (case mm_ptr mm of None \<Rightarrow> None
     | Some f \<Rightarrow> if unat a + n \<le> mm_size mm then Some (mem_slice f (unat a) n) else None)"

definition map_load_aligned :: "mcdb_mmap \<Rightarrow> u64 \<Rightarrow> nat \<Rightarrow> bytes option" where
  "map_load_aligned mm a n = (if unat a mod n = 0 then map_load mm a n else None)"

subsection \<open>Lookup\<close>

text \<open>The hash of a key, after its tag character if that is not 0.\<close>

definition key_hash :: "mcdb_mmap \<Rightarrow> bytes \<Rightarrow> u8 \<Rightarrow> u32" where
  "key_hash mm key tagc =
     (case mm_hash_fn mm of
        Hash_djb \<Rightarrow>
          uint32_hash_djb (if tagc \<noteq> 0 then uint32_hash_djb_uchar UINT32_HASH_DJB_INIT tagc else UINT32_HASH_DJB_INIT) key
      | Hash_custom f \<Rightarrow> f (if tagc \<noteq> 0 then f (mm_hash_init mm) [tagc] else mm_hash_init mm) key)"

definition mcdb_findtagstart ::
  "plasma_endian \<Rightarrow> mcdb \<Rightarrow> bytes \<Rightarrow> u8 \<Rightarrow> rd \<Rightarrow> (bool \<times> mcdb \<times> rd) option" where
  "mcdb_findtagstart P m key tagc w = do {
     mm0 \<leftarrow> get_map (m_map m) w;
     let khash = key_hash mm0 key tagc;
     (p, w1) \<leftarrow> mcdb_thread_refresh_self (m_map m) w;
     q \<leftarrow> p;
     mm \<leftarrow> get_map q w1;
     let a = word_of_nat (slot_of khash * 16);
     hp \<leftarrow> map_load_aligned mm a 8;
     hs \<leftarrow> map_load_aligned mm (a + 8) 4;
     let m1 = m\<lparr>m_map := q, m_hpos := uint64_strunpack_bigendian_aligned_macro P hp,
                m_hslots := uint32_strunpack_bigendian_aligned_macro P hs, m_loop := 0\<rparr>;
     if m_hslots m1 = 0 then Some (False, m1, w1)
     else Some (True, m1\<lparr>m_kpos := m_hpos m1 + push_bit (mm_b mm) (ucast (drop_bit MCDB_SLOT_BITS khash mod m_hslots m1)),
                         m_khash := uint32_strpack_bigendian_aligned_macro P khash\<rparr>, w1) }"

text \<open>The tag and key comparison of a record whose key starts at \<^term>\<open>a\<close>.\<close>

definition key_matches :: "mcdb_mmap \<Rightarrow> u64 \<Rightarrow> bytes \<Rightarrow> u8 \<Rightarrow> bool option" where
  "key_matches mm a key tagc =
     (if tagc = 0 then map_option (\<lambda>k. k = key) (map_load mm a (length key))
      else do {
        t \<leftarrow> map_load mm a 1;
        if t \<noteq> [tagc] then Some False
        else map_option (\<lambda>k. k = key) (map_load mm (a + 1) (length key)) })"

definition tag_len :: "u8 \<Rightarrow> nat" where
  "tag_len tagc = (if tagc = 0 then 0 else 1)"

text \<open>The loop for 8-byte cells; a result of \<^term>\<open>True\<close> is a match.\<close>

definition step_kpos :: "nat \<Rightarrow> mcdb \<Rightarrow> u64 \<Rightarrow> mcdb" where
  "step_kpos k m hslots_end =
     m\<lparr>m_kpos := (if m_kpos m + word_of_nat k = hslots_end then m_hpos m else m_kpos m + word_of_nat k)\<rparr>"

function findnext_narrow ::
  "plasma_endian \<Rightarrow> mcdb_mmap \<Rightarrow> u64 \<Rightarrow> bytes \<Rightarrow> u8 \<Rightarrow> mcdb \<Rightarrow> (bool \<times> mcdb) option" where
  "findnext_narrow P mm hslots_end key tagc m =
     (if \<not> m_loop m < m_hslots m then Some (False, m)
      else do {
        let ptr = m_kpos m;
        let m1 = step_kpos 8 m hslots_end;
        khash \<leftarrow> map_load_aligned mm ptr 4;
        v \<leftarrow> map_load_aligned mm (ptr + 4) 4;
        let vpos = (ucast (uint32_strunpack_bigendian_aligned_macro P v) :: u64);
        if vpos = 0 then Some (False, m1)
        else do {
          let m2 = m1\<lparr>m_loop := m_loop m1 + 1\<rparr>;
          if khash = m_khash m then do {
            kl \<leftarrow> map_load mm vpos 4;
            dl \<leftarrow> map_load mm (vpos + 4) 4;
            let klen = uint32_strunpack_bigendian_macro P kl;
            let m3 = m2\<lparr>m_klen := klen, m_dlen := uint32_strunpack_bigendian_macro P dl,
                        m_dpos := vpos + 8 + ucast klen\<rparr>;
            hit \<leftarrow> (if unat klen = length key + tag_len tagc then key_matches mm (vpos + 8) key tagc else Some False);
            if hit then Some (True, m3) else findnext_narrow P mm hslots_end key tagc m3 }
          else findnext_narrow P mm hslots_end key tagc m2 } })"
  by pat_completeness auto

lemma loop_decreases:
  fixes l n :: u32
  assumes "l < n"
  shows "unat n - unat (l + 1) < unat n - unat l"
proof -
  have "unat l < unat n" using assms by (simp add: word_less_nat_alt)
  moreover have "unat (l + 1) = unat l + 1"
    using calculation unat_u32_less [of n] by (simp add: unat_word_ariths)
  ultimately show ?thesis by simp
qed

lemma step_kpos_sel [simp]:
  "m_loop (step_kpos k m e) = m_loop m" "m_hslots (step_kpos k m e) = m_hslots m"
  "m_hpos (step_kpos k m e) = m_hpos m" "m_map (step_kpos k m e) = m_map m" "m_khash (step_kpos k m e) = m_khash m"
  by (simp_all add: step_kpos_def)

termination findnext_narrow
  by (relation "measure (\<lambda>(P, mm, e, key, tagc, m). unat (m_hslots m) - unat (m_loop m))")
    (auto simp: loop_decreases)

text \<open>The loop for 16-byte cells, which hold the key length too.\<close>

function findnext_wide ::
  "plasma_endian \<Rightarrow> mcdb_mmap \<Rightarrow> u64 \<Rightarrow> bytes \<Rightarrow> u8 \<Rightarrow> mcdb \<Rightarrow> (bool \<times> mcdb) option" where
  "findnext_wide P mm hslots_end key tagc m =
     (if \<not> m_loop m < m_hslots m then Some (False, m)
      else do {
        let ptr = m_kpos m;
        khash \<leftarrow> map_load_aligned mm ptr 4;
        kl \<leftarrow> map_load_aligned mm (ptr + 4) 4;
        v \<leftarrow> map_load_aligned mm (ptr + 8) 8;
        let klen = uint32_strunpack_bigendian_aligned_macro P kl;
        let m1 = (step_kpos 16 m hslots_end)\<lparr>m_klen := klen\<rparr>;
        let vpos = uint64_strunpack_bigendian_aligned_macro P v;
        if vpos = 0 then Some (False, m1)
        else do {
          let m2 = m1\<lparr>m_loop := m_loop m1 + 1\<rparr>;
          if khash = m_khash m \<and> unat klen = length key + tag_len tagc then do {
            dl \<leftarrow> map_load mm (vpos + 4) 4;
            let m3 = m2\<lparr>m_dpos := vpos + 8 + ucast klen, m_dlen := uint32_strunpack_bigendian_macro P dl\<rparr>;
            hit \<leftarrow> key_matches mm (vpos + 8) key tagc;
            if hit then Some (True, m3) else findnext_wide P mm hslots_end key tagc m3 }
          else findnext_wide P mm hslots_end key tagc m2 } })"
  by pat_completeness auto

termination findnext_wide
  by (relation "measure (\<lambda>(P, mm, e, key, tagc, m). unat (m_hslots m) - unat (m_loop m))")
    (auto simp: loop_decreases)

declare findnext_narrow.simps [simp del] findnext_wide.simps [simp del]

definition mcdb_findtagnext ::
  "plasma_endian \<Rightarrow> mcdb \<Rightarrow> bytes \<Rightarrow> u8 \<Rightarrow> rd \<Rightarrow> (bool \<times> mcdb) option" where
  "mcdb_findtagnext P m key tagc w = do {
     mm \<leftarrow> get_map (m_map m) w;
     let hslots_end = m_hpos m + push_bit (mm_b mm) (ucast (m_hslots m));
     (hit, m1) \<leftarrow> (if mm_b mm = 3 then findnext_narrow P mm hslots_end key tagc m
                   else findnext_wide P mm hslots_end key tagc m);
     if hit then Some (True, m1) else Some (False, m1\<lparr>m_loop := 0\<rparr>) }"

definition mcdb_find :: "plasma_endian \<Rightarrow> mcdb \<Rightarrow> bytes \<Rightarrow> rd \<Rightarrow> (bool \<times> mcdb \<times> rd) option" where
  "mcdb_find P m key w = do {
     (r, m1, w1) \<leftarrow> mcdb_findtagstart P m key 0 w;
     if \<not> r then Some (False, m1, w1)
     else do { (r2, m2) \<leftarrow> mcdb_findtagnext P m1 key 0 w1; Some (r2, m2, w1) } }"

text \<open>\<^verbatim>\<open>mcdb_read\<close>: the bytes copied, or \<^term>\<open>None\<close> inside for the null pointer.  The bounds check is
  arithmetic of \<^verbatim>\<open>uintptr_t\<close>, modulo 2^64.\<close>

definition mcdb_read :: "mcdb \<Rightarrow> u64 \<Rightarrow> u32 \<Rightarrow> rd \<Rightarrow> bytes option option" where
  "mcdb_read m pos len w = do {
     mm \<leftarrow> get_map (m_map m) w;
     let mapsz = (word_of_nat (mm_size mm) :: u64);
     if pos \<le> mapsz \<and> ucast len \<le> mapsz - pos
     then do { bs \<leftarrow> map_load mm pos (unat len); Some (Some bs) }
     else Some None }"

text \<open>The data that \<^verbatim>\<open>mcdb_dataptr\<close> and \<^verbatim>\<open>mcdb_datalen\<close> give after a match.\<close>

definition mcdb_data :: "mcdb \<Rightarrow> rd \<Rightarrow> bytes option" where
  "mcdb_data m w = do { mm \<leftarrow> get_map (m_map m) w; map_load mm (m_dpos m) (unat (m_dlen m)) }"

subsection \<open>Counting and validating\<close>

fun sum_hslots :: "plasma_endian \<Rightarrow> mcdb_mmap \<Rightarrow> nat \<Rightarrow> nat \<Rightarrow> u32 \<Rightarrow> u32 option" where
  "sum_hslots P mm 0 i u = Some u"
| "sum_hslots P mm (Suc n) i u = do {
     hs \<leftarrow> map_load_aligned mm (word_of_nat i) 4;
     sum_hslots P mm n (i + 16) (u + uint32_strunpack_bigendian_aligned_macro P hs) }"

definition mcdb_numrecs :: "plasma_endian \<Rightarrow> mcdb \<Rightarrow> rd \<Rightarrow> (u32 \<times> rd) option" where
  "mcdb_numrecs P m w = do {
     mm \<leftarrow> get_map (m_map m) w;
     if mm_n mm = -1 then do {
       u \<leftarrow> sum_hslots P mm MCDB_SLOTS 8 0;
       Some (drop_bit 1 u, put_map (m_map m) (mm\<lparr>mm_n := drop_bit 1 u\<rparr>) w) }
     else Some (mm_n mm, w) }"

text \<open>
  The loop of \<^verbatim>\<open>mcdb_validate_slots\<close> over the slots from byte \<^term>\<open>u\<close> on: \<^term>\<open>None\<close>
  inside is the early return, otherwise the end position and the sum of the slots.
\<close>

fun validate_loop ::
  "plasma_endian \<Rightarrow> mcdb_mmap \<Rightarrow> nat \<Rightarrow> nat \<Rightarrow> u64 \<Rightarrow> u32 \<Rightarrow> (u64 \<times> u32) option option" where
  "validate_loop P mm 0 u hpos_next numrecs = Some (Some (hpos_next, numrecs))"
| "validate_loop P mm (Suc n) u hpos_next numrecs = do {
     hp \<leftarrow> map_load_aligned mm (word_of_nat u) 8;
     hs \<leftarrow> map_load_aligned mm (word_of_nat (u + 8)) 4;
     let hslots = uint32_strunpack_bigendian_aligned_macro P hs;
     if uint64_strunpack_bigendian_aligned_macro P hp = hpos_next
     then validate_loop P mm n (u + 16) (hpos_next + push_bit (mm_b mm) (ucast hslots)) (numrecs + hslots)
     else Some None }"

definition mcdb_validate_slots :: "plasma_endian \<Rightarrow> mcdb \<Rightarrow> rd \<Rightarrow> (bool \<times> rd) option" where
  "mcdb_validate_slots P m w = do {
     mm \<leftarrow> get_map (m_map m) w;
     if MCDB_HEADER_SZ > mm_size mm then Some (False, w)
     else do {
       hp \<leftarrow> map_load_aligned mm 0 8;
       r \<leftarrow> validate_loop P mm MCDB_SLOTS 0 (uint64_strunpack_bigendian_aligned_macro P hp) 0;
       case r of None \<Rightarrow> Some (False, w)
       | Some (hpos_next, numrecs) \<Rightarrow>
           Some (unat hpos_next = mm_size mm, put_map (m_map m) (mm\<lparr>mm_n := drop_bit 1 numrecs\<rparr>) w) } }"

subsection \<open>Iterating\<close>

text \<open>The iterator's pointers, as distances from the start of the mapping.\<close>

record mcdb_iter =
  it_ptr :: int
  it_eod :: int
  it_klen :: u32
  it_dlen :: u32
  it_map :: nat

definition mcdb_iter_init :: "plasma_endian \<Rightarrow> mcdb \<Rightarrow> rd \<Rightarrow> mcdb_iter option" where
  "mcdb_iter_init P m w = do {
     mm \<leftarrow> get_map (m_map m) w;
     hp \<leftarrow> map_load_aligned mm 0 8;
     Some \<lparr>it_ptr = int MCDB_HEADER_SZ, it_eod = uint (uint64_strunpack_bigendian_aligned_macro P hp) - 7,
           it_klen = 0, it_dlen = 0, it_map = m_map m\<rparr> }"

text \<open>A load at a distance; before the mapping it is undefined.\<close>

definition iter_load :: "mcdb_mmap \<Rightarrow> int \<Rightarrow> nat \<Rightarrow> bytes option" where
  "iter_load mm a n = (case mm_ptr mm of None \<Rightarrow> None
     | Some f \<Rightarrow> if 0 \<le> a \<and> nat a + n \<le> mm_size mm then Some (mem_slice f (nat a) n) else None)"

definition mcdb_iter_step :: "plasma_endian \<Rightarrow> mcdb_iter \<Rightarrow> rd \<Rightarrow> (bool \<times> mcdb_iter) option" where
  "mcdb_iter_step P it w =
     (if it_ptr it < it_eod it then do {
        mm \<leftarrow> get_map (it_map it) w;
        kl \<leftarrow> iter_load mm (it_ptr it) 4;
        dl \<leftarrow> iter_load mm (it_ptr it + 4) 4;
        let klen = uint32_strunpack_bigendian_macro P kl;
        let dlen = uint32_strunpack_bigendian_macro P dl;
        let it1 = it\<lparr>it_klen := klen, it_dlen := dlen, it_ptr := it_ptr it + uint (8 + klen + dlen)\<rparr>;
        if klen \<noteq> -1 then Some (True, it1) else Some (False, it1\<lparr>it_ptr := it_eod it1\<rparr>) }
      else Some (False, it))"

definition mcdb_iter_key :: "mcdb_iter \<Rightarrow> rd \<Rightarrow> bytes option" where
  "mcdb_iter_key it w = do {
     mm \<leftarrow> get_map (it_map it) w;
     iter_load mm (it_ptr it - uint (it_dlen it) - uint (it_klen it)) (unat (it_klen it)) }"

definition mcdb_iter_data :: "mcdb_iter \<Rightarrow> rd \<Rightarrow> bytes option" where
  "mcdb_iter_data it w = do {
     mm \<leftarrow> get_map (it_map it) w;
     iter_load mm (it_ptr it - uint (it_dlen it)) (unat (it_dlen it)) }"

end
