(* ===== verification/Mcdb_Makefmt.thy ===== *)
theory Mcdb_Makefmt
  imports Mcdb_Make
begin

text \<open>
  Making a database from formatted text, mcdb_makefmt.c: the buffered reader of lines
  \<^verbatim>\<open>+klen,dlen:key->data\<close> and the loop that feeds the writer.  The buffer is a byte memory of
  \<^verbatim>\<open>bufsz\<close> bytes; a load of a byte that was not read into it is undefined.
\<close>

subsection \<open>Input\<close>

text \<open>
  What is behind the descriptor: the bytes still to come, and an environment that decides how
  many bytes each \<^verbatim>\<open>read()\<close> transfers and whether it fails (after the retries on
  \<^verbatim>\<open>EINTR\<close>, which a macro of the plasma submodule makes).
\<close>

record infile =
  in_rest :: bytes
  in_count :: "nat \<Rightarrow> nat"
  in_fail :: "nat \<Rightarrow> nat"
  in_step :: nat

definition sys_read :: "infile \<Rightarrow> nat \<Rightarrow> (bytes + nat) \<times> infile" where
  "sys_read f n =
     (let k = min n (max 1 (in_count f (in_step f))); f1 = f\<lparr>in_step := Suc (in_step f)\<rparr>
      in if in_fail f (in_step f) = 0 then (Inl (take k (in_rest f)), f1\<lparr>in_rest := drop k (in_rest f)\<rparr>)
         else (Inr (in_fail f (in_step f)), f1))"

text \<open>\<^verbatim>\<open>fd\<close> is the open file, or \<^term>\<open>None\<close> for -1, the flag for a buffer that is the whole
  mapped file.\<close>

record mcdb_input =
  ib_buf :: mem
  ib_pos :: nat
  ib_datasz :: nat
  ib_bufsz :: nat
  ib_fd :: "infile option"

definition MCDB_ERROR_READFORMAT :: int where "MCDB_ERROR_READFORMAT = -1"
definition MCDB_ERROR_READ :: int where "MCDB_ERROR_READ = -2"
definition MCDB_ERROR_WRITE :: int where "MCDB_ERROR_WRITE = -3"
definition MCDB_ERROR_MALLOC :: int where "MCDB_ERROR_MALLOC = -4"
definition MCDB_ERROR_USAGE :: int where "MCDB_ERROR_USAGE = -5"

lemmas mcdb_errors = MCDB_ERROR_READFORMAT_def MCDB_ERROR_READ_def MCDB_ERROR_WRITE_def MCDB_ERROR_MALLOC_def MCDB_ERROR_USAGE_def

definition ib_avail :: "mcdb_input \<Rightarrow> nat" where
  "ib_avail b = ib_datasz b - ib_pos b"

definition ib_rest :: "mcdb_input \<Rightarrow> bytes" where
  "ib_rest b = (case ib_fd b of None \<Rightarrow> [] | Some f \<Rightarrow> in_rest f)"

text \<open>\<^verbatim>\<open>b->buf[b->pos++]\<close>.\<close>

definition ib_next :: "mcdb_input \<Rightarrow> (u8 \<times> mcdb_input) option" where
  "ib_next b = (if ib_pos b < ib_datasz b then Some (ib_buf b (ib_pos b), b\<lparr>ib_pos := ib_pos b + 1\<rparr>) else None)"

text \<open>The data is moved to the front of the buffer when little of it is left.\<close>

definition ib_compact :: "mcdb_input \<Rightarrow> mcdb_input" where
  "ib_compact b =
     (if ib_avail b < 128 \<and> ib_pos b \<noteq> 0
      then b\<lparr>ib_datasz := ib_avail b, ib_buf := mem_upd (ib_buf b) 0 (mem_slice (ib_buf b) (ib_pos b) (ib_avail b)), ib_pos := 0\<rparr>
      else b)"

definition mcdb_bufread_fd :: "mcdb_input \<Rightarrow> os \<Rightarrow> int \<times> mcdb_input \<times> os" where
  "mcdb_bufread_fd b w =
     (case ib_fd b of None \<Rightarrow> (-1, b, w)
      | Some f \<Rightarrow>
          (let b1 = ib_compact b;
               (r, f1) = sys_read f (ib_bufsz b1 - ib_datasz b1)
           in case r of
                Inl bs \<Rightarrow> (int (length bs), b1\<lparr>ib_buf := mem_upd (ib_buf b1) (ib_datasz b1) bs,
                            ib_datasz := ib_datasz b1 + length bs, ib_fd := Some f1\<rparr>, w)
              | Inr e \<Rightarrow> (-1, b1\<lparr>ib_fd := Some f1\<rparr>, w\<lparr>o_errno := e\<rparr>)))"

lemma bufread_fd_shorter:
  assumes "mcdb_bufread_fd b w = (r, b', w')" "0 < r"
  shows "length (ib_rest b') < length (ib_rest b)"
  using assms
  by (auto simp: mcdb_bufread_fd_def ib_rest_def Let_def sys_read_def split: option.splits if_splits)

text \<open>The loop of \<^verbatim>\<open>mcdb_bufread_preamble_fill\<close>; \<^term>\<open>r\<close> bytes at the end of the data are
  still to be searched for the colon.\<close>

function preamble_fill_loop :: "mcdb_input \<Rightarrow> nat \<Rightarrow> os \<Rightarrow> int \<times> mcdb_input \<times> os" where
  "preamble_fill_loop b r w =
     (if 58 \<notin> set (mem_slice (ib_buf b) (ib_datasz b - r) r) \<and> (r = 0 \<or> ib_buf b (ib_pos b) \<noteq> 10) then
        (let (r1, b1, w1) = mcdb_bufread_fd b w
         in if 0 < r1 \<and> ib_avail b1 < 23 then preamble_fill_loop b1 (nat r1) w1 else (r1, b1, w1))
      else (int r, b, w))"
  by pat_completeness auto
termination
  by (relation "measure (\<lambda>(b, r, w). length (ib_rest b))") (auto dest: bufread_fd_shorter [OF sym])

declare preamble_fill_loop.simps [simp del]

definition mcdb_bufread_preamble_fill :: "mcdb_input \<Rightarrow> os \<Rightarrow> int \<times> mcdb_input \<times> os" where
  "mcdb_bufread_preamble_fill b w = preamble_fill_loop b (ib_avail b) w"

text \<open>Digits from \<^term>\<open>pos\<close> on, with \<^term>\<open>n\<close> bytes of data left, while the number can still
  grow within \<^verbatim>\<open>INT_MAX - 8\<close>.\<close>

definition is_digit_char :: "u8 \<Rightarrow> bool" where
  "is_digit_char c \<longleftrightarrow> (scast c - 48 :: u32) \<le> 9"

fun number_loop :: "mem \<Rightarrow> nat \<Rightarrow> nat \<Rightarrow> nat \<Rightarrow> nat \<times> nat" where
  "number_loop buf 0 pos num = (num, pos)"
| "number_loop buf (Suc n) pos num =
     (if is_digit_char (buf pos) \<and> num \<le> 214748363 then number_loop buf n (pos + 1) (num * 10 + (unat (buf pos) - 48))
      else (num, pos))"

definition mcdb_bufread_number :: "mcdb_input \<Rightarrow> bool \<times> nat \<times> mcdb_input" where
  "mcdb_bufread_number b =
     (let (num, pos) = number_loop (ib_buf b) (ib_avail b) (ib_pos b) 0
      in if ib_pos b \<noteq> pos \<and> (ib_datasz b = pos \<or> \<not> is_digit_char (ib_buf b pos))
         then (True, num, b\<lparr>ib_pos := pos\<rparr>) else (False, num, b))"

text \<open>The separator after a number, if there is data left.\<close>

definition ib_expect :: "u8 \<Rightarrow> mcdb_input \<Rightarrow> (bool \<times> mcdb_input) option" where
  "ib_expect c b = (if ib_avail b = 0 then Some (False, b) else do { (x, b1) \<leftarrow> ib_next b; Some (x = c, b1) })"

text \<open>The two lengths and their separators.\<close>

definition bufread_lengths :: "mcdb_input \<Rightarrow> (bool \<times> nat \<times> nat \<times> mcdb_input) option" where
  "bufread_lengths b =
     (let (ok, klen, b1) = mcdb_bufread_number b
      in if \<not> ok then Some (False, klen, 0, b1)
         else do {
           (ok, b2) \<leftarrow> ib_expect 44 b1;
           if \<not> ok then Some (False, klen, 0, b2)
           else
             (let (ok, dlen, b3) = mcdb_bufread_number b2
              in if \<not> ok then Some (False, klen, dlen, b3)
                 else do { (ok, b4) \<leftarrow> ib_expect 58 b3; Some (ok, klen, dlen, b4) }) })"

text \<open>The result is 1 with the lengths for a preamble, 0 at the blank line, or an error.\<close>

definition mcdb_bufread_preamble :: "mcdb_input \<Rightarrow> os \<Rightarrow> (int \<times> nat \<times> nat \<times> mcdb_input \<times> os) option" where
  "mcdb_bufread_preamble b w =
     (let (r, b1, w1) = (if ib_avail b < 23 then mcdb_bufread_preamble_fill b w else (1, b, w))
      in if r \<le> 0 then Some (if o_errno w1 = 0 then MCDB_ERROR_READFORMAT else MCDB_ERROR_READ, 0, 0, b1, w1)
         else do {
           (c, b2) \<leftarrow> ib_next b1;
           if c = 43 then do {
             (ok, klen, dlen, b3) \<leftarrow> bufread_lengths b2;
             Some (if ok then 1 else MCDB_ERROR_READFORMAT, klen, dlen, b3, w1) }
           else Some (if c = 10 then 0 else MCDB_ERROR_READFORMAT, 0, 0, b2, w1) })"

subsection \<open>Records that are not buffered whole\<close>

datatype addbuf_fn = Addbuf_key | Addbuf_data

definition call_addbuf :: "addbuf_fn \<Rightarrow> mcdb_make \<Rightarrow> bytes \<Rightarrow> os \<Rightarrow> (mcdb_make \<times> os) option" where
  "call_addbuf fn m bs w = (case fn of Addbuf_key \<Rightarrow> mcdb_make_addbuf_key m bs w | Addbuf_data \<Rightarrow> mcdb_make_addbuf_data m bs w)"

function mcdb_bufread_str ::
  "mcdb_input \<Rightarrow> nat \<Rightarrow> mcdb_make \<Rightarrow> addbuf_fn \<Rightarrow> os \<Rightarrow> (bool \<times> mcdb_input \<times> mcdb_make \<times> os) option" where
  "mcdb_bufread_str b len m fn w = do {
     let u = min (ib_avail b) len;
     (m1, w1) \<leftarrow> call_addbuf fn m (mem_slice (ib_buf b) (ib_pos b) u) w;
     let b1 = b\<lparr>ib_pos := ib_pos b + u\<rparr>;
     if len - u = 0 then Some (True, b1, m1, w1)
     else
       (let (r, b2, w2) = mcdb_bufread_fd b1 w1
        in if 0 < r then mcdb_bufread_str b2 (len - u) m1 fn w2 else Some (False, b2, m1, w2)) }"
  by pat_completeness auto
termination
  by (relation "measure (\<lambda>(b, len, m, fn, w). length (ib_rest b))")
    (auto simp: ib_rest_def dest!: bufread_fd_shorter [OF sym])

declare mcdb_bufread_str.simps [simp del]

function mcdb_bufread_xchars :: "mcdb_input \<Rightarrow> nat \<Rightarrow> os \<Rightarrow> bool \<times> mcdb_input \<times> os" where
  "mcdb_bufread_xchars b len w =
     (if ib_avail b < len then
        (let (r, b1, w1) = mcdb_bufread_fd b w
         in if 0 < r then mcdb_bufread_xchars b1 len w1 else (len \<le> ib_avail b1, b1, w1))
      else (True, b, w))"
  by pat_completeness auto
termination
  by (relation "measure (\<lambda>(b, len, w). length (ib_rest b))") (auto dest: bufread_fd_shorter [OF sym])

declare mcdb_bufread_xchars.simps [simp del]

text \<open>The characters \<^term>\<open>cs\<close>, which must come next.\<close>

fun ib_chars :: "bytes \<Rightarrow> mcdb_input \<Rightarrow> (bool \<times> mcdb_input) option" where
  "ib_chars [] b = Some (True, b)"
| "ib_chars (c # cs) b = do { (x, b1) \<leftarrow> ib_next b; if x = c then ib_chars cs b1 else Some (False, b1) }"

definition mcdb_bufread_sep :: "bytes \<Rightarrow> mcdb_input \<Rightarrow> os \<Rightarrow> (bool \<times> mcdb_input \<times> os) option" where
  "mcdb_bufread_sep cs b w =
     (let (ok, b1, w1) = mcdb_bufread_xchars b (length cs) w
      in if \<not> ok then Some (False, b1, w1) else do { (ok, b2) \<leftarrow> ib_chars cs b1; Some (ok, b2, w1) })"

definition mcdb_bufread_rec ::
  "mcdb_make \<Rightarrow> nat \<Rightarrow> nat \<Rightarrow> mcdb_input \<Rightarrow> os \<Rightarrow> (bool \<times> mcdb_input \<times> mcdb_make \<times> os) option" where
  "mcdb_bufread_rec m klen dlen b w = do {
     (ok, b1, m1, w1) \<leftarrow> mcdb_bufread_str b klen m Addbuf_key w;
     if \<not> ok then Some (False, b1, m1, w1)
     else do {
       (ok, b2, w2) \<leftarrow> mcdb_bufread_sep [45, 62] b1 w1;
       if \<not> ok then Some (False, b2, m1, w2)
       else do {
         (ok, b3, m2, w3) \<leftarrow> mcdb_bufread_str b2 dlen m1 Addbuf_data w2;
         if \<not> ok then Some (False, b3, m2, w3)
         else do {
           (ok, b4, w4) \<leftarrow> mcdb_bufread_sep [10] b3 w3;
           Some (ok, b4, m2, w4) } } } }"

subsection \<open>The whole input\<close>

text \<open>One record after its preamble, from the buffer or in parts: 0, or the error.\<close>

definition makefmt_record ::
  "plasma_endian \<Rightarrow> mcdb_make \<Rightarrow> nat \<Rightarrow> nat \<Rightarrow> mcdb_input \<Rightarrow> os \<Rightarrow> (int \<times> mcdb_make \<times> mcdb_input \<times> os) option" where
  "makefmt_record P m klen dlen b w =
     (if klen + dlen + 3 \<le> ib_avail b then
        (let p = ib_pos b
         in if ib_buf b (p + klen) = 45 \<and> ib_buf b (p + klen + 1) = 62 \<and> ib_buf b (p + klen + 2 + dlen) = 10 then do {
              (rc, m1, w1) \<leftarrow> mcdb_make_add P m (mem_slice (ib_buf b) p klen) (mem_slice (ib_buf b) (p + klen + 2) dlen) w;
              Some (if rc = 0 then (0, m1, b\<lparr>ib_pos := p + (klen + dlen + 3)\<rparr>, w1) else (MCDB_ERROR_WRITE, m1, b, w1)) }
            else Some (MCDB_ERROR_READFORMAT, m, b, w))
      else do {
        (rc, m1, w1) \<leftarrow> mcdb_make_addbegin P m klen dlen w;
        if rc = 0 then do {
          (ok, b1, m2, w2) \<leftarrow> mcdb_bufread_rec m1 klen dlen b w1;
          if ok then do { m3 \<leftarrow> mcdb_make_addend m2; Some (0, m3, b1, w2) }
          else Some (MCDB_ERROR_READFORMAT, m2, b1, w2) }
        else Some (MCDB_ERROR_WRITE, m1, b, w1) })"

partial_function (option) makefmt_loop ::
  "plasma_endian \<Rightarrow> mcdb_make \<Rightarrow> mcdb_input \<Rightarrow> os \<Rightarrow> (int \<times> mcdb_make \<times> os) option" where
  "makefmt_loop P m b w = do {
     (rv, klen, dlen, b1, w1) \<leftarrow> mcdb_bufread_preamble b w;
     if rv \<le> 0 then Some (rv, m, w1)
     else do {
       (rv, m1, b2, w2) \<leftarrow> makefmt_record P m klen dlen b1 w1;
       if rv = 0 then makefmt_loop P m1 b2 w2 else Some (rv, m1, w2) } }"

text \<open>\<^verbatim>\<open>mcdb_makefmt_fdintofd\<close>: the buffer's old content is \<^term>\<open>buf\<close>.\<close>

definition mcdb_makefmt_fdintofd ::
  "plasma_endian \<Rightarrow> nat \<Rightarrow> infile option \<Rightarrow> mem \<Rightarrow> nat \<Rightarrow> int \<Rightarrow> os \<Rightarrow> (int \<times> os) option" where
  "mcdb_makefmt_fdintofd P pagesize inputfd buf bufsz outputfd w = do {
     (rc, m, w1) \<leftarrow> mcdb_make_start pagesize outputfd (w\<lparr>o_errno := 0\<rparr>);
     if rc = -1 then Some (MCDB_ERROR_WRITE, w1)
     else do {
       let b = \<lparr>ib_buf = buf, ib_pos = 0, ib_datasz = (if inputfd = None then bufsz else 0), ib_bufsz = bufsz, ib_fd = inputfd\<rparr>;
       (rv, m1, w2) \<leftarrow> makefmt_loop P m b w1;
       if rv = 0 then do {
         (rc, m2, w3) \<leftarrow> mcdb_make_finish P m1 w2;
         Some (if rc = 0 then 0 else MCDB_ERROR_WRITE, w3) }
       else do {
         (rc, m2, w3) \<leftarrow> mcdb_make_destroy m1 w2;
         Some (rv, w3) } } }"

end
