(* ===== verification/Mcdbctl_Out.thy ===== *)
theory Mcdbctl_Out
  imports Mcdb_Find Mcdb_Makefmt
begin

text \<open>
  The queries of mcdbctl.c that print: the loop around \<^verbatim>\<open>writev()\<close>, the dump of a database in
  the text format, and the values of a key.
\<close>

subsection \<open>Standard output\<close>

text \<open>
  The bytes written so far, and an environment that decides for each call how many bytes it
  transfers and whether it fails.  \<^term>\<open>iov_max\<close> is the limit \<^verbatim>\<open>IOV_MAX\<close> of the system.
\<close>

record outs =
  ou_bytes :: bytes
  ou_count :: "nat \<Rightarrow> nat"
  ou_fail :: "nat \<Rightarrow> nat"
  ou_step :: nat
  ou_errno :: nat

definition SSIZE_MAX :: nat where "SSIZE_MAX = 9223372036854775807"

definition sys_writev :: "nat \<Rightarrow> bytes list \<Rightarrow> outs \<Rightarrow> nat option \<times> outs" where
  "sys_writev iov_max iov out =
     (let bs = concat iov; k = min (length bs) (max 1 (ou_count out (ou_step out)));
          e = (if length iov > iov_max \<or> length bs > SSIZE_MAX then EINVAL else ou_fail out (ou_step out));
          out1 = out\<lparr>ou_step := Suc (ou_step out)\<rparr>
      in if e = 0 then (Some k, out1\<lparr>ou_bytes := ou_bytes out @ take k bs\<rparr>) else (None, out1\<lparr>ou_errno := e\<rparr>))"

text \<open>Skipping the bytes that were written; beyond the last vector the access is undefined.\<close>

fun iov_advance :: "nat \<Rightarrow> bytes list \<Rightarrow> bytes list option" where
  "iov_advance len iov =
     (if len = 0 then Some iov
      else case iov of
             [] \<Rightarrow> None
           | v # vs \<Rightarrow> (if length v \<le> len then iov_advance (len - length v) vs else Some (drop len v # vs)))"

declare iov_advance.simps [simp del]

partial_function (option) writev_loop :: "nat \<Rightarrow> bytes list \<Rightarrow> int \<Rightarrow> outs \<Rightarrow> (bool \<times> outs) option" where
  "writev_loop iov_max iov sz out =
     (if iov = [] then Some (True, out)
      else case sys_writev iov_max iov out of
             (None, out1) \<Rightarrow> Some (False, out1)
           | (Some len, out1) \<Rightarrow>
               (if sz - int len = 0 then Some (True, out1)
                else do { iov1 \<leftarrow> iov_advance len iov; writev_loop iov_max iov1 (sz - int len) out1 }))"

subsection \<open>Dump\<close>

text \<open>
  The vectors collected so far, the size that the code counts for them, and the bytes used in
  the buffer for numbers.  A vector or a number beyond the arrays is undefined.
\<close>

record dump_buf =
  du_iov :: "bytes list"
  du_iovlen :: nat
  du_buflen :: nat

definition dump_empty :: dump_buf where
  "dump_empty = \<lparr>du_iov = [], du_iovlen = 0, du_buflen = 0\<rparr>"

definition dump_iov :: "nat \<Rightarrow> bytes \<Rightarrow> dump_buf \<Rightarrow> dump_buf option" where
  "dump_iov iov_max v d = (if length (du_iov d) < iov_max then Some (d\<lparr>du_iov := du_iov d @ [v]\<rparr>) else None)"

definition dump_number :: "nat \<Rightarrow> u32 \<Rightarrow> dump_buf \<Rightarrow> dump_buf option" where
  "dump_number iov_max n d = do {
     v \<leftarrow> uint32_to_ascii_base10 n;
     if du_buflen d + length v \<le> iov_max * 3 then dump_iov iov_max v (d\<lparr>du_buflen := du_buflen d + length v\<rparr>) else None }"

definition dump_flush :: "nat \<Rightarrow> dump_buf \<Rightarrow> outs \<Rightarrow> (bool \<times> dump_buf \<times> outs) option" where
  "dump_flush iov_max d out = do {
     (ok, out1) \<leftarrow> writev_loop iov_max (du_iov d) (int (du_iovlen d)) out;
     Some (ok, if ok then dump_empty else d, out1) }"

definition dump_head :: "nat \<Rightarrow> mcdb_iter \<Rightarrow> rd \<Rightarrow> dump_buf \<Rightarrow> dump_buf option" where
  "dump_head iov_max it w d = do {
     d1 \<leftarrow> dump_iov iov_max [43] d;
     d2 \<leftarrow> dump_number iov_max (it_klen it) d1;
     d3 \<leftarrow> dump_iov iov_max [44] d2;
     d4 \<leftarrow> dump_number iov_max (it_dlen it) d3;
     d5 \<leftarrow> dump_iov iov_max [58] d4;
     k \<leftarrow> mcdb_iter_key it w;
     d6 \<leftarrow> dump_iov iov_max k d5;
     d7 \<leftarrow> dump_iov iov_max [45, 62] d6;
     Some (d7\<lparr>du_iovlen := du_iovlen d7 + unat (it_klen it) + 5\<rparr>) }"

definition dump_tail :: "nat \<Rightarrow> mcdb_iter \<Rightarrow> rd \<Rightarrow> dump_buf \<Rightarrow> dump_buf option" where
  "dump_tail iov_max it w d = do {
     v \<leftarrow> mcdb_iter_data it w;
     d1 \<leftarrow> dump_iov iov_max v d;
     d2 \<leftarrow> dump_iov iov_max [10] d1;
     Some (d2\<lparr>du_iovlen := du_iovlen d2 + unat (it_dlen it) + 1\<rparr>) }"

definition dump_rec :: "nat \<Rightarrow> mcdb_iter \<Rightarrow> rd \<Rightarrow> dump_buf \<Rightarrow> outs \<Rightarrow> (bool \<times> dump_buf \<times> outs) option" where
  "dump_rec iov_max it w d out = do {
     (ok, d1, out1) \<leftarrow> (if du_iovlen d + unat (it_klen it) + 5 > SSIZE_MAX \<or> length (du_iov d) + 8 \<ge> iov_max
                         then dump_flush iov_max d out else Some (True, d, out));
     if \<not> ok then Some (False, d1, out1)
     else do {
       d2 \<leftarrow> dump_head iov_max it w d1;
       (ok, d3, out2) \<leftarrow> (if du_iovlen d2 + unat (it_dlen it) + 1 > SSIZE_MAX then dump_flush iov_max d2 out1
                           else Some (True, d2, out1));
       if \<not> ok then Some (False, d3, out2)
       else do { d4 \<leftarrow> dump_tail iov_max it w d3; Some (True, d4, out2) } } }"

partial_function (option) dump_loop ::
  "plasma_endian \<Rightarrow> nat \<Rightarrow> mcdb_iter \<Rightarrow> rd \<Rightarrow> dump_buf \<Rightarrow> outs \<Rightarrow> (bool \<times> dump_buf \<times> outs) option" where
  "dump_loop P iov_max it w d out = do {
     (more, it1) \<leftarrow> mcdb_iter_step P it w;
     if \<not> more then Some (True, d, out)
     else do {
       (ok, d1, out1) \<leftarrow> dump_rec iov_max it1 w d out;
       if ok then dump_loop P iov_max it1 w d1 out1 else Some (False, d1, out1) } }"

text \<open>\<^verbatim>\<open>write()\<close> is \<^verbatim>\<open>writev()\<close> with one vector.  The hints to the kernel about the pages of
  the mapping change no state.\<close>

definition mcdbctl_dump :: "plasma_endian \<Rightarrow> nat \<Rightarrow> mcdb \<Rightarrow> rd \<Rightarrow> outs \<Rightarrow> (int \<times> outs) option" where
  "mcdbctl_dump P iov_max m w out = do {
     it \<leftarrow> mcdb_iter_init P m w;
     (ok, d, out1) \<leftarrow> dump_loop P iov_max it w dump_empty out;
     if \<not> ok then Some (MCDB_ERROR_WRITE, out1)
     else do {
       (ok, out2) \<leftarrow> writev_loop iov_max (du_iov d) (int (du_iovlen d)) out1;
       if \<not> ok then Some (MCDB_ERROR_WRITE, out2)
       else (let (r, out3) = sys_writev 1 [[10]] out2 in Some (if r = Some 1 then 0 else MCDB_ERROR_WRITE, out3)) } }"

subsection \<open>The values of a key\<close>

text \<open>\<^verbatim>\<open>key\<close> is a C string.  The result 1 is \<^verbatim>\<open>EXIT_FAILURE\<close>.\<close>

partial_function (option) getseq_loop ::
  "plasma_endian \<Rightarrow> mcdb \<Rightarrow> bytes \<Rightarrow> u64 \<Rightarrow> rd \<Rightarrow> (bool \<times> mcdb) option" where
  "getseq_loop P m key seq w = do {
     (rc, m1) \<leftarrow> mcdb_findtagnext P m key 0 w;
     if rc \<and> seq \<noteq> 0 then getseq_loop P m1 key (seq - 1) w else Some (rc, m1) }"

definition put_value :: "nat \<Rightarrow> mcdb \<Rightarrow> rd \<Rightarrow> outs \<Rightarrow> (bool \<times> outs) option" where
  "put_value iov_max m w out = do {
     v \<leftarrow> mcdb_data m w;
     writev_loop iov_max [v, [10]] (int (length v + 1)) out }"

definition mcdbctl_getseq ::
  "plasma_endian \<Rightarrow> nat \<Rightarrow> mcdb \<Rightarrow> bytes \<Rightarrow> u64 \<Rightarrow> rd \<Rightarrow> outs \<Rightarrow> (int \<times> rd \<times> outs) option" where
  "mcdbctl_getseq P iov_max m key seq w out = do {
     (r, m1, w1) \<leftarrow> mcdb_findtagstart P m key 0 w;
     if \<not> r then Some (1, w1, out)
     else do {
       (rc, m2) \<leftarrow> getseq_loop P m1 key seq w1;
       if \<not> rc then Some (1, w1, out)
       else do {
         (ok, out1) \<leftarrow> put_value iov_max m2 w1 out;
         Some (if ok then 0 else MCDB_ERROR_WRITE, w1, out1) } } }"

partial_function (option) getall_loop ::
  "plasma_endian \<Rightarrow> nat \<Rightarrow> mcdb \<Rightarrow> bytes \<Rightarrow> rd \<Rightarrow> outs \<Rightarrow> (int \<times> outs) option" where
  "getall_loop P iov_max m key w out = do {
     (ok, out1) \<leftarrow> put_value iov_max m w out;
     if \<not> ok then Some (MCDB_ERROR_WRITE, out1)
     else do {
       (r, m1) \<leftarrow> mcdb_findtagnext P m key 0 w;
       if r then getall_loop P iov_max m1 key w out1 else Some (0, out1) } }"

definition mcdbctl_getall ::
  "plasma_endian \<Rightarrow> nat \<Rightarrow> mcdb \<Rightarrow> bytes \<Rightarrow> rd \<Rightarrow> outs \<Rightarrow> (int \<times> rd \<times> outs) option" where
  "mcdbctl_getall P iov_max m key w out = do {
     (r, m1, w1) \<leftarrow> mcdb_find P m key w;
     if r then do { (rv, out1) \<leftarrow> getall_loop P iov_max m1 key w1 out; Some (rv, w1, out1) }
     else Some (1, w1, out) }"

end
