(* ===== verification/Mcdb_Makefn.thy ===== *)
theory Mcdb_Makefn
  imports Mcdb_Makefmt
begin

text \<open>
  Making a database under a name, mcdb\_makefn.c and the two wrappers of mcdb\_makefmt.c: the
  database is written into a temporary file beside the named one, which replaces it by
  \<^verbatim>\<open>rename()\<close> only when it is complete.
\<close>

subsection \<open>Files and names\<close>

text \<open>
  A directory maps names to inodes.  The inode \<^verbatim>\<open>fs_out\<close> is the output file of the writer,
  whose content is in \<^verbatim>\<open>fs_os\<close>; the content of every other file is in \<^verbatim>\<open>fs_data\<close>.  Each
  system call succeeds or fails as the environment of \<^verbatim>\<open>fs_os\<close> decides.  Whether a failed
  \<^verbatim>\<open>close()\<close> leaves the descriptor open is not specified, and decided by \<^verbatim>\<open>fs_close_keeps\<close>;
  the characters that \<^verbatim>\<open>mkstemp()\<close> picks are \<^verbatim>\<open>fs_suffix\<close>.
\<close>

record fs =
  fs_os :: os
  fs_dir :: "bytes \<Rightarrow> nat option"
  fs_data :: "nat \<Rightarrow> bytes"
  fs_mode :: "nat \<Rightarrow> nat"
  fs_reg :: "nat \<Rightarrow> bool"
  fs_out :: nat
  fs_fds :: "(int \<times> nat) list"
  fs_fresh :: nat
  fs_suffix :: bytes
  fs_close_keeps :: bool

definition EEXIST :: nat where "EEXIST = 17"
definition S_IRUSR :: nat where "S_IRUSR = 256"

definition fs_content :: "fs \<Rightarrow> nat \<Rightarrow> bytes" where
  "fs_content w i = (if i = fs_out w then mem_slice (o_file (fs_os w)) 0 (o_flen (fs_os w)) else fs_data w i)"

definition fs_error :: "nat \<Rightarrow> fs \<Rightarrow> fs" where
  "fs_error e w = w\<lparr>fs_os := (fs_os w)\<lparr>o_errno := e\<rparr>\<rparr>"

definition fs_call :: "fs \<Rightarrow> bool \<times> fs" where
  "fs_call w = (let (ok, o1) = ext_call (fs_os w) in (ok, w\<lparr>fs_os := o1\<rparr>))"

definition fs_malloc :: "fs \<Rightarrow> nat option \<times> fs" where
  "fs_malloc w = (let (r, o1) = os_malloc (fs_os w) in (r, w\<lparr>fs_os := o1\<rparr>))"

definition fs_free :: "nat \<Rightarrow> fs \<Rightarrow> fs option" where
  "fs_free p w = map_option (\<lambda>o1. w\<lparr>fs_os := o1\<rparr>) (os_free p (fs_os w))"

text \<open>\<^verbatim>\<open>stat()\<close>: the inode behind the name.\<close>

definition fs_stat :: "bytes \<Rightarrow> fs \<Rightarrow> nat option \<times> fs" where
  "fs_stat name w =
     (let (ok, w1) = fs_call w
      in if \<not> ok then (None, w1)
         else (case fs_dir w1 name of None \<Rightarrow> (None, fs_error ENOENT w1) | Some i \<Rightarrow> (Some i, w1)))"

text \<open>The lowest descriptor that is not open.\<close>

definition free_fd :: "(int \<times> nat) list \<Rightarrow> int" where
  "free_fd fds = hd (filter (\<lambda>n. n \<notin> fst ` set fds) (map int [0..<Suc (length fds)]))"

definition fs_open :: "nat \<Rightarrow> fs \<Rightarrow> int \<times> fs" where
  "fs_open i w = (let fd = free_fd (fs_fds w) in (fd, w\<lparr>fs_fds := (fd, i) # fs_fds w\<rparr>))"

text \<open>\<^verbatim>\<open>mkstemp()\<close> replaces the last six characters of the string by others that give a new name,
  creates the file of that name with mode 0600 and opens it.  The file is the writer's output.\<close>

definition fs_mkstemp :: "bytes \<Rightarrow> fs \<Rightarrow> int \<times> bytes \<times> fs" where
  "fs_mkstemp template w =
     (let (ok, w1) = fs_call w; name = take (length template - 6) template @ fs_suffix w
      in if \<not> ok then (-1, template, w1)
         else if fs_dir w1 name \<noteq> None then (-1, template, fs_error EEXIST w1)
         else (let i = fs_fresh w1;
                   (fd, w2) = fs_open i w1
               in (fd, name, w2\<lparr>fs_data := (fs_data w2)(fs_out w2 := fs_content w2 (fs_out w2)), fs_out := i, fs_fresh := Suc i,
                      fs_dir := (fs_dir w2)(name \<mapsto> i), fs_mode := (fs_mode w2)(i := 384), fs_reg := (fs_reg w2)(i := True),
                      fs_os := (fs_os w2)\<lparr>o_file := (\<lambda>_. 0), o_flen := 0, o_off := 0\<rparr>\<rparr>)))"

definition fs_fchmod :: "int \<Rightarrow> nat \<Rightarrow> fs \<Rightarrow> bool \<times> fs" where
  "fs_fchmod fd mode w =
     (let (ok, w1) = fs_call w
      in case map_of (fs_fds w) fd of
           None \<Rightarrow> (False, fs_error EBADF w1)
         | Some i \<Rightarrow> (ok, if ok then w1\<lparr>fs_mode := (fs_mode w1)(i := mode)\<rparr> else w1))"

text \<open>\<^verbatim>\<open>nointr_close\<close>, after the retries that a macro of the plasma submodule makes.\<close>

definition fs_close :: "int \<Rightarrow> fs \<Rightarrow> bool \<times> fs" where
  "fs_close fd w =
     (if map_of (fs_fds w) fd = None then (False, fs_error EBADF w)
      else (let (ok, w1) = fs_call w
            in (ok, if ok \<or> \<not> fs_close_keeps w then w1\<lparr>fs_fds := filter (\<lambda>p. fst p \<noteq> fd) (fs_fds w1)\<rparr> else w1)))"

definition fs_rename :: "bytes \<Rightarrow> bytes \<Rightarrow> fs \<Rightarrow> bool \<times> fs" where
  "fs_rename a b w =
     (let (ok, w1) = fs_call w
      in if \<not> ok then (False, w1)
         else (case fs_dir w1 a of
                 None \<Rightarrow> (False, fs_error ENOENT w1)
               | Some i \<Rightarrow> (True, w1\<lparr>fs_dir := (fs_dir w1)(a := None, b \<mapsto> i)\<rparr>)))"

definition fs_unlink :: "bytes \<Rightarrow> fs \<Rightarrow> bool \<times> fs" where
  "fs_unlink a w =
     (let (ok, w1) = fs_call w
      in if \<not> ok then (False, w1)
         else (case fs_dir w1 a of None \<Rightarrow> (False, fs_error ENOENT w1) | Some i \<Rightarrow> (True, w1\<lparr>fs_dir := (fs_dir w1)(a := None)\<rparr>)))"

subsection \<open>The named temporary file\<close>

text \<open>
  The fields of \<^verbatim>\<open>struct mcdb_make\<close> that these functions use.  \<^verbatim>\<open>mf_fntmp\<close> is the allocated block
  with its content, two strings; \<^verbatim>\<open>mf_fname\<close> is the offset of the second.
\<close>

record mcdb_makefn =
  mf_fntmp :: "(nat \<times> bytes) option"
  mf_fname :: nat
  mf_st_mode :: nat
  mf_fd :: int

definition c_str :: "bytes \<Rightarrow> bytes" where
  "c_str bs = takeWhile (\<lambda>c. c \<noteq> 0) bs"

definition makefn_create :: "bytes \<Rightarrow> nat \<Rightarrow> mcdb_makefn \<Rightarrow> fs \<Rightarrow> (int \<times> mcdb_makefn \<times> fs) option" where
  "makefn_create fname st_mode m w =
     (let len = length fname; (r, w1) = fs_malloc w
      in case r of
           None \<Rightarrow> Some (-1, m, w1)
         | Some blk \<Rightarrow>
             (let block = fname @ [46, 88, 88, 88, 88, 88, 88, 0] @ fname @ [0];
                  m1 = m\<lparr>mf_st_mode := st_mode\<rparr>;
                  (fd, name, w2) = fs_mkstemp (c_str block) w1;
                  m2 = m1\<lparr>mf_fd := fd\<rparr>
              in if fd \<noteq> -1
                 then Some (0, m2\<lparr>mf_fntmp := Some (blk, name @ drop (length name) block), mf_fname := len + 8\<rparr>, w2)
                 else do { w3 \<leftarrow> fs_free blk w2; Some (-1, m2, w3) }))"

definition mcdb_makefn_start :: "bytes \<Rightarrow> fs \<Rightarrow> (int \<times> mcdb_makefn \<times> fs) option" where
  "mcdb_makefn_start fname w =
     (let m = \<lparr>mf_fntmp = None, mf_fname = 0, mf_st_mode = 0, mf_fd = -1\<rparr>; (r, w1) = fs_stat fname w
      in case r of
           None \<Rightarrow> (if o_errno (fs_os w1) \<noteq> ENOENT then Some (-1, m, w1) else makefn_create fname S_IRUSR m w1)
         | Some i \<Rightarrow> (if \<not> fs_reg w1 i then Some (-1, m, fs_error EINVAL w1) else makefn_create fname (fs_mode w1 i) m w1))"

text \<open>The names in the block.\<close>

definition mf_tmp_name :: "mcdb_makefn \<Rightarrow> bytes" where
  "mf_tmp_name m = (case mf_fntmp m of None \<Rightarrow> [] | Some (blk, bs) \<Rightarrow> c_str bs)"

definition mf_new_name :: "mcdb_makefn \<Rightarrow> bytes" where
  "mf_new_name m = (case mf_fntmp m of None \<Rightarrow> [] | Some (blk, bs) \<Rightarrow> c_str (drop (mf_fname m) bs))"

definition mcdb_makefn_finish :: "mcdb_makefn \<Rightarrow> bool \<Rightarrow> fs \<Rightarrow> int \<times> mcdb_makefn \<times> fs" where
  "mcdb_makefn_finish m datasync w =
     (let (ok, w1) = fs_fchmod (mf_fd m) (mf_st_mode m) w
      in if \<not> ok then (-1, m, w1)
         else (let (ok, w2) = (if datasync then fs_call w1 else (True, w1))
               in if \<not> ok then (-1, m, w2)
                  else (let (ok, w3) = fs_close (mf_fd m) w2
                        in if \<not> ok then (-1, m, w3)
                           else (let m1 = m\<lparr>mf_fd := -2\<rparr>;
                                     (ok, w4) = fs_rename (mf_tmp_name m1) (mf_new_name m1) w3
                                 in if ok then (0, m1\<lparr>mf_fd := -1\<rparr>, w4) else (-1, m1, w4)))))"

definition mcdb_makefn_cleanup :: "mcdb_makefn \<Rightarrow> fs \<Rightarrow> (mcdb_makefn \<times> fs) option" where
  "mcdb_makefn_cleanup m w =
     (let errsave = o_errno (fs_os w);
          (m1, w1) =
            (if mf_fd m \<noteq> -1
             then (let (_, w1) = fs_unlink (mf_tmp_name m) w;
                       w2 = (if 0 \<le> mf_fd m then snd (fs_close (mf_fd m) w1) else w1)
                   in (m\<lparr>mf_fd := -1\<rparr>, w2))
             else (m, w))
      in do {
        (m2, w3) \<leftarrow> (case mf_fntmp m1 of
                       None \<Rightarrow> Some (m1, w1)
                     | Some (blk, _) \<Rightarrow> do { w3 \<leftarrow> fs_free blk w1; Some (m1\<lparr>mf_fntmp := None\<rparr>, w3) });
        Some (m2, if errsave \<noteq> 0 then fs_error errsave w3 else w3) })"

subsection \<open>Conversion of a text into a named database\<close>

definition mcdb_makefmt_fdintofile ::
  "plasma_endian \<Rightarrow> nat \<Rightarrow> infile option \<Rightarrow> mem \<Rightarrow> nat \<Rightarrow> bytes \<Rightarrow> fs \<Rightarrow> (int \<times> fs) option" where
  "mcdb_makefmt_fdintofile P pagesize inputfd buf bufsz fname w = do {
     (rc, m, w1) \<leftarrow> mcdb_makefn_start fname w;
     (rv, w2) \<leftarrow> (if rc = 0 then do {
                     (rv, o2) \<leftarrow> mcdb_makefmt_fdintofd P pagesize inputfd buf bufsz (mf_fd m) (fs_os w1);
                     Some (rv, w1\<lparr>fs_os := o2\<rparr>) }
                   else Some (if o_errno (fs_os w1) = ENOMEM then MCDB_ERROR_MALLOC else MCDB_ERROR_WRITE, w1));
     let (rv, m1, w3) = (if rv = 0 then (let (rc, m1, w3) = mcdb_makefn_finish m True w2
                                         in (if rc = 0 then 0 else MCDB_ERROR_WRITE, m1, w3))
                         else (rv, m, w2));
     (_, w4) \<leftarrow> mcdb_makefn_cleanup m1 w3;
     Some (rv, w4) }"

text \<open>The input file is mapped: the buffer is its content, and there is no descriptor.  An empty
  mapping is refused by \<^verbatim>\<open>mmap()\<close>; \<^verbatim>\<open>posix_madvise()\<close> changes no state.\<close>

definition mem_of :: "bytes \<Rightarrow> mem" where
  "mem_of bs = (\<lambda>i. if i < length bs then bs ! i else 0)"

definition fs_open_name :: "bytes \<Rightarrow> fs \<Rightarrow> (int \<times> nat) option \<times> fs" where
  "fs_open_name name w =
     (case fs_stat name w of
        (None, w1) \<Rightarrow> (None, w1)
      | (Some i, w1) \<Rightarrow> (let (fd, w2) = fs_open i w1 in (Some (fd, i), w2)))"

text \<open>The bytes of the mapping, if \<^verbatim>\<open>fstat()\<close> and \<^verbatim>\<open>mmap()\<close> succeed on a regular file.\<close>

definition fileintofile_map :: "nat \<Rightarrow> fs \<Rightarrow> bytes option \<times> fs" where
  "fileintofile_map i w =
     (let (ok, w1) = fs_call w
      in if \<not> ok then (None, w1)
         else if \<not> fs_reg w1 i then (None, fs_error EINVAL w1)
         else (let (ok, w2) = fs_call w1
               in if \<not> ok then (None, w2)
                  else if fs_content w2 i = [] then (None, fs_error EINVAL w2)
                  else (Some (fs_content w2 i), w2)))"

definition mcdb_makefmt_fileintofile ::
  "plasma_endian \<Rightarrow> nat \<Rightarrow> bytes \<Rightarrow> bytes \<Rightarrow> fs \<Rightarrow> (int \<times> fs) option" where
  "mcdb_makefmt_fileintofile P pagesize infile fname w =
     (case fs_open_name infile w of
        (None, w1) \<Rightarrow> Some (MCDB_ERROR_READ, w1)
      | (Some (fd, i), w1) \<Rightarrow>
          (let (x, w2) = fileintofile_map i w1;
               errsave = (if x = None then o_errno (fs_os w2) else 0);
               (ok, w3) = fs_close fd w2
           in case x of
                Some bs \<Rightarrow> do {
                  (rv, w4) \<leftarrow> (if ok then mcdb_makefmt_fdintofile P pagesize None (mem_of bs) (length bs) fname w3
                                else Some (MCDB_ERROR_READ, w3));
                  Some (rv, snd (fs_call w4)) }
              | None \<Rightarrow> Some (MCDB_ERROR_READ, if errsave \<noteq> 0 then fs_error errsave w3 else w3)))"

end
