(* ===== verification/Mcdbctl.thy ===== *)
theory Mcdbctl
  imports Mcdbctl_Out Mcdb_Makefn
begin

text \<open>
  The rest of the command line tool, mcdbctl.c: statistics, removing duplicate keys, making a
  database, and the dispatch on the arguments; and the exit status of mcdb\_error.c.  The hints to
  the kernel about pages (\<^verbatim>\<open>posix_madvise\<close>) change no state.
\<close>

subsection \<open>Statistics\<close>

definition ascii :: "string \<Rightarrow> bytes" where
  "ascii s = map of_char s"

definition iter_datapos :: "mcdb_iter \<Rightarrow> u64" where
  "iter_datapos it = word_of_int (it_ptr it - uint (it_dlen it))"

partial_function (option) stats_find ::
  "plasma_endian \<Rightarrow> mcdb \<Rightarrow> bytes \<Rightarrow> u64 \<Rightarrow> rd \<Rightarrow> (bool \<times> mcdb) option" where
  "stats_find P m key dpos w = do {
     (rc, m1) \<leftarrow> mcdb_findtagnext P m key 0 w;
     if rc \<and> m_dpos m1 \<noteq> dpos then stats_find P m1 key dpos w else Some (rc, m1) }"

text \<open>One record of the statistics: searched from the start of its slot; an index outside
  \<^verbatim>\<open>numd\<close> is undefined.\<close>

definition stats_rec ::
  "plasma_endian \<Rightarrow> mcdb \<Rightarrow> mcdb_iter \<Rightarrow> rd \<Rightarrow> u64 list \<Rightarrow> (bool \<times> mcdb \<times> rd \<times> u64 list) option" where
  "stats_rec P m it w numd = do {
     k \<leftarrow> mcdb_iter_key it w;
     (r, m1, w1) \<leftarrow> mcdb_findtagstart P m k 0 w;
     (rc, m2) \<leftarrow> (if r then stats_find P m1 k (iter_datapos it) w1 else Some (False, m1));
     if \<not> rc then Some (False, m2, w1, numd)
     else
       (let i = (if m_loop m2 < 11 then unat (m_loop m2 - 1) else 10)
        in if i < length numd then Some (True, m2, w1, numd[i := numd ! i + 1]) else None) }"

partial_function (option) stats_loop ::
  "plasma_endian \<Rightarrow> mcdb \<Rightarrow> mcdb_iter \<Rightarrow> rd \<Rightarrow> u64 \<Rightarrow> u64 list \<Rightarrow> (bool \<times> rd \<times> u64 \<times> u64 list) option" where
  "stats_loop P m it w nrec numd = do {
     (more, it1) \<leftarrow> mcdb_iter_step P it w;
     if \<not> more then Some (True, w, nrec, numd)
     else do {
       (ok, m1, w1, numd1) \<leftarrow> stats_rec P m it1 w numd;
       if ok then stats_loop P m1 it1 w1 (nrec + 1) numd1 else Some (False, w1, nrec, numd1) } }"

definition stats_line :: "string \<Rightarrow> u64 \<Rightarrow> bytes" where
  "stats_line label n = ascii label @ dec_digits (unat n) @ [10]"

definition stats_report :: "u64 \<Rightarrow> u64 list \<Rightarrow> bytes" where
  "stats_report nrec numd = stats_line ''records '' nrec @
     concat (map (\<lambda>i. ascii ''d'' @ dec_digits i @ stats_line ''      '' (numd ! i)) [0..<10]) @
     stats_line ''>9      '' (numd ! 10)"

text \<open>The result code and what \<^verbatim>\<open>printf()\<close> is given, whose results the code ignores.\<close>

definition mcdbctl_stats :: "plasma_endian \<Rightarrow> mcdb \<Rightarrow> rd \<Rightarrow> (int \<times> rd \<times> bytes) option" where
  "mcdbctl_stats P m w = do {
     (ok, w1) \<leftarrow> mcdb_validate_slots P m w;
     if \<not> ok then Some (MCDB_ERROR_READFORMAT, w1, [])
     else do {
       it \<leftarrow> mcdb_iter_init P m w1;
       (ok, w2, nrec, numd) \<leftarrow> stats_loop P m it w1 0 (replicate 11 0);
       Some (if ok then (0, w2, stats_report nrec numd) else (MCDB_ERROR_READFORMAT, w2, [])) } }"

subsection \<open>Duplicate keys\<close>

text \<open>1 for true, 0 for false, or an error.\<close>

partial_function (option) has_unique_loop ::
  "plasma_endian \<Rightarrow> mcdb \<Rightarrow> mcdb_iter \<Rightarrow> rd \<Rightarrow> (int \<times> rd) option" where
  "has_unique_loop P m it w = do {
     (more, it1) \<leftarrow> mcdb_iter_step P it w;
     if \<not> more then Some (1, w)
     else do {
       k \<leftarrow> mcdb_iter_key it1 w;
       (r, m1, w1) \<leftarrow> mcdb_find P m k w;
       if \<not> r then Some (MCDB_ERROR_READFORMAT, w1)
       else do {
         (r2, m2) \<leftarrow> mcdb_findtagnext P m1 k 0 w1;
         if r2 then Some (0, w1) else has_unique_loop P m2 it1 w1 } } }"

definition mcdbctl_has_unique_keys :: "plasma_endian \<Rightarrow> mcdb \<Rightarrow> rd \<Rightarrow> (int \<times> rd) option" where
  "mcdbctl_has_unique_keys P m w = do {
     (ok, w1) \<leftarrow> mcdb_validate_slots P m w;
     if \<not> ok then Some (MCDB_ERROR_READFORMAT, w1)
     else do { it \<leftarrow> mcdb_iter_init P m w1; has_unique_loop P m it w1 } }"

partial_function (option) last_value ::
  "plasma_endian \<Rightarrow> mcdb \<Rightarrow> bytes \<Rightarrow> bytes \<Rightarrow> rd \<Rightarrow> (mcdb \<times> bytes) option" where
  "last_value P m key d w = do {
     (r, m1) \<leftarrow> mcdb_findtagnext P m key 0 w;
     if r then do { d1 \<leftarrow> mcdb_data m1 w; last_value P m1 key d1 w } else Some (m1, d) }"

text \<open>One record: the result code, with the record added if it is the first of its key that lookup
  finds.\<close>

definition unique_rec ::
  "plasma_endian \<Rightarrow> bool \<Rightarrow> mcdb \<Rightarrow> mcdb_iter \<Rightarrow> rd \<Rightarrow> mcdb_make \<Rightarrow> os \<Rightarrow> (int \<times> mcdb \<times> rd \<times> mcdb_make \<times> os) option" where
  "unique_rec P first m it w mk o1 = do {
     d \<leftarrow> mcdb_iter_data it w;
     k \<leftarrow> mcdb_iter_key it w;
     (r, m1, w1) \<leftarrow> mcdb_find P m k w;
     if \<not> r then Some (MCDB_ERROR_READFORMAT, m1, w1, mk, o1)
     else if m_dpos m1 = iter_datapos it then do {
       (m2, d1) \<leftarrow> (if first then Some (m1, d) else last_value P m1 k d w1);
       (rc, mk1, o2) \<leftarrow> mcdb_make_add P mk k d1 o1;
       Some (if rc \<noteq> 0 then MCDB_ERROR_WRITE else 0, m2, w1, mk1, o2) }
     else Some (0, m1, w1, mk, o1) }"

partial_function (option) unique_loop ::
  "plasma_endian \<Rightarrow> bool \<Rightarrow> mcdb \<Rightarrow> mcdb_iter \<Rightarrow> rd \<Rightarrow> mcdb_make \<Rightarrow> os \<Rightarrow> (int \<times> rd \<times> mcdb_make \<times> os) option" where
  "unique_loop P first m it w mk o1 = do {
     (more, it1) \<leftarrow> mcdb_iter_step P it w;
     if \<not> more then Some (0, w, mk, o1)
     else do {
       (rv, m1, w1, mk1, o2) \<leftarrow> unique_rec P first m it1 w mk o1;
       if rv = 0 then unique_loop P first m1 it1 w1 mk1 o2 else Some (rv, w1, mk1, o2) } }"

text \<open>
  The new database under the old name.  \<^verbatim>\<open>struct mcdb_make\<close> is two records here: the named file
  and the writer; while the writer has not been started, destroying it has no effect, for
  \<^verbatim>\<open>mcdb_makefn_start\<close> has set \<^verbatim>\<open>head[0]\<close> and \<^verbatim>\<open>fd\<close>.
\<close>

definition make_unique_body ::
  "plasma_endian \<Rightarrow> nat \<Rightarrow> bool \<Rightarrow> mcdb \<Rightarrow> rd \<Rightarrow> mcdb_makefn \<Rightarrow> fs \<Rightarrow> (int \<times> rd \<times> mcdb_makefn \<times> fs) option" where
  "make_unique_body P pagesize first m w mf f = do {
     (rc, mk, o1) \<leftarrow> mcdb_make_start pagesize (mf_fd mf) (fs_os f);
     if rc \<noteq> 0 then do {
       (_, _, o2) \<leftarrow> mcdb_make_destroy mk o1;
       Some (MCDB_ERROR_WRITE, w, mf, f\<lparr>fs_os := o2\<rparr>) }
     else do {
       it \<leftarrow> mcdb_iter_init P m w;
       (rv, w1, mk1, o2) \<leftarrow> unique_loop P first m it w mk o1;
       if rv = 0 then do {
         (rc, mk2, o3) \<leftarrow> mcdb_make_finish P mk1 o2;
         let (rc2, mf1, f1) = (if rc \<noteq> 0 then (-1, mf, f\<lparr>fs_os := o3\<rparr>) else mcdb_makefn_finish mf True (f\<lparr>fs_os := o3\<rparr>));
         (_, _, o4) \<leftarrow> mcdb_make_destroy mk2 (fs_os f1);
         Some (if rc2 \<noteq> 0 then MCDB_ERROR_WRITE else 0, w1, mf1, f1\<lparr>fs_os := o4\<rparr>) }
       else do {
         (_, _, o3) \<leftarrow> mcdb_make_destroy mk1 o2;
         Some (rv, w1, mf, f\<lparr>fs_os := o3\<rparr>) } } }"

definition mcdbctl_make_unique_keys ::
  "plasma_endian \<Rightarrow> nat \<Rightarrow> mcdb \<Rightarrow> bool \<Rightarrow> rd \<Rightarrow> fs \<Rightarrow> (int \<times> rd \<times> fs) option" where
  "mcdbctl_make_unique_keys P pagesize m first w f = do {
     (ok, w1) \<leftarrow> mcdb_validate_slots P m w;
     if \<not> ok then Some (MCDB_ERROR_READFORMAT, w1, f)
     else do {
       mm \<leftarrow> get_map (m_map m) w1;
       name \<leftarrow> fname_str mm w1;
       (rc, mf, f1) \<leftarrow> mcdb_makefn_start name f;
       (rv, w2, mf1, f2) \<leftarrow> (if rc = 0 then make_unique_body P pagesize first m w1 mf f1
                              else Some (MCDB_ERROR_WRITE, w1, mf, f1));
       (_, f3) \<leftarrow> mcdb_makefn_cleanup mf1 f2;
       Some (rv, w2, f3) } }"

subsection \<open>The command line\<close>

text \<open>What the tool works on: the reader's and the writer's view of the files, standard output and
  standard input.\<close>

record ctl =
  ct_rd :: rd
  ct_fs :: fs
  ct_out :: outs
  ct_stdin :: infile

text \<open>\<^verbatim>\<open>strtoul()\<close> in base 10: the value and the number of bytes read, 0 if there is no number.\<close>

definition is_space :: "u8 \<Rightarrow> bool" where
  "is_space c \<longleftrightarrow> c = 32 \<or> 9 \<le> c \<and> c \<le> 13"

definition strtoul10 :: "bytes \<Rightarrow> u64 \<times> nat" where
  "strtoul10 s =
     (let t = dropWhile is_space s;
          neg = (t \<noteq> [] \<and> hd t = 45);
          u = (if t \<noteq> [] \<and> (hd t = 45 \<or> hd t = 43) then tl t else t);
          ds = takeWhile is_digit u;
          n = dec_val ds
      in if ds = [] then (0, 0)
         else (if n \<ge> 2 ^ 64 then -1 else if neg then - word_of_nat n else word_of_nat n, length s - length u + length ds))"

datatype query_type = BAD_QUERY_TYPE | GET | GETALL | DUMP | STATS

definition query_args :: "bytes list \<Rightarrow> query_type \<times> u64" where
  "query_args argv =
     (let argc = length argv
      in if argc > 3 \<and> argv ! 1 = ascii ''get'' then
           (if argc = 5 then
              (let (seq, n) = strtoul10 (argv ! 4)
               in if seq \<noteq> -1 \<and> n \<noteq> 0 \<and> n = length (argv ! 4) then (GET, seq)
                  else if argv ! 4 = ascii ''all'' then (GETALL, seq) else (BAD_QUERY_TYPE, seq))
            else if argc = 4 then (GET, 0) else (BAD_QUERY_TYPE, 0))
         else if argc = 3 then
           (if argv ! 1 = ascii ''dump'' then (DUMP, 0) else if argv ! 1 = ascii ''stats'' then (STATS, 0)
            else (BAD_QUERY_TYPE, 0))
         else (BAD_QUERY_TYPE, 0))"

text \<open>The map of \<^verbatim>\<open>mcdbctl_query\<close> is a zeroed local variable, at an address that is not in use.\<close>

definition mmap_zero :: mcdb_mmap where
  "mmap_zero = (mmap_blank False)\<lparr>mm_has_malloc := False, mm_has_free := False, mm_dfd := 0\<rparr>"

definition mcdb_zero :: "nat \<Rightarrow> mcdb" where
  "mcdb_zero p = \<lparr>m_map = p, m_loop = 0, m_hslots = 0, m_kpos = 0, m_hpos = 0, m_dpos = 0, m_dlen = 0, m_klen = 0, m_khash = []\<rparr>"

definition run_query ::
  "plasma_endian \<Rightarrow> nat \<Rightarrow> query_type \<Rightarrow> u64 \<Rightarrow> bytes list \<Rightarrow> mcdb \<Rightarrow> rd \<Rightarrow> outs \<Rightarrow> (int \<times> rd \<times> outs) option" where
  "run_query P iov_max q seq argv m w out =
     (case q of
        GET \<Rightarrow> mcdbctl_getseq P iov_max m (argv ! 3) seq w out
      | GETALL \<Rightarrow> mcdbctl_getall P iov_max m (argv ! 3) w out
      | DUMP \<Rightarrow> do { (rv, out1) \<leftarrow> mcdbctl_dump P iov_max m w out; Some (rv, w, out1) }
      | STATS \<Rightarrow> do { (rv, w1, txt) \<leftarrow> mcdbctl_stats P m w; Some (rv, w1, out\<lparr>ou_bytes := ou_bytes out @ txt\<rparr>) }
      | BAD_QUERY_TYPE \<Rightarrow> Some (MCDB_ERROR_USAGE, w, out))"

text \<open>\<^term>\<open>Inl\<close> is the exit status of \<^verbatim>\<open>exit()\<close>, \<^term>\<open>Inr\<close> the returned code.\<close>

definition mcdbctl_query :: "plasma_endian \<Rightarrow> nat \<Rightarrow> bytes list \<Rightarrow> ctl \<Rightarrow> ((int + int) \<times> ctl) option" where
  "mcdbctl_query P iov_max argv c =
     (let (q, seq) = query_args argv
      in if q = BAD_QUERY_TYPE then Some (Inr MCDB_ERROR_USAGE, c)
         else
           (let w = ct_rd c; (fd, w1) = open_fd (map_option Fd_file (r_fs w None (argv ! 2))) w
            in if fd = -1 then Some (Inr MCDB_ERROR_READ, c\<lparr>ct_rd := w1\<rparr>)
               else do {
                 let p = r_fresh w1;
                 let w2 = put_map p mmap_zero (w1\<lparr>r_fresh := Suc p\<rparr>);
                 (rv, w3) \<leftarrow> mcdb_mmap_init p fd w2;
                 let w4 = Mcdb_Map.nointr_close fd w3;
                 if \<not> rv then Some (Inr MCDB_ERROR_READ, c\<lparr>ct_rd := w4\<rparr>)
                 else do {
                   (rv, w5, out1) \<leftarrow> run_query P iov_max q seq argv (mcdb_zero p) w4 (ct_out c);
                   if rv = 1 \<and> (q = GET \<or> q = GETALL) then Some (Inl 100, c\<lparr>ct_rd := w5, ct_out := out1\<rparr>)
                   else do { w6 \<leftarrow> mcdb_mmap_free (Some p) w5; Some (Inr rv, c\<lparr>ct_rd := w6, ct_out := out1\<rparr>) } } }))"

text \<open>The buffer of 64 KB is allocated only for standard input.\<close>

definition mcdbctl_make :: "plasma_endian \<Rightarrow> nat \<Rightarrow> bytes list \<Rightarrow> ctl \<Rightarrow> (int \<times> ctl) option" where
  "mcdbctl_make P pagesize argv c =
     (let fname = argv ! 2; input = argv ! 3
      in if input = [45] then
           (let (buf, f1) = fs_malloc (ct_fs c)
            in case buf of
                 None \<Rightarrow> Some (MCDB_ERROR_MALLOC, c\<lparr>ct_fs := f1\<rparr>)
               | Some blk \<Rightarrow> do {
                   (rv, f2) \<leftarrow> mcdb_makefmt_fdintofile P pagesize (Some (ct_stdin c)) (\<lambda>_. 0) 65536 fname f1;
                   f3 \<leftarrow> fs_free blk f2;
                   Some (rv, c\<lparr>ct_fs := f3\<rparr>) })
         else do { (rv, f1) \<leftarrow> mcdb_makefmt_fileintofile P pagesize input fname (ct_fs c); Some (rv, c\<lparr>ct_fs := f1\<rparr>) })"

definition mcdbctl_uniq :: "plasma_endian \<Rightarrow> nat \<Rightarrow> bytes list \<Rightarrow> ctl \<Rightarrow> (int \<times> ctl) option" where
  "mcdbctl_uniq P pagesize argv c =
     (if length argv = 4 \<and> argv ! 3 \<noteq> ascii ''first'' \<and> argv ! 3 \<noteq> ascii ''last'' then Some (MCDB_ERROR_USAGE, c)
      else do {
        let first = (length argv \<noteq> 4 \<or> argv ! 3 = ascii ''first'');
        (mp, w1) \<leftarrow> mcdb_mmap_create None None (argv ! 2) (ct_rd c);
        case mp of
          None \<Rightarrow> Some (MCDB_ERROR_READ, c\<lparr>ct_rd := w1\<rparr>)
        | Some p \<Rightarrow> do {
            (rv, w2) \<leftarrow> mcdbctl_has_unique_keys P (mcdb_zero p) w1;
            (rv, w3, f1) \<leftarrow> (if rv = 1 then Some (0, w2, ct_fs c)
                              else if rv = 0 then mcdbctl_make_unique_keys P pagesize (mcdb_zero p) first w2 (ct_fs c)
                              else Some (rv, w2, ct_fs c));
            w4 \<leftarrow> mcdb_mmap_destroy (Some p) w3;
            Some (rv, c\<lparr>ct_rd := w4, ct_fs := f1\<rparr>) } })"

text \<open>The exit status that \<^verbatim>\<open>mcdb_error\<close> gives, without its messages.\<close>

definition mcdb_error :: "int \<Rightarrow> int" where
  "mcdb_error rv =
     (if rv = 0 then 0
      else if rv = MCDB_ERROR_READFORMAT then 111
      else if rv = MCDB_ERROR_READ then 111
      else if rv = MCDB_ERROR_WRITE then 111
      else if rv = MCDB_ERROR_MALLOC then 111
      else if rv = MCDB_ERROR_USAGE then 101
      else 111)"

definition mcdbctl_main :: "plasma_endian \<Rightarrow> nat \<Rightarrow> nat \<Rightarrow> bytes list \<Rightarrow> ctl \<Rightarrow> (int \<times> ctl) option" where
  "mcdbctl_main P pagesize iov_max argv c = do {
     (r, c1) \<leftarrow> (if length argv = 4 \<and> argv ! 1 = ascii ''make''
                  then map_option (\<lambda>(rv, c1). (Inr rv, c1)) (mcdbctl_make P pagesize argv c)
                  else if (length argv = 3 \<or> length argv = 4) \<and> argv ! 1 = ascii ''uniq''
                  then map_option (\<lambda>(rv, c1). (Inr rv, c1)) (mcdbctl_uniq P pagesize argv c)
                  else mcdbctl_query P iov_max argv c);
     Some (case r of Inl e \<Rightarrow> e | Inr rv \<Rightarrow> mcdb_error rv, c1) }"

end
