(* ===== verification/Makefmt_Input.thy ===== *)
theory Makefmt_Input
  imports Mcdb_Makefmt
begin

text \<open>The buffered reader of mcdb_makefmt.c against the stream of bytes it delivers.\<close>

definition ib_ok :: "mcdb_input \<Rightarrow> bool" where
  "ib_ok b \<longleftrightarrow> ib_pos b \<le> ib_datasz b \<and> ib_datasz b \<le> ib_bufsz b"

definition ib_data :: "mcdb_input \<Rightarrow> bytes" where
  "ib_data b = mem_slice (ib_buf b) (ib_pos b) (ib_avail b)"

definition ib_stream :: "mcdb_input \<Rightarrow> bytes" where
  "ib_stream b = ib_data b @ ib_rest b"

text \<open>The input never fails to be read, and the buffer is not tiny.\<close>

definition ib_willing :: "mcdb_input \<Rightarrow> bool" where
  "ib_willing b \<longleftrightarrow> (\<forall>f. ib_fd b = Some f \<longrightarrow> (\<forall>k. in_fail f k = 0) \<and> 128 \<le> ib_bufsz b)"

definition errno_only :: "os \<Rightarrow> os \<Rightarrow> bool" where
  "errno_only w w' \<longleftrightarrow> (\<exists>e. w' = w\<lparr>o_errno := e\<rparr>)"

lemma errno_only_refl [simp]: "errno_only w w"
  by (auto simp: errno_only_def intro: exI [of _ "o_errno w"])

lemma errno_only_trans: "errno_only w w1 \<Longrightarrow> errno_only w1 w2 \<Longrightarrow> errno_only w w2"
  by (auto simp: errno_only_def)

lemma length_ib_data [simp]: "length (ib_data b) = ib_avail b"
  by (simp add: ib_data_def)

text \<open>From \<^term>\<open>b\<close> to \<^term>\<open>b'\<close> the reader moved the bytes \<^term>\<open>bs\<close> of the stream into the buffer.\<close>

definition ib_more :: "mcdb_input \<Rightarrow> mcdb_input \<Rightarrow> bytes \<Rightarrow> bool" where
  "ib_more b b' bs \<longleftrightarrow> ib_ok b' \<and> ib_data b' = ib_data b @ bs \<and> ib_rest b = bs @ ib_rest b' \<and>
     (ib_willing b \<longrightarrow> ib_willing b')"

lemma ib_moreD:
  assumes "ib_more b b' bs"
  shows "ib_ok b'" "ib_stream b' = ib_stream b" "ib_data b' = ib_data b @ bs" "ib_willing b \<Longrightarrow> ib_willing b'"
    "ib_avail b' = ib_avail b + length bs"
  using assms arg_cong [of "ib_data b'" "ib_data b @ bs" length, unfolded length_append length_ib_data] by (auto simp: ib_more_def ib_stream_def)

lemma ib_more_trans: "ib_more b b1 xs \<Longrightarrow> ib_more b1 b2 ys \<Longrightarrow> ib_more b b2 (xs @ ys)"
  by (auto simp: ib_more_def)

lemma ib_more_refl: "ib_ok b \<Longrightarrow> ib_more b b []"
  by (simp add: ib_more_def)

lemma mem_slice_extend:
  assumes "p \<le> d"
  shows "mem_slice (mem_upd f d bs) p (d + length bs - p) = mem_slice f p (d - p) @ bs"
proof -
  have "d + length bs - p = (d - p) + length bs" using assms by simp
  then have "mem_slice (mem_upd f d bs) p (d + length bs - p) = mem_slice (mem_upd f d bs) p (d - p) @ mem_slice (mem_upd f d bs) d (length bs)"
    using assms mem_slice_add [of "mem_upd f d bs" p "d - p" "length bs"] by simp
  then show ?thesis using assms by (simp add: mem_slice_upd_disjoint)
qed

lemma bufread_fd_props:
  assumes ok: "ib_ok b" and r: "mcdb_bufread_fd b w = (r, b', w')"
  shows "\<exists>bs. ib_more b b' bs \<and> errno_only w w' \<and> (if 0 < r then int (length bs) = r else bs = []) \<and>
    (ib_willing b \<longrightarrow> w' = w \<and> (r \<le> 0 \<longrightarrow> ib_rest b = [] \<or> 128 \<le> ib_avail b))"
proof (cases "ib_fd b")
  case None
  then show ?thesis using r ok by (auto simp: mcdb_bufread_fd_def ib_rest_def ib_more_def)
next
  case (Some f)
  define b1 where "b1 = ib_compact b"
  have b1: "ib_ok b1" "ib_data b1 = ib_data b" "ib_fd b1 = Some f" "ib_bufsz b1 = ib_bufsz b" "ib_avail b1 = ib_avail b"
    using ok Some by (auto simp: b1_def ib_compact_def ib_ok_def ib_data_def ib_avail_def)
  have room: "ib_avail b < 128 \<Longrightarrow> ib_datasz b1 < 128" using ok by (auto simp: b1_def ib_compact_def ib_ok_def ib_avail_def)
  obtain res f1 where s: "sys_read f (ib_bufsz b1 - ib_datasz b1) = (res, f1)" by fastforce
  show ?thesis
  proof (cases res)
    case (Inr e)
    have "in_rest f1 = in_rest f" "in_fail f1 = in_fail f" "in_fail f (in_step f) \<noteq> 0"
      using s Inr by (auto simp: sys_read_def Let_def split: if_splits)
    moreover have "r = -1" "b' = b1\<lparr>ib_fd := Some f1\<rparr>" "w' = w\<lparr>o_errno := e\<rparr>"
      using r s Inr Some by (simp_all add: mcdb_bufread_fd_def b1_def [symmetric])
    ultimately show ?thesis using b1 Some
      by (auto simp: ib_more_def ib_ok_def ib_data_def ib_avail_def ib_rest_def errno_only_def ib_willing_def)
  next
    case (Inl bs)
    have bs: "length bs \<le> ib_bufsz b1 - ib_datasz b1" "in_rest f = bs @ in_rest f1" "in_fail f1 = in_fail f"
      "bs = [] \<Longrightarrow> ib_bufsz b1 - ib_datasz b1 = 0 \<or> in_rest f = []"
      using s Inl by (auto simp: sys_read_def Let_def split: if_splits)
    have R: "r = int (length bs)" "w' = w"
      "b' = b1\<lparr>ib_buf := mem_upd (ib_buf b1) (ib_datasz b1) bs, ib_datasz := ib_datasz b1 + length bs, ib_fd := Some f1\<rparr>"
      using r s Inl Some by (simp_all add: mcdb_bufread_fd_def b1_def [symmetric])
    have "ib_avail b' = ib_avail b1 + length bs" using R(3) b1(1) by (auto simp: ib_avail_def ib_ok_def)
    then have "ib_data b' = ib_data b1 @ bs" using R(3) b1(1)
      by (simp add: ib_data_def ib_avail_def ib_ok_def mem_slice_extend)
    then have "ib_more b b' bs" using R(3) b1 bs Some
      by (auto simp: ib_more_def ib_ok_def ib_rest_def ib_willing_def)
    moreover have "ib_willing b \<Longrightarrow> bs = [] \<Longrightarrow> ib_rest b = [] \<or> 128 \<le> ib_avail b"
      using bs(4) room Some b1(4) by (auto simp: ib_willing_def ib_rest_def)
    ultimately show ?thesis using R by (intro exI [of _ bs]) auto
  qed
qed

text \<open>Taking bytes out of the buffer.\<close>

definition ib_taken :: "mcdb_input \<Rightarrow> bytes \<Rightarrow> mcdb_input \<Rightarrow> bool" where
  "ib_taken b bs b' \<longleftrightarrow> ib_ok b' \<and> ib_data b = bs @ ib_data b' \<and> ib_rest b' = ib_rest b \<and> (ib_willing b \<longrightarrow> ib_willing b')"

lemma ib_advance:
  assumes "ib_ok b" "n \<le> ib_avail b"
  shows "ib_taken b (mem_slice (ib_buf b) (ib_pos b) n) (b\<lparr>ib_pos := ib_pos b + n\<rparr>)"
proof -
  have a: "ib_avail b = n + (ib_avail b - n)" using assms(2) by simp
  have "ib_avail (b\<lparr>ib_pos := ib_pos b + n\<rparr>) = ib_avail b - n" by (simp add: ib_avail_def)
  then have "ib_data b = mem_slice (ib_buf b) (ib_pos b) n @ ib_data (b\<lparr>ib_pos := ib_pos b + n\<rparr>)"
    using mem_slice_add [of "ib_buf b" "ib_pos b" n "ib_avail b - n"] a by (simp add: ib_data_def)
  then show ?thesis using assms by (auto simp: ib_taken_def ib_ok_def ib_rest_def ib_willing_def ib_avail_def)
qed

lemma ib_takenD:
  assumes "ib_taken b bs b'"
  shows "ib_ok b'" "ib_stream b = bs @ ib_stream b'" "ib_data b = bs @ ib_data b'" "ib_willing b \<Longrightarrow> ib_willing b'"
    "ib_rest b' = ib_rest b" "ib_avail b = length bs + ib_avail b'"
  using assms arg_cong [of "ib_data b" "bs @ ib_data b'" length, unfolded length_append length_ib_data] by (auto simp: ib_taken_def ib_stream_def)

lemma ib_taken_trans: "ib_taken b xs b1 \<Longrightarrow> ib_taken b1 ys b2 \<Longrightarrow> ib_taken b (xs @ ys) b2"
  by (auto simp: ib_taken_def)

lemma ib_next_props:
  assumes "ib_ok b" "ib_data b = c # cs"
  shows "\<exists>b'. ib_next b = Some (c, b') \<and> ib_taken b [c] b' \<and> ib_data b' = cs"
proof -
  have l: "ib_avail b = Suc (length cs)" using arg_cong [OF assms(2), of length] by simp
  then have p: "ib_pos b < ib_datasz b" by (simp add: ib_avail_def)
  have "ib_taken b (mem_slice (ib_buf b) (ib_pos b) 1) (b\<lparr>ib_pos := ib_pos b + 1\<rparr>)"
    by (rule ib_advance) (use assms l in simp_all)
  moreover have "mem_slice (ib_buf b) (ib_pos b) 1 = [ib_buf b (ib_pos b)]" by (simp add: mem_slice_def)
  ultimately have "ib_taken b [ib_buf b (ib_pos b)] (b\<lparr>ib_pos := ib_pos b + 1\<rparr>)" by simp
  moreover from this have "ib_buf b (ib_pos b) = c" "ib_data (b\<lparr>ib_pos := ib_pos b + 1\<rparr>) = cs"
    using assms(2) by (auto simp: ib_taken_def)
  ultimately show ?thesis using p by (simp add: ib_next_def)
qed

lemma ib_data_empty: "ib_data b = [] \<longleftrightarrow> ib_avail b = 0"
  by (simp add: ib_data_def flip: length_0_conv)

subsection \<open>Numbers\<close>

lemma mod_negative:
  assumes "x < 0" "- m \<le> (x :: int)"
  shows "x mod m = x + m"
proof -
  have "x mod m = (x + m) mod m" by simp
  also have "\<dots> = x + m" using assms by (intro mod_pos_pos_trivial) auto
  finally show ?thesis .
qed

lemma digit_char: "is_digit_char c \<longleftrightarrow> is_digit c"
proof -
  have s: "sint c = (if uint c < 128 then uint c else uint c - 256)"
  proof -
    have "sint c = signed_take_bit 7 (uint c)" by (simp add: sint_uint)
    moreover have "0 \<le> uint c" "uint c < 256" using uint_bounded [of c] by simp_all
    moreover have "(uint c + 128) mod 256 = (if uint c < 128 then uint c + 128 else uint c - 128)"
    proof (cases "uint c < 128")
      case True
      then show ?thesis using uint_bounded [of c] by (simp add: mod_pos_pos_trivial)
    next
      case False
      have "(uint c + 128) mod 256 = (uint c - 128 + 256) mod 256" by (simp add: add.commute)
      also have "\<dots> = (uint c - 128) mod 256" by (rule mod_add_self2)
      also have "\<dots> = uint c - 128" using False uint_bounded [of c] by simp
      finally show ?thesis using False by simp
    qed
    ultimately show ?thesis by (simp add: signed_take_bit_eq_take_bit_shift take_bit_eq_mod)
  qed
  have B: "uint (scast c - 48 :: u32) = (sint c - 48) mod 4294967296"
  proof -
    have "(scast c - 48 :: u32) = word_of_int (sint c - 48)" by simp
    then show ?thesis by (simp only: uint_word_of_int_eq) (simp add: take_bit_eq_mod)
  qed
  have pos: "0 \<le> uint c" "uint c < 256" using uint_bounded [of c] by simp_all
  have A: "is_digit_char c \<longleftrightarrow> uint (scast c - 48 :: u32) \<le> 9" by (simp add: is_digit_char_def word_le_def)
  have D: "is_digit c \<longleftrightarrow> 48 \<le> uint c \<and> uint c \<le> 57" by (simp add: is_digit_def word_le_def)
  have m: "((if u < 128 then u else u - 256) - 48) mod 4294967296 \<le> 9 \<longleftrightarrow> 48 \<le> u \<and> u \<le> 57"
    if "0 \<le> u" "u < 256" for u :: int
  proof -
    consider "u < 48" | "48 \<le> u" "u < 128" | "128 \<le> u" by linarith
    then show ?thesis
    proof cases
      case 1
      then show ?thesis using that mod_negative [of "u - 48" 4294967296] by simp
    next
      case 2
      then show ?thesis using mod_pos_pos_trivial [of "u - 48" 4294967296] by simp
    next
      case 3
      then show ?thesis using that mod_negative [of "u - 304" 4294967296] by simp
    qed
  qed
  show ?thesis unfolding A B D s by (rule m [OF pos])
qed

text \<open>The same scan on a list; the digits that it consumes.\<close>

fun num_list :: "bytes \<Rightarrow> nat \<Rightarrow> nat \<times> bytes" where
  "num_list [] num = (num, [])"
| "num_list (c # cs) num =
     (if is_digit c \<and> num \<le> 214748363 then num_list cs (num * 10 + (unat c - 48)) else (num, c # cs))"

lemma mem_slice_Suc: "mem_slice f a (Suc n) = f a # mem_slice f (Suc a) n"
  by (simp add: mem_slice_def upt_rec)

lemma number_loop_list:
  "number_loop buf n pos num = (v, pos') \<Longrightarrow>
     pos \<le> pos' \<and> pos' \<le> pos + n \<and> num_list (mem_slice buf pos n) num = (v, mem_slice buf pos' (pos + n - pos'))"
proof (induction n arbitrary: pos num)
  case (Suc n)
  show ?case
  proof (cases "is_digit_char (buf pos) \<and> num \<le> 214748363")
    case True
    with Suc.prems Suc.IH [of "pos + 1"] show ?thesis by (fastforce simp: mem_slice_Suc digit_char)
  next
    case False
    with Suc.prems show ?thesis by (auto simp: mem_slice_Suc digit_char)
  qed
qed simp

lemma num_list_consumes:
  "num_list bs num = (v, bs') \<Longrightarrow> num \<le> 2147483639 \<Longrightarrow>
   \<exists>ds. bs = ds @ bs' \<and> list_all is_digit ds \<and> v = foldl (\<lambda>a c. a * 10 + (unat c - 48)) num ds \<and> v \<le> 2147483639"
proof (induction bs num rule: num_list.induct)
  case (2 c cs num)
  show ?case
  proof (cases "is_digit c \<and> num \<le> 214748363")
    case True
    then have "unat c \<le> 57" by (auto simp: is_digit_def word_le_nat_alt)
    then have "unat c - 48 \<le> 9" by simp
    then have "num * 10 + (unat c - 48) \<le> 2147483639" using True by linarith
    with 2(1) [OF True] 2(2) True obtain ds where "cs = ds @ bs'" "list_all is_digit ds"
      "v = foldl (\<lambda>a c. a * 10 + (unat c - 48)) (num * 10 + (unat c - 48)) ds" "v \<le> 2147483639" by auto
    then show ?thesis using True by (intro exI [of _ "c # ds"]) simp
  next
    case False
    then show ?thesis using 2(2,3) by auto
  qed
qed auto

lemma num_list_digits:
  assumes "list_all is_digit ds" "foldl (\<lambda>a c. a * 10 + (unat c - 48)) num ds \<le> 2147483639" "bs = [] \<or> \<not> is_digit (hd bs)"
  shows "num_list (ds @ bs) num = (foldl (\<lambda>a c. a * 10 + (unat c - 48)) num ds, bs)"
  using assms(1,2)
proof (induction ds arbitrary: num)
  case Nil
  then show ?case using assms(3) by (cases bs) auto
next
  case (Cons c cs)
  have mono: "m \<le> foldl (\<lambda>a c. a * 10 + (unat c - 48)) m xs" for m :: nat and xs :: bytes
  proof (induction xs arbitrary: m)
    case (Cons x xs)
    have "m \<le> m * 10 + (unat x - 48)" by simp
    also have "\<dots> \<le> foldl (\<lambda>a c. a * 10 + (unat c - 48)) (m * 10 + (unat x - 48)) xs" by (rule Cons)
    finally show ?case by simp
  qed simp
  have "num * 10 + (unat c - 48) \<le> 2147483639" using Cons.prems(2) mono [of "num * 10 + (unat c - 48)" cs] by simp
  then have "num \<le> 214748363" by simp
  then show ?case using Cons by simp
qed

text \<open>\<^verbatim>\<open>mcdb_bufread_number\<close> consumes a non-empty run of digits of the buffered data.\<close>

lemma bufread_number_props:
  assumes ok: "ib_ok b" and r: "mcdb_bufread_number b = (good, v, b')"
  shows "v \<le> INT_MAX - 8 \<and> ib_ok b' \<and> (\<not> good \<longrightarrow> b' = b) \<and>
    (good \<longrightarrow> (\<exists>ds. ib_taken b ds b' \<and> list_all is_digit ds \<and> ds \<noteq> [] \<and> v = dec_val ds))"
proof -
  obtain u p where l: "number_loop (ib_buf b) (ib_avail b) (ib_pos b) 0 = (u, p)" by fastforce
  note L = number_loop_list [OF l]
  from num_list_consumes [of "ib_data b" 0] L obtain ds where
    ds: "ib_data b = ds @ mem_slice (ib_buf b) p (ib_pos b + ib_avail b - p)" "list_all is_digit ds" "u = dec_val ds" "u \<le> 2147483639"
    by (auto simp: ib_data_def dec_val_def)
  have len: "length ds = p - ib_pos b" using arg_cong [OF ds(1), of length] L by auto
  have taken: "ib_taken b ds (b\<lparr>ib_pos := p\<rparr>)"
  proof -
    have "ib_taken b (mem_slice (ib_buf b) (ib_pos b) (p - ib_pos b)) (b\<lparr>ib_pos := ib_pos b + (p - ib_pos b)\<rparr>)"
      by (rule ib_advance [OF ok]) (use L in linarith)
    moreover have "mem_slice (ib_buf b) (ib_pos b) (p - ib_pos b) = take (p - ib_pos b) (ib_data b)"
      using L unfolding ib_data_def by (subst take_mem_slice) auto
    ultimately show ?thesis using L ds(1) len by simp
  qed
  have "ib_pos b \<noteq> p \<Longrightarrow> ds \<noteq> []" using len L by auto
  then show ?thesis
    using r l ds(2-4) taken ok ib_takenD(1) [OF taken]
    by (auto simp: mcdb_bufread_number_def INT_MAX_def split: if_splits)
qed

lemma bufread_number_reads:
  assumes ok: "ib_ok b" and d: "ib_data b = ds @ bs" "list_all is_digit ds" "ds \<noteq> []" "dec_val ds \<le> 2147483639"
    "bs = [] \<or> \<not> is_digit (hd bs)"
  shows "\<exists>b'. mcdb_bufread_number b = (True, dec_val ds, b') \<and> ib_taken b ds b' \<and> ib_data b' = bs"
proof -
  obtain u p where l: "number_loop (ib_buf b) (ib_avail b) (ib_pos b) 0 = (u, p)" by fastforce
  note L = number_loop_list [OF l]
  have "num_list (ib_data b) 0 = (dec_val ds, bs)" unfolding d(1) dec_val_def
    by (rule num_list_digits) (use d in \<open>auto simp: dec_val_def\<close>)
  then have u: "u = dec_val ds" "bs = mem_slice (ib_buf b) p (ib_pos b + ib_avail b - p)" using L by (auto simp: ib_data_def)
  have len: "length ds = p - ib_pos b" using arg_cong [OF d(1), of length] arg_cong [OF u(2), of length] L by auto
  have "p \<noteq> ib_pos b" using len d(3) by auto
  moreover have "ib_datasz b = p \<or> \<not> is_digit_char (ib_buf b p)"
  proof (cases "ib_pos b + ib_avail b - p")
    case 0
    then show ?thesis using L ok by (auto simp: ib_avail_def ib_ok_def)
  next
    case (Suc n)
    then have "hd bs = ib_buf b p" "bs \<noteq> []" using u(2) by (simp_all add: mem_slice_Suc)
    then show ?thesis using d(5) by (simp add: digit_char)
  qed
  ultimately have run: "mcdb_bufread_number b = (True, dec_val ds, b\<lparr>ib_pos := p\<rparr>)"
    using l u(1) by (auto simp: mcdb_bufread_number_def)
  from bufread_number_props [OF ok this] obtain es where t: "ib_taken b es (b\<lparr>ib_pos := p\<rparr>)" by blast
  have "ib_data (b\<lparr>ib_pos := p\<rparr>) = bs" using u(2) L ok by (auto simp: ib_data_def ib_avail_def ib_ok_def)
  moreover from this t d(1) have "es = ds" by (auto simp: ib_taken_def)
  ultimately show ?thesis using run t by blast
qed

end
