(* ===== verification/Makefmt_Preamble.thy ===== *)
theory Makefmt_Preamble
  imports Makefmt_Input
begin

text \<open>The preamble of a line: what \<^verbatim>\<open>mcdb_bufread_preamble\<close> accepts, and that it accepts every
  preamble with numbers of at most ten digits however the reads cut it.\<close>

subsection \<open>Filling the buffer\<close>

definition fill_ended :: "mcdb_input \<Rightarrow> int \<Rightarrow> mcdb_input \<Rightarrow> bool" where
  "fill_ended b r b' \<longleftrightarrow> (0 < r \<longrightarrow> ib_data b' \<noteq> []) \<and>
     (ib_willing b \<longrightarrow>
        (if 0 < r then 58 \<in> set (ib_data b') \<or> hd (ib_data b') = 10 \<or> 23 \<le> ib_avail b'
         else 58 \<notin> set (ib_stream b) \<and> (ib_stream b = [] \<or> hd (ib_stream b) \<noteq> 10)))"

lemma hd_ib_data: "ib_avail b \<noteq> 0 \<Longrightarrow> hd (ib_data b) = ib_buf b (ib_pos b)"
  by (cases "ib_avail b") (simp_all add: ib_data_def mem_slice_Suc)

lemma drop_ib_data: "r \<le> ib_avail b \<Longrightarrow> ib_ok b \<Longrightarrow> drop (ib_avail b - r) (ib_data b) = mem_slice (ib_buf b) (ib_datasz b - r) r"
  by (auto simp: ib_data_def drop_mem_slice ib_avail_def ib_ok_def)

lemma fill_ended_cong:
  "ib_stream b1 = ib_stream b \<Longrightarrow> (ib_willing b \<Longrightarrow> ib_willing b1) \<Longrightarrow> fill_ended b1 r b' \<Longrightarrow> fill_ended b r b'"
  by (auto simp: fill_ended_def)

lemma fill_loop_props:
  "ib_ok b \<Longrightarrow> r \<le> ib_avail b \<Longrightarrow> ib_avail b < 23 \<Longrightarrow> 58 \<notin> set (take (ib_avail b - r) (ib_data b)) \<Longrightarrow>
   r = 0 \<longrightarrow> ib_avail b = 0 \<Longrightarrow>
   preamble_fill_loop b r w = (r', b', w') \<Longrightarrow>
   (\<exists>bs. ib_more b b' bs) \<and> errno_only w w' \<and> (ib_willing b \<longrightarrow> w' = w) \<and> fill_ended b r' b'"
proof (induction b r w rule: preamble_fill_loop.induct)
  case (1 b r w)
  note ok = 1(2) and rle = 1(3) and avail = 1(4) and before = 1(5) and r0 = 1(6) and run = 1(7)
  have split: "ib_data b = take (ib_avail b - r) (ib_data b) @ mem_slice (ib_buf b) (ib_datasz b - r) r"
    using drop_ib_data [OF rle ok] by (metis append_take_drop_id)
  have colon: "58 \<in> set (ib_data b) \<longleftrightarrow> 58 \<in> set (mem_slice (ib_buf b) (ib_datasz b - r) r)"
    using before by (subst split) (simp del: append_take_drop_id)
  show ?case
  proof (cases "58 \<notin> set (mem_slice (ib_buf b) (ib_datasz b - r) r) \<and> (r = 0 \<or> ib_buf b (ib_pos b) \<noteq> 10)")
    case False
    then have "(r', b', w') = (int r, b, w)" using run by (subst (asm) preamble_fill_loop.simps) auto
    moreover have "0 < r" using False by (cases r) auto
    then have "ib_avail b \<noteq> 0" using rle by simp
    then have "ib_data b \<noteq> []" "hd (ib_data b) = ib_buf b (ib_pos b)" by (simp_all add: ib_data_empty hd_ib_data)
    ultimately show ?thesis using ok False colon \<open>0 < r\<close> by (auto simp: fill_ended_def intro: ib_more_refl)
  next
    case True
    obtain r1 b1 w1 where rd: "mcdb_bufread_fd b w = (r1, b1, w1)" by (metis prod_cases3)
    obtain bs where bs: "ib_more b b1 bs" "errno_only w w1" "if 0 < r1 then int (length bs) = r1 else bs = []"
      "ib_willing b \<Longrightarrow> w1 = w" "ib_willing b \<Longrightarrow> r1 \<le> 0 \<Longrightarrow> ib_rest b = [] \<or> 128 \<le> ib_avail b"
      using bufread_fd_props [OF ok rd] by blast
    note M = ib_moreD [OF bs(1)]
    have nocolon: "58 \<notin> set (ib_data b)" using True colon by simp
    show ?thesis
    proof (cases "0 < r1 \<and> ib_avail b1 < 23")
      case stop: False
      then have e: "r' = r1" "b' = b1" "w' = w1" using run True rd by (subst (asm) preamble_fill_loop.simps, auto)+
      have "fill_ended b r1 b1"
      proof (cases "0 < r1")
        case True
        then have "bs \<noteq> []" using bs(3) by auto
        then show ?thesis using stop True M(3) by (simp add: fill_ended_def)
      next
        case False
        have "ib_willing b \<Longrightarrow> ib_stream b = ib_data b" using bs(5) False avail by (auto simp: ib_stream_def)
        moreover have "ib_data b = [] \<or> hd (ib_data b) \<noteq> 10"
          using True r0 hd_ib_data [of b] by (auto simp: ib_data_empty)
        ultimately show ?thesis using False nocolon by (auto simp: fill_ended_def)
      qed
      then show ?thesis using e bs by auto
    next
      case go: True
      then have len: "nat r1 = length bs" using bs(3) by simp
      have next_run: "preamble_fill_loop b1 (nat r1) w1 = (r', b', w')"
        using run True rd go by (subst (asm) preamble_fill_loop.simps) auto
      have "nat r1 = 0 \<longrightarrow> ib_avail b1 = 0" using go by simp
      moreover have "take (ib_avail b1 - nat r1) (ib_data b1) = ib_data b" using len M(3,5) by simp
      ultimately have "(\<exists>cs. ib_more b1 b' cs) \<and> errno_only w1 w' \<and> (ib_willing b1 \<longrightarrow> w' = w1) \<and> fill_ended b1 r' b'"
        using 1(1) [OF True rd [symmetric] refl refl go] M(1,5) len go nocolon next_run by simp
      then obtain cs where cs: "ib_more b1 b' cs" "errno_only w1 w'" "ib_willing b1 \<longrightarrow> w' = w1" "fill_ended b1 r' b'" by blast
      have "fill_ended b r' b'" by (rule fill_ended_cong [OF M(2) M(4) cs(4)])
      then show ?thesis
        using ib_more_trans [OF bs(1) cs(1)] errno_only_trans [OF bs(2) cs(2)] cs(3) bs(4) M(4) by blast
    qed
  qed
qed

subsection \<open>The preamble\<close>

lemma bufread_before_preamble:
  assumes ok: "ib_ok b"
    and run: "(if ib_avail b < 23 then mcdb_bufread_preamble_fill b w else (1, b, w)) = (r, b', w')"
  shows "(\<exists>bs. ib_more b b' bs) \<and> errno_only w w' \<and> (ib_willing b \<longrightarrow> w' = w) \<and> fill_ended b r b'"
proof (cases "ib_avail b < 23")
  case True
  then have "preamble_fill_loop b (ib_avail b) w = (r, b', w')" using run by (simp add: mcdb_bufread_preamble_fill_def)
  then show ?thesis by (intro fill_loop_props [OF ok _ True]) simp_all
next
  case False
  then have "ib_data b \<noteq> []" by (simp add: ib_data_empty)
  then show ?thesis using False run ok by (auto simp: fill_ended_def intro: ib_more_refl)
qed

lemma ib_expect_props:
  assumes "ib_ok b"
  shows "\<exists>ok b'. ib_expect c b = Some (ok, b') \<and> ib_ok b' \<and> (ok \<longrightarrow> ib_taken b [c] b')"
proof (cases "ib_data b")
  case Nil
  then show ?thesis using assms by (auto simp: ib_expect_def ib_data_empty)
next
  case (Cons x xs)
  from ib_next_props [OF assms this] obtain b' where b': "ib_next b = Some (x, b')" "ib_taken b [x] b'" by blast
  have "ib_avail b \<noteq> 0" using Cons by (metis ib_data_empty list.discI)
  then show ?thesis using b' ib_takenD(1) [OF b'(2)] by (auto simp: ib_expect_def)
qed

lemma ib_expect_reads:
  assumes "ib_ok b" "ib_data b = c # cs"
  shows "\<exists>b'. ib_expect c b = Some (True, b') \<and> ib_taken b [c] b' \<and> ib_data b' = cs"
  using ib_next_props [OF assms] assms(2) by (auto simp: ib_expect_def ib_data_empty [symmetric])

text \<open>A preamble: a number of digits that fits, in any number of digits.\<close>

definition is_number :: "bytes \<Rightarrow> nat \<Rightarrow> bool" where
  "is_number ds n \<longleftrightarrow> ds \<noteq> [] \<and> list_all is_digit ds \<and> dec_val ds = n \<and> n \<le> INT_MAX - 8"

lemma bufread_lengths_props:
  assumes ok: "ib_ok b"
  shows "\<exists>ok klen dlen b'. bufread_lengths b = Some (ok, klen, dlen, b') \<and> ib_ok b' \<and>
    (ok \<longrightarrow> (\<exists>ds es. is_number ds klen \<and> is_number es dlen \<and> ib_taken b (ds @ [44] @ es @ [58]) b'))"
proof -
  obtain g kl b1 where n1: "mcdb_bufread_number b = (g, kl, b1)" by (metis prod_cases3)
  note N1 = bufread_number_props [OF ok n1]
  then have ok1: "ib_ok b1" by blast
  obtain h b2 where x1: "ib_expect 44 b1 = Some (h, b2)" "ib_ok b2" "h \<longrightarrow> ib_taken b1 [44] b2"
    using ib_expect_props [OF ok1] by blast
  obtain g' dl b3 where n2: "mcdb_bufread_number b2 = (g', dl, b3)" by (metis prod_cases3)
  note N2 = bufread_number_props [OF x1(2) n2]
  then have ok3: "ib_ok b3" by blast
  obtain h' b4 where x2: "ib_expect 58 b3 = Some (h', b4)" "ib_ok b4" "h' \<longrightarrow> ib_taken b3 [58] b4"
    using ib_expect_props [OF ok3] by blast
  show ?thesis
  proof (cases "g \<and> h \<and> g' \<and> h'")
    case True
    obtain ds where ds: "ib_taken b ds b1" "is_number ds kl" using True N1 by (auto simp: is_number_def)
    obtain es where es: "ib_taken b2 es b3" "is_number es dl" using True N2 by (auto simp: is_number_def)
    have "ib_taken b1 [44] b2" "ib_taken b3 [58] b4" using x1(3) x2(3) True by simp_all
    then have "ib_taken b (ds @ [44] @ es @ [58]) b4"
      by (intro ib_taken_trans [OF ds(1) ib_taken_trans [OF _ ib_taken_trans [OF es(1)]]])
    then show ?thesis using True n1 x1(1) n2 x2(1,2) ds(2) es(2) by (auto simp: bufread_lengths_def)
  next
    case False
    then show ?thesis using n1 x1(1,2) n2 x2(1,2) ok1 ok3 by (auto simp: bufread_lengths_def)
  qed
qed

lemma bufread_lengths_reads:
  assumes ok: "ib_ok b" and d: "ib_data b = ds @ [44] @ es @ [58] @ cs" "is_number ds klen" "is_number es dlen"
  shows "\<exists>b'. bufread_lengths b = Some (True, klen, dlen, b') \<and> ib_taken b (ds @ [44] @ es @ [58]) b'"
proof -
  have sep: "\<not> is_digit 44" "\<not> is_digit 58" by (simp_all add: is_digit_def)
  have n: "list_all is_digit ds" "ds \<noteq> []" "dec_val ds \<le> 2147483639" "list_all is_digit es" "es \<noteq> []" "dec_val es \<le> 2147483639"
    "dec_val ds = klen" "dec_val es = dlen"
    using d(2,3) by (simp_all add: is_number_def INT_MAX_def)
  obtain b1 where b1: "mcdb_bufread_number b = (True, klen, b1)" "ib_taken b ds b1" "ib_data b1 = [44] @ es @ [58] @ cs"
    using bufread_number_reads [OF ok d(1) n(1-3)] sep n(7) by auto
  obtain b2 where b2: "ib_expect 44 b1 = Some (True, b2)" "ib_taken b1 [44] b2" "ib_data b2 = es @ [58] @ cs"
    using ib_expect_reads [OF ib_takenD(1) [OF b1(2)]] b1(3) by auto
  obtain b3 where b3: "mcdb_bufread_number b2 = (True, dlen, b3)" "ib_taken b2 es b3" "ib_data b3 = [58] @ cs"
    using bufread_number_reads [OF ib_takenD(1) [OF b2(2)] b2(3) n(4-6)] sep n(8) by auto
  obtain b4 where b4: "ib_expect 58 b3 = Some (True, b4)" "ib_taken b3 [58] b4"
    using ib_expect_reads [OF ib_takenD(1) [OF b3(2)]] b3(3) by auto
  have "ib_taken b (ds @ [44] @ es @ [58]) b4"
    by (rule ib_taken_trans [OF b1(2) ib_taken_trans [OF b2(2) ib_taken_trans [OF b3(2) b4(2)]]])
  then show ?thesis using b1(1) b2(1) b3(1) b4(1) by (simp add: bufread_lengths_def)
qed

text \<open>What the reader returns, whatever the input.\<close>

definition preamble_end :: "mcdb_input \<Rightarrow> int \<Rightarrow> nat \<Rightarrow> nat \<Rightarrow> mcdb_input \<Rightarrow> bool" where
  "preamble_end b rv klen dlen b' \<longleftrightarrow> ib_ok b' \<and>
     (rv = 1 \<and> (ib_willing b \<longrightarrow> ib_willing b') \<and> (\<exists>ds es. is_number ds klen \<and> is_number es dlen \<and> ib_stream b = [43] @ ds @ [44] @ es @ [58] @ ib_stream b') \<or>
      rv = 0 \<and> ib_stream b = 10 # ib_stream b' \<or> rv = MCDB_ERROR_READFORMAT \<or> rv = MCDB_ERROR_READ)"

lemma preamble_props:
  assumes ok: "ib_ok b"
  shows "\<exists>rv klen dlen b' w'. mcdb_bufread_preamble b w = Some (rv, klen, dlen, b', w') \<and> errno_only w w' \<and>
    (ib_willing b \<longrightarrow> w' = w) \<and> preamble_end b rv klen dlen b'"
proof -
  obtain r b1 w1 where f: "(if ib_avail b < 23 then mcdb_bufread_preamble_fill b w else (1, b, w)) = (r, b1, w1)"
    by (metis prod_cases3)
  from bufread_before_preamble [OF ok f] obtain bs where m: "ib_more b b1 bs" and e: "errno_only w w1" "ib_willing b \<longrightarrow> w1 = w"
    "fill_ended b r b1" by blast
  note M = ib_moreD [OF m]
  show ?thesis
  proof (cases "r \<le> 0")
    case True
    then show ?thesis using f e M(1,4) by (simp add: mcdb_bufread_preamble_def preamble_end_def)
  next
    case False
    then obtain c cs where c: "ib_data b1 = c # cs" using e(3) by (cases "ib_data b1") (auto simp: fill_ended_def)
    from ib_next_props [OF M(1) c] obtain b2 where b2: "ib_next b1 = Some (c, b2)" "ib_taken b1 [c] b2" by blast
    note B2 = ib_takenD [OF b2(2)]
    show ?thesis
    proof (cases "c = 43")
      case other: False
      then show ?thesis using f False b2(1) B2(1,2,4) e M(2,4)
        by (auto simp: mcdb_bufread_preamble_def preamble_end_def)
    next
      case plus: True
      obtain g kl dl b3 where l: "bufread_lengths b2 = Some (g, kl, dl, b3)" "ib_ok b3"
        "g \<longrightarrow> (\<exists>ds es. is_number ds kl \<and> is_number es dl \<and> ib_taken b2 (ds @ [44] @ es @ [58]) b3)"
        using bufread_lengths_props [OF B2(1)] by blast
      have run: "mcdb_bufread_preamble b w = Some (if g then 1 else MCDB_ERROR_READFORMAT, kl, dl, b3, w1)"
        using f False b2(1) plus l(1) by (simp add: mcdb_bufread_preamble_def)
      show ?thesis
      proof (cases g)
        case bad: False
        then show ?thesis using run e l(2) by (auto simp: preamble_end_def)
      next
        case g: True
        then obtain ds es where d: "is_number ds kl" "is_number es dl" "ib_taken b2 (ds @ [44] @ es @ [58]) b3" using l(3) by blast
        note T = ib_takenD [OF d(3)]
        have "ib_stream b = [43] @ ds @ [44] @ es @ [58] @ ib_stream b3"
          using B2(2) T(2) M(2) plus by simp
        then show ?thesis using g run e l(2) d(1,2) T(4) B2(4) M(4) by (auto simp: preamble_end_def)
      qed
    qed
  qed
qed

text \<open>Preambles with numbers of at most ten digits are accepted, however the input is cut.\<close>

lemma take_upto_colon:
  assumes "xs @ ys = p @ [58] @ s" "58 \<notin> set p" "58 \<in> set xs \<or> length p < length xs"
  shows "\<exists>zs. xs = p @ [58] @ zs"
proof -
  have "length p < length xs"
  proof (rule ccontr)
    assume "\<not> length p < length xs"
    then have "xs = take (length xs) p" using assms(1) by (metis append_eq_conv_conj le_less_linear take_append take_all diff_is_0_eq' take0 append_Nil2)
    then have "58 \<notin> set xs" using assms(2) by (metis in_set_takeD)
    then show False using assms(3) \<open>\<not> length p < length xs\<close> by simp
  qed
  then have "take (length p + 1) (xs @ ys) = take (length p + 1) xs" by simp
  moreover have "take (length p + 1) (p @ [58] @ s) = p @ [58]" by simp
  ultimately have "take (length p + 1) xs = p @ [58]" using assms(1) by simp
  then show ?thesis by (metis append.assoc append_take_drop_id)
qed

lemma digits_no_colon: "list_all is_digit ds \<Longrightarrow> 58 \<notin> set ds"
  by (auto simp: list_all_iff is_digit_def)

lemma preamble_reads:
  assumes ok: "ib_ok b" and will: "ib_willing b" and n: "is_number ds klen" "is_number es dlen" "length ds \<le> 10" "length es \<le> 10"
    and s: "ib_stream b = [43] @ ds @ [44] @ es @ [58] @ s"
  shows "\<exists>b'. mcdb_bufread_preamble b w = Some (1, klen, dlen, b', w) \<and> ib_ok b' \<and> ib_willing b' \<and> ib_stream b' = s"
proof -
  let ?p = "[43] @ ds @ [44] @ es"
  obtain r b1 w1 where f: "(if ib_avail b < 23 then mcdb_bufread_preamble_fill b w else (1, b, w)) = (r, b1, w1)"
    by (metis prod_cases3)
  from bufread_before_preamble [OF ok f] will obtain bs where m: "ib_more b b1 bs" and e: "w1 = w" "fill_ended b r b1" by blast
  note M = ib_moreD [OF m]
  have r: "0 < r" using e(2) will s by (auto simp: fill_ended_def split: if_splits)
  have p: "58 \<notin> set ?p" using n by (auto simp: is_number_def dest: digits_no_colon)
  have str: "ib_data b1 @ ib_rest b1 = ?p @ [58] @ s" using M(2) s by (simp add: ib_stream_def)
  have "hd (ib_data b1) = 43" using str e(2) r by (cases "ib_data b1") (auto simp: fill_ended_def)
  then have "58 \<in> set (ib_data b1) \<or> length ?p < length (ib_data b1)" using e(2) r will n(3,4) by (auto simp: fill_ended_def)
  from take_upto_colon [OF str p this] obtain zs where zs: "ib_data b1 = 43 # (ds @ [44] @ es @ [58] @ zs)" by auto
  from ib_next_props [OF M(1) zs] obtain b2 where b2: "ib_next b1 = Some (43, b2)" "ib_taken b1 [43] b2"
    "ib_data b2 = ds @ [44] @ es @ [58] @ zs" by blast
  from bufread_lengths_reads [OF ib_takenD(1) [OF b2(2)] b2(3) n(1,2)] obtain b3 where
    b3: "bufread_lengths b2 = Some (True, klen, dlen, b3)" "ib_taken b2 (ds @ [44] @ es @ [58]) b3" by blast
  have t: "ib_taken b1 ([43] @ (ds @ [44] @ es @ [58])) b3" by (rule ib_taken_trans [OF b2(2) b3(2)])
  note T = ib_takenD [OF t]
  have "ib_stream b3 = s" using T(2) M(2) s by simp
  moreover have "mcdb_bufread_preamble b w = Some (1, klen, dlen, b3, w)"
    using f r b2(1) b3(1) e(1) by (simp add: mcdb_bufread_preamble_def)
  ultimately show ?thesis using T(1,4) M(4) [OF will] by blast
qed

lemma preamble_blank:
  assumes ok: "ib_ok b" and will: "ib_willing b" and s: "ib_stream b = 10 # s"
  shows "\<exists>b'. mcdb_bufread_preamble b w = Some (0, 0, 0, b', w)"
proof -
  obtain r b1 w1 where f: "(if ib_avail b < 23 then mcdb_bufread_preamble_fill b w else (1, b, w)) = (r, b1, w1)"
    by (metis prod_cases3)
  from bufread_before_preamble [OF ok f] will obtain bs where m: "ib_more b b1 bs" and e: "w1 = w" "fill_ended b r b1" by blast
  note M = ib_moreD [OF m]
  have r: "0 < r" using e(2) will s by (auto simp: fill_ended_def split: if_splits)
  then obtain cs where "ib_data b1 = 10 # cs" using e(2) M(2) s by (cases "ib_data b1") (auto simp: fill_ended_def ib_stream_def)
  from ib_next_props [OF M(1) this] f r e(1) show ?thesis by (auto simp: mcdb_bufread_preamble_def)
qed

end
