(* ===== verification/Linear_Probe.thy ===== *)
theory Linear_Probe
  imports Mcdb_Prelude
begin

text \<open>
  The abstract open hash table with linear probing that a slot of a database is: a table of
  \<^term>\<open>n\<close> cells, each entry stored in the first free cell at or after its home, a search
  walking from the home of the key to the first free cell.  The result used by the reader and
  the writer: the entries that a search from a home visits and that have this home come in the
  order in which they were inserted.
\<close>

type_synonym 'e table = "nat \<Rightarrow> 'e option"

definition probe_seq :: "nat \<Rightarrow> nat \<Rightarrow> nat \<Rightarrow> nat" where
  "probe_seq n s k = (s + k) mod n"

text \<open>Number of occupied cells met from \<^term>\<open>s\<close> before the first free one (at most n).\<close>

definition run_len :: "'e table \<Rightarrow> nat \<Rightarrow> nat \<Rightarrow> nat" where
  "run_len T n s = length (takeWhile (\<lambda>j. T (probe_seq n s j) \<noteq> None) [0..<n])"

definition find_free :: "'e table \<Rightarrow> nat \<Rightarrow> nat \<Rightarrow> nat option" where
  "find_free T n s = (let k = run_len T n s in if k < n then Some (probe_seq n s k) else None)"

definition probe_scan :: "'e table \<Rightarrow> nat \<Rightarrow> nat \<Rightarrow> 'e list" where
  "probe_scan T n s = map (\<lambda>j. the (T (probe_seq n s j))) [0..<run_len T n s]"

subsection \<open>The probe sequence\<close>

lemma probe_seq_less: "0 < n \<Longrightarrow> probe_seq n s k < n"
  by (simp add: probe_seq_def)

lemma probe_seq_0 [simp]: "s < n \<Longrightarrow> probe_seq n s 0 = s"
  by (simp add: probe_seq_def)

lemma probe_seq_Suc:
  assumes "0 < n"
  shows "probe_seq n s (Suc k) = (if Suc (probe_seq n s k) = n then 0 else Suc (probe_seq n s k))"
  using assms by (simp add: probe_seq_def mod_Suc)

lemma probe_seq_inj:
  assumes "probe_seq n s j = probe_seq n s k" "j < n" "k < n"
  shows "j = k"
proof -
  have "(s + j) mod n = (s + k) mod n" using assms(1) by (simp add: probe_seq_def)
  then obtain q1 q2 where "s + j + n * q1 = s + k + n * q2"
    by (auto simp: nat_mod_eq_iff)
  then have "j + n * q1 = k + n * q2" by simp
  then have "j mod n = k mod n" by (auto simp: nat_mod_eq_iff)
  with assms(2,3) show ?thesis by simp
qed

lemma probe_seq_surj:
  assumes "c < n" "s < n"
  obtains k where "k < n" "probe_seq n s k = c"
proof
  show "(c + (n - s)) mod n < n" using assms by simp
  show "probe_seq n s ((c + (n - s)) mod n) = c"
    using assms by (simp add: probe_seq_def mod_add_right_eq)
qed

subsection \<open>Runs of occupied cells\<close>

lemma run_len_le: "run_len T n s \<le> n"
  unfolding run_len_def by (rule order_trans [OF length_takeWhile_le]) simp

lemma run_len_occupied: "j < run_len T n s \<Longrightarrow> T (probe_seq n s j) \<noteq> None"
  using nth_length_takeWhile [of "\<lambda>j. T (probe_seq n s j) \<noteq> None" "[0..<n]"]
    set_takeWhileD takeWhile_nth [of j "\<lambda>j. T (probe_seq n s j) \<noteq> None" "[0..<n]"] run_len_le [of T n s]
  unfolding run_len_def by (metis (mono_tags, lifting) add_0 length_upt minus_nat.diff_0 nth_mem nth_upt order_less_le_trans)

lemma run_len_free: "run_len T n s < n \<Longrightarrow> T (probe_seq n s (run_len T n s)) = None"
  using nth_length_takeWhile [of "\<lambda>j. T (probe_seq n s j) \<noteq> None" "[0..<n]"]
  unfolding run_len_def by simp

lemma run_len_eqI:
  assumes "k \<le> n" "\<And>j. j < k \<Longrightarrow> T (probe_seq n s j) \<noteq> None"
    and "k < n \<Longrightarrow> T (probe_seq n s k) = None"
  shows "run_len T n s = k"
proof (rule linorder_cases [of "run_len T n s" k])
  assume less: "run_len T n s < k"
  then have "T (probe_seq n s (run_len T n s)) = None" using assms(1) by (simp add: run_len_free)
  with assms(2) [OF less] show ?thesis by blast
next
  assume "k < run_len T n s"
  with assms(3) run_len_le [of T n s] run_len_occupied [of k T n s] show ?thesis by auto
qed

subsection \<open>The contract of a home function, and what searches find\<close>

locale linear_probe =
  fixes home :: "nat \<Rightarrow> 'e \<Rightarrow> nat"
  assumes home_less: "0 < n \<Longrightarrow> home n e < n"
begin

definition probe_ok :: "nat \<Rightarrow> 'e table \<Rightarrow> bool" where
  "probe_ok n T \<longleftrightarrow> (\<forall>c x. c < n \<longrightarrow> T c = Some x \<longrightarrow>
     (\<exists>k < n. c = probe_seq n (home n x) k \<and> (\<forall>j < k. T (probe_seq n (home n x) j) \<noteq> None)))"

definition insert_entry :: "nat \<Rightarrow> 'e \<Rightarrow> 'e table \<Rightarrow> 'e table option" where
  "insert_entry n e T = map_option (\<lambda>c. T(c := Some e)) (find_free T n (home n e))"

fun insert_all :: "nat \<Rightarrow> 'e list \<Rightarrow> 'e table \<Rightarrow> 'e table option" where
  "insert_all n [] T = Some T"
| "insert_all n (e # es) T = Option.bind (insert_entry n e T) (insert_all n es)"

lemma insert_entryE:
  assumes "insert_entry n e T = Some T'"
  obtains k where "k < n" "T' = T(probe_seq n (home n e) k := Some e)"
    "T (probe_seq n (home n e) k) = None" "\<forall>j<k. T (probe_seq n (home n e) j) \<noteq> None"
  using assms run_len_free [of T n "home n e"] run_len_occupied [of _ T n "home n e"] that
  by (auto simp: insert_entry_def find_free_def Let_def split: if_splits)

lemma probe_ok_insert:
  assumes ok: "probe_ok n T" and ins: "insert_entry n e T = Some T'"
  shows "probe_ok n T'"
proof -
  from ins obtain k where k: "k < n" "T' = T(probe_seq n (home n e) k := Some e)"
    "T (probe_seq n (home n e) k) = None" "\<forall>j<k. T (probe_seq n (home n e) j) \<noteq> None"
    by (rule insert_entryE)
  have grows: "T c \<noteq> None \<Longrightarrow> T' c \<noteq> None" for c using k(2) by auto
  show ?thesis
    unfolding probe_ok_def
  proof (intro allI impI)
    fix c x assume c: "c < n" "T' c = Some x"
    show "\<exists>k<n. c = probe_seq n (home n x) k \<and> (\<forall>j<k. T' (probe_seq n (home n x) j) \<noteq> None)"
    proof (cases "c = probe_seq n (home n e) k")
      case True
      with c k have "x = e" by simp
      with True k grows show ?thesis by blast
    next
      case False
      with c k(2) have "T c = Some x" by simp
      with ok c obtain i where "i < n" "c = probe_seq n (home n x) i"
        "\<forall>j<i. T (probe_seq n (home n x) j) \<noteq> None"
        unfolding probe_ok_def by blast
      with grows show ?thesis by blast
    qed
  qed
qed

lemma beyond_run_not_home:
  assumes ok: "probe_ok n T" and T: "T (probe_seq n s j) = Some x"
    and j: "run_len T n s < j" "j < n" and x: "home n x = s"
  shows False
proof -
  have "probe_seq n s j < n" using j by (simp add: probe_seq_less)
  with ok T x obtain k where k: "k < n" "probe_seq n s j = probe_seq n s k"
    "\<forall>i<k. T (probe_seq n s i) \<noteq> None"
    unfolding probe_ok_def by blast
  then have "k = j" using probe_seq_inj [of n s j k] j by simp
  with k(3) j run_len_free [of T n s] show False by auto
qed

lemma scan_insert:
  assumes ok: "probe_ok n T" and ins: "insert_entry n e T = Some T'" and s: "s < n"
  shows "filter (\<lambda>x. home n x = s) (probe_scan T' n s) =
         filter (\<lambda>x. home n x = s) (probe_scan T n s) @ (if home n e = s then [e] else [])"
proof -
  from ins obtain k where k: "k < n" "T' = T(probe_seq n (home n e) k := Some e)"
    "T (probe_seq n (home n e) k) = None" "\<forall>j<k. T (probe_seq n (home n e) j) \<noteq> None"
    by (rule insert_entryE)
  let ?c = "probe_seq n (home n e) k" and ?L = "run_len T n s" and ?L' = "run_len T' n s"
  from s obtain i where i: "i < n" "probe_seq n s i = ?c"
    using probe_seq_surj [of ?c n s] k(1) by (metis probe_seq_less gr_zeroI not_less_zero)
  have "?L \<le> i" using run_len_occupied [of i T n s] i k(3) by (metis not_le)
  have same: "T' (probe_seq n s j) = T (probe_seq n s j)" if "j < n" "j \<noteq> i" for j
    using that i k(2) probe_seq_inj [of n s j i] by auto
  show ?thesis
  proof (cases "i = ?L")
    case False
    with \<open>?L \<le> i\<close> have "?L < i" by simp
    have "?L' = ?L"
      by (rule run_len_eqI) (use same \<open>?L < i\<close> i run_len_occupied [of _ T n s] run_len_free [of T n s] in auto)
    moreover have "the (T' (probe_seq n s j)) = the (T (probe_seq n s j))" if "j < ?L" for j
      using same [of j] that \<open>?L < i\<close> i by simp
    ultimately have "probe_scan T' n s = probe_scan T n s" by (simp add: probe_scan_def)
    moreover have "home n e \<noteq> s"
    proof
      assume "home n e = s"
      with i k(1) have "k = i" using probe_seq_inj [of n s k i] by simp
      with k(4) \<open>?L < i\<close> \<open>home n e = s\<close> run_len_free [of T n s] i show False by auto
    qed
    ultimately show ?thesis by simp
  next
    case True
    have "?L < ?L'"
    proof (rule ccontr)
      assume "\<not> ?L < ?L'"
      then have "?L' \<le> ?L" by simp
      then have "?L' < n" using True i by simp
      then have "T' (probe_seq n s ?L') = None" by (rule run_len_free)
      then show False
        using \<open>?L' \<le> ?L\<close> True i k(2) same [of ?L'] run_len_occupied [of ?L' T n s]
        by (cases "?L' = ?L") auto
    qed
    then have split: "[0..<?L'] = [0..<?L] @ ?L # [Suc ?L..<?L']"
      by (metis less_imp_le_nat upt_add_eq_append upt_conv_Cons le_add_diff_inverse zero_le)
    have pre: "map (\<lambda>j. the (T' (probe_seq n s j))) [0..<?L] = probe_scan T n s"
      using same run_len_le [of T n s] True i by (auto simp: probe_scan_def)
    have mid: "the (T' (probe_seq n s ?L)) = e" using True i k(2) by simp
    have post: "filter (\<lambda>x. home n x = s) (map (\<lambda>j. the (T' (probe_seq n s j))) [Suc ?L..<?L']) = []"
    proof (rule filter_False, rule ballI)
      fix x assume "x \<in> set (map (\<lambda>j. the (T' (probe_seq n s j))) [Suc ?L..<?L'])"
      then obtain j where j: "?L < j" "j < ?L'" "x = the (T' (probe_seq n s j))"
        by (auto simp: Suc_le_eq)
      then have "j < n" using run_len_le [of T' n s] by simp
      then have "T (probe_seq n s j) = Some x"
        using j same [of j] True run_len_occupied [of j T' n s] by auto
      then show "home n x \<noteq> s" using beyond_run_not_home [OF ok] j(1) \<open>j < n\<close> by blast
    qed
    show ?thesis
      using split pre mid post by (simp add: probe_scan_def [of T'])
  qed
qed

lemma probe_ok_empty: "probe_ok n (\<lambda>_. None)"
  by (simp add: probe_ok_def)

text \<open>A table with fewer entries than cells has room for one more.\<close>

lemma insert_entry_ex:
  assumes "0 < n" "\<And>c. c \<ge> n \<Longrightarrow> T c = None" "card (dom T) < n"
  shows "\<exists>T'. insert_entry n e T = Some T'"
proof (rule ccontr)
  assume "\<not> ?thesis"
  then have full: "run_len T n (home n e) = n"
    using run_len_le [of T n "home n e"] by (auto simp: insert_entry_def find_free_def Let_def split: if_splits)
  have "{..<n} \<subseteq> dom T"
  proof
    fix c assume "c \<in> {..<n}"
    then have "c < n" by simp
    then obtain k where "k < n" "probe_seq n (home n e) k = c"
      using probe_seq_surj [of c n "home n e"] home_less assms(1) by metis
    then show "c \<in> dom T" using run_len_occupied [of k T n "home n e"] full by auto
  qed
  moreover have "dom T \<subseteq> {..<n}" using assms(2) by (meson domIff lessThan_iff not_le subsetI)
  ultimately have "dom T = {..<n}" by simp
  with assms(3) show False by simp
qed

lemma insert_entry_dom:
  assumes "insert_entry n e T = Some T'" "0 < n" "\<And>c. c \<ge> n \<Longrightarrow> T c = None"
  shows "card (dom T') = Suc (card (dom T))" "\<And>c. c \<ge> n \<Longrightarrow> T' c = None"
proof -
  from assms(1) obtain k where k: "k < n" "T' = T(probe_seq n (home n e) k := Some e)"
    "T (probe_seq n (home n e) k) = None" by (rule insert_entryE)
  have "dom T \<subseteq> {..<n}" using assms(3) by (meson domIff lessThan_iff not_le subsetI)
  then have "finite (dom T)" by (rule finite_subset) simp
  with k show "card (dom T') = Suc (card (dom T))" by (simp add: domIff)
  show "T' c = None" if "c \<ge> n" for c
    using k assms(2,3) that probe_seq_less [of n "home n e" k] by auto
qed

lemma insert_all_ex:
  assumes "0 < n" "\<And>c. c \<ge> n \<Longrightarrow> T c = None" "card (dom T) + length es \<le> n"
  shows "\<exists>T'. insert_all n es T = Some T' \<and> (\<forall>c \<ge> n. T' c = None)"
  using assms(2,3)
proof (induction es arbitrary: T)
  case Nil
  then show ?case by simp
next
  case (Cons e es)
  from Cons.prems assms(1) obtain T1 where T1: "insert_entry n e T = Some T1"
    using insert_entry_ex [of n T e] by auto
  with Cons.IH [of T1] Cons.prems insert_entry_dom [OF T1 assms(1)] show ?case by simp
qed

lemma insert_all_scan:
  assumes "insert_all n es T = Some T'" "probe_ok n T" "s < n"
  shows "probe_ok n T' \<and> filter (\<lambda>x. home n x = s) (probe_scan T' n s) =
           filter (\<lambda>x. home n x = s) (probe_scan T n s) @ filter (\<lambda>x. home n x = s) es"
  using assms
proof (induction es arbitrary: T)
  case Nil
  then show ?case by simp
next
  case (Cons e es)
  then obtain T1 where T1: "insert_entry n e T = Some T1" "insert_all n es T1 = Some T'"
    by (auto simp: bind_eq_Some_conv)
  with Cons.IH [OF T1(2) probe_ok_insert [OF Cons.prems(2) T1(1)] Cons.prems(3)]
    scan_insert [OF Cons.prems(2) T1(1) Cons.prems(3)]
  show ?case by simp
qed

theorem scan_order:
  assumes "insert_all n es (\<lambda>_. None) = Some T" "s < n"
  shows "filter (\<lambda>x. home n x = s) (probe_scan T n s) = filter (\<lambda>x. home n x = s) es"
proof -
  have "run_len (\<lambda>_. None :: 'e option) n s = 0" by (rule run_len_eqI) simp_all
  then have "probe_scan (\<lambda>_. None :: 'e option) n s = []" by (simp add: probe_scan_def)
  then show ?thesis using insert_all_scan [OF assms(1) probe_ok_empty assms(2)] by simp
qed

text \<open>Entries of a search come from the inserted ones.\<close>

lemma insert_all_ran:
  assumes "insert_all n es T = Some T'" "T' c = Some x"
  shows "x \<in> set es \<or> T c = Some x"
  using assms
proof (induction es arbitrary: T)
  case Nil
  then show ?case by simp
next
  case (Cons e es)
  then obtain T1 where T1: "insert_entry n e T = Some T1" "insert_all n es T1 = Some T'"
    by (auto simp: bind_eq_Some_conv)
  from Cons.IH [OF T1(2) Cons.prems(2)] T1(1) show ?case
    by (auto elim!: insert_entryE split: if_splits)
qed

end

end
