(* ===== verification/Mcdb_Format.thy ===== *)
theory Mcdb_Format
  imports Mcdb_Make Linear_Probe
begin

text \<open>
  The database file as a specification: which bytes a file holds for a list of records.  The
  writer is proved to produce it and the reader is proved against it; neither is mentioned
  here beyond the entry record and the constants.
\<close>

subsection \<open>Records and their hash entries\<close>

text \<open>The hash of a key in a database made with the default hash function.\<close>

definition djb_hash :: "bytes \<Rightarrow> u32" where
  "djb_hash key = uint32_hash_djb UINT32_HASH_DJB_INIT key"

type_synonym kv = "bytes \<times> bytes"

definition rec_bytes :: "kv \<Rightarrow> bytes" where
  "rec_bytes r = be_bytes 4 (length (fst r)) @ be_bytes 4 (length (snd r)) @ fst r @ snd r"

definition data_bytes :: "kv list \<Rightarrow> bytes" where
  "data_bytes recs = concat (map rec_bytes recs)"

definition rec_len :: "kv \<Rightarrow> nat" where
  "rec_len r = 8 + length (fst r) + length (snd r)"

fun hp_list :: "(bytes \<Rightarrow> u32) \<Rightarrow> nat \<Rightarrow> kv list \<Rightarrow> mcdb_hp list" where
  "hp_list hf pos [] = []"
| "hp_list hf pos (r # recs) =
     \<lparr>hp_p = pos, hp_h = hf (fst r), hp_l = word_of_nat (length (fst r))\<rparr> # hp_list hf (pos + rec_len r) recs"

definition entries :: "(bytes \<Rightarrow> u32) \<Rightarrow> kv list \<Rightarrow> mcdb_hp list" where
  "entries hf recs = hp_list hf MCDB_HEADER_SZ recs"

definition slot_hps :: "mcdb_hp list \<Rightarrow> nat \<Rightarrow> mcdb_hp list" where
  "slot_hps es i = filter (\<lambda>e. slot_of (hp_h e) = i) es"

text \<open>
  The order in which the writer enters the entries of a slot: lists of 250, the newest list
  first, each list in the order of insertion.
\<close>

function newest_first :: "'a list \<Rightarrow> 'a list" where
  "newest_first es = (if length es \<le> MCDB_HPLIST then es
     else newest_first (drop MCDB_HPLIST es) @ take MCDB_HPLIST es)"
  by pat_completeness auto
termination by (relation "measure length") (auto simp: MCDB_HPLIST_def)

declare newest_first.simps [simp del]

subsection \<open>Layout\<close>

definition data_end :: "kv list \<Rightarrow> nat" where
  "data_end recs = MCDB_HEADER_SZ + length (data_bytes recs)"

definition pad_len :: "nat \<Rightarrow> nat" where
  "pad_len pos = (MCDB_PAD_ALIGN - pos mod MCDB_PAD_ALIGN) mod MCDB_PAD_ALIGN"

definition tables_start :: "kv list \<Rightarrow> nat" where
  "tables_start recs = data_end recs + pad_len (data_end recs)"

definition stride_bits :: "kv list \<Rightarrow> nat" where
  "stride_bits recs = (if tables_start recs < UINT_MAX then 3 else 4)"

definition slot_cells :: "(bytes \<Rightarrow> u32) \<Rightarrow> kv list \<Rightarrow> nat \<Rightarrow> nat" where
  "slot_cells hf recs i = 2 * length (slot_hps (entries hf recs) i)"

definition table_pos :: "(bytes \<Rightarrow> u32) \<Rightarrow> kv list \<Rightarrow> nat \<Rightarrow> nat" where
  "table_pos hf recs i = tables_start recs + (\<Sum>j<i. slot_cells hf recs j * 2 ^ stride_bits recs)"

text \<open>One cell of a table: hash and position, with the key length between them in wide tables.\<close>

definition cell_bytes :: "nat \<Rightarrow> mcdb_hp option \<Rightarrow> bytes" where
  "cell_bytes b c = (case c of None \<Rightarrow> replicate (2 ^ b) 0
     | Some e \<Rightarrow> (if b = 3 then be_bytes 4 (unat (hp_h e)) @ be_bytes 4 (hp_p e)
                  else be_bytes 4 (unat (hp_h e)) @ be_bytes 4 (unat (hp_l e)) @ be_bytes 8 (hp_p e)))"

definition table_at :: "mem \<Rightarrow> nat \<Rightarrow> nat \<Rightarrow> nat \<Rightarrow> mcdb_hp table \<Rightarrow> bool" where
  "table_at f base b n T \<longleftrightarrow> (\<forall>c < n. mem_slice f (base + c * 2 ^ b) (2 ^ b) = cell_bytes b (T c))"

text \<open>The home cell of an entry in a table of n cells.\<close>

definition entry_home :: "nat \<Rightarrow> mcdb_hp \<Rightarrow> nat" where
  "entry_home n e = unat (drop_bit MCDB_SLOT_BITS (hp_h e)) mod n"

interpretation lp: linear_probe entry_home
  by unfold_locales (simp add: entry_home_def)

definition slot_table :: "(bytes \<Rightarrow> u32) \<Rightarrow> kv list \<Rightarrow> nat \<Rightarrow> mcdb_hp table option" where
  "slot_table hf recs i =
     lp.insert_all (slot_cells hf recs i) (newest_first (slot_hps (entries hf recs) i)) (\<lambda>_. None)"

definition header_at :: "mem \<Rightarrow> (bytes \<Rightarrow> u32) \<Rightarrow> kv list \<Rightarrow> nat \<Rightarrow> bool" where
  "header_at f hf recs i \<longleftrightarrow>
     mem_slice f (i * 16) 8 = be_bytes 8 (table_pos hf recs i) \<and>
     mem_slice f (i * 16 + 8) 4 = be_bytes 4 (slot_cells hf recs i) \<and>
     mem_slice f (i * 16 + 12) 4 = [0, 0, 0, 0]"

text \<open>A file with content f and length n is a database of the records.\<close>

definition db_file :: "mem \<Rightarrow> nat \<Rightarrow> (bytes \<Rightarrow> u32) \<Rightarrow> kv list \<Rightarrow> bool" where
  "db_file f n hf recs \<longleftrightarrow>
     n = table_pos hf recs MCDB_SLOTS \<and>
     mem_slice f MCDB_HEADER_SZ (length (data_bytes recs)) = data_bytes recs \<and>
     mem_slice f (data_end recs) (pad_len (data_end recs)) = replicate (pad_len (data_end recs)) (-1) \<and>
     (\<forall>i < MCDB_SLOTS. header_at f hf recs i) \<and>
     (\<forall>i < MCDB_SLOTS. \<exists>T. slot_table hf recs i = Some T \<and>
        table_at f (table_pos hf recs i) (stride_bits recs) (slot_cells hf recs i) T)"

text \<open>
  The limits within which the writer works: keys and data below \<^verbatim>\<open>INT_MAX - 8\<close> bytes, fewer than
  \<^verbatim>\<open>INT_MAX\<close> records, a data section that a 64-bit offset addresses, and at most \<^verbatim>\<open>2 ^ 27\<close>
  records in one slot (beyond it the 32-bit shift of the cell index overflows).
\<close>

definition recs_ok :: "(bytes \<Rightarrow> u32) \<Rightarrow> kv list \<Rightarrow> bool" where
  "recs_ok hf recs \<longleftrightarrow>
     (\<forall>r \<in> set recs. length (fst r) \<le> INT_MAX - 8 \<and> length (snd r) \<le> INT_MAX - 8) \<and>
     length recs < INT_MAX \<and> length (data_bytes recs) < 2 ^ 61 \<and>
     (\<forall>i < MCDB_SLOTS. length (slot_hps (entries hf recs) i) \<le> 2 ^ 27)"

subsection \<open>Facts about the layout\<close>

lemma length_rec_bytes [simp]: "length (rec_bytes r) = rec_len r"
  by (simp add: rec_bytes_def rec_len_def)

lemma data_bytes_Nil [simp]: "data_bytes [] = []"
  by (simp add: data_bytes_def)

lemma data_bytes_snoc: "data_bytes (recs @ [r]) = data_bytes recs @ rec_bytes r"
  by (simp add: data_bytes_def)

lemma data_bytes_append: "data_bytes (xs @ ys) = data_bytes xs @ data_bytes ys"
  by (simp add: data_bytes_def)

lemma data_bytes_Cons: "data_bytes (r # recs) = rec_bytes r @ data_bytes recs"
  by (simp add: data_bytes_def)

lemma hp_list_snoc:
  "hp_list hf pos (recs @ [r]) = hp_list hf pos recs @
     [\<lparr>hp_p = pos + length (data_bytes recs), hp_h = hf (fst r), hp_l = word_of_nat (length (fst r))\<rparr>]"
  by (induction recs arbitrary: pos) (auto simp: data_bytes_Cons)

lemma entries_snoc:
  "entries hf (recs @ [r]) = entries hf recs @
     [\<lparr>hp_p = data_end recs, hp_h = hf (fst r), hp_l = word_of_nat (length (fst r))\<rparr>]"
  by (simp add: entries_def hp_list_snoc data_end_def)

lemma length_entries [simp]: "length (entries hf recs) = length recs"
proof -
  have "length (hp_list hf pos recs) = length recs" for pos by (induction recs arbitrary: pos) auto
  then show ?thesis by (simp add: entries_def)
qed

lemma data_end_snoc: "data_end (recs @ [r]) = data_end recs + rec_len r"
  by (simp add: data_end_def data_bytes_snoc)

lemma slot_hps_snoc:
  "slot_hps (es @ [e]) i = slot_hps es i @ (if slot_of (hp_h e) = i then [e] else [])"
  by (simp add: slot_hps_def)

lemma slot_of_less [simp]: "slot_of h < MCDB_SLOTS"
proof -
  have "unat (h AND 255) \<le> unat (255 :: u32)"
    by (rule word_le_nat_alt [THEN iffD1]) (rule word_and_le1)
  then show ?thesis by (simp add: slot_of_def mcdb_consts)
qed

lemma mset_newest_first [simp]: "set (newest_first es) = set es" "length (newest_first es) = length es"
proof (induction es rule: newest_first.induct)
  case (1 es)
  have "set (drop MCDB_HPLIST es) \<union> set (take MCDB_HPLIST es) = set es"
    by (metis append_take_drop_id set_append sup_commute)
  with 1 show "set (newest_first es) = set es" "length (newest_first es) = length es"
    by (auto simp: newest_first.simps [of es])
qed

lemma newest_first_short: "length es \<le> MCDB_HPLIST \<Longrightarrow> newest_first es = es"
  by (simp add: newest_first.simps)

text \<open>The lists of a slot, oldest first, all but the last of full length.\<close>

lemma newest_first_blocks:
  assumes "\<forall>b \<in> set bs. length b = MCDB_HPLIST" "length c \<le> MCDB_HPLIST"
  shows "newest_first (concat bs @ c) = c @ concat (rev bs)"
  using assms(1)
proof (induction bs)
  case Nil
  with assms(2) show ?case by (simp add: newest_first_short)
next
  case (Cons b bs)
  then have b: "length b = MCDB_HPLIST" and IH: "newest_first (concat bs @ c) = c @ concat (rev bs)"
    by auto
  show ?case
  proof (cases "concat bs @ c = []")
    case True
    then have "concat (rev bs) = []" "concat bs = []" "c = []" by auto
    then have *: "concat (b # bs) @ c = b" "c @ concat (rev (b # bs)) = b" by (simp_all del: concat_eq_Nil_conv)
    show ?thesis unfolding * using b by (simp add: newest_first_short)
  next
    case False
    then have "newest_first (b @ concat bs @ c) = newest_first (concat bs @ c) @ b"
      using b by (subst newest_first.simps) (auto simp del: concat_eq_Nil_conv)
    with IH show ?thesis by simp
  qed
qed

lemma pad_len_less: "pad_len p < 16"
  by (simp add: pad_len_def mcdb_consts)

lemma pad_aligned: "(p + pad_len p) mod 16 = 0"
proof -
  have "(p + (16 - p mod 16) mod 16) mod 16 = (p mod 16 + (16 - p mod 16)) mod 16"
    by (simp only: mod_add_left_eq mod_add_right_eq)
  also have "p mod 16 + (16 - p mod 16) = 16"
    by (rule le_add_diff_inverse) (simp add: less_imp_le)
  finally show ?thesis by (simp add: pad_len_def mcdb_consts)
qed

lemma table_pos_0 [simp]: "table_pos hf recs 0 = tables_start recs"
  by (simp add: table_pos_def)

lemma table_pos_Suc:
  "table_pos hf recs (Suc i) = table_pos hf recs i + slot_cells hf recs i * 2 ^ stride_bits recs"
  by (simp add: table_pos_def)

lemma table_pos_mono: "i \<le> j \<Longrightarrow> table_pos hf recs i \<le> table_pos hf recs j"
  by (induction j) (auto simp: table_pos_Suc le_Suc_eq)

lemma tables_start_aligned: "tables_start recs mod 16 = 0"
  by (simp add: tables_start_def pad_aligned)

lemma table_pos_aligned: "table_pos hf recs i mod 16 = 0"
proof (induction i)
  case 0
  then show ?case by (simp add: tables_start_aligned)
next
  case (Suc i)
  then show ?case
    by (auto simp: table_pos_Suc slot_cells_def stride_bits_def mod_eq_0_iff_dvd)
qed

lemma cell_in_table:
  assumes "c < n" "i + k \<le> (2 :: nat) ^ b"
  shows "p + c * 2 ^ b + i + k \<le> p + n * 2 ^ b"
proof -
  have "Suc c * 2 ^ b \<le> n * 2 ^ b" using assms(1) by (intro mult_right_mono) auto
  then show ?thesis using assms(2) by simp
qed

lemma slice_part:
  assumes "mem_slice f a n = bs" "i + k \<le> n"
  shows "mem_slice f (a + i) k = take k (drop i bs)"
  using assms by (auto simp: drop_mem_slice take_mem_slice)

lemma hp_list_pos:
  "e \<in> set (hp_list hf pos recs) \<Longrightarrow> pos \<le> hp_p e \<and> hp_p e < pos + length (data_bytes recs)"
proof (induction recs arbitrary: pos)
  case (Cons r recs)
  have "0 < rec_len r" by (simp add: rec_len_def)
  with Cons show ?case by (fastforce simp: data_bytes_Cons)
qed simp

lemma entry_pos: "e \<in> set (entries hf recs) \<Longrightarrow> MCDB_HEADER_SZ \<le> hp_p e \<and> hp_p e < data_end recs"
  using hp_list_pos [of e hf MCDB_HEADER_SZ recs] by (simp add: entries_def data_end_def)

lemma slot_hps_subset: "e \<in> set (slot_hps es i) \<Longrightarrow> e \<in> set es"
  by (simp add: slot_hps_def)

lemma slot_table_exists:
  "\<exists>T. slot_table hf recs i = Some T \<and> (\<forall>c \<ge> slot_cells hf recs i. T c = None)"
proof (cases "slot_hps (entries hf recs) i = []")
  case True
  then show ?thesis by (simp add: slot_table_def newest_first_short)
next
  case False
  then show ?thesis
    unfolding slot_table_def by (intro lp.insert_all_ex) (auto simp: slot_cells_def)
qed

lemma table_pos_bound:
  assumes "recs_ok hf recs" "i \<le> MCDB_SLOTS"
  shows "table_pos hf recs i < 2 ^ 61 + 2 ^ 41"
proof -
  have "table_pos hf recs i \<le> tables_start recs + i * 2 ^ 32" using assms(2)
  proof (induction i)
    case (Suc i)
    then have "slot_cells hf recs i \<le> 2 ^ 28" using assms(1) by (fastforce simp: slot_cells_def recs_ok_def)
    then have "slot_cells hf recs i * 2 ^ stride_bits recs \<le> 2 ^ 28 * 2 ^ 4"
      by (intro mult_le_mono) (auto simp: stride_bits_def)
    with Suc show ?case by (simp add: table_pos_Suc)
  qed simp
  moreover have "tables_start recs < 2 ^ 61 + 2 ^ 13"
    using assms(1) pad_len_less [of "data_end recs"] by (simp add: tables_start_def data_end_def recs_ok_def mcdb_consts)
  ultimately show ?thesis using assms(2) by (simp add: MCDB_SLOTS_def)
qed

lemma slot_cells_bound: "recs_ok hf recs \<Longrightarrow> i < MCDB_SLOTS \<Longrightarrow> slot_cells hf recs i \<le> 2 ^ 28"
  by (fastforce simp: slot_cells_def recs_ok_def)

end
