(* ===== verification/Make_Window.thy ===== *)
theory Make_Window
  imports Mcdb_Format "HOL-Library.Multiset"
begin

text \<open>
  The writer's mapping: rounding to pages, the window invariant that every store relies on, and
  what moving the mapping guarantees whatever the environment answers.
\<close>

subsection \<open>Rounding to pages\<close>

text \<open>The mask the writer keeps for pages of \<^term>\<open>2 ^ pk\<close> bytes.\<close>

definition page_mask :: "nat \<Rightarrow> u64" where
  "page_mask pk = NOT (2 ^ pk - 1)"

lemma page_mask_and: "x AND page_mask pk = x - take_bit pk x"
proof -
  have "x AND page_mask pk = push_bit pk (drop_bit pk x)"
    by (rule bit_eqI) (auto simp: page_mask_def mask_eq_exp_minus_1 [symmetric] bit_simps)
  also have "\<dots> = x - take_bit pk x" by (metis add_diff_cancel_right' bits_ident)
  finally show ?thesis .
qed

lemma unat_and_page_mask: "unat (x AND page_mask pk) = unat x - unat x mod 2 ^ pk"
proof -
  have tb: "unat (take_bit pk x) = unat x mod 2 ^ pk" 
    by (metis take_bit_eq_mod unsigned_take_bit_eq)
  have "take_bit pk x \<le> x" by (simp add: word_le_nat_alt tb)
  then show ?thesis by (simp add: page_mask_and unat_sub tb)
qed

lemma pg_down_eq: "x < 2 ^ 64 \<Longrightarrow> pg_down (page_mask pk) x = x - x mod 2 ^ pk"
  by (simp add: pg_down_def unat_and_page_mask unat_of_nat)

lemma pg_down_le: "x < 2 ^ 64 \<Longrightarrow> pg_down (page_mask pk) x \<le> x"
  by (simp add: pg_down_eq)

lemma NOT_page_mask: "NOT (page_mask pk) = word_of_nat (2 ^ pk - 1)"
  by (simp add: page_mask_def of_nat_diff)

lemma pg_up_ge:
  assumes "x < 2 ^ 62" "pk \<le> 30"
  shows "x \<le> pg_up (page_mask pk) x" "pg_up (page_mask pk) x < x + 2 ^ pk"
proof -
  have pk: "(2 :: nat) ^ pk \<le> 2 ^ 30" using assms(2) by (rule power_increasing) simp
  have x: "x + (2 ^ pk - 1) < 2 ^ 64" using assms(1) pk by simp
  have eq: "pg_up (page_mask pk) x = (x + (2 ^ pk - 1)) - (x + (2 ^ pk - 1)) mod 2 ^ pk"
  proof -
    have "word_of_nat x + NOT (page_mask pk) = (word_of_nat (x + (2 ^ pk - 1)) :: u64)"
      by (simp only: NOT_page_mask of_nat_add)
    then show ?thesis using x by (simp add: pg_up_def unat_and_page_mask unat_of_nat del: of_nat_add)
  qed
  have "(x + (2 ^ pk - 1)) mod 2 ^ pk < 2 ^ pk" by simp
  then show "x \<le> pg_up (page_mask pk) x" "pg_up (page_mask pk) x < x + 2 ^ pk"
    unfolding eq by linarith+
qed

lemma round_up_ge: "0 < k \<Longrightarrow> (x :: nat) \<le> (x + (k - 1)) div k * k"
proof -
  assume "0 < k"
  have "(x + (k - 1)) mod k < k" using \<open>0 < k\<close> by simp
  moreover have "(x + (k - 1)) div k * k + (x + (k - 1)) mod k = x + (k - 1)" by simp
  ultimately show ?thesis by linarith
qed

subsection \<open>The window\<close>

text \<open>The part of the environment that no operation of the writer changes.\<close>

definition os_same :: "os \<Rightarrow> os \<Rightarrow> bool" where
  "os_same w w' \<longleftrightarrow> o_fail w' = o_fail w \<and> o_count w' = o_count w"

text \<open>The environment refuses nothing.\<close>

definition os_willing :: "os \<Rightarrow> bool" where
  "os_willing w \<longleftrightarrow> (\<forall>k. o_fail w k = 0)"

text \<open>Bytes below n are the same.\<close>

definition file_kept :: "os \<Rightarrow> os \<Rightarrow> bool" where
  "file_kept w w' \<longleftrightarrow> o_flen w \<le> o_flen w' \<and> (\<forall>i < o_flen w. o_file w' i = o_file w i)"

text \<open>Everything of the writer but the mapping and the file sizes.\<close>

definition mk_same :: "mcdb_make \<Rightarrow> mcdb_make \<Rightarrow> bool" where
  "mk_same m m' \<longleftrightarrow> mk_pos m' = mk_pos m \<and> mk_hash_init m' = mk_hash_init m \<and>
     mk_hash_fn m' = mk_hash_fn m \<and> mk_pgalign m' = mk_pgalign m \<and> mk_hp m' = mk_hp m \<and>
     mk_fd m' = mk_fd m \<and> mk_count m' = mk_count m \<and> mk_head m' = mk_head m"

definition mk_sized :: "mcdb_make \<Rightarrow> os \<Rightarrow> bool" where
  "mk_sized m w \<longleftrightarrow> mk_fd m \<noteq> -1 \<and> mk_fsz m = mk_osz m \<and> mk_osz m \<le> o_flen w"

definition window :: "mcdb_make \<Rightarrow> os \<Rightarrow> bool" where
  "window m w \<longleftrightarrow> mk_mapped m \<and> mk_sized m w \<and> mk_offset m \<le> mk_pos m \<and>
     mk_pos m \<le> mk_offset m + mk_msz m \<and> mk_offset m + mk_msz m \<le> mk_fsz m"

lemma window_access:
  "window m w \<Longrightarrow> mk_offset m \<le> a \<Longrightarrow> a + n \<le> mk_offset m + mk_msz m \<Longrightarrow> mk_access m w a n"
  by (simp add: window_def mk_access_def mk_sized_def)

lemma file_kept_refl [simp]: "file_kept w w"
  by (simp add: file_kept_def)

lemma file_kept_trans: "file_kept w w1 \<Longrightarrow> file_kept w1 w2 \<Longrightarrow> file_kept w w2"
  by (auto simp: file_kept_def)

lemma file_kept_slice: "file_kept w w' \<Longrightarrow> a + n \<le> o_flen w \<Longrightarrow> mem_slice (o_file w') a n = mem_slice (o_file w) a n"
  by (rule mem_slice_eqI) (auto simp: file_kept_def)

lemma ext_call_willing: "ext_call w = (ok, w') \<Longrightarrow> os_willing w \<Longrightarrow> ok"
  by (auto simp: ext_call_def os_willing_def Let_def split: if_splits)

lemma fallocate_props:
  assumes "os_fallocate off len w = (r, w')"
  shows "os_same w w' \<and> o_live w' = o_live w \<and> o_fresh w' = o_fresh w \<and> file_kept w w' \<and>
         (r = 0 \<longrightarrow> off + len \<le> o_flen w') \<and> (os_willing w \<longrightarrow> r = 0)"
proof (cases "o_fail w (o_step w) = 0")
  case True
  then have "r = 0" "w' = (if o_flen w < off + len then set_flen (off + len) (w\<lparr>o_step := Suc (o_step w)\<rparr>)
      else w\<lparr>o_step := Suc (o_step w)\<rparr>)"
    using assms by (simp_all add: os_fallocate_def Let_def)
  then show ?thesis by (simp add: os_same_def file_kept_def set_flen_def)
next
  case False
  then have "r = o_fail w (o_step w)" "w' = w\<lparr>o_step := Suc (o_step w)\<rparr>"
    using assms by (simp_all add: os_fallocate_def Let_def)
  with False show ?thesis by (auto simp: os_same_def file_kept_def os_willing_def)
qed

subsection \<open>Moving the mapping\<close>

lemma ext_call_props:
  assumes "ext_call w = (ok, w')"
  shows "os_same w w' \<and> o_live w' = o_live w \<and> o_fresh w' = o_fresh w \<and> file_kept w w' \<and>
         o_flen w' = o_flen w \<and> o_file w' = o_file w \<and> (os_willing w \<longrightarrow> ok)"
  using ext_call_frame [OF assms] ext_call_willing [OF assms] by (auto simp: os_same_def file_kept_def)

text \<open>The relation between the states before and after a sequence of calls that may fail.\<close>

definition calls :: "os \<Rightarrow> bool \<Rightarrow> os \<Rightarrow> bool" where
  "calls w ok w' \<longleftrightarrow> os_same w w' \<and> o_live w' = o_live w \<and> o_fresh w' = o_fresh w \<and> file_kept w w' \<and>
     (os_willing w \<longrightarrow> ok)"

lemma calls_refl [simp]: "calls w True w"
  by (simp add: calls_def os_same_def)

lemma calls_trans:
  assumes "calls w ok w1" "ok \<Longrightarrow> calls w1 ok' w'" "\<not> ok \<Longrightarrow> \<not> ok' \<and> w' = w1"
  shows "calls w ok' w'"
  using assms by (cases ok) (auto simp: calls_def os_same_def os_willing_def intro: file_kept_trans)

lemma calls_ext: "ext_call w = (ok, w') \<Longrightarrow> calls w ok w'"
  using ext_call_props by (auto simp: calls_def)

lemma calls_kept: "calls w ok w' \<Longrightarrow> file_kept w w'"
  by (simp add: calls_def)

lemma calls_fallocate: "os_fallocate off len w = (r, w') \<Longrightarrow> calls w (r = 0) (w'\<lparr>o_errno := e\<rparr>)"
  using fallocate_props [of off len w r w'] by (auto simp: calls_def os_same_def file_kept_def)

lemma upsize_file_props:
  assumes up: "upsize_file m offset msz w = (ok, m', w')" and sized: "mk_sized m w"
  shows "mk_same m m' \<and> calls w ok w' \<and> (ok \<longrightarrow> mk_sized m' w' \<and> offset + msz \<le> mk_fsz m')"
proof (cases "mk_fsz m < offset + msz")
  case False
  with up sized show ?thesis by (auto simp: upsize_file_def mk_same_def)
next
  case True
  define blk where "blk = (if mk_offset m \<noteq> 0 then MCDB_BLOCK_SZ else MCDB_MMAP_SZ)"
  define fsz where "fsz = (offset + msz + (blk - 1)) div blk * blk"
  have fsz: "offset + msz \<le> fsz"
    unfolding fsz_def by (rule round_up_ge) (simp add: blk_def mcdb_consts)
  obtain r w1 where fa: "os_fallocate (mk_osz m) (fsz - mk_osz m) w = (r, w1)" by fastforce
  have res: "(ok, m', w') = (r = 0, if r = 0 then m\<lparr>mk_fsz := fsz, mk_osz := fsz\<rparr> else m\<lparr>mk_fsz := fsz\<rparr>,
                             w1\<lparr>o_errno := r\<rparr>)"
    using up True sized fa unfolding upsize_file_def Let_def blk_def [symmetric] fsz_def [symmetric]
    by (auto simp: mk_sized_def split: if_splits)
  then show ?thesis
    using fallocate_props [OF fa] calls_fallocate [OF fa, of r] sized fsz True
    by (auto simp: mk_sized_def mk_same_def)
qed

lemma upsize_unmap_props:
  assumes "upsize_unmap m w = (ok, m', w')"
  shows "mk_same m m' \<and> calls w ok w' \<and> mk_fsz m' = mk_fsz m \<and> mk_osz m' = mk_osz m"
proof (cases "mk_mapped m")
  case False
  with assms show ?thesis by (auto simp: upsize_unmap_def mk_same_def)
next
  case True
  define sync where "sync = (if mk_fd m = -1 \<or> mk_pos m - mk_offset m = 0 then (True, w) else ext_call w)"
  obtain ok1 w1 where s1: "sync = (ok1, w1)" by fastforce
  then have c1: "calls w ok1 w1" by (auto simp: sync_def calls_ext split: if_splits)
  obtain ok2 w2 where s2: "(if ok1 then ext_call w1 else (False, w1)) = (ok2, w2)" by fastforce
  have "calls w ok2 w2"
    by (rule calls_trans [OF c1]) (use s2 calls_ext in \<open>auto split: if_splits\<close>)
  moreover have "(ok, m', w') = (ok2, if ok2 then m\<lparr>mk_mapped := False\<rparr> else m, w2)"
    using assms True unfolding upsize_unmap_def Let_def sync_def [symmetric] s1 by (auto simp: s2 split: if_splits)
  ultimately show ?thesis by (auto simp: mk_same_def)
qed

lemma mk_same_trans: "mk_same m m1 \<Longrightarrow> mk_same m1 m2 \<Longrightarrow> mk_same m m2"
  by (simp add: mk_same_def)

lemma upsize_props:
  assumes up: "mcdb_mmap_upsize m sz w = (ok, m', w')"
    and sized: "mk_sized m w" and mask: "mk_pgalign m = page_mask pk" "pk \<le> 30"
    and sz: "mk_pos m \<le> sz" "sz < 2 ^ 62"
  shows "mk_same m m' \<and> calls w ok w' \<and> (ok \<longrightarrow> window m' w' \<and> sz \<le> mk_offset m' + mk_msz m')"
proof -
  define off where "off = pg_down (mk_pgalign m) (mk_pos m)"
  define msz where "msz = (if MCDB_MMAP_SZ > sz - off then MCDB_MMAP_SZ else pg_up (mk_pgalign m) (sz - off))"
  have off: "off \<le> mk_pos m" using sz mask by (simp add: pg_down_le off_def)
  have "sz - off < 2 ^ 62" using sz(2) by (rule le_less_trans [OF diff_le_self])
  then have msz: "sz \<le> off + msz"
    using pg_up_ge(1) [of "sz - off" pk] mask by (auto simp: msz_def)
  obtain ok1 m1 w1 where f: "upsize_file m off msz w = (ok1, m1, w1)" by (metis prod_cases3)
  obtain ok2 m2 w2 where u: "upsize_unmap m1 w1 = (ok2, m2, w2)" by (metis prod_cases3)
  obtain ok3 w3 where e: "ext_call w2 = (ok3, w3)" by fastforce
  note F = upsize_file_props [OF f sized] and U = upsize_unmap_props [OF u] and E = calls_ext [OF e]
  have same: "mk_same m m1" "mk_same m m2" using F U mk_same_trans by blast+
  have fd: "mk_fd m2 \<noteq> -1" using same sized by (simp add: mk_same_def mk_sized_def)
  have up': "(ok, m', w') = (if \<not> ok1 then (False, m1, w1) else if \<not> ok2 then (False, m2, w2)
      else (ok3, if ok3 then m2\<lparr>mk_mapped := True, mk_offset := off, mk_msz := msz\<rparr> else m2, w3))"
    using up fd by (auto simp: mcdb_mmap_upsize_def Let_def off_def [symmetric] msz_def [symmetric] f u e)
  show ?thesis
  proof (cases "ok1 \<and> ok2")
    case False
    then show ?thesis using up' same F U calls_trans by (auto split: if_splits intro: calls_trans)
  next
    case True
    then have c: "calls w ok3 w3" using F U E by (auto intro: calls_trans)
    have win: "window m' w'" if ok3
      using that True up' F U same off msz sz calls_kept [OF E] U calls_kept [of w1 ok2 w2]
      by (auto simp: window_def mk_sized_def mk_same_def file_kept_def)
    show ?thesis using True up' c same win msz by (auto simp: mk_same_def)
  qed
qed

end
