(* ===== verification/Make_Lists.thy ===== *)
theory Make_Lists
  imports Make_Window
begin

text \<open>
  The per-slot lists of hash entries: every slot's chain holds that slot's entries in blocks of
  250, newest block first; the array blocks reachable from slot 0 are exactly the blocks the
  writer has allocated, so that destruction gives every one back.
\<close>

subsection \<open>Blocks\<close>

lemma os_free_list_mset:
  assumes "mset ps \<subseteq># mset (o_live w)"
  shows "\<exists>live. os_free_list ps w = Some (w\<lparr>o_live := live\<rparr>) \<and> mset live = mset (o_live w) - mset ps"
  using assms
proof (induction ps arbitrary: w)
  case Nil
  then show ?case by (auto intro: exI [of _ "o_live w"])
next
  case (Cons p ps)
  then have p: "p \<in> set (o_live w)" by (metis mset_subset_eqD list.set_intros(1) set_mset_mset)
  have "mset ps \<subseteq># mset (o_live (w\<lparr>o_live := remove1 p (o_live w)\<rparr>))"
    using Cons.prems p by (simp add: insert_subset_eq_iff)
  from Cons.IH [OF this] p show ?case by (auto simp: os_free_def)
qed

text \<open>
  The blocks of the writer beside those (\<^term>\<open>base\<close>) that were live before it started.
\<close>

definition owns_blocks :: "nat multiset \<Rightarrow> mcdb_make \<Rightarrow> os \<Rightarrow> bool" where
  "owns_blocks base m w \<longleftrightarrow> (\<exists>x xs ps. mk_head m 0 = x # xs \<and> hl_pend x = Some ps \<and>
     mset (o_live w) = base + mset ps + mset (map hl_blk (x # xs)))"

lemma owns_blocks_cong:
  "owns_blocks base m w \<Longrightarrow> mk_head m' 0 = mk_head m 0 \<Longrightarrow> o_live w' = o_live w \<Longrightarrow> owns_blocks base m' w'"
  by (simp add: owns_blocks_def)

lemma destroy_returns_blocks:
  assumes "owns_blocks base m w"
  shows "\<exists>rc m' w'. mcdb_make_destroy m w = Some (rc, m', w') \<and> rc \<in> {0, -1} \<and> mset (o_live w') = base \<and>
    o_file w' = o_file w \<and> o_flen w' = o_flen w \<and> os_same w w' \<and> (os_willing w \<longrightarrow> rc = 0)"
proof -
  obtain ok w0 where e: "ext_call w = (ok, w0)" by fastforce
  note E = ext_call_props [OF e]
  define st where "st = (if mk_mapped m \<and> mk_fd m \<noteq> -1 then
           (let errsave = o_errno w; (ok, w') = ext_call w
            in (if ok then 0 else -1, m\<lparr>mk_mapped := False\<rparr>,
                if errsave \<noteq> 0 then w'\<lparr>o_errno := errsave\<rparr> else w'))
         else (0 :: int, m, w))"
  obtain rc m1 w1 where first: "st = (rc, m1, w1)" by (cases st)
  then have props: "rc \<in> {0, -1}" "mk_head m1 = mk_head m" "o_live w1 = o_live w" "o_file w1 = o_file w"
    "o_flen w1 = o_flen w" "os_same w w1" "os_willing w \<Longrightarrow> rc = 0"
    using E unfolding st_def Let_def e by (auto simp: os_same_def split: if_splits)
  obtain x xs ps where head: "mk_head m 0 = x # xs" "hl_pend x = Some ps"
    "mset (o_live w) = base + mset ps + mset (map hl_blk (x # xs))"
    using assms by (auto simp: owns_blocks_def)
  obtain l1 where l1: "os_free_list ps w1 = Some (w1\<lparr>o_live := l1\<rparr>)" "mset l1 = mset (o_live w) - mset ps"
    using os_free_list_mset [of ps w1] head props by auto
  obtain l2 where l2: "os_free_list (map hl_blk (x # xs)) (w1\<lparr>o_live := l1\<rparr>) = Some (w1\<lparr>o_live := l2\<rparr>)"
      "mset l2 = mset l1 - mset (map hl_blk (x # xs))"
    using os_free_list_mset [of "map hl_blk (x # xs)" "w1\<lparr>o_live := l1\<rparr>"] head l1 by auto
  have "mcdb_make_destroy m w = Some (rc, m1\<lparr>mk_head := (\<lambda>_. [])\<rparr>, w1\<lparr>o_live := l2\<rparr>)"
    unfolding mcdb_make_destroy_def st_def [symmetric] first
    using l1 l2 head props(2) by (simp del: os_free_list.simps list.map)
  then show ?thesis using props l1 l2 head by (auto simp: os_same_def)
qed

subsection \<open>The lists of the slots\<close>

text \<open>
  Slot \<^term>\<open>i\<close> of the writer holds the entries \<^term>\<open>es\<close>.  A full newest list is only
  possible for the slot of the last entry, and then the flag in \<^verbatim>\<open>hp.l\<close> is up.
\<close>

definition slot_lists :: "mcdb_hp list \<Rightarrow> mcdb_make \<Rightarrow> nat \<Rightarrow> bool" where
  "slot_lists es m i \<longleftrightarrow> (\<exists>bs x xs. mk_head m i = x # xs \<and> map hl_hps xs = rev bs \<and>
     es = concat bs @ hl_hps x \<and> (\<forall>b \<in> set bs. length b = MCDB_HPLIST) \<and>
     length (hl_hps x) \<le> MCDB_HPLIST \<and> hl_pend x \<noteq> None \<and>
     (length (hl_hps x) = MCDB_HPLIST \<longrightarrow> hp_l (mk_hp m) = -1 \<and> slot_of (hp_h (mk_hp m)) = i))"

definition lists_ok :: "mcdb_hp list \<Rightarrow> mcdb_make \<Rightarrow> bool" where
  "lists_ok es m \<longleftrightarrow> (\<forall>i < MCDB_SLOTS. slot_lists (slot_hps es i) m i \<and>
     mk_count m i = word_of_nat (length (slot_hps es i)))"

text \<open>No newest list is full.\<close>

definition lists_room :: "mcdb_make \<Rightarrow> bool" where
  "lists_room m \<longleftrightarrow> (\<forall>i < MCDB_SLOTS. length (hl_hps (hd (mk_head m i))) < MCDB_HPLIST)"

lemma slot_lists_entries: "slot_lists es m i \<Longrightarrow> slot_entries m i = newest_first es"
  by (auto simp: slot_lists_def slot_entries_def newest_first_blocks)

lemma slot_lists_cong:
  "slot_lists es m i \<Longrightarrow> mk_head m' i = mk_head m i \<Longrightarrow>
   mk_hp m' = mk_hp m \<or> length (hl_hps (hd (mk_head m i))) < MCDB_HPLIST \<Longrightarrow> slot_lists es m' i"
  by (auto simp: slot_lists_def)

lemma lists_ok_cong:
  "lists_ok es m \<Longrightarrow> mk_head m' = mk_head m \<Longrightarrow> mk_count m' = mk_count m \<Longrightarrow>
   mk_hp m' = mk_hp m \<or> lists_room m \<Longrightarrow> lists_ok es m'"
  by (auto simp: lists_ok_def lists_room_def intro: slot_lists_cong)

lemma lists_room_cong: "lists_room m \<Longrightarrow> mk_head m' = mk_head m \<Longrightarrow> lists_room m'"
  by (simp add: lists_room_def)

lemma lists_roomI: "lists_ok es m \<Longrightarrow> hp_l (mk_hp m) \<noteq> -1 \<Longrightarrow> lists_room m"
  unfolding lists_ok_def lists_room_def slot_lists_def by fastforce

lemma sum_counts:
  assumes "lists_ok es m"
  shows "sum_list (map (mk_count m) [0..<MCDB_SLOTS]) = word_of_nat (length es)"
proof -
  have "sum_list (map (mk_count m) [0..<n]) = word_of_nat (length (filter (\<lambda>e. slot_of (hp_h e) < n) es))"
    if "n \<le> MCDB_SLOTS" for n
    using that
  proof (induction n)
    case (Suc n)
    have "length (filter (\<lambda>e. slot_of (hp_h e) < Suc n) es)
        = length (filter (\<lambda>e. slot_of (hp_h e) < n) es) + length (slot_hps es n)"
      unfolding slot_hps_def by (induction es) auto
    with Suc assms show ?case by (simp add: lists_ok_def)
  qed simp
  from this [of MCDB_SLOTS] show ?thesis by (simp add: filter_True)
qed

subsection \<open>Allocating lists\<close>

lemma malloc_props:
  assumes "os_malloc w = (r, w')"
  shows "os_same w w' \<and> o_file w' = o_file w \<and> o_flen w' = o_flen w \<and>
    o_live w' = (case r of None \<Rightarrow> o_live w | Some p \<Rightarrow> p # o_live w) \<and> (os_willing w \<longrightarrow> r \<noteq> None)"
proof -
  obtain ok w0 where e: "ext_call w = (ok, w0)" by fastforce
  then show ?thesis using assms ext_call_props [OF e] by (auto simp: os_malloc_def os_same_def split: if_splits)
qed

text \<open>The two steps of \<^verbatim>\<open>mcdb_hplist_alloc\<close> on one slot.\<close>

lemma slot_lists_push:
  assumes "slot_lists es m i" "mk_head m i = x # xs" "length (hl_hps x) = MCDB_HPLIST"
    and "mk_head m' i = \<lparr>hl_blk = blk, hl_hps = [], hl_pend = Some ps\<rparr> # x # xs"
  shows "slot_lists es m' i"
proof -
  from assms(1,2) obtain bs where "map hl_hps xs = rev bs" "es = concat bs @ hl_hps x"
    "\<forall>b \<in> set bs. length b = MCDB_HPLIST" by (auto simp: slot_lists_def)
  with assms(3,4) show ?thesis
    unfolding slot_lists_def
    by (intro exI [of _ "bs @ [hl_hps x]"]) (auto simp: MCDB_HPLIST_def)
qed

lemma slot_lists_pend:
  assumes "slot_lists es m i" "mk_head m i = x # xs" "mk_head m' i = x\<lparr>hl_pend := Some ps\<rparr> # xs"
    and "length (hl_hps x) < MCDB_HPLIST"
  shows "slot_lists es m' i"
  using assms by (auto simp: slot_lists_def)

lemma full_slot:
  assumes "lists_ok es m" "i < MCDB_SLOTS" "i \<noteq> slot_of (hp_h (mk_hp m))"
  shows "length (hl_hps (hd (mk_head m i))) < MCDB_HPLIST"
  using assms unfolding lists_ok_def slot_lists_def by fastforce

text \<open>What an allocation leaves alone: everything but the lists and \<^verbatim>\<open>errno\<close>.\<close>

definition only_head :: "mcdb_make \<Rightarrow> mcdb_make \<Rightarrow> bool" where
  "only_head m m' \<longleftrightarrow> m' = m\<lparr>mk_head := mk_head m'\<rparr>"

lemma alloc_pending:
  assumes ok: "lists_ok es m" and own: "owns_blocks base m w"
    and full: "length (hl_hps x) = MCDB_HPLIST"
    and head: "mk_head m (slot_of (hp_h (mk_hp m))) = x # xs" "hl_pend x = Some (p # ps)"
  shows "\<exists>m'. mcdb_hplist_alloc m w = Some (True, m', w) \<and> lists_ok es m' \<and> lists_room m' \<and>
    owns_blocks base m' w \<and> only_head m m'"
proof -
  define i where "i = slot_of (hp_h (mk_hp m))"
  define m' where "m' = m\<lparr>mk_head := (mk_head m)(i := \<lparr>hl_blk = p, hl_hps = [], hl_pend = Some ps\<rparr> # x # xs)\<rparr>"
  have "mcdb_hplist_alloc m w = Some (True, m', w)"
    using head by (simp add: mcdb_hplist_alloc_def m'_def i_def)
  moreover have "slot_lists (slot_hps es j) m' j" if "j < MCDB_SLOTS" for j
  proof (cases "j = i")
    case True
    have "slot_lists (slot_hps es i) m i" using ok that True by (simp add: lists_ok_def)
    then show ?thesis unfolding True
      by (rule slot_lists_push [OF _ head(1) [folded i_def] full]) (simp add: m'_def)
  next
    case False
    then show ?thesis
      using ok that by (auto simp: lists_ok_def m'_def intro: slot_lists_cong)
  qed
  then have "lists_ok es m'" using ok by (simp add: lists_ok_def m'_def)
  moreover have "lists_room m'"
    using full_slot [OF ok] by (auto simp: lists_room_def m'_def i_def MCDB_HPLIST_def)
  moreover have "owns_blocks base m' w"
    using own head by (cases "i = 0") (auto simp: owns_blocks_def m'_def i_def)
  ultimately show ?thesis by (auto simp: only_head_def m'_def)
qed

lemma slot_lists_grow:
  assumes "slot_lists es m i" "hl_pend (hd (mk_head m i)) = Some qs"
    and "length (hl_hps (hd (mk_head m i))) = MCDB_HPLIST \<Longrightarrow> qs = []"
    and "mk_head m' i = (if length (hl_hps (hd (mk_head m i))) \<noteq> MCDB_HPLIST
           then (hd (mk_head m i))\<lparr>hl_pend := map_option (\<lambda>ps. blk # ps) (hl_pend (hd (mk_head m i)))\<rparr> # tl (mk_head m i)
           else \<lparr>hl_blk = blk, hl_hps = [], hl_pend = Some []\<rparr> # mk_head m i)"
  shows "slot_lists es m' i" "length (hl_hps (hd (mk_head m' i))) < MCDB_HPLIST"
proof -
  obtain x xs where x: "mk_head m i = x # xs" "length (hl_hps x) \<le> MCDB_HPLIST"
    using assms(1) by (auto simp: slot_lists_def)
  show "slot_lists es m' i"
  proof (cases "length (hl_hps x) = MCDB_HPLIST")
    case True
    with assms x show ?thesis by (intro slot_lists_push [OF assms(1)]) auto
  next
    case False
    with assms x show ?thesis by (intro slot_lists_pend [OF assms(1)]) auto
  qed
  show "length (hl_hps (hd (mk_head m' i))) < MCDB_HPLIST"
    using assms x by (auto simp: MCDB_HPLIST_def)
qed

lemma alloc_more:
  assumes ok: "lists_ok es m" and own: "owns_blocks base m w"
    and head: "mk_head m (slot_of (hp_h (mk_hp m))) = x # xs" "hl_pend x = Some []"
  shows "\<exists>r m' w'. mcdb_hplist_alloc m w = Some (r, m', w') \<and> lists_ok es m' \<and> (r \<longrightarrow> lists_room m') \<and>
    owns_blocks base m' w' \<and> only_head m m' \<and> os_same w w' \<and> o_file w' = o_file w \<and> o_flen w' = o_flen w \<and>
    (os_willing w \<and> length es < INT_MAX \<longrightarrow> r)"
proof -
  obtain r w1 where ma: "os_malloc w = (r, w1)" by fastforce
  note M = malloc_props [OF ma]
  show ?thesis
  proof (cases r)
    case None
    then show ?thesis using M ma head ok own
      by (auto simp: mcdb_hplist_alloc_def only_head_def intro: owns_blocks_cong)
  next
    case (Some blk)
    define grow where "grow j = (if length (hl_hps (hd (mk_head m j))) \<noteq> MCDB_HPLIST
           then (hd (mk_head m j))\<lparr>hl_pend := map_option (\<lambda>ps. blk # ps) (hl_pend (hd (mk_head m j)))\<rparr> # tl (mk_head m j)
           else \<lparr>hl_blk = blk, hl_hps = [], hl_pend = Some []\<rparr> # mk_head m j)" for j
    define m' where "m' = m\<lparr>mk_head := (\<lambda>j. if j < MCDB_SLOTS then grow j else mk_head m j)\<rparr>"
    have ne: "mk_head m j \<noteq> [] \<and> hl_pend (hd (mk_head m j)) \<noteq> None" if "j < MCDB_SLOTS" for j
      using ok that by (fastforce simp: lists_ok_def slot_lists_def)
    have empty: "qs = []" if "length (hl_hps (hd (mk_head m j))) = MCDB_HPLIST" "j < MCDB_SLOTS"
      "hl_pend (hd (mk_head m j)) = Some qs" for j qs
      using full_slot [OF ok that(2)] that head by fastforce
    have slot: "slot_lists (slot_hps es j) m' j \<and> length (hl_hps (hd (mk_head m' j))) < MCDB_HPLIST"
      if "j < MCDB_SLOTS" for j
    proof -
      obtain qs where qs: "hl_pend (hd (mk_head m j)) = Some qs" using ne [OF \<open>j < MCDB_SLOTS\<close>] by auto
      have "slot_lists (slot_hps es j) m j" using ok that by (simp add: lists_ok_def)
      moreover have "mk_head m' j = grow j" using that by (simp add: m'_def)
      ultimately show ?thesis
        using slot_lists_grow [OF _ qs empty [OF _ that qs], of _ m' blk] by (simp only: grow_def)
    qed
    have "owns_blocks base m' w1"
    proof -
      obtain y ys qs where own: "mk_head m 0 = y # ys" "hl_pend y = Some qs"
        "mset (o_live w) = base + mset qs + mset (map hl_blk (y # ys))"
        using own by (auto simp: owns_blocks_def)
      with empty [of 0 qs] Some M show ?thesis
        by (auto simp: owns_blocks_def m'_def grow_def)
    qed
    moreover have "lists_ok es m'" "lists_room m'" using ok slot by (simp_all add: lists_ok_def lists_room_def m'_def)
    moreover define r' where "r' \<longleftrightarrow> unat (word_of_nat (length es) :: u32) < INT_MAX"
    moreover define w' where "w' = (if r' then w1 else w1\<lparr>o_errno := ENOMEM\<rparr>)"
    moreover have "mcdb_hplist_alloc m w = Some (r', m', w')"
      using ma Some head ne sum_counts [OF ok]
      by (simp add: mcdb_hplist_alloc_def m'_def grow_def r'_def w'_def cong: if_cong)
    moreover have "length es < INT_MAX \<Longrightarrow> r'"
      by (simp add: r'_def INT_MAX_def unat_of_nat)
    moreover have "only_head m m'" by (simp add: only_head_def m'_def)
    moreover have "os_same w w' \<and> o_file w' = o_file w \<and> o_flen w' = o_flen w \<and> o_live w' = o_live w1"
      using M by (simp add: w'_def os_same_def)
    ultimately show ?thesis
      by (intro exI [of _ r'] exI [of _ m'] exI [of _ w']) (auto intro: owns_blocks_cong)
  qed
qed

lemma alloc_props:
  assumes ok: "lists_ok es m" and own: "owns_blocks base m w" and flag: "hp_l (mk_hp m) = -1 \<Longrightarrow>
      length (hl_hps (hd (mk_head m (slot_of (hp_h (mk_hp m)))))) = MCDB_HPLIST"
  obtains r m' w' where
    "(if hp_l (mk_hp m) = -1 then mcdb_hplist_alloc m w else Some (True, m, w)) = Some (r, m', w')"
    "lists_ok es m'" "r \<Longrightarrow> lists_room m'" "owns_blocks base m' w'" "only_head m m'" "os_same w w'"
    "o_file w' = o_file w" "o_flen w' = o_flen w" "os_willing w \<Longrightarrow> length es < INT_MAX \<Longrightarrow> r"
proof (cases "hp_l (mk_hp m) = -1")
  case False
  with that [of True m w] ok own lists_roomI [OF ok] show ?thesis by (simp add: only_head_def os_same_def)
next
  case True
  obtain x xs ps where x: "mk_head m (slot_of (hp_h (mk_hp m))) = x # xs" "hl_pend x = Some ps"
    using ok unfolding lists_ok_def slot_lists_def by (meson slot_of_less not_None_eq)
  show ?thesis
  proof (cases ps)
    case Nil
    with alloc_more [OF ok own x(1)] x True that show ?thesis by auto
  next
    case (Cons p qs)
    with alloc_pending [OF ok own _ x(1)] x True flag that [of True _ w] show ?thesis
      by (auto simp: os_same_def)
  qed
qed

subsection \<open>Entering a record\<close>

lemma addend_props:
  assumes ok: "lists_ok es m" and room: "lists_room m" and own: "owns_blocks base m w"
  shows "\<exists>m'. mcdb_make_addend m = Some m' \<and> lists_ok (es @ [mk_hp m]) m' \<and> owns_blocks base m' w \<and>
    m' = m\<lparr>mk_head := mk_head m', mk_count := mk_count m', mk_hp := mk_hp m'\<rparr> \<and>
    (hp_l (mk_hp m') = -1 \<and> hp_l (mk_hp m) \<noteq> -1 \<longrightarrow>
      length (hl_hps (hd (mk_head m' (slot_of (hp_h (mk_hp m')))))) = MCDB_HPLIST)"
proof -
  define i where "i = slot_of (hp_h (mk_hp m))"
  have i: "i < MCDB_SLOTS" by (simp add: i_def)
  with ok obtain x xs bs where x: "mk_head m i = x # xs" "map hl_hps xs = rev bs"
    "slot_hps es i = concat bs @ hl_hps x" "\<forall>b \<in> set bs. length b = MCDB_HPLIST" "hl_pend x \<noteq> None"
    "mk_count m i = word_of_nat (length (slot_hps es i))"
    unfolding lists_ok_def slot_lists_def by blast
  have len: "length (hl_hps x) < MCDB_HPLIST" using room i x by (auto simp: lists_room_def)
  define m' where "m' = m\<lparr>mk_head := (mk_head m)(i := x\<lparr>hl_hps := hl_hps x @ [mk_hp m]\<rparr> # xs),
     mk_count := (mk_count m)(i := mk_count m i + 1),
     mk_hp := (if length (hl_hps x) = MCDB_HPLIST - 1 then (mk_hp m)\<lparr>hp_l := -1\<rparr> else mk_hp m)\<rparr>"
  have res: "mcdb_make_addend m = Some m'"
    using x len by (simp add: mcdb_make_addend_def i_def [symmetric] m'_def)
  have "slot_lists (slot_hps (es @ [mk_hp m]) j) m' j \<and>
      mk_count m' j = word_of_nat (length (slot_hps (es @ [mk_hp m]) j))" if "j < MCDB_SLOTS" for j
  proof (cases "j = i")
    case True
    have "slot_lists (slot_hps es i @ [mk_hp m]) m' i"
      using x len unfolding slot_lists_def by (intro exI [of _ bs]) (auto simp: m'_def i_def)
    then show ?thesis unfolding True using x by (simp add: slot_hps_snoc i_def m'_def add.commute)
  next
    case False
    have "slot_lists (slot_hps es j) m' j"
      using ok that False room
      by (auto simp: lists_ok_def m'_def lists_room_def intro: slot_lists_cong)
    then show ?thesis using ok that False by (simp add: slot_hps_snoc i_def m'_def lists_ok_def)
  qed
  then have "lists_ok (es @ [mk_hp m]) m'" by (simp add: lists_ok_def)
  moreover have "owns_blocks base m' w" using own x by (cases "i = 0") (auto simp: owns_blocks_def m'_def)
  ultimately show ?thesis using res x len by (auto simp: m'_def i_def)
qed

end
