(* ===== verification/Make_Add.thy ===== *)
theory Make_Add
  imports Make_Lists
begin

text \<open>
  Adding records: the state between two records, and that \<^verbatim>\<open>mcdb_make_add\<close> either appends
  exactly the record and its hash entry or fails with everything still ready to be destroyed.
\<close>

definition make_inv :: "nat \<Rightarrow> (bytes \<Rightarrow> u32) \<Rightarrow> nat multiset \<Rightarrow> kv list \<Rightarrow> mcdb_make \<Rightarrow> os \<Rightarrow> bool" where
  "make_inv pk hf base recs m w \<longleftrightarrow> window m w \<and> mk_pgalign m = page_mask pk \<and>
     (\<forall>k. call_hash_fn (mk_hash_fn m) (mk_hash_init m) k = hf k) \<and> mk_pos m = data_end recs \<and>
     mem_slice (o_file w) MCDB_HEADER_SZ (length (data_bytes recs)) = data_bytes recs \<and>
     lists_ok (entries hf recs) m \<and> owns_blocks base m w \<and>
     (hp_l (mk_hp m) = -1 \<longrightarrow> length (hl_hps (hd (mk_head m (slot_of (hp_h (mk_hp m)))))) = MCDB_HPLIST)"

text \<open>
  Between \<^verbatim>\<open>mcdb_make_addbegin\<close> and \<^verbatim>\<open>mcdb_make_addend\<close>: the bytes \<^term>\<open>part\<close> of the
  record are written, room for \<^term>\<open>need\<close> more is mapped.
\<close>

definition adding :: "nat \<Rightarrow> (bytes \<Rightarrow> u32) \<Rightarrow> nat multiset \<Rightarrow> kv list \<Rightarrow> bytes \<Rightarrow> nat \<Rightarrow> mcdb_make \<Rightarrow> os \<Rightarrow> bool" where
  "adding pk hf base recs part need m w \<longleftrightarrow> window m w \<and> mk_pgalign m = page_mask pk \<and>
     (\<forall>k. call_hash_fn (mk_hash_fn m) (mk_hash_init m) k = hf k) \<and>
     hp_p (mk_hp m) = data_end recs \<and> mk_pos m = data_end recs + length part \<and>
     mk_offset m \<le> data_end recs \<and> mk_pos m + need \<le> mk_offset m + mk_msz m \<and>
     mem_slice (o_file w) MCDB_HEADER_SZ (length (data_bytes recs)) = data_bytes recs \<and>
     mem_slice (o_file w) (data_end recs) (length part) = part \<and>
     lists_ok (entries hf recs) m \<and> lists_room m \<and> owns_blocks base m w \<and> hp_l (mk_hp m) \<noteq> -1"

lemma adding_store:
  assumes "adding pk hf base recs part need m w" "length bs \<le> need"
  shows "\<exists>w'. mk_store m (mk_pos m) bs w = Some w' \<and> os_same w w' \<and>
    adding pk hf base recs (part @ bs) (need - length bs) (m\<lparr>mk_pos := mk_pos m + length bs\<rparr>) w'"
proof -
  let ?w' = "w\<lparr>o_file := mem_upd (o_file w) (mk_pos m) bs\<rparr>"
  have acc: "mk_access m w (mk_pos m) (length bs)"
    using assms by (intro window_access) (auto simp: adding_def)
  have data: "mem_slice (o_file ?w') MCDB_HEADER_SZ (length (data_bytes recs)) = data_bytes recs"
    using assms by (simp add: adding_def mem_slice_upd_disjoint data_end_def)
  have part: "mem_slice (o_file ?w') (data_end recs) (length part + length bs) = part @ bs"
    using assms by (simp add: adding_def mem_slice_add mem_slice_upd_disjoint)
  have win: "window (m\<lparr>mk_pos := mk_pos m + length bs\<rparr>) ?w'"
    using assms by (auto simp: adding_def window_def mk_sized_def)
  have "adding pk hf base recs (part @ bs) (need - length bs) (m\<lparr>mk_pos := mk_pos m + length bs\<rparr>) ?w'"
    using assms data part win
    by (auto simp: adding_def lists_room_def intro: lists_ok_cong owns_blocks_cong)
  with acc show ?thesis by (auto simp: mk_store_def os_same_def)
qed

lemma adding_hash:
  "adding pk hf base recs part need m w \<Longrightarrow>
   adding pk hf base recs part need (m\<lparr>mk_hp := (mk_hp m)\<lparr>hp_h := h\<rparr>\<rparr>) w"
  by (auto simp: adding_def lists_room_def window_def mk_sized_def intro: lists_ok_cong owns_blocks_cong)

lemma addbuf_data_props:
  assumes "adding pk hf base recs part need m w" "length buf \<le> need"
  shows "\<exists>m' w'. mcdb_make_addbuf_data m buf w = Some (m', w') \<and> os_same w w' \<and> mk_hp m' = mk_hp m \<and>
    mk_hash_fn m' = mk_hash_fn m \<and> mk_hash_init m' = mk_hash_init m \<and>
    adding pk hf base recs (part @ buf) (need - length buf) m' w'"
  using adding_store [OF assms] by (auto simp: mcdb_make_addbuf_data_def)

lemma addbuf_key_props:
  assumes "adding pk hf base recs part need m w" "length buf \<le> need"
  shows "\<exists>m' w'. mcdb_make_addbuf_key m buf w = Some (m', w') \<and> os_same w w' \<and>
    mk_hp m' = (mk_hp m)\<lparr>hp_h := call_hash_fn (mk_hash_fn m) (hp_h (mk_hp m)) buf\<rparr> \<and>
    mk_hash_fn m' = mk_hash_fn m \<and> mk_hash_init m' = mk_hash_init m \<and>
    adding pk hf base recs (part @ buf) (need - length buf) m' w'"
  using addbuf_data_props [OF adding_hash [OF assms(1)] assms(2)] by (auto simp: mcdb_make_addbuf_key_def)

text \<open>\<^verbatim>\<open>mcdb_make_addrevert\<close> before \<^verbatim>\<open>mcdb_make_addend\<close> discards what was written of the record.\<close>

lemma addrevert_discards:
  assumes "adding pk hf base recs part need m w"
  shows "make_inv pk hf base recs (mcdb_make_addrevert m) w"
  using assms
  by (auto simp: make_inv_def adding_def mcdb_make_addrevert_def window_def mk_sized_def
      intro: lists_ok_cong owns_blocks_cong)

lemma mk_store_pos [simp]: "mk_store (m\<lparr>mk_pos := p\<rparr>) = mk_store m"
  by (simp add: fun_eq_iff mk_store_def mk_access_def)

lemma adding_header:
  assumes P: "plasma_bigendian P" and add: "adding pk hf base recs [] (8 + kl + dl) m w"
    and len: "kl < 4294967296" "dl < 4294967296"
  shows "\<exists>w1 w2. mk_store m (mk_pos m) (uint32_strpack_bigendian_macro P (word_of_nat kl)) w = Some w1 \<and>
    mk_store m (mk_pos m + 4) (uint32_strpack_bigendian_macro P (word_of_nat dl)) w1 = Some w2 \<and> os_same w w2 \<and>
    adding pk hf base recs (be_bytes 4 kl @ be_bytes 4 dl) (kl + dl) (m\<lparr>mk_pos := mk_pos m + 8\<rparr>) w2"
proof -
  obtain w1 where w1: "mk_store m (mk_pos m) (be_bytes 4 kl) w = Some w1" "os_same w w1"
    "adding pk hf base recs (be_bytes 4 kl) (4 + kl + dl) (m\<lparr>mk_pos := mk_pos m + 4\<rparr>) w1"
    using adding_store [OF add, of "be_bytes 4 kl"] by (auto simp: add.assoc)
  obtain w2 where "mk_store m (mk_pos m + 4) (be_bytes 4 dl) w1 = Some w2" "os_same w1 w2"
    "adding pk hf base recs (be_bytes 4 kl @ be_bytes 4 dl) (kl + dl) (m\<lparr>mk_pos := mk_pos m + 8\<rparr>) w2"
    using adding_store [OF w1(3), of "be_bytes 4 dl"] by (auto simp: add.commute)
  with w1 len P show ?thesis by (auto simp: be_simps unat_of_nat_u32 os_same_def)
qed

text \<open>What \<^verbatim>\<open>mcdb_make_addbegin\<close> does once lists and lengths are in order.\<close>

lemma upsize_for_add:
  assumes inv: "window m w" "mk_pgalign m = page_mask pk" "pk \<le> 30"
    and pos: "mk_pos m = p" and sz: "p + len < 2 ^ 62"
  obtains ok m' w' where
    "(if mk_offset m + mk_msz m < p + len then mcdb_mmap_upsize m (p + len) w
      else (True, m, w)) = (ok, m', w')"
    "mk_same m m'" "calls w ok w'" "ok \<Longrightarrow> window m' w'" "ok \<Longrightarrow> p + len \<le> mk_offset m' + mk_msz m'"
proof (cases "mk_offset m + mk_msz m < p + len")
  case False
  with that [of True m w] inv show ?thesis by (simp add: mk_same_def)
next
  case True
  obtain ok m' w' where up: "mcdb_mmap_upsize m (p + len) w = (ok, m', w')" by (metis prod_cases3)
  have "mk_sized m w" using inv by (simp add: window_def)
  from upsize_props [OF up this inv(2,3)] pos sz True up that show ?thesis by auto
qed

lemma addbegin_props:
  assumes P: "plasma_bigendian P" and inv: "make_inv pk hf base recs m w" and pk: "pk \<le> 30"
    and sz: "data_end recs + (8 + kl + dl) < 2 ^ 62"
  shows "\<exists>rc m' w'. mcdb_make_addbegin P m kl dl w = Some (rc, m', w') \<and> os_same w w' \<and> owns_blocks base m' w' \<and>
    (rc = 0 \<and> kl \<le> INT_MAX - 8 \<and> dl \<le> INT_MAX - 8 \<and> hp_h (mk_hp m') = mk_hash_init m' \<and>
       hp_l (mk_hp m') = word_of_nat kl \<and>
       adding pk hf base recs (be_bytes 4 kl @ be_bytes 4 dl) (kl + dl) m' w' \<or> rc = -1) \<and>
    (os_willing w \<and> length recs < INT_MAX \<and> kl \<le> INT_MAX - 8 \<and> dl \<le> INT_MAX - 8 \<longrightarrow> rc = 0)"
proof -
  have pos: "mk_pos m = data_end recs" and win: "window m w" using inv by (simp_all add: make_inv_def)
  obtain r m1 w1 where al: "(if hp_l (mk_hp m) = -1 then mcdb_hplist_alloc m w else Some (True, m, w)) = Some (r, m1, w1)"
    and A: "lists_ok (entries hf recs) m1" "r \<Longrightarrow> lists_room m1" "owns_blocks base m1 w1" "only_head m m1" "os_same w w1"
    "o_file w1 = o_file w" "o_flen w1 = o_flen w" "os_willing w \<Longrightarrow> length (entries hf recs) < INT_MAX \<Longrightarrow> r"
    using inv by (auto simp: make_inv_def intro: alloc_props [of "entries hf recs" m base w])
  have m1: "mk_mapped m1" "mk_fd m1 = mk_fd m" "mk_hash_init m1 = mk_hash_init m" "mk_hash_fn m1 = mk_hash_fn m"
    "mk_pos m1 = data_end recs" "mk_pgalign m1 = page_mask pk" "window m1 w1"
    "mk_offset m1 = mk_offset m" "mk_msz m1 = mk_msz m"
  proof -
    from A(4) obtain h where "m1 = m\<lparr>mk_head := h\<rparr>" by (auto simp: only_head_def)
    then show "mk_mapped m1" "mk_fd m1 = mk_fd m" "mk_hash_init m1 = mk_hash_init m" "mk_hash_fn m1 = mk_hash_fn m"
      "mk_pos m1 = data_end recs" "mk_pgalign m1 = page_mask pk" "window m1 w1"
      "mk_offset m1 = mk_offset m" "mk_msz m1 = mk_msz m"
      using A(7) inv by (simp_all add: make_inv_def window_def mk_sized_def)
  qed
  show ?thesis
  proof (cases "r \<and> kl \<le> INT_MAX - 8 \<and> dl \<le> INT_MAX - 8")
    case False
    then show ?thesis
      using al A inv win m1
      by (auto simp: mcdb_make_addbegin_def mcdb_make_err_null_def window_def mk_sized_def os_same_def Let_def
          intro: owns_blocks_cong)
  next
    case True
    define m3 where "m3 = m1\<lparr>mk_hp := (mk_hp m1)\<lparr>hp_p := data_end recs, hp_h := mk_hash_init m1, hp_l := word_of_nat kl\<rparr>\<rparr>"
    have win3: "window m3 w1" using m1(7) by (simp add: m3_def window_def mk_sized_def)
    have lists3: "lists_ok (entries hf recs) m3" "lists_room m3"
      using A(1,2) True by (auto simp: m3_def intro: lists_ok_cong lists_room_cong)
    obtain ok m4 w2 where up: "(if mk_offset m3 + mk_msz m3 < data_end recs + (8 + kl + dl)
          then mcdb_mmap_upsize m3 (data_end recs + (8 + kl + dl)) w1 else (True, m3, w1)) = (ok, m4, w2)"
      and U: "mk_same m3 m4" "calls w1 ok w2" "ok \<Longrightarrow> window m4 w2"
        "ok \<Longrightarrow> data_end recs + (8 + kl + dl) \<le> mk_offset m4 + mk_msz m4"
      by (rule upsize_for_add [OF win3 _ pk _ sz]) (use m1 in \<open>simp_all add: m3_def\<close>)
    have mapped: "mk_mapped m" using win by (simp add: window_def)
    have run: "mcdb_make_addbegin P m kl dl w = (if \<not> ok then mcdb_make_err_null m4 (o_errno w2) w2 else do {
        w3 \<leftarrow> mk_store m4 (data_end recs) (uint32_strpack_bigendian_macro P (word_of_nat kl)) w2;
        w4 \<leftarrow> mk_store m4 (data_end recs + 4) (uint32_strpack_bigendian_macro P (word_of_nat dl)) w3;
        Some (0, m4\<lparr>mk_pos := mk_pos m4 + 8\<rparr>, w4) })"
      using up [unfolded m3_def] True al mapped
      by (simp add: mcdb_make_addbegin_def Let_def pos add.assoc cong: if_cong)
    have own: "owns_blocks base m4 w2"
      using A(3) U by (auto simp: m3_def mk_same_def calls_def intro: owns_blocks_cong)
    have os: "os_same w w2" using A(5) U by (auto simp: calls_def os_same_def)
    show ?thesis
    proof (cases ok)
      case False
      have "mcdb_make_addbegin P m kl dl w = Some (-1, m4, w2)"
        using run False by (simp add: mcdb_make_err_null_def)
      moreover have "\<not> os_willing w" using False U(2) A(5) by (auto simp: calls_def os_willing_def os_same_def)
      ultimately show ?thesis using own os by auto
    next
      case ok: True
      have nolimit: "(word_of_nat kl :: u32) \<noteq> -1"
        using True by (intro of_nat_not_all_ones) (simp add: INT_MAX_def)
      have "mem_slice (o_file w2) MCDB_HEADER_SZ (length (data_bytes recs)) = data_bytes recs"
        using inv A(6,7) U(2) win pos by (subst file_kept_slice [of w1])
          (auto simp: calls_def make_inv_def window_def mk_sized_def data_end_def)
      then have "adding pk hf base recs [] (8 + kl + dl) m4 w2"
        using U(1) U(3,4) [OF ok] own lists3 nolimit inv m1
        by (auto simp: adding_def mk_same_def m3_def make_inv_def window_def
            intro: lists_ok_cong [of _ m3] lists_room_cong [of m3])
      from adding_header [OF P this] obtain w3 w4 where
        w: "mk_store m4 (mk_pos m4) (uint32_strpack_bigendian_macro P (word_of_nat kl)) w2 = Some w3"
        "mk_store m4 (mk_pos m4 + 4) (uint32_strpack_bigendian_macro P (word_of_nat dl)) w3 = Some w4"
        "os_same w2 w4"
        "adding pk hf base recs (be_bytes 4 kl @ be_bytes 4 dl) (kl + dl) (m4\<lparr>mk_pos := mk_pos m4 + 8\<rparr>) w4"
        using True by (auto simp: INT_MAX_def)
      have p4: "mk_pos m4 = data_end recs" "mk_hash_init m4 = mk_hash_init m1" "mk_hp m4 = mk_hp m3"
        using U(1) m1 by (simp_all add: mk_same_def m3_def)
      have "mcdb_make_addbegin P m kl dl w = Some (0, m4\<lparr>mk_pos := mk_pos m4 + 8\<rparr>, w4)"
        using run ok w p4 by simp
      then show ?thesis using w os True m1 p4
        by (auto simp: adding_def os_same_def m3_def)
    qed
  qed
qed

text \<open>A whole record.\<close>

lemma addend_adding:
  assumes add: "adding pk hf base recs (rec_bytes (key, data)) 0 m w" and h: "hp_h (mk_hp m) = hf key"
    and l: "hp_l (mk_hp m) = word_of_nat (length key)"
  shows "\<exists>m'. mcdb_make_addend m = Some m' \<and> make_inv pk hf base (recs @ [(key, data)]) m' w"
proof -
  have hp: "mk_hp m = \<lparr>hp_p = data_end recs, hp_h = hf key, hp_l = word_of_nat (length key)\<rparr>"
    using add h l by (simp add: adding_def)
  have es: "entries hf (recs @ [(key, data)]) = entries hf recs @ [mk_hp m]"
    by (simp add: entries_snoc hp)
  obtain m' where m': "mcdb_make_addend m = Some m'" "lists_ok (entries hf recs @ [mk_hp m]) m'"
    "owns_blocks base m' w" "m' = m\<lparr>mk_head := mk_head m', mk_count := mk_count m', mk_hp := mk_hp m'\<rparr>"
    "hp_l (mk_hp m') = -1 \<Longrightarrow> length (hl_hps (hd (mk_head m' (slot_of (hp_h (mk_hp m')))))) = MCDB_HPLIST"
    using addend_props [of "entries hf recs" m base w] add by (auto simp: adding_def)
  have data: "mem_slice (o_file w) MCDB_HEADER_SZ (length (data_bytes (recs @ [(key, data)]))) = data_bytes (recs @ [(key, data)])"
    using add by (simp add: data_bytes_snoc mem_slice_add adding_def data_end_def)
  from m'(4) obtain a b c where "m' = m\<lparr>mk_head := a, mk_count := b, mk_hp := c\<rparr>" by blast
  then have "window m' w" "mk_pgalign m' = page_mask pk" "mk_pos m' = data_end (recs @ [(key, data)])"
    "\<forall>k. call_hash_fn (mk_hash_fn m') (mk_hash_init m') k = hf k"
    using add by (auto simp: adding_def window_def mk_sized_def data_end_snoc)
  then show ?thesis using m' data es by (auto simp: make_inv_def)
qed

lemma add_props:
  assumes P: "plasma_bigendian P" and inv: "make_inv pk hf base recs m w" and pk: "pk \<le> 30"
    and sz: "data_end recs + rec_len (key, data) < 2 ^ 62"
  shows "\<exists>rc m' w'. mcdb_make_add P m key data w = Some (rc, m', w') \<and> os_same w w' \<and> owns_blocks base m' w' \<and>
    (rc = 0 \<and> length key \<le> INT_MAX - 8 \<and> length data \<le> INT_MAX - 8 \<and>
       make_inv pk hf base (recs @ [(key, data)]) m' w' \<or> rc = -1) \<and>
    (os_willing w \<and> length recs < INT_MAX \<and> length key \<le> INT_MAX - 8 \<and> length data \<le> INT_MAX - 8 \<longrightarrow> rc = 0)"
proof -
  obtain rc m1 w1 where b: "mcdb_make_addbegin P m (length key) (length data) w = Some (rc, m1, w1)"
    "os_same w w1" "owns_blocks base m1 w1"
    "rc = 0 \<and> length key \<le> INT_MAX - 8 \<and> length data \<le> INT_MAX - 8 \<and> hp_h (mk_hp m1) = mk_hash_init m1 \<and>
       hp_l (mk_hp m1) = word_of_nat (length key) \<and>
       adding pk hf base recs (be_bytes 4 (length key) @ be_bytes 4 (length data)) (length key + length data) m1 w1 \<or> rc = -1"
    "os_willing w \<and> length recs < INT_MAX \<and> length key \<le> INT_MAX - 8 \<and> length data \<le> INT_MAX - 8 \<longrightarrow> rc = 0"
    using addbegin_props [OF P inv pk, of "length key" "length data"] sz by (auto simp: rec_len_def add.assoc)
  show ?thesis
  proof (cases "rc = 0")
    case False
    with b show ?thesis by (auto simp: mcdb_make_add_def)
  next
    case True
    obtain m2 w2 where k: "mcdb_make_addbuf_key m1 key w1 = Some (m2, w2)" "os_same w1 w2"
      "mk_hp m2 = (mk_hp m1)\<lparr>hp_h := call_hash_fn (mk_hash_fn m1) (hp_h (mk_hp m1)) key\<rparr>"
      "adding pk hf base recs ((be_bytes 4 (length key) @ be_bytes 4 (length data)) @ key) (length data) m2 w2"
      using addbuf_key_props [of pk hf base recs _ _ m1 w1 key] b(4) True by fastforce
    obtain m3 w3 where d: "mcdb_make_addbuf_data m2 data w2 = Some (m3, w3)" "os_same w2 w3" "mk_hp m3 = mk_hp m2"
      "adding pk hf base recs (rec_bytes (key, data)) 0 m3 w3"
      using addbuf_data_props [OF k(4), of data] by (auto simp: rec_bytes_def)
    have "hp_h (mk_hp m3) = hf key" "hp_l (mk_hp m3) = word_of_nat (length key)"
      using d(3) k(3) b(4) True by (auto simp: adding_def)
    from addend_adding [OF d(4) this] obtain m4 where "mcdb_make_addend m3 = Some m4"
      "make_inv pk hf base (recs @ [(key, data)]) m4 w3" by blast
    then show ?thesis using b k d True by (auto simp: mcdb_make_add_def os_same_def make_inv_def)
  qed
qed

end
