(* ===== verification/Make_Start.thy ===== *)
theory Make_Start
  imports Make_Add
begin

text \<open>Starting the writer, and adding a whole list of records.\<close>

lemma data_end_Nil [simp]: "data_end [] = MCDB_HEADER_SZ"
  by (simp add: data_end_def)

lemma lists_ok_start:
  assumes "\<And>u. u < MCDB_SLOTS \<Longrightarrow> \<exists>x. mk_head m u = [x] \<and> hl_hps x = [] \<and> hl_pend x \<noteq> None" "mk_count m = (\<lambda>_. 0)"
  shows "lists_ok [] m"
  unfolding lists_ok_def slot_lists_def
  using assms by (fastforce simp: slot_hps_def MCDB_HPLIST_def)

lemma start_alloc_failed:
  assumes "os_malloc w = (None, w1)"
  shows "\<exists>m w'. mcdb_make_start pagesize fd w = Some (-1, m, w') \<and> o_live w' = o_live w"
  using malloc_props [OF assms] assms
  by (simp add: mcdb_make_start_def mcdb_make_destroy_def)

lemma start_props:
  assumes page: "pagesize = 2 ^ pk" "pk \<le> 30" and fd: "fd \<noteq> -1"
    and start: "mcdb_make_start pagesize fd w = Some (0, m, w')"
  shows "make_inv pk djb_hash (mset (o_live w)) [] m w' \<and> os_same w w' \<and> mk_hp m = \<lparr>hp_p = MCDB_HEADER_SZ, hp_h = 0, hp_l = 0\<rparr>"
proof -
  obtain r w1 where ma: "os_malloc w = (r, w1)" by fastforce
  note M = malloc_props [OF ma]
  show ?thesis
  proof (cases r)
    case None
    with start ma show ?thesis
      by (auto simp: mcdb_make_start_def Let_def bind_Some_iff)
  next
    case (Some blk)
    define node where "node = \<lparr>hl_blk = blk, hl_hps = [], hl_pend = None\<rparr>"
    define m1 where "m1 = \<lparr> mk_pos = MCDB_HEADER_SZ, mk_offset = 0, mk_mapped = False,
                mk_hash_init = UINT32_HASH_DJB_INIT, mk_hash_fn = Hash_djb,
                mk_fsz = 0, mk_osz = 0, mk_msz = 0, mk_pgalign = NOT (word_of_nat pagesize - 1),
                mk_hp = \<lparr>hp_p = MCDB_HEADER_SZ, hp_h = 0, hp_l = 0\<rparr>, mk_fd = fd,
                mk_count = (\<lambda>_. 0), mk_head = (\<lambda>_. [])(0 := [node]) \<rparr>"
    obtain ok m2 w2 where up: "mcdb_mmap_upsize m1 MCDB_MMAP_SZ w1 = (ok, m2, w2)" by (metis prod_cases3)
    have "mk_sized m1 w1" "mk_pgalign m1 = page_mask pk" "mk_pos m1 \<le> MCDB_MMAP_SZ"
      using fd page by (simp_all add: mk_sized_def m1_def page_mask_def mcdb_consts)
    note U = upsize_props [OF up this(1,2) page(2) this(3)]
    have res: "mcdb_make_start pagesize fd w = (if ok then
        Some (0, m2\<lparr>mk_head := (\<lambda>u. if u < MCDB_SLOTS then [node\<lparr>hl_pend := Some []\<rparr>] else [])\<rparr>, w2)
        else do { (_, m3, w3) \<leftarrow> mcdb_make_destroy m2 w2; Some (-1, m3, w3) })"
      using up ma Some fd by (simp add: mcdb_make_start_def m1_def node_def cong: if_cong)
    have ok and m: "m = m2\<lparr>mk_head := (\<lambda>u. if u < MCDB_SLOTS then [node\<lparr>hl_pend := Some []\<rparr>] else [])\<rparr>" "w' = w2"
      using start unfolding res by (cases ok; auto simp: bind_eq_Some_conv)+
    have own: "owns_blocks (mset (o_live w)) m w'"
      using m U M Some by (auto simp: owns_blocks_def node_def calls_def mcdb_consts)
    have lists: "lists_ok [] m" using m U by (intro lists_ok_start) (auto simp: node_def mk_same_def m1_def mcdb_consts)
    show ?thesis
      using own lists U M \<open>ok\<close> m
      by (auto simp: make_inv_def entries_def calls_def mk_same_def m1_def window_def mk_sized_def os_same_def
          djb_hash_def mcdb_consts page page_mask_def)
  qed
qed

text \<open>
  The calls of the start are the allocation, the growing of the file and the mapping; the start is refused
  when the allocation is granted and one of the other two is not.
\<close>

definition start_refused :: "os \<Rightarrow> bool" where
  "start_refused w \<longleftrightarrow> o_fail w (o_step w) = 0 \<and> (o_fail w (Suc (o_step w)) \<noteq> 0 \<or> o_fail w (Suc (Suc (o_step w))) \<noteq> 0)"

lemma upsize_first:
  assumes "mk_fd m \<noteq> -1" "mk_fsz m = 0" "mk_osz m = 0" "\<not> mk_mapped m"
    and "mk_pgalign m = page_mask pk" "pk \<le> 30" "mk_pos m < MCDB_MMAP_SZ"
  shows "\<exists>m' w'. mcdb_mmap_upsize m MCDB_MMAP_SZ w = (o_fail w (o_step w) = 0 \<and> o_fail w (Suc (o_step w)) = 0, m', w') \<and>
    mk_head m' = mk_head m"
proof -
  define off where "off = pg_down (mk_pgalign m) (mk_pos m)"
  define msz where "msz = (if MCDB_MMAP_SZ > MCDB_MMAP_SZ - off then MCDB_MMAP_SZ else pg_up (mk_pgalign m) (MCDB_MMAP_SZ - off))"
  have "0 < off + msz"
    using pg_up_ge(1) [of "MCDB_MMAP_SZ - off" pk] assms by (auto simp: msz_def mcdb_consts)
  then have "\<exists>m' w'. upsize_file m off msz w = (o_fail w (o_step w) = 0, m', w') \<and> mk_head m' = mk_head m \<and> \<not> mk_mapped m' \<and>
      o_fail w' = o_fail w \<and> o_step w' = Suc (o_step w)"
    using assms by (simp add: upsize_file_def os_fallocate_def Let_def set_flen_def)
  then obtain m1 w1 where f: "upsize_file m off msz w = (o_fail w (o_step w) = 0, m1, w1)" "mk_head m1 = mk_head m" "\<not> mk_mapped m1"
      "o_fail w1 = o_fail w" "o_step w1 = Suc (o_step w)" by blast
  show ?thesis unfolding mcdb_mmap_upsize_def Let_def off_def [symmetric] msz_def [symmetric] f(1)
    using f by (auto simp: upsize_unmap_def ext_call_def Let_def)
qed

text \<open>
  A refused mapping at the start: \<^verbatim>\<open>mcdb_make_destroy\<close> follows \<^verbatim>\<open>pend\<close> of the fresh array,
  which is not initialised yet.  Everything else at the start has a result.
\<close>

lemma start_cases:
  assumes fd: "fd \<noteq> -1" and page: "pagesize = 2 ^ pk" "pk \<le> 30"
  shows "if start_refused w then mcdb_make_start pagesize fd w = None
    else \<exists>rc m w'. mcdb_make_start pagesize fd w = Some (rc, m, w') \<and> (rc = 0 \<or> rc = -1 \<and> os_same w w' \<and> o_live w' = o_live w \<and> \<not> os_willing w)"
proof -
  define m0 where "m0 = \<lparr> mk_pos = MCDB_HEADER_SZ, mk_offset = 0, mk_mapped = False,
                mk_hash_init = UINT32_HASH_DJB_INIT, mk_hash_fn = Hash_djb,
                mk_fsz = 0, mk_osz = 0, mk_msz = 0, mk_pgalign = NOT (word_of_nat pagesize - 1),
                mk_hp = \<lparr>hp_p = MCDB_HEADER_SZ, hp_h = 0, hp_l = 0\<rparr>, mk_fd = fd,
                mk_count = (\<lambda>_. 0), mk_head = (\<lambda>_. []) \<rparr>"
  obtain r w1 where ma: "os_malloc w = (r, w1)" by fastforce
  show ?thesis
  proof (cases r)
    case None
    then have "o_fail w (o_step w) \<noteq> 0" "os_same w w1" "o_live w1 = o_live w"
      using ma by (auto simp: os_malloc_def ext_call_def Let_def os_same_def split: if_splits)
    then show ?thesis using ma None by (auto simp: start_refused_def os_willing_def mcdb_make_start_def mcdb_make_destroy_def)
  next
    case (Some blk)
    then have w1: "o_fail w (o_step w) = 0" "o_fail w1 = o_fail w" "o_step w1 = Suc (o_step w)"
      using ma by (auto simp: os_malloc_def ext_call_def Let_def split: if_splits)
    define m1 where "m1 = m0\<lparr>mk_head := (mk_head m0)(0 := [\<lparr>hl_blk = blk, hl_hps = [], hl_pend = None\<rparr>])\<rparr>"
    have "\<exists>m' w'. mcdb_mmap_upsize m1 MCDB_MMAP_SZ w1 = (o_fail w1 (o_step w1) = 0 \<and> o_fail w1 (Suc (o_step w1)) = 0, m', w') \<and>
        mk_head m' = mk_head m1"
      by (rule upsize_first [where pk = pk]) (use fd page in \<open>simp_all add: m1_def m0_def page_mask_def mcdb_consts\<close>)
    then obtain m2 w2 where up: "mcdb_mmap_upsize m1 MCDB_MMAP_SZ w1 = (\<not> start_refused w, m2, w2)" "mk_head m2 = mk_head m1"
      using w1 by (auto simp: start_refused_def)
    have s: "mcdb_make_start pagesize fd w = (if \<not> start_refused w then
        Some (0, m2\<lparr>mk_head := (\<lambda>u. if u < MCDB_SLOTS then [\<lparr>hl_blk = blk, hl_hps = [], hl_pend = Some []\<rparr>] else [])\<rparr>, w2)
        else do { (_, m3, w3) \<leftarrow> mcdb_make_destroy m2 w2; Some (-1, m3, w3) })"
      unfolding mcdb_make_start_def m0_def [symmetric] Let_def ma Some prod.case option.case m1_def [symmetric] using fd up(1) by (simp cong: if_cong)
    obtain ok w3 where e: "ext_call w2 = (ok, w3)" by fastforce
    have "mcdb_make_destroy m2 w2 = None"
      using up(2) by (simp add: mcdb_make_destroy_def m1_def m0_def e Let_def)
    then show ?thesis using s by simp
  qed
qed

lemma adds_props:
  assumes P: "plasma_bigendian P" and pk: "pk \<le> 30"
  shows "make_inv pk hf base recs0 m w \<Longrightarrow> data_end (recs0 @ recs) < 2 ^ 62 \<Longrightarrow>
    \<exists>rc m' w'. make_adds P recs m w = Some (rc, m', w') \<and> os_same w w' \<and> owns_blocks base m' w' \<and>
    (rc = 0 \<and> (\<forall>r \<in> set recs. length (fst r) \<le> INT_MAX - 8 \<and> length (snd r) \<le> INT_MAX - 8) \<and>
       make_inv pk hf base (recs0 @ recs) m' w' \<or> rc = -1) \<and>
    (os_willing w \<and> length (recs0 @ recs) < INT_MAX \<and>
      (\<forall>r \<in> set recs. length (fst r) \<le> INT_MAX - 8 \<and> length (snd r) \<le> INT_MAX - 8) \<longrightarrow> rc = 0)"
proof (induction recs arbitrary: recs0 m w)
  case Nil
  then show ?case by (auto simp: os_same_def make_inv_def)
next
  case (Cons r recs)
  obtain k d where r: "r = (k, d)" by fastforce
  have "data_end recs0 + rec_len (k, d) \<le> data_end (recs0 @ r # recs)"
    by (simp add: data_end_def data_bytes_append data_bytes_Cons r)
  then have sz: "data_end recs0 + rec_len (k, d) < 2 ^ 62" using Cons.prems(2) by linarith
  obtain rc m1 w1 where a: "mcdb_make_add P m k d w = Some (rc, m1, w1)" "os_same w w1" "owns_blocks base m1 w1"
    "rc = 0 \<and> length k \<le> INT_MAX - 8 \<and> length d \<le> INT_MAX - 8 \<and> make_inv pk hf base (recs0 @ [(k, d)]) m1 w1 \<or> rc = -1"
    "os_willing w \<and> length recs0 < INT_MAX \<and> length k \<le> INT_MAX - 8 \<and> length d \<le> INT_MAX - 8 \<longrightarrow> rc = 0"
    using add_props [OF P Cons.prems(1) pk sz] by blast
  show ?case
  proof (cases "rc = 0")
    case False
    with a r show ?thesis by auto
  next
    case True
    then have "make_inv pk hf base (recs0 @ [(k, d)]) m1 w1" using a by auto
    from Cons.IH [OF this] Cons.prems(2) obtain rc' m' w' where "make_adds P recs m1 w1 = Some (rc', m', w')"
      "os_same w1 w'" "owns_blocks base m' w'"
      "rc' = 0 \<and> (\<forall>r \<in> set recs. length (fst r) \<le> INT_MAX - 8 \<and> length (snd r) \<le> INT_MAX - 8) \<and>
       make_inv pk hf base (recs0 @ r # recs) m' w' \<or> rc' = -1"
      "os_willing w1 \<and> length (recs0 @ r # recs) < INT_MAX \<and>
      (\<forall>r \<in> set recs. length (fst r) \<le> INT_MAX - 8 \<and> length (snd r) \<le> INT_MAX - 8) \<longrightarrow> rc' = 0"
      using r by auto
    with a True r show ?thesis by (auto simp: os_same_def os_willing_def)
  qed
qed

end
