(* ===== verification/Makefmt_Record.thy ===== *)
theory Makefmt_Record
  imports Makefmt_Preamble Make_Start
begin

text \<open>A record of the text: buffered whole or in parts, the writer gets the same key and data.\<close>

subsection \<open>What the writer leaves alone\<close>

text \<open>The hash function of the writer takes a key in pieces.\<close>

definition hash_pieces :: "mcdb_make \<Rightarrow> bool" where
  "hash_pieces m \<longleftrightarrow> (\<forall>h xs ys. call_hash_fn (mk_hash_fn m) (call_hash_fn (mk_hash_fn m) h xs) ys = call_hash_fn (mk_hash_fn m) h (xs @ ys))"

lemma hash_pieces_cong: "mk_hash_fn m' = mk_hash_fn m \<Longrightarrow> hash_pieces m \<Longrightarrow> hash_pieces m'"
  by (simp add: hash_pieces_def)

lemma alloc_hash_fn: "mcdb_hplist_alloc m w = Some (ok, m', w') \<Longrightarrow> mk_hash_fn m' = mk_hash_fn m"
  by (auto simp: mcdb_hplist_alloc_def Let_def bind_eq_Some_conv neq_Nil_conv split: list.splits prod.splits option.splits if_splits)

lemma upsize_parts_hash_fn:
  "mk_hash_fn (fst (snd (upsize_file m off msz w))) = mk_hash_fn m"
  "mk_hash_fn (fst (snd (upsize_unmap m w))) = mk_hash_fn m"
  by (simp_all add: upsize_file_def upsize_unmap_def Let_def split: prod.split)

lemma upsize_hash_fn: "mk_hash_fn (fst (snd (mcdb_mmap_upsize m sz w))) = mk_hash_fn m"
proof -
  define off where "off = pg_down (mk_pgalign m) (mk_pos m)"
  define msz where "msz = (if MCDB_MMAP_SZ > sz - off then MCDB_MMAP_SZ else pg_up (mk_pgalign m) (sz - off))"
  obtain ok1 m1 w1 where 1: "upsize_file m off msz w = (ok1, m1, w1)" by (metis prod_cases3)
  obtain ok2 m2 w2 where 2: "upsize_unmap m1 w1 = (ok2, m2, w2)" by (metis prod_cases3)
  obtain ok3 w3 where 3: "ext_call w2 = (ok3, w3)" by fastforce
  have "mk_hash_fn m1 = mk_hash_fn m" "mk_hash_fn m2 = mk_hash_fn m1"
    using upsize_parts_hash_fn(1) [of m off msz w] upsize_parts_hash_fn(2) [of m1 w1] 1 2 by simp_all
  then show ?thesis
    unfolding mcdb_mmap_upsize_def Let_def off_def [symmetric] msz_def [symmetric] 1 2 3 prod.case by simp
qed

lemma addbegin_hash_fn:
  assumes "mcdb_make_addbegin P m kl dl w = Some (rc, m', w')"
  shows "mk_hash_fn m' = mk_hash_fn m"
proof -
  have up: "mcdb_mmap_upsize m1 sz w1 = (ok, m2, w2) \<Longrightarrow> mk_hash_fn m2 = mk_hash_fn m1" for m1 sz w1 ok m2 w2
    using upsize_hash_fn [of m1 sz w1] by simp
  show ?thesis using assms
    by (auto simp: mcdb_make_addbegin_def mcdb_make_err_null_def Let_def bind_eq_Some_conv
        dest!: alloc_hash_fn up split: prod.splits if_splits)
qed

lemma addend_hash_fn: "mcdb_make_addend m = Some m' \<Longrightarrow> mk_hash_fn m' = mk_hash_fn m"
  by (auto simp: mcdb_make_addend_def Let_def split: list.splits if_splits)

lemma addbuf_hash_fn:
  "mcdb_make_addbuf_data m bs w = Some (m', w') \<Longrightarrow> mk_hash_fn m' = mk_hash_fn m"
  "mcdb_make_addbuf_key m bs w = Some (m', w') \<Longrightarrow> mk_hash_fn m' = mk_hash_fn m"
  by (auto simp: mcdb_make_addbuf_key_def mcdb_make_addbuf_data_def bind_eq_Some_conv)

lemma add_hash_fn: "mcdb_make_add P m k d w = Some (rc, m', w') \<Longrightarrow> mk_hash_fn m' = mk_hash_fn m"
  by (auto simp: mcdb_make_add_def bind_eq_Some_conv dest!: addbegin_hash_fn addend_hash_fn addbuf_hash_fn split: if_splits)

lemma errno_only_inv:
  assumes "errno_only w w'"
  shows "make_inv pk hf base recs m w' = make_inv pk hf base recs m w"
    "adding pk hf base recs part need m w' = adding pk hf base recs part need m w"
    "owns_blocks base m w' = owns_blocks base m w" "os_same w w'" "os_willing w' = os_willing w"
  using assms
  by (auto simp: errno_only_def make_inv_def adding_def window_def mk_sized_def owns_blocks_def os_same_def os_willing_def)

subsection \<open>Pieces of a string\<close>

definition str_hash :: "addbuf_fn \<Rightarrow> mcdb_make \<Rightarrow> bytes \<Rightarrow> u32" where
  "str_hash fn m bs = (case fn of Addbuf_key \<Rightarrow> call_hash_fn (mk_hash_fn m) (hp_h (mk_hp m)) bs | Addbuf_data \<Rightarrow> hp_h (mk_hp m))"

lemma call_addbuf_props:
  assumes "adding pk hf base recs part need m w" "length bs \<le> need"
  shows "\<exists>m' w'. call_addbuf fn m bs w = Some (m', w') \<and> os_same w w' \<and>
    mk_hp m' = (mk_hp m)\<lparr>hp_h := str_hash fn m bs\<rparr> \<and>
    mk_hash_fn m' = mk_hash_fn m \<and> mk_hash_init m' = mk_hash_init m \<and>
    adding pk hf base recs (part @ bs) (need - length bs) m' w'"
proof (cases fn)
  case Addbuf_key
  then show ?thesis using addbuf_key_props [OF assms] by (simp add: call_addbuf_def str_hash_def)
next
  case Addbuf_data
  then show ?thesis using addbuf_data_props [OF assms] by (fastforce simp: call_addbuf_def str_hash_def)
qed

lemma bufread_str_props:
  "ib_ok b \<Longrightarrow> hash_pieces m \<Longrightarrow> adding pk hf base recs part need m w \<Longrightarrow> len \<le> need \<Longrightarrow>
   \<exists>ok b' m' w' bs. mcdb_bufread_str b len m fn w = Some (ok, b', m', w') \<and> ib_ok b' \<and> os_same w w' \<and>
     mk_hp m' = (mk_hp m)\<lparr>hp_h := str_hash fn m bs\<rparr> \<and> mk_hash_fn m' = mk_hash_fn m \<and> mk_hash_init m' = mk_hash_init m \<and>
     adding pk hf base recs (part @ bs) (need - length bs) m' w' \<and> ib_stream b = bs @ ib_stream b' \<and> length bs \<le> len \<and>
     (ok \<longleftrightarrow> length bs = len) \<and> (ib_willing b \<longrightarrow> ib_willing b' \<and> (ok \<or> ib_stream b' = []))"
proof (induction b len m fn w arbitrary: part need rule: mcdb_bufread_str.induct)
  case (1 b len m fn w)
  define u where "u = min (ib_avail b) len"
  define xs where "xs = mem_slice (ib_buf b) (ib_pos b) u"
  have xs: "length xs = u" "u \<le> len" by (simp_all add: xs_def u_def)
  have t: "ib_taken b xs (b\<lparr>ib_pos := ib_pos b + u\<rparr>)" unfolding xs_def by (rule ib_advance [OF 1(2)]) (simp add: u_def)
  note T = ib_takenD [OF t]
  obtain m1 w1 where a: "call_addbuf fn m xs w = Some (m1, w1)" "os_same w w1" "mk_hp m1 = (mk_hp m)\<lparr>hp_h := str_hash fn m xs\<rparr>"
    "mk_hash_fn m1 = mk_hash_fn m" "mk_hash_init m1 = mk_hash_init m" "adding pk hf base recs (part @ xs) (need - length xs) m1 w1"
    using call_addbuf_props [OF 1(4), of xs fn] xs 1(5) by auto
  have pieces: "str_hash fn m1 ys = str_hash fn m (xs @ ys)" for ys
    using a(3,4) 1(3) by (cases fn) (simp_all add: str_hash_def hash_pieces_def)
  show ?case
  proof (cases "len - u = 0")
    case True
    then have "mcdb_bufread_str b len m fn w = Some (True, b\<lparr>ib_pos := ib_pos b + u\<rparr>, m1, w1)"
      using a(1) by (subst mcdb_bufread_str.simps) (simp add: u_def xs_def Let_def)
    moreover have "u = len" using True xs by simp
    ultimately show ?thesis using a T xs by (intro exI conjI) auto
  next
    case more: False
    obtain r b2 w2 where rd: "mcdb_bufread_fd (b\<lparr>ib_pos := ib_pos b + u\<rparr>) w1 = (r, b2, w2)" by (metis prod_cases3)
    from bufread_fd_props [OF T(1) rd] obtain cs where cs: "ib_more (b\<lparr>ib_pos := ib_pos b + u\<rparr>) b2 cs" "errno_only w1 w2"
      "ib_willing (b\<lparr>ib_pos := ib_pos b + u\<rparr>) \<longrightarrow> w2 = w1 \<and> (r \<le> 0 \<longrightarrow> ib_rest (b\<lparr>ib_pos := ib_pos b + u\<rparr>) = [] \<or> 128 \<le> ib_avail (b\<lparr>ib_pos := ib_pos b + u\<rparr>))"
      "if 0 < r then int (length cs) = r else cs = []"
      by blast
    note M = ib_moreD [OF cs(1)]
    note E = errno_only_inv [OF cs(2)]
    have run: "mcdb_bufread_str b len m fn w = (if 0 < r then mcdb_bufread_str b2 (len - u) m1 fn w2 else Some (False, b2, m1, w2))"
      using a(1) more rd by (subst mcdb_bufread_str.simps) (simp add: u_def xs_def Let_def)
    have add2: "adding pk hf base recs (part @ xs) (need - length xs) m1 w2" using a(6) E(2) by simp
    have os2: "os_same w w2" using a(2) E(4) by (simp add: os_same_def)
    have all: "ib_avail b = u" using more by (simp add: u_def min_def split: if_splits)
    show ?thesis
    proof (cases "0 < r")
      case False
      have "ib_willing b \<Longrightarrow> ib_stream b2 = []"
      proof -
        assume "ib_willing b"
        with cs(3) T(4) False T(6) all xs have "ib_rest (b\<lparr>ib_pos := ib_pos b + u\<rparr>) = []" by auto
        moreover have "ib_data (b\<lparr>ib_pos := ib_pos b + u\<rparr>) = []" using T(6) all xs by (simp add: ib_data_empty)
        ultimately show ?thesis using M(2) by (simp add: ib_stream_def)
      qed
      then show ?thesis using run False add2 os2 a(3-5) M(1,2,4) T(2,4) xs more
        by (intro exI [of _ False] exI [of _ b2] exI [of _ m1] exI [of _ w2] exI [of _ xs]) auto
    next
      case True
      have ih: "\<exists>ok b' m' w' bs. mcdb_bufread_str b2 (len - u) m1 fn w2 = Some (ok, b', m', w') \<and> ib_ok b' \<and> os_same w2 w' \<and>
         mk_hp m' = (mk_hp m1)\<lparr>hp_h := str_hash fn m1 bs\<rparr> \<and> mk_hash_fn m' = mk_hash_fn m1 \<and> mk_hash_init m' = mk_hash_init m1 \<and>
         adding pk hf base recs ((part @ xs) @ bs) (need - length xs - length bs) m' w' \<and> ib_stream b2 = bs @ ib_stream b' \<and> length bs \<le> len - u \<and>
         (ok \<longleftrightarrow> length bs = len - u) \<and> (ib_willing b2 \<longrightarrow> ib_willing b' \<and> (ok \<or> ib_stream b' = []))"
        by (rule 1(1) [OF u_def _ refl refl _ rd [symmetric] refl refl True M(1) hash_pieces_cong [OF a(4) 1(3)] add2])
          (use more xs 1(5) a(1) in \<open>simp_all add: xs_def\<close>)
      then obtain ok b' m' w' bs where ih: "mcdb_bufread_str b2 (len - u) m1 fn w2 = Some (ok, b', m', w')" "ib_ok b'" "os_same w2 w'"
         "mk_hp m' = (mk_hp m1)\<lparr>hp_h := str_hash fn m1 bs\<rparr>" "mk_hash_fn m' = mk_hash_fn m1" "mk_hash_init m' = mk_hash_init m1"
         "adding pk hf base recs ((part @ xs) @ bs) (need - length xs - length bs) m' w'" "ib_stream b2 = bs @ ib_stream b'" "length bs \<le> len - u"
         "ok \<longleftrightarrow> length bs = len - u" "ib_willing b2 \<longrightarrow> ib_willing b' \<and> (ok \<or> ib_stream b' = [])"
        by (elim exE conjE) (rule that)
      have "os_same w w'" using os2 ih(3) by (simp add: os_same_def)
      moreover have "ok \<longleftrightarrow> length (xs @ bs) = len" using ih(10) xs by auto
      moreover have "mk_hp m' = (mk_hp m)\<lparr>hp_h := str_hash fn m (xs @ bs)\<rparr>" using ih(4) a(3) pieces by simp
      moreover have "adding pk hf base recs (part @ xs @ bs) (need - length (xs @ bs)) m' w'" using ih(7) by simp
      ultimately show ?thesis using run True ih(1,2,5,6,8,9,11) a(4,5) M(2,4) T(2,4) xs
        by (intro exI [of _ ok] exI [of _ b'] exI [of _ m'] exI [of _ w'] exI [of _ "xs @ bs"]) auto
    qed
  qed
qed

subsection \<open>Separators\<close>

lemma xchars_props:
  "ib_ok b \<Longrightarrow> len \<le> 128 \<Longrightarrow> mcdb_bufread_xchars b len w = (ok, b', w') \<Longrightarrow>
   (\<exists>bs. ib_more b b' bs) \<and> errno_only w w' \<and> (ok \<longleftrightarrow> len \<le> ib_avail b') \<and>
   (ib_willing b \<longrightarrow> w' = w \<and> (ok \<or> length (ib_stream b) < len))"
proof (induction b len w rule: mcdb_bufread_xchars.induct)
  case (1 b len w)
  show ?case
  proof (cases "ib_avail b < len")
    case False
    then show ?thesis using 1(2,4) by (subst (asm) mcdb_bufread_xchars.simps) (auto intro: ib_more_refl)
  next
    case short: True
    obtain r b1 w1 where rd: "mcdb_bufread_fd b w = (r, b1, w1)" by (metis prod_cases3)
    from bufread_fd_props [OF 1(2) rd] obtain cs where cs: "ib_more b b1 cs" "errno_only w w1"
      "if 0 < r then int (length cs) = r else cs = []"
      "ib_willing b \<longrightarrow> w1 = w \<and> (r \<le> 0 \<longrightarrow> ib_rest b = [] \<or> 128 \<le> ib_avail b)" by blast
    note M = ib_moreD [OF cs(1)]
    have run: "mcdb_bufread_xchars b len w = (if 0 < r then mcdb_bufread_xchars b1 len w1 else (len \<le> ib_avail b1, b1, w1))"
      using short rd by (subst mcdb_bufread_xchars.simps) simp
    show ?thesis
    proof (cases "0 < r")
      case False
      then have "ib_willing b \<Longrightarrow> length (ib_stream b) < len" using cs(4) short 1(3) by (auto simp: ib_stream_def)
      then show ?thesis using run False 1(4) cs by auto
    next
      case True
      have "(\<exists>bs. ib_more b1 b' bs) \<and> errno_only w1 w' \<and> (ok \<longleftrightarrow> len \<le> ib_avail b') \<and>
         (ib_willing b1 \<longrightarrow> w' = w1 \<and> (ok \<or> length (ib_stream b1) < len))"
        by (rule 1(1) [OF short rd [symmetric] refl refl True M(1) 1(3)]) (use run True 1(4) in simp)
      then show ?thesis using cs M(2,4) ib_more_trans [OF cs(1)] errno_only_trans [OF cs(2)] by auto
    qed
  qed
qed

lemma ib_chars_props:
  "ib_ok b \<Longrightarrow> length cs \<le> ib_avail b \<Longrightarrow>
   \<exists>ok b'. ib_chars cs b = Some (ok, b') \<and> ib_ok b' \<and> (ok \<longleftrightarrow> take (length cs) (ib_data b) = cs) \<and> (ok \<longrightarrow> ib_taken b cs b')"
proof (induction cs arbitrary: b)
  case Nil
  then show ?case by (auto simp: ib_taken_def)
next
  case (Cons c cs)
  then obtain x xs where x: "ib_data b = x # xs" by (cases "ib_data b") (auto simp: ib_data_empty)
  from ib_next_props [OF Cons.prems(1) x] obtain b1 where b1: "ib_next b = Some (x, b1)" "ib_taken b [x] b1" "ib_data b1 = xs" by blast
  note T = ib_takenD [OF b1(2)]
  show ?case
  proof (cases "x = c")
    case False
    then show ?thesis using b1(1) T(1) x by auto
  next
    case True
    obtain ok b' where "ib_chars cs b1 = Some (ok, b')" "ib_ok b'" "ok \<longleftrightarrow> take (length cs) (ib_data b1) = cs" "ok \<longrightarrow> ib_taken b1 cs b'"
      using Cons.IH [OF T(1)] T(6) Cons.prems(2) by auto
    then show ?thesis using True b1 x ib_taken_trans [OF b1(2)] by auto
  qed
qed

lemma bufread_sep_props:
  assumes ok: "ib_ok b" and len: "length cs \<le> 128"
  shows "\<exists>good b' w'. mcdb_bufread_sep cs b w = Some (good, b', w') \<and> ib_ok b' \<and> errno_only w w' \<and>
    (good \<longrightarrow> ib_stream b = cs @ ib_stream b' \<and> (ib_willing b \<longrightarrow> ib_willing b')) \<and>
    (ib_willing b \<longrightarrow> w' = w \<and> (\<forall>s. ib_stream b = cs @ s \<longrightarrow> good))"
proof -
  obtain g b1 w1 where x: "mcdb_bufread_xchars b (length cs) w = (g, b1, w1)" by (metis prod_cases3)
  from xchars_props [OF ok len x] obtain bs where m: "ib_more b b1 bs" and X: "errno_only w w1" "g \<longleftrightarrow> length cs \<le> ib_avail b1"
    "ib_willing b \<longrightarrow> w1 = w \<and> (g \<or> length (ib_stream b) < length cs)" by blast
  note M = ib_moreD [OF m]
  show ?thesis
  proof (cases g)
    case False
    then show ?thesis using x X M(1) by (fastforce simp: mcdb_bufread_sep_def)
  next
    case True
    obtain h b2 where c: "ib_chars cs b1 = Some (h, b2)" "ib_ok b2" "h \<longleftrightarrow> take (length cs) (ib_data b1) = cs" "h \<longrightarrow> ib_taken b1 cs b2"
      using ib_chars_props [OF M(1), of cs] X(2) True by auto
    have run: "mcdb_bufread_sep cs b w = Some (h, b2, w1)" using x True c(1) by (simp add: mcdb_bufread_sep_def)
    have t: "take (length cs) (ib_data b1) = take (length cs) (ib_stream b)"
      using X(2) True unfolding M(2) [symmetric] by (simp add: ib_stream_def)
    have "h \<Longrightarrow> ib_stream b = cs @ ib_stream b2 \<and> (ib_willing b \<longrightarrow> ib_willing b2)"
      using c(4) M(2,4) ib_takenD(2,4) [of b1 cs b2] by auto
    moreover have "ib_stream b = cs @ s \<Longrightarrow> h" for s using c(3) t by simp
    ultimately show ?thesis using run c(2) X by auto
  qed
qed

subsection \<open>A record in parts\<close>

lemma too_short:
  assumes "st = bs @ st'" "st' = []" "length bs \<le> n" "length bs \<noteq> n" "st = xs @ ys" "length xs = n"
  shows False
proof -
  have "bs = xs @ ys" using assms(1,2,5) by simp
  then have "n \<le> length bs" using assms(6) by simp
  with assms(3,4) show False by simp
qed

lemma bufread_rec_props:
  assumes ok: "ib_ok b" and pieces: "hash_pieces m" and add: "adding pk hf base recs part (klen + dlen) m w"
  shows "\<exists>good b' m' w'. mcdb_bufread_rec m klen dlen b w = Some (good, b', m', w') \<and> ib_ok b' \<and> os_same w w' \<and>
     owns_blocks base m' w' \<and> mk_hash_fn m' = mk_hash_fn m \<and>
     (good \<longrightarrow> (\<exists>k d. length k = klen \<and> length d = dlen \<and> ib_stream b = k @ [45, 62] @ d @ [10] @ ib_stream b' \<and>
        adding pk hf base recs (part @ k @ d) 0 m' w' \<and> (ib_willing b \<longrightarrow> ib_willing b') \<and>
        mk_hp m' = (mk_hp m)\<lparr>hp_h := call_hash_fn (mk_hash_fn m) (hp_h (mk_hp m)) k\<rparr>)) \<and>
     (\<forall>k d s. ib_willing b \<and> ib_stream b = k @ [45, 62] @ d @ [10] @ s \<and> length k = klen \<and> length d = dlen \<longrightarrow> good)"
proof -
  obtain g1 b1 m1 w1 k where K: "mcdb_bufread_str b klen m Addbuf_key w = Some (g1, b1, m1, w1)" "ib_ok b1" "os_same w w1"
     "mk_hp m1 = (mk_hp m)\<lparr>hp_h := str_hash Addbuf_key m k\<rparr>" "mk_hash_fn m1 = mk_hash_fn m" and Ki: "mk_hash_init m1 = mk_hash_init m" and K':
     "adding pk hf base recs (part @ k) (klen + dlen - length k) m1 w1" "ib_stream b = k @ ib_stream b1" "length k \<le> klen"
     "g1 \<longleftrightarrow> length k = klen" "ib_willing b \<longrightarrow> ib_willing b1 \<and> (g1 \<or> ib_stream b1 = [])"
    using bufread_str_props [OF ok pieces add le_add1, of Addbuf_key] by (elim exE conjE) (rule that)
  have own1: "owns_blocks base m1 w1" using K'(1) by (simp add: adding_def)
  show ?thesis
  proof (cases g1)
    case False
    then have long: "length k \<noteq> klen" and empty: "ib_willing b \<longrightarrow> ib_stream b1 = []" using K'(4,5) by simp_all
    have no: "\<not> (ib_willing b \<and> ib_stream b = k' @ [45, 62] @ d' @ [10] @ s \<and> length k' = klen)" for k' d' s
      using too_short [OF K'(2) _ K'(3) long, of k' "[45, 62] @ d' @ [10] @ s"] empty by metis
    have run: "mcdb_bufread_rec m klen dlen b w = Some (False, b1, m1, w1)" using K(1) False by (simp add: mcdb_bufread_rec_def)
    show ?thesis
      by (rule exI [of _ False], rule exI [of _ b1], rule exI [of _ m1], rule exI [of _ w1])
        (use run K(2,3,5) own1 no in blast)
  next
    case g1: True
    obtain g2 b2 w2 where S: "mcdb_bufread_sep [45, 62] b1 w1 = Some (g2, b2, w2)" "ib_ok b2" "errno_only w1 w2"
      "g2 \<longrightarrow> ib_stream b1 = [45, 62] @ ib_stream b2 \<and> (ib_willing b1 \<longrightarrow> ib_willing b2)"
      "ib_willing b1 \<longrightarrow> w2 = w1 \<and> (\<forall>s. ib_stream b1 = [45, 62] @ s \<longrightarrow> g2)"
      using bufread_sep_props [OF K(2), of "[45, 62]" w1] by auto
    note E2 = errno_only_inv [OF S(3)]
    have head: "ib_stream b = k' @ [45, 62] @ d' @ [10] @ s \<Longrightarrow> length k' = klen \<Longrightarrow> k' = k \<and> ib_stream b1 = [45, 62] @ d' @ [10] @ s" for k' d' s
      using K'(2,4) g1 by auto
    show ?thesis
    proof (cases g2)
      case False
      then have no: "\<not> (ib_willing b \<and> ib_stream b = k' @ [45, 62] @ d' @ [10] @ s \<and> length k' = klen)" for k' d' s
        using head [of k' d' s] S(5) K'(5) by blast
      have run: "mcdb_bufread_rec m klen dlen b w = Some (False, b2, m1, w2)"
        using K(1) g1 S(1) False by (simp add: mcdb_bufread_rec_def)
      have "os_same w w2" "owns_blocks base m1 w2" using K(3) E2(3,4) own1 by (simp_all add: os_same_def)
      show ?thesis
        by (rule exI [of _ False], rule exI [of _ b2], rule exI [of _ m1], rule exI [of _ w2])
          (use run S(2) K(5) \<open>os_same w w2\<close> \<open>owns_blocks base m1 w2\<close> no in blast)
    next
      case g2: True
      have add2: "adding pk hf base recs (part @ k) dlen m1 w2" using K'(1,4) g1 E2(2) by simp
      obtain g3 b3 m3 w3 d where D: "mcdb_bufread_str b2 dlen m1 Addbuf_data w2 = Some (g3, b3, m3, w3)" "ib_ok b3" "os_same w2 w3"
        "mk_hp m3 = (mk_hp m1)\<lparr>hp_h := str_hash Addbuf_data m1 d\<rparr>" "mk_hash_fn m3 = mk_hash_fn m1" and Di: "mk_hash_init m3 = mk_hash_init m1" and D':
        "adding pk hf base recs ((part @ k) @ d) (dlen - length d) m3 w3" "ib_stream b2 = d @ ib_stream b3" "length d \<le> dlen"
        "g3 \<longleftrightarrow> length d = dlen" "ib_willing b2 \<longrightarrow> ib_willing b3 \<and> (g3 \<or> ib_stream b3 = [])"
        using bufread_str_props [OF S(2) hash_pieces_cong [OF K(5) pieces] add2 order_refl, of Addbuf_data]
        by (elim exE conjE) (rule that)
      have own3: "owns_blocks base m3 w3" using D'(1) by (simp add: adding_def)
      have os3: "os_same w w3" using K(3) E2(4) D(3) by (simp add: os_same_def)
      have tail: "ib_stream b = k' @ [45, 62] @ d' @ [10] @ s \<Longrightarrow> length k' = klen \<Longrightarrow> ib_stream b2 = d' @ [10] @ s" for k' d' s
        using head [of k' d' s] S(4) g2 by auto
      show ?thesis
      proof (cases g3)
        case False
        then have long: "length d \<noteq> dlen" and empty: "ib_willing b \<longrightarrow> ib_stream b3 = []" using D'(4,5) S(4) g2 K'(5) by auto
        have no: "\<not> (ib_willing b \<and> ib_stream b = k' @ [45, 62] @ d' @ [10] @ s \<and> length k' = klen \<and> length d' = dlen)" for k' d' s
          using tail [of k' d' s] too_short [OF D'(2) _ D'(3) long, of d' "[10] @ s"] empty by metis
        have run: "mcdb_bufread_rec m klen dlen b w = Some (False, b3, m3, w3)"
          using K(1) g1 S(1) g2 D(1) False by (simp add: mcdb_bufread_rec_def)
        have fn: "mk_hash_fn m3 = mk_hash_fn m" using K(5) D(5) by simp
        show ?thesis
          by (rule exI [of _ False], rule exI [of _ b3], rule exI [of _ m3], rule exI [of _ w3])
            (use run D(2) fn own3 os3 no in blast)
      next
        case g3: True
        obtain g4 b4 w4 where N: "mcdb_bufread_sep [10] b3 w3 = Some (g4, b4, w4)" "ib_ok b4" "errno_only w3 w4"
          "g4 \<longrightarrow> ib_stream b3 = [10] @ ib_stream b4 \<and> (ib_willing b3 \<longrightarrow> ib_willing b4)"
          "ib_willing b3 \<longrightarrow> w4 = w3 \<and> (\<forall>s. ib_stream b3 = [10] @ s \<longrightarrow> g4)"
          using bufread_sep_props [OF D(2), of "[10]" w3] by auto
        note E4 = errno_only_inv [OF N(3)]
        have run: "mcdb_bufread_rec m klen dlen b w = Some (g4, b4, m3, w4)"
          using g1 g2 g3 K(1) S(1) D(1) N(1) by (simp add: mcdb_bufread_rec_def)
        have will3: "ib_willing b \<Longrightarrow> ib_willing b3" using K'(5) S(4) g2 D'(5) by auto
        have all: "g4" if "ib_willing b \<and> ib_stream b = k' @ [45, 62] @ d' @ [10] @ s \<and> length k' = klen \<and> length d' = dlen" for k' d' s
        proof -
          have "ib_stream b2 = d' @ [10] @ s" using tail that by blast
          then have "ib_stream b3 = [10] @ s" using D'(2,4) g3 that by auto
          then show g4 using N(5) will3 that by blast
        qed
        have "g4 \<Longrightarrow> ib_stream b = k @ [45, 62] @ d @ [10] @ ib_stream b4"
          using K'(2) S(4) g2 D'(2) N(4) by auto
        moreover have "adding pk hf base recs (part @ k @ d) 0 m3 w4" using D'(1,4) g3 E4(2) by simp
        moreover have "mk_hp m3 = (mk_hp m)\<lparr>hp_h := call_hash_fn (mk_hash_fn m) (hp_h (mk_hp m)) k\<rparr>"
          using D(4) K(4) by (simp add: str_hash_def)
        moreover have "os_same w w4" using os3 E4(4) by (simp add: os_same_def)
        moreover have "length k = klen" "length d = dlen" "mk_hash_fn m3 = mk_hash_fn m"
          using g1 g3 K(5) K'(4) D(5) D'(4) by simp_all
        moreover have "owns_blocks base m3 w4" "ib_willing b \<Longrightarrow> g4 \<Longrightarrow> ib_willing b4" using own3 E4(3) will3 N(4) by auto
        ultimately show ?thesis
          by (intro exI [of _ g4] exI [of _ b4] exI [of _ m3] exI [of _ w4]) (use run N(2) all in blast)
      qed
    qed
  qed
qed

end
