(* ===== verification/Make_Tables.thy ===== *)
theory Make_Tables
  imports Make_Start
begin

text \<open>
  The hash tables of \<^verbatim>\<open>mcdb_make_finish\<close>: the probe and the stores for one entry are the
  insertion of the abstract table, for narrow (8-byte) and wide (16-byte) cells.
\<close>

definition cell_pos_off :: "nat \<Rightarrow> nat" where
  "cell_pos_off b = (if b = 3 then 4 else 8)"

definition entry_fits :: "nat \<Rightarrow> mcdb_hp \<Rightarrow> bool" where
  "entry_fits b e \<longleftrightarrow> 0 < hp_p e \<and> hp_p e < 256 ^ cell_pos_off b"

definition table_fits :: "nat \<Rightarrow> mcdb_hp table \<Rightarrow> bool" where
  "table_fits b T \<longleftrightarrow> (\<forall>c e. T c = Some e \<longrightarrow> entry_fits b e)"

text \<open>The place of a table: aligned, in the mapping, small enough for the 32-bit shift.\<close>

definition table_place :: "mcdb_make \<Rightarrow> os \<Rightarrow> nat \<Rightarrow> nat \<Rightarrow> nat \<Rightarrow> bool" where
  "table_place m w p b n \<longleftrightarrow> (b = 3 \<or> b = 4) \<and> p mod 16 = 0 \<and> n \<le> 2 ^ 28 \<and>
     mk_access m w p (n * 2 ^ b)"

lemma access_within:
  assumes "mk_access m w p k" "p \<le> a" "a + n \<le> p + k"
  shows "mk_access m w a n"
  using assms by (auto simp: mk_access_def)

lemma cell_access:
  assumes "table_place m w p b n" "c < n" "i + k \<le> 2 ^ b"
  shows "mk_access m w (p + c * 2 ^ b + i) k"
  using assms cell_in_table [of c n i k b p]
  by (auto simp: table_place_def mk_access_def)

text \<open>The position words of the cells.\<close>

lemma cell_position:
  assumes "table_at f p b n T" "c < n" "b = 3 \<or> b = 4"
  shows "mem_slice f (p + c * 2 ^ b + cell_pos_off b) (cell_pos_off b) =
    (case T c of None \<Rightarrow> replicate (cell_pos_off b) 0 | Some e \<Rightarrow> be_bytes (cell_pos_off b) (hp_p e))"
proof -
  have "mem_slice f (p + c * 2 ^ b) (2 ^ b) = cell_bytes b (T c)" using assms by (simp add: table_at_def)
  from slice_part [OF this, of "cell_pos_off b" "cell_pos_off b"] show ?thesis
    using assms(3) by (auto simp: cell_bytes_def cell_pos_off_def split: option.splits)
qed

lemma all_zero_bytes: "list_all (\<lambda>x. x = 0) (be_bytes k v) \<longleftrightarrow> v mod 256 ^ k = 0"
proof -
  have "list_all (\<lambda>x. x = 0) (be_bytes k v) \<longleftrightarrow> be_bytes k v = replicate k 0"
  proof
    assume "list_all (\<lambda>x. x = 0) (be_bytes k v)"
    then show "be_bytes k v = replicate k 0" by (intro replicate_eqI) (auto simp: list_all_iff)
  qed (simp add: list_all_iff)
  also have "\<dots> \<longleftrightarrow> v mod 256 ^ k = 0"
  proof
    assume "be_bytes k v = replicate k 0"
    then have "be_val (be_bytes k v) = be_val (be_bytes k 0)" by (simp only: be_bytes_0)
    then show "v mod 256 ^ k = 0" by (simp add: be_val_be_bytes)
  next
    assume "v mod 256 ^ k = 0"
    then have "be_val (be_bytes k v) = 0" by (simp add: be_val_be_bytes)
    then show "be_bytes k v = replicate k 0"
      using be_bytes_be_val [of "be_bytes k v"] by (simp add: be_bytes_0)
  qed
  finally show ?thesis .
qed

lemma load_position:
  assumes place: "table_place m w p b n" and tab: "table_at (o_file w) p b n T" and fits: "table_fits b T" and c: "c < n"
  shows "\<exists>cell. mk_load_aligned m (p + cell_pos_off b + c * 2 ^ b) (if b = 3 then 4 else 8) w = Some cell \<and>
    (list_all (\<lambda>x. x = 0) cell \<longleftrightarrow> T c = None)"
proof -
  have b: "b = 3 \<or> b = 4" and p: "p mod 16 = 0" using place by (auto simp: table_place_def)
  have off: "p + cell_pos_off b + c * 2 ^ b = p + c * 2 ^ b + cell_pos_off b" by simp
  have size: "(if b = 3 then 4 else 8) = cell_pos_off b" by (simp add: cell_pos_off_def)
  from p obtain k where k: "p = 16 * k" by (auto simp: mod_eq_0_iff_dvd)
  have aligned: "(p + c * 2 ^ b + cell_pos_off b) mod cell_pos_off b = 0"
  proof -
    have "cell_pos_off b dvd 16 * k" "cell_pos_off b dvd 2 ^ b" using b by (auto simp: cell_pos_off_def)
    then show ?thesis unfolding k mod_eq_0_iff_dvd by (intro dvd_add) auto
  qed
  have access: "mk_access m w (p + c * 2 ^ b + cell_pos_off b) (cell_pos_off b)"
    by (rule cell_access [OF place c]) (use b in \<open>auto simp: cell_pos_off_def\<close>)
  have zero: "list_all (\<lambda>x. x = 0) (case T c of None \<Rightarrow> replicate (cell_pos_off b) 0
      | Some e \<Rightarrow> be_bytes (cell_pos_off b) (hp_p e)) \<longleftrightarrow> T c = None"
    using fits by (auto simp: all_zero_bytes table_fits_def entry_fits_def list_all_iff [of _ "replicate _ _"] split: option.splits)
  show ?thesis
    unfolding off size mk_load_aligned_def mk_load_def cell_position [OF tab c b]
    using aligned access zero by simp
qed

lemma find_cell_probes:
  assumes place: "table_place m w p b n" and tab: "table_at (o_file w) p b n T" and fits: "table_fits b T"
    and len: "unat len = n" and room: "run_len T n s < n"
  shows "j \<le> run_len T n s \<Longrightarrow>
    find_cell m w (p + cell_pos_off b) b len (word_of_nat (probe_seq n s j)) = Some (word_of_nat (probe_seq n s (run_len T n s)))"
proof (induction "run_len T n s - j" arbitrary: j)
  case 0
  then have j: "j = run_len T n s" by simp
  have c: "probe_seq n s j < n" using room by (simp add: probe_seq_less)
  have u: "unat (word_of_nat (probe_seq n s j) :: u32) = probe_seq n s j"
    using c place by (intro unat_of_nat_u32) (simp add: table_place_def)
  obtain cell where "mk_load_aligned m (p + cell_pos_off b + probe_seq n s j * 2 ^ b) (if b = 3 then 4 else 8) w = Some cell"
    "list_all (\<lambda>x. x = 0) cell"
    using load_position [OF place tab fits c] run_len_free [OF room] j by auto
  then show ?case using u j by (subst find_cell.simps) simp
next
  case (Suc d)
  then have j: "j < run_len T n s" by simp
  have n: "0 < n" using room by simp
  have c: "probe_seq n s j < n" using n by (simp add: probe_seq_less)
  have n32: "n < 4294967296" using place by (simp add: table_place_def)
  have u: "unat (word_of_nat (probe_seq n s j) :: u32) = probe_seq n s j"
    using c n32 by (intro unat_of_nat_u32) simp
  obtain cell where cell: "mk_load_aligned m (p + cell_pos_off b + probe_seq n s j * 2 ^ b) (if b = 3 then 4 else 8) w = Some cell"
    "\<not> list_all (\<lambda>x. x = 0) cell"
    using load_position [OF place tab fits c] run_len_occupied [OF j] by auto
  have next_eq: "(if word_of_nat (probe_seq n s j) + 1 = len then 0 else word_of_nat (probe_seq n s j) + 1) =
      (word_of_nat (probe_seq n s (Suc j)) :: u32)"
  proof -
    have w: "word_of_nat (probe_seq n s j) + 1 = (word_of_nat (Suc (probe_seq n s j)) :: u32)" by (simp add: add.commute)
    have "word_of_nat (Suc (probe_seq n s j)) = len \<longleftrightarrow> Suc (probe_seq n s j) = n"
      using c n32 len by (metis Suc_le_eq order_le_less_trans unat_of_nat_u32 word_unat_eq_iff)
    then show ?thesis unfolding w using n by (simp add: probe_seq_Suc del: of_nat_Suc)
  qed
  have "find_cell m w (p + cell_pos_off b) b len (word_of_nat (probe_seq n s (Suc j))) = Some (word_of_nat (probe_seq n s (run_len T n s)))"
    by (rule Suc.hyps(1)) (use Suc.hyps(2) j in auto)
  then show ?case using u cell next_eq by (subst find_cell.simps) simp
qed

text \<open>One entry.\<close>

lemma table_at_upd:
  assumes tab: "table_at f p b n T" and c: "c < n" and len: "length bs = 2 ^ b" and bs: "bs = cell_bytes b (Some e)"
  shows "table_at (mem_upd f (p + c * 2 ^ b) bs) p b n (T(c := Some e))"
  unfolding table_at_def
proof (intro allI impI)
  fix d assume d: "d < n"
  show "mem_slice (mem_upd f (p + c * 2 ^ b) bs) (p + d * 2 ^ b) (2 ^ b) = cell_bytes b ((T(c := Some e)) d)"
  proof (cases "d = c")
    case True
    with len bs show ?thesis by simp
  next
    case False
    then have "Suc d * 2 ^ b \<le> c * 2 ^ b \<or> Suc c * 2 ^ b \<le> d * (2 :: nat) ^ b"
      by (metis Suc_leI linorder_neqE_nat mult_le_mono1)
    then show ?thesis using tab d False len by (subst mem_slice_upd_disjoint) (auto simp: table_at_def)
  qed
qed

lemma store_upd: "mk_access m w a (length bs) \<Longrightarrow> mk_store m a bs w = Some (w\<lparr>o_file := mem_upd (o_file w) a bs\<rparr>)"
  by (simp add: mk_store_def)

lemma mk_access_file [simp]: "mk_access m (w\<lparr>o_file := f\<rparr>) = mk_access m w"
  by (simp add: fun_eq_iff mk_access_def)

lemma finish_entry_stores:
  assumes P: "plasma_bigendian P" and place: "table_place m w p b n" and c: "c < n" and fits: "entry_fits b e"
    and find: "find_cell m w (p + cell_pos_off b) b len (drop_bit MCDB_SLOT_BITS (hp_h e) mod len) = Some u"
    and shift: "unat (push_bit b u) = c * 2 ^ b" and len: "len \<noteq> 0"
  shows "finish_entry P m p b len e w = Some (w\<lparr>o_file := mem_upd (o_file w) (p + c * 2 ^ b) (cell_bytes b (Some e))\<rparr>)"
proof -
  obtain k where k: "p = 16 * k" using place by (auto simp: table_place_def mod_eq_0_iff_dvd)
  consider (narrow) "b = 3" | (wide) "b = 4" using place by (auto simp: table_place_def)
  then show ?thesis
  proof cases
    case narrow
    have acc: "mk_access m w (p + c * 8) 4" "mk_access m w (p + c * 8 + 4) 4"
      using cell_access [OF place c, of 0 4] cell_access [OF place c, of 4 4] narrow by simp_all
    have al: "(p + c * 8) mod 4 = 0" "(p + c * 8 + 4) mod 4 = 0" unfolding k by presburger+
    have a: "p + 4 + c * 8 = p + c * 8 + 4" by simp
    have pos: "unat (word_of_nat (hp_p e) :: u32) = hp_p e"
      using fits narrow by (simp add: entry_fits_def cell_pos_off_def unat_of_nat_u32)
    have u: "find_cell m w (p + 4) 3 len (drop_bit MCDB_SLOT_BITS (hp_h e) mod len) = Some u"
      and shift3: "unat (push_bit 3 u) = c * 8" using find shift narrow by (simp_all add: cell_pos_off_def)
    show ?thesis
      using acc al len pos narrow mem_upd_append [of "o_file w" "p + c * 8" "be_bytes 4 (unat (hp_h e))"]
      by (simp add: finish_entry_def Let_def u shift3 a mk_store_aligned_def store_upd pack_be [OF P] cell_bytes_def)
  next
    case wide
    have acc: "mk_access m w (p + c * 16) 4" "mk_access m w (p + c * 16 + 4) 4" "mk_access m w (p + c * 16 + 8) 8"
      using cell_access [OF place c, of 0 4] cell_access [OF place c, of 4 4] cell_access [OF place c, of 8 8] wide by simp_all
    have al: "(p + c * 16) mod 4 = 0" "(p + c * 16 + 4) mod 4 = 0" "(p + c * 16 + 8) mod 8 = 0" unfolding k by presburger+
    have a: "p + 8 + c * 16 = p + c * 16 + 8" "p + c * 16 + 8 - 4 = p + c * 16 + 4" by simp_all
    have pos: "unat (word_of_nat (hp_p e) :: u64) = hp_p e"
      using fits wide by (simp add: entry_fits_def cell_pos_off_def unat_of_nat_u64)
    have u: "find_cell m w (p + 8) 4 len (drop_bit MCDB_SLOT_BITS (hp_h e) mod len) = Some u"
      and shift4: "unat (push_bit 4 u) = c * 16" using find shift wide by (simp_all add: cell_pos_off_def)
    have two: "mem_upd (mem_upd f (p + c * 16) x) (p + c * 16 + 4) y = mem_upd f (p + c * 16) (x @ y)"
      if "length x = 4" for f x y using mem_upd_append [of f "p + c * 16" x y] that by simp
    have three: "mem_upd (mem_upd f (p + c * 16) x) (p + c * 16 + 8) y = mem_upd f (p + c * 16) (x @ y)"
      if "length x = 8" for f x y using mem_upd_append [of f "p + c * 16" x y] that by simp
    show ?thesis
      using acc al len pos wide
      by (simp add: finish_entry_def Let_def u shift4 a mk_store_aligned_def store_upd pack_be [OF P] cell_bytes_def two three)
  qed
qed

lemma finish_entry_insert:
  assumes P: "plasma_bigendian P" and place: "table_place m w p b n" and len: "unat len = n"
    and tab: "table_at (o_file w) p b n T" and fits: "table_fits b T" "entry_fits b e"
    and ins: "lp.insert_entry n e T = Some T'"
  shows "\<exists>f. finish_entry P m p b len e w = Some (w\<lparr>o_file := f\<rparr>) \<and> table_at f p b n T' \<and> table_fits b T' \<and>
    (\<forall>a. a < p \<or> p + n * 2 ^ b \<le> a \<longrightarrow> f a = o_file w a)"
proof -
  define s where "s = entry_home n e"
  define c where "c = probe_seq n s (run_len T n s)"
  have room: "run_len T n s < n" and T': "T' = T(c := Some e)"
    using ins by (auto simp: lp.insert_entry_def find_free_def Let_def s_def c_def split: if_splits)
  have n: "0 < n" "n \<le> 2 ^ 28" and b: "b = 3 \<or> b = 4" and p: "p mod 16 = 0" using place room by (auto simp: table_place_def)
  have c: "c < n" using n by (simp add: c_def probe_seq_less)
  have s: "s < n" using n by (simp add: s_def entry_home_def)
  have "unat (drop_bit MCDB_SLOT_BITS (hp_h e) mod len) = s" by (simp add: s_def entry_home_def unat_mod len)
  moreover have "unat (word_of_nat s :: u32) = s" using s n by (intro unat_of_nat_u32) simp
  ultimately have "drop_bit MCDB_SLOT_BITS (hp_h e) mod len = word_of_nat s" by (simp only: word_unat_eq_iff)
  then have s: "drop_bit MCDB_SLOT_BITS (hp_h e) mod len = word_of_nat (probe_seq n s 0)" using s by simp
  have u: "find_cell m w (p + cell_pos_off b) b len (drop_bit MCDB_SLOT_BITS (hp_h e) mod len) = Some (word_of_nat c)"
    using find_cell_probes [OF place tab fits(1) len room, of 0] s by (simp add: c_def)
  have "c * 2 ^ b < 2 ^ 32" using c n b by auto
  moreover have "push_bit b (word_of_nat c :: u32) = word_of_nat (c * 2 ^ b)" by (simp add: push_bit_eq_mult)
  ultimately have shift: "unat (push_bit b (word_of_nat c :: u32)) = c * 2 ^ b"
    by (simp only: unat_of_nat_u32) (simp add: unat_of_nat_u32 del: of_nat_mult)
  let ?a = "p + c * 2 ^ b" and ?bs = "cell_bytes b (Some e)"
  have len_bs: "length ?bs = 2 ^ b" using b by (auto simp: cell_bytes_def)
  have "finish_entry P m p b len e w = Some (w\<lparr>o_file := mem_upd (o_file w) ?a ?bs\<rparr>)"
    using n len by (intro finish_entry_stores [OF P place c fits(2) u shift]) auto
  moreover have "table_at (mem_upd (o_file w) ?a ?bs) p b n T'"
    unfolding T' by (rule table_at_upd [OF tab c len_bs refl])
  moreover have "table_fits b T'" using fits T' by (auto simp: table_fits_def)
  moreover have "a < p \<or> p + n * 2 ^ b \<le> a \<Longrightarrow> mem_upd (o_file w) ?a ?bs a = o_file w a" for a
    using cell_in_table [OF c, of 0 "2 ^ b" b p] len_bs by (intro mem_upd_out) auto
  ultimately show ?thesis by blast
qed

text \<open>All entries of a slot.\<close>

lemma table_place_file [simp]: "table_place m (w\<lparr>o_file := f\<rparr>) = table_place m w"
  by (simp add: fun_eq_iff table_place_def)

lemma finish_entries_insert:
  assumes P: "plasma_bigendian P" and len: "unat len = n"
  shows "table_place m w p b n \<Longrightarrow> table_at (o_file w) p b n T \<Longrightarrow> table_fits b T \<Longrightarrow>
    (\<And>e. e \<in> set es \<Longrightarrow> entry_fits b e) \<Longrightarrow> lp.insert_all n es T = Some T' \<Longrightarrow>
    \<exists>f. finish_entries P m p b len es w = Some (w\<lparr>o_file := f\<rparr>) \<and> table_at f p b n T' \<and>
      (\<forall>a. a < p \<or> p + n * 2 ^ b \<le> a \<longrightarrow> f a = o_file w a)"
proof (induction es arbitrary: w T)
  case Nil
  then show ?case by (auto intro: exI [of _ "o_file w"])
next
  case (Cons e es)
  from Cons.prems(5) obtain T1 where T1: "lp.insert_entry n e T = Some T1" "lp.insert_all n es T1 = Some T'"
    by (auto simp: bind_eq_Some_conv)
  obtain f where f: "finish_entry P m p b len e w = Some (w\<lparr>o_file := f\<rparr>)" "table_at f p b n T1" "table_fits b T1"
    "\<forall>a. a < p \<or> p + n * 2 ^ b \<le> a \<longrightarrow> f a = o_file w a"
    using finish_entry_insert [OF P Cons.prems(1) len Cons.prems(2,3) _ T1(1)] Cons.prems(4) by auto
  from Cons.IH [of "w\<lparr>o_file := f\<rparr>" T1] Cons.prems f T1 obtain g where
    "finish_entries P m p b len es (w\<lparr>o_file := f\<rparr>) = Some (w\<lparr>o_file := g\<rparr>)" "table_at g p b n T'"
    "\<forall>a. a < p \<or> p + n * 2 ^ b \<le> a \<longrightarrow> g a = f a" by auto
  with f show ?case by auto
qed

lemma table_at_empty:
  assumes "mem_slice f p (n * 2 ^ b) = replicate (n * 2 ^ b) 0"
  shows "table_at f p b n (\<lambda>_. None)"
  unfolding table_at_def
proof (intro allI impI)
  fix c assume "c < n"
  then have "c * 2 ^ b + 2 ^ b \<le> n * 2 ^ b" using cell_in_table [of c n 0 "2 ^ b" b 0] by simp
  from slice_part [OF assms this] \<open>c * 2 ^ b + 2 ^ b \<le> n * 2 ^ b\<close>
  show "mem_slice f (p + c * 2 ^ b) (2 ^ b) = cell_bytes b None" by (simp add: cell_bytes_def)
qed

text \<open>Positions fit the position words of the chosen stride.\<close>

lemma entry_fits_stride:
  assumes "e \<in> set (entries hf recs)" "length (data_bytes recs) < 2 ^ 61"
  shows "entry_fits (stride_bits recs) e"
  using entry_pos [OF assms(1)] assms(2)
  by (auto simp: entry_fits_def cell_pos_off_def stride_bits_def tables_start_def data_end_def mcdb_consts)

text \<open>A slot's entries always fit into its table of twice their number of cells.\<close>

end
