(* ===== verification/Make_Finish.thy ===== *)
theory Make_Finish
  imports Make_Tables
begin

text \<open>
  Finishing: the tables are written slot by slot, the header last.  The result is a database
  file of the records, or an error; in both cases every block is given back.
\<close>

subsection \<open>The part of the file before a slot's table\<close>

definition db_prefix :: "(bytes \<Rightarrow> u32) \<Rightarrow> kv list \<Rightarrow> nat \<Rightarrow> mem \<Rightarrow> bool" where
  "db_prefix hf recs i f \<longleftrightarrow>
     mem_slice f MCDB_HEADER_SZ (length (data_bytes recs)) = data_bytes recs \<and>
     mem_slice f (data_end recs) (pad_len (data_end recs)) = replicate (pad_len (data_end recs)) (-1) \<and>
     (\<forall>j < i. \<exists>T. slot_table hf recs j = Some T \<and>
        table_at f (table_pos hf recs j) (stride_bits recs) (slot_cells hf recs j) T)"

lemma table_at_cong:
  assumes "table_at f p b n T" "\<And>a. p \<le> a \<Longrightarrow> a < p + n * 2 ^ b \<Longrightarrow> g a = f a"
  shows "table_at g p b n T"
  unfolding table_at_def
proof (intro allI impI)
  fix c assume c: "c < n"
  then have "p + c * 2 ^ b + 2 ^ b \<le> p + n * 2 ^ b" using cell_in_table [of c n 0 "2 ^ b" b p] by simp
  then have "mem_slice g (p + c * 2 ^ b) (2 ^ b) = mem_slice f (p + c * 2 ^ b) (2 ^ b)"
    by (intro mem_slice_eqI assms(2)) auto
  with assms(1) c show "mem_slice g (p + c * 2 ^ b) (2 ^ b) = cell_bytes b (T c)" by (simp add: table_at_def)
qed

lemma data_end_le_tables: "data_end recs + pad_len (data_end recs) = tables_start recs"
  by (simp add: tables_start_def)

lemma db_prefix_cong:
  assumes pre: "db_prefix hf recs i f"
    and same: "\<And>a. MCDB_HEADER_SZ \<le> a \<Longrightarrow> a < table_pos hf recs i \<Longrightarrow> g a = f a"
  shows "db_prefix hf recs i g"
proof -
  have start: "tables_start recs \<le> table_pos hf recs i" using table_pos_mono [of 0 i hf recs] by simp
  have s1: "mem_slice g MCDB_HEADER_SZ (length (data_bytes recs)) = mem_slice f MCDB_HEADER_SZ (length (data_bytes recs))"
    using start by (intro mem_slice_eqI same) (auto simp: tables_start_def data_end_def)
  have s2: "mem_slice g (data_end recs) (pad_len (data_end recs)) = mem_slice f (data_end recs) (pad_len (data_end recs))"
    using start by (intro mem_slice_eqI same) (auto simp: tables_start_def data_end_def)
  have s3: "\<exists>T. slot_table hf recs j = Some T \<and>
      table_at g (table_pos hf recs j) (stride_bits recs) (slot_cells hf recs j) T" if "j < i" for j
  proof -
    from pre that obtain T where T: "slot_table hf recs j = Some T"
      "table_at f (table_pos hf recs j) (stride_bits recs) (slot_cells hf recs j) T" by (auto simp: db_prefix_def)
    have "table_pos hf recs j + slot_cells hf recs j * 2 ^ stride_bits recs \<le> table_pos hf recs i"
      using table_pos_mono [of "Suc j" i hf recs] that by (simp add: table_pos_Suc)
    moreover have "MCDB_HEADER_SZ \<le> table_pos hf recs j"
      using table_pos_mono [of 0 j hf recs] by (simp add: tables_start_def data_end_def)
    ultimately have "table_at g (table_pos hf recs j) (stride_bits recs) (slot_cells hf recs j) T"
      by (intro table_at_cong [OF T(2)] same) auto
    with T(1) show ?thesis by blast
  qed
  show ?thesis using pre s1 s2 s3 by (simp add: db_prefix_def)
qed

subsection \<open>The header buffer\<close>

lemma header_slot:
  assumes P: "plasma_bigendian P" and d: "d = table_pos hf recs i" "d < 2 ^ 64" and len: "unat len = slot_cells hf recs i"
    and h: "h = mem_upd (mem_upd (mem_upd hdr (i * 16) (uint64_strpack_bigendian_aligned_macro P (word_of_nat d)))
      (i * 16 + 8) (uint32_strpack_bigendian_aligned_macro P len)) (i * 16 + 12) [0, 0, 0, 0]"
  shows "header_at h hf recs i" "\<And>j. j < i \<Longrightarrow> header_at hdr hf recs j \<Longrightarrow> header_at h hf recs j"
proof -
  have pos: "unat (word_of_nat d :: u64) = d" using d(2) by (intro unat_of_nat_u64) simp
  show "header_at h hf recs i"
    unfolding header_at_def h using d len pos
    by (simp add: pack_be [OF P] mem_slice_upd_disjoint)
  fix j assume "j < i" "header_at hdr hf recs j"
  then show "header_at h hf recs j"
    unfolding header_at_def h by (simp add: pack_be [OF P] mem_slice_upd_disjoint)
qed

lemma header_written:
  assumes "header_at hdr hf recs i" "i < MCDB_SLOTS"
  shows "header_at (mem_upd f 0 (mem_slice hdr 0 MCDB_HEADER_SZ)) hf recs i"
proof -
  have "mem_slice (mem_upd f 0 (mem_slice hdr 0 MCDB_HEADER_SZ)) a n = mem_slice hdr a n" if "a + n \<le> MCDB_HEADER_SZ" for a n
    using that by (subst mem_slice_upd_within) (auto simp: drop_mem_slice take_mem_slice)
  with assms show ?thesis by (simp add: header_at_def mcdb_consts)
qed

subsection \<open>The loop over the slots\<close>

definition fin_inv ::
  "nat \<Rightarrow> (bytes \<Rightarrow> u32) \<Rightarrow> nat multiset \<Rightarrow> kv list \<Rightarrow> nat \<Rightarrow> mcdb_make \<Rightarrow> mem \<Rightarrow> os \<Rightarrow> bool" where
  "fin_inv pk hf base recs i m hdr w \<longleftrightarrow> window m w \<and> mk_pgalign m = page_mask pk \<and>
     mk_pos m = table_pos hf recs i \<and> lists_ok (entries hf recs) m \<and> owns_blocks base m w \<and>
     (\<forall>j < i. header_at hdr hf recs j) \<and> db_prefix hf recs i (o_file w)"

lemma slot_len:
  assumes "lists_ok (entries hf recs) m" "recs_ok hf recs" "i < MCDB_SLOTS"
  shows "unat (push_bit 1 (mk_count m i)) = slot_cells hf recs i"
proof -
  have "mk_count m i = word_of_nat (length (slot_hps (entries hf recs) i))" using assms by (simp add: lists_ok_def)
  then have "push_bit 1 (mk_count m i) = word_of_nat (slot_cells hf recs i)"
    by (simp add: push_bit_eq_mult slot_cells_def mult.commute)
  moreover have "slot_cells hf recs i < 4294967296" using slot_cells_bound [OF assms(2,3)] by simp
  ultimately show ?thesis by (simp only: unat_of_nat_u32)
qed

lemma window_kept:
  assumes "window m w" "calls w ok w'"
  shows "\<forall>a < mk_pos m. o_file w' a = o_file w a"
  using assms by (auto simp: window_def mk_sized_def calls_def file_kept_def)

text \<open>One slot, once its table is mapped.\<close>

lemma fill_and_enter:
  assumes P: "plasma_bigendian P" and ok: "recs_ok hf recs" and i: "i < MCDB_SLOTS"
    and win: "window m w" and pos: "mk_pos m = table_pos hf recs i" and lists: "lists_ok (entries hf recs) m"
    and room: "table_pos hf recs (Suc i) \<le> mk_offset m + mk_msz m"
    and pre: "db_prefix hf recs i (o_file w)" and m': "m' = m\<lparr>mk_pos := table_pos hf recs (Suc i)\<rparr>"
    and len: "unat len = slot_cells hf recs i"
  shows "\<exists>w1 f. mk_fill m' (mk_pos m) (slot_cells hf recs i * 2 ^ stride_bits recs) 0 w = Some w1 \<and>
    finish_entries P m' (mk_pos m) (stride_bits recs) len (slot_entries m' i) w1 = Some (w\<lparr>o_file := f\<rparr>) \<and>
    db_prefix hf recs (Suc i) f"
proof -
  let ?p = "table_pos hf recs i" and ?n = "slot_cells hf recs i" and ?b = "stride_bits recs"
  have sz: "table_pos hf recs (Suc i) = ?p + ?n * 2 ^ ?b" by (simp add: table_pos_Suc)
  have acc: "mk_access m' w ?p (?n * 2 ^ ?b)"
    using win pos room sz by (auto simp: m' mk_access_def window_def mk_sized_def)
  define f0 where "f0 = mem_fill (o_file w) ?p (?n * 2 ^ ?b) 0"
  have place: "table_place m' (w\<lparr>o_file := f0\<rparr>) ?p ?b ?n"
    using acc slot_cells_bound [OF ok i] table_pos_aligned [of hf recs i]
    by (simp add: table_place_def stride_bits_def)
  have empty: "table_at f0 ?p ?b ?n (\<lambda>_. None)"
    by (rule table_at_empty) (simp add: f0_def mem_slice_fill_within)
  obtain T where T: "slot_table hf recs i = Some T" using slot_table_exists by blast
  have es: "slot_entries m' i = newest_first (slot_hps (entries hf recs) i)"
    using lists i slot_lists_entries [of _ m i] by (simp add: lists_ok_def m' slot_entries_def)
  have fits: "entry_fits ?b e" if "e \<in> set (slot_entries m' i)" for e
    using that es ok by (auto intro: entry_fits_stride slot_hps_subset simp: recs_ok_def)
  obtain f where f: "finish_entries P m' ?p ?b len (slot_entries m' i) (w\<lparr>o_file := f0\<rparr>) = Some (w\<lparr>o_file := f\<rparr>)"
    "table_at f ?p ?b ?n T" "\<forall>a. a < ?p \<or> ?p + ?n * 2 ^ ?b \<le> a \<longrightarrow> f a = f0 a"
    using finish_entries_insert [OF P len place _ _ fits, where T = "\<lambda>_. None" and T' = T and es = "slot_entries m' i"] T empty
    by (auto simp: table_fits_def slot_table_def es)
  have "db_prefix hf recs i f"
    by (rule db_prefix_cong [OF pre]) (use f(3) in \<open>simp add: f0_def mem_fill_out\<close>)
  then have "db_prefix hf recs (Suc i) f" using f(2) T by (auto simp: db_prefix_def less_Suc_eq)
  with f(1) acc show ?thesis by (auto simp: mk_fill_def f0_def pos)
qed

lemma finish_slots_props:
  assumes P: "plasma_bigendian P" and ok: "recs_ok hf recs" and pk: "pk \<le> 30"
  shows "fin_inv pk hf base recs i m hdr w \<Longrightarrow> i + n = MCDB_SLOTS \<Longrightarrow>
    \<exists>j m' hdr' w'. finish_slots P (stride_bits recs) n i m hdr w = Some (j, m', hdr', w') \<and>
      owns_blocks base m' w' \<and> os_same w w' \<and> mk_fd m' = mk_fd m \<and>
      (j = MCDB_SLOTS \<and> fin_inv pk hf base recs MCDB_SLOTS m' hdr' w' \<or> j < MCDB_SLOTS) \<and>
      (os_willing w \<longrightarrow> j = MCDB_SLOTS)"
proof (induction n arbitrary: i m hdr w)
  case 0
  then show ?case by (auto simp: fin_inv_def os_same_def)
next
  case (Suc n)
  have i: "i < MCDB_SLOTS" using Suc.prems(2) by simp
  note inv = Suc.prems(1) [unfolded fin_inv_def]
  let ?p = "table_pos hf recs i" and ?sz = "slot_cells hf recs i * 2 ^ stride_bits recs"
  have pos: "mk_pos m = table_pos hf recs i" using inv by blast
  define L where "L = push_bit 1 (mk_count m i)"
  have len: "unat L = slot_cells hf recs i" using slot_len [OF _ ok i] inv unfolding L_def by blast
  have bound: "?p + ?sz < 2 ^ 62" using table_pos_bound [OF ok, of "Suc i"] i by (simp add: table_pos_Suc)
  obtain r m1 w1 where up: "(if mk_offset m + mk_msz m < ?p + ?sz then mcdb_mmap_upsize m (?p + ?sz) w
      else (True, m, w)) = (r, m1, w1)"
    "mk_same m m1" "calls w r w1" "r \<Longrightarrow> window m1 w1" "r \<Longrightarrow> ?p + ?sz \<le> mk_offset m1 + mk_msz m1"
    using inv upsize_for_add [OF _ _ pk _ bound, of m w] by metis
  have own: "owns_blocks base m1 w1" using inv up by (auto simp: mk_same_def calls_def intro: owns_blocks_cong)
  have run: "finish_slots P (stride_bits recs) (Suc n) i m hdr w = (if \<not> r then Some (i, m1, hdr, w1) else
      (let h3 = mem_upd (mem_upd (mem_upd hdr (i * 16) (uint64_strpack_bigendian_aligned_macro P (word_of_nat ?p)))
              (i * 16 + 8) (uint32_strpack_bigendian_aligned_macro P L)) (i * 16 + 12) [0, 0, 0, 0];
           m2 = m1\<lparr>mk_pos := mk_pos m1 + ?sz\<rparr>
       in do { w2 \<leftarrow> mk_fill m2 ?p ?sz 0 w1;
             w3 \<leftarrow> finish_entries P m2 ?p (stride_bits recs) L (slot_entries m2 i) w2;
             finish_slots P (stride_bits recs) n (Suc i) m2 h3 w3 }))"
    unfolding finish_slots.simps Let_def L_def [symmetric] len pos up(1) by simp
  show ?case
  proof (cases r)
    case False
    have "os_same w w1" "mk_fd m1 = mk_fd m" "\<not> os_willing w" using up False by (simp_all add: calls_def mk_same_def)
    then show ?thesis using run False own i by auto
  next
    case True
    define m2 where "m2 = m1\<lparr>mk_pos := table_pos hf recs (Suc i)\<rparr>"
    have m1: "mk_pos m1 = ?p" "lists_ok (entries hf recs) m1"
      using inv up(2) by (auto simp: mk_same_def intro: lists_ok_cong)
    have pre: "db_prefix hf recs i (o_file w1)"
      by (rule db_prefix_cong [of hf recs i "o_file w"]) (use window_kept [of m w r w1] inv up(3) in auto)
    obtain w2 f where f: "mk_fill m2 ?p ?sz 0 w1 = Some w2"
      "finish_entries P m2 ?p (stride_bits recs) L (slot_entries m2 i) w2 = Some (w1\<lparr>o_file := f\<rparr>)"
      "db_prefix hf recs (Suc i) f"
      using fill_and_enter [OF P ok i _ m1 _ pre m2_def len] up True m1 by (auto simp: table_pos_Suc)
    define h3 where "h3 = mem_upd (mem_upd (mem_upd hdr (i * 16) (uint64_strpack_bigendian_aligned_macro P (word_of_nat ?p)))
              (i * 16 + 8) (uint32_strpack_bigendian_aligned_macro P L)) (i * 16 + 12) [0, 0, 0, 0]"
    have p64: "?p < 2 ^ 64" using bound by simp
    have hdr: "\<forall>j < Suc i. header_at h3 hf recs j"
      using header_slot [OF P refl p64 len h3_def] inv by (auto simp: less_Suc_eq)
    have inv2: "fin_inv pk hf base recs (Suc i) m2 h3 (w1\<lparr>o_file := f\<rparr>)"
      using True up m1 f(3) hdr own inv
      by (auto simp: fin_inv_def m2_def window_def mk_sized_def mk_same_def table_pos_Suc intro: lists_ok_cong owns_blocks_cong)
    have "finish_slots P (stride_bits recs) (Suc n) i m hdr w = finish_slots P (stride_bits recs) n (Suc i) m2 h3 (w1\<lparr>o_file := f\<rparr>)"
      using run True f m1 by (simp add: m2_def h3_def table_pos_Suc)
    moreover have "os_same w (w1\<lparr>o_file := f\<rparr>)" "mk_fd m2 = mk_fd m" "os_willing w \<Longrightarrow> os_willing (w1\<lparr>o_file := f\<rparr>)"
      using up by (simp_all add: calls_def os_same_def mk_same_def m2_def os_willing_def)
    ultimately show ?thesis using Suc.IH [OF inv2] Suc.prems(2) by (auto simp: os_same_def)
  qed
qed

end
