(* ===== verification/Make_Db.thy ===== *)
theory Make_Db
  imports Make_Finish
begin

text \<open>
  The commit, and the theorems about whole runs of the writer: under every pattern of
  failures it returns, gives every block back, and reports success only for a complete
  database file.
\<close>

subsection \<open>Writing the header\<close>

definition wrote :: "bytes \<Rightarrow> os \<Rightarrow> bool \<Rightarrow> os \<Rightarrow> bool" where
  "wrote buf w ok w' \<longleftrightarrow> os_same w w' \<and> o_live w' = o_live w \<and> (os_willing w \<longrightarrow> ok) \<and>
     (ok \<longrightarrow> o_file w' = mem_upd (o_file w) (o_off w) buf \<and> o_flen w' = max (o_flen w) (o_off w + length buf))"

lemma os_write_cases:
  assumes "buf \<noteq> []"
  obtains (failed) w1 where "os_write buf w = (None, w1)" "o_fail w (o_step w) \<noteq> 0" "o_errno w1 = o_fail w (o_step w)"
      "w1 = w\<lparr>o_step := Suc (o_step w), o_errno := o_fail w (o_step w)\<rparr>"
    | (some) n w1 where "os_write buf w = (Some n, w1)" "0 < n" "n \<le> length buf"
      "w1 = w\<lparr>o_step := Suc (o_step w), o_file := mem_upd (o_file w) (o_off w) (take n buf),
              o_flen := max (o_flen w) (o_off w + n), o_off := o_off w + n\<rparr>"
proof (cases "o_fail w (o_step w) = 0")
  case False
  with failed show ?thesis by (simp add: os_write_def ext_call_def Let_def)
next
  case True
  let ?n = "min (length buf) (max 1 (o_count w (o_step w)))"
  have "0 < ?n" "?n \<le> length buf" using assms by auto
  with some True show ?thesis by (simp add: os_write_def ext_call_def Let_def)
qed

lemma nointr_write_wrote:
  "buf \<noteq> [] \<Longrightarrow> eintr_fair w \<Longrightarrow> \<exists>ok w'. nointr_write buf w = Some (ok, w') \<and> wrote buf w ok w'"
proof (induction "length buf" arbitrary: buf w rule: less_induct)
  case less
  obtain j where j: "o_step w \<le> j" "o_fail w j \<noteq> EINTR" using less.prems(2) by (auto simp: eintr_fair_def)
  have "o_step v \<le> j \<Longrightarrow> o_fail v = o_fail w \<Longrightarrow> \<exists>ok w'. nointr_write buf v = Some (ok, w') \<and> wrote buf v ok w'" for v
  proof (induction "j - o_step v" arbitrary: v rule: less_induct)
    case inner: less
    show ?case
    proof (cases rule: os_write_cases [OF less.prems(1), where w = v, case_names failed some])
      case (failed v1)
      show ?thesis
      proof (cases "o_errno v1 = EINTR")
        case False
        then have "nointr_write buf v = Some (False, v1)" using failed(1) by (subst nointr_write.simps) simp
        moreover have "\<not> os_willing v" using failed(2) by (auto simp: os_willing_def)
        then have "wrote buf v False v1" using failed(4) by (simp add: wrote_def os_same_def)
        ultimately show ?thesis by blast
      next
        case True
        then have "o_step v < j" using failed(3) j inner.prems by (metis le_neq_implies_less)
        moreover from this have "j - Suc (o_step v) < j - o_step v" by linarith
        ultimately obtain ok w' where "nointr_write buf v1 = Some (ok, w')" "wrote buf v1 ok w'"
          using inner.hyps [of v1] inner.prems failed(4) by auto
        moreover have "nointr_write buf v = nointr_write buf v1" using failed(1) True by (subst nointr_write.simps) simp
        moreover have "wrote buf v1 ok w' \<Longrightarrow> wrote buf v ok w'"
          using failed(4) by (simp add: wrote_def os_same_def os_willing_def)
        ultimately show ?thesis by auto
      qed
    next
      case (some n v1)
      show ?thesis
      proof (cases "drop n buf = []")
        case True
        then have "take n buf = buf" "n = length buf" using some(3) by auto
        then have "wrote buf v True v1" using some(4) by (simp add: wrote_def os_same_def)
        moreover have "nointr_write buf v = Some (True, v1)" using some(1) True by (subst nointr_write.simps) simp
        ultimately show ?thesis by blast
      next
        case False
        have "length (drop n buf) < length buf" using some(2,3) by simp
        moreover have "eintr_fair v1" using less.prems(2) inner.prems some(4) by (simp add: eintr_fair_def)
        ultimately obtain ok w' where w': "nointr_write (drop n buf) v1 = Some (ok, w')" "wrote (drop n buf) v1 ok w'"
          using less.hyps [of "drop n buf" v1] False by blast
        moreover have "mem_upd (mem_upd (o_file v) (o_off v) (take n buf)) (o_off v + n) (drop n buf) = mem_upd (o_file v) (o_off v) buf"
          using mem_upd_append [of "o_file v" "o_off v" "take n buf" "drop n buf"] some(3) by (simp add: min_absorb2)
        moreover have "max (max (o_flen v) (o_off v + n)) (o_off v + length buf) = max (o_flen v) (o_off v + length buf)"
          using some(3) by (simp add: max_def)
        ultimately have "wrote (drop n buf) v1 ok w' \<Longrightarrow> wrote buf v ok w'"
          using some(3,4) by (simp add: wrote_def os_same_def os_willing_def)
        moreover have "nointr_write buf v = nointr_write (drop n buf) v1" using some(1) False by (subst nointr_write.simps) simp
        ultimately show ?thesis using w' by auto
      qed
    qed
  qed
  with j show ?case by simp
qed

subsection \<open>Commit\<close>

lemma ftruncate_props:
  assumes "os_ftruncate n w = (ok, w')" "n \<le> o_flen w"
  shows "os_same w w' \<and> o_live w' = o_live w \<and> (os_willing w \<longrightarrow> ok) \<and>
    (ok \<longrightarrow> o_flen w' = n \<and> (\<forall>a < n. o_file w' a = o_file w a))"
proof -
  obtain r w1 where e: "ext_call w = (r, w1)" by fastforce
  show ?thesis using assms ext_call_props [OF e]
    by (auto simp: os_ftruncate_def e set_flen_def os_same_def)
qed

lemma lseek_props:
  assumes "os_lseek n w = (ok, w')"
  shows "os_same w w' \<and> o_live w' = o_live w \<and> (os_willing w \<longrightarrow> ok) \<and> o_file w' = o_file w \<and> o_flen w' = o_flen w \<and>
    (ok \<longrightarrow> o_off w' = n)"
proof -
  obtain r w1 where e: "ext_call w = (r, w1)" by fastforce
  show ?thesis using assms ext_call_props [OF e] by (auto simp: os_lseek_def e os_same_def)
qed

lemma eintr_fair_same: "os_same w w' \<Longrightarrow> eintr_fair w \<Longrightarrow> eintr_fair w'"
  by (simp add: eintr_fair_def os_same_def)

lemma os_willing_same: "os_same w w' \<Longrightarrow> os_willing w' \<longleftrightarrow> os_willing w"
  by (simp add: os_willing_def os_same_def)

lemma os_same_trans: "os_same w w1 \<Longrightarrow> os_same w1 w2 \<Longrightarrow> os_same w w2"
  by (simp add: os_same_def)

lemma commit_props:
  assumes fair: "eintr_fair w" and fd: "mk_fd m \<noteq> -1" and len: "length header = MCDB_HEADER_SZ"
    and pos: "MCDB_HEADER_SZ \<le> mk_pos m" "mk_pos m \<le> o_flen w"
  shows "\<exists>ok w'. mcdb_mmap_commit m header w = Some (ok, w') \<and> os_same w w' \<and> o_live w' = o_live w \<and>
    (os_willing w \<longrightarrow> ok) \<and> (ok \<longrightarrow> o_flen w' = mk_pos m \<and>
      (\<exists>f. o_file w' = mem_upd f 0 header \<and> (\<forall>a < mk_pos m. f a = o_file w a)))"
proof -
  obtain ok1 w1 where t: "os_ftruncate (mk_pos m) w = (ok1, w1)" by fastforce
  note T = ftruncate_props [OF t pos(2)]
  obtain ok2 w2 where s: "(if ok1 then (if mk_pos m - mk_offset m = 0 then (True, w1) else ext_call w1)
                          else (False, w1)) = (ok2, w2)" by fastforce
  have S: "os_same w1 w2" "o_live w2 = o_live w1" "o_file w2 = o_file w1" "o_flen w2 = o_flen w1"
      "ok2 \<Longrightarrow> ok1" "ok1 \<Longrightarrow> os_willing w1 \<Longrightarrow> ok2"
    using s ext_call_props [of w1 ok2 w2] by (auto simp: os_same_def split: if_splits)
  obtain ok3 w3 where l: "(if ok2 then os_lseek 0 w2 else (False, w2)) = (ok3, w3)" by fastforce
  have L: "os_same w2 w3" "o_live w3 = o_live w2" "o_file w3 = o_file w2" "o_flen w3 = o_flen w2"
      "ok3 \<Longrightarrow> ok2 \<and> o_off w3 = 0" "ok2 \<Longrightarrow> os_willing w2 \<Longrightarrow> ok3"
    using l lseek_props [of 0 w2 ok3 w3] by (auto simp: os_same_def split: if_splits)
  have same: "os_same w w3" using T S(1) L(1) os_same_trans by blast
  have run: "mcdb_mmap_commit m header w = (if ok3 then nointr_write header w3 else Some (False, w3))"
    unfolding mcdb_mmap_commit_def t Let_def using fd by (simp add: s l)
  show ?thesis
  proof (cases ok3)
    case False
    then have "\<not> os_willing w" using T S L os_willing_same by metis
    moreover have "o_live w3 = o_live w" using T S(2) L(2) by simp
    ultimately show ?thesis using run False same by (intro exI [of _ False] exI [of _ w3]) simp
  next
    case True
    have "header \<noteq> []" using len by (auto simp: mcdb_consts)
    then obtain ok w' where w': "nointr_write header w3 = Some (ok, w')" "wrote header w3 ok w'"
      using nointr_write_wrote eintr_fair_same [OF same fair] by blast
    have three: "o_live w3 = o_live w" "o_flen w3 = mk_pos m" "\<forall>a < mk_pos m. o_file w3 a = o_file w a" "o_off w3 = 0"
    proof -
      have "ok2" "o_off w3 = 0" using L(5) True by auto
      moreover from this have ok1 using S(5) by auto
      ultimately show "o_live w3 = o_live w" "o_flen w3 = mk_pos m" "\<forall>a < mk_pos m. o_file w3 a = o_file w a" "o_off w3 = 0"
        using T S(2,3,4) L(2,3,4) by simp_all
    qed
    have "os_same w w'" "o_live w' = o_live w" "os_willing w \<Longrightarrow> ok"
      using w'(2) same three(1) os_willing_same [OF same] by (simp_all add: wrote_def os_same_def)
    moreover have "ok \<Longrightarrow> o_flen w' = mk_pos m" "ok \<Longrightarrow> o_file w' = mem_upd (o_file w3) 0 header"
      using w'(2) three(2,4) len pos(1) by (simp_all add: wrote_def)
    moreover have "mcdb_mmap_commit m header w = Some (ok, w')" using run True w'(1) by simp
    ultimately show ?thesis using three(3) by blast
  qed
qed

subsection \<open>Finish\<close>

lemma slot_counts_fit:
  assumes "make_inv pk hf base recs m w" "length recs \<le> INT_MAX"
  shows "unat (sum_list (map (mk_count m) [0..<MCDB_SLOTS])) = length recs"
  using assms sum_counts [of "entries hf recs" m] by (simp add: make_inv_def unat_of_nat_u32 INT_MAX_def)

text \<open>The padding before the tables.\<close>

lemma pad_step:
  assumes inv: "make_inv pk hf base recs m w" and pk: "pk \<le> 30" and sz: "data_end recs + pad_len (data_end recs) < 2 ^ 62"
  obtains ok m1 w1 where
    "(if mk_offset m + mk_msz m < mk_pos m + pad_len (mk_pos m) then mcdb_mmap_upsize m (mk_pos m + pad_len (mk_pos m)) w
      else (True, m, w)) = (ok, m1, w1)"
    "mk_same m m1" "calls w ok w1" "owns_blocks base m1 w1"
    "ok \<Longrightarrow> \<exists>w2. (if pad_len (mk_pos m) \<noteq> 0 then mk_fill m1 (mk_pos m1) (pad_len (mk_pos m)) (-1) w1 else Some w1) = Some w2 \<and>
       os_same w1 w2 \<and> fin_inv pk hf base recs 0 (m1\<lparr>mk_pos := mk_pos m1 + pad_len (mk_pos m)\<rparr>) hdr w2"
proof -
  have pos: "mk_pos m = data_end recs" using inv by (simp add: make_inv_def)
  let ?d = "pad_len (data_end recs)"
  obtain ok m1 w1 where up: "(if mk_offset m + mk_msz m < data_end recs + ?d then mcdb_mmap_upsize m (data_end recs + ?d) w
      else (True, m, w)) = (ok, m1, w1)"
    and U: "mk_same m m1" "calls w ok w1" "ok \<Longrightarrow> window m1 w1" "ok \<Longrightarrow> data_end recs + ?d \<le> mk_offset m1 + mk_msz m1"
    using upsize_for_add [OF _ _ pk pos sz, of w] inv unfolding make_inv_def by metis
  have own: "owns_blocks base m1 w1" using inv U by (auto simp: make_inv_def mk_same_def calls_def intro: owns_blocks_cong)
  have fill: "\<exists>w2. (if ?d \<noteq> 0 then mk_fill m1 (data_end recs) ?d (-1) w1 else Some w1) = Some w2 \<and>
       os_same w1 w2 \<and> fin_inv pk hf base recs 0 (m1\<lparr>mk_pos := data_end recs + ?d\<rparr>) hdr w2" if ok
  proof -
    define w2 where "w2 = w1\<lparr>o_file := mem_fill (o_file w1) (data_end recs) ?d (-1)\<rparr>"
    have win: "window m1 w1" "data_end recs + ?d \<le> mk_offset m1 + mk_msz m1" "mk_pos m1 = data_end recs"
      using U(3,4) [OF that] U(1) pos by (simp_all add: mk_same_def)
    have acc: "mk_access m1 w1 (data_end recs) ?d" using win by (auto simp: window_def mk_access_def mk_sized_def)
    have zero: "?d = 0 \<Longrightarrow> w2 = w1" by (simp add: w2_def)
    have "\<forall>a < data_end recs. o_file w1 a = o_file w a" using window_kept [of m w ok w1] U(2) inv pos by (simp add: make_inv_def)
    then have "mem_slice (o_file w2) MCDB_HEADER_SZ (length (data_bytes recs)) = mem_slice (o_file w) MCDB_HEADER_SZ (length (data_bytes recs))"
      by (intro mem_slice_eqI) (auto simp: w2_def mem_fill_out data_end_def)
    then have pre: "db_prefix hf recs 0 (o_file w2)"
      using inv by (simp add: db_prefix_def make_inv_def w2_def mem_slice_fill_within)
    have "fin_inv pk hf base recs 0 (m1\<lparr>mk_pos := data_end recs + ?d\<rparr>) hdr w2"
      using win pre own inv U(1)
      by (auto simp: fin_inv_def window_def mk_sized_def w2_def make_inv_def mk_same_def tables_start_def
          intro: lists_ok_cong owns_blocks_cong)
    moreover have "os_same w1 w2" by (simp add: w2_def os_same_def)
    ultimately show ?thesis using acc zero by (auto simp: mk_fill_def w2_def)
  qed
  show ?thesis by (rule that [of ok m1 w1]) (use up U own fill pos in \<open>auto simp: mk_same_def\<close>)
qed

text \<open>What a run promises about its end: blocks returned, result 0 only with a database file.\<close>

definition run_end :: "(bytes \<Rightarrow> u32) \<Rightarrow> nat multiset \<Rightarrow> kv list \<Rightarrow> os \<Rightarrow> int \<Rightarrow> os \<Rightarrow> bool" where
  "run_end hf base recs w rc w' \<longleftrightarrow> os_same w w' \<and> mset (o_live w') = base \<and> rc \<in> {0, -1} \<and>
     (rc = 0 \<longrightarrow> db_file (o_file w') (o_flen w') hf recs) \<and> (os_willing w \<longrightarrow> rc = 0)"

lemma db_file_final:
  assumes inv: "fin_inv pk hf base recs MCDB_SLOTS m hdr w"
    and f: "\<forall>a < mk_pos m. f a = o_file w a"
  shows "db_file (mem_upd f 0 (mem_slice hdr 0 MCDB_HEADER_SZ)) (mk_pos m) hf recs"
proof -
  have pos: "mk_pos m = table_pos hf recs MCDB_SLOTS" using inv by (simp add: fin_inv_def)
  have "db_prefix hf recs MCDB_SLOTS (mem_upd f 0 (mem_slice hdr 0 MCDB_HEADER_SZ))"
    by (rule db_prefix_cong [of hf recs MCDB_SLOTS "o_file w"]) (use inv f pos in \<open>auto simp: fin_inv_def mem_upd_out\<close>)
  moreover have "\<forall>i < MCDB_SLOTS. header_at (mem_upd f 0 (mem_slice hdr 0 MCDB_HEADER_SZ)) hf recs i"
    using inv header_written by (auto simp: fin_inv_def)
  ultimately show ?thesis by (auto simp: db_file_def db_prefix_def pos)
qed

lemma make_err_props:
  assumes "owns_blocks base m w"
  shows "\<exists>m' w'. mcdb_make_err m e w = Some (-1, m', w') \<and> mset (o_live w') = base \<and> os_same w w'"
  using destroy_returns_blocks [OF assms] by (auto simp: mcdb_make_err_def os_same_def)

lemma destroy_after_commit:
  assumes own: "owns_blocks base m w" and ok: "ok \<Longrightarrow> db_file (o_file w) (o_flen w) hf recs"
    and same: "os_same w0 w" and will: "os_willing w0 \<Longrightarrow> ok"
  shows "\<exists>rc m' w'. mcdb_make_destroy m w = Some (rc, m', w') \<and> run_end hf base recs w0 (if ok then rc else -1) w'"
proof -
  obtain rc m' w' where d: "mcdb_make_destroy m w = Some (rc, m', w')" "rc \<in> {0, -1}" "mset (o_live w') = base"
    "o_file w' = o_file w" "o_flen w' = o_flen w" "os_same w w'" "os_willing w \<longrightarrow> rc = 0"
    using destroy_returns_blocks [OF own] by blast
  have "run_end hf base recs w0 (if ok then rc else -1) w'"
    using d(2-7) ok same will os_willing_same [OF same] os_same_trans [OF same d(6)]
    by (cases ok) (auto simp: run_end_def)
  with d(1) show ?thesis by blast
qed

lemma commit_or_stop:
  assumes fair: "eintr_fair w" and own: "owns_blocks base m w" and i: "i \<noteq> MCDB_SLOTS \<Longrightarrow> \<not> os_willing w"
    and fin: "i = MCDB_SLOTS \<Longrightarrow> fin_inv pk hf base recs MCDB_SLOTS m hdr w"
  shows "\<exists>ok w'. (if i = MCDB_SLOTS then mcdb_mmap_commit m (mem_slice hdr 0 MCDB_HEADER_SZ) w else Some (False, w)) = Some (ok, w') \<and>
    os_same w w' \<and> owns_blocks base m w' \<and> (ok \<longrightarrow> db_file (o_file w') (o_flen w') hf recs) \<and> (os_willing w \<longrightarrow> ok)"
proof (cases "i = MCDB_SLOTS")
  case False
  with i own show ?thesis by (intro exI [of _ False] exI [of _ w]) (simp add: os_same_def)
next
  case True
  note fin = fin [OF True]
  have "MCDB_HEADER_SZ \<le> mk_pos m" using fin table_pos_mono [of 0 MCDB_SLOTS hf recs]
    by (simp add: fin_inv_def tables_start_def data_end_def)
  moreover have "mk_pos m \<le> o_flen w" "mk_fd m \<noteq> -1" using fin by (auto simp: fin_inv_def window_def mk_sized_def)
  ultimately obtain ok w' where c: "mcdb_mmap_commit m (mem_slice hdr 0 MCDB_HEADER_SZ) w = Some (ok, w')"
    "os_same w w'" "o_live w' = o_live w" "os_willing w \<longrightarrow> ok" "ok \<longrightarrow> o_flen w' = mk_pos m \<and>
      (\<exists>f. o_file w' = mem_upd f 0 (mem_slice hdr 0 MCDB_HEADER_SZ) \<and> (\<forall>a < mk_pos m. f a = o_file w a))"
    using commit_props [OF fair, of m "mem_slice hdr 0 MCDB_HEADER_SZ"] by auto
  then have "ok \<longrightarrow> db_file (o_file w') (o_flen w') hf recs" using db_file_final [OF fin] by auto
  then show ?thesis using c True owns_blocks_cong [OF own refl c(3)] by auto
qed

text \<open>From the first table to the end.\<close>

lemma finish_tail:
  assumes P: "plasma_bigendian P" and pk: "pk \<le> 30" and ok: "recs_ok hf recs" and fair: "eintr_fair w"
    and inv: "fin_inv pk hf base recs 0 m hdr0 w"
  shows "\<exists>rc m' w'. do {
        (i, m3, hdr, w3) \<leftarrow> finish_slots P (stride_bits recs) MCDB_SLOTS 0 m hdr0 w;
        (ok4, w4) \<leftarrow> (if i = MCDB_SLOTS then mcdb_mmap_commit m3 (mem_slice hdr 0 MCDB_HEADER_SZ) w3 else Some (False, w3));
        (rc, m5, w5) \<leftarrow> mcdb_make_destroy m3 w4;
        Some (if ok4 then rc else -1, m5, w5) } = Some (rc, m', w') \<and> run_end hf base recs w rc w'"
proof -
  obtain i m3 hdr w3 where sl: "finish_slots P (stride_bits recs) MCDB_SLOTS 0 m hdr0 w = Some (i, m3, hdr, w3)"
    "owns_blocks base m3 w3" "os_same w w3" "i \<noteq> MCDB_SLOTS \<Longrightarrow> \<not> os_willing w"
    "i = MCDB_SLOTS \<Longrightarrow> fin_inv pk hf base recs MCDB_SLOTS m3 hdr w3"
    using finish_slots_props [OF P ok pk inv] by auto
  have stopped: "i \<noteq> MCDB_SLOTS \<Longrightarrow> \<not> os_willing w3" using sl(4) os_willing_same [OF sl(3)] by simp
  obtain ok4 w4 where c: "(if i = MCDB_SLOTS then mcdb_mmap_commit m3 (mem_slice hdr 0 MCDB_HEADER_SZ) w3 else Some (False, w3)) = Some (ok4, w4)"
      "os_same w3 w4" "owns_blocks base m3 w4" "ok4 \<longrightarrow> db_file (o_file w4) (o_flen w4) hf recs" "os_willing w3 \<longrightarrow> ok4"
    using commit_or_stop [OF eintr_fair_same [OF sl(3) fair] sl(2) stopped sl(5)] by blast
  obtain rc m5 w5 where "mcdb_make_destroy m3 w4 = Some (rc, m5, w5)" "run_end hf base recs w (if ok4 then rc else -1) w5"
    using destroy_after_commit [OF c(3), of ok4 hf recs w] c os_same_trans [OF sl(3) c(2)] os_willing_same [OF sl(3)] by auto
  then show ?thesis using sl(1) c(1) by auto
qed

lemma finish_props:
  assumes P: "plasma_bigendian P" and inv: "make_inv pk hf base recs m w" and pk: "pk \<le> 30"
    and ok: "recs_ok hf recs" and fair: "eintr_fair w"
  shows "\<exists>rc m' w'. mcdb_make_finish P m w = Some (rc, m', w') \<and> run_end hf base recs w rc w'"
proof -
  let ?d = "pad_len (mk_pos m)"
  have pos: "mk_pos m = data_end recs" and mapped: "mk_mapped m" using inv by (simp_all add: make_inv_def window_def)
  have cnt: "unat (sum_list (map (mk_count m) [0..<MCDB_SLOTS])) \<le> INT_MAX"
    using slot_counts_fit [OF inv] ok by (simp add: recs_ok_def)
  have sz: "data_end recs + pad_len (data_end recs) < 2 ^ 62"
    using table_pos_bound [OF ok, of 0] by (simp add: tables_start_def)
  obtain r m1 w1 where up: "(if mk_offset m + mk_msz m < mk_pos m + ?d
        then mcdb_mmap_upsize m (mk_pos m + ?d) w else (True, m, w)) = (r, m1, w1)"
    and U: "mk_same m m1" "calls w r w1" "owns_blocks base m1 w1"
    and fill: "r \<Longrightarrow> \<exists>w2. (if ?d \<noteq> 0 then mk_fill m1 (mk_pos m1) ?d (-1) w1 else Some w1) = Some w2 \<and>
       os_same w1 w2 \<and> fin_inv pk hf base recs 0 (m1\<lparr>mk_pos := mk_pos m1 + ?d\<rparr>) (\<lambda>_. 0) w2"
    by (rule pad_step [OF inv pk sz, where hdr = "\<lambda>_. 0"], rule that)
  have run: "mcdb_make_finish P m w = (if \<not> r then mcdb_make_err m1 (o_errno w1) w1 else do {
        w2 \<leftarrow> (if ?d \<noteq> 0 then mk_fill m1 (mk_pos m1) ?d (-1) w1 else Some w1);
        (i, m3, hdr, w3) \<leftarrow> finish_slots P (if mk_pos m1 + ?d < UINT_MAX then 3 else 4) MCDB_SLOTS 0
            (m1\<lparr>mk_pos := mk_pos m1 + ?d\<rparr>) (\<lambda>_. 0) w2;
        (ok4, w4) \<leftarrow> (if i = MCDB_SLOTS then mcdb_mmap_commit m3 (mem_slice hdr 0 MCDB_HEADER_SZ) w3 else Some (False, w3));
        (rc, m5, w5) \<leftarrow> mcdb_make_destroy m3 w4;
        Some (if ok4 then rc else -1, m5, w5) })"
    unfolding mcdb_make_finish_def Let_def pad_len_def [symmetric] up using mapped cnt by simp
  show ?thesis
  proof (cases r)
    case False
    then have "\<not> os_willing w" using U(2) by (simp add: calls_def)
    then show ?thesis using run False U make_err_props [OF U(3), of "o_errno w1"]
      by (auto simp: run_end_def calls_def intro: os_same_trans)
  next
    case True
    obtain w2 where w2: "(if ?d \<noteq> 0 then mk_fill m1 (mk_pos m1) ?d (-1) w1 else Some w1) = Some w2"
      "os_same w1 w2" "fin_inv pk hf base recs 0 (m1\<lparr>mk_pos := mk_pos m1 + ?d\<rparr>) (\<lambda>_. 0) w2"
      using fill True by blast
    have stride: "(if mk_pos m1 + ?d < UINT_MAX then 3 else 4) = stride_bits recs"
      using U(1) pos by (simp add: mk_same_def stride_bits_def tables_start_def)
    have w02: "os_same w w2" using U(2) w2(2) by (auto simp: calls_def intro: os_same_trans)
    from finish_tail [OF P pk ok eintr_fair_same [OF w02 fair] w2(3)] obtain rc m' w'
      where "mcdb_make_finish P m w = Some (rc, m', w')" "run_end hf base recs w2 rc w'"
      using run True w2(1) stride by auto
    then show ?thesis using w02 os_willing_same [OF w02] by (auto simp: run_end_def intro: os_same_trans)
  qed
qed

subsection \<open>Whole runs\<close>

lemma start_willing:
  assumes "os_willing w" "pagesize = 2 ^ pk" "pk \<le> 30" "fd \<noteq> -1"
  obtains m w' where "mcdb_make_start pagesize fd w = Some (0, m, w')"
proof -
  obtain r w1 where ma: "os_malloc w = (r, w1)" by fastforce
  then obtain blk where r: "r = Some blk" and w1: "os_willing w1"
    using malloc_props [OF ma] assms(1) os_willing_same by auto
  define m1 where "m1 = \<lparr> mk_pos = MCDB_HEADER_SZ, mk_offset = 0, mk_mapped = False,
                mk_hash_init = UINT32_HASH_DJB_INIT, mk_hash_fn = Hash_djb,
                mk_fsz = 0, mk_osz = 0, mk_msz = 0, mk_pgalign = NOT (word_of_nat pagesize - 1),
                mk_hp = \<lparr>hp_p = MCDB_HEADER_SZ, hp_h = 0, hp_l = 0\<rparr>, mk_fd = fd,
                mk_count = (\<lambda>_. 0), mk_head = (\<lambda>_. [])(0 := [\<lparr>hl_blk = blk, hl_hps = [], hl_pend = None\<rparr>]) \<rparr>"
  obtain ok m2 w2 where up: "mcdb_mmap_upsize m1 MCDB_MMAP_SZ w1 = (ok, m2, w2)" by (metis prod_cases3)
  have "mk_sized m1 w1" "mk_pgalign m1 = page_mask pk" "mk_pos m1 \<le> MCDB_MMAP_SZ"
    using assms by (simp_all add: mk_sized_def m1_def page_mask_def mcdb_consts)
  from upsize_props [OF up this(1,2) assms(3) this(3)] have ok using w1 by (simp add: calls_def mcdb_consts)
  then show ?thesis using up ma r assms(4) that by (simp add: mcdb_make_start_def m1_def)
qed

lemma recs_ok_len: "recs_ok hf recs \<Longrightarrow> data_end recs < 2 ^ 62"
  by (simp add: recs_ok_def data_end_def MCDB_HEADER_SZ_def)

lemma adds_finish_props:
  assumes P: "plasma_bigendian P" and pk: "pk \<le> 30" and fair: "eintr_fair w" and ok: "recs_ok hf recs"
    and inv: "make_inv pk hf base [] m w"
  shows "\<exists>rc w'. do { (rc2, m2, w2) \<leftarrow> make_adds P recs m w;
       if rc2 = 0 then do { (rc3, m3, w3) \<leftarrow> mcdb_make_finish P m2 w2; Some (rc3, w3) }
       else do { (_, m3, w3) \<leftarrow> mcdb_make_destroy m2 w2; Some (rc2, w3) } } = Some (rc, w') \<and> run_end hf base recs w rc w'"
proof -
  obtain rc2 m2 w2 where a: "make_adds P recs m w = Some (rc2, m2, w2)" "os_same w w2" "owns_blocks base m2 w2"
    "rc2 = 0 \<and> make_inv pk hf base recs m2 w2 \<or> rc2 = -1" "os_willing w \<longrightarrow> rc2 = 0"
    using adds_props [OF P pk inv, of recs] ok recs_ok_len [OF ok] by (auto simp: recs_ok_def)
  show ?thesis
  proof (cases "rc2 = 0")
    case True
    then have "make_inv pk hf base recs m2 w2" using a(4) by simp
    from finish_props [OF P this pk ok eintr_fair_same [OF a(2) fair]] obtain rc m' w'
      where "mcdb_make_finish P m2 w2 = Some (rc, m', w')" "run_end hf base recs w2 rc w'" by blast
    then show ?thesis using a True os_willing_same [OF a(2)]
      by (auto simp: run_end_def intro: os_same_trans)
  next
    case False
    obtain rc m' w' where "mcdb_make_destroy m2 w2 = Some (rc, m', w')" "mset (o_live w') = base" "os_same w2 w'"
      using destroy_returns_blocks [OF a(3)] by blast
    then show ?thesis using a False by (auto simp: run_end_def intro: os_same_trans)
  qed
qed

lemma make_db_run:
  assumes "plasma_bigendian P" "pk \<le> 30" "eintr_fair w" "recs_ok djb_hash recs" "fd \<noteq> -1"
    and start: "mcdb_make_start (2 ^ pk) fd w = Some (0, m, w1)"
  shows "\<exists>rc w'. make_db P (2 ^ pk) fd recs w = Some (rc, w') \<and> run_end djb_hash (mset (o_live w)) recs w rc w'"
proof -
  have s: "make_inv pk djb_hash (mset (o_live w)) [] m w1" "os_same w w1"
    using start_props [OF refl assms(2,5) start] by simp_all
  from adds_finish_props [OF assms(1,2) eintr_fair_same [OF s(2) assms(3)] assms(4) s(1)]
  show ?thesis using start os_willing_same [OF s(2)] s(2)
    by (auto simp: make_db_def run_end_def intro: os_same_trans)
qed

lemma make_db_cases:
  assumes "plasma_bigendian P" "pk \<le> 30" "eintr_fair w" "recs_ok djb_hash recs" "fd \<noteq> -1"
  shows "if start_refused w then make_db P (2 ^ pk) fd recs w = None
    else \<exists>rc w'. make_db P (2 ^ pk) fd recs w = Some (rc, w') \<and> run_end djb_hash (mset (o_live w)) recs w rc w'"
proof (cases "start_refused w")
  case True
  then show ?thesis using start_cases [OF assms(5) refl assms(2), of w] by (simp add: make_db_def)
next
  case False
  then obtain rc m w1 where s: "mcdb_make_start (2 ^ pk) fd w = Some (rc, m, w1)"
    "rc = 0 \<or> rc = -1 \<and> os_same w w1 \<and> o_live w1 = o_live w \<and> \<not> os_willing w"
    using start_cases [OF assms(5) refl assms(2), of w] by auto
  show ?thesis
  proof (cases "rc = 0")
    case True
    then show ?thesis using make_db_run [OF assms, of m w1] s(1) False by simp
  next
    case nz: False
    then show ?thesis using s False by (auto simp: make_db_def run_end_def)
  qed
qed

lemma recs_ok_few:
  assumes "\<forall>r \<in> set recs. length (fst r) \<le> INT_MAX - 8 \<and> length (snd r) \<le> INT_MAX - 8"
    and "length recs \<le> 2 ^ 27" "length (data_bytes recs) < 2 ^ 61"
  shows "recs_ok hf recs"
proof -
  have "length (slot_hps (entries hf recs) i) \<le> 2 ^ 27" for i
    using length_filter_le [of _ "entries hf recs"] assms(2) by (auto simp: slot_hps_def intro: order_trans)
  with assms show ?thesis by (simp add: recs_ok_def INT_MAX_def)
qed

subsection \<open>Properties\<close>

text \<open>C2: a run of the writer (start, adds, finish or destroy) on records within its limits, whatever the environment
  answers to each call (any allocation, file or mapping call may fail, writes may be short or
  interrupted): when the allocation of the start is granted and its first mapping is refused, the run has no defined result,
  because the cleanup follows an uninitialised pointer.  In every other case it returns, gives back exactly the blocks
  it allocated, and returns 0 only when the output file is a complete database of the records.\<close>

theorem writer_safe:
  assumes "plasma_bigendian P" "pk \<le> 30" "fd \<noteq> -1" "eintr_fair w" "recs_ok djb_hash recs"
  shows "if start_refused w then make_db P (2 ^ pk) fd recs w = None
    else \<exists>rc w'. make_db P (2 ^ pk) fd recs w = Some (rc, w') \<and> rc \<in> {0, -1} \<and>
      mset (o_live w') = mset (o_live w) \<and> (rc = 0 \<longrightarrow> db_file (o_file w') (o_flen w') djb_hash recs)"
  using make_db_cases [OF assms(1,2,4,5,3)] by (auto simp: run_end_def split: if_splits)

lemma example_recs_ok: "recs_ok hf [([107], [118]), ([107], [119]), ([], [])]"
  by (rule recs_ok_few) (simp_all add: data_bytes_def rec_len_def INT_MAX_def)

lemma os_empty_willing: "os_willing (os_empty (\<lambda>_. 0) c)" "eintr_fair (os_empty (\<lambda>_. 0) c)"
  by (auto simp: os_willing_def os_empty_def eintr_fair_def EINTR_def)

text \<open>A run whose third call, the mapping, is refused, and one whose first call, the allocation, is.\<close>

theorem writer_safe_witness:
  "make_db plasma_ref (2 ^ 12) 3 [([107], [118]), ([107], [119]), ([], [])] (os_empty (\<lambda>k. if k = 2 then 12 else 0) (\<lambda>_. 7)) = None \<and>
   (\<exists>rc w'. make_db plasma_ref (2 ^ 12) 3 [([107], [118]), ([107], [119]), ([], [])] (os_empty (\<lambda>k. if k = 0 then 12 else 0) (\<lambda>_. 7)) =
     Some (rc, w') \<and> rc \<in> {0, -1} \<and> mset (o_live w') = {#})"
proof -
  let ?w = "\<lambda>i. os_empty (\<lambda>k. if k = i then 12 else 0) (\<lambda>_. 7)"
  have fair: "eintr_fair (?w i)" for i by (auto simp: eintr_fair_def os_empty_def EINTR_def)
  have r: "start_refused (?w 2)" "\<not> start_refused (?w 0)" by (simp_all add: start_refused_def os_empty_def)
  from writer_safe [OF plasma_ref_bigendian _ _ fair example_recs_ok, of 12 3 2] writer_safe [OF plasma_ref_bigendian _ _ fair example_recs_ok, of 12 3 0]
  show ?thesis using r by (auto simp: os_empty_def)
qed

text \<open>C3: when the environment refuses nothing and the records are within the limits, the writer
  succeeds, and the file is a database of exactly these records.\<close>

theorem writer_succeeds:
  assumes "plasma_bigendian P" "pk \<le> 30" "fd \<noteq> -1" "os_willing w" "recs_ok djb_hash recs"
  shows "\<exists>w'. make_db P (2 ^ pk) fd recs w = Some (0, w') \<and> db_file (o_file w') (o_flen w') djb_hash recs"
proof -
  have fair: "eintr_fair w" using assms(4) by (auto simp: os_willing_def eintr_fair_def EINTR_def)
  obtain m w1 where "mcdb_make_start (2 ^ pk) fd w = Some (0, m, w1)" by (rule start_willing [OF assms(4) refl assms(2,3)])
  from make_db_run [OF assms(1,2) fair assms(5,3) this] assms(4) show ?thesis by (auto simp: run_end_def)
qed

theorem writer_succeeds_witness:
  "\<exists>w'. make_db plasma_ref (2 ^ 12) 3 [([107], [118]), ([107], [119]), ([], [])] (os_empty (\<lambda>_. 0) (\<lambda>_. 7)) = Some (0, w') \<and>
     db_file (o_file w') (o_flen w') djb_hash [([107], [118]), ([107], [119]), ([], [])]"
  by (rule writer_succeeds [OF plasma_ref_bigendian _ _ os_empty_willing(1) example_recs_ok]) simp_all

end
