(* ===== verification/Makefmt_Proofs.thy ===== *)
theory Makefmt_Proofs
  imports Makefmt_Record Make_Db
begin

text \<open>
  The text format and the whole conversion: on every input and under every pattern of
  failures the conversion returns and gives its blocks back; it succeeds only with a database
  of the records that the text stands for; and it does succeed on every printed text.
\<close>

subsection \<open>The format\<close>

text \<open>The text of some records with the blank line, and what follows it.\<close>

inductive fmt_input :: "kv list \<Rightarrow> bytes \<Rightarrow> bytes \<Rightarrow> bool" where
  fmt_blank: "fmt_input [] s (10 # s)"
| fmt_line: "is_number ds (length k) \<Longrightarrow> is_number es (length d) \<Longrightarrow> fmt_input recs s t \<Longrightarrow>
    fmt_input ((k, d) # recs) s ([43] @ ds @ [44] @ es @ [58] @ k @ [45, 62] @ d @ [10] @ t)"

inductive_cases fmt_input_NilE: "fmt_input [] s t"
inductive_cases fmt_input_ConsE: "fmt_input ((k, d) # recs) s t"

definition fmt_rec :: "kv \<Rightarrow> bytes" where
  "fmt_rec r = [43] @ dec_digits (length (fst r)) @ [44] @ dec_digits (length (snd r)) @ [58] @ fst r @ [45, 62] @ snd r @ [10]"

definition fmt_db :: "kv list \<Rightarrow> bytes" where
  "fmt_db recs = concat (map fmt_rec recs) @ [10]"

lemma fmt_db_simps: "fmt_db [] = [10]" "fmt_db (r # recs) = fmt_rec r @ fmt_db recs"
  by (simp_all add: fmt_db_def)

lemma dec_digits_number:
  assumes "n \<le> INT_MAX - 8"
  shows "is_number (dec_digits n) n" "length (dec_digits n) \<le> 10"
  using assms length_dec_digits [of n 10] dec_digits_digits [of _ n]
  by (auto simp: is_number_def list_all_iff INT_MAX_def)

definition fits :: "kv \<Rightarrow> bool" where
  "fits r \<longleftrightarrow> length (fst r) \<le> INT_MAX - 8 \<and> length (snd r) \<le> INT_MAX - 8"

lemma fmt_db_input: "\<forall>r \<in> set recs. fits r \<Longrightarrow> fmt_input recs s (fmt_db recs @ s)"
proof (induction recs)
  case Nil
  then show ?case by (simp add: fmt_db_simps fmt_blank)
next
  case (Cons r recs)
  obtain k d where r: "r = (k, d)" by fastforce
  have n: "is_number (dec_digits (length k)) (length k)" "is_number (dec_digits (length d)) (length d)"
    using Cons.prems r by (auto simp: fits_def intro: dec_digits_number)
  have "fmt_input recs s (fmt_db recs @ s)" using Cons by simp
  from fmt_line [OF n this] show ?case by (simp add: fmt_db_simps fmt_rec_def r)
qed

text \<open>A text stands for one list of records only.\<close>

lemma number_unique:
  assumes "ds @ c # s = es @ c # t" "list_all is_digit ds" "list_all is_digit es" "\<not> is_digit c"
  shows "ds = es \<and> s = t"
  using assms
proof (induction ds arbitrary: es)
  case Nil
  then show ?case by (cases es) auto
next
  case (Cons x ds)
  then show ?case by (cases es) auto
qed

lemma fmt_input_line_inv:
  assumes "fmt_input recs' s' ([43] @ ds @ [44] @ es @ [58] @ k @ [45, 62] @ d @ [10] @ t)"
    and n: "is_number ds (length k)" "is_number es (length d)"
  obtains recs2 where "recs' = (k, d) # recs2" "fmt_input recs2 s' t"
  using assms(1)
proof (cases rule: fmt_input.cases)
  case fmt_blank
  then show ?thesis by simp
next
  case L: (fmt_line ds' k' es' d' recs2 t2)
  have dg: "list_all is_digit ds" "list_all is_digit ds'" "list_all is_digit es" "list_all is_digit es'"
    using n L(3,4) by (simp_all add: is_number_def)
  have sep: "\<not> is_digit 44" "\<not> is_digit 58" by (simp_all add: is_digit_def)
  have "ds @ 44 # (es @ [58] @ k @ [45, 62] @ d @ [10] @ t) = ds' @ 44 # (es' @ [58] @ k' @ [45, 62] @ d' @ [10] @ t2)"
    using L(2) by simp
  from number_unique [OF this dg(1,2) sep(1)]
  have 1: "ds = ds'" "es @ 58 # (k @ [45, 62] @ d @ [10] @ t) = es' @ 58 # (k' @ [45, 62] @ d' @ [10] @ t2)" by simp_all
  from number_unique [OF 1(2) dg(3,4) sep(2)]
  have 2: "es = es'" "k @ [45, 62] @ d @ [10] @ t = k' @ [45, 62] @ d' @ [10] @ t2" by simp_all
  have "length k = length k'" "length d = length d'"
    using 1(1) 2(1) n L(3,4) by (auto simp: is_number_def)
  then have "k = k'" "d = d'" "t = t2" using 2(2) by auto
  then show ?thesis using L(1,5) that by simp
qed

lemma fmt_input_unique: "fmt_input recs s t \<Longrightarrow> fmt_input recs' s' t \<Longrightarrow> recs' = recs \<and> s' = s"
proof (induction recs s t arbitrary: recs' s' rule: fmt_input.induct)
  case (fmt_blank s)
  then show ?case by (cases rule: fmt_input.cases) auto
next
  case (fmt_line ds k es d recs s t)
  from fmt_line.prems fmt_line.hyps(1,2) obtain recs2 where "recs' = (k, d) # recs2" "fmt_input recs2 s' t"
    by (rule fmt_input_line_inv)
  with fmt_line.IH show ?case by simp
qed

subsection \<open>One record\<close>

lemma record_text:
  assumes b: "ib_ok b" and len: "klen + dlen + 3 \<le> ib_avail b"
  obtains k d where "k = mem_slice (ib_buf b) (ib_pos b) klen" "d = mem_slice (ib_buf b) (ib_pos b + klen + 2) dlen"
    "length k = klen" "length d = dlen"
    "ib_data b = k @ [ib_buf b (ib_pos b + klen), ib_buf b (ib_pos b + klen + 1)] @ d @ [ib_buf b (ib_pos b + klen + 2 + dlen)] @
       ib_data (b\<lparr>ib_pos := ib_pos b + (klen + dlen + 3)\<rparr>)"
    "ib_ok (b\<lparr>ib_pos := ib_pos b + (klen + dlen + 3)\<rparr>)" "ib_rest (b\<lparr>ib_pos := ib_pos b + (klen + dlen + 3)\<rparr>) = ib_rest b"
    "ib_willing b \<longrightarrow> ib_willing (b\<lparr>ib_pos := ib_pos b + (klen + dlen + 3)\<rparr>)"
proof -
  note T = ib_advance [OF b len]
  have two: "mem_slice f a 2 = [f a, f (a + 1)]" and one: "mem_slice f a 1 = [f a]" for f :: mem and a
    by (simp_all add: mem_slice_def upt_rec)
  have "klen + dlen + 3 = klen + (2 + (dlen + 1))" by simp
  then have "mem_slice (ib_buf b) (ib_pos b) (klen + dlen + 3) = mem_slice (ib_buf b) (ib_pos b) klen @
      [ib_buf b (ib_pos b + klen), ib_buf b (ib_pos b + klen + 1)] @ mem_slice (ib_buf b) (ib_pos b + klen + 2) dlen @
      [ib_buf b (ib_pos b + klen + 2 + dlen)]"
    by (simp only: mem_slice_add two one add.assoc)
  then show ?thesis using that [OF refl refl] ib_takenD [OF T] by simp
qed

definition rec_text :: "nat \<Rightarrow> nat \<Rightarrow> bytes \<Rightarrow> bytes \<Rightarrow> bytes \<Rightarrow> bytes \<Rightarrow> bool" where
  "rec_text klen dlen k d s t \<longleftrightarrow> length k = klen \<and> length d = dlen \<and> t = k @ [45, 62] @ d @ [10] @ s"

text \<open>What reading one record leaves.\<close>

definition record_end ::
  "nat \<Rightarrow> (bytes \<Rightarrow> u32) \<Rightarrow> nat multiset \<Rightarrow> kv list \<Rightarrow> nat \<Rightarrow> nat \<Rightarrow> mcdb_make \<Rightarrow> mcdb_input \<Rightarrow> os \<Rightarrow>
   int \<Rightarrow> mcdb_make \<Rightarrow> mcdb_input \<Rightarrow> os \<Rightarrow> bool" where
  "record_end pk hf base recs klen dlen m b w rv m' b' w' \<longleftrightarrow> os_same w w' \<and> owns_blocks base m' w' \<and>
     mk_hash_fn m' = mk_hash_fn m \<and> rv \<in> {0, MCDB_ERROR_READFORMAT, MCDB_ERROR_WRITE} \<and>
     (rv = 0 \<longrightarrow> ib_ok b' \<and> (ib_willing b \<longrightarrow> ib_willing b') \<and>
        (\<exists>k d. rec_text klen dlen k d (ib_stream b') (ib_stream b) \<and> make_inv pk hf base (recs @ [(k, d)]) m' w')) \<and>
     ((\<exists>k d s. rec_text klen dlen k d s (ib_stream b)) \<longrightarrow> ib_willing b \<longrightarrow> os_willing w \<longrightarrow> length recs < INT_MAX \<longrightarrow> rv = 0)"

lemma makefmt_record_whole:
  assumes P: "plasma_bigendian P" and pk: "pk \<le> 30" and b: "ib_ok b"
    and inv: "make_inv pk hf base recs m w" and sz: "data_end recs + (8 + klen + dlen) < 2 ^ 62"
    and lim: "klen \<le> INT_MAX - 8" "dlen \<le> INT_MAX - 8" and len: "klen + dlen + 3 \<le> ib_avail b"
  shows "\<exists>rv m' b' w'. makefmt_record P m klen dlen b w = Some (rv, m', b', w') \<and>
    record_end pk hf base recs klen dlen m b w rv m' b' w'"
proof -
  obtain k d where kd: "k = mem_slice (ib_buf b) (ib_pos b) klen" "d = mem_slice (ib_buf b) (ib_pos b + klen + 2) dlen"
    "length k = klen" "length d = dlen"
    "ib_data b = k @ [ib_buf b (ib_pos b + klen), ib_buf b (ib_pos b + klen + 1)] @ d @ [ib_buf b (ib_pos b + klen + 2 + dlen)] @
       ib_data (b\<lparr>ib_pos := ib_pos b + (klen + dlen + 3)\<rparr>)"
    "ib_ok (b\<lparr>ib_pos := ib_pos b + (klen + dlen + 3)\<rparr>)" "ib_rest (b\<lparr>ib_pos := ib_pos b + (klen + dlen + 3)\<rparr>) = ib_rest b"
    "ib_willing b \<longrightarrow> ib_willing (b\<lparr>ib_pos := ib_pos b + (klen + dlen + 3)\<rparr>)"
    by (rule record_text [OF b len]) (rule that)
  let ?b' = "b\<lparr>ib_pos := ib_pos b + (klen + dlen + 3)\<rparr>"
  let ?sep = "ib_buf b (ib_pos b + klen) = 45 \<and> ib_buf b (ib_pos b + klen + 1) = 62 \<and> ib_buf b (ib_pos b + klen + 2 + dlen) = 10"
  have str: "ib_stream b = k @ [ib_buf b (ib_pos b + klen), ib_buf b (ib_pos b + klen + 1)] @ d @ [ib_buf b (ib_pos b + klen + 2 + dlen)] @ ib_stream ?b'"
    using kd(5,7) by (simp add: ib_stream_def)
  have sep: ?sep if "rec_text klen dlen k' d' s (ib_stream b)" for k' d' s
  proof -
    have l: "length k' = length k" "length d' = length d" using that kd(3,4) by (simp_all add: rec_text_def)
    have "k' @ [45, 62] @ d' @ [10] @ s = k @ [ib_buf b (ib_pos b + klen), ib_buf b (ib_pos b + klen + 1)] @ d @
        [ib_buf b (ib_pos b + klen + 2 + dlen)] @ ib_stream ?b'"
      using that str by (simp only: rec_text_def)
    then show ?thesis using l by simp
  qed
  show ?thesis
  proof (cases ?sep)
    case False
    have "makefmt_record P m klen dlen b w = Some (MCDB_ERROR_READFORMAT, m, b, w)"
      using len False by (auto simp: makefmt_record_def Let_def)
    moreover have "owns_blocks base m w" using inv by (simp add: make_inv_def)
    ultimately show ?thesis using sep False by (auto simp: record_end_def mcdb_errors os_same_def)
  next
    case True
    have "data_end recs + rec_len (k, d) < 2 ^ 62" using sz kd(3,4) by (simp add: rec_len_def)
    from add_props [OF P inv pk this] obtain rc m' w' where a: "mcdb_make_add P m k d w = Some (rc, m', w')"
      "os_same w w'" "owns_blocks base m' w'"
      "rc = 0 \<and> length k \<le> INT_MAX - 8 \<and> length d \<le> INT_MAX - 8 \<and> make_inv pk hf base (recs @ [(k, d)]) m' w' \<or> rc = -1"
      "os_willing w \<and> length recs < INT_MAX \<and> length k \<le> INT_MAX - 8 \<and> length d \<le> INT_MAX - 8 \<longrightarrow> rc = 0"
      by blast
    have run: "makefmt_record P m klen dlen b w = Some (if rc = 0 then (0, m', ?b', w') else (MCDB_ERROR_WRITE, m', b, w'))"
      using len True a(1) kd(1,2) by (simp add: makefmt_record_def Let_def add.assoc)
    have rt: "rec_text klen dlen k d (ib_stream ?b') (ib_stream b)" using str True kd(3,4) by (simp add: rec_text_def)
    show ?thesis
    proof (cases "rc = 0")
      case rc: True
      then show ?thesis using run a rt kd(6,8) add_hash_fn [OF a(1)]
        by (auto simp: record_end_def)
    next
      case False
      then show ?thesis using run a(2,3,5) add_hash_fn [OF a(1)] kd(3,4) lim by (auto simp: record_end_def mcdb_errors)
    qed
  qed
qed

lemma makefmt_record_parts:
  assumes P: "plasma_bigendian P" and pk: "pk \<le> 30" and b: "ib_ok b" and pieces: "hash_pieces m"
    and inv: "make_inv pk hf base recs m w" and sz: "data_end recs + (8 + klen + dlen) < 2 ^ 62"
    and lim: "klen \<le> INT_MAX - 8" "dlen \<le> INT_MAX - 8" and len: "\<not> klen + dlen + 3 \<le> ib_avail b"
  shows "\<exists>rv m' b' w'. makefmt_record P m klen dlen b w = Some (rv, m', b', w') \<and>
    record_end pk hf base recs klen dlen m b w rv m' b' w'"
proof -
  obtain rc m1 w1 where a: "mcdb_make_addbegin P m klen dlen w = Some (rc, m1, w1)" "os_same w w1" "owns_blocks base m1 w1"
    "rc = 0 \<and> klen \<le> INT_MAX - 8 \<and> dlen \<le> INT_MAX - 8 \<and> hp_h (mk_hp m1) = mk_hash_init m1 \<and>
       hp_l (mk_hp m1) = word_of_nat klen \<and>
       adding pk hf base recs (be_bytes 4 klen @ be_bytes 4 dlen) (klen + dlen) m1 w1 \<or> rc = -1"
    "os_willing w \<and> length recs < INT_MAX \<and> klen \<le> INT_MAX - 8 \<and> dlen \<le> INT_MAX - 8 \<longrightarrow> rc = 0"
    using addbegin_props [OF P inv pk sz] by blast
  note fn = addbegin_hash_fn [OF a(1)]
  show ?thesis
  proof (cases "rc = 0")
    case False
    then have "makefmt_record P m klen dlen b w = Some (MCDB_ERROR_WRITE, m1, b, w1)"
      using len a(1) by (simp add: makefmt_record_def)
    then show ?thesis using False a(2,3,5) fn lim by (auto simp: record_end_def mcdb_errors)
  next
    case True
    then have add: "adding pk hf base recs (be_bytes 4 klen @ be_bytes 4 dlen) (klen + dlen) m1 w1"
      and hp: "hp_h (mk_hp m1) = mk_hash_init m1" "hp_l (mk_hp m1) = word_of_nat klen" using a(4) by simp_all
    obtain good b' m2 w2 where R: "mcdb_bufread_rec m1 klen dlen b w1 = Some (good, b', m2, w2)" "ib_ok b'" "os_same w1 w2"
      "owns_blocks base m2 w2" "mk_hash_fn m2 = mk_hash_fn m1"
      "good \<longrightarrow> (\<exists>k d. length k = klen \<and> length d = dlen \<and> ib_stream b = k @ [45, 62] @ d @ [10] @ ib_stream b' \<and>
        adding pk hf base recs ((be_bytes 4 klen @ be_bytes 4 dlen) @ k @ d) 0 m2 w2 \<and> (ib_willing b \<longrightarrow> ib_willing b') \<and>
        mk_hp m2 = (mk_hp m1)\<lparr>hp_h := call_hash_fn (mk_hash_fn m1) (hp_h (mk_hp m1)) k\<rparr>)"
      "\<forall>k d s. ib_willing b \<and> ib_stream b = k @ [45, 62] @ d @ [10] @ s \<and> length k = klen \<and> length d = dlen \<longrightarrow> good"
      using bufread_rec_props [OF b hash_pieces_cong [OF fn pieces] add] by (elim exE conjE) (rule that)
    have os: "os_same w w2" using a(2) R(3) by (simp add: os_same_def)
    show ?thesis
    proof (cases good)
      case False
      then have "makefmt_record P m klen dlen b w = Some (MCDB_ERROR_READFORMAT, m2, b', w2)"
        using len a(1) True R(1) by (simp add: makefmt_record_def)
      moreover have "\<not> (\<exists>k d s. ib_willing b \<and> rec_text klen dlen k d s (ib_stream b))"
        using R(7) False unfolding rec_text_def by blast
      ultimately show ?thesis using os R(4,5) fn by (auto simp: record_end_def mcdb_errors)
    next
      case good: True
      then obtain k d where kd: "length k = klen" "length d = dlen" "ib_stream b = k @ [45, 62] @ d @ [10] @ ib_stream b'"
        "adding pk hf base recs ((be_bytes 4 klen @ be_bytes 4 dlen) @ k @ d) 0 m2 w2" "ib_willing b \<longrightarrow> ib_willing b'"
        "mk_hp m2 = (mk_hp m1)\<lparr>hp_h := call_hash_fn (mk_hash_fn m1) (hp_h (mk_hp m1)) k\<rparr>" using R(6) by blast
      have "adding pk hf base recs (rec_bytes (k, d)) 0 m2 w2" using kd(1,2,4) by (simp add: rec_bytes_def)
      moreover have "hp_h (mk_hp m2) = hf k" "hp_l (mk_hp m2) = word_of_nat (length k)"
        using kd(1,6) hp add by (simp_all add: adding_def)
      ultimately obtain m3 where m3: "mcdb_make_addend m2 = Some m3" "make_inv pk hf base (recs @ [(k, d)]) m3 w2"
        using addend_adding by blast
      have "makefmt_record P m klen dlen b w = Some (0, m3, b', w2)"
        using len a(1) True R(1) good m3(1) by (simp add: makefmt_record_def)
      moreover have "owns_blocks base m3 w2" using m3(2) by (simp add: make_inv_def)
      moreover have "rec_text klen dlen k d (ib_stream b') (ib_stream b)" using kd(1-3) by (simp add: rec_text_def)
      ultimately show ?thesis using os R(2,5) fn kd(5) m3 addend_hash_fn [OF m3(1)] by (auto simp: record_end_def)
    qed
  qed
qed

lemma makefmt_record_props:
  assumes "plasma_bigendian P" "pk \<le> 30" "ib_ok b" "hash_pieces m" "make_inv pk hf base recs m w"
    "data_end recs + (8 + klen + dlen) < 2 ^ 62" "klen \<le> INT_MAX - 8" "dlen \<le> INT_MAX - 8"
  shows "\<exists>rv m' b' w'. makefmt_record P m klen dlen b w = Some (rv, m', b', w') \<and>
    record_end pk hf base recs klen dlen m b w rv m' b' w'"
  using makefmt_record_whole [OF assms(1-3,5-8)] makefmt_record_parts [OF assms] by blast

subsection \<open>The loop over the lines\<close>

definition loop_end ::
  "nat \<Rightarrow> (bytes \<Rightarrow> u32) \<Rightarrow> nat multiset \<Rightarrow> kv list \<Rightarrow> mcdb_input \<Rightarrow> os \<Rightarrow> int \<Rightarrow> mcdb_make \<Rightarrow> os \<Rightarrow> bool" where
  "loop_end pk hf base recs b w rv m' w' \<longleftrightarrow> os_same w w' \<and> owns_blocks base m' w' \<and>
     rv \<in> {0, MCDB_ERROR_READFORMAT, MCDB_ERROR_READ, MCDB_ERROR_WRITE} \<and>
     (rv = 0 \<longrightarrow> (\<exists>new s. fmt_input new s (ib_stream b) \<and> make_inv pk hf base (recs @ new) m' w')) \<and>
     ((\<exists>new s. ib_stream b = fmt_db new @ s \<and> (\<forall>r \<in> set new. fits r) \<and> length (recs @ new) < INT_MAX) \<longrightarrow>
        ib_willing b \<longrightarrow> os_willing w \<longrightarrow> rv = 0)"

lemma fmt_db_starts:
  assumes "fmt_db new @ s = [43] @ t"
  obtains k d recs where "new = (k, d) # recs"
  using assms by (cases new) (auto simp: fmt_db_simps)

lemma makefmt_loop_props:
  assumes P: "plasma_bigendian P" and pk: "pk \<le> 30"
  shows "ib_ok b \<Longrightarrow> hash_pieces m \<Longrightarrow> make_inv pk hf base recs m w \<Longrightarrow> data_end recs + length (ib_stream b) < 2 ^ 61 \<Longrightarrow>
    \<exists>rv m' w'. makefmt_loop P m b w = Some (rv, m', w') \<and> loop_end pk hf base recs b w rv m' w'"
proof (induction "length (ib_stream b)" arbitrary: b m recs w rule: less_induct)
  case less
  note b = less(2) and pieces = less(3) and inv = less(4) and sz = less(5)
  obtain rv klen dlen b1 w1 where pre: "mcdb_bufread_preamble b w = Some (rv, klen, dlen, b1, w1)" "errno_only w w1"
    "ib_willing b \<longrightarrow> w1 = w" "preamble_end b rv klen dlen b1" using preamble_props [OF b, of w] by blast
  note E = errno_only_inv [OF pre(2)]
  have own: "owns_blocks base m w1" using inv E(3) by (simp add: make_inv_def)
  show ?case
  proof (cases "rv = 1")
    case False
    then have rv: "rv = 0 \<and> ib_stream b = 10 # ib_stream b1 \<or> rv = MCDB_ERROR_READFORMAT \<or> rv = MCDB_ERROR_READ"
      using pre(4) by (auto simp: preamble_end_def)
    then have run: "makefmt_loop P m b w = Some (rv, m, w1)"
      using pre(1) by (subst makefmt_loop.simps) (auto simp: mcdb_errors)
    have parsed: "rv = 0 \<Longrightarrow> fmt_input [] (ib_stream b1) (ib_stream b)" using rv by (auto simp: mcdb_errors intro: fmt_blank)
    have "rv = 0" if "ib_stream b = fmt_db new @ s" "\<forall>r \<in> set new. fits r" "ib_willing b" for new s
    proof (cases new)
      case Nil
      then show ?thesis using that preamble_blank [OF b that(3), of s w] pre(1) by (simp add: fmt_db_simps)
    next
      case (Cons r new')
      have n: "is_number (dec_digits (length (fst r))) (length (fst r))" "is_number (dec_digits (length (snd r))) (length (snd r))"
        "length (dec_digits (length (fst r))) \<le> 10" "length (dec_digits (length (snd r))) \<le> 10"
        using that(2) Cons by (auto simp: fits_def intro: dec_digits_number)
      have "ib_stream b = [43] @ dec_digits (length (fst r)) @ [44] @ dec_digits (length (snd r)) @ [58] @
          (fst r @ [45, 62] @ snd r @ [10] @ fmt_db new' @ s)"
        using that(1) Cons by (simp add: fmt_db_simps fmt_rec_def)
      from preamble_reads [OF b that(3) n this, of w] pre(1) False show ?thesis by auto
    qed
    then show ?thesis using run rv own E(1,4) inv parsed
      by (intro exI [of _ rv] exI [of _ m] exI [of _ w1]) (fastforce simp: loop_end_def)
  next
    case True
    then obtain ds es where l: "is_number ds klen" "is_number es dlen" "ib_stream b = [43] @ ds @ [44] @ es @ [58] @ ib_stream b1"
      and b1: "ib_ok b1" "ib_willing b \<longrightarrow> ib_willing b1" using pre(4) by (auto simp: preamble_end_def mcdb_errors)
    have lim: "klen \<le> INT_MAX - 8" "dlen \<le> INT_MAX - 8" using l(1,2) by (simp_all add: is_number_def)
    have nonempty: "ds \<noteq> []" "es \<noteq> []" using l(1,2) by (simp_all add: is_number_def)
    have sz2: "data_end recs + (8 + klen + dlen) < 2 ^ 62" using sz lim by (simp add: INT_MAX_def)
    have inv1: "make_inv pk hf base recs m w1" using inv E(1) by simp
    obtain rv2 m2 b2 w2 where R: "makefmt_record P m klen dlen b1 w1 = Some (rv2, m2, b2, w2)"
      "record_end pk hf base recs klen dlen m b1 w1 rv2 m2 b2 w2"
      using makefmt_record_props [OF P pk b1(1) pieces inv1 sz2 lim] by blast
    have os2: "os_same w w2" using R(2) E(4) by (simp add: record_end_def os_same_def)
    have run: "makefmt_loop P m b w = (if rv2 = 0 then makefmt_loop P m2 b2 w2 else Some (rv2, m2, w2))"
      using True pre(1) R(1) by (subst makefmt_loop.simps) simp
    have first: "\<exists>k d new'. new = (k, d) # new' \<and> length k = klen \<and> length d = dlen \<and>
        ib_stream b1 = k @ [45, 62] @ d @ [10] @ fmt_db new' @ s"
      if t: "ib_stream b = fmt_db new @ s" "\<forall>r \<in> set new. fits r" "ib_willing b" for new s
    proof -
      obtain k d new' where new: "new = (k, d) # new'" by (rule fmt_db_starts [OF trans [OF t(1) [symmetric] l(3)]])
      then have n: "is_number (dec_digits (length k)) (length k)" "is_number (dec_digits (length d)) (length d)"
        "length (dec_digits (length k)) \<le> 10" "length (dec_digits (length d)) \<le> 10"
        using t(2) by (auto simp: fits_def intro: dec_digits_number)
      have "ib_stream b = [43] @ dec_digits (length k) @ [44] @ dec_digits (length d) @ [58] @
          (k @ [45, 62] @ d @ [10] @ fmt_db new' @ s)"
        using t(1) new by (simp add: fmt_db_simps fmt_rec_def)
      from preamble_reads [OF b t(3) n this, of w] pre(1) show ?thesis using new by auto
    qed
    show ?thesis
    proof (cases "rv2 = 0")
      case False
      have no: "\<not> (ib_willing b \<and> os_willing w \<and> ib_stream b = fmt_db new @ s \<and> (\<forall>r \<in> set new. fits r) \<and> length (recs @ new) < INT_MAX)" for new s
      proof
        assume a: "ib_willing b \<and> os_willing w \<and> ib_stream b = fmt_db new @ s \<and> (\<forall>r \<in> set new. fits r) \<and> length (recs @ new) < INT_MAX"
        then obtain k d new' where "new = (k, d) # new'" "rec_text klen dlen k d (fmt_db new' @ s) (ib_stream b1)"
          using first [of new s] by (auto simp: rec_text_def)
        then show False using R(2) False a b1(2) E(5) by (auto simp: record_end_def)
      qed
      have "owns_blocks base m2 w2" "rv2 \<in> {0, MCDB_ERROR_READFORMAT, MCDB_ERROR_READ, MCDB_ERROR_WRITE}"
        using R(2) by (auto simp: record_end_def)
      then have "loop_end pk hf base recs b w rv2 m2 w2" using no False os2 unfolding loop_end_def by blast
      then show ?thesis using run False by simp
    next
      case ok: True
      then obtain k d where kd: "rec_text klen dlen k d (ib_stream b2) (ib_stream b1)" "make_inv pk hf base (recs @ [(k, d)]) m2 w2"
        "ib_ok b2" "ib_willing b1 \<longrightarrow> ib_willing b2" "mk_hash_fn m2 = mk_hash_fn m"
        using R(2) by (auto simp: record_end_def)
      have len: "length (ib_stream b) = length ds + length es + 3 + klen + dlen + 3 + length (ib_stream b2)"
        using l(3) kd(1) by (simp add: rec_text_def)
      then have shorter: "length (ib_stream b2) < length (ib_stream b)" by simp
      have "1 \<le> length ds" "1 \<le> length es" using nonempty by (simp_all add: Suc_le_eq)
      moreover have "data_end (recs @ [(k, d)]) = data_end recs + (8 + klen + dlen)"
        using kd(1) by (simp add: data_end_snoc rec_len_def rec_text_def)
      ultimately have sz': "data_end (recs @ [(k, d)]) + length (ib_stream b2) < 2 ^ 61"
        using sz len by linarith
      obtain rv' m' w' where L: "makefmt_loop P m2 b2 w2 = Some (rv', m', w')" "loop_end pk hf base (recs @ [(k, d)]) b2 w2 rv' m' w'"
        using less(1) [OF shorter kd(3) hash_pieces_cong [OF kd(5) pieces] kd(2) sz'] by blast
      have os: "os_same w w'" using os2 L(2) by (simp add: loop_end_def os_same_def)
      have parsed: "\<exists>new s. fmt_input new s (ib_stream b) \<and> make_inv pk hf base (recs @ new) m' w'" if rv': "rv' = 0"
      proof -
        obtain new s where new: "fmt_input new s (ib_stream b2)" "make_inv pk hf base ((recs @ [(k, d)]) @ new) m' w'"
          using L(2) rv' by (auto simp: loop_end_def)
        have "is_number ds (length k)" "is_number es (length d)" using l(1,2) kd(1) by (simp_all add: rec_text_def)
        from fmt_line [OF this new(1)] have "fmt_input ((k, d) # new) s (ib_stream b)"
          using l(3) kd(1) by (simp add: rec_text_def)
        then show ?thesis using new(2) by (intro exI [of _ "(k, d) # new"] exI [of _ s]) simp
      qed
      have "rv' = 0" if a: "ib_willing b" "os_willing w" "ib_stream b = fmt_db new @ s" "\<forall>r \<in> set new. fits r" "length (recs @ new) < INT_MAX" for new s
      proof -
        obtain k' d' new' where f: "new = (k', d') # new'" "length k' = klen" "length d' = dlen"
          "ib_stream b1 = k' @ [45, 62] @ d' @ [10] @ fmt_db new' @ s"
          using first [OF a(3,4,1)] by (elim exE conjE) (rule that)
        have "k @ [45, 62] @ d @ [10] @ ib_stream b2 = k' @ [45, 62] @ d' @ [10] @ fmt_db new' @ s"
          using f(4) kd(1) by (simp only: rec_text_def)
        moreover have "length k = length k'" "length d = length d'" using f(2,3) kd(1) by (simp_all add: rec_text_def)
        ultimately have "ib_stream b2 = fmt_db new' @ s" by simp
        moreover have "length ((recs @ [(k, d)]) @ new') < INT_MAX" "\<forall>r \<in> set new'. fits r" using a(4,5) f(1) by simp_all
        ultimately have E2: "\<exists>new s. ib_stream b2 = fmt_db new @ s \<and> (\<forall>r \<in> set new. fits r) \<and> length ((recs @ [(k, d)]) @ new) < INT_MAX"
          by (intro exI [of _ new'] exI [of _ s] conjI)
        have "os_willing w2" "ib_willing b2" using a(1,2) os_willing_same [OF os2] b1(2) kd(4) by simp_all
        with E2 L(2) show ?thesis unfolding loop_end_def by (elim conjE) simp
      qed
      then have done1: "(\<exists>new s. ib_stream b = fmt_db new @ s \<and> (\<forall>r \<in> set new. fits r) \<and> length (recs @ new) < INT_MAX) \<longrightarrow>
        ib_willing b \<longrightarrow> os_willing w \<longrightarrow> rv' = 0" by blast
      have "owns_blocks base m' w'" "rv' \<in> {0, MCDB_ERROR_READFORMAT, MCDB_ERROR_READ, MCDB_ERROR_WRITE}"
        using L(2) by (simp_all add: loop_end_def)
      then have "loop_end pk hf base recs b w rv' m' w'" unfolding loop_end_def using os parsed done1 by blast
      then show ?thesis using run ok L(1) by simp
    qed
  qed
qed

subsection \<open>The whole conversion\<close>

text \<open>What the descriptor and the buffer hold before the conversion.\<close>

definition fmt_source :: "infile option \<Rightarrow> mem \<Rightarrow> nat \<Rightarrow> bytes" where
  "fmt_source inputfd buf bufsz = (case inputfd of None \<Rightarrow> mem_slice buf 0 bufsz | Some f \<Rightarrow> in_rest f)"

text \<open>The records of a text are within the limits of a database.\<close>

definition text_ok :: "bytes \<Rightarrow> bool" where
  "text_ok text \<longleftrightarrow> (\<forall>recs s. fmt_input recs s text \<longrightarrow> recs_ok djb_hash recs)"

lemma text_okD: "text_ok text \<Longrightarrow> fmt_input recs s text \<Longrightarrow> recs_ok djb_hash recs"
  by (auto simp: text_ok_def)

definition fmt_start :: "infile option \<Rightarrow> mem \<Rightarrow> nat \<Rightarrow> mcdb_input" where
  "fmt_start inputfd buf bufsz =
     \<lparr>ib_buf = buf, ib_pos = 0, ib_datasz = (if inputfd = None then bufsz else 0), ib_bufsz = bufsz, ib_fd = inputfd\<rparr>"

definition input_willing :: "infile option \<Rightarrow> nat \<Rightarrow> bool" where
  "input_willing inputfd bufsz \<longleftrightarrow> (\<forall>f. inputfd = Some f \<longrightarrow> (\<forall>k. in_fail f k = 0) \<and> 128 \<le> bufsz)"

lemma fmt_start_props:
  "ib_ok (fmt_start inputfd buf bufsz)" "ib_stream (fmt_start inputfd buf bufsz) = fmt_source inputfd buf bufsz"
  "ib_willing (fmt_start inputfd buf bufsz) \<longleftrightarrow> input_willing inputfd bufsz"
  by (cases inputfd; simp add: fmt_start_def ib_ok_def ib_stream_def ib_data_def ib_avail_def ib_rest_def fmt_source_def ib_willing_def
      mem_slice_def input_willing_def)+

lemma start_hash_fn: 
  assumes "mcdb_make_start pagesize fd w = Some (0, m, w')"
  shows "mk_hash_fn m = Hash_djb"
proof -
  have up: "mcdb_mmap_upsize m1 sz w1 = (ok, m2, w2) \<Longrightarrow> mk_hash_fn m2 = mk_hash_fn m1" for m1 sz w1 ok m2 w2
    using upsize_hash_fn [of m1 sz w1] by simp
  show ?thesis using assms
    by (auto simp: mcdb_make_start_def Let_def bind_eq_Some_conv dest!: up split: prod.splits option.splits if_splits)
qed

lemma start_failed:
  assumes fd: "fd \<noteq> -1" and pk: "pk \<le> 30" and s: "mcdb_make_start (2 ^ pk) fd w = Some (rc, m, w')" "rc \<noteq> 0"
  shows "rc = -1 \<and> o_live w' = o_live w \<and> os_same w w' \<and> \<not> os_willing w"
proof -
  obtain r w1 where ma: "os_malloc w = (r, w1)" by fastforce
  note M = malloc_props [OF ma]
  show ?thesis
  proof (cases r)
    case None
    then show ?thesis using s ma M by (auto simp: mcdb_make_start_def mcdb_make_destroy_def Let_def)
  next
    case (Some blk)
    have same: "mk_head m2 0 = mk_head m1 0" if "mcdb_mmap_upsize m1 MCDB_MMAP_SZ w1 = (ok, m2, w2)" "mk_pgalign m1 = page_mask pk"
      "mk_pos m1 = MCDB_HEADER_SZ" "mk_sized m1 w1" for m1 ok m2 w2
      using upsize_props [OF that(1,4,2) pk] that(3) by (simp add: mk_same_def mcdb_consts)
    have dead: "mcdb_make_destroy m2 w2 = None" if "mk_head m2 0 = [\<lparr>hl_blk = blk, hl_hps = [], hl_pend = None\<rparr>]" for m2 w2
      using that by (cases "ext_call w2") (simp add: mcdb_make_destroy_def Let_def)
    show ?thesis using s ma Some fd
      by (auto simp: mcdb_make_start_def Let_def bind_eq_Some_conv dead mk_sized_def page_mask_def split: prod.splits if_splits dest!: same)
  qed
qed

lemma hash_djb_pieces: "mk_hash_fn m = Hash_djb \<Longrightarrow> hash_pieces m"
  by (simp add: hash_pieces_def call_hash_fn_def uint32_hash_djb_append)

lemma makefmt_run:
  fixes fd :: int
  assumes P: "plasma_bigendian P" and pk: "pk \<le> 30" and fd: "fd \<noteq> -1" and fair: "eintr_fair w"
    and start: "mcdb_make_start (2 ^ pk) fd (w\<lparr>o_errno := 0\<rparr>) = Some (rc0, m0, w0)"
    and sz: "length (fmt_source inputfd buf bufsz) < 2 ^ 60"
    and ok: "text_ok (fmt_source inputfd buf bufsz)"
  shows "\<exists>rc w'. mcdb_makefmt_fdintofd P (2 ^ pk) inputfd buf bufsz fd w = Some (rc, w') \<and> mset (o_live w') = mset (o_live w) \<and>
    os_same w w' \<and> rc \<in> {0, MCDB_ERROR_READFORMAT, MCDB_ERROR_READ, MCDB_ERROR_WRITE} \<and>
    (rc = 0 \<longrightarrow> (\<exists>recs s. fmt_input recs s (fmt_source inputfd buf bufsz) \<and> db_file (o_file w') (o_flen w') djb_hash recs)) \<and>
    (os_willing w \<longrightarrow> input_willing inputfd bufsz \<longrightarrow>
      (\<exists>recs s. fmt_source inputfd buf bufsz = fmt_db recs @ s \<and> (\<forall>r \<in> set recs. fits r)) \<longrightarrow> rc = 0)"
proof (cases "rc0 = 0")
  case False
  note F = start_failed [OF fd pk start False]
  then show ?thesis using start by (auto simp: mcdb_makefmt_fdintofd_def os_willing_def mcdb_errors os_same_def)
next
  case True
  let ?b = "fmt_start inputfd buf bufsz" and ?w = "w\<lparr>o_errno := 0\<rparr>"
  note B = fmt_start_props [of inputfd buf bufsz]
  have s: "make_inv pk djb_hash (mset (o_live w)) [] m0 w0" "os_same w w0"
    using start_props [OF refl pk fd, of ?w] start True by (auto simp: os_same_def)
  have "data_end [] + length (ib_stream ?b) < 2 ^ 61" using sz B(2) by (simp add: data_end_def data_bytes_def mcdb_consts)
  from makefmt_loop_props [OF P pk B(1) hash_djb_pieces [OF start_hash_fn [OF start [unfolded True]]] s(1) this]
  obtain rv m1 w1 where L: "makefmt_loop P m0 ?b w0 = Some (rv, m1, w1)" "loop_end pk djb_hash (mset (o_live w)) [] ?b w0 rv m1 w1"
    by blast
  have os1: "os_same w w1" using s(2) L(2) by (simp add: loop_end_def os_same_def)
  have will: "rv = 0" if "os_willing w" "input_willing inputfd bufsz" "fmt_source inputfd buf bufsz = fmt_db recs @ s" "\<forall>r \<in> set recs. fits r" for recs s
  proof -
    have "length recs < INT_MAX" using text_okD [OF ok, of recs s] fmt_db_input [OF that(4), of s] that(3) by (simp add: recs_ok_def)
    then show ?thesis using L(2) that B(2,3) os_willing_same [OF s(2)] by (auto simp: loop_end_def)
  qed
  show ?thesis
  proof (cases "rv = 0")
    case False
    have "owns_blocks (mset (o_live w)) m1 w1" using L(2) by (simp add: loop_end_def)
    from destroy_returns_blocks [OF this] obtain rc m2 w2 where D: "mcdb_make_destroy m1 w1 = Some (rc, m2, w2)" "mset (o_live w2) = mset (o_live w)" "os_same w1 w2"
      by blast
    have "mcdb_makefmt_fdintofd P (2 ^ pk) inputfd buf bufsz fd w = Some (rv, w2)"
      using start True L(1) False D(1) by (simp add: mcdb_makefmt_fdintofd_def fmt_start_def)
    moreover have "rv \<in> {0, MCDB_ERROR_READFORMAT, MCDB_ERROR_READ, MCDB_ERROR_WRITE}" using L(2) by (simp add: loop_end_def)
    ultimately show ?thesis using False D(2) will os_same_trans [OF os1 D(3)] by auto
  next
    case rv: True
    obtain new s' where new: "fmt_input new s' (fmt_source inputfd buf bufsz)" "make_inv pk djb_hash (mset (o_live w)) new m1 w1"
      using L(2) rv B(2) by (auto simp: loop_end_def)
    from finish_props [OF P new(2) pk text_okD [OF ok new(1)] eintr_fair_same [OF os1 fair]] obtain rc m2 w2 where
      F: "mcdb_make_finish P m1 w1 = Some (rc, m2, w2)" "run_end djb_hash (mset (o_live w)) new w1 rc w2" by blast
    have "mcdb_makefmt_fdintofd P (2 ^ pk) inputfd buf bufsz fd w = Some (if rc = 0 then 0 else MCDB_ERROR_WRITE, w2)"
      using start True L(1) rv F(1) by (simp add: mcdb_makefmt_fdintofd_def fmt_start_def)
    then show ?thesis using F(2) new(1) os_willing_same [OF os1] os_same_trans [OF os1] by (auto simp: run_end_def mcdb_errors)
  qed
qed

text \<open>When the writer cannot be started.\<close>

lemma start_refused_errno [simp]: "start_refused (w\<lparr>o_errno := e\<rparr>) = start_refused w"
  by (simp add: start_refused_def)

lemma makefmt_refused:
  assumes "fd \<noteq> -1" "pk \<le> 30" "start_refused w"
  shows "mcdb_makefmt_fdintofd P (2 ^ pk) inputfd buf bufsz fd w = None"
  using start_cases [OF assms(1) refl assms(2), of "w\<lparr>o_errno := 0\<rparr>"] assms(3) by (simp add: mcdb_makefmt_fdintofd_def)

lemma makefmt_starts:
  assumes "fd \<noteq> -1" "pk \<le> 30" "\<not> start_refused w"
  shows "\<exists>rc m w'. mcdb_make_start (2 ^ pk) fd (w\<lparr>o_errno := 0\<rparr>) = Some (rc, m, w')"
  using start_cases [OF assms(1) refl assms(2), of "w\<lparr>o_errno := 0\<rparr>"] assms(3) by auto

lemma willing_not_refused: "os_willing w \<Longrightarrow> \<not> start_refused w"
  by (simp add: start_refused_def os_willing_def)

text \<open>A text of moderate length describes a database within the limits.\<close>

lemma fmt_input_size:
  "fmt_input recs s t \<Longrightarrow> 8 * length recs \<le> length t \<and> length (data_bytes recs) \<le> length t \<and> (\<forall>r \<in> set recs. fits r)"
proof (induction recs s t rule: fmt_input.induct)
  case (fmt_blank s)
  then show ?case by (simp add: data_bytes_def)
next
  case (fmt_line ds k es d recs s t)
  then have "1 \<le> length ds" "1 \<le> length es" by (simp_all add: is_number_def Suc_le_eq)
  with fmt_line show ?case by (simp add: data_bytes_def rec_bytes_def fits_def is_number_def)
qed

lemma fmt_input_few: "fmt_input recs s t \<Longrightarrow> length t \<le> 2 ^ 30 \<Longrightarrow> recs_ok hf recs"
  using fmt_input_size [of recs s t] by (intro recs_ok_few) (auto simp: fits_def)

lemma text_ok_short: "length t \<le> 2 ^ 30 \<Longrightarrow> text_ok t"
  by (auto simp: text_ok_def intro: fmt_input_few)

lemma makefmt_willing:
  assumes "plasma_bigendian P" "pk \<le> 30" "fd \<noteq> -1" "os_willing w" "input_willing inputfd bufsz"
    and "fmt_source inputfd buf bufsz = fmt_db recs @ s" "length (fmt_source inputfd buf bufsz) < 2 ^ 60" "recs_ok djb_hash recs"
  shows "\<exists>w'. mcdb_makefmt_fdintofd P (2 ^ pk) inputfd buf bufsz fd w = Some (0, w') \<and> db_file (o_file w') (o_flen w') djb_hash recs"
proof -
  have fair: "eintr_fair w" and will: "os_willing (w\<lparr>o_errno := 0\<rparr>)" using assms(4) by (auto simp: os_willing_def eintr_fair_def EINTR_def)
  obtain m w1 where st: "mcdb_make_start (2 ^ pk) fd (w\<lparr>o_errno := 0\<rparr>) = Some (0, m, w1)"
    by (rule start_willing [OF will refl assms(2,3)])
  have fits: "\<forall>r \<in> set recs. fits r" using assms(8) by (auto simp: recs_ok_def fits_def)
  have only: "recs' = recs" if "fmt_input recs' s' (fmt_source inputfd buf bufsz)" for recs' s'
    using fmt_input_unique [OF fmt_db_input [OF fits, of s]] that assms(6) by metis
  then have "text_ok (fmt_source inputfd buf bufsz)" using assms(8) by (auto simp: text_ok_def)
  from makefmt_run [OF assms(1-3) fair st assms(7) this] only assms(4-6) fits show ?thesis by fastforce
qed

subsection \<open>Properties\<close>

text \<open>C16: a text of less than 2^60 bytes whose records are within the limits of the writer is converted, however
  it is cut into reads and whatever call fails, with one exception: when the first mapping of the output file is refused, the
  start of the writer has no defined result, and the conversion has none.  In every other case it returns with one
  of its result codes and its blocks given back; and it returns 0 only when the text is a sequence of
  well-formed lines closed by a blank line and the output file is a database of exactly the records of these
  lines.\<close>

theorem makefmt_sound:
  assumes "plasma_bigendian P" "pk \<le> 30" "fd \<noteq> -1" "eintr_fair w" "length (fmt_source inputfd buf bufsz) < 2 ^ 60"
    and "text_ok (fmt_source inputfd buf bufsz)"
  shows "if start_refused w then mcdb_makefmt_fdintofd P (2 ^ pk) inputfd buf bufsz fd w = None
    else \<exists>rc w'. mcdb_makefmt_fdintofd P (2 ^ pk) inputfd buf bufsz fd w = Some (rc, w') \<and> mset (o_live w') = mset (o_live w) \<and>
      rc \<in> {0, MCDB_ERROR_READFORMAT, MCDB_ERROR_READ, MCDB_ERROR_WRITE} \<and>
      (rc = 0 \<longrightarrow> (\<exists>recs s. fmt_input recs s (fmt_source inputfd buf bufsz) \<and> db_file (o_file w') (o_flen w') djb_hash recs))"
proof (cases "start_refused w")
  case True
  then show ?thesis using makefmt_refused [OF assms(3,2) True] by simp
next
  case False
  obtain rc0 m0 w0 where "mcdb_make_start (2 ^ pk) fd (w\<lparr>o_errno := 0\<rparr>) = Some (rc0, m0, w0)"
    using makefmt_starts [OF assms(3,2) False] by blast
  from makefmt_run [OF assms(1-4) this assms(5,6)] show ?thesis using False by auto
qed

definition ex_text :: bytes where
  "ex_text = [43, 49, 44, 49, 58, 107, 45, 62, 118, 10, 43, 48, 48, 44, 48, 58, 45, 62, 10, 10, 33]"

definition ex_infile :: infile where
  "ex_infile = \<lparr>in_rest = ex_text, in_count = (\<lambda>_. 2), in_fail = (\<lambda>_. 0), in_step = 0\<rparr>"

theorem makefmt_sound_witness:
  "\<exists>rc w'. mcdb_makefmt_fdintofd plasma_ref (2 ^ 12) (Some ex_infile) (\<lambda>_. 0) 128 3 (os_empty (\<lambda>_. 0) (\<lambda>_. 7)) = Some (rc, w') \<and>
     mset (o_live w') = {#}"
proof -
  have l: "length (fmt_source (Some ex_infile) (\<lambda>_. 0) 128) = 21" by (simp add: fmt_source_def ex_infile_def ex_text_def)
  then have "text_ok (fmt_source (Some ex_infile) (\<lambda>_. 0) 128)" by (intro text_ok_short) simp
  with l show ?thesis
    using makefmt_sound [OF plasma_ref_bigendian _ _ os_empty_willing(2) [of "\<lambda>_. 7"], of 12 3 "Some ex_infile" "\<lambda>_. 0" 128]
      willing_not_refused [OF os_empty_willing(1), of "\<lambda>_. 7"] by (fastforce simp: os_empty_def)
qed

text \<open>C17: a text in the printed format of a database is converted: when no call fails and the
  buffer is at least as large as the one the program uses, the result is 0 and the file is a database of
  exactly the printed records, whatever follows the blank line and however the text is cut into reads.\<close>

theorem makefmt_complete:
  assumes "plasma_bigendian P" "pk \<le> 30" "fd \<noteq> -1" "os_willing w" "input_willing inputfd bufsz"
    and "fmt_source inputfd buf bufsz = fmt_db recs @ s" "length (fmt_source inputfd buf bufsz) < 2 ^ 60" "recs_ok djb_hash recs"
  shows "\<exists>w'. mcdb_makefmt_fdintofd P (2 ^ pk) inputfd buf bufsz fd w = Some (0, w') \<and> db_file (o_file w') (o_flen w') djb_hash recs"
  by (rule makefmt_willing [OF assms])

theorem makefmt_complete_witness:
  "\<exists>w'. mcdb_makefmt_fdintofd plasma_ref (2 ^ 12) (Some (ex_infile\<lparr>in_rest := fmt_db [([107], [118]), ([], [])] @ [33]\<rparr>)) (\<lambda>_. 0) 128 3
     (os_empty (\<lambda>_. 0) (\<lambda>_. 7)) = Some (0, w') \<and> db_file (o_file w') (o_flen w') djb_hash [([107], [118]), ([], [])]"
proof -
  let ?r = "[([107], [118]), ([], [])] :: kv list" and ?f = "ex_infile\<lparr>in_rest := fmt_db [([107], [118]), ([], [])] @ [33]\<rparr>"
  have s: "fmt_source (Some ?f) (\<lambda>_. 0) 128 = fmt_db ?r @ [33]" by (simp add: fmt_source_def)
  have "input_willing (Some ?f) 128" by (simp add: input_willing_def ex_infile_def)
  moreover have "length (fmt_db ?r @ [33]) < 2 ^ 60" by (simp add: fmt_db_def fmt_rec_def dec_digits.simps)
  moreover have "recs_ok djb_hash ?r" by (rule recs_ok_few) (simp_all add: data_bytes_def rec_len_def INT_MAX_def)
  ultimately show ?thesis
    using makefmt_complete [OF plasma_ref_bigendian _ _ os_empty_willing(1) _ s, of 12 3] s by simp
qed

end
