(* ===== verification/Db_Values.thy ===== *)
theory Db_Values
  imports Mcdb_Format "HOL-Library.Multiset"
begin

text \<open>
  The abstract contents of a database: which values a key has, in which order, and how the
  entries of the tables stand for the records of the file.
\<close>

subsection \<open>Abstract lookup\<close>

definition slot_recs :: "(bytes \<Rightarrow> u32) \<Rightarrow> kv list \<Rightarrow> nat \<Rightarrow> kv list" where
  "slot_recs hf recs i = filter (\<lambda>r. slot_of (hf (fst r)) = i) recs"

text \<open>The values of a key in the order in which a search meets them.\<close>

definition db_values :: "(bytes \<Rightarrow> u32) \<Rightarrow> kv list \<Rightarrow> bytes \<Rightarrow> bytes list" where
  "db_values hf recs k =
     map snd (filter (\<lambda>r. fst r = k) (newest_first (slot_recs hf recs (slot_of (hf k)))))"

lemma newest_first_map: "newest_first (map g xs) = map g (newest_first xs)"
proof (induction xs rule: newest_first.induct)
  case (1 es)
  then show ?case
    by (cases "length es \<le> MCDB_HPLIST")
      (simp_all add: newest_first.simps [of es] newest_first.simps [of "map g es"] drop_map take_map)
qed

lemma mset_newest_first_eq [simp]: "mset (newest_first xs) = mset xs"
proof (induction xs rule: newest_first.induct)
  case (1 es)
  have "mset (drop MCDB_HPLIST es) + mset (take MCDB_HPLIST es) = mset es"
    by (metis append_take_drop_id mset_append union_commute)
  with 1 show ?case by (simp add: newest_first.simps [of es])
qed

text \<open>Every value of the key is found, as often as it was added.\<close>

lemma db_values_mset: "mset (db_values hf recs k) = mset (map snd (filter (\<lambda>r. fst r = k) recs))"
proof -
  have "filter (\<lambda>r. fst r = k) (slot_recs hf recs (slot_of (hf k))) = filter (\<lambda>r. fst r = k) recs"
    unfolding slot_recs_def filter_filter by (rule filter_cong) auto
  then have "filter_mset (\<lambda>r. fst r = k) (mset (slot_recs hf recs (slot_of (hf k)))) = mset (filter (\<lambda>r. fst r = k) recs)"
    by (metis mset_filter)
  then show ?thesis by (simp add: db_values_def mset_filter)
qed

text \<open>In the order of insertion while the slot has at most 250 records.\<close>

lemma db_values_order:
  assumes "length (slot_recs hf recs (slot_of (hf k))) \<le> MCDB_HPLIST"
  shows "db_values hf recs k = map snd (filter (\<lambda>r. fst r = k) recs)"
proof -
  have "filter (\<lambda>r. fst r = k) (slot_recs hf recs (slot_of (hf k))) = filter (\<lambda>r. fst r = k) recs"
    unfolding slot_recs_def filter_filter by (rule filter_cong) auto
  then show ?thesis using assms by (simp add: db_values_def newest_first_short)
qed

subsection \<open>Entries and records\<close>

definition rec_of :: "(bytes \<Rightarrow> u32) \<Rightarrow> kv list \<Rightarrow> mcdb_hp \<Rightarrow> kv" where
  "rec_of hf recs e = the (map_of (zip (entries hf recs) recs) e)"

lemma hp_list_pos_ge: "e \<in> set (hp_list hf pos recs) \<Longrightarrow> pos \<le> hp_p e"
proof (induction recs arbitrary: pos)
  case (Cons r recs)
  then show ?case by (fastforce simp: rec_len_def)
qed simp

lemma distinct_hp_list: "distinct (hp_list hf pos recs)"
proof (induction recs arbitrary: pos)
  case (Cons r recs)
  have "\<lparr>hp_p = pos, hp_h = hf (fst r), hp_l = word_of_nat (length (fst r))\<rparr> \<notin> set (hp_list hf (pos + rec_len r) recs)"
    using hp_list_pos_ge [of _ hf "pos + rec_len r" recs] by (fastforce simp: rec_len_def)
  with Cons show ?case by simp
qed simp

lemma distinct_entries: "distinct (entries hf recs)"
  by (simp add: entries_def distinct_hp_list)

lemma rec_of_nth: "j < length recs \<Longrightarrow> rec_of hf recs (entries hf recs ! j) = recs ! j"
  using distinct_entries [of hf recs] by (simp add: rec_of_def map_of_zip_nth)

lemma map_rec_of: "map (rec_of hf recs) (entries hf recs) = recs"
  by (rule nth_equalityI) (simp_all add: rec_of_nth)

text \<open>What an entry says about its record, and where the record is.\<close>

definition entry_of_rec :: "mem \<Rightarrow> (bytes \<Rightarrow> u32) \<Rightarrow> nat \<Rightarrow> mcdb_hp \<Rightarrow> kv \<Rightarrow> bool" where
  "entry_of_rec f hf lim e r \<longleftrightarrow> hp_h e = hf (fst r) \<and> hp_l e = word_of_nat (length (fst r)) \<and>
     hp_p e + rec_len r \<le> lim \<and> mem_slice f (hp_p e) (rec_len r) = rec_bytes r"

lemma hp_list_entry:
  "mem_slice f pos (length (data_bytes recs)) = data_bytes recs \<Longrightarrow> j < length recs \<Longrightarrow>
   entry_of_rec f hf (pos + length (data_bytes recs)) (hp_list hf pos recs ! j) (recs ! j)"
proof (induction recs arbitrary: pos j)
  case (Cons r recs)
  from Cons.prems(1) have split: "mem_slice f pos (rec_len r) = rec_bytes r"
    "mem_slice f (pos + rec_len r) (length (data_bytes recs)) = data_bytes recs"
    by (simp_all add: data_bytes_Cons mem_slice_add)
  show ?case
  proof (cases j)
    case 0
    then show ?thesis using split by (simp add: entry_of_rec_def data_bytes_Cons)
  next
    case (Suc i)
    then show ?thesis using Cons.IH [OF split(2), of i] Cons.prems(2) by (simp add: data_bytes_Cons add.assoc)
  qed
qed simp

lemma entry_of_rec_of:
  assumes "db_file f n hf recs" "e \<in> set (entries hf recs)"
  shows "entry_of_rec f hf (data_end recs) e (rec_of hf recs e)"
proof -
  from assms(2) obtain j where j: "j < length recs" "e = entries hf recs ! j" by (auto simp: in_set_conv_nth)
  then show ?thesis using assms(1) hp_list_entry [of f MCDB_HEADER_SZ recs j hf]
    by (simp add: rec_of_nth entries_def [symmetric] db_file_def data_end_def)
qed

lemma slot_hps_recs:
  assumes "db_file f n hf recs"
  shows "map (rec_of hf recs) (slot_hps (entries hf recs) i) = slot_recs hf recs i"
proof -
  have "slot_hps (entries hf recs) i = filter (\<lambda>e. slot_of (hf (fst (rec_of hf recs e))) = i) (entries hf recs)"
    unfolding slot_hps_def by (rule filter_cong) (use entry_of_rec_of [OF assms] in \<open>auto simp: entry_of_rec_def\<close>)
  also have "map (rec_of hf recs) \<dots> = filter (\<lambda>r. slot_of (hf (fst r)) = i) (map (rec_of hf recs) (entries hf recs))"
    by (simp add: filter_map comp_def)
  finally show ?thesis by (simp add: map_rec_of slot_recs_def)
qed

lemma db_values_entries:
  assumes "db_file f n hf recs"
  shows "map (\<lambda>e. snd (rec_of hf recs e)) (filter (\<lambda>e. fst (rec_of hf recs e) = k)
      (newest_first (slot_hps (entries hf recs) (slot_of (hf k))))) = db_values hf recs k"
proof -
  have "db_values hf recs k = map snd (filter (\<lambda>r. fst r = k)
      (map (rec_of hf recs) (newest_first (slot_hps (entries hf recs) (slot_of (hf k))))))"
    by (simp add: db_values_def slot_hps_recs [OF assms, symmetric] newest_first_map)
  also have "\<dots> = map (\<lambda>e. snd (rec_of hf recs e)) (filter (\<lambda>e. fst (rec_of hf recs e) = k)
      (newest_first (slot_hps (entries hf recs) (slot_of (hf k)))))"
    by (simp add: filter_map comp_def)
  finally show ?thesis ..
qed

text \<open>The entries that a search for a key meets.\<close>

lemma slot_table_entries:
  assumes "slot_table hf recs i = Some T" "T c = Some e"
  shows "e \<in> set (entries hf recs)"
  using lp.insert_all_ran [OF assms(1) [unfolded slot_table_def] assms(2)] slot_hps_subset by auto

lemma scan_matches:
  assumes db: "db_file f n hf recs" and T: "slot_table hf recs (slot_of (hf k)) = Some T"
    and cells: "N = slot_cells hf recs (slot_of (hf k))" "0 < N"
    and s: "s = unat (drop_bit MCDB_SLOT_BITS (hf k)) mod N"
  shows "map (\<lambda>e. snd (rec_of hf recs e)) (filter (\<lambda>e. fst (rec_of hf recs e) = k) (probe_scan T N s)) = db_values hf recs k"
proof -
  have sN: "s < N" using cells s by simp
  have scan: "\<And>e. e \<in> set (probe_scan T N s) \<Longrightarrow> e \<in> set (entries hf recs)"
    using slot_table_entries [OF T] run_len_occupied by (fastforce simp: probe_scan_def)
  have home: "entry_home N e = s" if "e \<in> set (entries hf recs)" "fst (rec_of hf recs e) = k" for e
    using entry_of_rec_of [OF db that(1)] that(2) by (simp add: entry_home_def entry_of_rec_def s)
  have absorb: "filter (\<lambda>e. fst (rec_of hf recs e) = k) xs =
      filter (\<lambda>e. fst (rec_of hf recs e) = k) (filter (\<lambda>e. entry_home N e = s) xs)"
    if "set xs \<subseteq> set (entries hf recs)" for xs
    unfolding filter_filter using that home by (intro filter_cong) auto
  have "filter (\<lambda>e. fst (rec_of hf recs e) = k) (probe_scan T N s)
      = filter (\<lambda>e. fst (rec_of hf recs e) = k) (newest_first (slot_hps (entries hf recs) (slot_of (hf k))))"
    using lp.scan_order [OF _ sN, of "newest_first (slot_hps (entries hf recs) (slot_of (hf k)))" T] T
      absorb [of "probe_scan T N s"] absorb [of "newest_first (slot_hps (entries hf recs) (slot_of (hf k)))"] scan
    by (auto simp: slot_table_def cells(1) slot_hps_def)
  then show ?thesis using db_values_entries [OF db, of k] by simp
qed

end
