(* ===== verification/Find_Loads.thy ===== *)
theory Find_Loads
  imports Mcdb_Find Db_Values
begin

text \<open>What the reader's loads give on a map of a database file.\<close>

definition db_mapped :: "(bytes \<Rightarrow> u32) \<Rightarrow> kv list \<Rightarrow> mcdb_mmap \<Rightarrow> bool" where
  "db_mapped hf recs mm \<longleftrightarrow> recs_ok hf recs \<and> mm_b mm = stride_bits recs \<and>
     (\<exists>f. mm_ptr mm = Some f \<and> db_file f (mm_size mm) hf recs)"

definition mm_bytes :: "mcdb_mmap \<Rightarrow> mem" where
  "mm_bytes mm = the (mm_ptr mm)"

lemma db_mappedD:
  assumes "db_mapped hf recs mm"
  shows "mm_ptr mm = Some (mm_bytes mm)" "db_file (mm_bytes mm) (mm_size mm) hf recs" "recs_ok hf recs"
    "mm_b mm = stride_bits recs" "mm_size mm = table_pos hf recs MCDB_SLOTS" "mm_size mm < 2 ^ 62"
  using assms table_pos_bound [of hf recs MCDB_SLOTS]
  by (auto simp: db_mapped_def mm_bytes_def db_file_def)

lemma map_load_nat:
  assumes "mm_ptr mm = Some f" "mm_size mm < 2 ^ 62" "a + n \<le> mm_size mm"
  shows "map_load mm (word_of_nat a) n = Some (mem_slice f a n)"
  using assms by (simp add: map_load_def unat_of_nat_u64)

lemma map_load_aligned_nat:
  assumes "mm_ptr mm = Some f" "mm_size mm < 2 ^ 62" "a + n \<le> mm_size mm" "a mod n = 0"
  shows "map_load_aligned mm (word_of_nat a) n = Some (mem_slice f a n)"
  using assms by (simp add: map_load_aligned_def map_load_nat unat_of_nat_u64)

lemma tables_start_ge: "MCDB_HEADER_SZ \<le> tables_start recs" "data_end recs \<le> tables_start recs"
  by (simp_all add: tables_start_def data_end_def)

lemma table_pos_ge: "tables_start recs \<le> table_pos hf recs i"
  using table_pos_mono [of 0 i hf recs] by simp

lemma table_end_le:
  "i < MCDB_SLOTS \<Longrightarrow> table_pos hf recs i + slot_cells hf recs i * 2 ^ stride_bits recs \<le> table_pos hf recs MCDB_SLOTS"
  using table_pos_mono [of "Suc i" MCDB_SLOTS hf recs] by (simp add: table_pos_Suc)

text \<open>The header.\<close>

lemma load_header:
  assumes db: "db_mapped hf recs mm" and i: "i < MCDB_SLOTS"
  shows "map_load_aligned mm (word_of_nat (i * 16)) 8 = Some (be_bytes 8 (table_pos hf recs i))"
    and "map_load_aligned mm (word_of_nat (i * 16 + 8)) 4 = Some (be_bytes 4 (slot_cells hf recs i))"
proof -
  note D = db_mappedD [OF db]
  have sz: "4096 \<le> mm_size mm"
    using D(5) table_pos_ge [of recs hf MCDB_SLOTS] tables_start_ge(1) [of recs] by (simp add: MCDB_HEADER_SZ_def)
  have hdr: "header_at (mm_bytes mm) hf recs i" using D(2) i by (simp add: db_file_def)
  have i256: "i < 256" using i by (simp add: MCDB_SLOTS_def)
  have "(i * 16) mod 8 = 0" "(i * 16 + 8) mod 4 = 0" by presburger+
  with hdr i256 sz show "map_load_aligned mm (word_of_nat (i * 16)) 8 = Some (be_bytes 8 (table_pos hf recs i))"
    "map_load_aligned mm (word_of_nat (i * 16 + 8)) 4 = Some (be_bytes 4 (slot_cells hf recs i))"
    by (simp_all only: map_load_aligned_nat [OF D(1,6)] header_at_def)
qed

text \<open>The cells.\<close>

definition cell_at :: "(bytes \<Rightarrow> u32) \<Rightarrow> kv list \<Rightarrow> nat \<Rightarrow> nat \<Rightarrow> nat" where
  "cell_at hf recs i c = table_pos hf recs i + c * 2 ^ stride_bits recs"

lemma cell_at_le:
  assumes "i < MCDB_SLOTS" "c < slot_cells hf recs i" "k \<le> 2 ^ stride_bits recs"
  shows "cell_at hf recs i c + k \<le> table_pos hf recs MCDB_SLOTS"
  using cell_in_table [of c "slot_cells hf recs i" 0 k "stride_bits recs" "table_pos hf recs i"] assms
    table_end_le [OF assms(1), of hf recs] by (simp add: cell_at_def)

lemma cell_at_aligned: "cell_at hf recs i c mod 8 = 0"
proof -
  have "(8 :: nat) dvd 2 ^ stride_bits recs" by (simp add: stride_bits_def)
  moreover have "16 dvd table_pos hf recs i" using table_pos_aligned [of hf recs i] by (simp add: mod_eq_0_iff_dvd)
  then have "8 dvd table_pos hf recs i" by (rule dvd_trans [rotated]) simp
  ultimately show ?thesis by (simp add: cell_at_def mod_eq_0_iff_dvd)
qed

lemma load_cell:
  assumes db: "db_mapped hf recs mm" and i: "i < MCDB_SLOTS" and c: "c < slot_cells hf recs i"
    and T: "slot_table hf recs i = Some T" and k: "off + k \<le> 2 ^ stride_bits recs" "off mod k = 0" "k = 4 \<or> k = 8"
  shows "map_load_aligned mm (word_of_nat (cell_at hf recs i c + off)) k =
    Some (take k (drop off (cell_bytes (stride_bits recs) (T c))))"
proof -
  note D = db_mappedD [OF db]
  have "table_at (mm_bytes mm) (table_pos hf recs i) (stride_bits recs) (slot_cells hf recs i) T"
    using D(2) i T by (auto simp: db_file_def)
  then have cell: "mem_slice (mm_bytes mm) (cell_at hf recs i c) (2 ^ stride_bits recs) = cell_bytes (stride_bits recs) (T c)"
    using c by (simp add: table_at_def cell_at_def)
  have "cell_at hf recs i c + off + k \<le> mm_size mm" using cell_at_le [OF i c k(1)] D(5) by simp
  moreover have "(cell_at hf recs i c + off) mod k = 0"
    using cell_at_aligned [of hf recs i c] k(2,3) by (elim disjE; presburger)
  ultimately show ?thesis
    using slice_part [OF cell k(1)] by (simp only: map_load_aligned_nat [OF D(1,6)])
qed

text \<open>The records.\<close>

lemma load_record:
  assumes db: "db_mapped hf recs mm" and e: "e \<in> set (entries hf recs)" and r: "rec_of hf recs e = (k, d)"
  shows "map_load mm (word_of_nat (hp_p e)) 4 = Some (be_bytes 4 (length k))"
    and "map_load mm (word_of_nat (hp_p e + 4)) 4 = Some (be_bytes 4 (length d))"
    and "off + n \<le> length k \<Longrightarrow> map_load mm (word_of_nat (hp_p e + 8 + off)) n = Some (take n (drop off k))"
    and "map_load mm (word_of_nat (hp_p e + 8 + length k)) (length d) = Some d"
proof -
  note D = db_mappedD [OF db]
  have E: "hp_p e + rec_len (k, d) \<le> data_end recs" "mem_slice (mm_bytes mm) (hp_p e) (rec_len (k, d)) = rec_bytes (k, d)"
    using entry_of_rec_of [OF D(2) e] r by (simp_all add: entry_of_rec_def)
  have "data_end recs \<le> mm_size mm" using D(5) tables_start_ge(2) [of recs] table_pos_ge [of recs hf MCDB_SLOTS] by simp
  then have lim: "hp_p e + rec_len (k, d) \<le> mm_size mm" using E(1) by simp
  have part: "map_load mm (word_of_nat (hp_p e + o')) n' = Some (take n' (drop o' (rec_bytes (k, d))))"
    if "o' + n' \<le> rec_len (k, d)" for o' n'
    using map_load_nat [OF D(1,6), of "hp_p e + o'" n'] slice_part [OF E(2) that] lim that by simp
  show "map_load mm (word_of_nat (hp_p e)) 4 = Some (be_bytes 4 (length k))"
    using part [of 0 4] by (simp add: rec_len_def rec_bytes_def)
  show "map_load mm (word_of_nat (hp_p e + 4)) 4 = Some (be_bytes 4 (length d))"
    using part [of 4 4] by (simp add: rec_len_def rec_bytes_def)
  show "map_load mm (word_of_nat (hp_p e + 8 + off)) n = Some (take n (drop off k))" if "off + n \<le> length k"
    using part [of "8 + off" n] that by (simp add: rec_len_def rec_bytes_def add.assoc)
  show "map_load mm (word_of_nat (hp_p e + 8 + length k)) (length d) = Some d"
    using part [of "8 + length k" "length d"] by (simp add: rec_len_def rec_bytes_def add.assoc)
qed

end
