(* ===== verification/Find_Steps.thy ===== *)
theory Find_Steps
  imports Find_Loads
begin

text \<open>
  One probe of \<^verbatim>\<open>mcdb_findtagnext\<close> on a database map, for both cell widths: the loop
  follows the probe sequence of the abstract table and reports exactly the records of the key.
\<close>

definition full_key :: "bytes \<Rightarrow> u8 \<Rightarrow> bytes" where
  "full_key key tagc = (if tagc = 0 then key else tagc # key)"

lemma length_full_key: "length (full_key key tagc) = length key + tag_len tagc"
  by (simp add: full_key_def tag_len_def)

text \<open>The table a search for key k walks through.\<close>

definition searching ::
  "(bytes \<Rightarrow> u32) \<Rightarrow> kv list \<Rightarrow> mcdb_mmap \<Rightarrow> bytes \<Rightarrow> mcdb_hp table \<Rightarrow> nat \<Rightarrow> nat \<Rightarrow> bool" where
  "searching hf recs mm k T N s \<longleftrightarrow> db_mapped hf recs mm \<and> slot_table hf recs (slot_of (hf k)) = Some T \<and>
     N = slot_cells hf recs (slot_of (hf k)) \<and> 0 < N \<and> s = unat (drop_bit MCDB_SLOT_BITS (hf k)) mod N"

text \<open>The reader's state after j probes.\<close>

definition probing ::
  "(bytes \<Rightarrow> u32) \<Rightarrow> kv list \<Rightarrow> bytes \<Rightarrow> nat \<Rightarrow> nat \<Rightarrow> mcdb \<Rightarrow> nat \<Rightarrow> bool" where
  "probing hf recs k N s m j \<longleftrightarrow> m_hslots m = word_of_nat N \<and>
     m_hpos m = word_of_nat (table_pos hf recs (slot_of (hf k))) \<and> m_loop m = word_of_nat j \<and>
     m_kpos m = word_of_nat (cell_at hf recs (slot_of (hf k)) (probe_seq N s j)) \<and>
     m_khash m = be_bytes 4 (unat (hf k))"

definition slots_end :: "(bytes \<Rightarrow> u32) \<Rightarrow> kv list \<Rightarrow> bytes \<Rightarrow> u64" where
  "slots_end hf recs k = word_of_nat (cell_at hf recs (slot_of (hf k)) (slot_cells hf recs (slot_of (hf k))))"

lemma searchingD:
  assumes "searching hf recs mm k T N s"
  shows "db_mapped hf recs mm" "slot_table hf recs (slot_of (hf k)) = Some T" "N = slot_cells hf recs (slot_of (hf k))"
    "0 < N" "N \<le> 2 ^ 28" "s < N"
  using assms slot_cells_bound [of hf recs "slot_of (hf k)"] db_mappedD(3)
  by (auto simp: searching_def)

lemma of_nat_eq_u64:
  assumes "a < 2 ^ 62" "b < 2 ^ 62" "(word_of_nat a :: u64) = word_of_nat b"
  shows "a = b"
proof -
  have "unat (word_of_nat a :: u64) = a" "unat (word_of_nat b :: u64) = b"
    using assms(1,2) by (auto intro: unat_of_nat_u64)
  with assms(3) show ?thesis by metis
qed

lemma cell_at_end:
  "i < MCDB_SLOTS \<Longrightarrow> cell_at hf recs i (slot_cells hf recs i) \<le> table_pos hf recs MCDB_SLOTS"
  using table_end_le [of i hf recs] by (simp add: cell_at_def)

lemma cell_at_Suc: "cell_at hf recs i (Suc c) = cell_at hf recs i c + 2 ^ stride_bits recs"
  by (simp add: cell_at_def)

lemma step_kpos_probing:
  assumes S: "searching hf recs mm k T N s" and pr: "probing hf recs k N s m j" and w: "w = 2 ^ stride_bits recs"
  shows "m_kpos (step_kpos w m (slots_end hf recs k)) = word_of_nat (cell_at hf recs (slot_of (hf k)) (probe_seq N s (Suc j)))"
proof -
  let ?i = "slot_of (hf k)" and ?c = "probe_seq N s j"
  note D = searchingD [OF S]
  have lim: "table_pos hf recs MCDB_SLOTS < 2 ^ 62" using db_mappedD(5,6) [OF D(1)] by simp
  have c: "?c < N" using D(4) by (simp add: probe_seq_less)
  have kpos: "m_kpos m + word_of_nat w = word_of_nat (cell_at hf recs ?i (Suc ?c))"
    using pr by (simp add: probing_def cell_at_Suc w)
  have le: "cell_at hf recs ?i (Suc ?c) \<le> table_pos hf recs MCDB_SLOTS"
    using cell_at_le [of ?i ?c hf recs "2 ^ stride_bits recs"] c D(3) by (simp add: cell_at_Suc)
  have le_end: "cell_at hf recs ?i N \<le> table_pos hf recs MCDB_SLOTS" using cell_at_end [of ?i hf recs] D(3) by simp
  have "m_kpos m + word_of_nat w = slots_end hf recs k \<longleftrightarrow> Suc ?c = N"
  proof
    assume "m_kpos m + word_of_nat w = slots_end hf recs k"
    then have "cell_at hf recs ?i (Suc ?c) = cell_at hf recs ?i N"
      unfolding kpos slots_end_def D(3) [symmetric] using le le_end lim by (intro of_nat_eq_u64) auto
    then have "Suc ?c * 2 ^ stride_bits recs = N * 2 ^ stride_bits recs" unfolding cell_at_def by (rule add_left_imp_eq)
    then show "Suc ?c = N" by (simp del: mult_Suc)
  next
    assume "Suc ?c = N"
    then show "m_kpos m + word_of_nat w = slots_end hf recs k" unfolding kpos slots_end_def D(3) [symmetric] by simp
  qed
  moreover have "m_hpos m = word_of_nat (cell_at hf recs ?i 0)" using pr by (simp add: probing_def cell_at_def)
  ultimately show ?thesis using kpos D(4) by (simp add: step_kpos_def probe_seq_Suc)
qed

lemma key_matches_rec:
  assumes db: "db_mapped hf recs mm" and e: "e \<in> set (entries hf recs)" and r: "rec_of hf recs e = (k', d)"
    and len: "length k' = length (full_key key tagc)"
  shows "key_matches mm (word_of_nat (hp_p e + 8)) key tagc = Some (k' = full_key key tagc)"
proof (cases "tagc = 0")
  case True
  then show ?thesis using load_record(3) [OF db e r, of 0 "length key"] len
    by (simp add: key_matches_def full_key_def)
next
  case False
  then have len: "length k' = Suc (length key)" using len by (simp add: full_key_def)
  then obtain t ks where k': "k' = t # ks" by (cases k') auto
  have "map_load mm (word_of_nat (hp_p e + 8)) 1 = Some [t]"
    using load_record(3) [OF db e r, of 0 1] k' by simp
  moreover have "map_load mm (word_of_nat (hp_p e + 8) + 1) (length key) = Some ks"
    using load_record(3) [OF db e r, of 1 "length key"] k' len by (simp add: add.commute add.left_commute)
  ultimately show ?thesis using False k' by (auto simp: key_matches_def full_key_def)
qed

text \<open>The entry in the cell that is probed, and its record.\<close>

lemma probed_entry:
  assumes S: "searching hf recs mm k T N s" and j: "j < run_len T N s"
  obtains e k' d where "T (probe_seq N s j) = Some e" "e \<in> set (entries hf recs)" "rec_of hf recs e = (k', d)"
    "hp_h e = hf k'" "hp_l e = word_of_nat (length k')" "4096 \<le> hp_p e" "hp_p e < tables_start recs"
    "length k' \<le> INT_MAX - 8" "length d \<le> INT_MAX - 8"
proof -
  note D = searchingD [OF S]
  obtain e where T: "T (probe_seq N s j) = Some e" using run_len_occupied [OF j] by auto
  then have e: "e \<in> set (entries hf recs)" using slot_table_entries [OF D(2)] by blast
  obtain k' d where r: "rec_of hf recs e = (k', d)" by fastforce
  have "entry_of_rec (mm_bytes mm) hf (data_end recs) e (k', d)"
    using entry_of_rec_of [OF db_mappedD(2) [OF D(1)] e] r by simp
  moreover have "(k', d) \<in> set recs"
  proof -
    from e obtain n where "n < length recs" "e = entries hf recs ! n" by (auto simp: in_set_conv_nth)
    then show ?thesis using r rec_of_nth [of n recs hf] by (metis nth_mem)
  qed
  moreover have "MCDB_HEADER_SZ \<le> hp_p e" "hp_p e < tables_start recs"
    using entry_pos [OF e] tables_start_ge(2) [of recs] by auto
  ultimately show ?thesis
    using that [OF T e r] db_mappedD(3) [OF D(1)] by (fastforce simp: entry_of_rec_def recs_ok_def MCDB_HEADER_SZ_def)
qed

subsection \<open>A probe of an occupied cell\<close>

text \<open>What a hit leaves in the reader's state.\<close>

definition hit_at :: "mcdb_hp \<Rightarrow> bytes \<Rightarrow> bytes \<Rightarrow> mcdb \<Rightarrow> bool" where
  "hit_at e k d m \<longleftrightarrow> m_dpos m = word_of_nat (hp_p e + 8 + length k) \<and> m_dlen m = word_of_nat (length d) \<and>
     m_klen m = word_of_nat (length k)"

lemma probing_next:
  assumes S: "searching hf recs mm k T N s" and pr: "probing hf recs k N s m j" and j: "j < N"
    and w: "w = 2 ^ stride_bits recs"
  shows "m_loop m < m_hslots m"
    and "\<And>m'. m' = step_kpos w m (slots_end hf recs k) \<Longrightarrow> probing hf recs k N s (m'\<lparr>m_loop := m_loop m' + 1\<rparr>) (Suc j)"
proof -
  have "N < 4294967296" using searchingD(5) [OF S] by simp
  then show "m_loop m < m_hslots m" using pr j by (simp add: probing_def word_less_nat_alt unat_of_nat_u32)
  fix m' assume "m' = step_kpos w m (slots_end hf recs k)"
  then show "probing hf recs k N s (m'\<lparr>m_loop := m_loop m' + 1\<rparr>) (Suc j)"
    using pr step_kpos_probing [OF S pr w] by (simp add: probing_def add.commute)
qed

lemma ucast_of_nat_u32: "n < 4294967296 \<Longrightarrow> (ucast (word_of_nat n :: u32) :: u64) = word_of_nat n"
  by (simp add: unsigned_of_nat take_bit_nat_eq_self)

lemma of_nat_u64_nonzero: "0 < n \<Longrightarrow> n < 2 ^ 62 \<Longrightarrow> (word_of_nat n :: u64) \<noteq> 0"
  using of_nat_eq_u64 [of n 0] by auto

lemma narrow_step:
  assumes P: "plasma_bigendian P" and S: "searching hf recs mm (full_key key tagc) T N s" and b: "stride_bits recs = 3"
    and pr: "probing hf recs (full_key key tagc) N s m j" and j: "j < run_len T N s"
  shows "\<exists>e k' d m'. T (probe_seq N s j) = Some e \<and> e \<in> set (entries hf recs) \<and> rec_of hf recs e = (k', d) \<and>
    probing hf recs (full_key key tagc) N s m' (Suc j) \<and> m_map m' = m_map m \<and>
    (if k' = full_key key tagc
     then findnext_narrow P mm (slots_end hf recs (full_key key tagc)) key tagc m = Some (True, m') \<and> hit_at e k' d m'
     else findnext_narrow P mm (slots_end hf recs (full_key key tagc)) key tagc m =
          findnext_narrow P mm (slots_end hf recs (full_key key tagc)) key tagc m')"
proof -
  let ?k = "full_key key tagc" and ?stop = "slots_end hf recs (full_key key tagc)"
  note D = searchingD [OF S]
  obtain e k' d where e: "T (probe_seq N s j) = Some e" "e \<in> set (entries hf recs)" "rec_of hf recs e = (k', d)"
    "hp_h e = hf k'" "hp_l e = word_of_nat (length k')" "4096 \<le> hp_p e" "hp_p e < tables_start recs"
    "length k' \<le> INT_MAX - 8" "length d \<le> INT_MAX - 8"
    by (rule probed_entry [OF S j])
  have jN: "j < N" using j run_len_le [of T N s] by simp
  have c: "probe_seq N s j < slot_cells hf recs (slot_of (hf ?k))" using D(3,4) by (simp add: probe_seq_less)
  define m1 where "m1 = step_kpos 8 m ?stop"
  define m2 where "m2 = m1\<lparr>m_loop := m_loop m1 + 1\<rparr>"
  have m2: "probing hf recs ?k N s m2 (Suc j)" "m_loop m < m_hslots m" "m_map m2 = m_map m"
    using probing_next [OF S pr jN, of 8] b by (simp_all add: m1_def m2_def)
  have p32: "hp_p e < 4294967296" using e(7) b by (auto simp: stride_bits_def UINT_MAX_def split: if_splits)
  have kpos: "m_kpos m = word_of_nat (cell_at hf recs (slot_of (hf ?k)) (probe_seq N s j))" using pr by (simp add: probing_def)
  have cell: "map_load_aligned mm (m_kpos m) 4 = Some (be_bytes 4 (unat (hf k')))"
    "map_load_aligned mm (m_kpos m + 4) 4 = Some (be_bytes 4 (hp_p e))"
    using load_cell [OF D(1) slot_of_less c D(2), of 0 4] load_cell [OF D(1) slot_of_less c D(2), of 4 4] e(1,4) b kpos
    by (simp_all add: cell_bytes_def add.commute)
  have vpos: "(ucast (uint32_strunpack_bigendian_aligned_macro P (be_bytes 4 (hp_p e))) :: u64) = word_of_nat (hp_p e)"
    using p32 by (simp add: unpack_be_bytes [OF P] ucast_of_nat_u32)
  have nz: "(word_of_nat (hp_p e) :: u64) \<noteq> 0" using e(6) p32 by (intro of_nat_u64_nonzero) auto
  define m3 where "m3 = m2\<lparr>m_klen := word_of_nat (length k'), m_dlen := word_of_nat (length d),
      m_dpos := word_of_nat (hp_p e) + 8 + ucast (word_of_nat (length k') :: u32)\<rparr>"
  have lens: "length k' < 4294967296" "length d < 4294967296" using e(8,9) by (simp_all add: INT_MAX_def)
  have m3: "probing hf recs ?k N s m3 (Suc j)" "m_map m3 = m_map m" "hit_at e k' d m3"
    using m2 lens by (simp_all add: m3_def probing_def hit_at_def ucast_of_nat_u32)
  have hash: "be_bytes 4 (unat (hf k')) = m_khash m \<longleftrightarrow> hf k' = hf ?k"
    using pr unat_u32_less [of "hf k'"] unat_u32_less [of "hf ?k"] by (simp add: probing_def be_bytes_inject word_unat_eq_iff)
  have run: "findnext_narrow P mm ?stop key tagc m = (if hf k' = hf ?k then
      do { hit \<leftarrow> (if length k' = length ?k then key_matches mm (word_of_nat (hp_p e + 8)) key tagc else Some False);
           if hit then Some (True, m3) else findnext_narrow P mm ?stop key tagc m3 }
      else findnext_narrow P mm ?stop key tagc m2)"
    using load_record(1,2) [OF D(1) e(2,3)] lens m2(2) nz
    by (subst findnext_narrow.simps)
      (simp add: cell vpos hash m1_def [symmetric] m2_def [symmetric] unpack_be_bytes [OF P] unat_of_nat_u32 length_full_key
        m2_def m3_def add.commute Let_def cong: if_cong)
  show ?thesis
  proof (cases "hf k' = hf ?k \<and> length k' = length ?k")
    case True
    then show ?thesis using run key_matches_rec [OF D(1) e(2,3)] e m3 by (intro exI [of _ e] exI [of _ k'] exI [of _ d] exI [of _ m3]) auto
  next
    case False
    define m' where "m' = (if hf k' = hf ?k then m3 else m2)"
    have "k' \<noteq> ?k" "findnext_narrow P mm ?stop key tagc m = findnext_narrow P mm ?stop key tagc m'"
      using run False by (auto simp: m'_def)
    moreover have "probing hf recs ?k N s m' (Suc j)" "m_map m' = m_map m" using m2 m3 by (simp_all add: m'_def)
    ultimately show ?thesis using e by (intro exI [of _ e] exI [of _ k'] exI [of _ d] exI [of _ m']) auto
  qed
qed

lemma wide_step:
  assumes P: "plasma_bigendian P" and S: "searching hf recs mm (full_key key tagc) T N s" and b: "stride_bits recs = 4"
    and pr: "probing hf recs (full_key key tagc) N s m j" and j: "j < run_len T N s"
  shows "\<exists>e k' d m'. T (probe_seq N s j) = Some e \<and> e \<in> set (entries hf recs) \<and> rec_of hf recs e = (k', d) \<and>
    probing hf recs (full_key key tagc) N s m' (Suc j) \<and> m_map m' = m_map m \<and>
    (if k' = full_key key tagc
     then findnext_wide P mm (slots_end hf recs (full_key key tagc)) key tagc m = Some (True, m') \<and> hit_at e k' d m'
     else findnext_wide P mm (slots_end hf recs (full_key key tagc)) key tagc m =
          findnext_wide P mm (slots_end hf recs (full_key key tagc)) key tagc m')"
proof -
  let ?k = "full_key key tagc" and ?stop = "slots_end hf recs (full_key key tagc)"
  note D = searchingD [OF S]
  obtain e k' d where e: "T (probe_seq N s j) = Some e" "e \<in> set (entries hf recs)" "rec_of hf recs e = (k', d)"
    "hp_h e = hf k'" "hp_l e = word_of_nat (length k')" "4096 \<le> hp_p e" "hp_p e < tables_start recs"
    "length k' \<le> INT_MAX - 8" "length d \<le> INT_MAX - 8"
    by (rule probed_entry [OF S j])
  have lens: "length k' < 4294967296" "length d < 4294967296" using e(8,9) by (simp_all add: INT_MAX_def)
  have jN: "j < N" using j run_len_le [of T N s] by simp
  have c: "probe_seq N s j < slot_cells hf recs (slot_of (hf ?k))" using D(3,4) by (simp add: probe_seq_less)
  define m1 where "m1 = (step_kpos 16 m ?stop)\<lparr>m_klen := word_of_nat (length k')\<rparr>"
  define m2 where "m2 = m1\<lparr>m_loop := m_loop m1 + 1\<rparr>"
  have m2: "probing hf recs ?k N s m2 (Suc j)" "m_loop m < m_hslots m" "m_map m2 = m_map m" "m_klen m2 = word_of_nat (length k')"
    using probing_next [OF S pr jN, of 16] b by (simp_all add: m1_def m2_def probing_def)
  have p62: "hp_p e < 2 ^ 62"
    using e(7) table_pos_ge [of recs hf MCDB_SLOTS] db_mappedD(5,6) [OF D(1)] by simp
  have kpos: "m_kpos m = word_of_nat (cell_at hf recs (slot_of (hf ?k)) (probe_seq N s j))" using pr by (simp add: probing_def)
  have cell: "map_load_aligned mm (m_kpos m) 4 = Some (be_bytes 4 (unat (hf k')))"
    "map_load_aligned mm (m_kpos m + 4) 4 = Some (be_bytes 4 (length k'))"
    "map_load_aligned mm (m_kpos m + 8) 8 = Some (be_bytes 8 (hp_p e))"
    using load_cell [OF D(1) slot_of_less c D(2), of 0 4] load_cell [OF D(1) slot_of_less c D(2), of 4 4]
      load_cell [OF D(1) slot_of_less c D(2), of 8 8] e(1,4,5) b kpos lens(1)
    by (simp_all add: cell_bytes_def add.commute unat_of_nat_u32)
  have vpos: "uint64_strunpack_bigendian_aligned_macro P (be_bytes 8 (hp_p e)) = word_of_nat (hp_p e)"
    using p62 by (simp add: unpack_be_bytes [OF P])
  have nz: "(word_of_nat (hp_p e) :: u64) \<noteq> 0" using e(6) p62 by (intro of_nat_u64_nonzero) auto
  define m3 where "m3 = m2\<lparr>m_dpos := word_of_nat (hp_p e) + 8 + ucast (word_of_nat (length k') :: u32), m_dlen := word_of_nat (length d)\<rparr>"
  have m3: "probing hf recs ?k N s m3 (Suc j)" "m_map m3 = m_map m" "hit_at e k' d m3"
    using m2 lens by (simp_all add: m3_def probing_def hit_at_def ucast_of_nat_u32)
  have hash: "be_bytes 4 (unat (hf k')) = m_khash m \<longleftrightarrow> hf k' = hf ?k"
    using pr unat_u32_less [of "hf k'"] unat_u32_less [of "hf ?k"] by (simp add: probing_def be_bytes_inject word_unat_eq_iff)
  have run: "findnext_wide P mm ?stop key tagc m = (if hf k' = hf ?k \<and> length k' = length ?k then
      do { hit \<leftarrow> key_matches mm (word_of_nat (hp_p e + 8)) key tagc;
           if hit then Some (True, m3) else findnext_wide P mm ?stop key tagc m3 }
      else findnext_wide P mm ?stop key tagc m2)"
    using load_record(1,2) [OF D(1) e(2,3)] lens m2(2) nz
    by (subst findnext_wide.simps)
      (simp add: cell vpos hash m1_def unpack_be_bytes [OF P] unat_of_nat_u32 length_full_key
        m2_def m3_def add.commute Let_def cong: if_cong)
  show ?thesis
  proof (cases "hf k' = hf ?k \<and> length k' = length ?k")
    case True
    then show ?thesis using run key_matches_rec [OF D(1) e(2,3)] e m3 by (intro exI [of _ e] exI [of _ k'] exI [of _ d] exI [of _ m3]) auto
  next
    case False
    then have "k' \<noteq> ?k" "findnext_wide P mm ?stop key tagc m = findnext_wide P mm ?stop key tagc m2"
      using run by auto
    then show ?thesis using e m2 by (intro exI [of _ e] exI [of _ k'] exI [of _ d] exI [of _ m2]) auto
  qed
qed

subsection \<open>The end of the run\<close>

lemma findnext_end:
  assumes P: "plasma_bigendian P" and S: "searching hf recs mm k T N s" and pr: "probing hf recs k N s m (run_len T N s)"
  shows "\<exists>m'. m_map m' = m_map m \<and> (if stride_bits recs = 3 then findnext_narrow P mm e key tagc m else findnext_wide P mm e key tagc m)
      = Some (False, m')"
proof -
  let ?j = "run_len T N s"
  note D = searchingD [OF S]
  have N: "N < 4294967296" using D(5) by simp
  show ?thesis
  proof (cases "?j < N")
    case False
    then have "?j = N" using run_len_le [of T N s] by simp
    then have "\<not> m_loop m < m_hslots m" using pr by (simp add: probing_def)
    then show ?thesis by (auto simp: findnext_narrow.simps [of P mm e key tagc m] findnext_wide.simps [of P mm e key tagc m])
  next
    case True
    have empty: "T (probe_seq N s ?j) = None" using run_len_free [OF True] .
    have c: "probe_seq N s ?j < slot_cells hf recs (slot_of (hf k))" using D(3,4) by (simp add: probe_seq_less)
    have kpos: "m_kpos m = word_of_nat (cell_at hf recs (slot_of (hf k)) (probe_seq N s ?j))" using pr by (simp add: probing_def)
    have less: "m_loop m < m_hslots m" using pr True N by (simp add: probing_def word_less_nat_alt unat_of_nat_u32)
    note load = load_cell [OF D(1) slot_of_less c D(2)]
    have zero: "uint32_strunpack_bigendian_aligned_macro P (replicate 4 0) = 0" "uint64_strunpack_bigendian_aligned_macro P (replicate 8 0) = 0"
      using unpack_be_bytes(2,3) [OF P, of 0] by (simp_all add: be_bytes_0)
    have b: "stride_bits recs = 3 \<or> stride_bits recs = 4" by (simp add: stride_bits_def)
    then show ?thesis
    proof
      assume b: "stride_bits recs = 3"
      have "map_load_aligned mm (m_kpos m) 4 = Some (replicate 4 0)" "map_load_aligned mm (m_kpos m + 4) 4 = Some (replicate 4 0)"
        using load [of 0 4] load [of 4 4] b empty kpos by (simp_all add: cell_bytes_def add.commute)
      then show ?thesis using b less zero by (subst findnext_narrow.simps) (simp add: Let_def)
    next
      assume b: "stride_bits recs = 4"
      have "map_load_aligned mm (m_kpos m) 4 = Some (replicate 4 0)" "map_load_aligned mm (m_kpos m + 4) 4 = Some (replicate 4 0)"
        "map_load_aligned mm (m_kpos m + 8) 8 = Some (replicate 8 0)"
        using load [of 0 4] load [of 4 4] load [of 8 8] b empty kpos by (simp_all add: cell_bytes_def add.commute)
      then show ?thesis using b less zero by (subst findnext_wide.simps) (simp add: Let_def)
    qed
  qed
qed

end
