(* ===== verification/Find_Proofs.thy ===== *)
theory Find_Proofs
  imports Find_Steps
begin

text \<open>
  Whole queries on a database map: a lookup that is repeated until it fails yields exactly the
  values of the key, in the order of the abstract contents; iteration yields the records in the
  order of the file; the counts and the validation agree with the records.
\<close>

subsection \<open>Lookups\<close>

text \<open>A client's loop over the values of a key, after \<^verbatim>\<open>mcdb_findtagstart\<close> returned true.\<close>

partial_function (option) find_all ::
  "plasma_endian \<Rightarrow> mcdb \<Rightarrow> bytes \<Rightarrow> u8 \<Rightarrow> rd \<Rightarrow> bytes list option" where
  "find_all P m key tagc w = do {
     (hit, m1) \<leftarrow> mcdb_findtagnext P m key tagc w;
     if hit then do {
       d \<leftarrow> mcdb_data m1 w;
       ds \<leftarrow> find_all P m1 key tagc w;
       Some (d # ds) }
     else Some [] }"

definition get_values :: "plasma_endian \<Rightarrow> mcdb \<Rightarrow> bytes \<Rightarrow> u8 \<Rightarrow> rd \<Rightarrow> bytes list option" where
  "get_values P m key tagc w = do {
     (r, m1, w1) \<leftarrow> mcdb_findtagstart P m key tagc w;
     if r then find_all P m1 key tagc w1 else Some [] }"

text \<open>A reader of a map in the heap that holds a database and is up to date.\<close>

definition reading :: "kv list \<Rightarrow> mcdb \<Rightarrow> rd \<Rightarrow> mcdb_mmap \<Rightarrow> bool" where
  "reading recs m w mm \<longleftrightarrow> get_map (m_map m) w = Some mm \<and> mm_next mm = None \<and> mm_hash_fn mm = Hash_djb \<and>
     db_mapped djb_hash recs mm"

lemma key_hash_djb: "mm_hash_fn mm = Hash_djb \<Longrightarrow> key_hash mm key tagc = djb_hash (full_key key tagc)"
  by (simp add: key_hash_def djb_hash_def full_key_def)

lemma findnext_scan:
  assumes P: "plasma_bigendian P" and S: "searching hf recs mm (full_key key tagc) T N s"
  shows "probing hf recs (full_key key tagc) N s m j \<Longrightarrow> j \<le> run_len T N s \<Longrightarrow>
    (case dropWhile (\<lambda>e. fst (rec_of hf recs e) \<noteq> full_key key tagc) (drop j (probe_scan T N s)) of
       [] \<Rightarrow> \<exists>m'. (if stride_bits recs = 3 then findnext_narrow P mm (slots_end hf recs (full_key key tagc)) key tagc m
           else findnext_wide P mm (slots_end hf recs (full_key key tagc)) key tagc m) = Some (False, m')
     | e # es \<Rightarrow> \<exists>m' j'. (if stride_bits recs = 3 then findnext_narrow P mm (slots_end hf recs (full_key key tagc)) key tagc m
           else findnext_wide P mm (slots_end hf recs (full_key key tagc)) key tagc m) = Some (True, m') \<and>
         m_map m' = m_map m \<and> hit_at e (full_key key tagc) (snd (rec_of hf recs e)) m' \<and> e \<in> set (entries hf recs) \<and>
         probing hf recs (full_key key tagc) N s m' j' \<and> j' \<le> run_len T N s \<and> es = drop j' (probe_scan T N s))"
proof (induction "run_len T N s - j" arbitrary: m j)
  case 0
  then have j: "j = run_len T N s" by simp
  then have "drop j (probe_scan T N s) = []" by (simp add: probe_scan_def)
  then show ?case using findnext_end [OF P S 0(2) [unfolded j], of "slots_end hf recs (full_key key tagc)" key tagc] by auto
next
  case (Suc n)
  let ?k = "full_key key tagc" and ?L = "probe_scan T N s"
  let ?run = "\<lambda>m. if stride_bits recs = 3 then findnext_narrow P mm (slots_end hf recs ?k) key tagc m
           else findnext_wide P mm (slots_end hf recs ?k) key tagc m"
  from Suc(2) have j: "j < run_len T N s" by simp
  have b: "stride_bits recs = 3 \<or> stride_bits recs = 4" by (simp add: stride_bits_def)
  obtain e k' d m' where st: "T (probe_seq N s j) = Some e" "e \<in> set (entries hf recs)" "rec_of hf recs e = (k', d)"
    "probing hf recs ?k N s m' (Suc j)" "m_map m' = m_map m"
    "if k' = ?k then ?run m = Some (True, m') \<and> hit_at e k' d m' else ?run m = ?run m'"
    using b narrow_step [OF P S _ Suc(3) j] wide_step [OF P S _ Suc(3) j] by (elim disjE) (fastforce split: if_splits)+
  have "drop j ?L = ?L ! j # drop (Suc j) ?L"
    by (rule Cons_nth_drop_Suc [symmetric]) (use j in \<open>simp add: probe_scan_def\<close>)
  also have "?L ! j = e" using j st(1) by (simp add: probe_scan_def)
  finally have L: "drop j ?L = e # drop (Suc j) ?L" .
  show ?case
  proof (cases "k' = ?k")
    case True
    then show ?thesis using L st j by (auto intro!: exI [of _ m'] exI [of _ "Suc j"])
  next
    case False
    then have eqs: "dropWhile (\<lambda>e. fst (rec_of hf recs e) \<noteq> ?k) (drop j ?L) = dropWhile (\<lambda>e. fst (rec_of hf recs e) \<noteq> ?k) (drop (Suc j) ?L)"
      "?run m = ?run m'" using L st by simp_all
    have n: "n = run_len T N s - Suc j" using Suc(2) by arith
    show ?thesis unfolding eqs using Suc(1) [OF n st(4)] j unfolding st(5) by simp
  qed
qed

lemma findtagnext_run:
  assumes "get_map (m_map m) w = Some mm" "mm_b mm = stride_bits recs"
    and "probing hf recs k N s m j" "N = slot_cells hf recs (slot_of (hf k))" "N \<le> 2 ^ 28"
  shows "mcdb_findtagnext P m key tagc w = do {
     (hit, m1) \<leftarrow> (if stride_bits recs = 3 then findnext_narrow P mm (slots_end hf recs k) key tagc m
                   else findnext_wide P mm (slots_end hf recs k) key tagc m);
     if hit then Some (True, m1) else Some (False, m1\<lparr>m_loop := 0\<rparr>) }"
proof -
  have "push_bit (stride_bits recs) (ucast (word_of_nat N :: u32) :: u64) = word_of_nat (N * 2 ^ stride_bits recs)"
    using assms(5) by (simp add: push_bit_eq_mult ucast_of_nat_u32)
  then have "m_hpos m + push_bit (mm_b mm) (ucast (m_hslots m)) = slots_end hf recs k"
    using assms(2,3,4) by (simp add: probing_def slots_end_def cell_at_def)
  then show ?thesis using assms(1,2) by (simp add: mcdb_findtagnext_def)
qed

lemma mcdb_data_hit:
  assumes "get_map (m_map m) w = Some mm" "db_mapped hf recs mm" "e \<in> set (entries hf recs)"
    and "fst (rec_of hf recs e) = k" "hit_at e k (snd (rec_of hf recs e)) m"
  shows "mcdb_data m w = Some (snd (rec_of hf recs e))"
proof -
  have r: "rec_of hf recs e = (k, snd (rec_of hf recs e))" using assms(4) by (simp add: prod_eq_iff)
  have "rec_of hf recs e \<in> set recs"
    using assms(3) map_rec_of [of hf recs] by (metis list.set_map image_eqI)
  then have "length (snd (rec_of hf recs e)) < 4294967296"
    using db_mappedD(3) [OF assms(2)] by (fastforce simp: recs_ok_def INT_MAX_def)
  then show ?thesis using load_record(4) [OF assms(2,3) r] assms(1,5)
    by (simp add: mcdb_data_def hit_at_def unat_of_nat_u32)
qed

lemma filter_dropWhile: "filter Q xs = filter Q (dropWhile (\<lambda>x. \<not> Q x) xs)"
  by (induction xs) auto

lemma find_all_scan:
  assumes P: "plasma_bigendian P" and S: "searching hf recs mm (full_key key tagc) T N s"
  shows "probing hf recs (full_key key tagc) N s m j \<Longrightarrow> j \<le> run_len T N s \<Longrightarrow> get_map (m_map m) w = Some mm \<Longrightarrow>
    find_all P m key tagc w = Some (map (\<lambda>e. snd (rec_of hf recs e))
      (filter (\<lambda>e. fst (rec_of hf recs e) = full_key key tagc) (drop j (probe_scan T N s))))"
proof (induction "length (drop j (probe_scan T N s))" arbitrary: m j rule: less_induct)
  case less
  let ?k = "full_key key tagc"
  let ?D = "dropWhile (\<lambda>e. fst (rec_of hf recs e) \<noteq> ?k) (drop j (probe_scan T N s))"
  note D = searchingD [OF S]
  note run = findtagnext_run [OF less(4) db_mappedD(4) [OF D(1)] less(2) D(3,5), of P key tagc]
  note scan = findnext_scan [OF P S less(2,3)]
  have filt: "filter (\<lambda>e. fst (rec_of hf recs e) = ?k) (drop j (probe_scan T N s)) = filter (\<lambda>e. fst (rec_of hf recs e) = ?k) ?D"
    by (rule filter_dropWhile)
  show ?case
  proof (cases ?D)
    case Nil
    have "\<exists>m'. mcdb_findtagnext P m key tagc w = Some (False, m')"
      using scan unfolding run Nil list.case by auto
    then obtain m' where "mcdb_findtagnext P m key tagc w = Some (False, m')" by blast
    then show ?thesis using Nil filt by (subst find_all.simps) simp
  next
    case (Cons e es)
    obtain m' j' where n: "mcdb_findtagnext P m key tagc w = Some (True, m')" "m_map m' = m_map m"
      "hit_at e ?k (snd (rec_of hf recs e)) m'" "e \<in> set (entries hf recs)"
      "probing hf recs ?k N s m' j'" "j' \<le> run_len T N s" "es = drop j' (probe_scan T N s)"
      using scan unfolding run Cons list.case by auto
    have hit: "fst (rec_of hf recs e) = ?k" using Cons by (metis (mono_tags, lifting) dropWhile_eq_Cons_conv)
    have "length es < length (drop j (probe_scan T N s))"
      using Cons length_dropWhile_le [of "\<lambda>e. fst (rec_of hf recs e) \<noteq> ?k" "drop j (probe_scan T N s)"] by simp
    then have "find_all P m' key tagc w = Some (map (\<lambda>e. snd (rec_of hf recs e)) (filter (\<lambda>e. fst (rec_of hf recs e) = ?k) es))"
      using less(1) [of j' m'] n less(4) by simp
    moreover have "mcdb_data m' w = Some (snd (rec_of hf recs e))"
      using mcdb_data_hit [OF _ D(1) n(4) hit n(3)] n(2) less(4) by simp
    ultimately show ?thesis using n(1) hit filt Cons by (subst find_all.simps) simp
  qed
qed

lemma slot_cells_0:
  assumes "slot_cells hf recs (slot_of (hf k)) = 0" "db_file f n hf recs"
  shows "db_values hf recs k = []"
  using assms slot_hps_recs [OF assms(2), of "slot_of (hf k)"]
  by (simp add: slot_cells_def db_values_def newest_first_short)

lemma findtagstart_props:
  assumes P: "plasma_bigendian P" and R: "reading recs m w mm"
  shows "\<exists>m1. m_map m1 = m_map m \<and>
    (if slot_cells djb_hash recs (slot_of (djb_hash (full_key key tagc))) = 0
     then mcdb_findtagstart P m key tagc w = Some (False, m1, w)
     else mcdb_findtagstart P m key tagc w = Some (True, m1, w) \<and>
       (\<exists>T N s. searching djb_hash recs mm (full_key key tagc) T N s \<and> probing djb_hash recs (full_key key tagc) N s m1 0))"
proof -
  let ?k = "full_key key tagc" let ?h = "djb_hash ?k" let ?i = "slot_of ?h"
  have db: "db_mapped djb_hash recs mm" and mm: "get_map (m_map m) w = Some mm" "mm_next mm = None" and kh: "key_hash mm key tagc = ?h"
    using R by (simp_all add: reading_def key_hash_djb)
  note D = db_mappedD [OF db]
  note H = load_header [OF db slot_of_less, of ?h]
  define N where "N = slot_cells djb_hash recs ?i"
  have N28: "N \<le> 2 ^ 28" using slot_cells_bound [OF D(3) slot_of_less] by (simp add: N_def)
  have pos: "table_pos djb_hash recs ?i < 2 ^ 62"
    using table_pos_mono [of ?i MCDB_SLOTS djb_hash recs] D(5,6) less_imp_le [OF slot_of_less [of ?h]] by simp
  have un: "uint64_strunpack_bigendian_aligned_macro P (be_bytes 8 (table_pos djb_hash recs ?i)) = word_of_nat (table_pos djb_hash recs ?i)"
    "uint32_strunpack_bigendian_aligned_macro P (be_bytes 4 N) = word_of_nat N"
    using pos N28 by (simp_all add: unpack_be_bytes [OF P])
  have nz: "(word_of_nat N :: u32) = 0 \<longleftrightarrow> N = 0" using N28 by (simp add: word_unat_eq_iff unat_of_nat_u32)
  show ?thesis
  proof (cases "N = 0")
    case True
    then show ?thesis using mm kh H un nz
      by (simp add: mcdb_findtagstart_def mcdb_thread_refresh_self_def Let_def N_def [symmetric] add.commute) 
  next
    case False
    obtain T where T: "slot_table djb_hash recs ?i = Some T" using slot_table_exists by blast
    define s where "s = unat (drop_bit MCDB_SLOT_BITS ?h) mod N"
    have S: "searching djb_hash recs mm ?k T N s" using db T False by (simp add: searching_def N_def s_def)
    have "unat (drop_bit MCDB_SLOT_BITS ?h mod word_of_nat N) = s" using N28 by (simp add: unat_mod s_def unat_of_nat_u32)
    moreover have "s < N" using False by (simp add: s_def)
    then have "s < 4294967296" using N28 by simp
    ultimately have idx: "drop_bit MCDB_SLOT_BITS ?h mod word_of_nat N = word_of_nat s" by (simp add: word_unat_eq_iff unat_of_nat_u32)
    have shift: "push_bit (stride_bits recs) (ucast (word_of_nat s :: u32) :: u64) = word_of_nat (s * 2 ^ stride_bits recs)"
      using \<open>s < 4294967296\<close> by (simp add: push_bit_eq_mult ucast_of_nat_u32)
    define m1 where "m1 = m\<lparr>m_map := m_map m, m_hpos := word_of_nat (table_pos djb_hash recs ?i), m_hslots := word_of_nat N, m_loop := 0,
       m_kpos := word_of_nat (cell_at djb_hash recs ?i s), m_khash := be_bytes 4 (unat ?h)\<rparr>"
    have "mcdb_findtagstart P m key tagc w = Some (True, m1, w)"
      using mm kh H un nz False idx shift D(4)
      by (simp add: mcdb_findtagstart_def mcdb_thread_refresh_self_def Let_def N_def [symmetric] add.commute m1_def
         pack_be [OF P] cell_at_def)
    moreover have "probing djb_hash recs ?k N s m1 0"
      using False by (simp add: probing_def m1_def s_def)
    ultimately show ?thesis using S False unfolding N_def by (intro exI [of _ m1]) (auto simp: m1_def)
  qed
qed

lemma get_values_eq:
  assumes P: "plasma_bigendian P" and R: "reading recs m w mm"
  shows "get_values P m key tagc w = Some (db_values djb_hash recs (full_key key tagc))"
proof -
  let ?k = "full_key key tagc"
  have db: "db_file (mm_bytes mm) (mm_size mm) djb_hash recs" using R db_mappedD(2) by (auto simp: reading_def)
  obtain m1 where m1: "m_map m1 = m_map m"
    "if slot_cells djb_hash recs (slot_of (djb_hash ?k)) = 0
     then mcdb_findtagstart P m key tagc w = Some (False, m1, w)
     else mcdb_findtagstart P m key tagc w = Some (True, m1, w) \<and>
       (\<exists>T N s. searching djb_hash recs mm ?k T N s \<and> probing djb_hash recs ?k N s m1 0)"
    using findtagstart_props [OF P R] by blast
  show ?thesis
  proof (cases "slot_cells djb_hash recs (slot_of (djb_hash ?k)) = 0")
    case True
    then show ?thesis using m1 slot_cells_0 [OF True db] by (simp add: get_values_def)
  next
    case False
    then obtain T N s where S: "searching djb_hash recs mm ?k T N s" "probing djb_hash recs ?k N s m1 0" 
      and st: "mcdb_findtagstart P m key tagc w = Some (True, m1, w)" using m1(2) by auto
    have "get_map (m_map m1) w = Some mm" using R m1(1) by (simp add: reading_def)
    then have "find_all P m1 key tagc w = Some (db_values djb_hash recs ?k)"
      using find_all_scan [OF P S(1,2)] scan_matches [OF db, of ?k T N s] S(1) by (simp add: searching_def)
    then show ?thesis using st by (simp add: get_values_def)
  qed
qed

text \<open>A search never changes the map it works on.\<close>

lemma findnext_narrow_map: "findnext_narrow P mm e key tagc m = Some (r, m1) \<Longrightarrow> m_map m1 = m_map m"
proof (induction "unat (m_hslots m) - unat (m_loop m)" arbitrary: m rule: less_induct)
  case less
  have again: "m_map m1 = m_map m" if "findnext_narrow P mm e key tagc m' = Some (r, m1)" "m_loop m' = m_loop m + 1"
    "m_hslots m' = m_hslots m" "m_map m' = m_map m" "m_loop m < m_hslots m" for m'
    using less(1) [of m'] that loop_decreases [OF that(5)] by simp
  show ?case using less(2)
    by (subst (asm) findnext_narrow.simps) (auto simp: Let_def bind_eq_Some_conv split: if_splits dest!: again)
qed

lemma findnext_wide_map: "findnext_wide P mm e key tagc m = Some (r, m1) \<Longrightarrow> m_map m1 = m_map m"
proof (induction "unat (m_hslots m) - unat (m_loop m)" arbitrary: m rule: less_induct)
  case less
  have again: "m_map m1 = m_map m" if "findnext_wide P mm e key tagc m' = Some (r, m1)" "m_loop m' = m_loop m + 1"
    "m_hslots m' = m_hslots m" "m_map m' = m_map m" "m_loop m < m_hslots m" for m'
    using less(1) [of m'] that loop_decreases [OF that(5)] by simp
  show ?case using less(2)
    by (subst (asm) findnext_wide.simps) (auto simp: Let_def bind_eq_Some_conv split: if_splits dest!: again)
qed

lemma findtagnext_map: "mcdb_findtagnext P m key tagc w = Some (r, m1) \<Longrightarrow> m_map m1 = m_map m"
  by (auto simp: mcdb_findtagnext_def Let_def bind_eq_Some_conv split: if_splits dest: findnext_narrow_map findnext_wide_map)

end
