(* ===== verification/Scan_Proofs.thy ===== *)
theory Scan_Proofs
  imports Find_Proofs
begin

text \<open>Iteration, counting and validation on a database map, and the map that opening a database
  file gives.\<close>

subsection \<open>Iteration\<close>

partial_function (option) iter_all :: "plasma_endian \<Rightarrow> mcdb_iter \<Rightarrow> rd \<Rightarrow> kv list option" where
  "iter_all P it w = do {
     (more, it1) \<leftarrow> mcdb_iter_step P it w;
     if more then do {
       k \<leftarrow> mcdb_iter_key it1 w;
       d \<leftarrow> mcdb_iter_data it1 w;
       rest \<leftarrow> iter_all P it1 w;
       Some ((k, d) # rest) }
     else Some [] }"

lemma iter_load_nat:
  "mm_ptr mm = Some f \<Longrightarrow> a + n \<le> mm_size mm \<Longrightarrow> iter_load mm (int a) n = Some (mem_slice f a n)"
  by (simp add: iter_load_def)

lemma uint_of_nat_u32: "n < 4294967296 \<Longrightarrow> uint (word_of_nat n :: u32) = int n"
  by (simp add: uint_nat unat_of_nat_u32)

lemma iter_step_rec:
  assumes P: "plasma_bigendian P" and mm: "get_map (it_map it) w = Some mm" "mm_ptr mm = Some f"
    and rec: "mem_slice f pos (rec_len (k, d)) = rec_bytes (k, d)" and lim: "pos + rec_len (k, d) \<le> mm_size mm"
    and len: "length k \<le> INT_MAX - 8" "length d \<le> INT_MAX - 8"
    and it: "it_ptr it = int pos" "int pos < it_eod it"
  shows "\<exists>it1. mcdb_iter_step P it w = Some (True, it1) \<and> it_ptr it1 = int (pos + rec_len (k, d)) \<and> it_eod it1 = it_eod it \<and>
    it_map it1 = it_map it \<and> mcdb_iter_key it1 w = Some k \<and> mcdb_iter_data it1 w = Some d"
proof -
  have part: "iter_load mm (int (pos + o')) n' = Some (take n' (drop o' (rec_bytes (k, d))))" if "o' + n' \<le> rec_len (k, d)" for o' n'
    using iter_load_nat [OF mm(2), of "pos + o'" n'] slice_part [OF rec that] lim that by simp
  have kl: "iter_load mm (it_ptr it) 4 = Some (be_bytes 4 (length k))"
    using part [of 0 4] by (simp add: it rec_len_def rec_bytes_def)
  have dl: "iter_load mm (it_ptr it + 4) 4 = Some (be_bytes 4 (length d))"
    using part [of 4 4] by (simp add: it rec_len_def rec_bytes_def)
  have key: "iter_load mm (int pos + 8) (length k) = Some k"
    using part [of 8 "length k"] by (simp add: rec_len_def rec_bytes_def)
  have data: "iter_load mm (int pos + 8 + int (length k)) (length d) = Some d"
    using part [of "8 + length k" "length d"] by (simp add: rec_len_def rec_bytes_def add.assoc)
  have lens: "length k < 4294967295" "length d < 4294967296" using len by (simp_all add: INT_MAX_def)
  have sum: "uint (8 + word_of_nat (length k) + word_of_nat (length d) :: u32) = int (8 + length k + length d)"
    using uint_of_nat_u32 [of "8 + length k + length d"] len by (simp add: INT_MAX_def)
  define it1 where "it1 = it\<lparr>it_klen := word_of_nat (length k), it_dlen := word_of_nat (length d),
     it_ptr := int pos + int (8 + length k + length d)\<rparr>"
  have "mcdb_iter_step P it w = Some (True, it1)"
    using mm it kl dl lens sum of_nat_not_all_ones [OF lens(1)]
    by (simp add: mcdb_iter_step_def unpack_be_bytes [OF P] Let_def it1_def)
  moreover have "mcdb_iter_key it1 w = Some k" "mcdb_iter_data it1 w = Some d"
    using mm key data lens by (simp_all add: mcdb_iter_key_def mcdb_iter_data_def it1_def unat_of_nat_u32 uint_of_nat_u32 algebra_simps)
  ultimately show ?thesis by (auto simp: it1_def rec_len_def)
qed

lemma be_val_ones: "be_val (replicate 4 (-1 :: u8)) = 4294967295"
proof -
  have u: "unat (-1 :: u8) = 255" unfolding unsigned_minus_1_eq_mask by (simp add: mask_eq_exp_minus_1)
  have r: "replicate 4 x = [x, x, x, x]" for x :: u8 by (simp add: numeral_eq_Suc)
  show ?thesis unfolding r be_val_def foldl.simps u by simp
qed

lemma iter_step_end:
  assumes P: "plasma_bigendian P" and mm: "get_map (it_map it) w = Some mm" and db: "db_mapped hf recs mm"
    and it: "it_ptr it = int (data_end recs)" "it_eod it = int (tables_start recs) - 7"
  shows "\<exists>it1. mcdb_iter_step P it w = Some (False, it1)"
proof (cases "it_ptr it < it_eod it")
  case False
  then show ?thesis by (simp add: mcdb_iter_step_def)
next
  case True
  note D = db_mappedD [OF db]
  have pad: "8 \<le> pad_len (data_end recs)" using True it by (simp add: tables_start_def)
  have fill: "mem_slice (mm_bytes mm) (data_end recs) (pad_len (data_end recs)) = replicate (pad_len (data_end recs)) (-1)"
    using D(2) by (simp add: db_file_def)
  have "tables_start recs \<le> mm_size mm" using D(5) table_pos_ge [of recs hf MCDB_SLOTS] by simp
  then have lim: "data_end recs + pad_len (data_end recs) \<le> mm_size mm" by (simp add: tables_start_def)
  have part: "iter_load mm (int (data_end recs + o')) 4 = Some (replicate 4 (-1))" if "o' + 4 \<le> 8" for o'
  proof -
    have o': "o' + 4 \<le> pad_len (data_end recs)" using that pad by simp
    then have "take 4 (drop o' (replicate (pad_len (data_end recs)) (-1 :: u8))) = replicate 4 (-1)" by (simp add: min_absorb1)
    then show ?thesis using iter_load_nat [OF D(1), of "data_end recs + o'" 4] slice_part [OF fill o'] lim o' by simp
  qed
  have l: "iter_load mm (it_ptr it) 4 = Some (replicate 4 (-1))" "iter_load mm (it_ptr it + 4) 4 = Some (replicate 4 (-1))"
    using part [of 0] part [of 4] it by simp_all
  have "uint32_strunpack_bigendian_macro P (replicate 4 (-1)) = -1"
    using unpack_be(1) [OF P, of "replicate 4 (-1)"] be_val_ones by simp
  then show ?thesis using True mm l by (simp add: mcdb_iter_step_def Let_def)
qed

lemma iter_all_suffix:
  assumes P: "plasma_bigendian P" and db: "db_mapped hf recs mm"
  shows "get_map (it_map it) w = Some mm \<Longrightarrow> it_ptr it = int pos \<Longrightarrow> it_eod it = int (tables_start recs) - 7 \<Longrightarrow>
    mem_slice (mm_bytes mm) pos (length (data_bytes rs)) = data_bytes rs \<Longrightarrow> pos + length (data_bytes rs) = data_end recs \<Longrightarrow>
    set rs \<subseteq> set recs \<Longrightarrow> iter_all P it w = Some rs"
proof (induction rs arbitrary: it pos)
  case Nil
  then have "it_ptr it = int (data_end recs)" by simp
  then obtain it1 where "mcdb_iter_step P it w = Some (False, it1)" using iter_step_end [OF P Nil(1) db _ Nil(3)] by blast
  then show ?case by (subst iter_all.simps) simp
next
  case (Cons r rs)
  obtain k d where r: "r = (k, d)" by fastforce
  note D = db_mappedD [OF db]
  have split: "mem_slice (mm_bytes mm) pos (rec_len (k, d)) = rec_bytes (k, d)"
    "mem_slice (mm_bytes mm) (pos + rec_len (k, d)) (length (data_bytes rs)) = data_bytes rs"
    using Cons.prems(4) by (simp_all add: data_bytes_Cons mem_slice_add r)
  have ends: "pos + rec_len (k, d) + length (data_bytes rs) = data_end recs" using Cons.prems(5) by (simp add: data_bytes_Cons r)
  then have lim: "pos + rec_len (k, d) \<le> tables_start recs" using tables_start_ge(2) [of recs] by simp
  then have lim2: "pos + rec_len (k, d) \<le> mm_size mm" using D(5) table_pos_ge [of recs hf MCDB_SLOTS] by simp
  have len: "length k \<le> INT_MAX - 8" "length d \<le> INT_MAX - 8"
    using D(3) Cons.prems(6) r by (auto simp: recs_ok_def)
  have "int pos < it_eod it" using lim Cons.prems(3) by (simp add: rec_len_def)
  from iter_step_rec [OF P Cons.prems(1) D(1) split(1) lim2 len Cons.prems(2) this] obtain it1 where
    "mcdb_iter_step P it w = Some (True, it1)" "it_ptr it1 = int (pos + rec_len (k, d))" "it_eod it1 = it_eod it"
    "it_map it1 = it_map it" "mcdb_iter_key it1 w = Some k" "mcdb_iter_data it1 w = Some d" by blast
  moreover from this have "iter_all P it1 w = Some rs"
    using Cons.IH [of it1 "pos + rec_len (k, d)"] Cons.prems split(2) ends by simp
  ultimately show ?case using r by (subst iter_all.simps) simp
qed

text \<open>All records, from the start.\<close>

definition get_all :: "plasma_endian \<Rightarrow> mcdb \<Rightarrow> rd \<Rightarrow> kv list option" where
  "get_all P m w = do { it \<leftarrow> mcdb_iter_init P m w; iter_all P it w }"

lemma get_all_eq:
  assumes P: "plasma_bigendian P" and mm: "get_map (m_map m) w = Some mm" and db: "db_mapped hf recs mm"
  shows "get_all P m w = Some recs"
proof -
  note D = db_mappedD [OF db]
  have "map_load_aligned mm 0 8 = Some (be_bytes 8 (tables_start recs))" using load_header(1) [OF db slots_0] by simp
  moreover have ts: "tables_start recs < 2 ^ 62" using D(5,6) table_pos_ge [of recs hf MCDB_SLOTS] by simp
  then have "uint (uint64_strunpack_bigendian_aligned_macro P (be_bytes 8 (tables_start recs))) = int (tables_start recs)"
    by (simp add: unpack_be_bytes [OF P] uint_nat unat_of_nat_u64)
  ultimately have "mcdb_iter_init P m w = Some \<lparr>it_ptr = int MCDB_HEADER_SZ, it_eod = int (tables_start recs) - 7,
      it_klen = 0, it_dlen = 0, it_map = m_map m\<rparr>" using mm by (simp add: mcdb_iter_init_def)
  moreover have "iter_all P \<lparr>it_ptr = int MCDB_HEADER_SZ, it_eod = int (tables_start recs) - 7,
      it_klen = 0, it_dlen = 0, it_map = m_map m\<rparr> w = Some recs"
    by (rule iter_all_suffix [OF P db, of _ _ MCDB_HEADER_SZ])
      (use mm D(2) in \<open>simp_all add: db_file_def data_end_def\<close>)
  ultimately show ?thesis by (simp add: get_all_def)
qed

subsection \<open>Counting and validating\<close>

lemma sum_slot_hps:
  "(\<Sum>i<n. length (slot_hps es i)) = length (filter (\<lambda>e. slot_of (hp_h e) < n) es)"
proof (induction n)
  case (Suc n)
  have "length (filter (\<lambda>e. slot_of (hp_h e) < Suc n) es) = length (filter (\<lambda>e. slot_of (hp_h e) < n) es) + length (slot_hps es n)"
    unfolding slot_hps_def by (induction es) auto
  with Suc show ?case by simp
qed simp

lemma sum_slot_cells: "(\<Sum>i<MCDB_SLOTS. slot_cells hf recs i) = 2 * length recs"
proof -
  have "(\<Sum>i<MCDB_SLOTS. length (slot_hps (entries hf recs) i)) = length recs"
    unfolding sum_slot_hps by (simp add: filter_True)
  then show ?thesis by (simp add: slot_cells_def sum_distrib_left [symmetric])
qed

lemma load_hslots:
  assumes P: "plasma_bigendian P" and db: "db_mapped hf recs mm" and i: "i < MCDB_SLOTS"
  shows "map_load_aligned mm (word_of_nat (i * 16 + 8)) 4 = Some (be_bytes 4 (slot_cells hf recs i))"
    and "uint32_strunpack_bigendian_aligned_macro P (be_bytes 4 (slot_cells hf recs i)) = word_of_nat (slot_cells hf recs i)"
  using load_header(2) [OF db i] slot_cells_bound [OF db_mappedD(3) [OF db] i] by (simp_all add: unpack_be_bytes [OF P])

lemma sum_hslots_eq:
  assumes P: "plasma_bigendian P" and db: "db_mapped hf recs mm"
  shows "i + n = MCDB_SLOTS \<Longrightarrow> sum_hslots P mm n (i * 16 + 8) u = Some (u + word_of_nat (\<Sum>j=i..<i+n. slot_cells hf recs j))"
proof (induction n arbitrary: i u)
  case (Suc n)
  have a: "i * 16 + 8 + 16 = Suc i * 16 + 8" by simp
  have "sum_hslots P mm (Suc n) (i * 16 + 8) u = sum_hslots P mm n (Suc i * 16 + 8) (u + word_of_nat (slot_cells hf recs i))"
    using load_hslots [OF P db, of i] Suc.prems by (simp only: sum_hslots.simps a) simp
  also have "\<dots> = Some (u + word_of_nat (slot_cells hf recs i) + word_of_nat (\<Sum>j=Suc i..<Suc i+n. slot_cells hf recs j))"
    by (rule Suc.IH) (use Suc.prems in simp)
  also have "(\<Sum>j=i..<i + Suc n. slot_cells hf recs j) = slot_cells hf recs i + (\<Sum>j=Suc i..<Suc i+n. slot_cells hf recs j)"
    by (simp add: sum.atLeast_Suc_lessThan)
  then have "u + word_of_nat (slot_cells hf recs i) + word_of_nat (\<Sum>j=Suc i..<Suc i+n. slot_cells hf recs j)
      = u + word_of_nat (\<Sum>j=i..<i + Suc n. slot_cells hf recs j)" by (simp only: of_nat_add add.assoc)
  finally show ?case .
qed simp

lemma sum_slot_cells_from_0: "(\<Sum>j=0..<0 + MCDB_SLOTS. slot_cells hf recs j) = 2 * length recs"
  using sum_slot_cells [of hf recs] by (simp add: lessThan_atLeast0)

lemma half_count:
  assumes "recs_ok hf recs"
  shows "drop_bit 1 (word_of_nat (2 * length recs) :: u32) = word_of_nat (length recs)"
proof -
  have s: "2 * length recs < 4294967296" using assms by (simp add: recs_ok_def INT_MAX_def)
  then have "unat (drop_bit 1 (word_of_nat (2 * length recs) :: u32)) = length recs"
    unfolding unsigned_drop_bit_eq unat_of_nat_u32 [OF s] by (simp add: take_bit_eq_mod drop_bit_eq_div)
  moreover have "unat (word_of_nat (length recs) :: u32) = length recs"
    using s by (intro unat_of_nat_u32) simp
  ultimately show ?thesis by (simp only: word_unat_eq_iff)
qed

lemma numrecs_eq:
  assumes P: "plasma_bigendian P" and mm: "get_map (m_map m) w = Some mm" "mm_n mm = -1" and db: "db_mapped hf recs mm"
  shows "\<exists>w'. mcdb_numrecs P m w = Some (word_of_nat (length recs), w') \<and>
    get_map (m_map m) w' = Some (mm\<lparr>mm_n := word_of_nat (length recs)\<rparr>)"
proof -
  have "sum_hslots P mm MCDB_SLOTS 8 0 = Some (word_of_nat (2 * length recs))"
    using sum_hslots_eq [OF P db, of 0 MCDB_SLOTS 0, unfolded sum_slot_cells_from_0] by (simp del: of_nat_mult)
  then show ?thesis using mm half_count [OF db_mappedD(3) [OF db]]
    by (simp add: mcdb_numrecs_def get_map_def put_map_def del: of_nat_mult)
qed

lemma validate_loop_eq:
  assumes P: "plasma_bigendian P" and db: "db_mapped hf recs mm"
  shows "i + n = MCDB_SLOTS \<Longrightarrow>
    validate_loop P mm n (i * 16) (word_of_nat (table_pos hf recs i)) u =
      Some (Some (word_of_nat (table_pos hf recs MCDB_SLOTS), u + word_of_nat (\<Sum>j=i..<i+n. slot_cells hf recs j)))"
proof (induction n arbitrary: i u)
  case (Suc n)
  note D = db_mappedD [OF db]
  have i: "i < MCDB_SLOTS" using Suc.prems by simp
  have pos: "table_pos hf recs i < 2 ^ 62" using table_pos_mono [of i MCDB_SLOTS hf recs] D(5,6) i by simp
  have a: "i * 16 + 16 = Suc i * 16" by simp
  have next_pos: "word_of_nat (table_pos hf recs i) + push_bit (mm_b mm) (ucast (word_of_nat (slot_cells hf recs i) :: u32)) =
      (word_of_nat (table_pos hf recs (Suc i)) :: u64)"
    using slot_cells_bound [OF D(3) i] D(4) by (simp add: ucast_of_nat_u32 push_bit_eq_mult table_pos_Suc)
  have "validate_loop P mm (Suc n) (i * 16) (word_of_nat (table_pos hf recs i)) u =
      validate_loop P mm n (Suc i * 16) (word_of_nat (table_pos hf recs (Suc i))) (u + word_of_nat (slot_cells hf recs i))"
    using load_hslots [OF P db i] load_header(1) [OF db i] pos
    by (simp only: validate_loop.simps a) (simp add: unpack_be_bytes [OF P] next_pos)
  also have "\<dots> = Some (Some (word_of_nat (table_pos hf recs MCDB_SLOTS),
      u + word_of_nat (slot_cells hf recs i) + word_of_nat (\<Sum>j=Suc i..<Suc i+n. slot_cells hf recs j)))"
    by (rule Suc.IH) (use Suc.prems in simp)
  also have "(\<Sum>j=i..<i + Suc n. slot_cells hf recs j) = slot_cells hf recs i + (\<Sum>j=Suc i..<Suc i+n. slot_cells hf recs j)"
    by (simp add: sum.atLeast_Suc_lessThan)
  then have "u + word_of_nat (slot_cells hf recs i) + word_of_nat (\<Sum>j=Suc i..<Suc i+n. slot_cells hf recs j)
      = u + word_of_nat (\<Sum>j=i..<i + Suc n. slot_cells hf recs j)" by (simp only: of_nat_add add.assoc)
  finally show ?case .
qed simp

lemma validate_slots_eq:
  assumes P: "plasma_bigendian P" and mm: "get_map (m_map m) w = Some mm" and db: "db_mapped hf recs mm"
  shows "\<exists>w'. mcdb_validate_slots P m w = Some (True, w') \<and>
    get_map (m_map m) w' = Some (mm\<lparr>mm_n := word_of_nat (length recs)\<rparr>)"
proof -
  note D = db_mappedD [OF db]
  have big: "MCDB_HEADER_SZ \<le> mm_size mm" using D(5) table_pos_ge [of recs hf MCDB_SLOTS] tables_start_ge(1) [of recs] by simp
  have ts: "tables_start recs < 2 ^ 62" using D(5,6) table_pos_ge [of recs hf MCDB_SLOTS] by simp
  have h: "map_load_aligned mm 0 8 = Some (be_bytes 8 (tables_start recs))"
    "uint64_strunpack_bigendian_aligned_macro P (be_bytes 8 (tables_start recs)) = word_of_nat (tables_start recs)"
    using load_header(1) [OF db slots_0] ts by (simp_all add: unpack_be_bytes [OF P])
  have "validate_loop P mm MCDB_SLOTS 0 (word_of_nat (tables_start recs)) 0 =
      Some (Some (word_of_nat (mm_size mm), word_of_nat (2 * length recs)))"
    using validate_loop_eq [OF P db, of 0 MCDB_SLOTS 0, unfolded sum_slot_cells_from_0] D(5) by (simp del: of_nat_mult)
  then show ?thesis using mm big h half_count [OF D(3)] D(6)
    by (simp add: mcdb_validate_slots_def get_map_def put_map_def unat_of_nat_u64 del: of_nat_mult)
qed

end
