(* ===== verification/Open_Proofs.thy ===== *)
theory Open_Proofs
  imports Scan_Proofs
begin

text \<open>
  Opening a database: the stride that the reader takes from the file is the writer's, a map
  whose initialisation succeeds is ready for queries, and creating a map takes and gives back
  memory, names and descriptors as it should on every path.
\<close>

subsection \<open>The stride\<close>

lemma reader_stride:
  assumes "db_file f n hf recs" and ok: "recs_ok hf recs"
  shows "(if n < UINT_MAX \<or> mem_slice f 0 4 = [0, 0, 0, 0] then 3 else 4) = stride_bits recs"
proof -
  have n: "tables_start recs \<le> n" using assms table_pos_ge [of recs hf MCDB_SLOTS] by (simp add: db_file_def)
  have "header_at f hf recs 0" using assms(1) slots_0 unfolding db_file_def by blast
  then have "mem_slice f 0 8 = be_bytes (4 + 4) (tables_start recs)" by (simp add: header_at_def)
  then have "mem_slice f 0 4 = take 4 (be_bytes (4 + 4) (tables_start recs))"
    using slice_part [of f 0 8 "be_bytes (4 + 4) (tables_start recs)" 0 4] by simp
  then have "mem_slice f 0 4 = be_bytes 4 (tables_start recs div 256 ^ 4)" unfolding be_bytes_add by simp
  moreover have "be_bytes 4 0 = [0, 0, 0, 0]" by (simp add: be_bytes_0 numeral_eq_Suc)
  ultimately have z: "mem_slice f 0 4 = [0, 0, 0, 0] \<longleftrightarrow> be_bytes 4 (tables_start recs div 256 ^ 4) = be_bytes 4 0" by metis
  have u: "UINT_MAX = 4294967295" by (simp add: UINT_MAX_def)
  have "tables_start recs \<noteq> 4294967295" using tables_start_aligned [of recs] by auto
  then have "tables_start recs < 4294967295 \<longleftrightarrow> tables_start recs div 4294967296 = 0" by (simp add: div_eq_0_iff) linarith
  then have small: "tables_start recs < UINT_MAX \<longleftrightarrow> tables_start recs div 256 ^ 4 = 0" by (simp add: u)
  show ?thesis
  proof (cases "tables_start recs < UINT_MAX")
    case True
    then show ?thesis using z small by (simp add: stride_bits_def)
  next
    case False
    have "tables_start recs div 256 ^ 4 < 256 ^ 4"
      using table_pos_bound [OF ok, of 0] by (simp add: less_mult_imp_div_less)
    then have "mem_slice f 0 4 \<noteq> [0, 0, 0, 0]" using z small False be_bytes_inject [of _ 4 0] by simp
    then show ?thesis using n False by (simp add: stride_bits_def)
  qed
qed


subsection \<open>A map that opened is ready\<close>

definition map_of_file :: "disk_file \<Rightarrow> mcdb_mmap \<Rightarrow> bool" where
  "map_of_file x mm \<longleftrightarrow> mm_ptr mm = Some (f_bytes x) \<and> mm_size mm = f_size x \<and> mm_mtime mm = f_mtime x \<and>
     mm_b mm = (if f_size x < UINT_MAX \<or> mem_slice (f_bytes x) 0 4 = [0, 0, 0, 0] then 3 else 4) \<and>
     mm_n mm = -1 \<and> mm_next mm = None \<and> mm_hash_fn mm = Hash_djb"

definition disk_db :: "disk_file \<Rightarrow> kv list \<Rightarrow> bool" where
  "disk_db x recs \<longleftrightarrow> recs_ok djb_hash recs \<and> db_file (f_bytes x) (f_size x) djb_hash recs"

lemma map_of_file_reading:
  assumes "disk_db x recs" "map_of_file x mm" "get_map (m_map m) w = Some mm"
  shows "reading recs m w mm"
  using assms reader_stride [of "f_bytes x" "f_size x" djb_hash recs]
  by (auto simp: reading_def map_of_file_def disk_db_def db_mapped_def)

text \<open>What opening leaves alone: other maps, the names, the lock, the files.\<close>

definition rd_frame :: "nat set \<Rightarrow> rd \<Rightarrow> rd \<Rightarrow> bool" where
  "rd_frame S w w' \<longleftrightarrow> (\<forall>p. p \<notin> S \<longrightarrow> r_maps w' p = r_maps w p) \<and> r_lock w' = r_lock w \<and>
     r_fs w' = r_fs w \<and> r_step w \<le> r_step w' \<and> r_newfd w' = r_newfd w \<and> r_fail w' = r_fail w"

lemma rd_frame_refl [simp, intro]: "rd_frame S w w"
  by (simp add: rd_frame_def)

lemma rd_frame_trans: "rd_frame S w w1 \<Longrightarrow> rd_frame S w1 w2 \<Longrightarrow> rd_frame S w w2"
  by (simp add: rd_frame_def)

lemma rd_call_sel [simp]:
  "r_maps (snd (rd_call w)) = r_maps w" "r_strs (snd (rd_call w)) = r_strs w" "r_fresh (snd (rd_call w)) = r_fresh w"
  "r_lock (snd (rd_call w)) = r_lock w" "r_fs (snd (rd_call w)) = r_fs w" "r_fds (snd (rd_call w)) = r_fds w"
  "r_newfd (snd (rd_call w)) = r_newfd w" "r_fail (snd (rd_call w)) = r_fail w" "r_step (snd (rd_call w)) = Suc (r_step w)"
  by (simp_all add: rd_call_def Let_def)

lemma get_put_map [simp]:
  "get_map p (put_map q mm w) = (if p = q then Some mm else get_map p w)"
  by (simp add: get_map_def put_map_def)

lemma put_map_sel [simp]:
  "r_strs (put_map p mm w) = r_strs w" "r_fresh (put_map p mm w) = r_fresh w" "r_lock (put_map p mm w) = r_lock w"
  "r_fs (put_map p mm w) = r_fs w" "r_fds (put_map p mm w) = r_fds w" "r_newfd (put_map p mm w) = r_newfd w"
  "r_fail (put_map p mm w) = r_fail w" "r_step (put_map p mm w) = r_step w" "r_maps (put_map p mm w) = (r_maps w)(p \<mapsto> mm)"
  by (simp_all add: put_map_def)

lemma get_map_call [simp]: "get_map p (snd (rd_call w)) = get_map p w"
  by (simp add: get_map_def)

lemma unmap_total:
  assumes "get_map p w = Some mm"
  shows "\<exists>w1. mcdb_mmap_unmap p w = Some w1 \<and> get_map p w1 = Some (mm\<lparr>mm_ptr := None, mm_size := 0\<rparr>) \<and>
    rd_frame {p} w w1 \<and> r_strs w1 = r_strs w \<and> r_fds w1 = r_fds w \<and> r_fresh w1 = r_fresh w"
  using assms by (auto simp: mcdb_mmap_unmap_def rd_frame_def)

text \<open>A call that changed nothing but the call counter and \<^verbatim>\<open>errno\<close>.\<close>

definition rd_same :: "rd \<Rightarrow> rd \<Rightarrow> bool" where
  "rd_same w w1 \<longleftrightarrow> r_maps w1 = r_maps w \<and> r_strs w1 = r_strs w \<and> r_fds w1 = r_fds w \<and> r_fresh w1 = r_fresh w \<and>
     r_lock w1 = r_lock w \<and> r_fs w1 = r_fs w \<and> r_newfd w1 = r_newfd w \<and> r_fail w1 = r_fail w \<and> r_step w \<le> r_step w1"

lemma rd_same_refl [simp]: "rd_same w w"
  by (simp add: rd_same_def)

lemma rd_same_trans: "rd_same w w1 \<Longrightarrow> rd_same w1 w2 \<Longrightarrow> rd_same w w2"
  by (simp add: rd_same_def)

lemma rd_sameD:
  assumes "rd_same w w1"
  shows "r_maps w1 = r_maps w" "r_strs w1 = r_strs w" "r_fds w1 = r_fds w" "r_fresh w1 = r_fresh w"
    "r_lock w1 = r_lock w" "r_fs w1 = r_fs w" "r_newfd w1 = r_newfd w" "r_fail w1 = r_fail w"
    "r_step w \<le> r_step w1"
  using assms by (simp_all add: rd_same_def)

lemma rd_call_same: "rd_call w = (ok, w1) \<Longrightarrow> rd_same w w1"
  by (auto simp: rd_same_def rd_call_def Let_def split: if_splits)

lemma rd_same_errno: "rd_same w w1 \<Longrightarrow> rd_same w (w1\<lparr>r_errno := e\<rparr>)"
  by (simp add: rd_same_def)

lemma fstat_props:
  assumes "sys_fstat fd w = (st, w1)"
  shows "rd_same w w1" "st = Some x \<Longrightarrow> r_fds w fd = Some (Fd_file x)"
proof -
  obtain ok v where c: "rd_call w = (ok, v)" by fastforce
  note s = rd_call_same [OF c] rd_same_errno [OF rd_call_same [OF c], of EBADF]
  show "rd_same w w1" using assms s by (auto simp: sys_fstat_def c split: if_splits option.splits fdobj.splits)
  show "st = Some x \<Longrightarrow> r_fds w fd = Some (Fd_file x)"
    using assms by (auto simp: sys_fstat_def c split: if_splits option.splits fdobj.splits)
qed

lemma mmap_props:
  assumes "sys_mmap n w = (ok, w1)"
  shows "rd_same w w1"
proof -
  obtain r v where c: "rd_call w = (r, v)" by fastforce
  show ?thesis using assms rd_call_same [OF c] rd_same_errno [OF rd_call_same [OF c], of EINVAL]
    by (auto simp: sys_mmap_def c split: if_splits)
qed

lemma init_props:
  assumes "get_map p w = Some mm"
  shows "\<exists>ok w1 mm1. mcdb_mmap_init p fd w = Some (ok, w1) \<and> get_map p w1 = Some mm1 \<and> rd_frame {p} w w1 \<and>
    r_strs w1 = r_strs w \<and> r_fds w1 = r_fds w \<and> r_fresh w1 = r_fresh w \<and>
    mm_fname mm1 = mm_fname mm \<and> mm_dfd mm1 = mm_dfd mm \<and> mm_has_free mm1 = mm_has_free mm \<and> mm_allocated mm1 = mm_allocated mm \<and>
    (ok \<longrightarrow> (\<exists>x. r_fds w fd = Some (Fd_file x) \<and> map_of_file x mm1 \<and> mm_refcnt mm1 = 0))"
proof -
  obtain w1 where u: "mcdb_mmap_unmap p w = Some w1" "get_map p w1 = Some (mm\<lparr>mm_ptr := None, mm_size := 0\<rparr>)"
    "rd_frame {p} w w1" "r_strs w1 = r_strs w" "r_fds w1 = r_fds w" "r_fresh w1 = r_fresh w"
    using unmap_total [OF assms] by blast
  obtain st w2 where st: "sys_fstat fd w1 = (st, w2)" by fastforce
  note s = rd_sameD [OF fstat_props(1) [OF st]]
  show ?thesis
  proof (cases st)
    case None
    then have "mcdb_mmap_init p fd w = Some (False, w2)" using u(1) st by (simp add: mcdb_mmap_init_def)
    then show ?thesis using u s by (auto simp: rd_frame_def get_map_def)
  next
    case (Some x)
    obtain ok w3 where m1: "sys_mmap (f_size x) w2 = (ok, w3)" by fastforce
    obtain ok' w4 where m2: "(if \<not> ok \<and> r_errno w3 = EINVAL then sys_mmap (f_size x) w3 else (ok, w3)) = (ok', w4)" by fastforce
    have "rd_same w1 w4"
      using rd_same_trans [OF fstat_props(1) [OF st] rd_same_trans [OF mmap_props [OF m1]]] mmap_props m2
      by (auto split: if_splits)
    note s4 = rd_sameD [OF this]
    have fd: "r_fds w fd = Some (Fd_file x)" using fstat_props(2) [OF st Some] u(5) by simp
    have e: "mcdb_mmap_init p fd w = (if \<not> ok' then Some (False, w4)
             else do {
               mm \<leftarrow> get_map p w4;
               Some (True, put_map p (mm\<lparr>mm_ptr := Some (f_bytes x), mm_size := f_size x,
                   mm_b := (if f_size x < UINT_MAX \<or> mem_slice (f_bytes x) 0 4 = [0, 0, 0, 0] then 3 else 4),
                   mm_n := -1, mm_mtime := f_mtime x, mm_next := None, mm_refcnt := 0,
                   mm_hash_init := UINT32_HASH_DJB_INIT, mm_hash_fn := Hash_djb\<rparr>) w4) })"
      unfolding mcdb_mmap_init_def using u(1) st Some m1 m2 by (simp add: Let_def)
    show ?thesis
    proof (cases ok')
      case False
      then show ?thesis using e u s4 by (auto simp: rd_frame_def get_map_def)
    next
      case True
      have "get_map p w4 = Some (mm\<lparr>mm_ptr := None, mm_size := 0\<rparr>)" using u(2) s4 by (simp add: get_map_def)
      then show ?thesis using e True u s4 fd by (auto simp: rd_frame_def map_of_file_def)
    qed
  qed
qed

lemma open_fd_props:
  assumes "open_fd obj w = (fd, w1)" "r_newfd w (r_step w) \<noteq> -1"
  shows "r_maps w1 = r_maps w" "r_strs w1 = r_strs w" "r_fresh w1 = r_fresh w" "rd_frame S w w1" "r_step w < r_step w1"
    "fd = -1 \<Longrightarrow> r_fds w1 = r_fds w"
    "fd \<noteq> -1 \<Longrightarrow> fd = r_newfd w (r_step w) \<and> (\<exists>x. obj = Some x \<and> r_fds w1 = (r_fds w)(fd \<mapsto> x))"
  using assms by (auto simp: open_fd_def rd_call_def Let_def rd_frame_def split: if_splits option.splits)

lemma close_sel [simp]:
  "r_maps (nointr_close fd w) = r_maps w" "r_strs (nointr_close fd w) = r_strs w" "r_fresh (nointr_close fd w) = r_fresh w"
  "r_lock (nointr_close fd w) = r_lock w" "r_fs (nointr_close fd w) = r_fs w" "r_fds (nointr_close fd w) = (r_fds w)(fd := None)"
  "r_newfd (nointr_close fd w) = r_newfd w" "r_fail (nointr_close fd w) = r_fail w" "r_step (nointr_close fd w) = Suc (r_step w)"
  "get_map p (nointr_close fd w) = get_map p w"
  by (simp_all add: nointr_close_def get_map_def)

definition same_owner :: "mcdb_mmap \<Rightarrow> mcdb_mmap \<Rightarrow> bool" where
  "same_owner mm mm1 \<longleftrightarrow> mm_fname mm1 = mm_fname mm \<and> mm_dfd mm1 = mm_dfd mm \<and>
     mm_has_free mm1 = mm_has_free mm \<and> mm_allocated mm1 = mm_allocated mm"

lemma reopen_props:
  assumes mm: "get_map p w = Some mm" and name: "fname_str mm w = Some name"
    and fd: "r_newfd w (r_step w) \<noteq> -1" "r_fds w (r_newfd w (r_step w)) = None"
  shows "\<exists>ok w1 mm1. mcdb_mmap_reopen p w = Some (ok, w1) \<and> get_map p w1 = Some mm1 \<and> rd_frame {p} w w1 \<and>
    r_strs w1 = r_strs w \<and> r_fds w1 = r_fds w \<and> r_fresh w1 = r_fresh w \<and> same_owner mm mm1 \<and>
    (ok \<longrightarrow> (\<exists>d x. dir_of (mm_dfd mm) w = Some d \<and> r_fs w d name = Some x \<and> map_of_file x mm1 \<and> mm_refcnt mm1 = 0))"
proof -
  let ?obj = "map_option Fd_file (Option.bind (dir_of (mm_dfd mm) w) (\<lambda>d. r_fs w d name))"
  obtain h w1 where o: "open_fd ?obj w = (h, w1)" by fastforce
  note O = open_fd_props [OF o fd(1)]
  show ?thesis
  proof (cases "h = -1")
    case True
    then show ?thesis using O(1-5,6) mm name o by (auto simp: mcdb_mmap_reopen_def same_owner_def get_map_def)
  next
    case False
    obtain x where x: "?obj = Some x" "r_fds w1 = (r_fds w)(h \<mapsto> x)" "h = r_newfd w (r_step w)" using O(7) False by blast
    have "get_map p w1 = Some mm" using mm O(1) by (simp add: get_map_def)
    from init_props [OF this, of h] obtain ok w2 mm2 where i: "mcdb_mmap_init p h w1 = Some (ok, w2)"
      "get_map p w2 = Some mm2" "rd_frame {p} w1 w2" "r_strs w2 = r_strs w1" "r_fds w2 = r_fds w1" "r_fresh w2 = r_fresh w1"
      "same_owner mm mm2"
      "ok \<longrightarrow> (\<exists>x. r_fds w1 h = Some (Fd_file x) \<and> map_of_file x mm2 \<and> mm_refcnt mm2 = 0)"
      unfolding same_owner_def by auto
    have "mcdb_mmap_reopen p w = Some (ok, nointr_close h w2)"
      using mm name o False i(1) by (simp add: mcdb_mmap_reopen_def)
    moreover have "(r_fds w1)(h := None) = r_fds w" using x(2,3) fd(2) by (auto simp: fun_eq_iff)
    moreover have "rd_frame {p} w (nointr_close h w2)"
      using rd_frame_trans [OF O(4) i(3)] by (simp add: rd_frame_def)
    moreover have "ok \<longrightarrow> (\<exists>d y. dir_of (mm_dfd mm) w = Some d \<and> r_fs w d name = Some y \<and> map_of_file y mm2 \<and> mm_refcnt mm2 = 0)"
      using i(8) x(1,2) by (auto simp: bind_eq_Some_conv)
    ultimately show ?thesis using i O(2,3) by (intro exI [of _ ok] exI [of _ "nointr_close h w2"] exI [of _ mm2]) simp
  qed
qed

text \<open>The names and descriptors after those of a map are given back.\<close>

definition drop_name :: "fname_ref \<Rightarrow> (nat \<Rightarrow> bytes option) \<Rightarrow> nat \<Rightarrow> bytes option" where
  "drop_name r S = (case r of Fname_blk q \<Rightarrow> S(q := None) | _ \<Rightarrow> S)"

definition drop_fd :: "int \<Rightarrow> (int \<Rightarrow> fdobj option) \<Rightarrow> int \<Rightarrow> fdobj option" where
  "drop_fd h F = (if h = -1 then F else F(h := None))"

lemma drop_simps [simp]:
  "drop_name Fname_null S = S" "drop_name Fname_buf S = S" "drop_name (Fname_blk q) S = S(q := None)"
  "drop_fd (-1) F = F"
  by (simp_all add: drop_name_def drop_fd_def)

text \<open>A map that was destroyed: gone, or still there but closed when it is the caller's.\<close>

definition released :: "bool \<Rightarrow> nat \<Rightarrow> rd \<Rightarrow> bool" where
  "released allocated p w \<longleftrightarrow> (case r_maps w p of None \<Rightarrow> \<not> allocated
     | Some mm \<Rightarrow> allocated \<and> mm_ptr mm = None \<and> mm_dfd mm = -1)"

lemma destroy_props:
  assumes mm: "get_map p w = Some mm" "mm_has_free mm" and name: "\<And>q. mm_fname mm = Fname_blk q \<Longrightarrow> r_strs w q \<noteq> None"
  shows "\<exists>w1. mcdb_mmap_destroy (Some p) w = Some w1 \<and> rd_frame {p} w w1 \<and> r_fresh w1 = r_fresh w \<and>
    released (mm_allocated mm) p w1 \<and>
    r_strs w1 = drop_name (mm_fname mm) (r_strs w) \<and>
    r_fds w1 = drop_fd (mm_dfd mm) (r_fds w)"
  using assms
  by (cases "mm_fname mm"; cases "mm_allocated mm"; cases "mm_dfd mm = -1")
    (auto simp: mcdb_mmap_destroy_def mcdb_mmap_free_def mcdb_mmap_unmap_def rd_frame_def free_str_def free_map_def Let_def get_map_def drop_fd_def released_def)

subsection \<open>Creating a map\<close>

text \<open>A state in which allocation and opening give fresh names.\<close>

definition rd_fresh :: "rd \<Rightarrow> bool" where
  "rd_fresh w \<longleftrightarrow> inj (r_newfd w) \<and> (\<forall>k \<ge> r_step w. r_newfd w k \<noteq> -1 \<and> r_fds w (r_newfd w k) = None) \<and>
     (\<forall>q \<ge> r_fresh w. r_maps w q = None \<and> r_strs w q = None)"

lemma open_dir_props:
  assumes mm: "get_map p w = Some mm" "mm_has_free mm" "mm_fname mm = Fname_null" "mm_dfd mm = -1"
    and fd: "r_newfd w (r_step w) \<noteq> -1" "r_fds w (r_newfd w (r_step w)) = None"
  shows "\<exists>ok w1. create_open_dir p dname w = Some (ok, w1) \<and> rd_frame {p} w w1 \<and> r_strs w1 = r_strs w \<and> r_fresh w1 = r_fresh w \<and>
    (\<not> ok \<longrightarrow> r_fds w1 = r_fds w \<and> released (mm_allocated mm) p w1) \<and>
    (ok \<longrightarrow> (\<exists>h. get_map p w1 = Some (mm\<lparr>mm_dfd := h\<rparr>) \<and>
       (case dname of None \<Rightarrow> h = -1 \<and> r_fds w1 = r_fds w
        | Some d \<Rightarrow> h = r_newfd w (r_step w) \<and> r_step w < r_step w1 \<and> r_fds w1 = (r_fds w)(h \<mapsto> Fd_dir d))))"
proof (cases dname)
  case None
  then show ?thesis using mm by (auto simp: create_open_dir_def)
next
  case (Some d)
  obtain h w1 where o: "open_fd (Some (Fd_dir d)) w = (h, w1)" by fastforce
  note O = open_fd_props [OF o fd(1)]
  let ?w2 = "put_map p (mm\<lparr>mm_dfd := h\<rparr>) w1"
  have f: "rd_frame {p} w ?w2" using O(4) [of "{p}"] by (simp add: rd_frame_def)
  show ?thesis
  proof (cases "h > 2")
    case True
    then have "h \<noteq> -1" by simp
    from O(7) [OF this] show ?thesis using True Some o mm f O(2,3,5) by (auto simp: create_open_dir_def)
  next
    case False
    have "\<exists>w3. mcdb_mmap_destroy (Some p) ?w2 = Some w3 \<and> rd_frame {p} ?w2 w3 \<and> r_fresh w3 = r_fresh ?w2 \<and>
      released (mm_allocated (mm\<lparr>mm_dfd := h\<rparr>)) p w3 \<and>
      r_strs w3 = drop_name (mm_fname (mm\<lparr>mm_dfd := h\<rparr>)) (r_strs ?w2) \<and>
      r_fds w3 = drop_fd (mm_dfd (mm\<lparr>mm_dfd := h\<rparr>)) (r_fds ?w2)"
      by (rule destroy_props) (use mm in simp_all)
    then obtain w3 where d: "mcdb_mmap_destroy (Some p) ?w2 = Some w3" "rd_frame {p} ?w2 w3" "r_fresh w3 = r_fresh w1"
      "released (mm_allocated mm) p w3" "r_strs w3 = r_strs w1"
      "r_fds w3 = drop_fd (h) (r_fds w1)"
      using mm by auto
    have "r_fds w3 = r_fds w"
      using d(6) O(6,7) fd(2) by (cases "h = -1") (auto simp: fun_eq_iff drop_fd_def)
    moreover have "create_open_dir p dname w = Some (False, w3)"
      using Some o mm(1) False d(1) by (simp add: create_open_dir_def)
    ultimately show ?thesis using d O(2,3) rd_frame_trans [OF f d(2)] by auto
  qed
qed

lemma create_name_props:
  assumes mm: "get_map p w = Some mm" "mm_has_free mm" "mm_fname mm = Fname_null"
    and fresh: "\<forall>q \<ge> r_fresh w. r_strs w q = None"
  shows "\<exists>ok w1. create_name p fname w = Some (ok, w1) \<and> rd_frame {p} w w1 \<and>
    (\<not> ok \<longrightarrow> r_strs w1 = r_strs w \<and> released (mm_allocated mm) p w1 \<and>
      r_fds w1 = drop_fd (mm_dfd mm) (r_fds w)) \<and>
    (ok \<longrightarrow> r_fds w1 = r_fds w \<and> (\<exists>mm1. get_map p w1 = Some mm1 \<and> fname_str mm1 w1 = Some fname \<and>
       mm_dfd mm1 = mm_dfd mm \<and> mm_has_free mm1 \<and> mm_allocated mm1 = mm_allocated mm \<and>
       r_strs w = drop_name (mm_fname mm1) (r_strs w1)))"
proof -
  obtain q v where a: "rd_malloc w = (q, v)" by fastforce
  have v: "rd_frame {p} w v" "r_strs v = r_strs w" "r_maps v = r_maps w" "r_fds v = r_fds w" "\<And>i. q = Some i \<Longrightarrow> i = r_fresh w"
    using a by (auto simp: rd_malloc_def rd_call_def Let_def rd_frame_def split: if_splits)
  have vm: "get_map p v = Some mm" using mm(1) v(3) by (simp add: get_map_def)
  show ?thesis
  proof (cases "length fname < 112")
    case True
    then show ?thesis using mm by (auto simp: create_name_def rd_frame_def fname_str_def)
  next
    case False
    show ?thesis
    proof (cases q)
      case None
      from destroy_props [OF vm mm(2)] mm(3) obtain w1 where "mcdb_mmap_destroy (Some p) v = Some w1" "rd_frame {p} v w1"
        "released (mm_allocated mm) p w1" "r_strs w1 = r_strs v"
        "r_fds w1 = drop_fd (mm_dfd mm) (r_fds v)" by auto
      then show ?thesis using None False a mm(1) v rd_frame_trans [OF v(1)] by (auto simp: create_name_def)
    next
      case (Some i)
      have "(r_strs w)(i := None) = r_strs w" using fresh v(5) [OF Some] by (auto simp: fun_eq_iff)
      then show ?thesis using Some False a mm v
        by (auto simp: create_name_def rd_frame_def fname_str_def)
    qed
  qed
qed

definition create_steps :: "nat \<Rightarrow> bool \<Rightarrow> bytes option \<Rightarrow> bytes \<Rightarrow> rd \<Rightarrow> (nat option \<times> rd) option" where
  "create_steps p allocated dname fname w = do {
     (ok, w3) \<leftarrow> create_open_dir p dname (put_map p (mmap_blank allocated) w);
     if \<not> ok then Some (None, w3)
     else do {
       (ok, w4) \<leftarrow> create_name p fname w3;
       if \<not> ok then Some (None, w4)
       else do {
         (rc, w5) \<leftarrow> mcdb_mmap_reopen p w4;
         if rc then do {
           mm \<leftarrow> get_map p w5;
           Some (Some p, put_map p (mm\<lparr>mm_refcnt := mm_refcnt mm + 1\<rparr>) w5) }
         else do { w6 \<leftarrow> mcdb_mmap_destroy (Some p) w5; Some (None, w6) } } } }"

definition create_end :: "nat \<Rightarrow> bool \<Rightarrow> bytes option \<Rightarrow> bytes \<Rightarrow> rd \<Rightarrow> nat option \<Rightarrow> rd \<Rightarrow> bool" where
  "create_end p allocated dname fname w r w' \<longleftrightarrow> rd_frame {p} w w' \<and>
     (case r of
        None \<Rightarrow> r_strs w' = r_strs w \<and> r_fds w' = r_fds w \<and> released allocated p w'
      | Some q \<Rightarrow> q = p \<and> (\<exists>mm x. get_map p w' = Some mm \<and> r_fs w dname fname = Some x \<and> map_of_file x mm \<and> mm_refcnt mm = 1))"

lemma mmap_blank_sel [simp]:
  "mm_has_free (mmap_blank a)" "mm_fname (mmap_blank a) = Fname_null" "mm_dfd (mmap_blank a) = -1" "mm_allocated (mmap_blank a) = a"
  by (simp_all add: mmap_blank_def)

lemma blank_dfd:
  "mm_has_free ((mmap_blank a)\<lparr>mm_dfd := h\<rparr>)" "mm_fname ((mmap_blank a)\<lparr>mm_dfd := h\<rparr>) = Fname_null"
  "mm_dfd ((mmap_blank a)\<lparr>mm_dfd := h\<rparr>) = h" "mm_allocated ((mmap_blank a)\<lparr>mm_dfd := h\<rparr>) = a"
  by simp_all

lemma rd_frame_put: "rd_frame {p} w (put_map p mm w)"
  by (simp add: rd_frame_def)

lemma map_of_file_refcnt: "map_of_file x (mm\<lparr>mm_refcnt := c\<rparr>) = map_of_file x mm"
  by (simp add: map_of_file_def)

text \<open>The last step, from a state in which the directory is open and the name is stored.\<close>

lemma create_reopen_end:
  assumes mm: "get_map p w = Some mm" "mm_has_free mm" "fname_str mm w = Some name"
    and fd: "r_newfd w (r_step w) \<noteq> -1" "r_fds w (r_newfd w (r_step w)) = None"
  shows "\<exists>r w'. do {
         (rc, w5) \<leftarrow> mcdb_mmap_reopen p w;
         if rc then do {
           mm \<leftarrow> get_map p w5;
           Some (Some p, put_map p (mm\<lparr>mm_refcnt := mm_refcnt mm + 1\<rparr>) w5) }
         else do { w6 \<leftarrow> mcdb_mmap_destroy (Some p) w5; Some (None, w6) } } = Some (r, w') \<and> rd_frame {p} w w' \<and>
     (case r of
        None \<Rightarrow> r_strs w' = drop_name (mm_fname mm) (r_strs w) \<and>
          r_fds w' = drop_fd (mm_dfd mm) (r_fds w) \<and> released (mm_allocated mm) p w'
      | Some q \<Rightarrow> q = p \<and> (\<exists>mm1 d x. get_map p w' = Some mm1 \<and> dir_of (mm_dfd mm) w = Some d \<and> r_fs w d name = Some x \<and>
          map_of_file x mm1 \<and> mm_refcnt mm1 = 1))"
proof -
  obtain ok w1 mm1 where R: "mcdb_mmap_reopen p w = Some (ok, w1)" "get_map p w1 = Some mm1" "rd_frame {p} w w1"
    "r_strs w1 = r_strs w" "r_fds w1 = r_fds w" "same_owner mm mm1"
    "ok \<longrightarrow> (\<exists>d x. dir_of (mm_dfd mm) w = Some d \<and> r_fs w d name = Some x \<and> map_of_file x mm1 \<and> mm_refcnt mm1 = 0)"
    using reopen_props [OF mm(1,3) fd] by blast
  show ?thesis
  proof (cases ok)
    case True
    then obtain d x where "dir_of (mm_dfd mm) w = Some d" "r_fs w d name = Some x" "map_of_file x mm1" "mm_refcnt mm1 = 0"
      using R(7) by blast
    then show ?thesis using True R rd_frame_trans [OF R(3) rd_frame_put] by (simp add: map_of_file_refcnt)
  next
    case False
    have "\<exists>w2. mcdb_mmap_destroy (Some p) w1 = Some w2 \<and> rd_frame {p} w1 w2 \<and> r_fresh w2 = r_fresh w1 \<and>
      released (mm_allocated mm1) p w2 \<and>
      r_strs w2 = drop_name (mm_fname mm1) (r_strs w1) \<and>
      r_fds w2 = drop_fd (mm_dfd mm1) (r_fds w1)"
      using R(4,6) mm by (intro destroy_props [OF R(2)]) (auto simp: same_owner_def fname_str_def split: fname_ref.splits)
    then obtain w2 where "mcdb_mmap_destroy (Some p) w1 = Some w2" "rd_frame {p} w1 w2"
      "released (mm_allocated mm1) p w2"
      "r_strs w2 = drop_name (mm_fname mm1) (r_strs w1)"
      "r_fds w2 = drop_fd (mm_dfd mm1) (r_fds w1)"
      by (elim exE conjE) (rule that)
    then show ?thesis using False R rd_frame_trans [OF R(3)] by (simp add: same_owner_def)
  qed
qed

lemma dir_of_open:
  "(case dname of None \<Rightarrow> h = -1 | Some d \<Rightarrow> h \<noteq> -1 \<and> r_fds w h = Some (Fd_dir d)) \<Longrightarrow> dir_of h w = Some dname"
  by (cases dname) (auto simp: dir_of_def)

lemma create_steps_end:
  assumes fresh: "rd_fresh w"
  shows "\<exists>r w'. create_steps p allocated dname fname w = Some (r, w') \<and> create_end p allocated dname fname w r w'"
proof -
  let ?w0 = "put_map p (mmap_blank allocated) w"
  let ?h = "r_newfd w (r_step w)"
  have fd: "r_newfd ?w0 (r_step ?w0) \<noteq> -1" "r_fds ?w0 (r_newfd ?w0 (r_step ?w0)) = None"
    using fresh by (simp_all add: rd_fresh_def)
  have g0: "get_map p ?w0 = Some (mmap_blank allocated)" by simp
  have f0: "rd_frame {p} w ?w0" by (simp add: rd_frame_put)
  obtain ok w1 where D: "create_open_dir p dname ?w0 = Some (ok, w1)" "rd_frame {p} ?w0 w1" "r_strs w1 = r_strs ?w0" "r_fresh w1 = r_fresh ?w0"
    "\<not> ok \<longrightarrow> r_fds w1 = r_fds ?w0 \<and> released allocated p w1"
    "ok \<longrightarrow> (\<exists>h. get_map p w1 = Some ((mmap_blank allocated)\<lparr>mm_dfd := h\<rparr>) \<and>
       (case dname of None \<Rightarrow> h = -1 \<and> r_fds w1 = r_fds ?w0
        | Some d \<Rightarrow> h = r_newfd ?w0 (r_step ?w0) \<and> r_step ?w0 < r_step w1 \<and> r_fds w1 = (r_fds ?w0)(h \<mapsto> Fd_dir d)))"
    using open_dir_props [OF g0 mmap_blank_sel(1-3) fd, of dname, unfolded mmap_blank_sel(4)]
    by (elim exE conjE) (rule that)
  show ?thesis
  proof (cases ok)
    case False
    then show ?thesis using D rd_frame_trans [OF f0 D(2)]
      by (auto simp: create_steps_def create_end_def)
  next
    case True
    then obtain h where h: "get_map p w1 = Some ((mmap_blank allocated)\<lparr>mm_dfd := h\<rparr>)"
      "case dname of None \<Rightarrow> h = -1 \<and> r_fds w1 = r_fds w
        | Some d \<Rightarrow> h = ?h \<and> r_step w < r_step w1 \<and> r_fds w1 = (r_fds w)(h \<mapsto> Fd_dir d)"
      using D(6) unfolding put_map_sel by blast
    have strs1: "\<forall>q \<ge> r_fresh w1. r_strs w1 q = None" using fresh D(3,4) by (simp add: rd_fresh_def)
    obtain ok2 w2 where N: "create_name p fname w1 = Some (ok2, w2)" "rd_frame {p} w1 w2"
      "\<not> ok2 \<longrightarrow> r_strs w2 = r_strs w1 \<and> released allocated p w2 \<and>
        r_fds w2 = drop_fd (h) (r_fds w1)"
      "ok2 \<longrightarrow> r_fds w2 = r_fds w1 \<and> (\<exists>mm1. get_map p w2 = Some mm1 \<and> fname_str mm1 w2 = Some fname \<and>
         mm_dfd mm1 = h \<and> mm_has_free mm1 \<and> mm_allocated mm1 = allocated \<and>
         r_strs w1 = drop_name (mm_fname mm1) (r_strs w2))"
      using create_name_props [OF h(1) blank_dfd(1,2) strs1, of fname, unfolded blank_dfd(3,4)]
      by (elim exE conjE) (rule that)
    have closed: "drop_fd (h) (r_fds w1) = r_fds w"
      using h(2) fd by (cases dname) (auto simp: fun_eq_iff drop_fd_def)
    have f2: "rd_frame {p} w w2" by (rule rd_frame_trans [OF rd_frame_trans [OF f0 D(2)] N(2)])
    show ?thesis
    proof (cases ok2)
      case False
      then show ?thesis using D True N closed f2 by (auto simp: create_steps_def create_end_def)
    next
      case ok2: True
      then obtain mm1 where m: "get_map p w2 = Some mm1" "fname_str mm1 w2 = Some fname" "mm_dfd mm1 = h" "mm_has_free mm1"
        "mm_allocated mm1 = allocated" "r_fds w2 = r_fds w1"
        "r_strs w1 = drop_name (mm_fname mm1) (r_strs w2)"
        using N(4) by blast
      have dir: "dir_of h w2 = Some dname"
        by (rule dir_of_open) (use h(2) m(6) fd in \<open>auto split: option.splits\<close>)
      have st: "r_step w \<le> r_step w2" "r_newfd w2 = r_newfd w" "r_step w1 \<le> r_step w2"
        using f2 N(2) by (auto simp: rd_frame_def)
      have fd2: "r_newfd w2 (r_step w2) \<noteq> -1" using fresh st by (simp add: rd_fresh_def)
      have "r_fds w (r_newfd w (r_step w2)) = None" using fresh st by (simp add: rd_fresh_def)
      moreover have "r_newfd w (r_step w2) \<noteq> ?h \<or> dname = None"
        using h(2) st(3) fresh by (auto simp: rd_fresh_def inj_eq split: option.splits)
      ultimately have "r_fds w2 (r_newfd w2 (r_step w2)) = None" using h(2) m(6) st(2) by (auto split: option.splits)
      from create_reopen_end [OF m(1,4,2) fd2 this] obtain r w' where R:
        "do {
         (rc, w5) \<leftarrow> mcdb_mmap_reopen p w2;
         if rc then do {
           mm \<leftarrow> get_map p w5;
           Some (Some p, put_map p (mm\<lparr>mm_refcnt := mm_refcnt mm + 1\<rparr>) w5) }
         else do { w6 \<leftarrow> mcdb_mmap_destroy (Some p) w5; Some (None, w6) } } = Some (r, w')"
        "rd_frame {p} w2 w'"
        "case r of
           None \<Rightarrow> r_strs w' = r_strs w1 \<and> r_fds w' = drop_fd h (r_fds w1) \<and> released allocated p w'
         | Some q \<Rightarrow> q = p \<and> (\<exists>mm1 d x. get_map p w' = Some mm1 \<and> dir_of h w2 = Some d \<and> r_fs w2 d fname = Some x \<and>
             map_of_file x mm1 \<and> mm_refcnt mm1 = 1)"
        unfolding m(3,5,6) m(7) [symmetric] by (elim exE conjE) (rule that)
      have "r_fs w2 = r_fs w" using f2 by (simp add: rd_frame_def)
      moreover have "create_steps p allocated dname fname w = Some (r, w')"
        using D(1) True N(1) ok2 R(1) unfolding create_steps_def by simp
      moreover have "rd_frame {p} w w'" by (rule rd_frame_trans [OF f2 R(2)])
      ultimately show ?thesis using R(3) closed dir D(3)
        by (intro exI [of _ r] exI [of _ w'] conjI) (auto simp: create_end_def split: option.splits)
    qed
  qed
qed

lemma mcdb_mmap_create_own:
  assumes "get_map p w \<noteq> None"
  shows "mcdb_mmap_create (Some p) dname fname w = create_steps p True dname fname w"
  using assms by (simp add: mcdb_mmap_create_def create_steps_def Let_def)

lemma mcdb_mmap_create_new:
  "mcdb_mmap_create None dname fname w =
     (let (p, w1) = rd_malloc w in case p of None \<Rightarrow> Some (None, w1) | Some p \<Rightarrow> create_steps p False dname fname w1)"
  by (simp add: mcdb_mmap_create_def create_steps_def Let_def split: prod.splits option.splits)

lemma malloc_fresh:
  assumes "rd_fresh w" "rd_malloc w = (p, w1)"
  shows "rd_fresh w1" "r_maps w1 = r_maps w" "r_strs w1 = r_strs w" "r_fds w1 = r_fds w" "r_fs w1 = r_fs w" "r_lock w1 = r_lock w"
    "\<forall>q. p = Some q \<longrightarrow> r_maps w q = None"
  using assms by (auto simp: rd_fresh_def rd_malloc_def rd_call_def Let_def split: if_splits)

text \<open>C10: creating a map never goes wrong, whatever calls fail, with a map of the caller or with null for a new one.
  A map as result is the caller's, or one that was not there before; it holds the named file and is referenced once, and no
  other map has changed.  A null result means that every other map and every allocated name and descriptor is as before:
  a new map is gone again, but the caller's map is not released, although the comment on
  \<^verbatim>\<open>mcdb_mmap_create\<close> announces it; what it held before is forgotten and it is left closed.\<close>

theorem create_safe:
  assumes "rd_fresh w" "\<And>p. mp = Some p \<Longrightarrow> get_map p w \<noteq> None"
  shows "\<exists>r w'. mcdb_mmap_create mp dname fname w = Some (r, w') \<and> r_lock w' = r_lock w \<and>
     (case r of
        None \<Rightarrow> (\<forall>q. mp \<noteq> Some q \<longrightarrow> r_maps w' q = r_maps w q) \<and> r_strs w' = r_strs w \<and> r_fds w' = r_fds w \<and>
          (case mp of None \<Rightarrow> True | Some p \<Rightarrow> \<exists>mm. get_map p w' = Some mm \<and> mm_ptr mm = None \<and> mm_dfd mm = -1)
      | Some p \<Rightarrow> (case mp of None \<Rightarrow> r_maps w p = None | Some p' \<Rightarrow> p = p') \<and> (\<forall>q. q \<noteq> p \<longrightarrow> r_maps w' q = r_maps w q) \<and>
          (\<exists>mm x. get_map p w' = Some mm \<and> r_fs w dname fname = Some x \<and> map_of_file x mm \<and> mm_refcnt mm = 1))"
proof (cases mp)
  case None
  obtain p w1 where m: "rd_malloc w = (p, w1)" by fastforce
  note M = malloc_fresh [OF assms(1) m]
  show ?thesis
  proof (cases p)
    case None
    then show ?thesis using m M \<open>mp = None\<close> by (simp add: mcdb_mmap_create_new)
  next
    case (Some q)
    obtain r w' where "create_steps q False dname fname w1 = Some (r, w')" and e: "create_end q False dname fname w1 r w'"
      using create_steps_end [OF M(1)] by blast
    then have c: "mcdb_mmap_create mp dname fname w = Some (r, w')" using Some m \<open>mp = None\<close> by (simp add: mcdb_mmap_create_new)
    have others: "\<forall>i. i \<noteq> q \<longrightarrow> r_maps w' i = r_maps w i" "r_lock w' = r_lock w"
      using e M by (auto simp: create_end_def rd_frame_def)
    show ?thesis
    proof (cases r)
      case None
      then have "r_maps w' i = r_maps w i" for i
        using e others(1) M(7) Some by (cases "i = q") (auto simp: create_end_def released_def split: option.splits)
      then show ?thesis using None c e others M \<open>mp = None\<close> by (simp add: create_end_def)
    next
      case (Some i)
      then show ?thesis using c e others M \<open>p = Some q\<close> \<open>mp = None\<close> by (auto simp: create_end_def)
    qed
  qed
next
  case (Some p)
  obtain r w' where "create_steps p True dname fname w = Some (r, w')" and e: "create_end p True dname fname w r w'"
    using create_steps_end [OF assms(1)] by blast
  then have c: "mcdb_mmap_create mp dname fname w = Some (r, w')" using Some assms(2) mcdb_mmap_create_own by simp
  have "\<forall>i. i \<noteq> p \<longrightarrow> r_maps w' i = r_maps w i" "r_lock w' = r_lock w" using e by (auto simp: create_end_def rd_frame_def)
  then show ?thesis using c e Some
    by (cases r) (auto simp: create_end_def released_def get_map_def split: option.splits)
qed

definition rd_start :: "(nat \<Rightarrow> nat) \<Rightarrow> (bytes option \<Rightarrow> bytes \<Rightarrow> disk_file option) \<Rightarrow> rd" where
  "rd_start fail fs = \<lparr>r_maps = (\<lambda>_. None), r_strs = (\<lambda>_. None), r_fresh = 0, r_lock = False, r_fs = fs, r_fds = (\<lambda>_. None),
     r_newfd = (\<lambda>k. int k + 3), r_fail = fail, r_step = 0, r_errno = 0\<rparr>"

lemma rd_start_fresh: "rd_fresh (rd_start fail fs)"
  by (auto simp: rd_fresh_def rd_start_def inj_def)

lemma rd_start_map_fresh: "rd_fresh ((rd_start fail fs)\<lparr>r_maps := [0 \<mapsto> mm], r_fresh := 1\<rparr>)"
  by (auto simp: rd_fresh_def rd_start_def inj_def)

theorem create_safe_witness:
  "(\<exists>r w'. mcdb_mmap_create None (Some [47]) [97] (rd_start (\<lambda>i. if i = 3 then 5 else 0) (\<lambda>_ _. None)) = Some (r, w') \<and>
      (r = None \<longrightarrow> r_maps w' = (\<lambda>_. None) \<and> r_fds w' = (\<lambda>_. None))) \<and>
   (\<exists>w' mm. mcdb_mmap_create (Some 0) None [97] ((rd_start (\<lambda>_. 0) (\<lambda>_ _. None))\<lparr>r_maps := [0 \<mapsto> mmap_blank True], r_fresh := 1\<rparr>) =
      Some (None, w') \<and> get_map 0 w' = Some mm \<and> mm_ptr mm = None)"
proof
  show "\<exists>r w'. mcdb_mmap_create None (Some [47]) [97] (rd_start (\<lambda>i. if i = 3 then 5 else 0) (\<lambda>_ _. None)) = Some (r, w') \<and>
      (r = None \<longrightarrow> r_maps w' = (\<lambda>_. None) \<and> r_fds w' = (\<lambda>_. None))"
    using create_safe [OF rd_start_fresh, of None "\<lambda>i. if i = 3 then 5 else 0" "\<lambda>_ _. None" "Some [47]" "[97]"]
    by (auto simp: rd_start_def fun_eq_iff)
  show "\<exists>w' mm. mcdb_mmap_create (Some 0) None [97] ((rd_start (\<lambda>_. 0) (\<lambda>_ _. None))\<lparr>r_maps := [0 \<mapsto> mmap_blank True], r_fresh := 1\<rparr>) =
      Some (None, w') \<and> get_map 0 w' = Some mm \<and> mm_ptr mm = None"
    using create_safe [OF rd_start_map_fresh [of "mmap_blank True" "\<lambda>_. 0" "\<lambda>_ _. None"], of "Some 0" None "[97]"]
    by (auto simp: rd_start_def get_map_def split: option.splits)
qed

end
