(* ===== verification/Reader_Props.thy ===== *)
theory Reader_Props
  imports Open_Proofs Make_Db
begin

text \<open>What the reader promises on a map that holds a database, and the writer and the reader
  together: what was added is what is found.\<close>

subsection \<open>An example database\<close>

definition ex_recs :: "kv list" where
  "ex_recs = [([107], [118]), ([107], [119]), ([], [])]"

lemma make_db_file:
  assumes "plasma_bigendian P" "pk \<le> 30" "fd \<noteq> -1" "eintr_fair w" "recs_ok djb_hash recs"
    and run: "make_db P (2 ^ pk) fd recs w = Some (0, w')"
  shows "db_file (o_file w') (o_flen w') djb_hash recs"
proof -
  obtain m w1 where "mcdb_make_start (2 ^ pk) fd w = Some (0, m, w1)"
    using run by (auto simp: make_db_def bind_eq_Some_conv split: if_splits)
  from make_db_run [OF assms(1,2,4,5,3) this] run show ?thesis by (auto simp: run_end_def)
qed

lemma make_db_willing:
  assumes "plasma_bigendian P" "pk \<le> 30" "fd \<noteq> -1" "os_willing w" "recs_ok djb_hash recs"
  shows "\<exists>w'. make_db P (2 ^ pk) fd recs w = Some (0, w')"
proof -
  obtain m w1 where "mcdb_make_start (2 ^ pk) fd w = Some (0, m, w1)" by (rule start_willing [OF assms(4) refl assms(2,3)])
  from make_db_run [OF assms(1,2) _ assms(5,3) this] assms(4) show ?thesis
    by (auto simp: run_end_def os_willing_def eintr_fair_def EINTR_def)
qed

lemma ex_make_db: "\<exists>w'. make_db plasma_ref (2 ^ 12) 3 ex_recs (os_empty (\<lambda>_. 0) (\<lambda>_. 7)) = Some (0, w')"
  using example_recs_ok os_empty_willing(1) by (intro make_db_willing) (simp_all add: ex_recs_def)

definition ex_map :: "disk_file \<Rightarrow> mcdb_mmap" where
  "ex_map x = (mmap_blank False)\<lparr>mm_ptr := Some (f_bytes x), mm_size := f_size x,
     mm_b := (if f_size x < UINT_MAX \<or> mem_slice (f_bytes x) 0 4 = [0, 0, 0, 0] then 3 else 4),
     mm_n := -1, mm_mtime := f_mtime x\<rparr>"

definition ex_query :: "nat \<Rightarrow> mcdb" where
  "ex_query p = \<lparr>m_map = p, m_loop = 0, m_hslots = 0, m_kpos = 0, m_hpos = 0, m_dpos = 0, m_dlen = 0, m_klen = 0, m_khash = []\<rparr>"

definition ex_rd :: "mcdb_mmap \<Rightarrow> rd" where
  "ex_rd mm = (rd_start (\<lambda>_. 0) (\<lambda>_ _. None))\<lparr>r_maps := [0 \<mapsto> mm], r_fresh := 1\<rparr>"

lemma small_reading:
  assumes "\<forall>r \<in> set recs. length (fst r) \<le> INT_MAX - 8 \<and> length (snd r) \<le> INT_MAX - 8"
    and "length recs \<le> 2 ^ 27" "length (data_bytes recs) < 2 ^ 61"
  shows "\<exists>mm. reading recs (ex_query 0) (ex_rd mm) mm \<and> mm_n mm = -1"
proof -
  have ok: "recs_ok djb_hash recs" by (rule recs_ok_few [OF assms])
  obtain w' where "make_db plasma_ref (2 ^ 12) 3 recs (os_empty (\<lambda>_. 0) (\<lambda>_. 7)) = Some (0, w')"
    using make_db_willing [OF plasma_ref_bigendian _ _ os_empty_willing(1) ok, of 12 3] by auto
  from make_db_file [OF plasma_ref_bigendian _ _ os_empty_willing(2) ok this]
  have "disk_db \<lparr>f_bytes = o_file w', f_size = o_flen w', f_mtime = 0\<rparr> recs" (is "disk_db ?x _")
    using ok by (simp add: disk_db_def)
  moreover have "map_of_file ?x (ex_map ?x)" by (simp add: map_of_file_def ex_map_def mmap_blank_def)
  moreover have "get_map (m_map (ex_query 0)) (ex_rd (ex_map ?x)) = Some (ex_map ?x)"
    by (simp add: ex_query_def ex_rd_def get_map_def)
  ultimately have "reading recs (ex_query 0) (ex_rd (ex_map ?x)) (ex_map ?x)" by (rule map_of_file_reading)
  then show ?thesis by (intro exI) (auto simp: ex_map_def)
qed

lemma ex_reading: "\<exists>mm. reading ex_recs (ex_query 0) (ex_rd mm) mm \<and> mm_n mm = -1"
  by (rule small_reading) (simp_all add: ex_recs_def data_bytes_def rec_len_def INT_MAX_def)

lemma ex_values: "filter (\<lambda>r. fst r = full_key [107] 0) ex_recs = [([107], [118]), ([107], [119])]"
  by (simp add: ex_recs_def full_key_def)

subsection \<open>Lookup\<close>

text \<open>C4: on a map that holds a database, a search (start, then next until it fails) never
  touches memory outside the file, ends, and finds each value that was added under the key
  (after its tag character if it is not 0), as often as it was added, and nothing else.\<close>

theorem lookup_complete:
  assumes "plasma_bigendian P" "reading recs m w mm"
  shows "\<exists>vs. get_values P m key tagc w = Some vs \<and>
    mset vs = mset (map snd (filter (\<lambda>r. fst r = full_key key tagc) recs))"
  using get_values_eq [OF assms] db_values_mset by blast

theorem lookup_complete_witness:
  "\<exists>mm vs. get_values plasma_ref (ex_query 0) [107] 0 (ex_rd mm) = Some vs \<and> mset vs = {#[118], [119]#}"
proof -
  obtain mm where "reading ex_recs (ex_query 0) (ex_rd mm) mm" using ex_reading by blast
  from lookup_complete [OF plasma_ref_bigendian this, of "[107]" 0] show ?thesis
    unfolding ex_values by auto
qed

text \<open>C11: the values come in the order in which they were added while the slot of the key holds at
  most 250 records (beyond that the writer's lists are walked newest list first).\<close>

theorem lookup_order:
  assumes "plasma_bigendian P" "reading recs m w mm"
    and "length (slot_recs djb_hash recs (slot_of (djb_hash (full_key key tagc)))) \<le> MCDB_HPLIST"
  shows "get_values P m key tagc w = Some (map snd (filter (\<lambda>r. fst r = full_key key tagc) recs))"
  using get_values_eq [OF assms(1,2)] db_values_order [OF assms(3)] by simp

theorem lookup_order_witness:
  "\<exists>mm. get_values plasma_ref (ex_query 0) [107] 0 (ex_rd mm) = Some [[118], [119]]"
proof -
  obtain mm where R: "reading ex_recs (ex_query 0) (ex_rd mm) mm" using ex_reading by blast
  have "length (slot_recs djb_hash ex_recs i) \<le> MCDB_HPLIST" for i
    unfolding slot_recs_def by (rule order_trans [OF length_filter_le]) (simp add: ex_recs_def MCDB_HPLIST_def)
  from lookup_order [OF plasma_ref_bigendian R this, of "[107]" 0] show ?thesis unfolding ex_values by auto
qed

lemma find_first_values:
  assumes "plasma_bigendian P" "reading recs m w mm"
  shows "\<exists>m'. case db_values djb_hash recs (full_key key 0) of
      [] \<Rightarrow> mcdb_find P m key w = Some (False, m', w)
    | v # vs \<Rightarrow> mcdb_find P m key w = Some (True, m', w) \<and> mcdb_data m' w = Some v"
proof -
  obtain b m1 where s: "mcdb_findtagstart P m key 0 w = Some (b, m1, w)"
    using findtagstart_props [OF assms, of key 0] by (auto split: if_splits)
  note g = get_values_eq [OF assms, of key 0, unfolded get_values_def s]
  show ?thesis
  proof (cases b)
    case False
    then show ?thesis using g s by (simp add: mcdb_find_def)
  next
    case True
    then have f: "find_all P m1 key 0 w = Some (db_values djb_hash recs (full_key key 0))" using g by simp
    then obtain h m2 where n: "mcdb_findtagnext P m1 key 0 w = Some (h, m2)"
      by (subst (asm) find_all.simps) (auto simp: bind_eq_Some_conv)
    have "mcdb_find P m key w = Some (h, m2, w)" using s True n by (simp add: mcdb_find_def)
    then show ?thesis using f n by (subst (asm) find_all.simps) (auto simp: bind_eq_Some_conv split: if_splits list.splits)
  qed
qed

text \<open>C5: \<^verbatim>\<open>mcdb_find\<close> succeeds exactly for the keys of the database, and then the data
  pointer and length describe a value that was added under the key.\<close>

theorem find_iff_added:
  assumes "plasma_bigendian P" "reading recs m w mm"
  shows "\<exists>hit m'. mcdb_find P m key w = Some (hit, m', w) \<and> (hit \<longleftrightarrow> key \<in> fst ` set recs) \<and>
    (hit \<longrightarrow> (\<exists>v. (key, v) \<in> set recs \<and> mcdb_data m' w = Some v))"
proof -
  have k: "full_key key 0 = key" by (simp add: full_key_def)
  have vals: "set (db_values djb_hash recs key) = {v. (key, v) \<in> set recs}"
    using arg_cong [OF db_values_mset [of djb_hash recs key], of set_mset] by force
  show ?thesis
  proof (cases "db_values djb_hash recs key")
    case Nil
    with vals have "key \<notin> fst ` set recs" by force
    then show ?thesis using find_first_values [OF assms, of key] Nil by (auto simp: k)
  next
    case (Cons v vs)
    with vals have "(key, v) \<in> set recs" by auto
    then show ?thesis using find_first_values [OF assms, of key] Cons by (force simp: k)
  qed
qed

theorem find_iff_added_witness:
  "\<exists>mm m' v. mcdb_find plasma_ref (ex_query 0) [107] (ex_rd mm) = Some (True, m', ex_rd mm) \<and> mcdb_data m' (ex_rd mm) = Some v"
proof -
  obtain mm where R: "reading ex_recs (ex_query 0) (ex_rd mm) mm" using ex_reading by blast
  have "[107] \<in> fst ` set ex_recs" by (simp add: ex_recs_def)
  with find_iff_added [OF plasma_ref_bigendian R, of "[107]"]
  obtain m' v where "mcdb_find plasma_ref (ex_query 0) [107] (ex_rd mm) = Some (True, m', ex_rd mm)" "mcdb_data m' (ex_rd mm) = Some v"
    by auto
  then show ?thesis by blast
qed

subsection \<open>Iterating, counting, validating, reading\<close>

text \<open>C12: iterating over a database yields its records, keys and data, in the order in which they
  were added, and ends at the last one.\<close>

theorem iteration_complete:
  assumes "plasma_bigendian P" "reading recs m w mm"
  shows "get_all P m w = Some recs"
  using get_all_eq [OF assms(1)] assms(2) by (auto simp: reading_def)

theorem iteration_complete_witness: "\<exists>mm. get_all plasma_ref (ex_query 0) (ex_rd mm) = Some ex_recs"
proof -
  obtain mm where "reading ex_recs (ex_query 0) (ex_rd mm) mm" using ex_reading by blast
  from iteration_complete [OF plasma_ref_bigendian this] show ?thesis by blast
qed

text \<open>C13: \<^verbatim>\<open>mcdb_numrecs\<close> gives the number of records and stores it in the field \<^verbatim>\<open>n\<close> of the map, where
  the next call finds it, which gives it again and changes nothing; no other field of the map changes.\<close>

theorem numrecs_counts:
  assumes "plasma_bigendian P" "reading recs m w mm" "mm_n mm = -1"
  shows "\<exists>w'. mcdb_numrecs P m w = Some (word_of_nat (length recs), w') \<and>
    get_map (m_map m) w' = Some (mm\<lparr>mm_n := word_of_nat (length recs)\<rparr>) \<and> mcdb_numrecs P m w' = Some (word_of_nat (length recs), w')"
proof -
  have g: "get_map (m_map m) w = Some mm" and db: "db_mapped djb_hash recs mm" using assms(2) by (auto simp: reading_def)
  obtain w' where "mcdb_numrecs P m w = Some (word_of_nat (length recs), w')"
    "get_map (m_map m) w' = Some (mm\<lparr>mm_n := word_of_nat (length recs)\<rparr>)"
    using numrecs_eq [OF assms(1) g assms(3) db] by blast
  moreover have "(word_of_nat (length recs) :: u32) \<noteq> -1"
    using db_mappedD(3) [OF db] by (intro of_nat_not_all_ones) (simp add: recs_ok_def INT_MAX_def)
  ultimately show ?thesis by (intro exI [of _ w']) (simp add: mcdb_numrecs_def [of _ _ w'])
qed

theorem numrecs_counts_witness:
  "\<exists>mm w'. mm_n mm = -1 \<and> mcdb_numrecs plasma_ref (ex_query 0) (ex_rd mm) = Some (3, w') \<and>
     get_map (m_map (ex_query 0)) w' = Some (mm\<lparr>mm_n := 3\<rparr>)"
proof -
  obtain mm where "reading ex_recs (ex_query 0) (ex_rd mm) mm" "mm_n mm = -1" using ex_reading by blast
  from numrecs_counts [OF plasma_ref_bigendian this] this(2) show ?thesis by (auto simp: ex_recs_def)
qed

text \<open>C14: \<^verbatim>\<open>mcdb_validate_slots\<close> accepts every database.\<close>

theorem validate_accepts:
  assumes "plasma_bigendian P" "reading recs m w mm"
  shows "\<exists>w'. mcdb_validate_slots P m w = Some (True, w') \<and>
    get_map (m_map m) w' = Some (mm\<lparr>mm_n := word_of_nat (length recs)\<rparr>)"
  using validate_slots_eq [OF assms(1)] assms(2) by (auto simp: reading_def)

theorem validate_accepts_witness: "\<exists>mm w'. mcdb_validate_slots plasma_ref (ex_query 0) (ex_rd mm) = Some (True, w')"
proof -
  obtain mm where "reading ex_recs (ex_query 0) (ex_rd mm) mm" using ex_reading by blast
  from validate_accepts [OF plasma_ref_bigendian this] show ?thesis by blast
qed

text \<open>C15: \<^verbatim>\<open>mcdb_read\<close> on any mapped file, whatever its bytes, position and length, never reads
  outside the file, and gives the bytes exactly when position and length lie inside: its check, in 64-bit
  arithmetic that wraps around, agrees with the comparison of the sum of the two numbers with the size, also where that sum
  has more than 64 bits.\<close>

theorem read_bounds:
  assumes "get_map (m_map m) w = Some mm" "mm_ptr mm = Some f" "mm_size mm < 2 ^ 64"
  shows "mcdb_read m pos len w =
    Some (if unat pos + unat len \<le> mm_size mm then Some (mem_slice f (unat pos) (unat len)) else None)"
proof -
  have n: "unat (word_of_nat (mm_size mm) :: u64) = mm_size mm" using assms(3) by (simp add: unat_of_nat)
  have "unat len < 2 ^ 64" using unsigned_less [of len, where 'a = nat] by simp
  then have l: "unat (ucast len :: u64) = unat len" by (simp add: unsigned_ucast_eq unsigned_take_bit_eq take_bit_nat_eq_self)
  have "pos \<le> word_of_nat (mm_size mm) \<Longrightarrow> unat (word_of_nat (mm_size mm) - pos) = mm_size mm - unat pos"
    by (simp add: unat_sub n)
  then have "pos \<le> word_of_nat (mm_size mm) \<and> ucast len \<le> word_of_nat (mm_size mm) - pos \<longleftrightarrow> unat pos + unat len \<le> mm_size mm"
    by (auto simp: word_le_nat_alt n l)
  then show ?thesis using assms(1,2) by (simp add: mcdb_read_def map_load_def Let_def)
qed

theorem read_bounds_witness:
  "mcdb_read (ex_query 0) (-1) 2 (ex_rd (ex_map \<lparr>f_bytes = (\<lambda>_. 7), f_size = 9, f_mtime = 0\<rparr>)) = Some None \<and>
   mcdb_read (ex_query 0) 7 2 (ex_rd (ex_map \<lparr>f_bytes = (\<lambda>_. 7), f_size = 9, f_mtime = 0\<rparr>)) = Some (Some [7, 7])"
proof -
  let ?x = "\<lparr>f_bytes = (\<lambda>_. 7), f_size = 9, f_mtime = 0\<rparr> :: disk_file"
  have g: "get_map (m_map (ex_query 0)) (ex_rd (ex_map ?x)) = Some (ex_map ?x)" "mm_ptr (ex_map ?x) = Some (\<lambda>_. 7)" "mm_size (ex_map ?x) = 9"
    by (simp_all add: ex_query_def ex_rd_def get_map_def ex_map_def)
  have big: "unat (-1 :: u64) = 18446744073709551615" unfolding unsigned_minus_1_eq_mask by (simp add: mask_eq_exp_minus_1)
  have two: "mem_slice (\<lambda>_. 7) 7 2 = [7, 7 :: u8]" by (simp add: mem_slice_def upt_rec)
  have s: "mm_size (ex_map ?x) < 2 ^ 64" using g(3) by simp
  from read_bounds [OF g(1,2) s, of "-1" 2] read_bounds [OF g(1,2) s, of 7 2] show ?thesis
    unfolding g(3) big by (simp add: two)
qed

subsection \<open>Writer and reader together\<close>

text \<open>C1: what a successful run of the writer puts into a file, a reader that opens the file gets
  back: every value under its key as often as it was added and no other, and the
  records in order by iteration.  Every system call of both sides may fail otherwise.\<close>

theorem written_then_read:
  assumes "plasma_bigendian P" "pk \<le> 30" "fd \<noteq> -1" "eintr_fair w" "recs_ok djb_hash recs"
    and "make_db P (2 ^ pk) fd recs w = Some (0, w')"
    and "rd_fresh v" "r_fs v dname fname = Some \<lparr>f_bytes = o_file w', f_size = o_flen w', f_mtime = t\<rparr>"
    and "mcdb_mmap_create None dname fname v = Some (Some (m_map m), v')"
  shows "get_all P m v' = Some recs \<and> (\<exists>vs. get_values P m key tagc v' = Some vs \<and>
    mset vs = mset (map snd (filter (\<lambda>r. fst r = full_key key tagc) recs)))"
proof -
  obtain p v1 where ma: "rd_malloc v = (Some p, v1)" and "create_steps p False dname fname v1 = Some (Some (m_map m), v')"
    using assms(9) by (auto simp: mcdb_mmap_create_new split: prod.splits option.splits)
  with create_steps_end [OF malloc_fresh(1) [OF assms(7) ma], of p False dname fname]
  have "create_end p False dname fname v1 (Some (m_map m)) v'" by auto
  moreover have "r_fs v1 = r_fs v" using malloc_fresh(5) [OF assms(7) ma] .
  ultimately obtain mm where mm: "get_map (m_map m) v' = Some mm"
    "map_of_file \<lparr>f_bytes = o_file w', f_size = o_flen w', f_mtime = t\<rparr> mm"
    using assms(8) by (auto simp: create_end_def)
  have "disk_db \<lparr>f_bytes = o_file w', f_size = o_flen w', f_mtime = t\<rparr> recs"
    using make_db_file [OF assms(1-6)] assms(5) by (simp add: disk_db_def)
  from map_of_file_reading [OF this mm(2,1)] have R: "reading recs m v' mm" .
  then show ?thesis using get_all_eq [OF assms(1)] get_values_eq [OF assms(1) R] db_values_mset by (auto simp: reading_def)
qed

lemma ex_create:
  assumes "f_size x \<noteq> 0"
  shows "\<exists>v'. mcdb_mmap_create None None [97] (rd_start (\<lambda>_. 0) (\<lambda>_ _. Some x)) = Some (Some (m_map (ex_query 0)), v')"
  using assms
  by (simp add: mcdb_mmap_create_def rd_malloc_def rd_call_def rd_start_def create_open_dir_def create_name_def mmap_blank_def
     mcdb_mmap_reopen_def fname_str_def open_fd_def dir_of_def mcdb_mmap_init_def mcdb_mmap_unmap_def sys_fstat_def
     sys_mmap_def ex_query_def get_map_def put_map_def nointr_close_def)

theorem written_then_read_witness:
  "\<exists>w' v'. make_db plasma_ref (2 ^ 12) 3 ex_recs (os_empty (\<lambda>_. 0) (\<lambda>_. 7)) = Some (0, w') \<and>
     mcdb_mmap_create None None [97] (rd_start (\<lambda>_. 0) (\<lambda>_ _. Some \<lparr>f_bytes = o_file w', f_size = o_flen w', f_mtime = 0\<rparr>)) =
       Some (Some (m_map (ex_query 0)), v') \<and>
     get_all plasma_ref (ex_query 0) v' = Some ex_recs"
proof -
  obtain w' where w': "make_db plasma_ref (2 ^ 12) 3 ex_recs (os_empty (\<lambda>_. 0) (\<lambda>_. 7)) = Some (0, w')"
    using ex_make_db by blast
  have ok: "recs_ok djb_hash ex_recs" using example_recs_ok by (simp add: ex_recs_def)
  have "db_file (o_file w') (o_flen w') djb_hash ex_recs"
    by (rule make_db_file [OF plasma_ref_bigendian _ _ os_empty_willing(2) ok w']) simp_all
  then have "o_flen w' \<noteq> 0"
    using table_pos_ge [of ex_recs djb_hash MCDB_SLOTS] tables_start_ge(1) [of ex_recs] by (auto simp: db_file_def mcdb_consts)
  then obtain v' where c: "mcdb_mmap_create None None [97] (rd_start (\<lambda>_. 0)
      (\<lambda>_ _. Some \<lparr>f_bytes = o_file w', f_size = o_flen w', f_mtime = 0\<rparr>)) = Some (Some (m_map (ex_query 0)), v')"
    using ex_create [of "\<lparr>f_bytes = o_file w', f_size = o_flen w', f_mtime = 0\<rparr>"] by auto
  have "get_all plasma_ref (ex_query 0) v' = Some ex_recs"
    using written_then_read [OF plasma_ref_bigendian _ _ os_empty_willing(2) ok w' rd_start_fresh _ c, of 0 "[]" 0]
    by (simp add: rd_start_def)
  with w' c show ?thesis by blast
qed

end
