(* ===== verification/Mcdbctl_Out_Proofs.thy ===== *)
theory Mcdbctl_Out_Proofs
  imports Mcdbctl_Out Makefmt_Proofs Reader_Props
begin

text \<open>What the printing queries write: the dump is the text format of the records, and the
  conversion back gives the same database.\<close>

subsection \<open>Writing\<close>

text \<open>Every call transfers everything.\<close>

definition ou_all :: "outs \<Rightarrow> bool" where
  "ou_all out \<longleftrightarrow> (\<forall>k. ou_fail out k = 0 \<and> SSIZE_MAX \<le> ou_count out k)"

lemma iov_advance_0 [simp]: "iov_advance 0 iov = Some iov"
  by (subst iov_advance.simps) simp

lemma iov_advance_all:
  "iov = [] \<or> last iov \<noteq> [] \<Longrightarrow> iov_advance (length (concat iov)) iov = Some []"
proof (induction iov)
  case Nil
  then show ?case by simp
next
  case (Cons v vs)
  show ?case
  proof (cases "vs = []")
    case True
    then show ?thesis using Cons.prems by (subst iov_advance.simps) simp
  next
    case False
    then have l: "last vs \<noteq> []" using Cons.prems by simp
    then have "concat vs \<noteq> []" using last_in_set [OF False] by auto
    then show ?thesis using Cons.IH l by (subst iov_advance.simps) auto
  qed
qed

lemma writev_loop_all:
  assumes out: "ou_all out" and iov: "iov = [] \<or> last iov \<noteq> []" "length iov \<le> iov_max" "length (concat iov) \<le> SSIZE_MAX"
  shows "\<exists>out'. writev_loop iov_max iov sz out = Some (True, out') \<and> ou_all out' \<and> ou_bytes out' = ou_bytes out @ concat iov"
proof (cases "iov = []")
  case True
  then show ?thesis using out by (subst writev_loop.simps) simp
next
  case False
  define out1 where "out1 = out\<lparr>ou_step := Suc (ou_step out), ou_bytes := ou_bytes out @ concat iov\<rparr>"
  have c: "SSIZE_MAX \<le> ou_count out (ou_step out)" "ou_fail out (ou_step out) = 0" using out by (simp_all add: ou_all_def)
  have "length (concat iov) \<le> max 1 (ou_count out (ou_step out))" using c(1) iov(3) by linarith
  then have "min (length (concat iov)) (max 1 (ou_count out (ou_step out))) = length (concat iov)" by (rule min_absorb1)
  then have w: "sys_writev iov_max iov out = (Some (length (concat iov)), out1)"
    using iov(2,3) c(2) by (simp add: sys_writev_def Let_def out1_def)
  have "iov_advance (length (concat iov)) iov = Some []" using iov_advance_all [OF iov(1)] .
  moreover have "writev_loop iov_max [] z out1 = Some (True, out1)" for z by (subst writev_loop.simps) simp
  ultimately have "writev_loop iov_max iov sz out = Some (True, out1)"
    using False w by (subst writev_loop.simps) simp
  moreover have "ou_all out1" "ou_bytes out1 = ou_bytes out @ concat iov" using out by (simp_all add: ou_all_def out1_def)
  ultimately show ?thesis by blast
qed

subsection \<open>Dump\<close>

text \<open>The buffers after r records with the given text.\<close>

definition dump_ok :: "nat \<Rightarrow> dump_buf \<Rightarrow> bytes \<Rightarrow> nat \<Rightarrow> bool" where
  "dump_ok iov_max d t r \<longleftrightarrow> length (du_iov d) = 9 * r \<and> 9 * r \<le> iov_max \<and> concat (du_iov d) = t \<and> du_buflen d \<le> 20 * r \<and>
     du_iovlen d \<le> length t \<and> (du_iov d = [] \<or> last (du_iov d) \<noteq> [])"

lemma dump_flush_all:
  assumes "ou_all out" "dump_ok iov_max d t r" "length t \<le> SSIZE_MAX"
  shows "\<exists>out'. dump_flush iov_max d out = Some (True, dump_empty, out') \<and> ou_all out' \<and> ou_bytes out' = ou_bytes out @ t"
proof -
  have "du_iov d = [] \<or> last (du_iov d) \<noteq> []" "length (du_iov d) \<le> iov_max" "length (concat (du_iov d)) \<le> SSIZE_MAX"
    using assms(2,3) by (auto simp: dump_ok_def)
  from writev_loop_all [OF assms(1) this, of "int (du_iovlen d)"] assms(2) show ?thesis
    by (auto simp: dump_flush_def dump_ok_def)
qed

lemma dump_empty_ok: "dump_ok iov_max dump_empty [] 0"
  by (simp add: dump_ok_def dump_empty_def)

text \<open>The iterator on a record.\<close>

definition iter_at :: "mcdb_iter \<Rightarrow> rd \<Rightarrow> bytes \<Rightarrow> bytes \<Rightarrow> bool" where
  "iter_at it w k v \<longleftrightarrow> mcdb_iter_key it w = Some k \<and> mcdb_iter_data it w = Some v \<and>
     unat (it_klen it) = length k \<and> unat (it_dlen it) = length v \<and> length k \<le> INT_MAX \<and> length v \<le> INT_MAX"

lemma dump_head_all:
  assumes it: "iter_at it w k v" and d: "length (du_iov d) = 9 * r" "9 * r + 9 \<le> iov_max" "du_buflen d \<le> 20 * r"
  shows "\<exists>d'. dump_head iov_max it w d = Some d' \<and> length (du_iov d') = 9 * r + 7 \<and> du_buflen d' \<le> 20 * Suc r \<and>
    concat (du_iov d') = concat (du_iov d) @ [43] @ dec_digits (length k) @ [44] @ dec_digits (length v) @ [58] @ k @ [45, 62] \<and>
    du_iovlen d' = du_iovlen d + length k + 5"
proof -
  have l: "length (dec_digits (length k)) \<le> 10" "length (dec_digits (length v)) \<le> 10"
    using it length_dec_digits [of _ 10] by (auto simp: iter_at_def INT_MAX_def)
  have b: "du_buflen d + length (dec_digits (length k)) + length (dec_digits (length v)) \<le> iov_max * 3" using l d by linarith
  show ?thesis using it d b l
    by (simp add: dump_head_def dump_number_def dump_iov_def base10_eq iter_at_def)
qed

lemma dump_rec_all:
  assumes it: "iter_at it w k v" and d: "dump_ok iov_max d t r" and nine: "9 \<le> iov_max" and out: "ou_all out"
    and sz: "length t + length (fmt_rec (k, v)) < SSIZE_MAX"
  shows "\<exists>d' out' t' r'. dump_rec iov_max it w d out = Some (True, d', out') \<and> ou_bytes out' @ t' = ou_bytes out @ t @ fmt_rec (k, v) \<and>
    length t' \<le> length t + length (fmt_rec (k, v)) \<and> dump_ok iov_max d' t' r' \<and> ou_all out'"
proof -
  let ?flush = "du_iovlen d + unat (it_klen it) + 5 > SSIZE_MAX \<or> length (du_iov d) + 8 \<ge> iov_max"
  have fl: "length (fmt_rec (k, v)) \<ge> length k + length v + 8"
  proof -
    have "1 \<le> length (dec_digits (length k))" "1 \<le> length (dec_digits (length v))" by (simp_all add: Suc_le_eq)
    then show ?thesis by (simp add: fmt_rec_def)
  qed
  obtain d1 out1 t1 r1 where s1: "(if ?flush then dump_flush iov_max d out else Some (True, d, out)) = Some (True, d1, out1)"
    "ou_all out1" "ou_bytes out1 @ t1 = ou_bytes out @ t" "length t1 \<le> length t" "dump_ok iov_max d1 t1 r1" "9 * r1 + 9 \<le> iov_max"
  proof (cases ?flush)
    case True
    then show ?thesis using dump_flush_all [OF out d] sz that [of dump_empty _ "[]" 0] dump_empty_ok nine by fastforce
  next
    case False
    then have "9 * r + 9 \<le> iov_max" using d by (simp add: dump_ok_def)
    then show ?thesis using that [of d out t r] False out d by simp
  qed
  have d1: "length (du_iov d1) = 9 * r1" "du_buflen d1 \<le> 20 * r1" "concat (du_iov d1) = t1" "du_iovlen d1 \<le> length t1"
    using s1(5) by (simp_all add: dump_ok_def)
  obtain d2 where d2: "dump_head iov_max it w d1 = Some d2" "length (du_iov d2) = 9 * r1 + 7" "du_buflen d2 \<le> 20 * Suc r1"
    "concat (du_iov d2) = t1 @ [43] @ dec_digits (length k) @ [44] @ dec_digits (length v) @ [58] @ k @ [45, 62]"
    "du_iovlen d2 = du_iovlen d1 + length k + 5"
    using dump_head_all [OF it d1(1) s1(6) d1(2)] d1(3) by auto
  have iv: "mcdb_iter_data it w = Some v" "unat (it_dlen it) = length v" using it by (simp_all add: iter_at_def)
  have "\<not> du_iovlen d2 + unat (it_dlen it) + 1 > SSIZE_MAX" using d2(5) d1(4) s1(4) sz fl iv(2) by simp
  moreover define d4 where "d4 = d2\<lparr>du_iov := du_iov d2 @ [v, [10]], du_iovlen := du_iovlen d2 + length v + 1\<rparr>"
  then have d4: "dump_tail iov_max it w d2 = Some d4" "du_iov d4 = du_iov d2 @ [v, [10]]"
    "du_iovlen d4 = du_iovlen d2 + length v + 1" "du_buflen d4 = du_buflen d2"
    using iv d2(2) s1(6) by (simp_all add: dump_tail_def dump_iov_def)
  ultimately have run: "dump_rec iov_max it w d out = Some (True, d4, out1)"
    using s1(1) d2(1) by (simp add: dump_rec_def)
  have "concat (du_iov d4) = t1 @ fmt_rec (k, v)" using d4(2) d2(4) by (simp add: fmt_rec_def)
  then have "dump_ok iov_max d4 (t1 @ fmt_rec (k, v)) (Suc r1)"
    using d4(2-4) d2(2,3,5) d1(4) s1(6) fl by (simp add: dump_ok_def)
  moreover have "ou_bytes out1 @ (t1 @ fmt_rec (k, v)) = ou_bytes out @ t @ fmt_rec (k, v)" using s1(3) by (metis append.assoc)
  ultimately show ?thesis using run s1(2,4) by (intro exI [of _ d4] exI [of _ out1] exI [of _ "t1 @ fmt_rec (k, v)"] exI [of _ "Suc r1"]) simp
qed

text \<open>Iteration, one record at a time.\<close>

lemma iter_load_length: "iter_load mm a n = Some bs \<Longrightarrow> length bs = n"
  by (auto simp: iter_load_def split: option.splits if_splits)

lemma iter_all_step:
  assumes "iter_all P it w = Some rs" "\<forall>r \<in> set rs. fits r"
  shows "\<exists>it1. case rs of [] \<Rightarrow> mcdb_iter_step P it w = Some (False, it1)
    | r # rs' \<Rightarrow> mcdb_iter_step P it w = Some (True, it1) \<and> iter_at it1 w (fst r) (snd r) \<and> iter_all P it1 w = Some rs'"
  using assms(1)
proof (subst (asm) iter_all.simps, goal_cases)
  case 1
  then obtain more it1 where s: "mcdb_iter_step P it w = Some (more, it1)" by (auto simp: bind_eq_Some_conv)
  show ?case
  proof (cases more)
    case False
    then show ?thesis using 1 s by auto
  next
    case True
    then obtain k d rest where k: "mcdb_iter_key it1 w = Some k" "mcdb_iter_data it1 w = Some d" "iter_all P it1 w = Some rest" "rs = (k, d) # rest"
      using 1 s by (auto simp: bind_eq_Some_conv)
    have "unat (it_klen it1) = length k" "unat (it_dlen it1) = length d"
      using k(1,2) by (auto simp: mcdb_iter_key_def mcdb_iter_data_def bind_eq_Some_conv dest: iter_load_length)
    then show ?thesis using s True k assms(2) by (auto simp: iter_at_def fits_def)
  qed
qed

lemma dump_loop_all:
  assumes nine: "9 \<le> iov_max"
  shows "iter_all P it w = Some rs \<Longrightarrow> \<forall>r \<in> set rs. fits r \<Longrightarrow> dump_ok iov_max d t r \<Longrightarrow> ou_all out \<Longrightarrow>
    length t + length (fmt_db rs) < SSIZE_MAX \<Longrightarrow>
    \<exists>d' out' t' r'. dump_loop P iov_max it w d out = Some (True, d', out') \<and> ou_bytes out' @ t' @ [10] = ou_bytes out @ t @ fmt_db rs \<and>
      dump_ok iov_max d' t' r' \<and> ou_all out' \<and> length t' < SSIZE_MAX"
proof (induction rs arbitrary: it d t r out)
  case Nil
  obtain it1 where "mcdb_iter_step P it w = Some (False, it1)" using iter_all_step [OF Nil(1,2)] by auto
  then have "dump_loop P iov_max it w d out = Some (True, d, out)" by (subst dump_loop.simps) simp
  then show ?case using Nil by (auto simp: fmt_db_simps)
next
  case (Cons x rs)
  obtain k v where x: "x = (k, v)" by fastforce
  obtain it1 where s: "mcdb_iter_step P it w = Some (True, it1)" "iter_at it1 w k v" "iter_all P it1 w = Some rs"
    using iter_all_step [OF Cons.prems(1,2)] x by auto
  have "length t + length (fmt_rec (k, v)) < SSIZE_MAX" using Cons.prems(5) by (simp add: fmt_db_simps x)
  from dump_rec_all [OF s(2) Cons.prems(3) nine Cons.prems(4) this] obtain d1 out1 t1 r1 where
    r: "dump_rec iov_max it1 w d out = Some (True, d1, out1)" "ou_bytes out1 @ t1 = ou_bytes out @ t @ fmt_rec (k, v)"
    "length t1 \<le> length t + length (fmt_rec (k, v))" "dump_ok iov_max d1 t1 r1" "ou_all out1" by blast
  have "length t1 + length (fmt_db rs) < SSIZE_MAX" using r(3) Cons.prems(5) by (simp add: fmt_db_simps x)
  from Cons.IH [OF s(3) _ r(4,5) this] Cons.prems(2) obtain d2 out2 t2 r2 where
    L: "dump_loop P iov_max it1 w d1 out1 = Some (True, d2, out2)" "ou_bytes out2 @ t2 @ [10] = ou_bytes out1 @ t1 @ fmt_db rs"
    "dump_ok iov_max d2 t2 r2" "ou_all out2" "length t2 < SSIZE_MAX" by auto
  have "dump_loop P iov_max it w d out = Some (True, d2, out2)" using s(1) r(1) L(1) by (subst dump_loop.simps) simp
  moreover have "ou_bytes out2 @ t2 @ [10] = ou_bytes out @ t @ fmt_db (x # rs)"
  proof -
    have "ou_bytes out2 @ t2 @ [10] = (ou_bytes out1 @ t1) @ fmt_db rs" using L(2) by (simp only: append.assoc)
    also have "\<dots> = ou_bytes out @ t @ fmt_db (x # rs)" unfolding r(2) by (simp add: fmt_db_simps x)
    finally show ?thesis .
  qed
  ultimately show ?case using L(3-5) by blast
qed

lemma fmt_db_length: "\<forall>r \<in> set recs. fits r \<Longrightarrow> length (fmt_db recs) \<le> length (data_bytes recs) + 18 * length recs + 1"
proof (induction recs)
  case Nil
  then show ?case by (simp add: fmt_db_simps)
next
  case (Cons r recs)
  have "length (fmt_rec r) \<le> rec_len r + 18"
    using Cons.prems dec_digits_number(2) [of "length (fst r)"] dec_digits_number(2) [of "length (snd r)"]
    by (simp add: fmt_rec_def rec_len_def fits_def)
  then show ?case using Cons by (simp add: fmt_db_simps data_bytes_Cons)
qed

lemma recs_ok_text: "recs_ok hf recs \<Longrightarrow> (\<forall>r \<in> set recs. fits r) \<and> length (fmt_db recs) < 2 ^ 62"
proof -
  assume ok: "recs_ok hf recs"
  then have f: "\<forall>r \<in> set recs. fits r" by (auto simp: recs_ok_def fits_def)
  have "length (data_bytes recs) < 2 ^ 61" "length recs < 2147483647" using ok by (auto simp: recs_ok_def INT_MAX_def)
  then show ?thesis using fmt_db_length [OF f] f by simp
qed

lemma dump_all:
  assumes P: "plasma_bigendian P" and R: "reading recs m w mm" and nine: "9 \<le> iov_max" and out: "ou_all out"
  shows "\<exists>out'. mcdbctl_dump P iov_max m w out = Some (0, out') \<and> ou_bytes out' = ou_bytes out @ fmt_db recs"
proof -
  have all: "get_all P m w = Some recs" using iteration_complete [OF P R] .
  then obtain it where it: "mcdb_iter_init P m w = Some it" "iter_all P it w = Some recs" by (auto simp: get_all_def bind_eq_Some_conv)
  have ok: "recs_ok djb_hash recs" using R db_mappedD(3) by (auto simp: reading_def)
  have "length ([] :: bytes) + length (fmt_db recs) < SSIZE_MAX" using recs_ok_text [OF ok] by (simp add: SSIZE_MAX_def)
  from dump_loop_all [OF nine it(2) _ dump_empty_ok out this] recs_ok_text [OF ok] obtain d' out' t' r' where
    L: "dump_loop P iov_max it w dump_empty out = Some (True, d', out')" "ou_bytes out' @ t' @ [10] = ou_bytes out @ fmt_db recs"
    "dump_ok iov_max d' t' r'" "ou_all out'" "length t' < SSIZE_MAX" by auto
  have "du_iov d' = [] \<or> last (du_iov d') \<noteq> []" "length (du_iov d') \<le> iov_max" "length (concat (du_iov d')) \<le> SSIZE_MAX"
    using L(3,5) by (auto simp: dump_ok_def)
  from writev_loop_all [OF L(4) this, of "int (du_iovlen d')"] obtain out2 where
    W: "writev_loop iov_max (du_iov d') (int (du_iovlen d')) out' = Some (True, out2)" "ou_all out2" "ou_bytes out2 = ou_bytes out' @ t'"
    using L(3) by (auto simp: dump_ok_def)
  obtain out3 where F: "sys_writev 1 [[10]] out2 = (Some 1, out3)" "ou_bytes out3 = ou_bytes out2 @ [10]"
    using W(2) by (auto simp: sys_writev_def Let_def ou_all_def SSIZE_MAX_def)
  show ?thesis using it(1) L(1,2) W(1,3) F by (simp add: mcdbctl_dump_def)
qed

subsection \<open>The size that is counted\<close>

text \<open>The code does not count the digits of the two lengths in the size it expects to be written.\<close>

lemma dump_rec_first:
  assumes it: "iter_at it w k v" and nine: "9 \<le> iov_max"
  shows "\<exists>d. dump_rec iov_max it w dump_empty out = Some (True, d, out) \<and> concat (du_iov d) = fmt_rec (k, v) \<and>
    du_iovlen d = length k + length v + 6 \<and> length (du_iov d) = 9 \<and> du_iov d \<noteq> []"
proof -
  obtain d2 where d2: "dump_head iov_max it w dump_empty = Some d2" "length (du_iov d2) = 7"
    "concat (du_iov d2) = [43] @ dec_digits (length k) @ [44] @ dec_digits (length v) @ [58] @ k @ [45, 62]"
    "du_iovlen d2 = length k + 5"
    using dump_head_all [OF it, of dump_empty 0 iov_max] nine by (auto simp: dump_empty_def)
  define d4 where "d4 = d2\<lparr>du_iov := du_iov d2 @ [v, [10]], du_iovlen := du_iovlen d2 + length v + 1\<rparr>"
  have iv: "mcdb_iter_data it w = Some v" "unat (it_dlen it) = length v" "unat (it_klen it) = length k" "length k \<le> INT_MAX" "length v \<le> INT_MAX"
    using it by (simp_all add: iter_at_def)
  have "dump_tail iov_max it w d2 = Some d4" using iv d2(2) nine by (simp add: dump_tail_def dump_iov_def d4_def)
  moreover have "dump_flush iov_max dump_empty out = Some (True, dump_empty, out)"
    by (simp add: dump_flush_def dump_empty_def writev_loop.simps)
  ultimately have "dump_rec iov_max it w dump_empty out = Some (True, d4, out)"
    using d2(1,4) iv by (simp add: dump_rec_def dump_empty_def INT_MAX_def SSIZE_MAX_def)
  then show ?thesis using d2(2-4) by (intro exI [of _ d4]) (simp add: d4_def fmt_rec_def)
qed

lemma dump_loop_one:
  assumes "iter_all P it w = Some [(k, v)]" "fits (k, v)" "9 \<le> iov_max"
  shows "\<exists>d. dump_loop P iov_max it w dump_empty out = Some (True, d, out) \<and> concat (du_iov d) = fmt_rec (k, v) \<and>
    du_iovlen d = length k + length v + 6 \<and> length (du_iov d) = 9 \<and> du_iov d \<noteq> []"
proof -
  obtain it1 where s: "mcdb_iter_step P it w = Some (True, it1)" "iter_at it1 w k v" "iter_all P it1 w = Some []"
    using iter_all_step [OF assms(1)] assms(2) by auto
  obtain it2 where "mcdb_iter_step P it1 w = Some (False, it2)" using iter_all_step [OF s(3)] by auto
  then have e: "dump_loop P iov_max it1 w d out = Some (True, d, out)" for d by (subst dump_loop.simps) simp
  obtain d where d: "dump_rec iov_max it1 w dump_empty out = Some (True, d, out)" "concat (du_iov d) = fmt_rec (k, v)"
    "du_iovlen d = length k + length v + 6" "length (du_iov d) = 9" "du_iov d \<noteq> []"
    using dump_rec_first [OF s(2) assms(3)] by blast
  have "dump_loop P iov_max it w dump_empty out = Some (True, d, out)" using s(1) d(1) e by (subst dump_loop.simps) simp
  then show ?thesis using d(2-5) by blast
qed

subsection \<open>The values of a key\<close>

lemma put_value_all:
  assumes out: "ou_all out" and v: "mcdb_data m w = Some v" "length v < SSIZE_MAX" and two: "2 \<le> iov_max"
  shows "\<exists>out'. put_value iov_max m w out = Some (True, out') \<and> ou_all out' \<and> ou_bytes out' = ou_bytes out @ v @ [10]"
  using writev_loop_all [OF out, of "[v, [10]]" iov_max "int (length v + 1)"] v two by (auto simp: put_value_def)

lemma data_length: "mcdb_data m w = Some v \<Longrightarrow> length v < SSIZE_MAX"
  using unat_u32_less [of "m_dlen m"]
  by (auto simp: mcdb_data_def map_load_def bind_eq_Some_conv SSIZE_MAX_def split: option.splits if_splits)

lemma find_all_next:
  assumes "find_all P m key tagc w = Some vs"
  shows "\<exists>m1. case vs of [] \<Rightarrow> mcdb_findtagnext P m key tagc w = Some (False, m1)
    | v # vs' \<Rightarrow> mcdb_findtagnext P m key tagc w = Some (True, m1) \<and> mcdb_data m1 w = Some v \<and> find_all P m1 key tagc w = Some vs'"
  using assms by (subst (asm) find_all.simps) (auto simp: bind_eq_Some_conv split: if_splits)

definition lines :: "bytes list \<Rightarrow> bytes" where
  "lines vs = concat (map (\<lambda>v. v @ [10]) vs)"

lemma getall_loop_all:
  assumes two: "2 \<le> iov_max"
  shows "find_all P m key 0 w = Some vs \<Longrightarrow> mcdb_data m w = Some v \<Longrightarrow> ou_all out \<Longrightarrow>
    \<exists>out'. getall_loop P iov_max m key w out = Some (0, out') \<and> ou_bytes out' = ou_bytes out @ lines (v # vs)"
proof (induction vs arbitrary: m v out)
  case Nil
  obtain out1 where o: "put_value iov_max m w out = Some (True, out1)" "ou_bytes out1 = ou_bytes out @ v @ [10]"
    using put_value_all [OF Nil(3,2) data_length [OF Nil(2)] two] by blast
  obtain m1 where "mcdb_findtagnext P m key 0 w = Some (False, m1)" using find_all_next [OF Nil(1)] by auto
  then show ?case using o by (subst getall_loop.simps) (simp add: lines_def)
next
  case (Cons u vs)
  obtain out1 where o: "put_value iov_max m w out = Some (True, out1)" "ou_all out1" "ou_bytes out1 = ou_bytes out @ v @ [10]"
    using put_value_all [OF Cons.prems(3,2) data_length [OF Cons.prems(2)] two] by blast
  obtain m1 where m1: "mcdb_findtagnext P m key 0 w = Some (True, m1)" "mcdb_data m1 w = Some u" "find_all P m1 key 0 w = Some vs"
    using find_all_next [OF Cons.prems(1)] by auto
  from Cons.IH [OF m1(3,2) o(2)] obtain out2 where "getall_loop P iov_max m1 key w out1 = Some (0, out2)"
    "ou_bytes out2 = ou_bytes out1 @ lines (u # vs)" by blast
  then show ?case using o m1(1) by (subst getall_loop.simps) (simp add: lines_def)
qed

lemma seq_pred: "(seq :: u64) \<noteq> 0 \<Longrightarrow> unat (seq - 1) = unat seq - 1"
  by (simp add: unat_minus_one)

lemma getseq_loop_all:
  "find_all P m key 0 w = Some vs \<Longrightarrow>
    \<exists>m1. getseq_loop P m key seq w = Some (unat seq < length vs, m1) \<and> (unat seq < length vs \<longrightarrow> mcdb_data m1 w = Some (vs ! unat seq))"
proof (induction vs arbitrary: m seq)
  case Nil
  obtain m1 where "mcdb_findtagnext P m key 0 w = Some (False, m1)" using find_all_next [OF Nil] by auto
  then show ?case by (subst getseq_loop.simps) simp
next
  case (Cons u vs)
  obtain m1 where m1: "mcdb_findtagnext P m key 0 w = Some (True, m1)" "mcdb_data m1 w = Some u" "find_all P m1 key 0 w = Some vs"
    using find_all_next [OF Cons.prems] by auto
  show ?case
  proof (cases "seq = 0")
    case True
    then show ?thesis using m1 by (subst getseq_loop.simps) simp
  next
    case False
    then have "unat seq \<noteq> 0" by (simp add: unat_eq_0)
    then obtain n where n: "unat seq = Suc n" by (cases "unat seq") auto
    from Cons.IH [OF m1(3), of "seq - 1"] obtain m2 where m2: "getseq_loop P m1 key (seq - 1) w = Some (n < length vs, m2)"
      "n < length vs \<longrightarrow> mcdb_data m2 w = Some (vs ! n)" using seq_pred [OF False] n by auto
    have "getseq_loop P m key seq w = getseq_loop P m1 key (seq - 1) w" using m1(1) False by (subst getseq_loop.simps) simp
    then show ?thesis using m2 n by simp
  qed
qed

lemma get_values_start:
  assumes P: "plasma_bigendian P" and R: "reading recs m w mm"
  obtains b m1 where "mcdb_findtagstart P m key 0 w = Some (b, m1, w)" "\<not> b \<Longrightarrow> get_values P m key 0 w = Some []"
    "b \<Longrightarrow> get_values P m key 0 w = find_all P m1 key 0 w"
proof -
  obtain b m1 where s: "mcdb_findtagstart P m key 0 w = Some (b, m1, w)"
    using findtagstart_props [OF P R, of key 0] by (auto split: if_splits)
  show ?thesis by (rule that [OF s]) (simp_all add: get_values_def s)
qed

subsection \<open>Properties\<close>

text \<open>C23: when standard output takes whole writes, \<^verbatim>\<open>mcdbctl dump\<close> of a database returns 0 and
  writes exactly the text format of its records, for every limit on vectors from 9 on: the array of
  vectors and the buffer for numbers are never overrun.\<close>

theorem dump_prints:
  assumes "plasma_bigendian P" "reading recs m w mm" "9 \<le> iov_max" "ou_all out"
  shows "\<exists>out'. mcdbctl_dump P iov_max m w out = Some (0, out') \<and> ou_bytes out' = ou_bytes out @ fmt_db recs"
  by (rule dump_all [OF assms])

definition ex_outs :: outs where
  "ex_outs = \<lparr>ou_bytes = [], ou_count = (\<lambda>_. SSIZE_MAX), ou_fail = (\<lambda>_. 0), ou_step = 0, ou_errno = 0\<rparr>"

lemma ex_outs_all: "ou_all ex_outs" "ou_bytes ex_outs = []"
  by (simp_all add: ou_all_def ex_outs_def)

lemma ex_text_of_recs: "fmt_db ex_recs = [43, 49, 44, 49, 58, 107, 45, 62, 118, 10, 43, 49, 44, 49, 58, 107, 45, 62, 119, 10,
    43, 48, 44, 48, 58, 45, 62, 10, 10]"
  by (simp add: fmt_db_def fmt_rec_def ex_recs_def dec_digits.simps)

theorem dump_prints_witness:
  "\<exists>mm out'. mcdbctl_dump plasma_ref 16 (ex_query 0) (ex_rd mm) ex_outs = Some (0, out') \<and>
     ou_bytes out' = [43, 49, 44, 49, 58, 107, 45, 62, 118, 10, 43, 49, 44, 49, 58, 107, 45, 62, 119, 10, 43, 48, 44, 48, 58, 45, 62, 10, 10]"
proof -
  obtain mm where "reading ex_recs (ex_query 0) (ex_rd mm) mm" using ex_reading by blast
  from dump_prints [OF plasma_ref_bigendian this _ ex_outs_all(1), of 16] show ?thesis
    by (auto simp: ex_outs_all(2) ex_text_of_recs)
qed



text \<open>C24: a short write loses output: when the first \<^verbatim>\<open>writev()\<close> of the dump of a one-record database
  transfers exactly the number of bytes the code has counted, which leaves out the digits of the two
  lengths, the rest of the record is never written and the dump still returns 0.\<close>

theorem dump_short_write_truncates:
  assumes "plasma_bigendian P" "reading [(k, v)] m w mm" "9 \<le> iov_max" "\<forall>i. ou_fail out i = 0"
    and "ou_count out (ou_step out) = length k + length v + 6"
  shows "\<exists>out'. mcdbctl_dump P iov_max m w out = Some (0, out') \<and>
    ou_bytes out' = ou_bytes out @ take (length k + length v + 6) (fmt_rec (k, v)) @ [10] \<and>
    ou_bytes out' \<noteq> ou_bytes out @ fmt_db [(k, v)]"
proof -
  have "get_all P m w = Some [(k, v)]" using iteration_complete [OF assms(1,2)] .
  then obtain it where it: "mcdb_iter_init P m w = Some it" "iter_all P it w = Some [(k, v)]" by (auto simp: get_all_def bind_eq_Some_conv)
  have ok: "recs_ok djb_hash [(k, v)]" using assms(2) db_mappedD(3) by (auto simp: reading_def)
  then have f: "fits (k, v)" by (simp add: recs_ok_def fits_def)
  obtain d where d: "dump_loop P iov_max it w dump_empty out = Some (True, d, out)" "concat (du_iov d) = fmt_rec (k, v)"
    "du_iovlen d = length k + length v + 6" "length (du_iov d) = 9" "du_iov d \<noteq> []"
    using dump_loop_one [OF it(2) f assms(3)] by blast
  have l: "length k + length v + 8 \<le> length (fmt_rec (k, v))"
  proof -
    have "1 \<le> length (dec_digits (length k))" "1 \<le> length (dec_digits (length v))" by (simp_all add: Suc_le_eq)
    then show ?thesis by (simp add: fmt_rec_def)
  qed
  have big: "length (fmt_rec (k, v)) \<le> SSIZE_MAX" using recs_ok_text [OF ok] by (simp add: fmt_db_def SSIZE_MAX_def)
  define out1 where "out1 = out\<lparr>ou_step := Suc (ou_step out), ou_bytes := ou_bytes out @ take (length k + length v + 6) (fmt_rec (k, v))\<rparr>"
  have "sys_writev iov_max (du_iov d) out = (Some (length k + length v + 6), out1)"
    using assms(3-5) d(2,4) l big by (simp add: sys_writev_def Let_def out1_def)
  then have "writev_loop iov_max (du_iov d) (int (du_iovlen d)) out = Some (True, out1)"
    using d(3,5) by (subst writev_loop.simps) simp
  moreover obtain out2 where "sys_writev 1 [[10]] out1 = (Some 1, out2)" "ou_bytes out2 = ou_bytes out1 @ [10]"
    using assms(4) by (auto simp: sys_writev_def Let_def out1_def SSIZE_MAX_def)
  ultimately have run: "mcdbctl_dump P iov_max m w out = Some (0, out2)" "ou_bytes out2 = ou_bytes out1 @ [10]"
    using it(1) d(1) by (simp_all add: mcdbctl_dump_def)
  have "length (ou_bytes out2) < length (ou_bytes out @ fmt_db [(k, v)])"
    using run(2) l by (simp add: out1_def fmt_db_def)
  then have "ou_bytes out2 \<noteq> ou_bytes out @ fmt_db [(k, v)]" by (metis less_irrefl)
  then show ?thesis using run by (intro exI [of _ out2]) (simp add: out1_def)
qed

theorem dump_short_write_truncates_witness:
  "\<exists>mm out'. reading [([107], [118])] (ex_query 0) (ex_rd mm) mm \<and>
     mcdbctl_dump plasma_ref 16 (ex_query 0) (ex_rd mm) (ex_outs\<lparr>ou_count := (\<lambda>_. 8)\<rparr>) = Some (0, out') \<and>
     ou_bytes out' = [43, 49, 44, 49, 58, 107, 45, 62, 10]"
proof -
  obtain mm where R: "reading [([107], [118])] (ex_query 0) (ex_rd mm) mm" using small_reading [of "[([107], [118])]"]
    by (auto simp: data_bytes_def rec_len_def INT_MAX_def)
  have "fmt_rec ([107], [118]) = [43, 49, 44, 49, 58, 107, 45, 62, 118, 10]" by (simp add: fmt_rec_def dec_digits.simps)
  with dump_short_write_truncates [OF plasma_ref_bigendian R, of 16 "ex_outs\<lparr>ou_count := (\<lambda>_. 8)\<rparr>"] R show ?thesis
    by (auto simp: ex_outs_def)
qed

text \<open>C25: \<^verbatim>\<open>mcdbctl get\<close> with \<^verbatim>\<open>all\<close> prints every value of the key, each on a line, in the order in
  which lookup finds them, and fails with 1 exactly when the key has none.\<close>

theorem getall_prints:
  assumes "plasma_bigendian P" "reading recs m w mm" "2 \<le> iov_max" "ou_all out"
  shows "\<exists>vs out'. get_values P m key 0 w = Some vs \<and> mset vs = mset (map snd (filter (\<lambda>r. fst r = key) recs)) \<and>
    mcdbctl_getall P iov_max m key w out = Some (if vs = [] then 1 else 0, w, out') \<and> ou_bytes out' = ou_bytes out @ lines vs"
proof -
  obtain vs where vs: "get_values P m key 0 w = Some vs" "mset vs = mset (map snd (filter (\<lambda>r. fst r = key) recs))"
    using get_values_eq [OF assms(1,2), of key 0] db_values_mset [of djb_hash recs key] by (auto simp: full_key_def)
  obtain b m1 where s: "mcdb_findtagstart P m key 0 w = Some (b, m1, w)" "\<not> b \<Longrightarrow> get_values P m key 0 w = Some []"
    "b \<Longrightarrow> get_values P m key 0 w = find_all P m1 key 0 w" by (rule get_values_start [OF assms(1,2), of key]) (rule that)
  have "\<exists>out'. mcdbctl_getall P iov_max m key w out = Some (if vs = [] then 1 else 0, w, out') \<and> ou_bytes out' = ou_bytes out @ lines vs"
  proof (cases b)
    case False
    then show ?thesis using s vs by (simp add: mcdbctl_getall_def mcdb_find_def lines_def)
  next
    case True
    then have f: "find_all P m1 key 0 w = Some vs" using s(3) vs(1) by simp
    show ?thesis
    proof (cases vs)
      case Nil
      then obtain m2 where "mcdb_findtagnext P m1 key 0 w = Some (False, m2)" using find_all_next [OF f] by auto
      then show ?thesis using True s(1) Nil by (simp add: mcdbctl_getall_def mcdb_find_def lines_def)
    next
      case (Cons u us)
      then obtain m2 where m2: "mcdb_findtagnext P m1 key 0 w = Some (True, m2)" "mcdb_data m2 w = Some u" "find_all P m2 key 0 w = Some us"
        using find_all_next [OF f] by auto
      from getall_loop_all [OF assms(3) m2(3,2) assms(4)] obtain out' where
        "getall_loop P iov_max m2 key w out = Some (0, out')" "ou_bytes out' = ou_bytes out @ lines (u # us)" by blast
      then show ?thesis using True s(1) m2(1) Cons by (simp add: mcdbctl_getall_def mcdb_find_def)
    qed
  qed
  with vs show ?thesis by blast
qed

theorem getall_prints_witness:
  "\<exists>mm out'. mcdbctl_getall plasma_ref 16 (ex_query 0) [107] (ex_rd mm) ex_outs = Some (0, ex_rd mm, out')"
proof -
  obtain mm where "reading ex_recs (ex_query 0) (ex_rd mm) mm" using ex_reading by blast
  from getall_prints [OF plasma_ref_bigendian this _ ex_outs_all(1), of 16 "[107]"] obtain vs out' where
    g: "mset vs = mset (map snd (filter (\<lambda>r. fst r = [107]) ex_recs))"
    "mcdbctl_getall plasma_ref 16 (ex_query 0) [107] (ex_rd mm) ex_outs = Some (if vs = [] then 1 else 0, ex_rd mm, out')" by auto
  have "vs \<noteq> []" using g(1) by (auto simp: ex_recs_def)
  with g(2) show ?thesis by auto
qed

text \<open>Values by number: \<^verbatim>\<open>mcdbctl get\<close> with a sequence number prints that value of the key, counted from 0 in
  the order of lookup, and fails with 1, printing nothing, when there are not that many.\<close>

theorem getseq_prints:
  assumes "plasma_bigendian P" "reading recs m w mm" "2 \<le> iov_max" "ou_all out"
  shows "\<exists>vs out'. get_values P m key 0 w = Some vs \<and>
    mcdbctl_getseq P iov_max m key seq w out = Some (if unat seq < length vs then 0 else 1, w, out') \<and>
    ou_bytes out' = ou_bytes out @ (if unat seq < length vs then vs ! unat seq @ [10] else [])"
proof -
  obtain vs where vs: "get_values P m key 0 w = Some vs" using get_values_eq [OF assms(1,2)] by blast
  obtain b m1 where s: "mcdb_findtagstart P m key 0 w = Some (b, m1, w)" "\<not> b \<Longrightarrow> get_values P m key 0 w = Some []"
    "b \<Longrightarrow> get_values P m key 0 w = find_all P m1 key 0 w" by (rule get_values_start [OF assms(1,2), of key]) (rule that)
  show ?thesis
  proof (cases b)
    case False
    then show ?thesis using s vs by (simp add: mcdbctl_getseq_def)
  next
    case True
    then have "find_all P m1 key 0 w = Some vs" using s(3) vs(1) by simp
    from getseq_loop_all [OF this, of seq] obtain m2 where
      m2: "getseq_loop P m1 key seq w = Some (unat seq < length vs, m2)" "unat seq < length vs \<longrightarrow> mcdb_data m2 w = Some (vs ! unat seq)" by blast
    show ?thesis
    proof (cases "unat seq < length vs")
      case False
      then show ?thesis using True s(1) m2(1) vs by (simp add: mcdbctl_getseq_def)
    next
      case t: True
      then have d: "mcdb_data m2 w = Some (vs ! unat seq)" using m2(2) by simp
      from put_value_all [OF assms(4) d data_length [OF d] assms(3)] t True s(1) m2(1) vs show ?thesis
        by (auto simp: mcdbctl_getseq_def)
    qed
  qed
qed

theorem getseq_prints_witness:
  "\<exists>mm out'. mcdbctl_getseq plasma_ref 16 (ex_query 0) [107] 2 (ex_rd mm) ex_outs = Some (1, ex_rd mm, out') \<and> ou_bytes out' = []"
proof -
  obtain mm where R: "reading ex_recs (ex_query 0) (ex_rd mm) mm" using ex_reading by blast
  from getseq_prints [OF plasma_ref_bigendian R _ ex_outs_all(1), of 16 "[107]" 2] obtain vs out' where
    g: "get_values plasma_ref (ex_query 0) [107] 0 (ex_rd mm) = Some vs"
    "mcdbctl_getseq plasma_ref 16 (ex_query 0) [107] 2 (ex_rd mm) ex_outs = Some (if 2 < length vs then 0 else 1, ex_rd mm, out')"
    "ou_bytes out' = ou_bytes ex_outs @ (if 2 < length vs then vs ! 2 @ [10] else [])" by auto
  have "length vs = 2"
    using g(1) get_values_eq [OF plasma_ref_bigendian R, of "[107]" 0] arg_cong [OF db_values_mset [of djb_hash ex_recs "[107]"], of size]
    by (simp add: full_key_def ex_recs_def)
  with g(2,3) show ?thesis by (auto simp: ex_outs_all)
qed

end
