(* ===== verification/Makefn_Proofs.thy ===== *)
theory Makefn_Proofs
  imports Mcdb_Makefn Makefmt_Proofs
begin

text \<open>
  Replacing a database by name: whatever fails, the name refers to its old file, untouched, or
  to a complete new database with the permissions of the old one.
\<close>

subsection \<open>The calls\<close>

text \<open>Everything but the names, the modes and the descriptors.\<close>

definition kept :: "fs \<Rightarrow> fs \<Rightarrow> bool" where
  "kept w w' \<longleftrightarrow> os_same (fs_os w) (fs_os w') \<and> o_file (fs_os w') = o_file (fs_os w) \<and> o_flen (fs_os w') = o_flen (fs_os w) \<and>
     o_live (fs_os w') = o_live (fs_os w) \<and> fs_data w' = fs_data w \<and> fs_reg w' = fs_reg w \<and> fs_out w' = fs_out w \<and>
     fs_fresh w' = fs_fresh w \<and> fs_suffix w' = fs_suffix w \<and> fs_close_keeps w' = fs_close_keeps w"

lemma kept_refl [simp]: "kept w w"
  by (simp add: kept_def os_same_def)

lemma kept_trans: "kept w w1 \<Longrightarrow> kept w1 w2 \<Longrightarrow> kept w w2"
  by (simp add: kept_def os_same_def)

lemma kept_content: "kept w w' \<Longrightarrow> fs_content w' i = fs_content w i"
  by (simp add: kept_def fs_content_def)

lemma kept_willing: "kept w w' \<Longrightarrow> os_willing (fs_os w') = os_willing (fs_os w)"
  by (simp add: kept_def os_willing_same)

definition names_kept :: "fs \<Rightarrow> fs \<Rightarrow> bool" where
  "names_kept w w' \<longleftrightarrow> fs_dir w' = fs_dir w \<and> fs_mode w' = fs_mode w \<and> fs_fds w' = fs_fds w"

lemma names_kept_refl [simp]: "names_kept w w"
  by (simp add: names_kept_def)

lemma error_kept [simp]: "kept w (fs_error e w)" "names_kept w (fs_error e w)"
  by (simp_all add: kept_def names_kept_def fs_error_def os_same_def)

lemma call_kept:
  assumes "fs_call w = (ok, w')"
  shows "kept w w'" "names_kept w w'" "os_willing (fs_os w) \<Longrightarrow> ok"
  using assms by (auto simp: fs_call_def kept_def names_kept_def ext_call_def Let_def os_same_def os_willing_def split: if_splits)

lemma stat_kept:
  assumes "fs_stat name w = (r, w')"
  shows "kept w w'" "names_kept w w'" "r \<noteq> None \<Longrightarrow> fs_dir w name = r"
    "os_willing (fs_os w) \<Longrightarrow> r = fs_dir w name \<and> (r = None \<longrightarrow> o_errno (fs_os w') = ENOENT)"
proof -
  obtain ok w1 where c: "fs_call w = (ok, w1)" by fastforce
  note C = call_kept [OF c]
  show "kept w w'" "names_kept w w'" "r \<noteq> None \<Longrightarrow> fs_dir w name = r"
    "os_willing (fs_os w) \<Longrightarrow> r = fs_dir w name \<and> (r = None \<longrightarrow> o_errno (fs_os w') = ENOENT)"
    using assms C by (auto simp: fs_stat_def c names_kept_def fs_error_def kept_def os_same_def split: if_splits option.splits)
qed

lemma fchmod_kept:
  assumes "fs_fchmod fd mode w = (ok, w')" "map_of (fs_fds w) fd = Some i"
  shows "kept w w'" "fs_dir w' = fs_dir w" "fs_fds w' = fs_fds w" "fs_mode w' = (if ok then (fs_mode w)(i := mode) else fs_mode w)"
    "os_willing (fs_os w) \<Longrightarrow> ok"
proof -
  obtain ok1 w1 where c: "fs_call w = (ok1, w1)" by fastforce
  note C = call_kept [OF c]
  show "kept w w'" "fs_dir w' = fs_dir w" "fs_fds w' = fs_fds w" "fs_mode w' = (if ok then (fs_mode w)(i := mode) else fs_mode w)"
    "os_willing (fs_os w) \<Longrightarrow> ok"
    using assms C by (auto simp: fs_fchmod_def c names_kept_def kept_def split: if_splits option.splits)
qed

lemma close_kept:
  assumes "fs_close fd w = (ok, w')"
  shows "kept w w'" "fs_dir w' = fs_dir w" "fs_mode w' = fs_mode w"
    "fs_fds w' = fs_fds w \<or> fs_fds w' = filter (\<lambda>p. fst p \<noteq> fd) (fs_fds w)"
    "ok \<Longrightarrow> fs_fds w' = filter (\<lambda>p. fst p \<noteq> fd) (fs_fds w)"
    "os_willing (fs_os w) \<Longrightarrow> map_of (fs_fds w) fd \<noteq> None \<Longrightarrow> ok"
proof -
  obtain ok1 w1 where c: "fs_call w = (ok1, w1)" by fastforce
  note C = call_kept [OF c]
  show "kept w w'" "fs_dir w' = fs_dir w" "fs_mode w' = fs_mode w"
    "fs_fds w' = fs_fds w \<or> fs_fds w' = filter (\<lambda>p. fst p \<noteq> fd) (fs_fds w)"
    "ok \<Longrightarrow> fs_fds w' = filter (\<lambda>p. fst p \<noteq> fd) (fs_fds w)"
    "os_willing (fs_os w) \<Longrightarrow> map_of (fs_fds w) fd \<noteq> None \<Longrightarrow> ok"
    using assms C error_kept [of w EBADF] by (auto simp: fs_close_def c names_kept_def kept_def split: if_splits option.splits)
qed

lemma rename_kept:
  assumes "fs_rename a b w = (ok, w')" "fs_dir w a = Some i"
  shows "kept w w'" "fs_mode w' = fs_mode w" "fs_fds w' = fs_fds w"
    "fs_dir w' = (if ok then (fs_dir w)(a := None, b \<mapsto> i) else fs_dir w)" "os_willing (fs_os w) \<Longrightarrow> ok"
proof -
  obtain ok1 w1 where c: "fs_call w = (ok1, w1)" by fastforce
  note C = call_kept [OF c]
  show "kept w w'" "fs_mode w' = fs_mode w" "fs_fds w' = fs_fds w"
    "fs_dir w' = (if ok then (fs_dir w)(a := None, b \<mapsto> i) else fs_dir w)" "os_willing (fs_os w) \<Longrightarrow> ok"
    using assms C by (auto simp: fs_rename_def c names_kept_def kept_def split: if_splits option.splits)
qed

lemma unlink_kept:
  assumes "fs_unlink a w = (ok, w')" "fs_dir w a = Some i"
  shows "kept w w'" "fs_mode w' = fs_mode w" "fs_fds w' = fs_fds w"
    "fs_dir w' = (if ok then (fs_dir w)(a := None) else fs_dir w)" "os_willing (fs_os w) \<Longrightarrow> ok"
proof -
  obtain ok1 w1 where c: "fs_call w = (ok1, w1)" by fastforce
  note C = call_kept [OF c]
  show "kept w w'" "fs_mode w' = fs_mode w" "fs_fds w' = fs_fds w"
    "fs_dir w' = (if ok then (fs_dir w)(a := None) else fs_dir w)" "os_willing (fs_os w) \<Longrightarrow> ok"
    using assms C by (auto simp: fs_unlink_def c names_kept_def kept_def split: if_splits option.splits)
qed

lemma free_fd_fresh: "0 \<le> free_fd fds \<and> free_fd fds \<notin> fst ` set fds"
proof -
  have ne: "\<exists>n \<in> int ` {0..<Suc (length fds)}. n \<notin> fst ` set fds"
  proof (rule ccontr)
    assume "\<not> ?thesis"
    then have "int ` {0..<Suc (length fds)} \<subseteq> fst ` set fds" by blast
    then have "card (int ` {0..<Suc (length fds)}) \<le> card (fst ` set fds)" by (rule card_mono [rotated]) simp
    also have "\<dots> \<le> length fds" by (rule order_trans [OF card_image_le]) (simp_all add: card_length)
    finally show False by (simp add: card_image)
  qed
  from ne have "filter (\<lambda>n. n \<notin> fst ` set fds) (map int [0..<Suc (length fds)]) \<noteq> []"
    by (simp only: filter_empty_conv set_map set_upt) blast
  from hd_in_set [OF this] show ?thesis
    by (simp only: free_fd_def set_filter set_map mem_Collect_eq) (elim conjE imageE, simp only: of_nat_0_le_iff simp_thms)
qed

subsection \<open>Start\<close>

definition tmp_name :: "bytes \<Rightarrow> fs \<Rightarrow> bytes" where
  "tmp_name fname w = fname @ [46] @ fs_suffix w"

text \<open>What a caller and \<^verbatim>\<open>mkstemp()\<close> provide.\<close>

definition named :: "bytes \<Rightarrow> fs \<Rightarrow> bool" where
  "named fname w \<longleftrightarrow> 0 \<notin> set fname \<and> length (fs_suffix w) = 6 \<and> 0 \<notin> set (fs_suffix w) \<and> fs_out w < fs_fresh w"

lemma c_str_zero: "0 \<notin> set s \<Longrightarrow> c_str (s @ 0 # t) = s"
  by (induction s) (auto simp: c_str_def)

lemma c_str_takeWhile: "0 \<notin> set s \<Longrightarrow> c_str (s @ t) = s @ c_str t"
  by (induction s) (auto simp: c_str_def)

text \<open>The state after a successful start, relative to the state before.\<close>

definition started :: "bytes \<Rightarrow> fs \<Rightarrow> mcdb_makefn \<Rightarrow> fs \<Rightarrow> bool" where
  "started fname w m w' \<longleftrightarrow> (\<exists>blk bs. mf_fntmp m = Some (blk, bs) \<and> o_live (fs_os w') = blk # o_live (fs_os w)) \<and>
     mf_tmp_name m = tmp_name fname w \<and> mf_new_name m = fname \<and> 0 \<le> mf_fd m \<and> mf_fd m \<notin> fst ` set (fs_fds w) \<and>
     os_same (fs_os w) (fs_os w') \<and> fs_out w' = fs_fresh w \<and> fs_fresh w' = Suc (fs_fresh w) \<and>
     fs_dir w (tmp_name fname w) = None \<and> fs_dir w' = (fs_dir w)(tmp_name fname w \<mapsto> fs_fresh w) \<and>
     fs_mode w' = (fs_mode w)(fs_fresh w := 384) \<and> fs_fds w' = (mf_fd m, fs_fresh w) # fs_fds w \<and>
     (\<forall>i < fs_fresh w. fs_data w' i = fs_content w i)"

definition old_mode :: "bytes \<Rightarrow> fs \<Rightarrow> nat" where
  "old_mode fname w = (case fs_dir w fname of None \<Rightarrow> S_IRUSR | Some i \<Rightarrow> fs_mode w i)"

definition start_end :: "bytes \<Rightarrow> fs \<Rightarrow> int \<Rightarrow> mcdb_makefn \<Rightarrow> fs \<Rightarrow> bool" where
  "start_end fname w rc m w' \<longleftrightarrow> rc = 0 \<and> started fname w m w' \<and> (os_willing (fs_os w) \<longrightarrow> mf_st_mode m = old_mode fname w) \<or>
     rc = -1 \<and> mf_fd m = -1 \<and> mf_fntmp m = None \<and> kept w w' \<and> names_kept w w' \<and>
     (os_willing (fs_os w) \<longrightarrow> fs_dir w (tmp_name fname w) = None \<longrightarrow> (\<forall>i. fs_dir w fname = Some i \<longrightarrow> fs_reg w i) \<longrightarrow> False)"

lemma malloc_kept:
  assumes "fs_malloc w = (r, w')"
  shows "r = None \<Longrightarrow> kept w w'" "names_kept w w'" "os_willing (fs_os w) \<Longrightarrow> r \<noteq> None"
    "r = Some blk \<Longrightarrow> kept (w\<lparr>fs_os := (fs_os w)\<lparr>o_live := blk # o_live (fs_os w)\<rparr>\<rparr>) w'"
proof -
  obtain r1 o1 where ma: "os_malloc (fs_os w) = (r1, o1)" by fastforce
  note M = malloc_props [OF ma]
  show "r = None \<Longrightarrow> kept w w'" "names_kept w w'" "os_willing (fs_os w) \<Longrightarrow> r \<noteq> None"
    "r = Some blk \<Longrightarrow> kept (w\<lparr>fs_os := (fs_os w)\<lparr>o_live := blk # o_live (fs_os w)\<rparr>\<rparr>) w'"
    using assms M by (auto simp: fs_malloc_def ma kept_def names_kept_def os_same_def split: option.splits)
qed

lemma free_first:
  assumes "o_live (fs_os w) = blk # ls"
  shows "\<exists>w'. fs_free blk w = Some w' \<and> kept (w\<lparr>fs_os := (fs_os w)\<lparr>o_live := ls\<rparr>\<rparr>) w' \<and> names_kept w w'"
  using assms by (simp add: fs_free_def os_free_def kept_def names_kept_def os_same_def)

lemma makefn_create_props:
  assumes n: "named fname w"
  shows "\<exists>rc m' w'. makefn_create fname st m w = Some (rc, m', w') \<and>
    (rc = 0 \<and> started fname w m' w' \<and> mf_st_mode m' = st \<or>
     rc = -1 \<and> (mf_fd m = -1 \<longrightarrow> mf_fd m' = -1) \<and> mf_fntmp m' = mf_fntmp m \<and> kept w w' \<and> names_kept w w' \<and>
     (os_willing (fs_os w) \<longrightarrow> fs_dir w (tmp_name fname w) \<noteq> None))"
proof -
  obtain r w1 where ma: "fs_malloc w = (r, w1)" by fastforce
  note M = malloc_kept [OF ma]
  show ?thesis
  proof (cases r)
    case None
    then show ?thesis using ma M by (auto simp: makefn_create_def)
  next
    case (Some blk)
    note K = M(4) [OF Some] M(2)
    let ?tpl = "fname @ [46, 88, 88, 88, 88, 88, 88]" and ?name = "tmp_name fname w"
    let ?block = "fname @ [46, 88, 88, 88, 88, 88, 88, 0] @ fname @ [0]"
    have z: "0 \<notin> set fname" "length (fs_suffix w) = 6" "0 \<notin> set (fs_suffix w)" using n by (simp_all add: named_def)
    have tpl: "c_str ?block = ?tpl" using c_str_zero [of ?tpl "fname @ [0]"] z(1) by simp
    have name: "take (length ?tpl - 6) ?tpl @ fs_suffix w = ?name" by (simp add: tmp_name_def)
    obtain ok w2 where c: "fs_call w1 = (ok, w2)" by fastforce
    note C = call_kept [OF c]
    have sx: "fs_suffix w1 = fs_suffix w" using K by (simp add: kept_def)
    have ks: "fs_dir w2 = fs_dir w" "fs_fds w2 = fs_fds w" "fs_mode w2 = fs_mode w" using K(2) C(2) by (simp_all add: names_kept_def)
    have k2: "kept (w\<lparr>fs_os := (fs_os w)\<lparr>o_live := blk # o_live (fs_os w)\<rparr>\<rparr>) w2" using kept_trans [OF K(1) C(1)] .
    have will: "os_willing (fs_os w1) = os_willing (fs_os w)" using kept_willing [OF K(1)] by (simp add: os_willing_def)
    show ?thesis
    proof (cases "ok \<and> fs_dir w ?name = None")
      case False
      obtain w3 where w3: "fs_mkstemp ?tpl w1 = (-1, ?tpl, w3)" "kept w2 w3" "names_kept w2 w3"
      proof (rule that)
        show "fs_mkstemp ?tpl w1 = (-1, ?tpl, if ok then fs_error EEXIST w2 else w2)"
          using False c ks(1) sx by (auto simp: fs_mkstemp_def Let_def tmp_name_def)
      qed simp_all
      have live: "o_live (fs_os w3) = blk # o_live (fs_os w)" using k2 w3(2) by (simp add: kept_def)
      obtain w4 where w4: "fs_free blk w3 = Some w4" "kept (w3\<lparr>fs_os := (fs_os w3)\<lparr>o_live := o_live (fs_os w)\<rparr>\<rparr>) w4" "names_kept w3 w4"
        using free_first [OF live] by blast
      have "makefn_create fname st m w = Some (-1, m\<lparr>mf_st_mode := st, mf_fd := -1\<rparr>, w4)"
        using ma Some tpl w3(1) w4(1) by (simp add: makefn_create_def Let_def)
      moreover have "kept w w4" using k2 w3(2) w4(2) by (simp add: kept_def os_same_def)
      moreover have "names_kept w w4" using ks w3(3) w4(3) by (simp add: names_kept_def)
      ultimately show ?thesis using False C(3) will by auto
    next
      case True
      let ?fd = "free_fd (fs_fds w)"
      obtain w3 where w3: "fs_mkstemp ?tpl w1 = (?fd, ?name, w3)"
        "fs_data w3 = (fs_data w2)(fs_out w2 := fs_content w2 (fs_out w2))" "fs_out w3 = fs_fresh w2" "fs_fresh w3 = Suc (fs_fresh w2)"
        "fs_dir w3 = (fs_dir w2)(?name \<mapsto> fs_fresh w2)" "fs_mode w3 = (fs_mode w2)(fs_fresh w2 := 384)"
        "fs_fds w3 = (?fd, fs_fresh w2) # fs_fds w2" "fs_os w3 = (fs_os w2)\<lparr>o_file := (\<lambda>_. 0), o_flen := 0, o_off := 0\<rparr>"
        using True c ks(1,2) sx by (auto simp: fs_mkstemp_def Let_def fs_open_def fs_content_def tmp_name_def)
      have fd: "?fd \<noteq> -1" "0 \<le> ?fd" "?fd \<notin> fst ` set (fs_fds w)" using free_fd_fresh [of "fs_fds w"] by auto
      define m' where "m' = m\<lparr>mf_st_mode := st, mf_fd := ?fd, mf_fntmp := Some (blk, ?name @ drop (length ?name) ?block), mf_fname := length fname + 8\<rparr>"
      have run: "makefn_create fname st m w = Some (0, m', w3)"
        using ma Some tpl w3(1) fd(1) by (simp add: makefn_create_def Let_def m'_def)
      have b: "?name @ drop (length ?name) ?block = ?name @ 0 # (fname @ [0])" "drop (length fname + 8) (?name @ 0 # (fname @ [0])) = fname @ [0]"
        using z(2) by (simp_all add: tmp_name_def)
      have "0 \<notin> set ?name" using z by (simp add: tmp_name_def)
      then have names: "mf_tmp_name m' = ?name" "mf_new_name m' = fname"
        unfolding mf_tmp_name_def mf_new_name_def m'_def
        using c_str_zero [of ?name "fname @ [0]"] c_str_zero [of fname "[]"] z(1) b by simp_all
      have "started fname w m' w3"
        unfolding started_def using names fd True ks k2 w3(2-8)
        by (simp add: m'_def kept_def os_same_def fs_content_def)
      moreover have "mf_st_mode m' = st" by (simp add: m'_def)
      ultimately show ?thesis using run by blast
    qed
  qed
qed

lemma makefn_start_props:
  assumes n: "named fname w"
  shows "\<exists>rc m' w'. mcdb_makefn_start fname w = Some (rc, m', w') \<and> start_end fname w rc m' w'"
proof -
  let ?m = "\<lparr>mf_fntmp = None, mf_fname = 0, mf_st_mode = 0, mf_fd = -1\<rparr>"
  obtain r w1 where s: "fs_stat fname w = (r, w1)" by fastforce
  note S = stat_kept [OF s]
  have n1: "named fname w1" using n S(1) by (simp add: named_def kept_def)
  have t: "tmp_name fname w1 = tmp_name fname w" using S(1) by (simp add: tmp_name_def kept_def)
  have upto: "started fname w m w'" if "started fname w1 m w'" for m w'
    using that S(1,2) t unfolding started_def
    by (simp add: kept_content [OF S(1)]) (simp add: kept_def names_kept_def os_same_def)
  have create: "\<exists>rc m' w'. makefn_create fname st ?m w1 = Some (rc, m', w') \<and> start_end fname w rc m' w'"
    if st: "os_willing (fs_os w) \<Longrightarrow> st = old_mode fname w" for st
  proof -
    obtain rc m' w' where c: "makefn_create fname st ?m w1 = Some (rc, m', w')"
      "rc = 0 \<and> started fname w1 m' w' \<and> mf_st_mode m' = st \<or>
       rc = -1 \<and> (mf_fd ?m = -1 \<longrightarrow> mf_fd m' = -1) \<and> mf_fntmp m' = mf_fntmp ?m \<and> kept w1 w' \<and> names_kept w1 w' \<and>
       (os_willing (fs_os w1) \<longrightarrow> fs_dir w1 (tmp_name fname w1) \<noteq> None)"
      using makefn_create_props [OF n1, of st ?m] by blast
    have "start_end fname w rc m' w'" using c(2)
    proof (elim disjE conjE)
      assume "rc = 0" "started fname w1 m' w'" "mf_st_mode m' = st"
      then show ?thesis using upto st by (simp add: start_end_def)
    next
      assume a: "rc = -1" "mf_fd ?m = -1 \<longrightarrow> mf_fd m' = -1" "mf_fntmp m' = mf_fntmp ?m" "kept w1 w'" "names_kept w1 w'"
        "os_willing (fs_os w1) \<longrightarrow> fs_dir w1 (tmp_name fname w1) \<noteq> None"
      moreover have "kept w w'" "names_kept w w'" using kept_trans [OF S(1) a(4)] S(2) a(5) by (simp_all add: names_kept_def)
      ultimately show ?thesis using t kept_willing [OF S(1)] S(2) by (auto simp: start_end_def names_kept_def)
    qed
    with c(1) show ?thesis by blast
  qed
  have reg: "fs_reg w1 = fs_reg w" "fs_mode w1 = fs_mode w" using S(1,2) by (simp_all add: kept_def names_kept_def)
  show ?thesis
  proof (cases r)
    case None
    show ?thesis
    proof (cases "o_errno (fs_os w1) = ENOENT")
      case True
      have "os_willing (fs_os w) \<Longrightarrow> S_IRUSR = old_mode fname w" using S(4) None by (simp add: old_mode_def)
      from create [OF this] show ?thesis using s None True by (simp add: mcdb_makefn_start_def)
    next
      case False
      then have "\<not> os_willing (fs_os w)" using S(4) None by blast
      then show ?thesis using s None False S(1,2) by (simp add: mcdb_makefn_start_def start_end_def)
    qed
  next
    case (Some i)
    have d: "fs_dir w fname = Some i" using S(3) Some by simp
    show ?thesis
    proof (cases "fs_reg w1 i")
      case True
      have "fs_mode w1 i = old_mode fname w" using d reg by (simp add: old_mode_def)
      from create [OF this] show ?thesis using s Some True by (simp add: mcdb_makefn_start_def)
    next
      case False
      then have "\<not> (\<forall>i. fs_dir w fname = Some i \<longrightarrow> fs_reg w i)" using d reg by simp
      moreover have "kept w (fs_error EINVAL w1)" "names_kept w (fs_error EINVAL w1)"
        using kept_trans [OF S(1) error_kept(1)] S(2) error_kept(2) [of w1 EINVAL] by (simp_all add: names_kept_def)
      ultimately show ?thesis using s Some False by (simp add: mcdb_makefn_start_def start_end_def)
    qed
  qed
qed

subsection \<open>Finish and cleanup\<close>

lemma makefn_finish_props:
  assumes fd: "map_of (fs_fds w) (mf_fd m) = Some i" and tmp: "fs_dir w (mf_tmp_name m) = Some i" "0 \<le> mf_fd m"
    and fin: "mcdb_makefn_finish m True w = (rc, m', w')"
  shows "kept w w' \<and> mf_fntmp m' = mf_fntmp m \<and> (\<forall>j. j \<noteq> i \<longrightarrow> fs_mode w' j = fs_mode w j) \<and>
    (rc = 0 \<and> mf_fd m' = -1 \<and> fs_dir w' = (fs_dir w)(mf_tmp_name m := None, mf_new_name m \<mapsto> i) \<and> fs_mode w' i = mf_st_mode m \<and>
       fs_fds w' = filter (\<lambda>p. fst p \<noteq> mf_fd m) (fs_fds w) \<or>
     rc = -1 \<and> mf_fd m' \<noteq> -1 \<and> fs_dir w' = fs_dir w \<and> \<not> os_willing (fs_os w))"
proof -
  obtain ok1 w1 where c1: "fs_fchmod (mf_fd m) (mf_st_mode m) w = (ok1, w1)" by fastforce
  obtain ok2 w2 where c2: "fs_call w1 = (ok2, w2)" by fastforce
  obtain ok3 w3 where c3: "fs_close (mf_fd m) w2 = (ok3, w3)" by fastforce
  obtain ok4 w4 where c4: "fs_rename (mf_tmp_name m) (mf_new_name m) w3 = (ok4, w4)" by fastforce
  note K1 = fchmod_kept [OF c1 fd] and K2 = call_kept [OF c2] and K3 = close_kept [OF c3]
  have fd2: "map_of (fs_fds w2) (mf_fd m) = Some i" using K1(3) K2(2) fd by (simp add: names_kept_def)
  have "fs_dir w3 (mf_tmp_name m) = Some i" using K1(2) K2(2) K3(2) tmp by (simp add: names_kept_def)
  note K4 = rename_kept [OF c4 this]
  have k2: "kept w w2" using kept_trans [OF K1(1) K2(1)] .
  have k3: "kept w w3" using kept_trans [OF k2 K3(1)] .
  have k4: "kept w w4" using kept_trans [OF k3 K4(1)] .
  note wills = kept_willing [OF K1(1)] kept_willing [OF k2] kept_willing [OF k3]
  have names: "mf_tmp_name (m\<lparr>mf_fd := -2\<rparr>) = mf_tmp_name m" "mf_new_name (m\<lparr>mf_fd := -2\<rparr>) = mf_new_name m"
    by (simp_all add: mf_tmp_name_def mf_new_name_def split: option.split)
  have fin': "(rc, m', w') = (if \<not> ok1 then (-1, m, w1) else if \<not> ok2 then (-1, m, w2) else if \<not> ok3 then (-1, m, w3)
      else if ok4 then (0, m\<lparr>mf_fd := -1\<rparr>, w4) else (-1, m\<lparr>mf_fd := -2\<rparr>, w4))"
    using fin c1 c2 c3 c4 names by (auto simp: mcdb_makefn_finish_def Let_def)
  have d: "fs_dir w1 = fs_dir w" "fs_dir w2 = fs_dir w" "fs_dir w3 = fs_dir w" "fs_fds w2 = fs_fds w" "fs_mode w2 = fs_mode w1"
    "fs_mode w3 = fs_mode w1" "fs_mode w4 = fs_mode w1"
    using K1(2,3) K2(2) K3(2,3) K4(2) by (simp_all add: names_kept_def)
  consider (a) "\<not> ok1" | (b) "ok1" "\<not> ok2" | (c) "ok1" "ok2" "\<not> ok3" | (d) "ok1" "ok2" "ok3" "\<not> ok4" | (e) "ok1" "ok2" "ok3" "ok4"
    by blast
  then show ?thesis
  proof cases
    case a
    then show ?thesis using fin' K1 tmp(2) by auto
  next
    case b
    then show ?thesis using fin' K1(4) K2(3) k2 d tmp(2) wills by auto
  next
    case c
    then show ?thesis using fin' K1(4) K3(6) fd2 k3 d tmp(2) wills by auto
  next
    case d': d
    then show ?thesis using fin' K1(4) K4(4,5) k4 d tmp(2) wills by auto
  next
    case e
    then show ?thesis using fin' K1(4) K3(5) K4(3,4) k4 d by auto
  qed
qed

lemma free_kept:
  assumes "mset (o_live (fs_os w)) = add_mset blk base"
  shows "\<exists>w' ls. fs_free blk w = Some w' \<and> mset ls = base \<and> kept (w\<lparr>fs_os := (fs_os w)\<lparr>o_live := ls\<rparr>\<rparr>) w' \<and> names_kept w w'"
proof -
  have "blk \<in># mset (o_live (fs_os w))" using assms by simp
  then have "blk \<in> set (o_live (fs_os w))" by simp
  moreover have "mset (remove1 blk (o_live (fs_os w))) = base" using assms by simp
  ultimately show ?thesis by (simp add: fs_free_def os_free_def kept_def names_kept_def os_same_def)
qed

lemma makefn_cleanup_props:
  assumes blk: "mf_fntmp m = Some (blk, bs)" "mset (o_live (fs_os w)) = add_mset blk base"
    and tmp: "mf_fd m \<noteq> -1 \<Longrightarrow> fs_dir w (mf_tmp_name m) = Some i"
  shows "\<exists>m' w' ls. mcdb_makefn_cleanup m w = Some (m', w') \<and> mset ls = base \<and> kept (w\<lparr>fs_os := (fs_os w)\<lparr>o_live := ls\<rparr>\<rparr>) w' \<and>
    fs_mode w' = fs_mode w \<and>
    (if mf_fd m = -1 then fs_dir w' = fs_dir w \<and> fs_fds w' = fs_fds w
     else (fs_dir w' = fs_dir w \<or> fs_dir w' = (fs_dir w)(mf_tmp_name m := None)) \<and>
       (os_willing (fs_os w) \<and> map_of (fs_fds w) (mf_fd m) \<noteq> None \<and> 0 \<le> mf_fd m \<longrightarrow>
          fs_dir w' = (fs_dir w)(mf_tmp_name m := None) \<and> fs_fds w' = filter (\<lambda>p. fst p \<noteq> mf_fd m) (fs_fds w)))"
proof -
  obtain ok1 w1 where c1: "fs_unlink (mf_tmp_name m) w = (ok1, w1)" by fastforce
  obtain ok2 w2 where c2: "fs_close (mf_fd m) w1 = (ok2, w2)" by fastforce
  define w3 where "w3 = (if mf_fd m = -1 then w else if 0 \<le> mf_fd m then w2 else w1)"
  have k: "kept w w3 \<and> fs_mode w3 = fs_mode w \<and> (if mf_fd m = -1 then fs_dir w3 = fs_dir w \<and> fs_fds w3 = fs_fds w
     else (fs_dir w3 = fs_dir w \<or> fs_dir w3 = (fs_dir w)(mf_tmp_name m := None)) \<and>
       (os_willing (fs_os w) \<and> map_of (fs_fds w) (mf_fd m) \<noteq> None \<and> 0 \<le> mf_fd m \<longrightarrow>
          fs_dir w3 = (fs_dir w)(mf_tmp_name m := None) \<and> fs_fds w3 = filter (\<lambda>p. fst p \<noteq> mf_fd m) (fs_fds w)))"
  proof (cases "mf_fd m = -1")
    case True
    then show ?thesis by (simp add: w3_def)
  next
    case False
    note K1 = unlink_kept [OF c1 tmp [OF False]] and K2 = close_kept [OF c2]
    have k2: "kept w w2" using kept_trans [OF K1(1) K2(1)] .
    show ?thesis using False K1 K2 k2 kept_willing [OF K1(1)] by (auto simp: w3_def)
  qed
  have "mset (o_live (fs_os w3)) = add_mset blk base" using k blk(2) by (simp add: kept_def)
  then obtain w4 ls where f: "fs_free blk w3 = Some w4" "mset ls = base" "kept (w3\<lparr>fs_os := (fs_os w3)\<lparr>o_live := ls\<rparr>\<rparr>) w4" "names_kept w3 w4"
    using free_kept by blast
  define w5 where "w5 = (if o_errno (fs_os w) \<noteq> 0 then fs_error (o_errno (fs_os w)) w4 else w4)"
  have k5: "kept w4 w5" "names_kept w4 w5" by (simp_all add: w5_def)
  have run: "mcdb_makefn_cleanup m w = Some (m\<lparr>mf_fd := -1, mf_fntmp := None\<rparr>, w5)"
    using c1 c2 f(1) blk(1) by (cases "mf_fd m = -1"; cases m) (auto simp: mcdb_makefn_cleanup_def Let_def w3_def w5_def)
  have "kept (w\<lparr>fs_os := (fs_os w)\<lparr>o_live := ls\<rparr>\<rparr>) w5" using k f(3) k5(1) by (simp add: kept_def os_same_def)
  moreover have "fs_mode w5 = fs_mode w3" "fs_dir w5 = fs_dir w3" "fs_fds w5 = fs_fds w3" using f(4) k5(2) by (simp_all add: names_kept_def)
  ultimately show ?thesis using run f(2) k by (intro exI [of _ "m\<lparr>mf_fd := -1, mf_fntmp := None\<rparr>"] exI [of _ w5] exI [of _ ls]) simp
qed

subsection \<open>The whole conversion\<close>

definition out_db :: "fs \<Rightarrow> kv list \<Rightarrow> bool" where
  "out_db w recs \<longleftrightarrow> db_file (o_file (fs_os w)) (o_flen (fs_os w)) djb_hash recs"

text \<open>What a conversion into a named file leaves.\<close>

definition fdintofile_end :: "bytes \<Rightarrow> bytes \<Rightarrow> fs \<Rightarrow> int \<Rightarrow> fs \<Rightarrow> bool" where
  "fdintofile_end text fname w rv w' \<longleftrightarrow> mset (o_live (fs_os w')) = mset (o_live (fs_os w)) \<and>
     (\<forall>i < fs_fresh w. fs_content w' i = fs_content w i \<and> fs_mode w' i = fs_mode w i) \<and>
     (\<forall>n. n \<noteq> fname \<and> n \<noteq> tmp_name fname w \<longrightarrow> fs_dir w' n = fs_dir w n) \<and>
     (rv \<noteq> 0 \<longrightarrow> fs_dir w' fname = fs_dir w fname) \<and>
     (rv = 0 \<longrightarrow> fs_dir w' fname = Some (fs_fresh w) \<and> fs_out w' = fs_fresh w \<and> fs_dir w' (tmp_name fname w) = None \<and>
        (\<exists>recs s. fmt_input recs s text \<and> out_db w' recs)) \<and>
     (os_willing (fs_os w) \<longrightarrow> fs_fds w' = fs_fds w \<and> (if rv = 0 then fs_mode w' (fs_fresh w) = old_mode fname w
        else fs_dir w' = fs_dir w))"

lemma fdintofile_run:
  assumes P: "plasma_bigendian P" and pk: "pk \<le> 30" and fair: "eintr_fair (fs_os w)" and n: "named fname w"
    and sz: "length (fmt_source inputfd buf bufsz) < 2 ^ 60"
    and ok: "text_ok (fmt_source inputfd buf bufsz)"
    and run: "mcdb_makefmt_fdintofile P (2 ^ pk) inputfd buf bufsz fname w = Some (rv, w')"
  shows "fdintofile_end (fmt_source inputfd buf bufsz) fname w rv w'"
    "os_willing (fs_os w) \<Longrightarrow> input_willing inputfd bufsz \<Longrightarrow> \<exists>recs s. fmt_source inputfd buf bufsz = fmt_db recs @ s \<and> (\<forall>r \<in> set recs. fits r) \<Longrightarrow>
     fs_dir w (tmp_name fname w) = None \<Longrightarrow> (\<forall>i. fs_dir w fname = Some i \<longrightarrow> fs_reg w i) \<Longrightarrow> rv = 0"
proof -
  let ?tmp = "tmp_name fname w" and ?text = "fmt_source inputfd buf bufsz"
  let ?good = "input_willing inputfd bufsz \<and> (\<exists>recs s. ?text = fmt_db recs @ s \<and> (\<forall>r \<in> set recs. fits r))"
  let ?may = "fs_dir w ?tmp = None \<and> (\<forall>i. fs_dir w fname = Some i \<longrightarrow> fs_reg w i)"
  obtain rc m w1 where s: "mcdb_makefn_start fname w = Some (rc, m, w1)" "start_end fname w rc m w1"
    using makefn_start_props [OF n] by blast
  have "fdintofile_end ?text fname w rv w' \<and> (os_willing (fs_os w) \<and> ?good \<and> ?may \<longrightarrow> rv = 0)"
  proof (cases "rc = 0")
    case False
    then have f: "mf_fd m = -1" "mf_fntmp m = None" "kept w w1" "names_kept w w1" "\<not> (os_willing (fs_os w) \<and> ?may)"
      using s(2) by (auto simp: start_end_def)
    have "rv \<noteq> 0 \<and> kept w w' \<and> names_kept w w'"
      using run s(1) False f by (auto simp: mcdb_makefmt_fdintofile_def mcdb_makefn_cleanup_def mcdb_errors Let_def kept_def
          names_kept_def fs_error_def os_same_def split: if_splits)
    then show ?thesis using f(5) by (auto simp: fdintofile_end_def kept_content) (simp_all add: kept_def names_kept_def)
  next
    case True
    then have st: "started fname w m w1" and mode: "os_willing (fs_os w) \<Longrightarrow> mf_st_mode m = old_mode fname w"
      using s(2) by (auto simp: start_end_def)
    obtain blk bs where blk: "mf_fntmp m = Some (blk, bs)" "o_live (fs_os w1) = blk # o_live (fs_os w)" using st by (auto simp: started_def)
    have S: "mf_tmp_name m = ?tmp" "mf_new_name m = fname" "0 \<le> mf_fd m" "mf_fd m \<notin> fst ` set (fs_fds w)"
      "os_same (fs_os w) (fs_os w1)" "fs_out w1 = fs_fresh w" "fs_dir w ?tmp = None" "fs_dir w1 = (fs_dir w)(?tmp \<mapsto> fs_fresh w)"
      "fs_mode w1 = (fs_mode w)(fs_fresh w := 384)" "fs_fds w1 = (mf_fd m, fs_fresh w) # fs_fds w" "\<forall>i < fs_fresh w. fs_data w1 i = fs_content w i"
      using st by (simp_all add: started_def)
    have tmp_ne: "?tmp \<noteq> fname" by (simp add: tmp_name_def)
    have others: "filter (\<lambda>p. fst p \<noteq> mf_fd m) (fs_fds w1) = fs_fds w"
      using S(4,10) by (force simp: filter_id_conv)
    obtain rv1 o2 where fd: "mcdb_makefmt_fdintofd P (2 ^ pk) inputfd buf bufsz (mf_fd m) (fs_os w1) = Some (rv1, o2)"
      using run s(1) True by (auto simp: mcdb_makefmt_fdintofile_def bind_eq_Some_conv)
    obtain rc0 m0 o1 where ms: "mcdb_make_start (2 ^ pk) (mf_fd m) ((fs_os w1)\<lparr>o_errno := 0\<rparr>) = Some (rc0, m0, o1)"
      using fd by (auto simp: mcdb_makefmt_fdintofd_def bind_eq_Some_conv)
    have "mf_fd m \<noteq> -1" using S(3) by simp
    note mk = makefmt_run [OF P pk this eintr_fair_same [OF S(5) fair] ms sz ok]
    have D: "mset (o_live o2) = mset (o_live (fs_os w1))" "os_same (fs_os w1) o2"
      "rv1 = 0 \<Longrightarrow> \<exists>recs s. fmt_input recs s ?text \<and> db_file (o_file o2) (o_flen o2) djb_hash recs"
      "os_willing (fs_os w1) \<and> ?good \<Longrightarrow> rv1 = 0"
      using mk fd by auto
    let ?w2 = "w1\<lparr>fs_os := o2\<rparr>"
    obtain rcf mf wf where fin: "mcdb_makefn_finish m True ?w2 = (rcf, mf, wf)" by (metis prod_cases3)
    have "map_of (fs_fds ?w2) (mf_fd m) = Some (fs_fresh w)" "fs_dir ?w2 (mf_tmp_name m) = Some (fs_fresh w)"
      using S by simp_all
    note F = makefn_finish_props [OF this S(3) fin]
    define m3 where "m3 = (if rv1 = 0 then mf else m)"
    define w3 where "w3 = (if rv1 = 0 then wf else ?w2)"
    define rv' where "rv' = (if rv1 = 0 then if rcf = 0 then 0 else MCDB_ERROR_WRITE else rv1)"
    have will2: "os_willing (fs_os ?w2) = os_willing (fs_os w)" using os_willing_same [OF S(5)] os_willing_same [OF D(2)] by simp
    have C: "kept ?w2 w3" "mf_fntmp m3 = mf_fntmp m" "\<forall>j. j \<noteq> fs_fresh w \<longrightarrow> fs_mode w3 j = fs_mode w1 j"
      "rv' = 0 \<and> rv1 = 0 \<and> mf_fd m3 = -1 \<and> fs_dir w3 = (fs_dir w)(fname \<mapsto> fs_fresh w) \<and> fs_mode w3 (fs_fresh w) = mf_st_mode m \<and> fs_fds w3 = fs_fds w \<or>
       rv' \<noteq> 0 \<and> mf_fd m3 \<noteq> -1 \<and> fs_dir w3 = fs_dir w1 \<and> (os_willing (fs_os w) \<longrightarrow> rv1 \<noteq> 0 \<and> m3 = m \<and> fs_fds w3 = fs_fds w1)"
      using F S(1-3,7,8) others will2 by (auto simp: m3_def w3_def rv'_def mcdb_errors fun_eq_iff)
    have tn: "mf_tmp_name m3 = ?tmp" using S(1) C(2) by (simp add: mf_tmp_name_def)
    have "mset (o_live (fs_os w3)) = add_mset blk (mset (o_live (fs_os w)))" using C(1) D(1) blk(2) by (simp add: kept_def)
    moreover have "mf_fd m3 \<noteq> -1 \<Longrightarrow> fs_dir w3 (mf_tmp_name m3) = Some (fs_fresh w)" using C(4) S(8) tn by auto
    ultimately obtain m4 w4 ls where cl: "mcdb_makefn_cleanup m3 w3 = Some (m4, w4)" "mset ls = mset (o_live (fs_os w))"
      "kept (w3\<lparr>fs_os := (fs_os w3)\<lparr>o_live := ls\<rparr>\<rparr>) w4" "fs_mode w4 = fs_mode w3"
      "if mf_fd m3 = -1 then fs_dir w4 = fs_dir w3 \<and> fs_fds w4 = fs_fds w3
       else (fs_dir w4 = fs_dir w3 \<or> fs_dir w4 = (fs_dir w3)(mf_tmp_name m3 := None)) \<and>
         (os_willing (fs_os w3) \<and> map_of (fs_fds w3) (mf_fd m3) \<noteq> None \<and> 0 \<le> mf_fd m3 \<longrightarrow>
            fs_dir w4 = (fs_dir w3)(mf_tmp_name m3 := None) \<and> fs_fds w4 = filter (\<lambda>p. fst p \<noteq> mf_fd m3) (fs_fds w3))"
      using makefn_cleanup_props [of m3 blk bs w3] C(2) blk(1) by metis
    have eq: "rv = rv'" "w' = w4"
      using run s(1) True fd fin cl(1) by (auto simp: mcdb_makefmt_fdintofile_def m3_def w3_def rv'_def Let_def split: if_splits)
    have content: "fs_content w4 i = fs_content w i" if "i < fs_fresh w" for i
      using that S(6,11) C(1) cl(3) by (simp add: fs_content_def kept_def)
    have modes: "fs_mode w4 i = fs_mode w i" if "i < fs_fresh w" for i
      using that S(9) C(3) cl(4) by simp
    have live: "mset (o_live (fs_os w4)) = mset (o_live (fs_os w))" using cl(2,3) by (simp add: kept_def)
    have out: "fs_out w4 = fs_fresh w" "o_file (fs_os w4) = o_file o2" "o_flen (fs_os w4) = o_flen o2"
      using cl(3) C(1) S(6) by (simp_all add: kept_def)
    have will3: "os_willing (fs_os w3) = os_willing (fs_os w)" using kept_willing [OF C(1)] will2 by simp
    have end': "fdintofile_end ?text fname w rv' w4"
    proof (cases "rv' = 0")
      case True
      then have "rv1 = 0" "fs_dir w4 = (fs_dir w)(fname \<mapsto> fs_fresh w)" "fs_mode w4 (fs_fresh w) = mf_st_mode m" "fs_fds w4 = fs_fds w"
        using C(4) cl(4,5) by auto
      then show ?thesis using True content modes live out D(3) mode S(7) tmp_ne by (simp add: fdintofile_end_def out_db_def)
    next
      case False
      then have f: "mf_fd m3 \<noteq> -1" "fs_dir w3 = fs_dir w1" "os_willing (fs_os w) \<Longrightarrow> m3 = m \<and> fs_fds w3 = fs_fds w1"
        using C(4) by auto
      then have "fs_dir w4 = fs_dir w1 \<or> fs_dir w4 = (fs_dir w1)(?tmp := None)" using cl(5) tn by auto
      then have d: "\<forall>n. n \<noteq> ?tmp \<longrightarrow> fs_dir w4 n = fs_dir w n" using S(8) by auto
      have "fs_dir w4 = fs_dir w \<and> fs_fds w4 = fs_fds w" if "os_willing (fs_os w)"
        using cl(5) f that will3 S(1,3,7,8,10) others by (auto simp: fun_eq_iff)
      then show ?thesis using False content modes live d tmp_ne by (simp add: fdintofile_end_def)
    qed
    have "rv' = 0" if "os_willing (fs_os w)" "?good"
      using that C(4) D(4) os_willing_same [OF S(5)] by auto
    with end' eq show ?thesis by blast
  qed
  then show "fdintofile_end ?text fname w rv w'"
    "os_willing (fs_os w) \<Longrightarrow> input_willing inputfd bufsz \<Longrightarrow> \<exists>recs s. ?text = fmt_db recs @ s \<and> (\<forall>r \<in> set recs. fits r) \<Longrightarrow>
     fs_dir w ?tmp = None \<Longrightarrow> (\<forall>i. fs_dir w fname = Some i \<longrightarrow> fs_reg w i) \<Longrightarrow> rv = 0"
    by blast+
qed

text \<open>The one case without a result: the temporary file is there and the writer cannot be started on it.\<close>

definition name_refused :: "bytes \<Rightarrow> fs \<Rightarrow> bool" where
  "name_refused fname w = (case mcdb_makefn_start fname w of
     None \<Rightarrow> False | Some (rc, m, w1) \<Rightarrow> rc = 0 \<and> start_refused (fs_os w1))"

lemma fdintofile_refused:
  assumes "pk \<le> 30" "named fname w" "name_refused fname w"
  shows "mcdb_makefmt_fdintofile P (2 ^ pk) inputfd buf bufsz fname w = None"
proof -
  obtain rc m w1 where s: "mcdb_makefn_start fname w = Some (rc, m, w1)" "start_end fname w rc m w1"
    using makefn_start_props [OF assms(2)] by blast
  then have "rc = 0" "start_refused (fs_os w1)" "mf_fd m \<noteq> -1" using assms(3) by (auto simp: name_refused_def start_end_def started_def)
  then show ?thesis using s(1) makefmt_refused [OF _ assms(1)] by (simp add: mcdb_makefmt_fdintofile_def)
qed

lemma fdintofile_returns:
  assumes P: "plasma_bigendian P" and pk: "pk \<le> 30" and fair0: "eintr_fair (fs_os w)" and n: "named fname w"
    and sz: "length (fmt_source inputfd buf bufsz) < 2 ^ 60"
    and ok: "text_ok (fmt_source inputfd buf bufsz)" and granted: "\<not> name_refused fname w"
  shows "\<exists>rv w'. mcdb_makefmt_fdintofile P (2 ^ pk) inputfd buf bufsz fname w = Some (rv, w')"
proof -
  obtain rc m w1 where s: "mcdb_makefn_start fname w = Some (rc, m, w1)" "start_end fname w rc m w1"
    using makefn_start_props [OF n] by blast
  show ?thesis
  proof (cases "rc = 0")
    case False
    then have "mf_fd m = -1" "mf_fntmp m = None" using s(2) by (auto simp: start_end_def)
    then show ?thesis using s(1) False
      by (auto simp: mcdb_makefmt_fdintofile_def mcdb_makefn_cleanup_def mcdb_errors Let_def)
  next
    case True
    then have st: "started fname w m w1" using s(2) by (auto simp: start_end_def)
    obtain blk bs where blk: "mf_fntmp m = Some (blk, bs)" "o_live (fs_os w1) = blk # o_live (fs_os w)" using st by (auto simp: started_def)
    have S: "mf_tmp_name m = tmp_name fname w" "0 \<le> mf_fd m" "os_same (fs_os w) (fs_os w1)"
      "fs_dir w1 = (fs_dir w)(tmp_name fname w \<mapsto> fs_fresh w)" "fs_fds w1 = (mf_fd m, fs_fresh w) # fs_fds w"
      using st by (simp_all add: started_def)
    have fdn: "mf_fd m \<noteq> -1" using S(2) by simp
    have "\<not> start_refused (fs_os w1)" and fair: "eintr_fair (fs_os w1)"
      using granted s(1) True eintr_fair_same [OF S(3) fair0] by (simp_all add: name_refused_def)
    from makefmt_starts [OF fdn pk this(1)] obtain rc0 m0 o1 where
      ms: "mcdb_make_start (2 ^ pk) (mf_fd m) ((fs_os w1)\<lparr>o_errno := 0\<rparr>) = Some (rc0, m0, o1)" by blast
    note mk = makefmt_run [OF P pk fdn fair ms sz ok]
    obtain rv1 o2 where D: "mcdb_makefmt_fdintofd P (2 ^ pk) inputfd buf bufsz (mf_fd m) (fs_os w1) = Some (rv1, o2)"
      "mset (o_live o2) = mset (o_live (fs_os w1))"
      using mk by auto
    let ?w2 = "w1\<lparr>fs_os := o2\<rparr>"
    obtain rcf mf wf where fin: "mcdb_makefn_finish m True ?w2 = (rcf, mf, wf)" by (metis prod_cases3)
    have "map_of (fs_fds ?w2) (mf_fd m) = Some (fs_fresh w)" "fs_dir ?w2 (mf_tmp_name m) = Some (fs_fresh w)"
      using S by simp_all
    note F = makefn_finish_props [OF this S(2) fin]
    define m3 where "m3 = (if rv1 = 0 then mf else m)"
    define w3 where "w3 = (if rv1 = 0 then wf else ?w2)"
    have C: "kept ?w2 w3" "mf_fntmp m3 = mf_fntmp m" "mf_fd m3 \<noteq> -1 \<Longrightarrow> fs_dir w3 = fs_dir w1"
      using F by (auto simp: m3_def w3_def)
    have "mset (o_live (fs_os w3)) = add_mset blk (mset (o_live (fs_os w)))" using C(1) D(2) blk(2) by (simp add: kept_def)
    moreover have "mf_fd m3 \<noteq> -1 \<Longrightarrow> fs_dir w3 (mf_tmp_name m3) = Some (fs_fresh w)"
      using C(2,3) S(1,4) by (simp add: mf_tmp_name_def)
    ultimately obtain m4 w4 where cl: "mcdb_makefn_cleanup m3 w3 = Some (m4, w4)"
      using makefn_cleanup_props [of m3 blk bs w3] C(2) blk(1) by metis
    show ?thesis using s(1) True D(1) fin cl
      by (auto simp: mcdb_makefmt_fdintofile_def m3_def w3_def Let_def split: if_splits)
  qed
qed

lemma willing_name:
  assumes "os_willing (fs_os w)" "named fname w"
  shows "\<not> name_refused fname w" "eintr_fair (fs_os w)"
proof -
  obtain rc m w1 where "mcdb_makefn_start fname w = Some (rc, m, w1)" "start_end fname w rc m w1"
    using makefn_start_props [OF assms(2)] by blast
  moreover from this have "os_same (fs_os w) (fs_os w1)" by (auto simp: start_end_def started_def kept_def)
  ultimately show "\<not> name_refused fname w" using willing_not_refused os_willing_same assms(1) by (auto simp: name_refused_def)
  show "eintr_fair (fs_os w)" using assms(1) by (auto simp: os_willing_def eintr_fair_def EINTR_def)
qed

lemma named_database_run:
  assumes "plasma_bigendian P" "pk \<le> 30" "os_willing (fs_os w)" "named fname w"
    and "length (fmt_source inputfd buf bufsz) < 2 ^ 60"
    and "text_ok (fmt_source inputfd buf bufsz)"
    and "fs_dir w (tmp_name fname w) = None" "\<forall>i. fs_dir w fname = Some i \<longrightarrow> fs_reg w i"
  shows "\<exists>rv w'. mcdb_makefmt_fdintofile P (2 ^ pk) inputfd buf bufsz fname w = Some (rv, w') \<and> fs_fds w' = fs_fds w \<and>
    fs_dir w' = (if rv = 0 then (fs_dir w)(fname \<mapsto> fs_fresh w) else fs_dir w) \<and>
    (rv = 0 \<longrightarrow> fs_mode w' (fs_fresh w) = old_mode fname w) \<and>
    (input_willing inputfd bufsz \<longrightarrow> (\<forall>recs s. recs_ok djb_hash recs \<longrightarrow> fmt_source inputfd buf bufsz = fmt_db recs @ s \<longrightarrow>
       rv = 0 \<and> out_db w' recs))"
proof -
  obtain rv w' where run: "mcdb_makefmt_fdintofile P (2 ^ pk) inputfd buf bufsz fname w = Some (rv, w')"
    using fdintofile_returns [OF assms(1,2) willing_name(2) [OF assms(3,4)] assms(4-6) willing_name(1) [OF assms(3,4)]] by blast
  note fair = willing_name(2) [OF assms(3,4)]
  note R = fdintofile_run [OF assms(1,2) fair assms(4-6) run]
  have E: "fdintofile_end (fmt_source inputfd buf bufsz) fname w rv w'" using R(1) by blast
  have dir: "fs_dir w' = (if rv = 0 then (fs_dir w)(fname \<mapsto> fs_fresh w) else fs_dir w)"
  proof (cases "rv = 0")
    case True
    have "fs_dir w' n = ((fs_dir w)(fname \<mapsto> fs_fresh w)) n" for n
      using E True assms(7) by (cases "n = fname"; cases "n = tmp_name fname w") (auto simp: fdintofile_end_def tmp_name_def)
    then show ?thesis using True by (simp add: fun_eq_iff)
  next
    case False
    then show ?thesis using E assms(3) by (simp add: fdintofile_end_def)
  qed
  have "rv = 0 \<and> out_db w' recs" if "input_willing inputfd bufsz" "recs_ok djb_hash recs" "fmt_source inputfd buf bufsz = fmt_db recs @ s" for recs s
  proof -
    have fits: "\<forall>r \<in> set recs. fits r" using that(2) by (auto simp: recs_ok_def fits_def)
    have "rv = 0" using R(2) assms(3,7,8) that fits by blast
    moreover obtain recs' s' where "fmt_input recs' s' (fmt_source inputfd buf bufsz)" "out_db w' recs'"
      using E \<open>rv = 0\<close> by (auto simp: fdintofile_end_def)
    moreover have "fmt_input recs s (fmt_source inputfd buf bufsz)" using fmt_db_input [OF fits] that(3) by simp
    ultimately show ?thesis using fmt_input_unique by blast
  qed
  with run dir E assms(3) show ?thesis by (auto simp: fdintofile_end_def)
qed

lemma mem_of_slice: "mem_slice (mem_of bs) 0 (length bs) = bs"
  by (rule nth_equalityI) (simp_all add: mem_of_def)

lemma file_converted_run:
  assumes "plasma_bigendian P" "pk \<le> 30" "os_willing (fs_os w)" "named fname w"
    and "fs_dir w infile = Some i" "fs_reg w i" "fs_content w i = fmt_db recs @ s" "length (fs_content w i) < 2 ^ 60" "recs_ok djb_hash recs"
    and "fs_dir w (tmp_name fname w) = None" "\<forall>i. fs_dir w fname = Some i \<longrightarrow> fs_reg w i"
  shows "\<exists>w'. mcdb_makefmt_fileintofile P (2 ^ pk) infile fname w = Some (0, w') \<and> out_db w' recs \<and> fs_fds w' = fs_fds w \<and>
    fs_dir w' = (fs_dir w)(fname \<mapsto> fs_fresh w)"
proof -
  let ?c = "fmt_db recs @ s"
  obtain w1 where w1: "fs_stat infile w = (Some i, w1)" using stat_kept(4) [of infile w] assms(3,5) by (cases "fs_stat infile w") auto
  note S = stat_kept [OF w1]
  let ?fd = "free_fd (fs_fds w1)"
  let ?w2 = "w1\<lparr>fs_fds := (?fd, i) # fs_fds w1\<rparr>"
  have k2: "kept w ?w2" "os_willing (fs_os ?w2)" using S(1) kept_willing [OF S(1)] assms(3) by (simp_all add: kept_def)
  obtain ok3 w3 where c3: "fs_call ?w2 = (ok3, w3)" by fastforce
  note C3 = call_kept [OF c3]
  have k3: "kept w w3" "os_willing (fs_os w3)" using kept_trans [OF k2(1) C3(1)] kept_willing [OF C3(1)] k2(2) by simp_all
  obtain ok4 w4 where c4: "fs_call w3 = (ok4, w4)" by fastforce
  note C4 = call_kept [OF c4]
  have k4: "kept w w4" "os_willing (fs_os w4)" using kept_trans [OF k3(1) C4(1)] kept_willing [OF C4(1)] k3(2) by simp_all
  have "fs_reg w3 i" using k3(1) assms(6) by (simp add: kept_def)
  moreover have "fs_content w4 i = ?c" "?c \<noteq> []" using kept_content [OF k4(1)] assms(7) by (simp_all add: fmt_db_def)
  ultimately have map: "fileintofile_map i ?w2 = (Some ?c, w4)"
    using C3(3) C4(3) k2(2) k3(2) by (simp add: fileintofile_map_def c3 c4)
  obtain ok5 w5 where c5: "fs_close ?fd w4 = (ok5, w5)" by fastforce
  note C5 = close_kept [OF c5]
  have fds4: "fs_fds w4 = (?fd, i) # fs_fds w1" using C3(2) C4(2) by (simp add: names_kept_def)
  then have ok5: ok5 using C5(6) k4(2) by simp
  have k5: "kept w w5" "os_willing (fs_os w5)" using kept_trans [OF k4(1) C5(1)] kept_willing [OF C5(1)] k4(2) by simp_all
  have n5: "names_kept w w5"
  proof -
    have "filter (\<lambda>p. fst p \<noteq> ?fd) (fs_fds w1) = fs_fds w1" using free_fd_fresh [of "fs_fds w1"] by (force simp: filter_id_conv)
    then show ?thesis using C5(2,3,5) ok5 fds4 C3(2) C4(2) S(2) by (simp add: names_kept_def)
  qed
  have "named fname w5" "tmp_name fname w5 = tmp_name fname w" using assms(4) k5(1) by (simp_all add: named_def kept_def tmp_name_def)
  moreover have src: "fmt_source None (mem_of ?c) (length ?c) = ?c" by (simp only: fmt_source_def option.case mem_of_slice)
  moreover have "text_ok ?c"
  proof -
    have "\<forall>r \<in> set recs. fits r" using assms(9) by (auto simp: recs_ok_def fits_def)
    from fmt_input_unique [OF fmt_db_input [OF this, of s]] show ?thesis using assms(9) by (auto simp: text_ok_def)
  qed
  moreover have "fs_dir w5 (tmp_name fname w) = None" "\<forall>i. fs_dir w5 fname = Some i \<longrightarrow> fs_reg w5 i"
    using n5 k5(1) assms(10,11) by (simp_all add: names_kept_def kept_def)
  ultimately obtain rv w6 where m: "mcdb_makefmt_fdintofile P (2 ^ pk) None (mem_of ?c) (length ?c) fname w5 = Some (rv, w6)"
    "fs_fds w6 = fs_fds w5" "fs_dir w6 = (if rv = 0 then (fs_dir w5)(fname \<mapsto> fs_fresh w5) else fs_dir w5)"
    "\<forall>recs' s'. recs_ok djb_hash recs' \<longrightarrow> ?c = fmt_db recs' @ s' \<longrightarrow> rv = 0 \<and> out_db w6 recs'"
    using named_database_run [OF assms(1,2) k5(2), of fname None "mem_of ?c" "length ?c"] assms(7,8) by (auto simp: input_willing_def)
  then have m': "rv = 0" "out_db w6 recs" using assms(9) by blast+
  obtain ok7 w7 where c7: "fs_call w6 = (ok7, w7)" by fastforce
  note C7 = call_kept [OF c7]
  have "mcdb_makefmt_fileintofile P (2 ^ pk) infile fname w = Some (0, w7)"
    using w1 map c5 ok5 m(1) m'(1) c7 by (simp add: mcdb_makefmt_fileintofile_def fs_open_name_def fs_open_def Let_def)
  moreover have "fs_fds w7 = fs_fds w" "fs_dir w7 = (fs_dir w)(fname \<mapsto> fs_fresh w)" "out_db w7 recs"
    using C7(1,2) m(2,3) m' n5 k5(1) by (simp_all add: names_kept_def out_db_def kept_def)
  ultimately show ?thesis by blast
qed

subsection \<open>Properties\<close>

text \<open>C18: a conversion into a named database of a text of less than 2^60 bytes whose records are within the limits of
  the writer has a result whichever call fails, with one exception: the temporary file is there and its first mapping is refused.
  It leaves every old file untouched and every other name as it was, and gives its blocks
  back; unless it returns 0 the name still refers to what it referred to before, and when it
  returns 0 the name refers to a new file that is a complete database of the records of the text, the
  temporary name being gone.\<close>

theorem named_database_replaced:
  assumes "plasma_bigendian P" "pk \<le> 30" "eintr_fair (fs_os w)" "named fname w"
    and "length (fmt_source inputfd buf bufsz) < 2 ^ 60"
    and "text_ok (fmt_source inputfd buf bufsz)"
  shows "if name_refused fname w then mcdb_makefmt_fdintofile P (2 ^ pk) inputfd buf bufsz fname w = None
    else \<exists>rv w'. mcdb_makefmt_fdintofile P (2 ^ pk) inputfd buf bufsz fname w = Some (rv, w') \<and>
      (\<forall>i < fs_fresh w. fs_content w' i = fs_content w i \<and> fs_mode w' i = fs_mode w i) \<and>
      (\<forall>n. n \<noteq> fname \<and> n \<noteq> tmp_name fname w \<longrightarrow> fs_dir w' n = fs_dir w n) \<and>
      (rv \<noteq> 0 \<longrightarrow> fs_dir w' fname = fs_dir w fname) \<and>
      (rv = 0 \<longrightarrow> fs_dir w' fname = Some (fs_fresh w) \<and> fs_out w' = fs_fresh w \<and> fs_dir w' (tmp_name fname w) = None \<and>
         (\<exists>recs s. fmt_input recs s (fmt_source inputfd buf bufsz) \<and> out_db w' recs)) \<and>
      mset (o_live (fs_os w')) = mset (o_live (fs_os w))"
proof (cases "name_refused fname w")
  case True
  then show ?thesis using fdintofile_refused [OF assms(2,4)] by simp
next
  case False
  from fdintofile_returns [OF assms False] obtain rv w' where
    run: "mcdb_makefmt_fdintofile P (2 ^ pk) inputfd buf bufsz fname w = Some (rv, w')" by blast
  then show ?thesis using fdintofile_run(1) [OF assms run] False unfolding fdintofile_end_def by auto
qed

definition ex_fs :: fs where
  "ex_fs = \<lparr>fs_os = os_empty (\<lambda>_. 0) (\<lambda>_. 7), fs_dir = [[100] \<mapsto> 0], fs_data = (\<lambda>_. []), fs_mode = (\<lambda>_. 292), fs_reg = (\<lambda>_. True),
     fs_out = 1, fs_fds = [(0, 0), (1, 0)], fs_fresh = 2, fs_suffix = [97, 98, 99, 100, 101, 102], fs_close_keeps = False\<rparr>"

lemma ex_fs_named: "named [100] ex_fs" "eintr_fair (fs_os ex_fs)" "os_willing (fs_os ex_fs)"
  using os_empty_willing by (simp_all add: named_def ex_fs_def)

lemma ex_source: "length (fmt_source (Some ex_infile) (\<lambda>_. 0) 128) < 2 ^ 60" "text_ok (fmt_source (Some ex_infile) (\<lambda>_. 0) 128)"
proof -
  have "length (fmt_source (Some ex_infile) (\<lambda>_. 0) 128) = 21" by (simp add: fmt_source_def ex_infile_def ex_text_def)
  then show "length (fmt_source (Some ex_infile) (\<lambda>_. 0) 128) < 2 ^ 60" "text_ok (fmt_source (Some ex_infile) (\<lambda>_. 0) 128)"
    by (simp_all add: text_ok_short)
qed

theorem named_database_replaced_witness:
  "\<exists>rv w'. mcdb_makefmt_fdintofile plasma_ref (2 ^ 12) (Some ex_infile) (\<lambda>_. 0) 128 [100] ex_fs = Some (rv, w') \<and>
     fs_content w' 0 = [] \<and> (rv \<noteq> 0 \<longrightarrow> fs_dir w' [100] = Some 0)"
proof -
  have "fs_content ex_fs 0 = []" "fs_fresh ex_fs = 2" "fs_dir ex_fs [100] = Some 0" by (simp_all add: ex_fs_def fs_content_def)
  with named_database_replaced [OF plasma_ref_bigendian _ ex_fs_named(2,1) ex_source, of 12] willing_name(1) [OF ex_fs_named(3,1)]
  show ?thesis by auto
qed

text \<open>C19: when no system call fails, the conversion into a named database returns, leaves no
  temporary file and no open descriptor behind whatever the text, and a printed text of records
  replaces the file by a database of exactly these records that has the permissions of the old file, or
  is read-only for its owner when there was none.\<close>

theorem named_database_made:
  assumes "plasma_bigendian P" "pk \<le> 30" "os_willing (fs_os w)" "named fname w"
    and "length (fmt_source inputfd buf bufsz) < 2 ^ 60"
    and "text_ok (fmt_source inputfd buf bufsz)"
    and "fs_dir w (tmp_name fname w) = None" "\<forall>i. fs_dir w fname = Some i \<longrightarrow> fs_reg w i"
  shows "\<exists>rv w'. mcdb_makefmt_fdintofile P (2 ^ pk) inputfd buf bufsz fname w = Some (rv, w') \<and> fs_fds w' = fs_fds w \<and>
    fs_dir w' = (if rv = 0 then (fs_dir w)(fname \<mapsto> fs_fresh w) else fs_dir w) \<and>
    (rv = 0 \<longrightarrow> fs_mode w' (fs_fresh w) = old_mode fname w) \<and>
    (input_willing inputfd bufsz \<longrightarrow> (\<forall>recs s. recs_ok djb_hash recs \<longrightarrow> fmt_source inputfd buf bufsz = fmt_db recs @ s \<longrightarrow>
       rv = 0 \<and> out_db w' recs))"
  by (rule named_database_run [OF assms])

theorem named_database_made_witness:
  "\<exists>rv w'. mcdb_makefmt_fdintofile plasma_ref (2 ^ 12) (Some ex_infile) (\<lambda>_. 0) 128 [100] ex_fs = Some (rv, w') \<and>
     fs_fds w' = [(0, 0), (1, 0)] \<and> (rv = 0 \<longrightarrow> fs_mode w' 2 = 292)"
proof -
  have "fs_dir ex_fs (tmp_name [100] ex_fs) = None" "\<forall>i. fs_dir ex_fs [100] = Some i \<longrightarrow> fs_reg ex_fs i"
    by (simp_all add: ex_fs_def tmp_name_def)
  from named_database_made [OF plasma_ref_bigendian _ ex_fs_named(3,1) ex_source this, of 12]
  show ?thesis by (auto simp: ex_fs_def old_mode_def)
qed

text \<open>C20: when no system call fails, a regular file that holds a printed text of records is
  converted into a named database of exactly these records, the files of other names are as they were,
  and no descriptor stays open.\<close>

theorem file_converted:
  assumes "plasma_bigendian P" "pk \<le> 30" "os_willing (fs_os w)" "named fname w"
    and "fs_dir w infile = Some i" "fs_reg w i" "fs_content w i = fmt_db recs @ s" "length (fs_content w i) < 2 ^ 60" "recs_ok djb_hash recs"
    and "fs_dir w (tmp_name fname w) = None" "\<forall>i. fs_dir w fname = Some i \<longrightarrow> fs_reg w i"
  shows "\<exists>w'. mcdb_makefmt_fileintofile P (2 ^ pk) infile fname w = Some (0, w') \<and> out_db w' recs \<and> fs_fds w' = fs_fds w \<and>
    fs_dir w' = (fs_dir w)(fname \<mapsto> fs_fresh w)"
  by (rule file_converted_run [OF assms])

theorem file_converted_witness:
  "\<exists>w'. mcdb_makefmt_fileintofile plasma_ref (2 ^ 12) [102] [100]
     (ex_fs\<lparr>fs_dir := [[100] \<mapsto> 0, [102] \<mapsto> 0], fs_data := (\<lambda>_. fmt_db [([107], [118])])\<rparr>) = Some (0, w') \<and> out_db w' [([107], [118])]"
proof -
  let ?w = "ex_fs\<lparr>fs_dir := [[100] \<mapsto> 0, [102] \<mapsto> 0], fs_data := (\<lambda>_. fmt_db [([107], [118])])\<rparr>"
  have "os_willing (fs_os ?w)" "named [100] ?w" using ex_fs_named by (simp_all add: named_def)
  moreover have "fs_content ?w 0 = fmt_db [([107], [118])] @ []" by (simp add: fs_content_def ex_fs_def)
  moreover have "length (fmt_db [([107], [118])]) < 2 ^ 60" by (simp add: fmt_db_def fmt_rec_def dec_digits.simps)
  moreover have "recs_ok djb_hash [([107], [118])]" by (rule recs_ok_few) (simp_all add: data_bytes_def rec_len_def INT_MAX_def)
  ultimately show ?thesis
    using file_converted [OF plasma_ref_bigendian, of 12 ?w "[100]" "[102]" 0 "[([107], [118])]" "[]"]
    by (auto simp: ex_fs_def tmp_name_def)
qed

end
