(* ===== verification/Mcdbctl_Proofs.thy ===== *)
theory Mcdbctl_Proofs
  imports Mcdbctl Mcdbctl_Out_Proofs Makefn_Proofs
begin

text \<open>The command line tool: unique keys, exit statuses, and whole runs of the tool on files.\<close>

subsection \<open>Unique keys\<close>

lemma reading_counted:
  "reading recs m w mm \<Longrightarrow> get_map (m_map m) w' = Some (mm\<lparr>mm_n := n\<rparr>) \<Longrightarrow> reading recs m w' (mm\<lparr>mm_n := n\<rparr>)"
  by (simp add: reading_def db_mapped_def)

lemma reading_same_map: "reading recs m w mm \<Longrightarrow> m_map m' = m_map m \<Longrightarrow> reading recs m' w mm"
  by (simp add: reading_def)

text \<open>A find and a next: whether there is a value, and whether there is a second.\<close>

lemma find_two:
  assumes P: "plasma_bigendian P" and R: "reading recs m w mm"
  shows "\<exists>r m1. mcdb_find P m key w = Some (r, m1, w) \<and> m_map m1 = m_map m \<and> (r \<longleftrightarrow> key \<in> fst ` set recs) \<and>
    (r \<longrightarrow> (\<exists>r2 m2. mcdb_findtagnext P m1 key 0 w = Some (r2, m2) \<and> m_map m2 = m_map m \<and>
       (r2 \<longleftrightarrow> 2 \<le> length (filter (\<lambda>x. fst x = key) recs))))"
proof -
  obtain vs where vs: "get_values P m key 0 w = Some vs" "mset vs = mset (map snd (filter (\<lambda>r. fst r = key) recs))"
    using get_values_eq [OF P R, of key 0] db_values_mset [of djb_hash recs key] by (auto simp: full_key_def)
  have len: "length vs = length (filter (\<lambda>r. fst r = key) recs)" using arg_cong [OF vs(2), of size] by (simp flip: mset_filter)
  have "vs = [] \<longleftrightarrow> filter (\<lambda>r. fst r = key) recs = []" using len by (metis length_0_conv)
  then have mem: "vs = [] \<longleftrightarrow> key \<notin> fst ` set recs" unfolding filter_empty_conv image_iff by metis
  obtain m0 where m0: "m_map m0 = m_map m"
    "if slot_cells djb_hash recs (slot_of (djb_hash (full_key key 0))) = 0 then mcdb_findtagstart P m key 0 w = Some (False, m0, w)
     else mcdb_findtagstart P m key 0 w = Some (True, m0, w)"
    using findtagstart_props [OF P R, of key 0] by (auto split: if_splits)
  then obtain b where s: "mcdb_findtagstart P m key 0 w = Some (b, m0, w)" by (auto split: if_splits)
  show ?thesis
  proof (cases b)
    case False
    then have "vs = []" using vs(1) s by (simp add: get_values_def)
    then show ?thesis using s False m0(1) mem by (auto simp: mcdb_find_def)
  next
    case True
    then have f: "find_all P m0 key 0 w = Some vs" using vs(1) s by (simp add: get_values_def)
    obtain r1 m1 where n: "mcdb_findtagnext P m0 key 0 w = Some (r1, m1)" "r1 \<longleftrightarrow> vs \<noteq> []" "r1 \<Longrightarrow> find_all P m1 key 0 w = Some (tl vs)"
      using find_all_next [OF f] by (cases vs) auto
    have mm1: "m_map m1 = m_map m" using findtagnext_map [OF n(1)] m0(1) by simp
    have fnd: "mcdb_find P m key w = Some (r1, m1, w)" using s True n(1) by (simp add: mcdb_find_def)
    show ?thesis
    proof (cases r1)
      case False
      then show ?thesis using fnd mm1 n(2) mem by auto
    next
      case t: True
      obtain r2 m2 where "mcdb_findtagnext P m1 key 0 w = Some (r2, m2)" "r2 \<longleftrightarrow> tl vs \<noteq> []"
        using find_all_next [OF n(3) [OF t]] by (cases "tl vs") auto
      moreover have "tl vs \<noteq> [] \<longleftrightarrow> 2 \<le> length vs" by (cases vs; cases "tl vs") auto
      ultimately show ?thesis using fnd mm1 n(2) mem len t findtagnext_map [of P m1 key 0 w r2 m2] by auto
    qed
  qed
qed

lemma has_unique_loop_eq:
  assumes P: "plasma_bigendian P"
  shows "iter_all P it w = Some rs \<Longrightarrow> reading recs m w mm \<Longrightarrow> set rs \<subseteq> set recs \<Longrightarrow>
    has_unique_loop P m it w = Some (if \<forall>r \<in> set rs. length (filter (\<lambda>x. fst x = fst r) recs) \<le> 1 then 1 else 0, w)"
proof (induction rs arbitrary: it m)
  case Nil
  obtain it1 where "mcdb_iter_step P it w = Some (False, it1)" using iter_all_step [OF Nil(1)] by auto
  then show ?case by (subst has_unique_loop.simps) simp
next
  case (Cons r rs)
  have fits: "\<forall>r \<in> set (r # rs). fits r" 
  proof -
    have "recs_ok djb_hash recs" using Cons.prems(2) db_mappedD(3) by (auto simp: reading_def)
    then show ?thesis using Cons.prems(3) recs_ok_text by blast
  qed
  obtain it1 where s: "mcdb_iter_step P it w = Some (True, it1)" "iter_at it1 w (fst r) (snd r)" "iter_all P it1 w = Some rs"
    using iter_all_step [OF Cons.prems(1) fits] by auto
  then have k: "mcdb_iter_key it1 w = Some (fst r)" by (simp add: iter_at_def)
  have "fst r \<in> fst ` set recs" using Cons.prems(3) by auto
  then obtain m1 r2 m2 where f: "mcdb_find P m (fst r) w = Some (True, m1, w)" "mcdb_findtagnext P m1 (fst r) 0 w = Some (r2, m2)"
    "m_map m2 = m_map m" "r2 \<longleftrightarrow> 2 \<le> length (filter (\<lambda>x. fst x = fst r) recs)"
    using find_two [OF P Cons.prems(2), of "fst r"] by auto
  show ?case
  proof (cases r2)
    case True
    then show ?thesis using s(1) k f by (subst has_unique_loop.simps) auto
  next
    case False
    from Cons.IH [OF s(3) reading_same_map [OF Cons.prems(2) f(3)]] Cons.prems(3)
    show ?thesis using s(1) k f False by (subst has_unique_loop.simps) auto
  qed
qed

lemma distinct_keys_count:
  "distinct (map fst recs) \<longleftrightarrow> (\<forall>r \<in> set recs. length (filter (\<lambda>x. fst x = fst r) recs) \<le> 1)"
proof (induction recs)
  case Nil
  then show ?case by simp
next
  case (Cons a recs)
  have n: "length (filter (\<lambda>x. fst x = fst a) recs) = 0 \<longleftrightarrow> fst a \<notin> fst ` set recs"
    unfolding length_0_conv filter_empty_conv image_iff by metis
  show ?case
  proof (cases "fst a \<in> fst ` set recs")
    case True
    then have "\<not> length (filter (\<lambda>x. fst x = fst a) (a # recs)) \<le> 1" using n by auto
    then show ?thesis using True by auto
  next
    case False
    then have "\<forall>r \<in> set recs. fst a \<noteq> fst r" unfolding image_iff by metis
    then have "(\<forall>r \<in> set (a # recs). length (filter (\<lambda>x. fst x = fst r) (a # recs)) \<le> 1) \<longleftrightarrow>
        (\<forall>r \<in> set recs. length (filter (\<lambda>x. fst x = fst r) recs) \<le> 1)"
      using n False by auto
    then show ?thesis using Cons.IH False by simp
  qed
qed

lemma has_unique_eq:
  assumes P: "plasma_bigendian P" and R: "reading recs m w mm"
  shows "\<exists>w'. mcdbctl_has_unique_keys P m w = Some (if distinct (map fst recs) then 1 else 0, w') \<and>
    reading recs m w' (mm\<lparr>mm_n := word_of_nat (length recs)\<rparr>)"
proof -
  obtain w1 where v: "mcdb_validate_slots P m w = Some (True, w1)" "get_map (m_map m) w1 = Some (mm\<lparr>mm_n := word_of_nat (length recs)\<rparr>)"
    using R unfolding reading_def by (elim conjE) (drule validate_slots_eq [OF P], assumption, blast)
  note R1 = reading_counted [OF R v(2)]
  obtain it where it: "mcdb_iter_init P m w1 = Some it" "iter_all P it w1 = Some recs"
    using get_all_eq [OF P v(2)] R1 by (auto simp: get_all_def bind_eq_Some_conv reading_def)
  from has_unique_loop_eq [OF P it(2) R1] show ?thesis
    using v(1) it(1) R1 unfolding distinct_keys_count by (simp add: mcdbctl_has_unique_keys_def)
qed

subsection \<open>Opening a file for a query\<close>

definition rd_willing :: "rd \<Rightarrow> bool" where
  "rd_willing w \<longleftrightarrow> (\<forall>k. r_fail w k = 0 \<and> r_newfd w k \<noteq> -1)"


lemma rd_willing_update [simp]: "rd_willing (w\<lparr>r_step := s\<rparr>) = rd_willing w" "rd_willing (w\<lparr>r_maps := a\<rparr>) = rd_willing w"
  "rd_willing (w\<lparr>r_fds := b\<rparr>) = rd_willing w" "rd_willing (w\<lparr>r_fresh := p\<rparr>) = rd_willing w" "rd_willing (w\<lparr>r_errno := e\<rparr>) = rd_willing w"
  by (simp_all add: rd_willing_def)






lemma query_exit: "mcdbctl_query P iov_max argv c = Some (Inl e, c1) \<Longrightarrow> e = 100"
  by (cases "query_args argv"; cases "open_fd (map_option Fd_file (r_fs (ct_rd c) None (argv ! 2))) (ct_rd c)")
    (auto simp: mcdbctl_query_def Let_def bind_eq_Some_conv split: if_splits)

lemma error_status: "mcdb_error rv \<in> {0, 100, 101, 111}"
  by (simp add: mcdb_error_def)

subsection \<open>Properties\<close>

text \<open>C26: \<^verbatim>\<open>mcdbctl_has_unique_keys\<close> decides whether the keys of a database are distinct.\<close>

theorem has_unique_keys_decides:
  assumes "plasma_bigendian P" "reading recs m w mm"
  shows "\<exists>w'. mcdbctl_has_unique_keys P m w = Some (if distinct (map fst recs) then 1 else 0, w')"
  using has_unique_eq [OF assms] by blast

theorem has_unique_keys_decides_witness:
  "\<exists>mm w'. mcdbctl_has_unique_keys plasma_ref (ex_query 0) (ex_rd mm) = Some (0, w')"
proof -
  obtain mm where "reading ex_recs (ex_query 0) (ex_rd mm) mm" using ex_reading by blast
  from has_unique_keys_decides [OF plasma_ref_bigendian this] show ?thesis by (auto simp: ex_recs_def)
qed

text \<open>The exit status of the tool is 0, 100 (key not found), 101 (usage) or 111 (error),
  whatever its arguments, the files and the failures.\<close>

theorem main_exit_status:
  assumes "mcdbctl_main P pagesize iov_max argv c = Some (e, c')"
  shows "e \<in> {0, 100, 101, 111}"
proof -
  obtain r c1 where "e = (case r of Inl e \<Rightarrow> e | Inr rv \<Rightarrow> mcdb_error rv)" "\<And>e. r = Inl e \<Longrightarrow> mcdbctl_query P iov_max argv c = Some (r, c1)"
    using assms by (auto simp: mcdbctl_main_def bind_eq_Some_conv split: if_splits)
  then show ?thesis using query_exit [of P iov_max argv c _ c1] error_status by (cases r) auto
qed

theorem main_exit_status_witness:
  "mcdbctl_main plasma_ref 4096 16 [[97]] \<lparr>ct_rd = rd_start (\<lambda>_. 0) (\<lambda>_ _. None), ct_fs = ex_fs, ct_out = ex_outs, ct_stdin = ex_infile\<rparr> =
     Some (101, \<lparr>ct_rd = rd_start (\<lambda>_. 0) (\<lambda>_ _. None), ct_fs = ex_fs, ct_out = ex_outs, ct_stdin = ex_infile\<rparr>) \<and> 101 \<in> {0, 100, 101, 111 :: int}"
proof -
  have m: "mcdbctl_main plasma_ref 4096 16 [[97]] \<lparr>ct_rd = rd_start (\<lambda>_. 0) (\<lambda>_ _. None), ct_fs = ex_fs, ct_out = ex_outs, ct_stdin = ex_infile\<rparr> =
     Some (101, \<lparr>ct_rd = rd_start (\<lambda>_. 0) (\<lambda>_ _. None), ct_fs = ex_fs, ct_out = ex_outs, ct_stdin = ex_infile\<rparr>)"
    by (simp add: mcdbctl_main_def mcdbctl_query_def query_args_def mcdb_error_def mcdb_errors)
  from m main_exit_status [OF m] show ?thesis by simp
qed



end
