(* ===== verification/Nss_Struct.thy ===== *)
theory Nss_Struct
  imports Mcdb_Find
begin

text \<open>
  What the nsswitch.conf modules of src/nss share: status codes, byte buffers of a caller with
  their address and size, C strings in them, and integers in network byte order.  A store past
  the end of a buffer is undefined behaviour, as everywhere in the development.
\<close>

subsection \<open>Status codes, errors, sizes\<close>

datatype nss_status = NSS_STATUS_TRYAGAIN | NSS_STATUS_UNAVAIL | NSS_STATUS_NOTFOUND
  | NSS_STATUS_SUCCESS | NSS_STATUS_RETURN

definition ERANGE :: nat where "ERANGE = 34"
definition USHRT_MAX :: nat where "USHRT_MAX = 65535"

text \<open>The difference of two \<^verbatim>\<open>size_t\<close>, which wraps around at 64 bits.\<close>

definition size_diff :: "nat \<Rightarrow> nat \<Rightarrow> nat" where
  "size_diff a b = (a + (2 ^ 64 - b)) mod 2 ^ 64"

lemma size_diff_le: "b \<le> a \<Longrightarrow> a < 2 ^ 64 \<Longrightarrow> size_diff a b = a - b"
proof -
  assume "b \<le> a" "a < 2 ^ 64"
  then have "a + (2 ^ 64 - b) = (a - b) + 2 ^ 64" by simp
  then show ?thesis using \<open>a < 2 ^ 64\<close> by (simp only: size_diff_def mod_add_self2) simp
qed

lemma size_diff_less: "a < b \<Longrightarrow> b \<le> 2 ^ 64 \<Longrightarrow> size_diff a b = 2 ^ 64 - (b - a)"
  by (simp add: size_diff_def)

subsection \<open>Network byte order\<close>

text \<open>The bytes of \<^verbatim>\<open>htons\<close> and \<^verbatim>\<open>htonl\<close>, and the values that \<^verbatim>\<open>ntohs\<close> and \<^verbatim>\<open>ntohl\<close>
  read from an offset of a header.\<close>

definition htons :: "nat \<Rightarrow> bytes" where
  "htons v = be_bytes 2 (unat (word_of_nat v :: u16))"

definition htonl :: "u32 \<Rightarrow> bytes" where
  "htonl v = be_bytes 4 (unat v)"

definition ntohs :: "bytes \<Rightarrow> nat \<Rightarrow> nat" where
  "ntohs hdr off = be_val (take 2 (drop off hdr))"

definition ntohl :: "bytes \<Rightarrow> nat \<Rightarrow> u32" where
  "ntohl hdr off = word_of_nat (be_val (take 4 (drop off hdr)))"

lemma length_htons [simp]: "length (htons v) = 2" "length (htonl u) = 4"
  by (simp_all add: htons_def htonl_def)

text \<open>A header is filled field by field.\<close>

definition put_hdr :: "nat \<Rightarrow> bytes \<Rightarrow> mem \<Rightarrow> mem" where
  "put_hdr off bs hdr = mem_upd hdr off bs"

subsection \<open>Buffers\<close>

definition buf_store :: "nat \<Rightarrow> nat \<Rightarrow> bytes \<Rightarrow> mem \<Rightarrow> mem option" where
  "buf_store bufsz off bs buf = (if off + length bs \<le> bufsz then Some (mem_upd buf off bs) else None)"

definition buf_load :: "nat \<Rightarrow> nat \<Rightarrow> nat \<Rightarrow> mem \<Rightarrow> bytes option" where
  "buf_load bufsz off n buf = (if off + n \<le> bufsz then Some (mem_slice buf off n) else None)"

lemma buf_store_in: "off + length bs \<le> bufsz \<Longrightarrow> buf_store bufsz off bs buf = Some (mem_upd buf off bs)"
  by (simp add: buf_store_def)

lemma buf_load_in: "off + n \<le> bufsz \<Longrightarrow> buf_load bufsz off n buf = Some (mem_slice buf off n)"
  by (simp add: buf_load_def)

text \<open>A C string with its terminator; \<^verbatim>\<open>cstr_ok\<close>: it holds no other NUL.\<close>

definition cz :: "bytes \<Rightarrow> bytes" where
  "cz s = s @ [0]"

definition cstr_ok :: "bytes \<Rightarrow> bool" where
  "cstr_ok s \<longleftrightarrow> 0 \<notin> set s"

lemma length_cz [simp]: "length (cz s) = Suc (length s)"
  by (simp add: cz_def)

text \<open>The C string at an offset of a buffer, if it ends inside the buffer.\<close>

function cstr_at :: "nat \<Rightarrow> mem \<Rightarrow> nat \<Rightarrow> bytes option" where
  "cstr_at bufsz buf off =
     (if off < bufsz then
        (if buf off = 0 then Some [] else map_option (\<lambda>s. buf off # s) (cstr_at bufsz buf (Suc off)))
      else None)"
  by pat_completeness auto
termination by (relation "measure (\<lambda>(bufsz, buf, off). bufsz - off)") auto

declare cstr_at.simps [simp del]

lemma cstr_at_slice:
  "cstr_ok s \<Longrightarrow> off + length (cz s) \<le> bufsz \<Longrightarrow> mem_slice buf off (length (cz s)) = cz s \<Longrightarrow>
   cstr_at bufsz buf off = Some s"
proof (induction s arbitrary: off)
  case Nil
  then have "buf off = 0" using mem_slice_eqD [of buf off 1 "\<lambda>_. 0" off] by (simp add: cz_def mem_slice_def)
  with Nil show ?case by (simp add: cstr_at.simps)
next
  case (Cons c s)
  have split: "mem_slice buf off (Suc (length (cz s))) = buf off # mem_slice buf (Suc off) (length (cz s))"
    using mem_slice_add [of buf off 1 "length (cz s)"] by (simp add: mem_slice_def)
  then have "buf off = c" "mem_slice buf (Suc off) (length (cz s)) = cz s"
    using Cons.prems(3) by (simp_all add: cz_def)
  moreover have "cstr_at bufsz buf (Suc off) = Some s"
    using Cons.IH [of "Suc off"] Cons.prems calculation by (simp add: cstr_ok_def)
  ultimately show ?case using Cons.prems by (simp add: cstr_at.simps [of bufsz buf off] cstr_ok_def)
qed

lemma ntohs_htons: 
  assumes "take 2 (drop off hdr) = htons v" "v \<le> USHRT_MAX"
  shows "ntohs hdr off = v"
  using assms by (simp add: ntohs_def htons_def be_val_be_bytes USHRT_MAX_def unat_of_nat)

lemma ntohl_htonl: 
  assumes "take 4 (drop off hdr) = htonl v"
  shows "ntohl hdr off = v"
  using assms unat_u32_less [of v] by (simp add: ntohl_def htonl_def be_val_be_bytes)

end
