(* ===== verification/Nss_Acct_Codec.thy ===== *)
theory Nss_Acct_Codec
  imports Nss_Struct
begin

text \<open>
  The stored form of passwd and group entries and of a user's list of groups:
  \<^verbatim>\<open>*_datastr\<close> of nss_mcdb_acct_make.c, which lay an entry out in the data buffer of the
  database builder, and \<^verbatim>\<open>*_decode\<close> of nss_mcdb_acct.c, which rebuild the libc struct in
  the buffer of a caller.  The Linux layout of 64-bit builds.

  The structs are polymorphic in what a string is: the encoders read strings, the decoders
  produce pointers, that is 64-bit addresses into the caller's buffer.
\<close>

record 's passwd =
  pw_name :: 's
  pw_passwd :: 's
  pw_uid :: u32
  pw_gid :: u32
  pw_gecos :: 's
  pw_dir :: 's
  pw_shell :: 's

record ('s, 'm) group_ent =
  gr_name :: 's
  gr_passwd :: 's
  gr_gid :: u32
  gr_mem :: 'm       \<comment> \<open>the members; in a decoded entry, the address of the pointer array\<close>

subsection \<open>Layout of the headers\<close>

definition NSS_PW_PASSWD :: nat where "NSS_PW_PASSWD = 0"
definition NSS_PW_GECOS :: nat where "NSS_PW_GECOS = 2"
definition NSS_PW_DIR :: nat where "NSS_PW_DIR = 4"
definition NSS_PW_SHELL :: nat where "NSS_PW_SHELL = 6"
definition NSS_PW_UID :: nat where "NSS_PW_UID = 8"
definition NSS_PW_GID :: nat where "NSS_PW_GID = 12"
definition NSS_PW_HDRSZ :: nat where "NSS_PW_HDRSZ = 16"
definition NSS_GR_PASSWD :: nat where "NSS_GR_PASSWD = 0"
definition NSS_GR_MEM_STR :: nat where "NSS_GR_MEM_STR = 2"
definition NSS_GR_MEM :: nat where "NSS_GR_MEM = 4"
definition NSS_GR_MEM_NUM :: nat where "NSS_GR_MEM_NUM = 6"
definition NSS_GR_GID :: nat where "NSS_GR_GID = 8"
definition NSS_GR_HDRSZ :: nat where "NSS_GR_HDRSZ = 12"
definition NSS_GL_NGROUPS :: nat where "NSS_GL_NGROUPS = 0"
definition NSS_GL_HDRSZ :: nat where "NSS_GL_HDRSZ = 4"

lemmas nss_acct_consts = NSS_PW_PASSWD_def NSS_PW_GECOS_def NSS_PW_DIR_def NSS_PW_SHELL_def
  NSS_PW_UID_def NSS_PW_GID_def NSS_PW_HDRSZ_def NSS_GR_PASSWD_def NSS_GR_MEM_STR_def NSS_GR_MEM_def
  NSS_GR_MEM_NUM_def NSS_GR_GID_def NSS_GR_HDRSZ_def NSS_GL_NGROUPS_def NSS_GL_HDRSZ_def USHRT_MAX_def

subsection \<open>Encoding\<close>

text \<open>
  The encoders take the buffer's size and content, the entry and \<^verbatim>\<open>errno\<close>, and return the
  length (0 is failure), the buffer and \<^verbatim>\<open>errno\<close>.
\<close>

definition passwd_hdr :: "nat \<Rightarrow> nat \<Rightarrow> nat \<Rightarrow> nat \<Rightarrow> u32 \<Rightarrow> u32 \<Rightarrow> bytes" where
  "passwd_hdr pw_passwd_offset pw_gecos_offset pw_dir_offset pw_shell_offset uid gid =
     mem_slice
       (put_hdr NSS_PW_GID (htonl gid) (put_hdr NSS_PW_UID (htonl uid)
       (put_hdr NSS_PW_SHELL (htons pw_shell_offset) (put_hdr NSS_PW_DIR (htons pw_dir_offset)
       (put_hdr NSS_PW_GECOS (htons pw_gecos_offset) (put_hdr NSS_PW_PASSWD (htons pw_passwd_offset)
         (\<lambda>_. 0))))))) 0 NSS_PW_HDRSZ"

definition nss_mcdb_acct_make_passwd_datastr ::
  "nat \<Rightarrow> mem \<Rightarrow> bytes passwd \<Rightarrow> nat \<Rightarrow> (nat \<times> mem \<times> nat) option" where
  "nss_mcdb_acct_make_passwd_datastr bufsz buf pw errno =
    (let pw_passwd_offset = 1 + length (pw_name pw);
         pw_gecos_offset = pw_passwd_offset + (1 + length (pw_passwd pw));
         pw_dir_offset = pw_gecos_offset + (1 + length (pw_gecos pw));
         pw_shell_offset = pw_dir_offset + (1 + length (pw_dir pw));
         dlen = NSS_PW_HDRSZ + pw_shell_offset + (1 + length (pw_shell pw))
     in if dlen \<le> bufsz \<and> pw_passwd_offset \<le> USHRT_MAX \<and> pw_gecos_offset \<le> USHRT_MAX \<and>
           pw_dir_offset \<le> USHRT_MAX \<and> pw_shell_offset \<le> USHRT_MAX
        then do {
          b0 \<leftarrow> buf_store bufsz 0 (passwd_hdr pw_passwd_offset pw_gecos_offset pw_dir_offset
                                     pw_shell_offset (pw_uid pw) (pw_gid pw)) buf;
          b1 \<leftarrow> buf_store bufsz NSS_PW_HDRSZ (cz (pw_name pw)) b0;
          b2 \<leftarrow> buf_store bufsz (NSS_PW_HDRSZ + pw_passwd_offset) (cz (pw_passwd pw)) b1;
          b3 \<leftarrow> buf_store bufsz (NSS_PW_HDRSZ + pw_gecos_offset) (cz (pw_gecos pw)) b2;
          b4 \<leftarrow> buf_store bufsz (NSS_PW_HDRSZ + pw_dir_offset) (cz (pw_dir pw)) b3;
          b5 \<leftarrow> buf_store bufsz (NSS_PW_HDRSZ + pw_shell_offset) (cz (pw_shell pw)) b4;
          Some (dlen - 1, b5, errno) }
        else Some (0, buf, ERANGE))"

text \<open>
  The loop over the members: it stops at the end of the list or at the first member without
  room, and returns the end of the data, the number of members stored and the rest.
\<close>

fun group_members :: "nat \<Rightarrow> bytes list \<Rightarrow> nat \<Rightarrow> nat \<Rightarrow> mem \<Rightarrow> (nat \<times> nat \<times> bytes list \<times> mem) option" where
  "group_members bufsz [] dlen gr_mem_num buf = Some (dlen, gr_mem_num, [], buf)"
| "group_members bufsz (str # rest) dlen gr_mem_num buf =
     (let len = 1 + length str
      in if len \<le> bufsz - dlen then do {
           b \<leftarrow> buf_store bufsz dlen (cz str) buf;
           group_members bufsz rest (dlen + len) (gr_mem_num + 1) b }
         else Some (dlen, gr_mem_num, str # rest, buf))"

definition group_hdr :: "nat \<Rightarrow> nat \<Rightarrow> nat \<Rightarrow> nat \<Rightarrow> u32 \<Rightarrow> bytes" where
  "group_hdr gr_passwd_offset gr_mem_str_offset gr_mem_offset gr_mem_num gid =
     mem_slice
       (put_hdr NSS_GR_GID (htonl gid) (put_hdr NSS_GR_MEM_NUM (htons gr_mem_num)
       (put_hdr NSS_GR_MEM_STR (htons gr_mem_str_offset) (put_hdr NSS_GR_PASSWD (htons gr_passwd_offset)
       (put_hdr NSS_GR_MEM (htons gr_mem_offset) (\<lambda>_. 0)))))) 0 NSS_GR_HDRSZ"

definition nss_mcdb_acct_make_group_datastr ::
  "nat \<Rightarrow> mem \<Rightarrow> (bytes, bytes list) group_ent \<Rightarrow> nat \<Rightarrow> (nat \<times> mem \<times> nat) option" where
  "nss_mcdb_acct_make_group_datastr bufsz buf gr errno =
    (let gr_name_len = 1 + length (gr_name gr);
         gr_passwd_len = 1 + length (gr_passwd gr);
         gr_passwd_offset = gr_name_len;
         gr_mem_str_offset = gr_passwd_offset + gr_passwd_len;
         dlen = NSS_GR_HDRSZ + gr_mem_str_offset
     in if gr_name_len \<le> USHRT_MAX \<and> gr_passwd_len \<le> USHRT_MAX \<and> dlen < bufsz
        then do {
          (dlen', gr_mem_num, rest, b0) \<leftarrow> group_members bufsz (gr_mem gr) dlen 0 buf;
          if gr_mem_num \<le> USHRT_MAX \<and> rest = [] \<and> gr_mem_num * 8 + 8 + 7 \<le> bufsz - dlen'
          then do {
            b1 \<leftarrow> buf_store bufsz 0 (group_hdr gr_passwd_offset gr_mem_str_offset
                                       (dlen' - NSS_GR_HDRSZ) gr_mem_num (gr_gid gr)) b0;
            b2 \<leftarrow> buf_store bufsz NSS_GR_HDRSZ (cz (gr_name gr)) b1;
            b3 \<leftarrow> buf_store bufsz (NSS_GR_HDRSZ + gr_passwd_offset) (cz (gr_passwd gr)) b2;
            Some (dlen', b3, errno) }
          else Some (0, b0, ERANGE) }
        else Some (0, buf, ERANGE))"

text \<open>One list of group ids, each stored as four bytes.\<close>

fun gidlist_store :: "nat \<Rightarrow> u32 list \<Rightarrow> nat \<Rightarrow> mem \<Rightarrow> mem option" where
  "gidlist_store bufsz [] off buf = Some buf"
| "gidlist_store bufsz (g # gs) off buf = do {
     b \<leftarrow> buf_store bufsz off (htonl g) buf;
     gidlist_store bufsz gs (off + 4) b }"

definition nss_mcdb_acct_make_grouplist_datastr ::
  "nat \<Rightarrow> mem \<Rightarrow> u32 list \<Rightarrow> nat \<Rightarrow> (nat \<times> mem \<times> nat) option" where
  "nss_mcdb_acct_make_grouplist_datastr bufsz buf gidlist errno =
    (let ngids = (word_of_nat (length gidlist) :: u32);
         sz = NSS_GL_HDRSZ + unat ngids * 4
     in if sz \<le> bufsz then do {
          b0 \<leftarrow> buf_store bufsz 0 (htonl ngids) buf;
          b1 \<leftarrow> gidlist_store bufsz gidlist NSS_GL_HDRSZ b0;
          Some (sz, b1, errno) }
        else Some (0, buf, ERANGE))"

subsection \<open>Decoding\<close>

text \<open>
  What a decode routine sees of a query, \<^verbatim>\<open>struct nss_mcdb_vinfo\<close>: the caller's buffer at an
  address with its size and content, and the caller's struct.  The data is read through the map
  of the \<^verbatim>\<open>struct mcdb\<close>.  The result is the status, what became of buffer and struct, and the
  environment with \<^verbatim>\<open>errno\<close>; whenever \<^verbatim>\<open>*errnop\<close> is assigned it is assigned the same value.
\<close>

record 'e vinfo =
  v_addr :: u64
  v_bufsz :: nat
  v_mem :: mem
  v_struct :: 'e

type_synonym 'v decoder = "mcdb \<Rightarrow> 'v \<Rightarrow> rd \<Rightarrow> (nss_status \<times> 'v \<times> rd) option"

definition vbuf_store :: "nat \<Rightarrow> bytes \<Rightarrow> 'e vinfo \<Rightarrow> 'e vinfo option" where
  "vbuf_store off bs v = map_option (\<lambda>f. v\<lparr>v_mem := f\<rparr>) (buf_store (v_bufsz v) off bs (v_mem v))"

definition nss_mcdb_acct_passwd_decode :: "u64 passwd vinfo decoder" where
  "nss_mcdb_acct_passwd_decode m v w = do {
     mm \<leftarrow> get_map (m_map m) w;
     let dlen = size_diff (unat (m_dlen m)) NSS_PW_HDRSZ;
     if dlen < v_bufsz v then do {
       dat \<leftarrow> map_load mm (m_dpos m + of_nat NSS_PW_HDRSZ) dlen;
       v1 \<leftarrow> vbuf_store 0 dat v;
       v2 \<leftarrow> vbuf_store dlen [0] v1;
       hdr \<leftarrow> map_load mm (m_dpos m) NSS_PW_HDRSZ;
       let ptr = (\<lambda>field. v_addr v + of_nat (ntohs hdr field));
       Some (NSS_STATUS_SUCCESS,
         v2\<lparr>v_struct := \<lparr>pw_name = v_addr v, pw_passwd = ptr NSS_PW_PASSWD, pw_uid = ntohl hdr NSS_PW_UID,
               pw_gid = ntohl hdr NSS_PW_GID, pw_gecos = ptr NSS_PW_GECOS, pw_dir = ptr NSS_PW_DIR,
               pw_shell = ptr NSS_PW_SHELL\<rparr>\<rparr>, w) }
     else Some (NSS_STATUS_TRYAGAIN, v, w\<lparr>r_errno := ERANGE\<rparr>) }"

text \<open>A pointer as it is stored: eight bytes, least significant first.\<close>

definition ptr_bytes :: "u64 \<Rightarrow> bytes" where
  "ptr_bytes p = rev (be_bytes 8 (unat p))"

text \<open>\<^verbatim>\<open>while (*++buf != 0) ;\<close> from an offset: the offset of the NUL it stops at.\<close>

function scan_nul :: "'e vinfo \<Rightarrow> nat \<Rightarrow> nat option" where
  "scan_nul v off =
     (if Suc off < v_bufsz v then (if v_mem v (Suc off) = 0 then Some (Suc off) else scan_nul v (Suc off))
      else None)"
  by pat_completeness auto
termination by (relation "measure (\<lambda>(v, off). v_bufsz v - off)") auto

declare scan_nul.simps [simp del]

text \<open>The loop that finds the members: n pointers from index i on, the previous member being at
  offset \<^term>\<open>off\<close> and the array at offset \<^term>\<open>arr\<close>.\<close>

fun group_ptrs :: "nat \<Rightarrow> nat \<Rightarrow> nat \<Rightarrow> nat \<Rightarrow> 'e vinfo \<Rightarrow> 'e vinfo option" where
  "group_ptrs 0 i arr off v = Some v"
| "group_ptrs (Suc n) i arr off v = do {
     e \<leftarrow> scan_nul v off;
     v1 \<leftarrow> vbuf_store (arr + 8 * i) (ptr_bytes (v_addr v + of_nat (Suc e))) v;
     group_ptrs n (Suc i) arr (Suc e) v1 }"

text \<open>
  The array is aligned with the mask \<^verbatim>\<open>~0x7u\<close>, an unsigned int, which the operation widens
  to 64 bits with zeros.
\<close>

definition align_mask :: u64 where
  "align_mask = ucast (NOT (7 :: u32))"

definition nss_mcdb_acct_group_decode :: "(u64, u64) group_ent vinfo decoder" where
  "nss_mcdb_acct_group_decode m v0 w = do {
     mm \<leftarrow> get_map (m_map m) w;
     hdr \<leftarrow> map_load mm (m_dpos m) NSS_GR_HDRSZ;
     let gr_mem_num = ntohs hdr NSS_GR_MEM_NUM;
     let gr_mem = (v_addr v0 + of_nat (ntohs hdr NSS_GR_MEM) + 7) AND align_mask;
     let v = v0\<lparr>v_struct := \<lparr>gr_name = v_addr v0, gr_passwd = v_addr v0 + of_nat (ntohs hdr NSS_GR_PASSWD),
               gr_gid = ntohl hdr NSS_GR_GID, gr_mem = gr_mem\<rparr>\<rparr>;
     if unat (gr_mem - v_addr v + of_nat (gr_mem_num + 1) * 8) \<le> v_bufsz v then do {
       let arr = unat (gr_mem - v_addr v);
       dat \<leftarrow> map_load mm (m_dpos m + of_nat NSS_GR_HDRSZ) (size_diff (unat (m_dlen m)) NSS_GR_HDRSZ);
       v1 \<leftarrow> vbuf_store 0 dat v;
       let off = ntohs hdr NSS_GR_MEM_STR;
       v2 \<leftarrow> vbuf_store arr (ptr_bytes (v_addr v + of_nat off)) v1;
       v3 \<leftarrow> group_ptrs (gr_mem_num - 1) 1 arr off v2;
       v4 \<leftarrow> vbuf_store (arr + 8 * gr_mem_num) (ptr_bytes 0) v3;
       Some (NSS_STATUS_SUCCESS, v4, w) }
     else Some (NSS_STATUS_TRYAGAIN, v, w\<lparr>r_errno := ERANGE\<rparr>) }"

subsection \<open>Decoding a list of groups\<close>

text \<open>
  For a list of groups the buffer is an array of \<^verbatim>\<open>bufsz\<close> group ids, and the struct is one
  id: the user's own group on entry, the number of groups on return.
\<close>

record gl_vinfo =
  gl_buf :: "nat \<Rightarrow> u32"
  gl_bufsz :: nat
  gl_struct :: u32

definition gid_at :: "mcdb_mmap \<Rightarrow> u64 \<Rightarrow> u32 option" where
  "gid_at mm dptr = map_option (\<lambda>bs. word_of_nat (be_val bs)) (map_load mm dptr 4)"

text \<open>The ids that differ from \<^term>\<open>gid\<close> among n stored ones, counted on from x.\<close>

fun gl_count :: "mcdb_mmap \<Rightarrow> u32 \<Rightarrow> nat \<Rightarrow> u64 \<Rightarrow> nat \<Rightarrow> nat option" where
  "gl_count mm gid 0 dptr x = Some x"
| "gl_count mm gid (Suc n) dptr x = do {
     g \<leftarrow> gid_at mm dptr;
     gl_count mm gid n (dptr + 4) (if gid \<noteq> g then x + 1 else x) }"

text \<open>The loop that copies n ids: each is stored, and kept if it differs from \<^term>\<open>gid\<close>.\<close>

fun gl_copy :: "mcdb_mmap \<Rightarrow> u32 \<Rightarrow> nat \<Rightarrow> u64 \<Rightarrow> nat \<Rightarrow> gl_vinfo \<Rightarrow> (nat \<times> gl_vinfo) option" where
  "gl_copy mm gid 0 dptr x v = Some (x, v)"
| "gl_copy mm gid (Suc n) dptr x v = do {
     g \<leftarrow> gid_at mm dptr;
     _ \<leftarrow> guard (x < gl_bufsz v);
     gl_copy mm gid n (dptr + 4) (if g \<noteq> gid then x + 1 else x) (v\<lparr>gl_buf := (gl_buf v)(x := g)\<rparr>) }"

text \<open>The second half: the user's own group comes first.\<close>

definition gl_fill :: "mcdb_mmap \<Rightarrow> nat \<Rightarrow> u64 \<Rightarrow> gl_vinfo \<Rightarrow> rd \<Rightarrow> (nss_status \<times> gl_vinfo \<times> rd) option" where
  "gl_fill mm n dptr v w = do {
     let gid = gl_struct v;
     _ \<leftarrow> guard (0 < gl_bufsz v);
     (x, v1) \<leftarrow> gl_copy mm gid (n - 1) dptr 1 (v\<lparr>gl_buf := (gl_buf v)(0 := gid)\<rparr>);
     Some (NSS_STATUS_SUCCESS, v1\<lparr>gl_struct := word_of_nat x\<rparr>, w) }"

text \<open>
  A stored count for which \<^verbatim>\<open>1 + (int)\<close> is not a positive int overflows or runs off the data;
  both are undefined.
\<close>

definition nss_mcdb_acct_grouplist_decode :: "gl_vinfo decoder" where
  "nss_mcdb_acct_grouplist_decode m v w = do {
     mm \<leftarrow> get_map (m_map m) w;
     hdr \<leftarrow> map_load mm (m_dpos m) NSS_GL_HDRSZ;
     let gid = gl_struct v;
     let dptr = m_dpos m + of_nat NSS_GL_HDRSZ;
     let ngroups = unat (ntohl hdr NSS_GL_NGROUPS);
     _ \<leftarrow> guard (ngroups < INT_MAX);
     let n = 1 + ngroups;
     if n > gl_bufsz v then do {
       x \<leftarrow> gl_count mm gid (n - 1) dptr 1;
       if x > gl_bufsz v then
         Some (NSS_STATUS_TRYAGAIN, v\<lparr>gl_struct := word_of_nat x\<rparr>, w\<lparr>r_errno := ERANGE\<rparr>)
       else gl_fill mm (1 + x) (dptr + of_nat ((n - 1) * 4) - of_nat (x * 4)) v w }
     else gl_fill mm n dptr v w }"

end
