(* ===== verification/Nss_Groupmem.thy ===== *)
theory Nss_Groupmem
  imports Nss_Acct_Codec
begin

text \<open>
  The database builder of src/nss and its table of group memberships.  \<^verbatim>\<open>nss_mcdb_make_winfo\<close>
  (nss_mcdb_make.h) carries the database under construction and the buffer that an entry is
  encoded in; \<^verbatim>\<open>nss_mcdb_acct_make_groupmem\<close> (nss_mcdb_acct_make.c) is the hash map from user
  names to lists of group ids, allocated from two pools, that is written out at the end.
\<close>

subsection \<open>The builder\<close>

text \<open>The key is the first \<^verbatim>\<open>klen\<close> bytes behind the pointer \<^verbatim>\<open>key\<close>.\<close>

record winfo =
  wi_m :: mcdb_make
  wi_data :: mem
  wi_datasz :: nat
  wi_dlen :: nat
  wi_key :: bytes
  wi_tagc :: u8

definition nss_mcdb_make_mcdbctl_write :: "plasma_endian \<Rightarrow> winfo \<Rightarrow> os \<Rightarrow> (bool \<times> winfo \<times> os) option" where
  "nss_mcdb_make_mcdbctl_write P w s = do {
     (rc, m1, s1) \<leftarrow> mcdb_make_addbegin P (wi_m w) (length (wi_key w) + 1) (wi_dlen w) s;
     if rc = 0 then do {
       (m2, s2) \<leftarrow> mcdb_make_addbuf_key m1 [wi_tagc w] s1;
       (m3, s3) \<leftarrow> mcdb_make_addbuf_key m2 (wi_key w) s2;
       dat \<leftarrow> buf_load (wi_datasz w) 0 (wi_dlen w) (wi_data w);
       (m4, s4) \<leftarrow> mcdb_make_addbuf_data m3 dat s3;
       m5 \<leftarrow> mcdb_make_addend m4;
       Some (True, w\<lparr>wi_m := m5\<rparr>, s4) }
     else Some (False, w\<lparr>wi_m := m1\<rparr>, s1) }"

subsection \<open>Pools\<close>

text \<open>
  A pool is its chain of malloc'd blocks, newest first (empty: the null pointer), and the two
  static variables of the function that allocates from it, which outlive the pool.
\<close>

record pool =
  po_blocks :: "nat list"
  po_sz :: nat
  po_idx :: nat

definition GROUPMEM_POOL_SZ :: nat where "GROUPMEM_POOL_SZ = 65536 + 8"

definition pool_empty :: pool where
  "pool_empty = \<lparr>po_blocks = [], po_sz = 0, po_idx = 0\<rparr>"

definition nss_mcdb_acct_make_groupmem_pool_alloc ::
  "nat \<Rightarrow> nat \<Rightarrow> pool \<Rightarrow> os \<Rightarrow> bool \<times> pool \<times> os" where
  "nss_mcdb_acct_make_groupmem_pool_alloc sc_getgr_r_size_max sz p s =
     (if sz > sc_getgr_r_size_max then (False, p, s)
      else case os_malloc s of
        (None, s1) \<Rightarrow> (False, p, s1)
      | (Some b, s1) \<Rightarrow> (True, \<lparr>po_blocks = b # po_blocks p, po_sz = GROUPMEM_POOL_SZ, po_idx = 8\<rparr>, s1))"

text \<open>
  \<^verbatim>\<open>nss_mcdb_acct_make_groupmem_alloc\<close> and \<^verbatim>\<open>nss_mcdb_acct_make_groupmem_stralloc\<close>, the same
  code for the two pools.  The caller fills the memory at once: memory in no block, or past the
  end of the newest one, is undefined.
\<close>

definition pool_take :: "nat \<Rightarrow> nat \<Rightarrow> pool \<Rightarrow> os \<Rightarrow> (bool \<times> pool \<times> os) option" where
  "pool_take sc_getgr_r_size_max sz p s =
     (let (ok, p1, s1) =
        (if sz \<le> po_sz p \<and> po_idx p \<le> po_sz p - sz then (True, p, s)
         else nss_mcdb_acct_make_groupmem_pool_alloc sc_getgr_r_size_max sz p s)
      in if ok then do {
           _ \<leftarrow> guard (po_blocks p1 \<noteq> [] \<and> po_idx p1 + sz \<le> GROUPMEM_POOL_SZ);
           Some (True, p1\<lparr>po_idx := po_idx p1 + sz\<rparr>, s1) }
         else Some (False, p1, s1))"

subsection \<open>The table of memberships\<close>

record groupmem =
  gm_name :: bytes
  gm_namelen :: u32
  gm_hash :: u32
  gm_gids :: "u32 list"       \<comment> \<open>the first \<^verbatim>\<open>ngids\<close> elements of \<^verbatim>\<open>gidlist\<close>\<close>
  gm_gidlist_sz :: nat

definition groupmem_hashmap_sz :: nat where "groupmem_hashmap_sz = 2048"

text \<open>The three static variables: the hash map with the block it is in, null at first, and the pools.\<close>

record groupmems =
  gs_hashmap :: "(nat \<times> (nat \<Rightarrow> groupmem list)) option"
  gs_pool :: pool
  gs_strpool :: pool

definition groupmems_init :: groupmems where
  "groupmems_init = \<lparr>gs_hashmap = None, gs_pool = pool_empty, gs_strpool = pool_empty\<rparr>"

definition nss_mcdb_acct_make_grouplist_free :: "bool \<Rightarrow> groupmems \<Rightarrow> os \<Rightarrow> (bool \<times> groupmems \<times> os) option" where
  "nss_mcdb_acct_make_grouplist_free rc g s = do {
     s1 \<leftarrow> (case gs_hashmap g of None \<Rightarrow> Some s | Some (b, _) \<Rightarrow> os_free b s);
     s2 \<leftarrow> os_free_list (po_blocks (gs_pool g)) s1;
     s3 \<leftarrow> os_free_list (po_blocks (gs_strpool g)) s2;
     Some (rc, \<lparr>gs_hashmap = None, gs_pool = (gs_pool g)\<lparr>po_blocks := []\<rparr>,
                gs_strpool = (gs_strpool g)\<lparr>po_blocks := []\<rparr>\<rparr>, s3) }"

definition groupmem_is :: "u32 \<Rightarrow> bytes \<Rightarrow> groupmem \<Rightarrow> bool" where
  "groupmem_is hash name gm \<longleftrightarrow> gm_hash gm = hash \<and> hd (cz (gm_name gm)) = hd (cz name) \<and> cz (gm_name gm) = cz name"

text \<open>The first entry of the name in its bucket: its index.\<close>

fun groupmem_find :: "u32 \<Rightarrow> bytes \<Rightarrow> groupmem list \<Rightarrow> nat option" where
  "groupmem_find hash name [] = None"
| "groupmem_find hash name (gm # gms) =
     (if groupmem_is hash name gm then Some 0 else map_option Suc (groupmem_find hash name gms))"

definition sizeof_groupmem :: nat where "sizeof_groupmem = 32"

definition bucket_of :: "u32 \<Rightarrow> nat" where
  "bucket_of hash = unat (hash AND of_nat (groupmem_hashmap_sz - 1))"

text \<open>Storing one more id; past the allocated list it is undefined.\<close>

definition gm_push :: "u32 \<Rightarrow> groupmem \<Rightarrow> groupmem option" where
  "gm_push gid gm = (if length (gm_gids gm) < gm_gidlist_sz gm then Some (gm\<lparr>gm_gids := gm_gids gm @ [gid]\<rparr>) else None)"

text \<open>
  A full entry is copied to a larger one.  The copy receives the id; the bucket keeps pointing
  to the entry it was copied from.
\<close>

definition nss_mcdb_acct_make_grouplist_add ::
  "nat \<Rightarrow> bytes \<Rightarrow> u32 \<Rightarrow> groupmems \<Rightarrow> os \<Rightarrow> (bool \<times> groupmems \<times> os) option" where
  "nss_mcdb_acct_make_grouplist_add sc_getgr_r_size_max name gid g s =
    (let namelen = length name;
         hash = uint32_hash_djb UINT32_HASH_DJB_INIT name;
         (g1, s1) = (case gs_hashmap g of Some _ \<Rightarrow> (g, s)
            | None \<Rightarrow> (case os_malloc s of (None, s') \<Rightarrow> (g, s')
                | (Some b, s') \<Rightarrow> (g\<lparr>gs_hashmap := Some (b, \<lambda>_. [])\<rparr>, s')))
     in case gs_hashmap g1 of
          None \<Rightarrow> nss_mcdb_acct_make_grouplist_free False g1 s1
        | Some (b, hm) \<Rightarrow>
           (let i = bucket_of hash
            in case groupmem_find hash name (hm i) of
                 None \<Rightarrow> do {
                   (ok, p, s2) \<leftarrow> pool_take sc_getgr_r_size_max (sizeof_groupmem + 4 * 4) (gs_pool g1) s1;
                   let g2 = g1\<lparr>gs_pool := p\<rparr>;
                   if \<not> ok then nss_mcdb_acct_make_grouplist_free False g2 s2
                   else do {
                     (ok, q, s3) \<leftarrow> pool_take sc_getgr_r_size_max (namelen + 1) (gs_strpool g2) s2;
                     let g3 = g2\<lparr>gs_strpool := q\<rparr>;
                     if \<not> ok then nss_mcdb_acct_make_grouplist_free False g3 s3
                     else do {
                       gm \<leftarrow> gm_push gid \<lparr>gm_name = name, gm_namelen = of_nat namelen, gm_hash = hash,
                                           gm_gids = [], gm_gidlist_sz = 4\<rparr>;
                       Some (True, g3\<lparr>gs_hashmap := Some (b, hm(i := gm # hm i))\<rparr>, s3) } } }
               | Some k \<Rightarrow>
                   (let gm = hm i ! k
                    in if length (gm_gids gm) = gm_gidlist_sz gm then do {
                         (ok, p, s2) \<leftarrow> pool_take sc_getgr_r_size_max
                            (sizeof_groupmem + 4 * gm_gidlist_sz gm + 4 * 32) (gs_pool g1) s1;
                         let g2 = g1\<lparr>gs_pool := p\<rparr>;
                         if \<not> ok then nss_mcdb_acct_make_grouplist_free False g2 s2
                         else do {
                           _ \<leftarrow> gm_push gid (gm\<lparr>gm_gidlist_sz := gm_gidlist_sz gm + 32\<rparr>);
                           Some (True, g2, s2) } }
                       else do {
                         gm' \<leftarrow> gm_push gid gm;
                         Some (True, g1\<lparr>gs_hashmap := Some (b, hm(i := (hm i)[k := gm']))\<rparr>, s1) })))"

subsection \<open>Writing the table out\<close>

text \<open>\<^verbatim>\<open>NSS_MCDB_NGROUPS_MAX\<close> and the limit derived from \<^verbatim>\<open>sysconf(_SC_NGROUPS_MAX)\<close>.\<close>

definition NSS_MCDB_NGROUPS_MAX :: nat where "NSS_MCDB_NGROUPS_MAX = 256"

definition ngroups_limit :: "int \<Rightarrow> nat" where
  "ngroups_limit sc_ngroups_max =
     (if 0 < sc_ngroups_max \<and> sc_ngroups_max < int NSS_MCDB_NGROUPS_MAX then nat sc_ngroups_max else NSS_MCDB_NGROUPS_MAX)"

text \<open>The entries of one bucket; \<^term>\<open>False\<close> is one of the three failures.\<close>

fun flush_bucket :: "plasma_endian \<Rightarrow> nat \<Rightarrow> groupmem list \<Rightarrow> winfo \<Rightarrow> os \<Rightarrow> (bool \<times> winfo \<times> os) option" where
  "flush_bucket P ngids [] w s = Some (True, w, s)"
| "flush_bucket P ngids (gm # gms) w s =
     (if length (gm_gids gm) > ngids then Some (False, w, s)
      else do {
        let w1 = w\<lparr>wi_key := take (unat (gm_namelen gm)) (gm_name gm)\<rparr>;
        (dlen, buf, e) \<leftarrow> nss_mcdb_acct_make_grouplist_datastr (wi_datasz w1) (wi_data w1) (gm_gids gm) (o_errno s);
        let w2 = w1\<lparr>wi_data := buf, wi_dlen := dlen\<rparr>;
        let s2 = s\<lparr>o_errno := e\<rparr>;
        if dlen = 0 then Some (False, w2, s2)
        else do {
          (ok, w3, s3) \<leftarrow> nss_mcdb_make_mcdbctl_write P w2 s2;
          if ok then flush_bucket P ngids gms w3 s3 else Some (False, w3, s3) } })"

fun flush_buckets :: "plasma_endian \<Rightarrow> nat \<Rightarrow> (nat \<Rightarrow> groupmem list) \<Rightarrow> nat \<Rightarrow> nat \<Rightarrow> winfo \<Rightarrow> os \<Rightarrow> (bool \<times> winfo \<times> os) option" where
  "flush_buckets P ngids hm 0 i w s = Some (True, w, s)"
| "flush_buckets P ngids hm (Suc n) i w s = do {
     (ok, w1, s1) \<leftarrow> flush_bucket P ngids (hm i) w s;
     if ok then flush_buckets P ngids hm n (Suc i) w1 s1 else Some (False, w1, s1) }"

text \<open>Indexing the table while it is the null pointer is undefined.\<close>

definition nss_mcdb_acct_make_group_flush ::
  "plasma_endian \<Rightarrow> int \<Rightarrow> winfo \<Rightarrow> groupmems \<Rightarrow> os \<Rightarrow> (bool \<times> winfo \<times> groupmems \<times> os) option" where
  "nss_mcdb_acct_make_group_flush P sc_ngroups_max w g s = do {
     let ngids = ngroups_limit sc_ngroups_max;
     let w0 = w\<lparr>wi_tagc := 126\<rparr>;
     (b, hm) \<leftarrow> gs_hashmap g;
     (ok, w1, s1) \<leftarrow> flush_buckets P ngids hm groupmem_hashmap_sz 0 w0 s;
     (rc, g1, s2) \<leftarrow> nss_mcdb_acct_make_grouplist_free ok g s1;
     Some (rc, w1, g1, s2) }"

end
