(* ===== verification/Nss_Acct_Make.thy ===== *)
theory Nss_Acct_Make
  imports Nss_Groupmem
begin

text \<open>
  Making the passwd and group databases, nss_mcdb_acct_make.c: the records an entry is stored as,
  and the parsers of /etc/passwd and /etc/group.

  The parsers work in place on a private mapping of the file.  It is a byte memory that can be
  read up to \<^term>\<open>ext\<close>, the end of the last page: bytes past the end of the file read as NUL,
  and a load past the last page, as for a file that fills its last page and does not end where
  the parser expects, is undefined.
\<close>

subsection \<open>The records of an entry\<close>

definition write_tagged :: "plasma_endian \<Rightarrow> u8 \<Rightarrow> bytes \<Rightarrow> winfo \<Rightarrow> os \<Rightarrow> (bool \<times> winfo \<times> os) option" where
  "write_tagged P tagc key w s = nss_mcdb_make_mcdbctl_write P (w\<lparr>wi_tagc := tagc, wi_key := key\<rparr>) s"

definition nss_mcdb_acct_make_passwd_encode ::
  "plasma_endian \<Rightarrow> bytes passwd \<Rightarrow> winfo \<Rightarrow> os \<Rightarrow> (bool \<times> winfo \<times> os) option" where
  "nss_mcdb_acct_make_passwd_encode P pw w s = do {
     (dlen, buf, e) \<leftarrow> nss_mcdb_acct_make_passwd_datastr (wi_datasz w) (wi_data w) pw (o_errno s);
     let w1 = w\<lparr>wi_data := buf, wi_dlen := dlen\<rparr>;
     let s1 = s\<lparr>o_errno := e\<rparr>;
     if dlen = 0 then Some (False, w1, s1)
     else do {
       (ok, w2, s2) \<leftarrow> write_tagged P 61 (pw_name pw) w1 s1;
       if \<not> ok then Some (False, w2, s2)
       else write_tagged P 120 (htonl (pw_uid pw)) w2 s2 } }"

fun add_members :: "nat \<Rightarrow> bytes list \<Rightarrow> u32 \<Rightarrow> groupmems \<Rightarrow> os \<Rightarrow> (bool \<times> groupmems \<times> os) option" where
  "add_members sc [] gid g s = Some (True, g, s)"
| "add_members sc (m # ms) gid g s = do {
     (ok, g1, s1) \<leftarrow> nss_mcdb_acct_make_grouplist_add sc m gid g s;
     if ok then add_members sc ms gid g1 s1 else Some (False, g1, s1) }"

definition nss_mcdb_acct_make_group_encode ::
  "plasma_endian \<Rightarrow> nat \<Rightarrow> (bytes, bytes list) group_ent \<Rightarrow> winfo \<times> groupmems \<Rightarrow> os \<Rightarrow> (bool \<times> (winfo \<times> groupmems) \<times> os) option" where
  "nss_mcdb_acct_make_group_encode P sc gr wg s =
    (let (w, g) = wg in do {
     (ok, g1, s0) \<leftarrow> add_members sc (gr_mem gr) (gr_gid gr) g s;
     if \<not> ok then Some (False, (w, g1), s0)
     else do {
       (dlen, buf, e) \<leftarrow> nss_mcdb_acct_make_group_datastr (wi_datasz w) (wi_data w) gr (o_errno s0);
       let w1 = w\<lparr>wi_data := buf, wi_dlen := dlen\<rparr>;
       let s1 = s0\<lparr>o_errno := e\<rparr>;
       if dlen = 0 then Some (False, (w1, g1), s1)
       else do {
         (ok, w2, s2) \<leftarrow> write_tagged P 61 (gr_name gr) w1 s1;
         if \<not> ok then Some (False, (w2, g1), s2)
         else do {
           (ok, w3, s3) \<leftarrow> write_tagged P 120 (htonl (gr_gid gr)) w2 s2;
           Some (ok, (w3, g1), s3) } } } })"

subsection \<open>Tokens\<close>

definition text_at :: "nat \<Rightarrow> mem \<Rightarrow> nat \<Rightarrow> u8 option" where
  "text_at ext f p = (if p < ext then Some (f p) else None)"

text \<open>The loops \<^verbatim>\<open>TOKEN_*_END\<close> of nss_mcdb_make.h: to the first of the given characters.\<close>

function tok_end :: "u8 list \<Rightarrow> nat \<Rightarrow> mem \<Rightarrow> nat \<Rightarrow> nat option" where
  "tok_end stops ext f p =
     (if p < ext then (if f p \<in> set stops then Some p else tok_end stops ext f (Suc p)) else None)"
  by pat_completeness auto
termination by (relation "measure (\<lambda>(stops, ext, f, p). ext - p)") auto

declare tok_end.simps [simp del]

definition TOKEN_COLONDELIM_END :: "nat \<Rightarrow> mem \<Rightarrow> nat \<Rightarrow> nat option" where
  "TOKEN_COLONDELIM_END = tok_end [58, 10, 0]"

definition TOKEN_COMMADELIM_END :: "nat \<Rightarrow> mem \<Rightarrow> nat \<Rightarrow> nat option" where
  "TOKEN_COMMADELIM_END = tok_end [44, 10, 0]"

text \<open>The comment skip: the line's end, or the end of the text.\<close>

definition TOKEN_POUNDCOMMENT_SKIP :: "nat \<Rightarrow> mem \<Rightarrow> nat \<Rightarrow> nat option" where
  "TOKEN_POUNDCOMMENT_SKIP ext f p = tok_end [10, 0] ext f (Suc p)"

text \<open>
  Parsing steps return \<^term>\<open>Some None\<close> for an invalid line.
\<close>

definition and_then :: "'a option option \<Rightarrow> ('a \<Rightarrow> 'b option option) \<Rightarrow> 'b option option" where
  "and_then x k = Option.bind x (\<lambda>r. case r of None \<Rightarrow> Some None | Some a \<Rightarrow> k a)"

text \<open>One field from \<^term>\<open>b\<close> to a delimiter, which becomes NUL.\<close>

definition colon_field :: "nat \<Rightarrow> bool \<Rightarrow> u8 \<Rightarrow> nat \<Rightarrow> mem \<Rightarrow> (nat \<times> mem) option option" where
  "colon_field ext nonempty delim b f = do {
     p \<leftarrow> TOKEN_COLONDELIM_END ext f b;
     c \<leftarrow> text_at ext f b;
     d \<leftarrow> text_at ext f p;
     if nonempty \<and> c = 58 \<or> d \<noteq> delim then Some None else Some (Some (p, f(p := 0))) }"

text \<open>\<^verbatim>\<open>strtol(s, &e, 10)\<close> on 64 bits: the value, the offset of e, and whether \<^verbatim>\<open>errno\<close> is
  \<^verbatim>\<open>ERANGE\<close>.\<close>

definition c_isspace :: "u8 \<Rightarrow> bool" where
  "c_isspace c \<longleftrightarrow> c \<in> {32, 9, 10, 11, 12, 13}"

definition LONG_MAX :: int where "LONG_MAX = 2 ^ 63 - 1"
definition LONG_MIN :: int where "LONG_MIN = - (2 ^ 63)"

definition strtol10 :: "bytes \<Rightarrow> int \<times> nat \<times> bool" where
  "strtol10 s =
    (let ws = length (takeWhile c_isspace s); r = drop ws s;
         neg = (r \<noteq> [] \<and> hd r = 45); sg = (if r \<noteq> [] \<and> (hd r = 45 \<or> hd r = 43) then 1 else 0);
         ds = takeWhile is_digit (drop sg r);
         v = (if neg then - int (dec_val ds) else int (dec_val ds)); e = ws + sg + length ds
     in if ds = [] then (0, 0, False)
        else if v > LONG_MAX then (LONG_MAX, e, True)
        else if v < LONG_MIN then (LONG_MIN, e, True)
        else (v, e, False))"

text \<open>A user or group id: -2 is accepted and wraps, other values outside 32 bits and -1 are not.\<close>

definition id_of_str :: "bytes \<Rightarrow> u32 option" where
  "id_of_str s =
    (let (n, e, erange) = strtol10 s
     in if e \<noteq> length s \<or> (n = LONG_MIN \<or> n = LONG_MAX) \<and> erange then None
        else
          (let i = (if 0 \<le> n \<and> n = uint (word_of_int n :: u32) then word_of_int n
                    else if n = -2 then -2 else (-1 :: u32))
           in if i = -1 then None else Some i))"

definition id_field :: "nat \<Rightarrow> nat \<Rightarrow> mem \<Rightarrow> (u32 \<times> nat \<times> mem) option option" where
  "id_field ext b f =
     and_then (colon_field ext True 58 b f) (\<lambda>(p, f1). do {
       s \<leftarrow> cstr_at ext f1 b;
       Some (map_option (\<lambda>i. (i, p, f1)) (id_of_str s)) })"

subsection \<open>/etc/passwd\<close>

definition passwd_line :: "nat \<Rightarrow> nat \<Rightarrow> mem \<Rightarrow> (bytes passwd \<times> nat \<times> mem) option option" where
  "passwd_line ext b f =
     and_then (colon_field ext True 58 b f) (\<lambda>(p1, f1).
     and_then (colon_field ext True 58 (Suc p1) f1) (\<lambda>(p2, f2).
     and_then (id_field ext (Suc p2) f2) (\<lambda>(uid, p3, f3).
     and_then (id_field ext (Suc p3) f3) (\<lambda>(gid, p4, f4).
     and_then (colon_field ext False 58 (Suc p4) f4) (\<lambda>(p5, f5).
     and_then (colon_field ext False 58 (Suc p5) f5) (\<lambda>(p6, f6).
     and_then (colon_field ext False 10 (Suc p6) f6) (\<lambda>(p7, f7). do {
       name \<leftarrow> cstr_at ext f7 b;
       passwd \<leftarrow> cstr_at ext f7 (Suc p1);
       gecos \<leftarrow> cstr_at ext f7 (Suc p4);
       dir \<leftarrow> cstr_at ext f7 (Suc p5);
       shell \<leftarrow> cstr_at ext f7 (Suc p6);
       Some (Some (\<lparr>pw_name = name, pw_passwd = passwd, pw_uid = uid, pw_gid = gid, pw_gecos = gecos,
                    pw_dir = dir, pw_shell = shell\<rparr>, p7, f7)) })))))))"

text \<open>The loop over the lines; \<^term>\<open>enc\<close> is \<^verbatim>\<open>w->encode\<close> on the state it works on.\<close>

partial_function (option) nss_mcdb_acct_make_passwd_parse ::
  "(bytes passwd \<Rightarrow> 's \<Rightarrow> (bool \<times> 's) option) \<Rightarrow> nat \<Rightarrow> nat \<Rightarrow> mem \<Rightarrow> 's \<Rightarrow> (bool \<times> 's) option" where
  "nss_mcdb_acct_make_passwd_parse enc ext p f s = do {
     c \<leftarrow> text_at ext f p;
     if c = 0 then Some (True, s)
     else if c = 35 then do {
       q \<leftarrow> TOKEN_POUNDCOMMENT_SKIP ext f p;
       d \<leftarrow> text_at ext f q;
       if d \<noteq> 0 then nss_mcdb_acct_make_passwd_parse enc ext (Suc q) f s else Some (True, s) }
     else do {
       r \<leftarrow> passwd_line ext p f;
       case r of None \<Rightarrow> Some (False, s)
       | Some (pw, q, f1) \<Rightarrow> do {
           (ok, s1) \<leftarrow> enc pw s;
           if ok then nss_mcdb_acct_make_passwd_parse enc ext (Suc q) f1 s1 else Some (False, s1) } } }"

subsection \<open>/etc/group\<close>

text \<open>The members from \<^term>\<open>b\<close> on, after those in \<^term>\<open>ms\<close>: pointers, the line's end, the text.\<close>

partial_function (option) group_line_members ::
  "nat \<Rightarrow> nat \<Rightarrow> nat list \<Rightarrow> nat \<Rightarrow> mem \<Rightarrow> (nat list \<times> nat \<times> mem) option option" where
  "group_line_members ext nmax ms b f = do {
     c \<leftarrow> text_at ext f b;
     if c = 10 then Some (Some (ms, b, f))
     else do {
       p \<leftarrow> TOKEN_COMMADELIM_END ext f b;
       d \<leftarrow> text_at ext f p;
       if d = 0 then Some None
       else if length ms < nmax then
         (if d \<noteq> 10 then group_line_members ext nmax (ms @ [b]) (Suc p) (f(p := 0))
          else Some (Some (ms @ [b], p, f(p := 0))))
       else Some None } }"

fun cstrs_at :: "nat \<Rightarrow> mem \<Rightarrow> nat list \<Rightarrow> bytes list option" where
  "cstrs_at ext f [] = Some []"
| "cstrs_at ext f (b # bs) = do { s \<leftarrow> cstr_at ext f b; ss \<leftarrow> cstrs_at ext f bs; Some (s # ss) }"

definition group_line :: "nat \<Rightarrow> nat \<Rightarrow> nat \<Rightarrow> mem \<Rightarrow> ((bytes, bytes list) group_ent \<times> nat \<times> mem) option option" where
  "group_line ext nmax b f =
     and_then (colon_field ext True 58 b f) (\<lambda>(p1, f1).
     and_then (colon_field ext True 58 (Suc p1) f1) (\<lambda>(p2, f2).
     and_then (id_field ext (Suc p2) f2) (\<lambda>(gid, p3, f3).
     and_then (group_line_members ext nmax [] (Suc p3) f3) (\<lambda>(ms, p4, f4). do {
       name \<leftarrow> cstr_at ext f4 b;
       passwd \<leftarrow> cstr_at ext f4 (Suc p1);
       mems \<leftarrow> cstrs_at ext f4 ms;
       Some (Some (\<lparr>gr_name = name, gr_passwd = passwd, gr_gid = gid, gr_mem = mems\<rparr>, p4, f4)) }))))"

partial_function (option) nss_mcdb_acct_make_group_parse ::
  "((bytes, bytes list) group_ent \<Rightarrow> 's \<Rightarrow> (bool \<times> 's) option) \<Rightarrow> int \<Rightarrow> nat \<Rightarrow> nat \<Rightarrow> mem \<Rightarrow> 's \<Rightarrow> (bool \<times> 's) option" where
  "nss_mcdb_acct_make_group_parse enc sc_ngroups_max ext p f s = do {
     c \<leftarrow> text_at ext f p;
     if c = 0 then Some (True, s)
     else if c = 35 then do {
       q \<leftarrow> TOKEN_POUNDCOMMENT_SKIP ext f p;
       d \<leftarrow> text_at ext f q;
       if d \<noteq> 0 then nss_mcdb_acct_make_group_parse enc sc_ngroups_max ext (Suc q) f s else Some (True, s) }
     else do {
       r \<leftarrow> group_line ext (ngroups_limit sc_ngroups_max) p f;
       case r of None \<Rightarrow> Some (False, s)
       | Some (gr, q, f1) \<Rightarrow> do {
           (ok, s1) \<leftarrow> enc gr s;
           if ok then nss_mcdb_acct_make_group_parse enc sc_ngroups_max ext (Suc q) f1 s1 else Some (False, s1) } } }"

end
