(* ===== verification/Nss_Parse_Total.thy ===== *)
theory Nss_Parse_Total
  imports Nss_Acct_Make
begin

text \<open>
  The parsers of /etc/passwd and /etc/group on arbitrary texts: as long as the text has a NUL inside
  its last page they return, without a load outside the mapping, whatever the entries and
  whatever becomes of them.
\<close>

subsection \<open>Loops in front of a NUL\<close>

text \<open>A NUL at or behind a position, inside the mapping.\<close>

definition nul_at :: "nat \<Rightarrow> nat \<Rightarrow> mem \<Rightarrow> bool" where
  "nul_at ext z f \<longleftrightarrow> z < ext \<and> f z = 0"

lemma text_at_before: "nul_at ext z f \<Longrightarrow> p \<le> z \<Longrightarrow> text_at ext f p = Some (f p)"
  by (simp add: text_at_def nul_at_def)

lemma tok_end_before:
  assumes "0 \<in> set stops" "nul_at ext z f"
  shows "b \<le> z \<Longrightarrow> \<exists>p. tok_end stops ext f b = Some p \<and> b \<le> p \<and> p \<le> z \<and> f p \<in> set stops"
proof (induction "z - b" arbitrary: b rule: less_induct)
  case less
  have b: "b < ext" using less.prems assms(2) by (simp add: nul_at_def)
  show ?case
  proof (cases "f b \<in> set stops")
    case True
    then show ?thesis using less.prems b by (simp add: tok_end.simps [of stops ext f b])
  next
    case False
    then have "b \<noteq> z" using assms by (auto simp: nul_at_def)
    then have "z - Suc b < z - b" "Suc b \<le> z" using less.prems by auto
    from less.hyps [OF this] show ?thesis using False b by (auto simp: tok_end.simps [of stops ext f b] intro: Suc_leD)
  qed
qed

lemma cstr_at_before:
  assumes "nul_at ext z f"
  shows "b \<le> z \<Longrightarrow> \<exists>s. cstr_at ext f b = Some s"
proof (induction "z - b" arbitrary: b rule: less_induct)
  case less
  have b: "b < ext" using less.prems assms(1) by (simp add: nul_at_def)
  show ?case
  proof (cases "f b = 0")
    case True
    then show ?thesis using b by (simp add: cstr_at.simps [of ext f b])
  next
    case False
    then have "b \<noteq> z" using assms by (auto simp: nul_at_def)
    then have "z - Suc b < z - b" "Suc b \<le> z" using less.prems by auto
    from less.hyps [OF this] show ?thesis using False b by (auto simp: cstr_at.simps [of ext f b])
  qed
qed

subsection \<open>Fields\<close>

text \<open>A parsing step that returns: the line is invalid, or the result satisfies R.\<close>

definition step_ok :: "('a \<Rightarrow> bool) \<Rightarrow> 'a option option \<Rightarrow> bool" where
  "step_ok R x \<longleftrightarrow> x = Some None \<or> (\<exists>a. x = Some (Some a) \<and> R a)"

lemma step_ok_simps [simp]: "step_ok R (Some None)" "step_ok R (Some (Some a)) = R a"
  by (simp_all add: step_ok_def)

lemma step_ok_and_then:
  assumes "step_ok Q x" and "\<And>a. Q a \<Longrightarrow> step_ok R (k a)"
  shows "step_ok R (and_then x k)"
proof -
  from assms(1) consider "x = Some None" | a where "x = Some (Some a)" "Q a" by (auto simp: step_ok_def)
  then show ?thesis using assms(2) by cases (simp_all add: and_then_def)
qed

text \<open>The position and the memory after a step that started at b.\<close>

definition ahead :: "nat \<Rightarrow> nat \<Rightarrow> nat \<Rightarrow> nat \<Rightarrow> mem \<Rightarrow> bool" where
  "ahead ext z b p f \<longleftrightarrow> b \<le> p \<and> p < z \<and> nul_at ext z f"

lemma ahead_weaken: "ahead ext z b p f \<Longrightarrow> b0 \<le> b \<Longrightarrow> ahead ext z b0 p f"
  by (simp add: ahead_def)

lemma colon_field_ok:
  assumes "nul_at ext z f" "b \<le> z" "delim \<noteq> 0"
  shows "step_ok (\<lambda>(p, f1). ahead ext z b p f1) (colon_field ext nonempty delim b f)"
proof -
  obtain p where p: "tok_end [58, 10, 0] ext f b = Some p" "b \<le> p" "p \<le> z"
    using tok_end_before [of "[58, 10, 0]" ext z f b] assms by auto
  have "p = z \<Longrightarrow> f p \<noteq> delim" using assms by (auto simp: nul_at_def)
  then show ?thesis using p assms text_at_before [OF assms(1)]
    by (auto simp: colon_field_def TOKEN_COLONDELIM_END_def step_ok_def nul_at_def ahead_def)
qed

lemma cstr_at_ahead: "ahead ext z b0 p f \<Longrightarrow> b \<le> Suc p \<Longrightarrow> \<exists>s. cstr_at ext f b = Some s"
  using cstr_at_before [of ext z f b] by (simp add: ahead_def)

lemma id_field_ok:
  assumes "nul_at ext z f" "b \<le> z"
  shows "step_ok (\<lambda>(i, p, f1). ahead ext z b p f1) (id_field ext b f)"
  unfolding id_field_def
proof (rule step_ok_and_then [OF colon_field_ok [OF assms]])
  fix a :: "nat \<times> mem" assume "case a of (p, f1) \<Rightarrow> ahead ext z b p f1"
  then obtain p f1 where a: "a = (p, f1)" "ahead ext z b p f1" by (cases a) auto
  then obtain s where "cstr_at ext f1 b = Some s" using cstr_at_ahead [of ext z b p f1 b] by (auto simp: ahead_def)
  then show "step_ok (\<lambda>(i, p, f1). ahead ext z b p f1) (case a of (p, f1) \<Rightarrow> do {
      s \<leftarrow> cstr_at ext f1 b; Some (map_option (\<lambda>i. (i, p, f1)) (id_of_str s)) })"
    using a by (cases "id_of_str s") simp_all
qed simp

text \<open>The next field starts behind the delimiter of the one before.\<close>

lemma next_colon_field: "ahead ext z b p f \<Longrightarrow> delim \<noteq> 0 \<Longrightarrow>
    step_ok (\<lambda>(q, f1). ahead ext z (Suc p) q f1) (colon_field ext nonempty delim (Suc p) f)"
  by (rule colon_field_ok) (simp_all add: ahead_def)

lemma next_id_field: "ahead ext z b p f \<Longrightarrow> step_ok (\<lambda>(i, q, f1). ahead ext z (Suc p) q f1) (id_field ext (Suc p) f)"
  by (rule id_field_ok) (simp_all add: ahead_def)

subsection \<open>Lines\<close>

lemma passwd_line_ok:
  assumes f: "nul_at ext z f" and b: "b \<le> z"
  shows "step_ok (\<lambda>(pw, q, f1). ahead ext z b q f1) (passwd_line ext b f)"
  unfolding passwd_line_def
  apply (rule step_ok_and_then [OF colon_field_ok [OF f b]], simp, clarify)
  apply (rule step_ok_and_then [OF next_colon_field], assumption, simp, clarify)
  apply (rule step_ok_and_then [OF next_id_field], assumption, clarify)
  apply (rule step_ok_and_then [OF next_id_field], assumption, clarify)
  apply (rule step_ok_and_then [OF next_colon_field], assumption, simp, clarify)
  apply (rule step_ok_and_then [OF next_colon_field], assumption, simp, clarify)
  apply (rule step_ok_and_then [OF next_colon_field], assumption, simp, clarify)
  subgoal premises a for p1 f1 p2 f2 uid p3 f3 gid p4 f4 p5 f5 p6 f6 p7 f7
  proof -
    have le: "b \<le> z" "Suc p1 \<le> z" "Suc p4 \<le> z" "Suc p5 \<le> z" "Suc p6 \<le> z" "b \<le> p7" using a by (simp_all add: ahead_def)
    have n7: "nul_at ext z f7" "ahead ext z (Suc p6) p7 f7" using a by (simp_all add: ahead_def)
    obtain s1 s2 s3 s4 s5 where "cstr_at ext f7 b = Some s1" "cstr_at ext f7 (Suc p1) = Some s2" "cstr_at ext f7 (Suc p4) = Some s3"
      "cstr_at ext f7 (Suc p5) = Some s4" "cstr_at ext f7 (Suc p6) = Some s5"
      using cstr_at_before [OF n7(1)] le(1-5) by meson
    then show ?thesis using n7(2) le(6) by (simp add: ahead_def)
  qed
  done

lemma group_line_members_ok:
  assumes "nul_at ext z f" "b \<le> z" "\<forall>x \<in> set ms. x \<le> z"
  shows "step_ok (\<lambda>(ms', q, f1). ahead ext z b q f1 \<and> (\<forall>x \<in> set ms'. x \<le> z)) (group_line_members ext nmax ms b f)"
  using assms
proof (induction "z - b" arbitrary: ms b f rule: less_induct)
  case less
  note B = text_at_before [OF less.prems(1)]
  obtain p where p: "tok_end [44, 10, 0] ext f b = Some p" "b \<le> p" "p \<le> z"
    using tok_end_before [of "[44, 10, 0]" ext z f b] less.prems by auto
  show ?case
  proof (cases "f b = 10")
    case True
    then have "b < z" using less.prems(1,2) by (auto simp: nul_at_def order.order_iff_strict)
    with True show ?thesis using B less.prems by (subst group_line_members.simps) (simp add: ahead_def)
  next
    case nl: False
    show ?thesis
    proof (cases "f p = 0 \<or> \<not> length ms < nmax")
      case True
      then show ?thesis using nl p B less.prems(2)
        by (subst group_line_members.simps) (auto simp: TOKEN_COMMADELIM_END_def)
    next
      case False
      then have lt: "p < z" using p(3) less.prems(1) by (auto simp: nul_at_def order.order_iff_strict)
      then have n: "nul_at ext z (f(p := 0))" using less.prems(1) by (simp add: nul_at_def)
      have m: "\<forall>x \<in> set (ms @ [b]). x \<le> z" using less.prems(2,3) by simp
      have run: "group_line_members ext nmax ms b f = (if f p \<noteq> 10 then group_line_members ext nmax (ms @ [b]) (Suc p) (f(p := 0))
          else Some (Some (ms @ [b], p, f(p := 0))))"
        using nl False p B less.prems(2) lt by (subst group_line_members.simps) (simp add: TOKEN_COMMADELIM_END_def)
      have "step_ok (\<lambda>(ms', q, f1). ahead ext z (Suc p) q f1 \<and> (\<forall>x \<in> set ms'. x \<le> z))
          (group_line_members ext nmax (ms @ [b]) (Suc p) (f(p := 0)))"
        by (rule less.hyps [OF _ n _ m]) (use lt p(2) in auto)
      then show ?thesis using run p(2) lt n m by (auto simp: step_ok_def ahead_def)
    qed
  qed
qed

lemma cstrs_at_before:
  assumes "nul_at ext z f"
  shows "\<forall>x \<in> set bs. x \<le> z \<Longrightarrow> \<exists>ss. cstrs_at ext f bs = Some ss"
proof (induction bs)
  case (Cons b bs)
  then obtain s where "cstr_at ext f b = Some s" using cstr_at_before [OF assms] by auto
  with Cons show ?case by auto
qed simp

lemma group_line_ok:
  assumes f: "nul_at ext z f" and b: "b \<le> z"
  shows "step_ok (\<lambda>(gr, q, f1). ahead ext z b q f1) (group_line ext nmax b f)"
  unfolding group_line_def
  apply (rule step_ok_and_then [OF colon_field_ok [OF f b]], simp, clarify)
  apply (rule step_ok_and_then [OF next_colon_field], assumption, simp, clarify)
  apply (rule step_ok_and_then [OF next_id_field], assumption, clarify)
  subgoal premises a for p1 f1 p2 f2 gid p3 f3
  proof (rule step_ok_and_then)
    show "step_ok (\<lambda>(ms, q, f4). ahead ext z (Suc p3) q f4 \<and> (\<forall>x \<in> set ms. x \<le> z)) (group_line_members ext nmax [] (Suc p3) f3)"
      by (rule group_line_members_ok) (use a in \<open>simp_all add: ahead_def\<close>)
    fix r :: "nat list \<times> nat \<times> mem"
    assume "case r of (ms, q, f4) \<Rightarrow> ahead ext z (Suc p3) q f4 \<and> (\<forall>x \<in> set ms. x \<le> z)"
    then obtain ms q f4 where r: "r = (ms, q, f4)" "ahead ext z (Suc p3) q f4" "\<forall>x \<in> set ms. x \<le> z" by (cases r) auto
    then have n: "nul_at ext z f4" by (simp add: ahead_def)
    have le: "b \<le> z" "Suc p1 \<le> z" "b \<le> q" using a r by (simp_all add: ahead_def)
    obtain s1 s2 ss where "cstr_at ext f4 b = Some s1" "cstr_at ext f4 (Suc p1) = Some s2" "cstrs_at ext f4 ms = Some ss"
      using cstr_at_before [OF n] cstrs_at_before [OF n r(3)] le(1,2) by meson
    then show "step_ok (\<lambda>(gr, q, f1). ahead ext z b q f1) (case r of (ms, p4, f4) \<Rightarrow> do {
       name \<leftarrow> cstr_at ext f4 b;
       passwd \<leftarrow> cstr_at ext f4 (Suc p1);
       mems \<leftarrow> cstrs_at ext f4 ms;
       Some (Some (\<lparr>gr_name = name, gr_passwd = passwd, gr_gid = gid, gr_mem = mems\<rparr>, p4, f4)) })"
      using r le(3) by (simp add: ahead_def)
  qed
  done

subsection \<open>Whole texts\<close>

lemma comment_before:
  assumes "nul_at ext z f" "p \<le> z" "f p = 35"
  shows "\<exists>q. TOKEN_POUNDCOMMENT_SKIP ext f p = Some q \<and> p < q \<and> q \<le> z"
proof -
  have "p \<noteq> z" using assms by (auto simp: nul_at_def)
  then show ?thesis using tok_end_before [of "[10, 0]" ext z f "Suc p"] assms
    by (auto simp: TOKEN_POUNDCOMMENT_SKIP_def Suc_le_eq)
qed

text \<open>
  Both parsers are the same loop over a function for one line.  The locale is what the loop
  needs of that function.
\<close>

locale line_parser =
  fixes parse :: "('e \<Rightarrow> 's \<Rightarrow> (bool \<times> 's) option) \<Rightarrow> nat \<Rightarrow> nat \<Rightarrow> mem \<Rightarrow> 's \<Rightarrow> (bool \<times> 's) option"
    and line :: "nat \<Rightarrow> nat \<Rightarrow> mem \<Rightarrow> ('e \<times> nat \<times> mem) option option"
  assumes parse_step: "parse enc ext p f s = do {
     c \<leftarrow> text_at ext f p;
     if c = 0 then Some (True, s)
     else if c = 35 then do {
       q \<leftarrow> TOKEN_POUNDCOMMENT_SKIP ext f p;
       d \<leftarrow> text_at ext f q;
       if d \<noteq> 0 then parse enc ext (Suc q) f s else Some (True, s) }
     else do {
       r \<leftarrow> line ext p f;
       case r of None \<Rightarrow> Some (False, s)
       | Some (e, q, f1) \<Rightarrow> do {
           (ok, s1) \<leftarrow> enc e s;
           if ok then parse enc ext (Suc q) f1 s1 else Some (False, s1) } } }"
    and line_ok: "nul_at ext z f \<Longrightarrow> b \<le> z \<Longrightarrow> step_ok (\<lambda>(e, q, f1). ahead ext z b q f1) (line ext b f)"
begin

lemma after_comment:
  assumes f: "nul_at ext z f" "p \<le> z" "f p = 35" and rest: "\<And>q. p < q \<Longrightarrow> q < z \<Longrightarrow> \<exists>r. parse enc ext (Suc q) f s = Some r"
  shows "\<exists>r. parse enc ext p f s = Some r"
proof -
  note B = text_at_before [OF f(1)]
  obtain q where q: "TOKEN_POUNDCOMMENT_SKIP ext f p = Some q" "p < q" "q \<le> z" using comment_before [OF f] by blast
  have "parse enc ext p f s = (if f q \<noteq> 0 then parse enc ext (Suc q) f s else Some (True, s))"
    using q f(3) B [OF f(2)] B [OF q(3)] by (subst parse_step) simp
  moreover have "q < z" if "f q \<noteq> 0" using that q(3) f(1) by (auto simp: nul_at_def order.order_iff_strict)
  ultimately show ?thesis using rest [OF q(2)] by (cases "f q = 0") auto
qed

lemma parse_returns:
  assumes enc: "\<And>e s. enc e s \<noteq> None"
  shows "nul_at ext z f \<Longrightarrow> p \<le> z \<Longrightarrow> \<exists>r. parse enc ext p f s = Some r"
proof (induction "z - p" arbitrary: p f s rule: less_induct)
  case less
  note B = text_at_before [OF less.prems]
  show ?case
  proof (cases "f p = 35")
    case True
    show ?thesis by (rule after_comment [OF less.prems True], rule less.hyps) (use less.prems in simp_all)
  next
    case False
    from line_ok [OF less.prems] consider "line ext p f = Some None"
      | e q f1 where "line ext p f = Some (Some (e, q, f1))" "ahead ext z p q f1"
      by (auto simp: step_ok_def)
    then show ?thesis
    proof cases
      case 1
      with False B show ?thesis by (subst parse_step) auto
    next
      case 2
      obtain ok s1 where e: "enc e s = Some (ok, s1)" using enc [of e s] by (cases "enc e s") auto
      have "z - Suc q < z - p" using 2(2) unfolding ahead_def by linarith
      then have "\<exists>r. parse enc ext (Suc q) f1 s1 = Some r"
        using less.hyps [of "Suc q" f1 s1] 2(2) by (simp add: ahead_def)
      then show ?thesis using 2 e False B by (subst parse_step) auto
    qed
  qed
qed

end

interpretation pw_parser: line_parser nss_mcdb_acct_make_passwd_parse passwd_line
  by unfold_locales (rule nss_mcdb_acct_make_passwd_parse.simps, rule passwd_line_ok)

interpretation gr_parser: line_parser "\<lambda>enc. nss_mcdb_acct_make_group_parse enc sc" "\<lambda>ext. group_line ext (ngroups_limit sc)" for sc
  by unfold_locales (rule nss_mcdb_acct_make_group_parse.simps, rule group_line_ok)

subsection \<open>Properties\<close>

text \<open>C40: on every text, whatever its bytes, that has a NUL inside its mapping at or behind the
  starting point, the parsers of /etc/passwd and /etc/group return; so they neither loop for ever nor load
  from outside the mapping, whatever the encoder does with the entries.\<close>

theorem acct_parsers_return:
  assumes "z < ext" "f z = 0" "p \<le> z" "\<And>pw s. enc_pw pw s \<noteq> None" "\<And>gr s. enc_gr gr s \<noteq> None"
  shows "(\<exists>r. nss_mcdb_acct_make_passwd_parse enc_pw ext p f s = Some r) \<and>
    (\<exists>r. nss_mcdb_acct_make_group_parse enc_gr sc ext p f s' = Some r)"
  using pw_parser.parse_returns [OF assms(4), of ext z f p] gr_parser.parse_returns [OF assms(5), of ext z f p] assms(1-3)
  by (simp add: nul_at_def)

theorem acct_parsers_return_witness:
  "\<exists>r. nss_mcdb_acct_make_passwd_parse (\<lambda>_ n. Some (True, n + 1)) 16 0 (mem_upd (\<lambda>_. 0) 0 [35, 58, 58, 10, 97, 58]) (0 :: nat) = Some r"
  using acct_parsers_return [of 15 16 "mem_upd (\<lambda>_. 0) 0 [35, 58, 58, 10, 97, 58]" 0 "\<lambda>_ n. Some (True, n + 1)"
      "\<lambda>_ n. Some (True, n + 1)" "0 :: nat" 0 "0 :: nat"]
  by (simp add: mem_upd_def)

end
