(* ===== verification/Nss_Mcdb.thy ===== *)
theory Nss_Mcdb
  imports Nss_Acct_Codec
begin

text \<open>
  Queries of the nsswitch.conf module, nss_mcdb.c: one map per database, shared by the threads
  of a process and refreshed when its file changes; the session of the calling thread between
  \<^verbatim>\<open>set*ent\<close> and \<^verbatim>\<open>end*ent\<close>; lookup, enumeration and the generic decoder.  The state is
  that of one thread: what the others do to the shared maps happens between its operations.
\<close>

subsection \<open>Databases\<close>

datatype nss_dbtype = NSS_DBTYPE_ALIASES | NSS_DBTYPE_ETHERS | NSS_DBTYPE_GROUP | NSS_DBTYPE_HOSTS
  | NSS_DBTYPE_NETGROUP | NSS_DBTYPE_NETWORKS | NSS_DBTYPE_PASSWD | NSS_DBTYPE_PROTOCOLS
  | NSS_DBTYPE_PUBLICKEY | NSS_DBTYPE_RPC | NSS_DBTYPE_SERVICES | NSS_DBTYPE_SHADOW

definition str_bytes :: "string \<Rightarrow> bytes" where
  "str_bytes = map of_char"

definition NSS_MCDB_DBPATH :: string where "NSS_MCDB_DBPATH = ''/etc/mcdb/''"

fun nss_dbnames :: "nss_dbtype \<Rightarrow> bytes" where
  "nss_dbnames NSS_DBTYPE_ALIASES = str_bytes (NSS_MCDB_DBPATH @ ''aliases.mcdb'')"
| "nss_dbnames NSS_DBTYPE_ETHERS = str_bytes (NSS_MCDB_DBPATH @ ''ethers.mcdb'')"
| "nss_dbnames NSS_DBTYPE_GROUP = str_bytes (NSS_MCDB_DBPATH @ ''group.mcdb'')"
| "nss_dbnames NSS_DBTYPE_HOSTS = str_bytes (NSS_MCDB_DBPATH @ ''hosts.mcdb'')"
| "nss_dbnames NSS_DBTYPE_NETGROUP = str_bytes (NSS_MCDB_DBPATH @ ''netgroup.mcdb'')"
| "nss_dbnames NSS_DBTYPE_NETWORKS = str_bytes (NSS_MCDB_DBPATH @ ''networks.mcdb'')"
| "nss_dbnames NSS_DBTYPE_PASSWD = str_bytes (NSS_MCDB_DBPATH @ ''passwd.mcdb'')"
| "nss_dbnames NSS_DBTYPE_PROTOCOLS = str_bytes (NSS_MCDB_DBPATH @ ''protocols.mcdb'')"
| "nss_dbnames NSS_DBTYPE_PUBLICKEY = str_bytes (NSS_MCDB_DBPATH @ ''publickey.mcdb'')"
| "nss_dbnames NSS_DBTYPE_RPC = str_bytes (NSS_MCDB_DBPATH @ ''rpc.mcdb'')"
| "nss_dbnames NSS_DBTYPE_SERVICES = str_bytes (NSS_MCDB_DBPATH @ ''services.mcdb'')"
| "nss_dbnames NSS_DBTYPE_SHADOW = str_bytes (NSS_MCDB_DBPATH @ ''shadow.mcdb'')"

subsection \<open>State\<close>

text \<open>
  \<^term>\<open>n_mmap\<close> is the array \<^verbatim>\<open>_nss_mcdb_mmap\<close> of shared maps, \<^term>\<open>n_mmap_st\<close> the address of
  the static struct of each.  \<^term>\<open>n_map\<close> is the field \<^verbatim>\<open>map\<close> of the thread's
  \<^verbatim>\<open>_nss_mcdb_st\<close>, \<^term>\<open>n_st\<close> its other fields.  \<^term>\<open>n_errnop\<close> is what
  the caller's pointer \<^verbatim>\<open>errnop\<close> points to.
\<close>

record nss =
  n_rd :: rd
  n_mmap :: "nss_dbtype \<Rightarrow> nat option"
  n_mmap_st :: "nss_dbtype \<Rightarrow> nat"
  n_map :: "nss_dbtype \<Rightarrow> nat option"
  n_st :: "nss_dbtype \<Rightarrow> mcdb"
  n_mutex :: bool
  n_stayopen :: bool
  n_errnop :: nat

definition set_mmap :: "nss_dbtype \<Rightarrow> nat option \<Rightarrow> nss \<Rightarrow> nss" where
  "set_mmap db p s = s\<lparr>n_mmap := (n_mmap s)(db := p)\<rparr>"

definition set_map :: "nss_dbtype \<Rightarrow> nat option \<Rightarrow> nss \<Rightarrow> nss" where
  "set_map db p s = s\<lparr>n_map := (n_map s)(db := p)\<rparr>"

definition set_st :: "nss_dbtype \<Rightarrow> mcdb \<Rightarrow> nss \<Rightarrow> nss" where
  "set_st db m s = s\<lparr>n_st := (n_st s)(db := m), n_map := (n_map s)(db := Some (m_map m))\<rparr>"

text \<open>\<^verbatim>\<open>pthread_mutex_lock\<close>: a failure is returned and leaves \<^verbatim>\<open>errno\<close> alone; locking a
  mutex that is held would not return.\<close>

definition mutex_lock :: "nss \<Rightarrow> (bool \<times> nss) option" where
  "mutex_lock s =
     (let (ok, w) = rd_call (n_rd s); s1 = s\<lparr>n_rd := w\<lparr>r_errno := r_errno (n_rd s)\<rparr>\<rparr>
      in if \<not> ok then Some (False, s1)
         else if n_mutex s then None else Some (True, s1\<lparr>n_mutex := True\<rparr>))"

definition mutex_unlock :: "nss \<Rightarrow> nss" where
  "mutex_unlock s = s\<lparr>n_mutex := False\<rparr>"

subsection \<open>Shared maps\<close>

definition nss_mcdb_db_openshared :: "nss_dbtype \<Rightarrow> nss \<Rightarrow> (bool \<times> nss) option" where
  "nss_mcdb_db_openshared db s0 = do {
     (ok, s) \<leftarrow> mutex_lock s0;
     if \<not> ok then Some (False, s)
     else if n_mmap s db \<noteq> None then Some (True, mutex_unlock s)
     else do {
       (p, w) \<leftarrow> mcdb_mmap_create (Some (n_mmap_st s db)) None (nss_dbnames db) (n_rd s);
       let s1 = s\<lparr>n_rd := w\<rparr>;
       let s2 = (if p \<noteq> None then set_mmap db (Some (n_mmap_st s db)) s1 else s1);
       Some (p \<noteq> None, mutex_unlock s2) } }"

text \<open>\<^verbatim>\<open>_nss_mcdb_db_relshared\<close> of a local variable, whose new value is lost.\<close>

definition nss_mcdb_db_relshared :: "nat option \<Rightarrow> nss \<Rightarrow> (bool \<times> nss) option" where
  "nss_mcdb_db_relshared p s = do {
     (ok, _, w) \<leftarrow> mcdb_mmap_thread_registration p False False (n_rd s);
     Some (ok, s\<lparr>n_rd := w\<rparr>) }"

definition skips_refresh :: "nss_dbtype \<Rightarrow> nss \<Rightarrow> bool" where
  "skips_refresh db s \<longleftrightarrow> db \<in> {NSS_DBTYPE_PROTOCOLS, NSS_DBTYPE_RPC, NSS_DBTYPE_SERVICES} \<and> n_stayopen s"

text \<open>Check for a new file and open it; failures are ignored.\<close>

definition refresh_shared :: "nss_dbtype \<Rightarrow> nat \<Rightarrow> nss \<Rightarrow> nss option" where
  "refresh_shared db p s = do {
     (stale, w) \<leftarrow> mcdb_mmap_refresh_check p (n_rd s);
     if \<not> stale then Some (s\<lparr>n_rd := w\<rparr>)
     else do {
       (_, p', w1) \<leftarrow> mcdb_mmap_reopen_threadsafe p w;
       Some (set_mmap db p' (s\<lparr>n_rd := w1\<rparr>)) } }"

text \<open>The result is the map on which the thread is to work, null if there is none.\<close>

definition nss_mcdb_db_getshared :: "nss_dbtype \<Rightarrow> nss \<Rightarrow> (nat option \<times> nss) option" where
  "nss_mcdb_db_getshared db s =
     (if n_map s db \<noteq> None then Some (n_map s db, s)
      else do {
        (ok, s1) \<leftarrow> (case n_mmap s db of
            Some p \<Rightarrow> if skips_refresh db s then Some (True, s)
                      else do { s1 \<leftarrow> refresh_shared db p s; Some (True, s1) }
          | None \<Rightarrow> nss_mcdb_db_openshared db s);
        if \<not> ok then Some (None, s1)
        else do {
          let p = n_mmap s1 db;
          (ok, p', w) \<leftarrow> mcdb_mmap_thread_registration p True False (n_rd s1);
          Some (if ok then p else None, set_mmap db p' (s1\<lparr>n_rd := w\<rparr>)) } })"

subsection \<open>Sessions\<close>

definition nss_mcdb_setent :: "nss_dbtype \<Rightarrow> nss \<Rightarrow> (nss_status \<times> nss) option" where
  "nss_mcdb_setent db s = do {
     (p, s1) \<leftarrow> (if n_map s db \<noteq> None then Some (n_map s db, s)
                 else do { (p, s1) \<leftarrow> nss_mcdb_db_getshared db s; Some (p, set_map db p s1) });
     case p of
       None \<Rightarrow> Some (NSS_STATUS_UNAVAIL, s1)
     | Some q \<Rightarrow> do {
         _ \<leftarrow> get_map q (n_rd s1);
         Some (NSS_STATUS_SUCCESS,
           set_st db ((n_st s1 db)\<lparr>m_map := q, m_hpos := word_of_nat MCDB_HEADER_SZ\<rparr>) s1) } }"

definition nss_mcdb_endent :: "nss_dbtype \<Rightarrow> nss \<Rightarrow> (nss_status \<times> nss) option" where
  "nss_mcdb_endent db s =
     (case n_map s db of
        None \<Rightarrow> Some (NSS_STATUS_SUCCESS, s)
      | Some p \<Rightarrow> do {
          (ok, s1) \<leftarrow> nss_mcdb_db_relshared (Some p) (set_map db None s);
          Some (if ok then NSS_STATUS_SUCCESS else NSS_STATUS_UNAVAIL, s1) })"

text \<open>\<^verbatim>\<open>v->decode(m, v)\<close>; the decode routines assign \<^verbatim>\<open>*errnop\<close>, the value of \<^verbatim>\<open>errno\<close>, exactly
  when they do not succeed.\<close>

definition v_decode :: "'v decoder \<Rightarrow> mcdb \<Rightarrow> 'v \<Rightarrow> nss \<Rightarrow> (nss_status \<times> 'v \<times> nss) option" where
  "v_decode decode m v s = do {
     (st, v', w) \<leftarrow> decode m v (n_rd s);
     Some (st, v', s\<lparr>n_rd := w, n_errnop := (if st = NSS_STATUS_SUCCESS then n_errnop s else r_errno w)\<rparr>) }"

definition errnop_errno :: "nss \<Rightarrow> nss" where
  "errnop_errno s = s\<lparr>n_errnop := r_errno (n_rd s)\<rparr>"

definition enoent :: "nss \<Rightarrow> nss" where
  "enoent s = errnop_errno (s\<lparr>n_rd := (n_rd s)\<lparr>r_errno := ENOENT\<rparr>\<rparr>)"

text \<open>
  The loop of \<^verbatim>\<open>nss_mcdb_getent\<close>: to the next record whose key starts with '='.  The first byte
  of the key is read even if the key is empty.
\<close>

partial_function (option) getent_scan :: "plasma_endian \<Rightarrow> mcdb_iter \<Rightarrow> rd \<Rightarrow> (bool \<times> mcdb_iter) option" where
  "getent_scan P it w = do {
     (more, it1) \<leftarrow> mcdb_iter_step P it w;
     if \<not> more then Some (False, it1)
     else do {
       mm \<leftarrow> get_map (it_map it1) w;
       t \<leftarrow> iter_load mm (it_ptr it1 - uint (it_dlen it1) - uint (it_klen it1)) 1;
       if t = [61] then Some (True, it1) else getent_scan P it1 w } }"

definition nss_mcdb_getent ::
  "plasma_endian \<Rightarrow> nss_dbtype \<Rightarrow> 'v decoder \<Rightarrow> 'v \<Rightarrow> nss \<Rightarrow> (nss_status \<times> 'v \<times> nss) option" where
  "nss_mcdb_getent P db decode v s0 = do {
     (st, s) \<leftarrow> (if n_map s0 db = None then nss_mcdb_setent db s0 else Some (NSS_STATUS_SUCCESS, s0));
     if st \<noteq> NSS_STATUS_SUCCESS then Some (NSS_STATUS_UNAVAIL, v, errnop_errno s)
     else do {
       p \<leftarrow> n_map s db;
       let m = (n_st s db)\<lparr>m_map := p\<rparr>;
       it0 \<leftarrow> mcdb_iter_init P m (n_rd s);
       (found, it) \<leftarrow> getent_scan P (it0\<lparr>it_ptr := sint (m_hpos m)\<rparr>) (n_rd s);
       let m1 = m\<lparr>m_hpos := word_of_int (it_ptr it)\<rparr>;
       if found then
         (let m2 = m1\<lparr>m_dpos := word_of_int (it_ptr it - uint (it_dlen it)), m_dlen := it_dlen it\<rparr>
          in v_decode decode m2 v (set_st db m2 s))
       else Some (NSS_STATUS_NOTFOUND, v, enoent (set_st db m1 s)) } }"

subsection \<open>Lookup\<close>

text \<open>A \<^verbatim>\<open>struct mcdb\<close> on the stack: the other fields are assigned before they are read.\<close>

definition mcdb_on :: "nat \<Rightarrow> mcdb" where
  "mcdb_on p = \<lparr>m_map = p, m_loop = 0, m_hslots = 0, m_kpos = 0, m_hpos = 0, m_dpos = 0, m_dlen = 0, m_klen = 0,
     m_khash = [0, 0, 0, 0]\<rparr>"

text \<open>\<^verbatim>\<open>mcdb_findtagstart(m, ...) && mcdb_findtagnext(m, ...)\<close>.\<close>

definition findtag_first ::
  "plasma_endian \<Rightarrow> mcdb \<Rightarrow> bytes \<Rightarrow> u8 \<Rightarrow> rd \<Rightarrow> (bool \<times> mcdb \<times> rd) option" where
  "findtag_first P m key tagc w = do {
     (r, m1, w1) \<leftarrow> mcdb_findtagstart P m key tagc w;
     if \<not> r then Some (False, m1, w1)
     else do { (r2, m2) \<leftarrow> mcdb_findtagnext P m1 key tagc w1; Some (r2, m2, w1) } }"

definition nss_mcdb_get_generic ::
  "plasma_endian \<Rightarrow> nss_dbtype \<Rightarrow> 'v decoder \<Rightarrow> bytes \<Rightarrow> u8 \<Rightarrow> 'v \<Rightarrow> nss \<Rightarrow> (nss_status \<times> 'v \<times> nss) option" where
  "nss_mcdb_get_generic P db decode key tagc v s0 = do {
     (p, s) \<leftarrow> nss_mcdb_db_getshared db s0;
     case p of
       None \<Rightarrow> Some (NSS_STATUS_UNAVAIL, v, errnop_errno s)
     | Some p \<Rightarrow> do {
         (hit, m, w) \<leftarrow> findtag_first P (mcdb_on p) key tagc (n_rd s);
         let s1 = s\<lparr>n_rd := w\<rparr>;
         (st, v1, s2) \<leftarrow> (if hit then v_decode decode m v s1 else Some (NSS_STATUS_NOTFOUND, v, enoent s1));
         if n_map s2 db = None then do {
           (_, s3) \<leftarrow> nss_mcdb_db_relshared (Some (m_map m)) s2;
           Some (st, v1, s3) }
         else Some (st, v1, s2) } }"

definition nss_mcdb_getentstart ::
  "plasma_endian \<Rightarrow> nss_dbtype \<Rightarrow> bytes \<Rightarrow> u8 \<Rightarrow> nss \<Rightarrow> (nss_status \<times> nss) option" where
  "nss_mcdb_getentstart P db key tagc s0 = do {
     (st, s) \<leftarrow> nss_mcdb_setent db s0;
     if st \<noteq> NSS_STATUS_SUCCESS then Some (NSS_STATUS_UNAVAIL, errnop_errno s)
     else do {
       (hit, m, w) \<leftarrow> findtag_first P (n_st s db) key tagc (n_rd s);
       let s1 = set_st db m (s\<lparr>n_rd := w\<rparr>);
       Some (if hit then (NSS_STATUS_SUCCESS, s1) else (NSS_STATUS_NOTFOUND, enoent s1)) } }"

definition nss_mcdb_getnetgrentnext :: "'v decoder \<Rightarrow> 'v \<Rightarrow> nss \<Rightarrow> (nss_status \<times> 'v \<times> nss) option" where
  "nss_mcdb_getnetgrentnext decode v s =
    (let db = NSS_DBTYPE_NETGROUP; m = n_st s db
     in case n_map s db of
          None \<Rightarrow> Some (NSS_STATUS_UNAVAIL, v, errnop_errno s)
        | Some p \<Rightarrow>
            (if m_loop m \<noteq> 0 then v_decode decode (m\<lparr>m_map := p\<rparr>) v s
             else Some (NSS_STATUS_NOTFOUND, v, enoent s)))"

subsection \<open>The generic decoder, the refresh check\<close>

definition nss_mcdb_buf_decode :: "'e vinfo decoder" where
  "nss_mcdb_buf_decode m v w =
    (let dlen = unat (m_dlen m)
     in if dlen < v_bufsz v then do {
          dat \<leftarrow> mcdb_data m w;
          v1 \<leftarrow> vbuf_store 0 dat v;
          v2 \<leftarrow> vbuf_store dlen [0] v1;
          Some (NSS_STATUS_SUCCESS, v2, w) }
        else Some (NSS_STATUS_TRYAGAIN, v, w\<lparr>r_errno := ERANGE\<rparr>))"

definition nss_mcdb_refresh_check :: "nss_dbtype \<Rightarrow> nss \<Rightarrow> (bool \<times> nss) option" where
  "nss_mcdb_refresh_check db s =
     (case n_mmap s db of
        None \<Rightarrow> Some (False, s)
      | Some p \<Rightarrow> do { (r, w) \<leftarrow> mcdb_mmap_refresh_check p (n_rd s); Some (r, s\<lparr>n_rd := w\<rparr>) })"

end
