(* ===== verification/Nss_Acct.thy ===== *)
theory Nss_Acct
  imports Nss_Mcdb Nss_Groupmem
begin

text \<open>
  The entry points for passwd and group, nss_mcdb_acct.c: sessions, enumeration, lookup by name
  and by id, the groups of a user, and the merging of these groups into the array that glibc
  passes to \<^verbatim>\<open>initgroups_dyn\<close>.
\<close>

subsection \<open>Sessions\<close>

definition nss_mcdb_setpwent :: "nss \<Rightarrow> nss option" where
  "nss_mcdb_setpwent s = map_option snd (nss_mcdb_setent NSS_DBTYPE_PASSWD s)"

definition nss_mcdb_endpwent :: "nss \<Rightarrow> nss option" where
  "nss_mcdb_endpwent s = map_option snd (nss_mcdb_endent NSS_DBTYPE_PASSWD s)"

definition nss_mcdb_setgrent :: "nss \<Rightarrow> nss option" where
  "nss_mcdb_setgrent s = map_option snd (nss_mcdb_setent NSS_DBTYPE_GROUP s)"

definition nss_mcdb_endgrent :: "nss \<Rightarrow> nss option" where
  "nss_mcdb_endgrent s = map_option snd (nss_mcdb_endent NSS_DBTYPE_GROUP s)"

subsection \<open>passwd\<close>

definition nss_mcdb_getpwent_r ::
  "plasma_endian \<Rightarrow> u64 passwd vinfo \<Rightarrow> nss \<Rightarrow> (nss_status \<times> u64 passwd vinfo \<times> nss) option" where
  "nss_mcdb_getpwent_r P v s = nss_mcdb_getent P NSS_DBTYPE_PASSWD nss_mcdb_acct_passwd_decode v s"

definition nss_mcdb_getpwnam_r ::
  "plasma_endian \<Rightarrow> bytes \<Rightarrow> u64 passwd vinfo \<Rightarrow> nss \<Rightarrow> (nss_status \<times> u64 passwd vinfo \<times> nss) option" where
  "nss_mcdb_getpwnam_r P name v s = nss_mcdb_get_generic P NSS_DBTYPE_PASSWD nss_mcdb_acct_passwd_decode name 61 v s"

definition nss_mcdb_getpwuid_r ::
  "plasma_endian \<Rightarrow> u32 \<Rightarrow> u64 passwd vinfo \<Rightarrow> nss \<Rightarrow> (nss_status \<times> u64 passwd vinfo \<times> nss) option" where
  "nss_mcdb_getpwuid_r P uid v s =
     nss_mcdb_get_generic P NSS_DBTYPE_PASSWD nss_mcdb_acct_passwd_decode (htonl uid) 120 v s"

subsection \<open>group\<close>

definition nss_mcdb_getgrent_r ::
  "plasma_endian \<Rightarrow> (u64, u64) group_ent vinfo \<Rightarrow> nss \<Rightarrow> (nss_status \<times> (u64, u64) group_ent vinfo \<times> nss) option" where
  "nss_mcdb_getgrent_r P v s = nss_mcdb_getent P NSS_DBTYPE_GROUP nss_mcdb_acct_group_decode v s"

definition nss_mcdb_getgrnam_r ::
  "plasma_endian \<Rightarrow> bytes \<Rightarrow> (u64, u64) group_ent vinfo \<Rightarrow> nss \<Rightarrow> (nss_status \<times> (u64, u64) group_ent vinfo \<times> nss) option" where
  "nss_mcdb_getgrnam_r P name v s = nss_mcdb_get_generic P NSS_DBTYPE_GROUP nss_mcdb_acct_group_decode name 61 v s"

definition nss_mcdb_getgrgid_r ::
  "plasma_endian \<Rightarrow> u32 \<Rightarrow> (u64, u64) group_ent vinfo \<Rightarrow> nss \<Rightarrow> (nss_status \<times> (u64, u64) group_ent vinfo \<times> nss) option" where
  "nss_mcdb_getgrgid_r P gid v s =
     nss_mcdb_get_generic P NSS_DBTYPE_GROUP nss_mcdb_acct_group_decode (htonl gid) 120 v s"

subsection \<open>The groups of a user\<close>

text \<open>A value as a 32-bit \<^verbatim>\<open>int\<close> and as an \<^verbatim>\<open>unsigned int\<close>.\<close>

definition c_int :: "int \<Rightarrow> int" where
  "c_int x = sint (word_of_int x :: u32)"

definition c_uint :: "int \<Rightarrow> nat" where
  "c_uint x = unat (word_of_int x :: u32)"

text \<open>
  \<^verbatim>\<open>errnum\<close> is a local variable: the caller sees it in \<^verbatim>\<open>errno\<close> on failure.  It is never unset
  then, because a query that does not succeed assigns it.  The results are the return value,
  \<^verbatim>\<open>*ngroups\<close> and the array.
\<close>

definition nss_mcdb_getgrouplist ::
  "plasma_endian \<Rightarrow> bytes \<Rightarrow> u32 \<Rightarrow> (nat \<Rightarrow> u32) \<Rightarrow> int \<Rightarrow> nss \<Rightarrow> (int \<times> int \<times> (nat \<Rightarrow> u32) \<times> nss) option" where
  "nss_mcdb_getgrouplist P user gid groups ngroups s = do {
     let v = \<lparr>gl_buf = groups, gl_bufsz = c_uint ngroups, gl_struct = gid\<rparr>;
     (st, v1, s1) \<leftarrow> nss_mcdb_get_generic P NSS_DBTYPE_GROUP nss_mcdb_acct_grouplist_decode user 126 v s;
     let ngroups1 = (if st = NSS_STATUS_SUCCESS \<or> st = NSS_STATUS_TRYAGAIN then sint (gl_struct v1) else 0);
     let s2 = s1\<lparr>n_errnop := n_errnop s\<rparr>;
     if st = NSS_STATUS_SUCCESS then Some (ngroups1, ngroups1, gl_buf v1, s2)
     else Some (-1, ngroups1, gl_buf v1, s2\<lparr>n_rd := (n_rd s2)\<lparr>r_errno := n_errnop s1\<rparr>\<rparr>) }"

text \<open>The caller's array: its elements, \<^verbatim>\<open>*start\<close> and \<^verbatim>\<open>*size\<close>; \<^term>\<open>None\<close> is the null
  pointer.\<close>

record gid_array =
  ga_groups :: "nat \<Rightarrow> u32"
  ga_start :: int
  ga_size :: int

definition arr_store :: "int \<Rightarrow> u32 \<Rightarrow> gid_array \<Rightarrow> gid_array option" where
  "arr_store i g a = (if 0 \<le> i \<and> i < ga_size a then Some (a\<lparr>ga_groups := (ga_groups a)(nat i := g)\<rparr>) else None)"

text \<open>\<^verbatim>\<open>realloc\<close> to \<^term>\<open>sz\<close> elements: a negative size is too large.\<close>

definition realloc_groups :: "int \<Rightarrow> gid_array \<Rightarrow> nss \<Rightarrow> gid_array option \<times> nss" where
  "realloc_groups sz a s =
     (let (ok, w) = rd_call (n_rd s); s1 = s\<lparr>n_rd := w\<rparr>
      in if ok \<and> 0 \<le> sz then (Some (a\<lparr>ga_size := sz\<rparr>), s1) else (None, s1))"

text \<open>
  The loop over the ids that were found.  \<^term>\<open>m\<close> is the number of ids that were there before:
  an id is compared with these.
\<close>

fun merge_groups :: "int \<Rightarrow> nat \<Rightarrow> u32 list \<Rightarrow> gid_array \<Rightarrow> nss \<Rightarrow> (gid_array \<times> nss) option" where
  "merge_groups limit m [] a s = Some (a, s)"
| "merge_groups limit m (g # gs) a s =
     (if \<exists>i \<in> set [0..<m]. ga_groups a i = g then merge_groups limit m gs a s
      else do {
        if ga_start a = ga_size a then
          (if ga_size a = limit then Some (a, s)
           else
             (let sz = (if 0 < limit \<and> limit < 2 * ga_size a then c_int limit else c_int (2 * ga_size a))
              in case realloc_groups sz a s of
                   (None, s1) \<Rightarrow> Some (a, s1)
                 | (Some a1, s1) \<Rightarrow> do {
                     a2 \<leftarrow> arr_store (ga_start a1) g a1;
                     merge_groups limit m gs (a2\<lparr>ga_start := ga_start a2 + 1\<rparr>) s1 }))
        else do {
          a2 \<leftarrow> arr_store (ga_start a) g a;
          merge_groups limit m gs (a2\<lparr>ga_start := ga_start a2 + 1\<rparr>) s } })"

text \<open>\<^verbatim>\<open>memcpy(*groupsp, gidlist, sz * sizeof(gid_t))\<close>.\<close>

definition copy_gids :: "(nat \<Rightarrow> u32) \<Rightarrow> int \<Rightarrow> gid_array \<Rightarrow> gid_array option" where
  "copy_gids gidlist n a = (if n \<le> ga_size a
     then Some (a\<lparr>ga_groups := (\<lambda>i. if int i < n then gidlist i else ga_groups a i)\<rparr>) else None)"

text \<open>
  \<^verbatim>\<open>sc_ngroups_max\<close> is the value of the cached \<^verbatim>\<open>sysconf(_SC_NGROUPS_MAX)\<close>.  The array on the
  stack holds no values yet.  The assertion on its first element aborts when it fails, which is
  undefined here.
\<close>

definition drop_own_gid :: "u32 \<Rightarrow> (nat \<Rightarrow> u32) \<Rightarrow> int \<Rightarrow> ((nat \<Rightarrow> u32) \<times> int) option" where
  "drop_own_gid gid gidlist sz =
     (if gid = -1 then do { _ \<leftarrow> guard (gidlist 0 = -1); Some (gidlist(0 := gidlist (nat (sz - 1))), sz - 1) }
      else Some (gidlist, sz))"

definition nss_mcdb_initgroups_dyn ::
  "plasma_endian \<Rightarrow> int \<Rightarrow> bytes \<Rightarrow> u32 \<Rightarrow> gid_array \<Rightarrow> int \<Rightarrow> nss \<Rightarrow> (nss_status \<times> gid_array \<times> nss) option" where
  "nss_mcdb_initgroups_dyn P sc_ngroups_max user gid a limit s = do {
     let sz0 = int (ngroups_limit sc_ngroups_max) + 1;
     (rc, sz1, gidlist1, s1) \<leftarrow> nss_mcdb_getgrouplist P user gid (\<lambda>_. 0) sz0 s;
     if rc = -1 then
       Some (if sz1 \<noteq> 0 then NSS_STATUS_TRYAGAIN else NSS_STATUS_UNAVAIL, a, errnop_errno s1)
     else do {
       (gidlist, sz) \<leftarrow> drop_own_gid gid gidlist1 sz1;
       if ga_size a \<ge> sz \<and> (ga_start a = 1 \<and> ga_groups a 0 = gid \<or> ga_start a = 0) then do {
         a1 \<leftarrow> copy_gids gidlist sz a;
         Some (NSS_STATUS_SUCCESS, a1\<lparr>ga_start := sz\<rparr>, s1) }
       else do {
         (a1, s2) \<leftarrow> merge_groups limit (nat (ga_start a)) (map gidlist [0..<c_uint sz]) a s1;
         Some (NSS_STATUS_SUCCESS, a1, s2) } } }"

end
