(* ===== verification/Nss_Passwd_Proofs.thy ===== *)
theory Nss_Passwd_Proofs
  imports Nss_Acct_Codec
begin

text \<open>
  Entries of the passwd database: what the encoder stores, when it refuses, and that the decoder
  rebuilds the entry in every buffer that the encoder's size check promises to be enough.
\<close>

subsection \<open>Loading parts of a record's data\<close>

lemma map_load_part:
  assumes "map_load mm a n = Some bs" "k + j \<le> n" "mm_size mm < 2 ^ 64"
  shows "map_load mm (a + of_nat k) j = Some (take j (drop k bs))"
proof -
  obtain f where f: "mm_ptr mm = Some f" "unat a + n \<le> mm_size mm" "bs = mem_slice f (unat a) n"
    using assms(1) by (auto simp: map_load_def split: option.splits if_splits)
  have "unat (a + of_nat k) = unat a + k"
    using f(2) assms(2,3) by (simp add: unat_word_ariths unat_of_nat)
  then show ?thesis using f assms(2)
    by (simp add: map_load_def drop_mem_slice take_mem_slice)
qed

text \<open>The data of the record a query has found, in a mapping of less than 2^64 bytes.\<close>

definition found_data :: "mcdb \<Rightarrow> rd \<Rightarrow> bytes \<Rightarrow> bool" where
  "found_data m w data \<longleftrightarrow> mcdb_data m w = Some data \<and>
     (\<exists>mm. get_map (m_map m) w = Some mm \<and> mm_size mm < 2 ^ 64)"

lemma found_dataE:
  assumes "found_data m w data"
  obtains mm where "get_map (m_map m) w = Some mm" "mm_size mm < 2 ^ 64"
    "map_load mm (m_dpos m) (unat (m_dlen m)) = Some data" "length data = unat (m_dlen m)"
proof -
  obtain mm where mm: "get_map (m_map m) w = Some mm" "mm_size mm < 2 ^ 64"
      "map_load mm (m_dpos m) (unat (m_dlen m)) = Some data"
    using assms by (auto simp: found_data_def mcdb_data_def)
  moreover from mm(3) have "length data = unat (m_dlen m)"
    by (auto simp: map_load_def split: option.splits if_splits)
  ultimately show thesis by (rule that)
qed

lemma found_part:
  assumes "map_load mm (m_dpos m) (unat (m_dlen m)) = Some data" "mm_size mm < 2 ^ 64"
    "k + j \<le> unat (m_dlen m)"
  shows "map_load mm (m_dpos m + of_nat k) j = Some (take j (drop k data))"
  using map_load_part [OF assms(1,3,2)] .

lemma found_head:
  assumes "map_load mm (m_dpos m) (unat (m_dlen m)) = Some data" "mm_size mm < 2 ^ 64"
    "j \<le> unat (m_dlen m)"
  shows "map_load mm (m_dpos m) j = Some (take j data)"
  using map_load_part [OF assms(1), of 0 j] assms(2,3) by simp

subsection \<open>Headers\<close>

lemma ntohs_slice: "off + 2 \<le> k \<Longrightarrow> ntohs (mem_slice f 0 k) off = be_val (mem_slice f off 2)"
  by (simp add: ntohs_def drop_mem_slice take_mem_slice)

lemma ntohl_slice: "off + 4 \<le> k \<Longrightarrow> ntohl (mem_slice f 0 k) off = word_of_nat (be_val (mem_slice f off 4))"
  by (simp add: ntohl_def drop_mem_slice take_mem_slice)

lemma be_val_htons: "v \<le> USHRT_MAX \<Longrightarrow> be_val (htons v) = v"
  by (simp add: htons_def be_val_be_bytes USHRT_MAX_def unat_of_nat)

lemma be_val_htonl: "word_of_nat (be_val (htonl v)) = v"
  using unat_u32_less [of v] by (simp add: htonl_def be_val_be_bytes)

lemmas hdr_simps = nss_acct_consts ntohs_slice ntohl_slice be_val_htons [unfolded USHRT_MAX_def] be_val_htonl
  put_hdr_def mem_slice_upd_disjoint

lemma length_passwd_hdr [simp]: "length (passwd_hdr a b c d u g) = NSS_PW_HDRSZ"
  by (simp add: passwd_hdr_def)

lemma passwd_hdr_fields:
  assumes "a \<le> USHRT_MAX" "b \<le> USHRT_MAX" "c \<le> USHRT_MAX" "d \<le> USHRT_MAX"
  shows "ntohs (passwd_hdr a b c d u g) NSS_PW_PASSWD = a"
    "ntohs (passwd_hdr a b c d u g) NSS_PW_GECOS = b"
    "ntohs (passwd_hdr a b c d u g) NSS_PW_DIR = c"
    "ntohs (passwd_hdr a b c d u g) NSS_PW_SHELL = d"
    "ntohl (passwd_hdr a b c d u g) NSS_PW_UID = u"
    "ntohl (passwd_hdr a b c d u g) NSS_PW_GID = g"
  using assms by (simp_all add: passwd_hdr_def hdr_simps)

subsection \<open>Encoding\<close>

definition passwd_strs :: "bytes passwd \<Rightarrow> bytes list" where
  "passwd_strs pw = [pw_name pw, pw_passwd pw, pw_gecos pw, pw_dir pw, pw_shell pw]"

text \<open>The offset of string k after the header.\<close>

definition str_off :: "bytes list \<Rightarrow> nat \<Rightarrow> nat" where
  "str_off ss k = length (concat (map cz (take k ss)))"

definition passwd_image :: "bytes passwd \<Rightarrow> bytes" where
  "passwd_image pw = passwd_hdr (str_off (passwd_strs pw) 1) (str_off (passwd_strs pw) 2)
       (str_off (passwd_strs pw) 3) (str_off (passwd_strs pw) 4) (pw_uid pw) (pw_gid pw) @
     concat (map cz (passwd_strs pw))"

text \<open>What the encoder asks of an entry: room for it and offsets that fit in 16 bits.\<close>

definition passwd_fits :: "nat \<Rightarrow> bytes passwd \<Rightarrow> bool" where
  "passwd_fits bufsz pw \<longleftrightarrow> length (passwd_image pw) \<le> bufsz \<and> str_off (passwd_strs pw) 4 \<le> USHRT_MAX"

lemma str_offs:
  "str_off (passwd_strs pw) 1 = 1 + length (pw_name pw)"
  "str_off (passwd_strs pw) 2 = 1 + length (pw_name pw) + (1 + length (pw_passwd pw))"
  "str_off (passwd_strs pw) 3 = 1 + length (pw_name pw) + (1 + length (pw_passwd pw)) + (1 + length (pw_gecos pw))"
  "str_off (passwd_strs pw) 4 = 1 + length (pw_name pw) + (1 + length (pw_passwd pw)) + (1 + length (pw_gecos pw))
     + (1 + length (pw_dir pw))"
  by (simp_all add: str_off_def passwd_strs_def numeral_eq_Suc)

lemma length_passwd_image: "length (passwd_image pw) = NSS_PW_HDRSZ + str_off (passwd_strs pw) 4 + (1 + length (pw_shell pw))"
  by (simp add: passwd_image_def str_offs) (simp add: passwd_strs_def)

lemma store_next:
  "off = length xs \<Longrightarrow> mem_upd (mem_upd f 0 xs) off ys = mem_upd f 0 (xs @ ys)"
  using mem_upd_append [of f 0 xs ys] by simp

lemma passwd_datastr_eq:
  "nss_mcdb_acct_make_passwd_datastr bufsz buf pw e =
     (if passwd_fits bufsz pw then Some (length (passwd_image pw) - 1, mem_upd buf 0 (passwd_image pw), e)
      else Some (0, buf, ERANGE))"
proof (cases "passwd_fits bufsz pw")
  case True
  then have len: "NSS_PW_HDRSZ + str_off (passwd_strs pw) 4 + (1 + length (pw_shell pw)) \<le> bufsz"
    "str_off (passwd_strs pw) 4 \<le> USHRT_MAX" by (simp_all add: passwd_fits_def length_passwd_image)
  note l = len [unfolded str_offs]
  show ?thesis using True l
    by (simp add: nss_mcdb_acct_make_passwd_datastr_def Let_def buf_store_in store_next length_passwd_image str_offs)
      (simp add: passwd_image_def passwd_strs_def str_off_def numeral_eq_Suc add.assoc)
next
  case False
  then show ?thesis
    by (auto simp: nss_mcdb_acct_make_passwd_datastr_def Let_def passwd_fits_def length_passwd_image str_offs)
qed

subsection \<open>Decoding\<close>

text \<open>The string a pointer into the caller's buffer stands for, and the entry of a struct.\<close>

definition ptr_str :: "'e vinfo \<Rightarrow> u64 \<Rightarrow> bytes option" where
  "ptr_str v p = cstr_at (v_bufsz v) (v_mem v) (unat (p - v_addr v))"

definition passwd_view :: "u64 passwd vinfo \<Rightarrow> bytes passwd option" where
  "passwd_view v = do {
     name \<leftarrow> ptr_str v (pw_name (v_struct v));
     passwd \<leftarrow> ptr_str v (pw_passwd (v_struct v));
     gecos \<leftarrow> ptr_str v (pw_gecos (v_struct v));
     dir \<leftarrow> ptr_str v (pw_dir (v_struct v));
     shell \<leftarrow> ptr_str v (pw_shell (v_struct v));
     Some \<lparr>pw_name = name, pw_passwd = passwd, pw_uid = pw_uid (v_struct v), pw_gid = pw_gid (v_struct v),
           pw_gecos = gecos, pw_dir = dir, pw_shell = shell\<rparr> }"

definition passwd_ok :: "bytes passwd \<Rightarrow> bool" where
  "passwd_ok pw \<longleftrightarrow> (\<forall>s \<in> set (passwd_strs pw). cstr_ok s)"

lemma str_in_concat:
  assumes "k < length ss" "mem_slice f base (length (concat (map cz ss))) = concat (map cz ss)"
  shows "mem_slice f (base + str_off ss k) (length (cz (ss ! k))) = cz (ss ! k)"
proof -
  have "concat (map cz ss) = concat (map cz (take k ss)) @ cz (ss ! k) @ concat (map cz (drop (Suc k) ss))"
    using id_take_nth_drop [OF assms(1)] by (metis concat.simps(2) concat_append list.simps(9) map_append)
  note c = this
  have "mem_slice f (base + str_off ss k) (length (cz (ss ! k))) =
      take (length (cz (ss ! k))) (drop (str_off ss k) (mem_slice f base (length (concat (map cz ss)))))"
    by (subst c) (simp add: drop_mem_slice take_mem_slice str_off_def)
  also have "\<dots> = cz (ss ! k)" unfolding assms(2) by (subst c) (simp add: str_off_def)
  finally show ?thesis .
qed

lemma str_off_end: "k < length ss \<Longrightarrow> str_off ss k + length (cz (ss ! k)) \<le> length (concat (map cz ss))"
proof -
  assume "k < length ss"
  then have "concat (map cz ss) = concat (map cz (take k ss)) @ cz (ss ! k) @ concat (map cz (drop (Suc k) ss))"
    using id_take_nth_drop by (metis concat.simps(2) concat_append list.simps(9) map_append)
  then have "length (concat (map cz ss)) =
      length (concat (map cz (take k ss)) @ cz (ss ! k) @ concat (map cz (drop (Suc k) ss)))"
    by (rule arg_cong)
  then show ?thesis by (simp add: str_off_def)
qed

text \<open>A string of a buffer that starts with NUL-terminated strings, through its pointer.\<close>

lemma ptr_str_nth:
  assumes "k < length ss" "cstr_ok (ss ! k)" "length (concat (map cz ss)) \<le> v_bufsz v"
    "mem_slice (v_mem v) 0 (length (concat (map cz ss))) = concat (map cz ss)" "str_off ss k < 2 ^ 64"
  shows "ptr_str v (v_addr v + of_nat (str_off ss k)) = Some (ss ! k)"
proof -
  have "unat (v_addr v + of_nat (str_off ss k) - v_addr v) = str_off ss k"
    using assms(5) by (simp add: unat_of_nat)
  moreover have "cstr_at (v_bufsz v) (v_mem v) (str_off ss k) = Some (ss ! k)"
    using str_in_concat [OF assms(1), of "v_mem v" 0] assms str_off_end [OF assms(1)]
    by (intro cstr_at_slice) simp_all
  ultimately show ?thesis by (simp add: ptr_str_def)
qed

lemma passwd_decode_eq:
  assumes "found_data m w (butlast (passwd_image pw))" "passwd_fits bufsz pw"
    "length (passwd_image pw) - NSS_PW_HDRSZ \<le> v_bufsz v"
  shows "nss_mcdb_acct_passwd_decode m v w =
    Some (NSS_STATUS_SUCCESS, v\<lparr>v_mem := mem_upd (v_mem v) 0 (concat (map cz (passwd_strs pw))),
      v_struct := \<lparr>pw_name = v_addr v, pw_passwd = v_addr v + of_nat (str_off (passwd_strs pw) 1),
        pw_uid = pw_uid pw, pw_gid = pw_gid pw, pw_gecos = v_addr v + of_nat (str_off (passwd_strs pw) 2),
        pw_dir = v_addr v + of_nat (str_off (passwd_strs pw) 3),
        pw_shell = v_addr v + of_nat (str_off (passwd_strs pw) 4)\<rparr>\<rparr>, w)"
proof -
  let ?ss = "concat (map cz (passwd_strs pw))"
  let ?hdr = "passwd_hdr (str_off (passwd_strs pw) 1) (str_off (passwd_strs pw) 2)
       (str_off (passwd_strs pw) 3) (str_off (passwd_strs pw) 4) (pw_uid pw) (pw_gid pw)"
  obtain mm where mm: "get_map (m_map m) w = Some mm" "mm_size mm < 2 ^ 64"
      "map_load mm (m_dpos m) (unat (m_dlen m)) = Some (butlast (passwd_image pw))"
      "length (butlast (passwd_image pw)) = unat (m_dlen m)"
    using assms(1) by (rule found_dataE)
  have ss: "?ss = butlast ?ss @ [0]" by (simp add: passwd_strs_def cz_def butlast_append)
  have ne: "?ss \<noteq> []" by (simp add: passwd_strs_def cz_def)
  have bl: "butlast (passwd_image pw) = ?hdr @ butlast ?ss"
    using ne by (simp add: passwd_image_def butlast_append del: concat_eq_Nil_conv)
  have len: "unat (m_dlen m) = NSS_PW_HDRSZ + (length ?ss - 1)"
    using mm(4) by (simp add: bl)
  have fit: "length ?ss \<le> v_bufsz v" "0 < length ?ss"
    using assms(3) ne by (simp_all add: passwd_image_def del: concat_eq_Nil_conv)
  have sd: "size_diff (unat (m_dlen m)) NSS_PW_HDRSZ = length ?ss - 1"
    using len unat_u32_less [of "m_dlen m"] by (simp add: size_diff_le)
  have hdr: "map_load mm (m_dpos m) NSS_PW_HDRSZ = Some ?hdr"
    using found_head [OF mm(3,2), of NSS_PW_HDRSZ] len by (simp add: bl)
  have dat: "map_load mm (m_dpos m + of_nat NSS_PW_HDRSZ) (length ?ss - 1) = Some (butlast ?ss)"
    using found_part [OF mm(3,2), of NSS_PW_HDRSZ "length ?ss - 1"] len by (simp add: bl)
  have upd: "mem_upd (mem_upd (v_mem v) 0 (butlast ?ss)) (length ?ss - 1) [0] = mem_upd (v_mem v) 0 ?ss"
    using store_next [of "length ?ss - 1" "butlast ?ss" "v_mem v" "[0]"] ss by simp
  have offs: "str_off (passwd_strs pw) 1 \<le> USHRT_MAX" "str_off (passwd_strs pw) 2 \<le> USHRT_MAX"
      "str_off (passwd_strs pw) 3 \<le> USHRT_MAX" "str_off (passwd_strs pw) 4 \<le> USHRT_MAX"
    using assms(2) by (simp_all add: passwd_fits_def str_offs del: One_nat_def)
  have st: "vbuf_store 0 (butlast ?ss) v = Some (v\<lparr>v_mem := mem_upd (v_mem v) 0 (butlast ?ss)\<rparr>)"
    using fit by (simp add: vbuf_store_def buf_store_def)
  have st2: "vbuf_store (length ?ss - 1) [0] (v\<lparr>v_mem := mem_upd (v_mem v) 0 (butlast ?ss)\<rparr>) =
      Some (v\<lparr>v_mem := mem_upd (v_mem v) 0 ?ss\<rparr>)"
    using fit upd by (simp add: vbuf_store_def buf_store_def)
  have lt: "length ?ss - 1 < v_bufsz v" using fit by linarith
  show ?thesis
    using lt by (simp only: nss_mcdb_acct_passwd_decode_def mm(1) sd dat hdr st st2 Let_def bind.bind_lunit
      passwd_hdr_fields [OF offs] if_True simp_thms)
qed

lemma passwd_decode_view:
  assumes "found_data m w (butlast (passwd_image pw))" "passwd_fits bufsz pw" "passwd_ok pw"
    "length (passwd_image pw) - NSS_PW_HDRSZ \<le> v_bufsz v"
  shows "\<exists>v'. nss_mcdb_acct_passwd_decode m v w = Some (NSS_STATUS_SUCCESS, v', w) \<and> passwd_view v' = Some pw"
proof -
  let ?ss = "passwd_strs pw"
  define v' where "v' = v\<lparr>v_mem := mem_upd (v_mem v) 0 (concat (map cz ?ss)),
      v_struct := \<lparr>pw_name = v_addr v, pw_passwd = v_addr v + of_nat (str_off ?ss 1),
        pw_uid = pw_uid pw, pw_gid = pw_gid pw, pw_gecos = v_addr v + of_nat (str_off ?ss 2),
        pw_dir = v_addr v + of_nat (str_off ?ss 3), pw_shell = v_addr v + of_nat (str_off ?ss 4)\<rparr>\<rparr>"
  have len: "length (concat (map cz ?ss)) \<le> v_bufsz v'"
    using assms(4) by (simp add: v'_def passwd_image_def)
  have mem: "mem_slice (v_mem v') 0 (length (concat (map cz ?ss))) = concat (map cz ?ss)"
    by (simp add: v'_def)
  have l: "length ?ss = 5" by (simp add: passwd_strs_def)
  have p: "ptr_str v' (v_addr v + of_nat (str_off ?ss k)) = Some (?ss ! k)" if "k < 5" for k
  proof -
    have "str_off ?ss k \<le> str_off ?ss 4"
      using that by (auto simp: str_off_def passwd_strs_def less_Suc_eq numeral_eq_Suc)
    then have "str_off ?ss k < 2 ^ 64" using assms(2) by (simp add: passwd_fits_def USHRT_MAX_def)
    moreover have "cstr_ok (?ss ! k)" using assms(3) that l by (simp add: passwd_ok_def)
    ultimately show ?thesis
      using ptr_str_nth [of k ?ss v'] that l len mem by (simp add: v'_def)
  qed
  have "str_off ?ss 0 = 0" by (simp add: str_off_def)
  then have "passwd_view v' = Some pw"
    using p [of 0] p [of 1] p [of 2] p [of 3] p [of 4]
    by (simp add: passwd_view_def) (simp add: v'_def passwd_strs_def)
  moreover have "nss_mcdb_acct_passwd_decode m v w = Some (NSS_STATUS_SUCCESS, v', w)"
    unfolding v'_def by (rule passwd_decode_eq [OF assms(1,2,4)])
  ultimately show ?thesis by blast
qed

end
