(* ===== verification/Nss_Group_Proofs.thy ===== *)
theory Nss_Group_Proofs
  imports Nss_Passwd_Proofs
begin

text \<open>
  Entries of the group database: the encoder's size check, the decoder's pointer array, and the
  round trip for entries without empty member names in buffers below 4 GiB; beyond those two
  restrictions the decoder fails, which is shown too.
\<close>

subsection \<open>Encoding\<close>

definition group_strs :: "(bytes, bytes list) group_ent \<Rightarrow> bytes list" where
  "group_strs gr = gr_name gr # gr_passwd gr # gr_mem gr"

definition group_image :: "(bytes, bytes list) group_ent \<Rightarrow> bytes" where
  "group_image gr = group_hdr (str_off (group_strs gr) 1) (str_off (group_strs gr) 2)
       (length (concat (map cz (group_strs gr)))) (length (gr_mem gr)) (gr_gid gr) @
     concat (map cz (group_strs gr))"

definition group_fits :: "nat \<Rightarrow> (bytes, bytes list) group_ent \<Rightarrow> bool" where
  "group_fits bufsz gr \<longleftrightarrow> length (cz (gr_name gr)) \<le> USHRT_MAX \<and> length (cz (gr_passwd gr)) \<le> USHRT_MAX \<and>
     length (gr_mem gr) \<le> USHRT_MAX \<and> length (group_image gr) + 8 * length (gr_mem gr) + 15 \<le> bufsz"

lemma length_group_hdr [simp]: "length (group_hdr a b c d g) = NSS_GR_HDRSZ"
  by (simp add: group_hdr_def)

lemma group_hdr_fields:
  assumes "a \<le> USHRT_MAX" "b \<le> USHRT_MAX" "c \<le> USHRT_MAX" "d \<le> USHRT_MAX"
  shows "ntohs (group_hdr a b c d g) NSS_GR_PASSWD = a"
    "ntohs (group_hdr a b c d g) NSS_GR_MEM_STR = b"
    "ntohs (group_hdr a b c d g) NSS_GR_MEM = c"
    "ntohs (group_hdr a b c d g) NSS_GR_MEM_NUM = d"
    "ntohl (group_hdr a b c d g) NSS_GR_GID = g"
  using assms by (simp_all add: group_hdr_def hdr_simps)

lemma group_offs:
  "str_off (group_strs gr) 1 = 1 + length (gr_name gr)"
  "str_off (group_strs gr) 2 = 1 + length (gr_name gr) + (1 + length (gr_passwd gr))"
  by (simp_all add: str_off_def group_strs_def numeral_eq_Suc)

lemma length_group_image: "length (group_image gr) =
    NSS_GR_HDRSZ + str_off (group_strs gr) 2 + length (concat (map cz (gr_mem gr)))"
  unfolding group_image_def group_offs by (simp add: group_strs_def)

lemma group_members_all:
  "dlen + length (concat (map cz ms)) \<le> bufsz \<Longrightarrow>
   group_members bufsz ms dlen k buf =
     Some (dlen + length (concat (map cz ms)), k + length ms, [], mem_upd buf dlen (concat (map cz ms)))"
proof (induction ms arbitrary: dlen k buf)
  case Nil
  then show ?case by simp
next
  case (Cons s ms)
  have "mem_upd (mem_upd buf dlen (cz s)) (dlen + length (cz s)) (concat (map cz ms)) =
      mem_upd buf dlen (cz s @ concat (map cz ms))" by (rule mem_upd_append)
  with Cons show ?case by (simp add: buf_store_def Let_def)
qed

lemma group_members_stop:
  "dlen \<le> bufsz \<Longrightarrow> \<not> dlen + length (concat (map cz ms)) \<le> bufsz \<Longrightarrow>
   \<exists>d n r rest b. group_members bufsz ms dlen k buf = Some (d, n, r # rest, b)"
proof (induction ms arbitrary: dlen k buf)
  case Nil
  then show ?case by simp
next
  case (Cons s ms)
  show ?case
  proof (cases "1 + length s \<le> bufsz - dlen")
    case True
    then have "\<exists>d n r rest b. group_members bufsz ms (dlen + (1 + length s)) (k + 1)
        (mem_upd buf dlen (cz s)) = Some (d, n, r # rest, b)"
      using Cons.prems by (intro Cons.IH) (auto simp: cz_def)
    with True Cons.prems show ?thesis by (auto simp: buf_store_def Let_def)
  next
    case False
    then show ?thesis by (auto simp: Let_def)
  qed
qed

text \<open>The bytes before a region of writes and the region, written in either order.\<close>

lemma mem_upd_before:
  "mem_upd (mem_upd f (length xs) ys) 0 xs = mem_upd f 0 (xs @ ys)"
  by (auto simp: mem_upd_def fun_eq_iff nth_append)

lemma mem_upd_before3:
  assumes "a = length xs" "b = length xs + length ys" "c = length xs + length ys + length zs"
  shows "mem_upd (mem_upd (mem_upd (mem_upd f c us) 0 xs) a ys) b zs = mem_upd f 0 (xs @ ys @ zs @ us)"
  using assms by (auto simp: mem_upd_def fun_eq_iff nth_append)

lemma group_datastr_fits:
  assumes "group_fits bufsz gr"
  shows "nss_mcdb_acct_make_group_datastr bufsz buf gr e =
    Some (length (group_image gr), mem_upd buf 0 (group_image gr), e)"
proof -
  let ?d = "NSS_GR_HDRSZ + (1 + length (gr_name gr) + (1 + length (gr_passwd gr)))"
  let ?us = "concat (map cz (gr_mem gr))"
  let ?hdr = "group_hdr (1 + length (gr_name gr)) (1 + length (gr_name gr) + (1 + length (gr_passwd gr)))
       (?d + length ?us - NSS_GR_HDRSZ) (length (gr_mem gr)) (gr_gid gr)"
  have fit: "?d + length ?us + 8 * length (gr_mem gr) + 15 \<le> bufsz"
    using assms by (simp add: group_fits_def length_group_image group_offs)
  have mems: "group_members bufsz (gr_mem gr) ?d 0 buf =
      Some (?d + length ?us, length (gr_mem gr), [], mem_upd buf ?d ?us)"
    using group_members_all [of ?d "gr_mem gr" bufsz 0 buf] fit by simp
  have s1: "buf_store bufsz 0 ?hdr (mem_upd buf ?d ?us) = Some (mem_upd (mem_upd buf ?d ?us) 0 ?hdr)"
    using fit by (simp add: buf_store_def)
  have s2: "buf_store bufsz NSS_GR_HDRSZ (cz (gr_name gr)) (mem_upd (mem_upd buf ?d ?us) 0 ?hdr) =
      Some (mem_upd (mem_upd (mem_upd buf ?d ?us) 0 ?hdr) NSS_GR_HDRSZ (cz (gr_name gr)))"
    using fit by (simp add: buf_store_def)
  have s3: "buf_store bufsz (NSS_GR_HDRSZ + (1 + length (gr_name gr))) (cz (gr_passwd gr))
       (mem_upd (mem_upd (mem_upd buf ?d ?us) 0 ?hdr) NSS_GR_HDRSZ (cz (gr_name gr))) =
      Some (mem_upd (mem_upd (mem_upd (mem_upd buf ?d ?us) 0 ?hdr) NSS_GR_HDRSZ (cz (gr_name gr)))
        (NSS_GR_HDRSZ + (1 + length (gr_name gr))) (cz (gr_passwd gr)))"
    using fit by (simp add: buf_store_def)
  have m: "mem_upd (mem_upd (mem_upd (mem_upd buf ?d ?us) 0 ?hdr) NSS_GR_HDRSZ (cz (gr_name gr)))
        (NSS_GR_HDRSZ + (1 + length (gr_name gr))) (cz (gr_passwd gr)) =
      mem_upd buf 0 (?hdr @ cz (gr_name gr) @ cz (gr_passwd gr) @ ?us)"
    by (rule mem_upd_before3) simp_all
  have im: "?hdr @ cz (gr_name gr) @ cz (gr_passwd gr) @ ?us = group_image gr"
    unfolding group_image_def group_offs by (simp add: group_strs_def)
  have g: "1 + length (gr_name gr) \<le> USHRT_MAX" "1 + length (gr_passwd gr) \<le> USHRT_MAX" "?d < bufsz"
      "length (gr_mem gr) \<le> USHRT_MAX" "length (gr_mem gr) * 8 + 8 + 7 \<le> bufsz - (?d + length ?us)"
    using assms fit by (simp_all add: group_fits_def)
  show ?thesis
    by (simp only: nss_mcdb_acct_make_group_datastr_def Let_def g mems s1 s2 s3 m im bind.bind_lunit
      prod.case simp_thms if_True) (simp add: length_group_image group_offs)
qed

lemma group_datastr_refuses:
  assumes "\<not> group_fits bufsz gr"
  shows "\<exists>b. nss_mcdb_acct_make_group_datastr bufsz buf gr e = Some (0, b, ERANGE)"
proof -
  let ?d = "NSS_GR_HDRSZ + (1 + length (gr_name gr) + (1 + length (gr_passwd gr)))"
  let ?us = "concat (map cz (gr_mem gr))"
  let ?pre = "1 + length (gr_name gr) \<le> USHRT_MAX \<and> 1 + length (gr_passwd gr) \<le> USHRT_MAX \<and> ?d < bufsz"
  show ?thesis
  proof (cases "?pre \<and> ?d + length ?us \<le> bufsz")
    case True
    have mems: "group_members bufsz (gr_mem gr) ?d 0 buf =
        Some (?d + length ?us, length (gr_mem gr), [], mem_upd buf ?d ?us)"
      using group_members_all [of ?d "gr_mem gr" bufsz 0 buf] True by simp
    have no: "\<not> (length (gr_mem gr) \<le> USHRT_MAX \<and>
        length (gr_mem gr) * 8 + 8 + 7 \<le> bufsz - (?d + length ?us))"
      using assms True by (auto simp: group_fits_def length_group_image group_offs)
    show ?thesis using True
      by (simp only: nss_mcdb_acct_make_group_datastr_def Let_def mems no bind.bind_lunit
        prod.case simp_thms if_True if_False) blast
  next
    case False
    show ?thesis
    proof (cases ?pre)
      case True
      then obtain d n r rest b where "group_members bufsz (gr_mem gr) ?d 0 buf = Some (d, n, r # rest, b)"
        using False group_members_stop [of ?d bufsz "gr_mem gr" 0 buf] by auto
      with True show ?thesis
        by (simp only: nss_mcdb_acct_make_group_datastr_def Let_def bind.bind_lunit prod.case simp_thms
          list.distinct if_True if_False) blast
    next
      case False
      then show ?thesis
        by (simp only: nss_mcdb_acct_make_group_datastr_def Let_def if_False simp_thms) blast
    qed
  qed
qed

subsection \<open>Alignment\<close>

lemma align_mask_bits: "x AND align_mask = push_bit 3 (take_bit 29 (drop_bit 3 (x :: u64)))"
proof -
  have m: "align_mask = mask 32 AND NOT (mask 3)"
    by (simp add: align_mask_def mask_eq_exp_minus_1)
  show ?thesis unfolding m by (rule bit_eqI) (auto simp: bit_simps)
qed

lemma unat_align: "unat ((x :: u64) AND align_mask) = 8 * (unat x div 8 mod 2 ^ 29)"
proof -
  have "x AND align_mask = 8 * (x div 8 mod 2 ^ 29)"
    by (simp add: align_mask_bits push_bit_eq_mult take_bit_eq_mod drop_bit_eq_div mult.commute)
  then have "unat (x AND align_mask) = 8 * (unat x div 8 mod 2 ^ 29) mod 2 ^ 64"
    using unat_u64_less [of x] by (simp add: unat_word_ariths unat_div unat_mod)
  moreover have "unat x div 8 mod 2 ^ 29 < 2 ^ 29" by simp
  then have "8 * (unat x div 8 mod 2 ^ 29) < 2 ^ 64" by simp
  ultimately show ?thesis by (simp only: mod_less)
qed

lemma align_low: "unat (x :: u64) < 2 ^ 32 \<Longrightarrow> unat (x AND align_mask) = 8 * (unat x div 8)"
  unfolding unat_align by simp

lemma align_less: "unat ((x :: u64) AND align_mask) < 2 ^ 32"
proof -
  have "unat x div 8 mod 2 ^ 29 < 2 ^ 29" by simp
  then show ?thesis unfolding unat_align by simp
qed

text \<open>Where the pointer array is placed, for a buffer below 4 GiB: at the end of the strings or at
  most seven bytes later.\<close>

definition gr_arr :: "u64 \<Rightarrow> nat \<Rightarrow> nat" where
  "gr_arr a n = unat (((a + of_nat n + 7) AND align_mask) - a)"

lemma gr_arr_bounds:
  assumes "unat a + n + 7 < 2 ^ 32"
  shows "n \<le> gr_arr a n" "gr_arr a n \<le> n + 7"
    "unat ((a + of_nat n + 7) AND align_mask) = unat a + gr_arr a n"
proof -
  have u: "unat (a + of_nat n + 7) = unat a + n + 7"
    using assms by (simp add: unat_word_ariths unat_of_nat)
  define t where "t = unat a + n + 7"
  have t: "8 * (t div 8) \<le> t" "t \<le> 8 * (t div 8) + 7"
    using mult_div_mod_eq [of 8 t] pos_mod_bound [of 8 "int t"] by linarith (simp add: minus_mod_eq_mult_div [symmetric])
  have al: "unat ((a + of_nat n + 7) AND align_mask) = 8 * (t div 8)"
    using align_low [of "a + of_nat n + 7"] assms u by (simp add: t_def)
  then have "a \<le> (a + of_nat n + 7) AND align_mask"
    using t by (simp add: word_le_nat_alt t_def)
  then have "gr_arr a n = 8 * (t div 8) - unat a"
    by (simp add: gr_arr_def unat_sub al)
  then show "n \<le> gr_arr a n" "gr_arr a n \<le> n + 7"
      "unat ((a + of_nat n + 7) AND align_mask) = unat a + gr_arr a n"
    using t al by (auto simp: t_def)
qed

subsection \<open>Scanning for members\<close>

lemma scan_nul_str:
  "s \<noteq> [] \<Longrightarrow> cstr_ok s \<Longrightarrow> off + length (cz s) \<le> v_bufsz v \<Longrightarrow>
   mem_slice (v_mem v) off (length (cz s)) = cz s \<Longrightarrow> scan_nul v off = Some (off + length s)"
proof (induction s arbitrary: off)
  case Nil
  then show ?case by simp
next
  case (Cons c s)
  have split: "mem_slice (v_mem v) off (Suc (length (cz s))) = v_mem v off # mem_slice (v_mem v) (Suc off) (length (cz s))"
    using mem_slice_add [of "v_mem v" off 1 "length (cz s)"] by (simp add: mem_slice_def)
  then have sl: "mem_slice (v_mem v) (Suc off) (length (cz s)) = cz s"
    using Cons.prems(4) by (simp add: cz_def)
  show ?case
  proof (cases s)
    case Nil
    then have "v_mem v (Suc off) = 0" using sl by (simp add: cz_def mem_slice_def)
    with Nil Cons.prems show ?thesis by (simp add: scan_nul.simps)
  next
    case (Cons d s')
    then have "mem_slice (v_mem v) (Suc off) (length (cz s)) ! 0 = d" using sl by (simp add: cz_def)
    then have "v_mem v (Suc off) = d" by simp
    moreover have "d \<noteq> 0" using \<open>cstr_ok (c # s)\<close> Cons by (auto simp: cstr_ok_def)
    moreover have "scan_nul v (Suc off) = Some (Suc off + length s)"
      using Cons.IH [of "Suc off"] Cons.prems Cons sl by (simp add: cstr_ok_def)
    ultimately show ?thesis using Cons.prems by (simp add: scan_nul.simps [of v off])
  qed
qed

lemma str_off_Suc: "k < length ss \<Longrightarrow> str_off ss (Suc k) = str_off ss k + Suc (length (ss ! k))"
  by (simp add: str_off_def take_Suc_conv_app_nth)

definition nth_ptr :: "u64 \<Rightarrow> bytes list \<Rightarrow> nat \<Rightarrow> u64" where
  "nth_ptr a ss k = a + of_nat (str_off ss k)"

lemma length_ptr_bytes [simp]: "length (ptr_bytes p) = 8"
  by (simp add: ptr_bytes_def)

lemma group_ptrs_eq:
  assumes "i + n + 2 = length ss" "\<forall>s \<in> set ss. cstr_ok s" "\<forall>k < length ss. 1 < k \<longrightarrow> ss ! k \<noteq> []" "0 < i"
    "length (concat (map cz ss)) \<le> arr" "arr + 8 * (i + n) \<le> v_bufsz v"
    "mem_slice (v_mem v) 0 (length (concat (map cz ss))) = concat (map cz ss)"
  shows "group_ptrs n i arr (str_off ss (Suc i)) v =
    Some (v\<lparr>v_mem := mem_upd (v_mem v) (arr + 8 * i)
      (concat (map (\<lambda>k. ptr_bytes (nth_ptr (v_addr v) ss k)) [i + 2..<i + 2 + n]))\<rparr>)"
  using assms
proof (induction n arbitrary: i v)
  case 0
  then show ?case by simp
next
  case (Suc n)
  have k: "Suc i < length ss" using Suc.prems(1) by simp
  have s: "ss ! Suc i \<noteq> []" "cstr_ok (ss ! Suc i)"
    using Suc.prems(2,3,4) k by simp_all
  have e: "scan_nul v (str_off ss (Suc i)) = Some (str_off ss (Suc i) + length (ss ! Suc i))"
  proof (rule scan_nul_str [OF s])
    show "str_off ss (Suc i) + length (cz (ss ! Suc i)) \<le> v_bufsz v"
      using str_off_end [OF k] Suc.prems(5,6) by linarith
    show "mem_slice (v_mem v) (str_off ss (Suc i)) (length (cz (ss ! Suc i))) = cz (ss ! Suc i)"
      using str_in_concat [OF k, of "v_mem v" 0] Suc.prems(7) by simp
  qed
  have so: "Suc (str_off ss (Suc i) + length (ss ! Suc i)) = str_off ss (Suc (Suc i))"
    using str_off_Suc [OF k] by simp
  define v1 where "v1 = v\<lparr>v_mem := mem_upd (v_mem v) (arr + 8 * i) (ptr_bytes (nth_ptr (v_addr v) ss (i + 2)))\<rparr>"
  have st: "vbuf_store (arr + 8 * i) (ptr_bytes (v_addr v + of_nat (str_off ss (Suc (Suc i))))) v = Some v1"
    using Suc.prems(6) by (simp add: vbuf_store_def buf_store_def v1_def nth_ptr_def)
  have keep: "mem_slice (v_mem v1) 0 (length (concat (map cz ss))) = concat (map cz ss)"
    unfolding v1_def using Suc.prems(5,7) by (simp add: mem_slice_upd_disjoint)
  have ih: "group_ptrs n (Suc i) arr (str_off ss (Suc (Suc i))) v1 =
    Some (v1\<lparr>v_mem := mem_upd (v_mem v1) (arr + 8 * Suc i)
      (concat (map (\<lambda>k. ptr_bytes (nth_ptr (v_addr v1) ss k)) [Suc i + 2..<Suc i + 2 + n]))\<rparr>)"
    by (rule Suc.IH) (use Suc.prems keep in \<open>simp_all add: v1_def\<close>)
  have list: "[i + 2..<i + 2 + Suc n] = (i + 2) # [Suc i + 2..<Suc i + 2 + n]"
    by (simp add: upt_conv_Cons)
  have app: "mem_upd (mem_upd f (arr + 8 * i) (ptr_bytes q)) (arr + 8 * Suc i) ys =
      mem_upd f (arr + 8 * i) (ptr_bytes q @ ys)" for f q ys
    using mem_upd_append [of f "arr + 8 * i" "ptr_bytes q" ys] by (simp add: algebra_simps)
  show ?case
    unfolding list group_ptrs.simps e bind.bind_lunit so st ih
    by (simp add: v1_def app del: upt_Suc mult_Suc_right)
qed

end
