(* ===== verification/Nss_Group_Decode.thy ===== *)
theory Nss_Group_Decode
  imports Nss_Group_Proofs
begin

text \<open>
  Decoding group entries: the entry that the caller reads through the decoded struct, the round
  trip, and the two ways in which it fails.
\<close>

subsection \<open>The entry of a decoded struct\<close>

definition read_ptr :: "'e vinfo \<Rightarrow> nat \<Rightarrow> u64" where
  "read_ptr v off = word_of_nat (be_val (rev (mem_slice (v_mem v) off 8)))"

function read_ptrs :: "'e vinfo \<Rightarrow> nat \<Rightarrow> u64 list option" where
  "read_ptrs v off =
     (if off + 8 \<le> v_bufsz v then
        (if read_ptr v off = 0 then Some [] else map_option ((#) (read_ptr v off)) (read_ptrs v (off + 8)))
      else None)"
  by pat_completeness auto
termination by (relation "measure (\<lambda>(v, off). v_bufsz v - off)") auto

declare read_ptrs.simps [simp del]

definition group_view :: "(u64, u64) group_ent vinfo \<Rightarrow> (bytes, bytes list) group_ent option" where
  "group_view v = do {
     name \<leftarrow> ptr_str v (gr_name (v_struct v));
     passwd \<leftarrow> ptr_str v (gr_passwd (v_struct v));
     ps \<leftarrow> read_ptrs v (unat (gr_mem (v_struct v) - v_addr v));
     mems \<leftarrow> those (map (ptr_str v) ps);
     Some \<lparr>gr_name = name, gr_passwd = passwd, gr_gid = gr_gid (v_struct v), gr_mem = mems\<rparr> }"

lemma read_ptr_bytes: "mem_slice (v_mem v) off 8 = ptr_bytes p \<Longrightarrow> read_ptr v off = p"
  using unat_u64_less [of p] by (simp add: read_ptr_def ptr_bytes_def be_val_be_bytes)

lemma length_concat_ptr_bytes [simp]: "length (concat (map (\<lambda>k. ptr_bytes (f k)) ks)) = 8 * length ks"
  by (induction ks) auto

lemma read_ptrs_eq:
  "\<forall>k \<in> set ks. f k \<noteq> 0 \<Longrightarrow> off + 8 * length ks + 8 \<le> v_bufsz v \<Longrightarrow>
   mem_slice (v_mem v) off (8 * length ks + 8) = concat (map (\<lambda>k. ptr_bytes (f k)) ks) @ ptr_bytes 0 \<Longrightarrow>
   read_ptrs v off = Some (map f ks)"
proof (induction ks arbitrary: off)
  case Nil
  then show ?case using read_ptr_bytes [of v off 0] by (simp add: read_ptrs.simps)
next
  case (Cons k ks)
  have split: "mem_slice (v_mem v) off (8 * length (k # ks) + 8) =
      mem_slice (v_mem v) off 8 @ mem_slice (v_mem v) (off + 8) (8 * length ks + 8)"
    using mem_slice_add [of "v_mem v" off 8 "8 * length ks + 8"] by (simp add: algebra_simps)
  then have "mem_slice (v_mem v) off 8 = ptr_bytes (f k)"
      "mem_slice (v_mem v) (off + 8) (8 * length ks + 8) = concat (map (\<lambda>k. ptr_bytes (f k)) ks) @ ptr_bytes 0"
    using Cons.prems(3) by simp_all
  then have "read_ptr v off = f k" "read_ptrs v (off + 8) = Some (map f ks)"
    using read_ptr_bytes Cons.IH [of "off + 8"] Cons.prems(1,2) by simp_all
  then show ?case using Cons.prems(1,2) by (simp add: read_ptrs.simps [of v off])
qed

subsection \<open>Decoding what the encoder stored\<close>

definition group_ok :: "(bytes, bytes list) group_ent \<Rightarrow> bool" where
  "group_ok gr \<longleftrightarrow> (\<forall>s \<in> set (group_strs gr). cstr_ok s) \<and> (\<forall>s \<in> set (gr_mem gr). s \<noteq> [])"

text \<open>Strings, then the pointer array with its terminating null pointer.\<close>

definition group_mem :: "u64 \<Rightarrow> mem \<Rightarrow> (bytes, bytes list) group_ent \<Rightarrow> mem" where
  "group_mem a f gr =
     (let ss = group_strs gr; len = length (concat (map cz ss))
      in mem_upd (mem_upd f 0 (concat (map cz ss))) (gr_arr a len)
           (concat (map (\<lambda>k. ptr_bytes (nth_ptr a ss k)) [2..<length ss]) @ ptr_bytes 0))"

definition group_struct :: "u64 \<Rightarrow> (bytes, bytes list) group_ent \<Rightarrow> (u64, u64) group_ent" where
  "group_struct a gr =
     \<lparr>gr_name = a, gr_passwd = nth_ptr a (group_strs gr) 1, gr_gid = gr_gid gr,
      gr_mem = (a + of_nat (length (concat (map cz (group_strs gr)))) + 7) AND align_mask\<rparr>"

text \<open>Room in the caller's buffer: what remains of the encoder's buffer without the header.\<close>

definition group_room :: "'e vinfo \<Rightarrow> (bytes, bytes list) group_ent \<Rightarrow> bool" where
  "group_room v gr \<longleftrightarrow> length (concat (map cz (group_strs gr))) + 8 * length (gr_mem gr) + 15 \<le> v_bufsz v \<and>
     unat (v_addr v) + v_bufsz v \<le> 2 ^ 32"

lemma length_group_strs: "length (group_strs gr) = length (gr_mem gr) + 2"
  by (simp add: group_strs_def)

lemma group_image_len: "length (group_image gr) = NSS_GR_HDRSZ + length (concat (map cz (group_strs gr)))"
  by (simp add: group_image_def)

lemma group_ptrs_all:
  assumes "\<forall>s \<in> set ss. cstr_ok s" "\<forall>k < length ss. 1 < k \<longrightarrow> ss ! k \<noteq> []" "n + 2 = length ss"
    "length (concat (map cz ss)) \<le> arr" "arr + 8 * n + 8 \<le> v_bufsz v"
    "mem_slice (v_mem v) 0 (length (concat (map cz ss))) = concat (map cz ss)"
  shows "\<exists>v2 v3. vbuf_store arr (ptr_bytes (v_addr v + of_nat (str_off ss 2))) v = Some v2 \<and>
      group_ptrs (n - 1) 1 arr (str_off ss 2) v2 = Some v3 \<and>
      vbuf_store (arr + 8 * n) (ptr_bytes 0) v3 =
        Some (v\<lparr>v_mem := mem_upd (v_mem v) arr (concat (map (\<lambda>k. ptr_bytes (nth_ptr (v_addr v) ss k)) [2..<length ss]) @ ptr_bytes 0)\<rparr>)"
proof -
  define v2 where "v2 = v\<lparr>v_mem := mem_upd (v_mem v) arr (ptr_bytes (nth_ptr (v_addr v) ss 2))\<rparr>"
  have s2: "vbuf_store arr (ptr_bytes (v_addr v + of_nat (str_off ss 2))) v = Some v2"
    using assms(5) by (simp add: vbuf_store_def buf_store_def v2_def nth_ptr_def)
  have keep: "mem_slice (v_mem v2) 0 (length (concat (map cz ss))) = concat (map cz ss)"
    unfolding v2_def using assms(4,6) by (simp add: mem_slice_upd_disjoint)
  show ?thesis
  proof (cases n)
    case 0
    then have "length ss = 2" using assms(3) by simp
    moreover have "mem_upd (mem_upd (v_mem v) arr (ptr_bytes q)) arr (ptr_bytes 0) = mem_upd (v_mem v) arr (ptr_bytes 0)" for q
      by (auto simp: mem_upd_def fun_eq_iff)
    ultimately show ?thesis using s2 0 assms(5) by (simp add: vbuf_store_def buf_store_def v2_def)
  next
    case (Suc j)
    define v3 where "v3 = v2\<lparr>v_mem := mem_upd (v_mem v2) (arr + 8 * 1)
      (concat (map (\<lambda>k. ptr_bytes (nth_ptr (v_addr v2) ss k)) [1 + 2..<1 + 2 + j]))\<rparr>"
    have e: "group_ptrs j 1 arr (str_off ss (Suc 1)) v2 = Some v3"
      unfolding v3_def
      by (rule group_ptrs_eq) (use assms Suc keep in \<open>simp_all add: v2_def\<close>)
    have "length ss = 1 + 2 + j" using assms(3) Suc by simp
    moreover have "[2..<1 + 2 + j] = 2 # [Suc 2..<1 + 2 + j]" by (rule upt_conv_Cons) simp
    moreover have "Suc 2 = 1 + 2" by simp
    ultimately have list: "[2..<length ss] = 2 # [1 + 2..<1 + 2 + j]" by (simp only:)
    let ?xs = "ptr_bytes (nth_ptr (v_addr v) ss 2)"
    let ?ys = "concat (map (\<lambda>k. ptr_bytes (nth_ptr (v_addr v) ss k)) [1 + 2..<1 + 2 + j])"
    have l: "length ?ys = 8 * j" by (simp only: length_concat_ptr_bytes length_upt diff_add_inverse)
    have m3: "v_mem v3 = mem_upd (v_mem v) arr (?xs @ ?ys)"
      using mem_upd_append [of "v_mem v" arr ?xs ?ys] by (simp add: v3_def v2_def)
    have "mem_upd (v_mem v3) (arr + 8 * n) (ptr_bytes 0) = mem_upd (v_mem v) arr ((?xs @ ?ys) @ ptr_bytes 0)"
      using mem_upd_append [of "v_mem v" arr "?xs @ ?ys" "ptr_bytes 0"] l Suc by (simp add: m3)
    then have "vbuf_store (arr + 8 * n) (ptr_bytes 0) v3 =
        Some (v\<lparr>v_mem := mem_upd (v_mem v) arr (concat (map (\<lambda>k. ptr_bytes (nth_ptr (v_addr v) ss k)) [2..<length ss]) @ ptr_bytes 0)\<rparr>)"
      unfolding list using assms(5) by (simp add: vbuf_store_def buf_store_def v3_def v2_def)
    moreover have "Suc 1 = 2" by simp
    ultimately show ?thesis using s2 e Suc by (metis diff_Suc_1)
  qed
qed

text \<open>What the decoder does with a stored entry: it copies the strings and then fills the pointer array.\<close>

definition group_copied :: "(u64, u64) group_ent vinfo \<Rightarrow> (bytes, bytes list) group_ent \<Rightarrow> (u64, u64) group_ent vinfo" where
  "group_copied v gr = v\<lparr>v_struct := group_struct (v_addr v) gr, v_mem := mem_upd (v_mem v) 0 (concat (map cz (group_strs gr)))\<rparr>"

lemma group_copied_sel [simp]: "v_addr (group_copied v gr) = v_addr v" "v_bufsz (group_copied v gr) = v_bufsz v"
  "v_struct (group_copied v gr) = group_struct (v_addr v) gr"
  by (simp_all add: group_copied_def)

lemma group_decode_run:
  assumes "found_data m w (group_image gr)" "group_fits bufsz gr" "length (concat (map cz (group_strs gr))) \<le> USHRT_MAX" "group_room v gr"
    and arr: "arr = gr_arr (v_addr v) (length (concat (map cz (group_strs gr))))"
  shows "nss_mcdb_acct_group_decode m v w = do {
       v2 \<leftarrow> vbuf_store arr (ptr_bytes (v_addr v + of_nat (str_off (group_strs gr) 2))) (group_copied v gr);
       v3 \<leftarrow> group_ptrs (length (gr_mem gr) - 1) 1 arr (str_off (group_strs gr) 2) v2;
       v4 \<leftarrow> vbuf_store (arr + 8 * length (gr_mem gr)) (ptr_bytes 0) v3;
       Some (NSS_STATUS_SUCCESS, v4, w) }"
    "length (concat (map cz (group_strs gr))) \<le> arr" "arr + 8 * (length (gr_mem gr) + 1) \<le> v_bufsz v"
proof -
  let ?ss = "group_strs gr"
  let ?str = "concat (map cz ?ss)"
  let ?L = "length ?str"
  let ?n = "length (gr_mem gr)"
  let ?a = "v_addr v"
  let ?hdr = "group_hdr (str_off ?ss 1) (str_off ?ss 2) ?L ?n (gr_gid gr)"
  obtain mm where mm: "get_map (m_map m) w = Some mm" "mm_size mm < 2 ^ 64"
      "map_load mm (m_dpos m) (unat (m_dlen m)) = Some (group_image gr)"
      "length (group_image gr) = unat (m_dlen m)"
    using assms(1) by (rule found_dataE)
  have dl: "unat (m_dlen m) = NSS_GR_HDRSZ + ?L" using mm(4) by (simp add: group_image_len)
  have fit: "?n \<le> USHRT_MAX" using assms(2) by (simp add: group_fits_def)
  note Lle = assms(3)
  have offs: "str_off ?ss 1 \<le> USHRT_MAX" "str_off ?ss 2 \<le> USHRT_MAX"
    unfolding group_offs using Lle by (simp_all add: group_strs_def)
  have hdr: "map_load mm (m_dpos m) NSS_GR_HDRSZ = Some ?hdr"
    using found_head [OF mm(3,2), of NSS_GR_HDRSZ] dl by (simp add: group_image_def)
  have sd: "size_diff (unat (m_dlen m)) NSS_GR_HDRSZ = ?L"
    using dl unat_u32_less [of "m_dlen m"] by (simp add: size_diff_le)
  have dat: "map_load mm (m_dpos m + of_nat NSS_GR_HDRSZ) ?L = Some ?str"
    using found_part [OF mm(3,2), of NSS_GR_HDRSZ ?L] dl by (simp add: group_image_def)
  have room: "?L + 8 * ?n + 15 \<le> v_bufsz v" "unat ?a + v_bufsz v \<le> 2 ^ 32"
    using assms(4) by (simp_all add: group_room_def)
  have ab: "?L \<le> arr" "arr \<le> ?L + 7" unfolding arr by (rule gr_arr_bounds; use room in linarith)+
  have sz: "unat (((?a + of_nat ?L + 7) AND align_mask) - ?a + of_nat (?n + 1) * 8) = arr + 8 * (?n + 1)"
  proof -
    have "unat (of_nat (?n + 1) * 8 :: u64) = 8 * (?n + 1)"
      using fit by (simp add: unat_word_ariths unat_of_nat USHRT_MAX_def)
    moreover have "arr + 8 * (?n + 1) < 2 ^ 64" using ab room by simp
    ultimately show ?thesis by (simp only: unat_plus_if_size word_size gr_arr_def [symmetric] arr [symmetric]) simp
  qed
  show le: "arr + 8 * (?n + 1) \<le> v_bufsz v" using ab room by simp
  show "?L \<le> arr" by (rule ab(1))
  have s1: "vbuf_store 0 ?str (v\<lparr>v_struct := group_struct ?a gr\<rparr>) = Some (group_copied v gr)"
    using room by (simp add: vbuf_store_def buf_store_def group_copied_def)
  have st: "\<lparr>gr_name = ?a, gr_passwd = ?a + of_nat (str_off ?ss 1), gr_gid = gr_gid gr,
      gr_mem = (?a + of_nat ?L + 7) AND align_mask\<rparr> = group_struct ?a gr"
    by (simp add: group_struct_def nth_ptr_def)
  have va: "v_addr (v\<lparr>v_struct := x\<rparr>) = ?a" "v_bufsz (v\<lparr>v_struct := x\<rparr>) = v_bufsz v" for x by simp_all
  have arr': "unat (((?a + of_nat ?L + 7) AND align_mask) - ?a) = arr" by (simp add: gr_arr_def arr)
  show "nss_mcdb_acct_group_decode m v w = do {
       v2 \<leftarrow> vbuf_store arr (ptr_bytes (?a + of_nat (str_off ?ss 2))) (group_copied v gr);
       v3 \<leftarrow> group_ptrs (?n - 1) 1 arr (str_off ?ss 2) v2;
       v4 \<leftarrow> vbuf_store (arr + 8 * ?n) (ptr_bytes 0) v3;
       Some (NSS_STATUS_SUCCESS, v4, w) }"
    by (simp only: nss_mcdb_acct_group_decode_def mm(1) hdr sd dat Let_def bind.bind_lunit group_hdr_fields [OF offs Lle fit]
      va sz le if_True st s1 arr')
qed

lemma group_decode_eq:
  assumes "found_data m w (group_image gr)" "group_fits bufsz gr" "length (concat (map cz (group_strs gr))) \<le> USHRT_MAX" "group_ok gr" "group_room v gr"
  shows "nss_mcdb_acct_group_decode m v w =
    Some (NSS_STATUS_SUCCESS, v\<lparr>v_mem := group_mem (v_addr v) (v_mem v) gr, v_struct := group_struct (v_addr v) gr\<rparr>, w)"
proof -
  let ?ss = "group_strs gr"
  let ?L = "length (concat (map cz ?ss))"
  let ?n = "length (gr_mem gr)"
  let ?arr = "gr_arr (v_addr v) ?L"
  note run = group_decode_run [OF assms(1-3,5) refl]
  have okss: "\<forall>s \<in> set ?ss. cstr_ok s" "\<forall>k < length ?ss. 1 < k \<longrightarrow> ?ss ! k \<noteq> []"
    using assms(4) by (auto simp: group_ok_def group_strs_def nth_Cons split: nat.split)
  have mem: "mem_slice (v_mem (group_copied v gr)) 0 ?L = concat (map cz ?ss)" by (simp add: group_copied_def)
  have le: "?arr + 8 * ?n + 8 \<le> v_bufsz (group_copied v gr)" using run(3) by simp
  obtain v2 v3 where r: "vbuf_store ?arr (ptr_bytes (v_addr v + of_nat (str_off ?ss 2))) (group_copied v gr) = Some v2"
      "group_ptrs (?n - 1) 1 ?arr (str_off ?ss 2) v2 = Some v3"
      "vbuf_store (?arr + 8 * ?n) (ptr_bytes 0) v3 = Some ((group_copied v gr)\<lparr>v_mem := mem_upd (v_mem (group_copied v gr)) ?arr
         (concat (map (\<lambda>k. ptr_bytes (nth_ptr (v_addr v) ?ss k)) [2..<length ?ss]) @ ptr_bytes 0)\<rparr>)"
    using group_ptrs_all [OF okss length_group_strs [symmetric] run(2) le mem] unfolding group_copied_sel by blast
  show ?thesis
    unfolding run(1) r bind.bind_lunit by (simp add: group_copied_def group_mem_def Let_def)
qed


lemma group_decode_view:
  assumes "found_data m w (group_image gr)" "group_fits bufsz gr" "length (concat (map cz (group_strs gr))) \<le> USHRT_MAX" "group_ok gr" "group_room v gr"
  shows "\<exists>v'. nss_mcdb_acct_group_decode m v w = Some (NSS_STATUS_SUCCESS, v', w) \<and> group_view v' = Some gr"
proof -
  let ?ss = "group_strs gr"
  let ?L = "length (concat (map cz ?ss))"
  let ?n = "length (gr_mem gr)"
  let ?a = "v_addr v"
  let ?arr = "gr_arr ?a ?L"
  let ?ptrs = "concat (map (\<lambda>k. ptr_bytes (nth_ptr ?a ?ss k)) [2..<length ?ss]) @ ptr_bytes 0"
  define v' where "v' = v\<lparr>v_mem := group_mem ?a (v_mem v) gr, v_struct := group_struct ?a gr\<rparr>"
  have room: "?L + 8 * ?n + 15 \<le> v_bufsz v" "unat ?a + v_bufsz v \<le> 2 ^ 32"
    using assms(5) by (simp_all add: group_room_def)
  have ab: "?L \<le> ?arr" "?arr \<le> ?L + 7" by (rule gr_arr_bounds; use room in linarith)+
  have lp: "length ?ptrs = 8 * ?n + 8"
    by (simp add: length_group_strs del: upt_Suc)
  have mem: "mem_slice (v_mem v') 0 ?L = concat (map cz ?ss)"
    using ab by (simp add: v'_def group_mem_def Let_def mem_slice_upd_disjoint)
  have p: "ptr_str v' (nth_ptr ?a ?ss k) = Some (?ss ! k)" if "k < length ?ss" for k
  proof -
    have "str_off ?ss k < 2 ^ 64" using str_off_end [OF that] room by simp
    moreover have "cstr_ok (?ss ! k)" using assms(4) that by (simp add: group_ok_def)
    moreover have "?L \<le> v_bufsz v'" "v_addr v' = ?a" using room by (simp_all add: v'_def)
    ultimately show ?thesis using ptr_str_nth [of k ?ss v'] that mem by (simp add: nth_ptr_def)
  qed
  have arr: "unat (gr_mem (v_struct v') - v_addr v') = ?arr"
    by (simp add: v'_def group_struct_def gr_arr_def)
  have nz: "\<forall>k \<in> set [2..<length ?ss]. nth_ptr ?a ?ss k \<noteq> 0"
  proof
    fix k assume k: "k \<in> set [2..<length ?ss]"
    then have kk: "2 \<le> k" "k < length ?ss" by simp_all
    then have "Suc (str_off ?ss (k - 1)) \<le> str_off ?ss k"
      using str_off_Suc [of "k - 1" ?ss] by simp
    moreover have "str_off ?ss k \<le> ?L" using str_off_end [of k ?ss] kk by simp
    ultimately have "unat (nth_ptr ?a ?ss k) \<noteq> 0"
      using room by (simp add: nth_ptr_def unat_word_ariths unat_of_nat)
    then show "nth_ptr ?a ?ss k \<noteq> 0" by auto
  qed
  have "mem_slice (v_mem v') ?arr (8 * length [2..<length ?ss] + 8) = ?ptrs"
  proof -
    have "v_mem v' = mem_upd (mem_upd (v_mem v) 0 (concat (map cz ?ss))) ?arr ?ptrs"
      by (simp add: v'_def group_mem_def Let_def del: upt_Suc)
    moreover have "8 * length [2..<length ?ss] + 8 = length ?ptrs" by (simp del: upt_Suc)
    ultimately show ?thesis by simp
  qed
  then have ps: "read_ptrs v' ?arr = Some (map (nth_ptr ?a ?ss) [2..<length ?ss])"
    using nz ab room by (intro read_ptrs_eq) (simp_all add: v'_def length_group_strs del: upt_Suc)
  have "those (map (ptr_str v') (map (nth_ptr ?a ?ss) [2..<length ?ss])) = Some (map ((!) ?ss) [2..<length ?ss])"
  proof -
    have "map (ptr_str v') (map (nth_ptr ?a ?ss) [2..<length ?ss]) = map (\<lambda>k. Some (?ss ! k)) [2..<length ?ss]"
      using p by simp
    moreover have "those (map (\<lambda>k. Some (g k)) ks) = Some (map g ks)" for g :: "nat \<Rightarrow> bytes" and ks
      by (induction ks) auto
    ultimately show ?thesis by (simp only:)
  qed
  moreover have dr: "map ((!) ?ss) [2..<length ?ss] = drop 2 ?ss"
    by (rule nth_equalityI) (simp_all del: upt_Suc)
  have "drop 2 ?ss = gr_mem gr" by (simp add: group_strs_def)
  then have "map ((!) ?ss) [2..<length ?ss] = gr_mem gr" by (simp only: dr)
  moreover have "ptr_str v' ?a = Some (gr_name gr)" "ptr_str v' (nth_ptr ?a ?ss 1) = Some (gr_passwd gr)"
    using p [of 0] p [of 1] by (simp_all add: group_strs_def nth_ptr_def str_off_def)
  moreover have "gr_name (v_struct v') = ?a" "gr_passwd (v_struct v') = nth_ptr ?a ?ss 1" "gr_gid (v_struct v') = gr_gid gr"
    by (simp_all add: v'_def group_struct_def)
  ultimately have "group_view v' = Some gr"
    by (simp only: group_view_def arr ps bind.bind_lunit) simp
  moreover have "nss_mcdb_acct_group_decode m v w = Some (NSS_STATUS_SUCCESS, v', w)"
    unfolding v'_def by (rule group_decode_eq [OF assms])
  ultimately show ?thesis by blast
qed

subsection \<open>Buffers above 4 GiB\<close>

text \<open>
  The mask clears the upper half of the address, so for a buffer high enough the computed size is
  huge and every entry, of whatever size and for whatever buffer size, is refused.
\<close>

lemma group_decode_high:
  assumes "get_map (m_map m) w = Some mm" "map_load mm (m_dpos m) NSS_GR_HDRSZ = Some hdr"
    "2 ^ 33 \<le> unat (v_addr v)" "unat (v_addr v) < 2 ^ 63" "v_bufsz v < 2 ^ 63"
  shows "\<exists>v'. nss_mcdb_acct_group_decode m v w = Some (NSS_STATUS_TRYAGAIN, v', w\<lparr>r_errno := ERANGE\<rparr>) \<and> v_mem v' = v_mem v"
proof -
  let ?p = "(v_addr v + of_nat (ntohs hdr NSS_GR_MEM) + 7) AND align_mask"
  let ?n = "ntohs hdr NSS_GR_MEM_NUM"
  have n: "?n < 65536"
  proof -
    have "?n < 256 ^ length (take 2 (drop NSS_GR_MEM_NUM hdr))" unfolding ntohs_def by (rule be_val_bound)
    also have "\<dots> \<le> 256 ^ 2" by (rule power_increasing) simp_all
    finally show ?thesis by simp
  qed
  have lt: "unat ?p < 2 ^ 32" by (rule align_less)
  then have "\<not> v_addr v \<le> ?p" using assms(3) by (simp add: word_le_nat_alt)
  then have d: "unat (?p - v_addr v) = unat ?p + 2 ^ 64 - unat (v_addr v)"
    using assms(3) lt by (simp add: unat_sub_if_size word_size word_le_nat_alt)
  have m: "unat (of_nat (?n + 1) * 8 :: u64) = 8 * (?n + 1)"
    using n by (simp add: unat_word_ariths unat_of_nat)
  have "unat (?p - v_addr v + of_nat (?n + 1) * 8) = unat ?p + 2 ^ 64 - unat (v_addr v) + 8 * (?n + 1)"
    using d m lt assms(3,4) n by (subst unat_plus_if_size) (simp add: word_size)
  moreover have "v_bufsz v < unat ?p + 2 ^ 64 - unat (v_addr v) + 8 * (?n + 1)"
    using assms(4,5) by simp
  ultimately have no: "\<not> unat (?p - v_addr v + of_nat (?n + 1) * 8) \<le> v_bufsz v"
    by (simp only: not_le)
  have va: "v_addr (v\<lparr>v_struct := x\<rparr>) = v_addr v" "v_bufsz (v\<lparr>v_struct := x\<rparr>) = v_bufsz v" for x by simp_all
  show ?thesis
    by (simp only: nss_mcdb_acct_group_decode_def assms(1,2) bind.bind_lunit Let_def va no if_False) simp
qed

subsection \<open>An empty member name\<close>

text \<open>The loop that finds the members writes only behind the pointers that are there already.\<close>

lemma group_ptrs_keeps:
  "group_ptrs n i arr off v = Some v' \<Longrightarrow> p + l \<le> arr + 8 * i \<Longrightarrow>
   mem_slice (v_mem v') p l = mem_slice (v_mem v) p l \<and> v_addr v' = v_addr v \<and> v_struct v' = v_struct v"
proof (induction n arbitrary: i off v)
  case (Suc n)
  from Suc.prems(1) obtain e v1 where s: "vbuf_store (arr + 8 * i) (ptr_bytes (v_addr v + of_nat (Suc e))) v = Some v1"
    "group_ptrs n (Suc i) arr (Suc e) v1 = Some v'" by (auto simp: bind_eq_Some_conv)
  have "v1 = v\<lparr>v_mem := mem_upd (v_mem v) (arr + 8 * i) (ptr_bytes (v_addr v + of_nat (Suc e)))\<rparr>"
    using s(1) by (auto simp: vbuf_store_def buf_store_def split: if_splits)
  then show ?case using Suc.IH [OF s(2)] Suc.prems(2) by (simp add: mem_slice_upd_disjoint)
qed simp

text \<open>From an empty string the scan runs through the string behind it.\<close>

lemma scan_nul_empty:
  assumes "ss ! k = []" "Suc k < length ss" "\<forall>s \<in> set ss. cstr_ok s" "length (concat (map cz ss)) \<le> v_bufsz v"
    "mem_slice (v_mem v) 0 (length (concat (map cz ss))) = concat (map cz ss)"
  shows "scan_nul v (str_off ss k) = Some (str_off ss (Suc k) + length (ss ! Suc k))"
proof -
  let ?o = "str_off ss (Suc k)" and ?s = "ss ! Suc k"
  have o: "Suc (str_off ss k) = ?o" using assms(1,2) str_off_Suc [of k ss] by simp
  have sl: "mem_slice (v_mem v) ?o (length (cz ?s)) = cz ?s"
    using str_in_concat [OF assms(2), of "v_mem v" 0] assms(5) by simp
  have room: "?o + length (cz ?s) \<le> v_bufsz v" using str_off_end [OF assms(2)] assms(4) by linarith
  have ok: "cstr_ok ?s" using assms(2,3) by simp
  have "v_mem v ?o = hd (cz ?s)" using arg_cong [OF sl, of hd] by (simp add: mem_slice_def cz_def upt_rec)
  then show ?thesis
    using room ok sl scan_nul_str [of ?s ?o v] by (cases ?s) (auto simp: scan_nul.simps [of v "str_off ss k"] o cz_def cstr_ok_def)
qed

lemma group_ptrs_misread:
  assumes "group_ptrs n i arr (str_off ss (Suc i)) v = Some v'" "i + n + 2 = length ss" "\<forall>s \<in> set ss. cstr_ok s" "0 < i" "i \<le> Suc e"
    "\<forall>k < e + 2. 1 < k \<longrightarrow> ss ! k \<noteq> []" "ss ! (e + 2) = []" "Suc e < i + n"
    "length (concat (map cz ss)) \<le> arr" "arr + 8 * (i + n) \<le> v_bufsz v"
    "mem_slice (v_mem v) 0 (length (concat (map cz ss))) = concat (map cz ss)"
  shows "(\<forall>j \<in> {i..e}. mem_slice (v_mem v') (arr + 8 * j) 8 = ptr_bytes (nth_ptr (v_addr v) ss (j + 2))) \<and>
    mem_slice (v_mem v') (arr + 8 * Suc e) 8 = ptr_bytes (nth_ptr (v_addr v) ss (e + 4))"
  using assms
proof (induction n arbitrary: i v)
  case (Suc n)
  have k: "Suc i < length ss" using Suc.prems(2) by simp
  from Suc.prems(1) obtain z v1 where z: "scan_nul v (str_off ss (Suc i)) = Some z"
    and s: "vbuf_store (arr + 8 * i) (ptr_bytes (v_addr v + of_nat (Suc z))) v = Some v1" "group_ptrs n (Suc i) arr (Suc z) v1 = Some v'"
    by (auto simp: bind_eq_Some_conv)
  have v1: "v1 = v\<lparr>v_mem := mem_upd (v_mem v) (arr + 8 * i) (ptr_bytes (v_addr v + of_nat (Suc z)))\<rparr>"
    using s(1) by (auto simp: vbuf_store_def buf_store_def split: if_splits)
  have slot: "mem_slice (v_mem v') (arr + 8 * i) 8 = ptr_bytes (v_addr v + of_nat (Suc z))"
    using group_ptrs_keeps [OF s(2), of "arr + 8 * i" 8] mem_slice_upd_same [of 8 "ptr_bytes (v_addr v + of_nat (Suc z))" "v_mem v" "arr + 8 * i"]
    by (simp add: v1)
  have keep: "mem_slice (v_mem v1) 0 (length (concat (map cz ss))) = concat (map cz ss)"
    unfolding v1 using Suc.prems(9,11) by (simp add: mem_slice_upd_disjoint)
  show ?case
  proof (cases "i = Suc e")
    case True
    have l2: "Suc (e + 2) < length ss" using Suc.prems(2,8) True by simp
    have "length (concat (map cz ss)) \<le> v_bufsz v" using Suc.prems(9,10) by simp
    from scan_nul_empty [OF Suc.prems(7) l2 Suc.prems(3) this Suc.prems(11)]
    have "Suc z = str_off ss (e + 4)" using z True str_off_Suc [OF l2] by (simp add: numeral_eq_Suc)
    then show ?thesis using slot True by (simp add: nth_ptr_def)
  next
    case False
    then have ie: "i \<le> e" using Suc.prems(5) by simp
    have "ss ! Suc i \<noteq> []" "cstr_ok (ss ! Suc i)" using Suc.prems(3,4,6) k ie by simp_all
    then have "scan_nul v (str_off ss (Suc i)) = Some (str_off ss (Suc i) + length (ss ! Suc i))"
      using str_off_end [OF k] Suc.prems(9-11) str_in_concat [OF k, of "v_mem v" 0] by (intro scan_nul_str) simp_all
    then have zz: "Suc z = str_off ss (Suc (Suc i))" using z str_off_Suc [OF k] by simp
    have slot_i: "mem_slice (v_mem v') (arr + 8 * i) 8 = ptr_bytes (nth_ptr (v_addr v) ss (i + 2))" using slot zz by (simp add: nth_ptr_def)
    have IH: "(\<forall>j \<in> {Suc i..e}. mem_slice (v_mem v') (arr + 8 * j) 8 = ptr_bytes (nth_ptr (v_addr v1) ss (j + 2))) \<and>
        mem_slice (v_mem v') (arr + 8 * Suc e) 8 = ptr_bytes (nth_ptr (v_addr v1) ss (e + 4))"
      by (rule Suc.IH [OF s(2) [unfolded zz]]) (use Suc.prems keep ie in \<open>simp_all add: v1\<close>)
    have "{i..e} = insert i {Suc i..e}" using ie by auto
    then show ?thesis using IH slot_i by (simp add: v1)
  qed
qed simp

lemma group_decode_empty:
  assumes "found_data m w (group_image gr)" "group_fits bufsz gr" "length (concat (map cz (group_strs gr))) \<le> USHRT_MAX" "group_room v gr"
    and ok: "\<forall>s \<in> set (group_strs gr). cstr_ok s" and e: "Suc e < length (gr_mem gr)" "gr_mem gr ! e = []" "\<forall>j < e. gr_mem gr ! j \<noteq> []"
    and run: "nss_mcdb_acct_group_decode m v w = Some (st, v', w')"
  shows "st = NSS_STATUS_SUCCESS" "w' = w" "v_addr v' = v_addr v" "v_struct v' = group_struct (v_addr v) gr"
    "j \<le> e \<Longrightarrow> read_ptr v' (unat (gr_mem (v_struct v') - v_addr v') + 8 * j) = nth_ptr (v_addr v) (group_strs gr) (j + 2)"
    "read_ptr v' (unat (gr_mem (v_struct v') - v_addr v') + 8 * Suc e) = nth_ptr (v_addr v) (group_strs gr) (e + 4)"
proof -
  let ?ss = "group_strs gr"
  let ?L = "length (concat (map cz ?ss))"
  let ?n = "length (gr_mem gr)"
  define arr where "arr = gr_arr (v_addr v) ?L"
  note R = group_decode_run [OF assms(1-4) arr_def]
  from run obtain v2 v3 where r: "vbuf_store arr (ptr_bytes (v_addr v + of_nat (str_off ?ss 2))) (group_copied v gr) = Some v2"
      "group_ptrs (?n - 1) 1 arr (str_off ?ss (Suc 1)) v2 = Some v3" "vbuf_store (arr + 8 * ?n) (ptr_bytes 0) v3 = Some v'"
    and out: "st = NSS_STATUS_SUCCESS" "w' = w"
    unfolding R(1) by (auto simp: bind_eq_Some_conv numeral_2_eq_2)
  show "st = NSS_STATUS_SUCCESS" "w' = w" by (rule out)+
  let ?p0 = "ptr_bytes (nth_ptr (v_addr v) ?ss 2)"
  have v2: "v2 = (group_copied v gr)\<lparr>v_mem := mem_upd (v_mem (group_copied v gr)) arr ?p0\<rparr>"
    using r(1) by (auto simp: vbuf_store_def buf_store_def nth_ptr_def split: if_splits)
  have v': "v' = v3\<lparr>v_mem := mem_upd (v_mem v3) (arr + 8 * ?n) (ptr_bytes 0)\<rparr>"
    using r(3) by (auto simp: vbuf_store_def buf_store_def split: if_splits)
  have k: "mem_slice (v_mem v3) arr 8 = mem_slice (v_mem v2) arr 8 \<and> v_addr v3 = v_addr v2 \<and> v_struct v3 = v_struct v2"
    by (rule group_ptrs_keeps [OF r(2)]) simp
  have "mem_slice (v_mem v2) arr 8 = ?p0" using mem_slice_upd_same [of 8 ?p0 "v_mem (group_copied v gr)" arr] by (simp add: v2)
  then have first: "mem_slice (v_mem v3) arr 8 = ?p0" using k by simp
  have keep: "mem_slice (v_mem v2) 0 ?L = concat (map cz ?ss)"
    using R(2) by (simp add: v2 group_copied_def mem_slice_upd_disjoint)
  have nz: "\<forall>k < e + 2. 1 < k \<longrightarrow> ?ss ! k \<noteq> []" "?ss ! (e + 2) = []"
    using e(2,3) by (auto simp: group_strs_def nth_Cons split: nat.split)
  have M: "(\<forall>j \<in> {1..e}. mem_slice (v_mem v3) (arr + 8 * j) 8 = ptr_bytes (nth_ptr (v_addr v2) ?ss (j + 2))) \<and>
    mem_slice (v_mem v3) (arr + 8 * Suc e) 8 = ptr_bytes (nth_ptr (v_addr v2) ?ss (e + 4))"
    by (rule group_ptrs_misread [OF r(2) _ ok _ _ nz _ R(2) _ keep]) (use e(1) R(3) in \<open>simp_all add: length_group_strs v2\<close>)
  show a: "v_addr v' = v_addr v" "v_struct v' = group_struct (v_addr v) gr" using k by (simp_all add: v' v2)
  have arr: "unat (gr_mem (v_struct v') - v_addr v') = arr" by (simp add: a group_struct_def gr_arr_def arr_def)
  have slot: "mem_slice (v_mem v') (arr + 8 * i) 8 = mem_slice (v_mem v3) (arr + 8 * i) 8" if "i \<le> Suc e" for i
    using that e(1) by (simp add: v' mem_slice_upd_disjoint)
  have at: "mem_slice (v_mem v') (arr + 8 * j) 8 = ptr_bytes (nth_ptr (v_addr v) ?ss (j + 2))" if "j \<le> e" for j
  proof (cases "j = 0")
    case True
    then show ?thesis using first slot [of 0] by (simp del: add_2_eq_Suc')
  next
    case False
    then have "j \<in> {1..e}" using that by simp
    from bspec [OF conjunct1 [OF M] this] show ?thesis using slot [of j] that by (simp add: v2)
  qed
  show "j \<le> e \<Longrightarrow> read_ptr v' (unat (gr_mem (v_struct v') - v_addr v') + 8 * j) = nth_ptr (v_addr v) ?ss (j + 2)"
    unfolding arr by (rule read_ptr_bytes) (rule at)
  show "read_ptr v' (unat (gr_mem (v_struct v') - v_addr v') + 8 * Suc e) = nth_ptr (v_addr v) ?ss (e + 4)"
    unfolding arr by (rule read_ptr_bytes) (use M slot [of "Suc e"] in \<open>simp add: v2\<close>)
qed

end
