(* ===== verification/Nss_Grouplist_Proofs.thy ===== *)
theory Nss_Grouplist_Proofs
  imports Nss_Group_Decode
begin

text \<open>
  A user's stored list of groups: its encoding, what the decoder returns when the caller's array
  is big enough, how it reports the size that would be, and what happens in between.
\<close>

subsection \<open>Encoding\<close>

definition gidlist_bytes :: "u32 list \<Rightarrow> bytes" where
  "gidlist_bytes gs = concat (map htonl gs)"

definition grouplist_image :: "u32 list \<Rightarrow> bytes" where
  "grouplist_image gs = htonl (of_nat (length gs)) @ gidlist_bytes gs"

lemma gidlist_bytes_simps [simp]:
  "gidlist_bytes [] = []" "gidlist_bytes (g # gs) = htonl g @ gidlist_bytes gs"
  by (simp_all add: gidlist_bytes_def)

lemma length_gidlist_bytes [simp]: "length (gidlist_bytes gs) = 4 * length gs"
  by (induction gs) simp_all

lemma gidlist_store_eq:
  "off + 4 * length gs \<le> bufsz \<Longrightarrow> gidlist_store bufsz gs off buf = Some (mem_upd buf off (gidlist_bytes gs))"
proof (induction gs arbitrary: off buf)
  case Nil
  then show ?case by simp
next
  case (Cons g gs)
  have "mem_upd (mem_upd buf off (htonl g)) (off + 4) (gidlist_bytes gs) = mem_upd buf off (htonl g @ gidlist_bytes gs)"
    using mem_upd_append [of buf off "htonl g" "gidlist_bytes gs"] by simp
  with Cons show ?case by (simp add: buf_store_def)
qed

lemma grouplist_datastr_eq:
  assumes "length gs < 2 ^ 32"
  shows "nss_mcdb_acct_make_grouplist_datastr bufsz buf gs e =
    (if length (grouplist_image gs) \<le> bufsz
     then Some (length (grouplist_image gs), mem_upd buf 0 (grouplist_image gs), e) else Some (0, buf, ERANGE))"
proof -
  have n: "unat (of_nat (length gs) :: u32) = length gs" using assms by (simp add: unat_of_nat)
  have "mem_upd (mem_upd buf 0 (htonl (of_nat (length gs)))) 4 (gidlist_bytes gs) = mem_upd buf 0 (grouplist_image gs)"
    using mem_upd_append [of buf 0 "htonl (of_nat (length gs))" "gidlist_bytes gs"] by (simp add: grouplist_image_def)
  then show ?thesis
    by (simp add: nss_mcdb_acct_make_grouplist_datastr_def Let_def n grouplist_image_def buf_store_def
      gidlist_store_eq NSS_GL_HDRSZ_def mult.commute)
qed

subsection \<open>Decoding\<close>

text \<open>The ids at a position of the mapping.\<close>

definition gids_at :: "mcdb_mmap \<Rightarrow> u64 \<Rightarrow> u32 list \<Rightarrow> bool" where
  "gids_at mm dptr gs \<longleftrightarrow> map_load mm dptr (4 * length gs) = Some (gidlist_bytes gs) \<and> mm_size mm < 2 ^ 64"

lemma gids_at_Cons:
  assumes "gids_at mm dptr (g # gs)"
  shows "gid_at mm dptr = Some g" "gids_at mm (dptr + 4) gs"
proof -
  have l: "map_load mm dptr (4 * length (g # gs)) = Some (htonl g @ gidlist_bytes gs)" "mm_size mm < 2 ^ 64"
    using assms by (simp_all add: gids_at_def)
  have "map_load mm dptr 4 = Some (htonl g)"
    using map_load_part [OF l(1) _ l(2), of 0 4] by simp
  then show "gid_at mm dptr = Some g" by (simp add: gid_at_def be_val_htonl)
  have "map_load mm (dptr + of_nat 4) (4 * length gs) = Some (gidlist_bytes gs)"
    using map_load_part [OF l(1) _ l(2), of 4 "4 * length gs"] by simp
  then show "gids_at mm (dptr + 4) gs" using l(2) by (simp add: gids_at_def)
qed

text \<open>The user's own group is left out of the list.\<close>

definition others :: "u32 \<Rightarrow> u32 list \<Rightarrow> u32 list" where
  "others gid gs = filter (\<lambda>g. g \<noteq> gid) gs"

lemma gl_count_eq: "gids_at mm dptr gs \<Longrightarrow> gl_count mm gid (length gs) dptr x = Some (x + length (others gid gs))"
proof (induction gs arbitrary: dptr x)
  case Nil
  then show ?case by (simp add: others_def)
next
  case (Cons g gs)
  then show ?case using gids_at_Cons [OF Cons.prems] by (simp add: others_def)
qed

text \<open>The array from an index on.\<close>

definition gl_holds :: "(nat \<Rightarrow> u32) \<Rightarrow> nat \<Rightarrow> u32 list \<Rightarrow> bool" where
  "gl_holds f x gs \<longleftrightarrow> map f [x..<x + length gs] = gs"

lemma gl_holds_Cons: "gl_holds f x (g # gs) \<longleftrightarrow> f x = g \<and> gl_holds f (Suc x) gs"
  by (simp add: gl_holds_def upt_conv_Cons del: upt_Suc)

lemma gl_copy_eq:
  "gids_at mm dptr gs \<Longrightarrow> x + length gs \<le> gl_bufsz v \<Longrightarrow>
   \<exists>f. gl_copy mm gid (length gs) dptr x v = Some (x + length (others gid gs), v\<lparr>gl_buf := f\<rparr>) \<and>
       gl_holds f x (others gid gs) \<and> (\<forall>i < x. f i = gl_buf v i)"
proof (induction gs arbitrary: dptr x v)
  case Nil
  then show ?case by (intro exI [of _ "gl_buf v"]) (simp add: others_def gl_holds_def)
next
  case (Cons g gs)
  note g = gids_at_Cons [OF Cons.prems(1)]
  define v1 where "v1 = v\<lparr>gl_buf := (gl_buf v)(x := g)\<rparr>"
  define x1 where "x1 = (if g \<noteq> gid then x + 1 else x)"
  have "x1 + length gs \<le> gl_bufsz v1" using Cons.prems(2) by (simp add: x1_def v1_def)
  then obtain f where f: "gl_copy mm gid (length gs) (dptr + 4) x1 v1 = Some (x1 + length (others gid gs), v1\<lparr>gl_buf := f\<rparr>)"
      "gl_holds f x1 (others gid gs)" "\<forall>i < x1. f i = gl_buf v1 i"
    using Cons.IH [OF g(2)] by blast
  have run: "gl_copy mm gid (length (g # gs)) dptr x v = Some (x1 + length (others gid gs), v\<lparr>gl_buf := f\<rparr>)"
    using g(1) Cons.prems(2) f(1) by (simp add: x1_def v1_def)
  have "gl_holds f x (others gid (g # gs))"
    using f(2,3) by (auto simp: others_def x1_def v1_def gl_holds_Cons)
  moreover have "\<forall>i < x. f i = gl_buf v i" using f(3) by (auto simp: x1_def v1_def)
  moreover have "x1 + length (others gid gs) = x + length (others gid (g # gs))"
    by (simp add: x1_def others_def)
  ultimately show ?case using run by metis
qed

lemma grouplist_found:
  assumes "found_data m w (grouplist_image gs)"
  obtains mm where "get_map (m_map m) w = Some mm" "map_load mm (m_dpos m) NSS_GL_HDRSZ = Some (htonl (of_nat (length gs)))"
    "gids_at mm (m_dpos m + of_nat NSS_GL_HDRSZ) gs"
proof -
  obtain mm where mm: "get_map (m_map m) w = Some mm" "mm_size mm < 2 ^ 64"
      "map_load mm (m_dpos m) (unat (m_dlen m)) = Some (grouplist_image gs)"
      "length (grouplist_image gs) = unat (m_dlen m)"
    using assms by (rule found_dataE)
  have l: "unat (m_dlen m) = NSS_GL_HDRSZ + 4 * length gs"
    using mm(4) by (simp add: grouplist_image_def NSS_GL_HDRSZ_def)
  show thesis
  proof (rule that [OF mm(1)])
    show "map_load mm (m_dpos m) NSS_GL_HDRSZ = Some (htonl (of_nat (length gs)))"
      using found_head [OF mm(3,2), of NSS_GL_HDRSZ] l by (simp add: grouplist_image_def NSS_GL_HDRSZ_def)
    show "gids_at mm (m_dpos m + of_nat NSS_GL_HDRSZ) gs"
      using found_part [OF mm(3,2), of NSS_GL_HDRSZ "4 * length gs"] l mm(2)
      by (simp add: grouplist_image_def NSS_GL_HDRSZ_def gids_at_def)
  qed
qed

text \<open>Enough room for the list and the user's own group: that group first, then the others.\<close>

lemma grouplist_decode_fits:
  assumes "found_data m w (grouplist_image gs)" "length gs < INT_MAX" "1 + length gs \<le> gl_bufsz v"
  shows "\<exists>v'. nss_mcdb_acct_grouplist_decode m v w = Some (NSS_STATUS_SUCCESS, v', w) \<and>
    gl_holds (gl_buf v') 0 (gl_struct v # others (gl_struct v) gs) \<and>
    gl_struct v' = of_nat (1 + length (others (gl_struct v) gs)) \<and> gl_bufsz v' = gl_bufsz v"
proof -
  obtain mm where mm: "get_map (m_map m) w = Some mm" "map_load mm (m_dpos m) NSS_GL_HDRSZ = Some (htonl (of_nat (length gs)))"
    "gids_at mm (m_dpos m + of_nat NSS_GL_HDRSZ) gs"
    using assms(1) by (rule grouplist_found)
  have n: "unat (ntohl (htonl (of_nat (length gs))) NSS_GL_NGROUPS) = length gs"
    using assms(2) by (simp add: ntohl_htonl NSS_GL_NGROUPS_def unat_of_nat INT_MAX_def)
  define v1 where "v1 = v\<lparr>gl_buf := (gl_buf v)(0 := gl_struct v)\<rparr>"
  have "1 + length gs \<le> gl_bufsz v1" using assms(3) by (simp add: v1_def)
  then obtain f where f: "gl_copy mm (gl_struct v) (length gs) (m_dpos m + of_nat NSS_GL_HDRSZ) 1 v1 =
        Some (1 + length (others (gl_struct v) gs), v1\<lparr>gl_buf := f\<rparr>)"
      "gl_holds f 1 (others (gl_struct v) gs)" "\<forall>i < 1. f i = gl_buf v1 i"
    using gl_copy_eq [OF mm(3), of 1 v1 "gl_struct v"] by blast
  have "gl_holds f 0 (gl_struct v # others (gl_struct v) gs)"
    using f(2,3) by (simp add: gl_holds_Cons v1_def)
  moreover have "nss_mcdb_acct_grouplist_decode m v w =
      Some (NSS_STATUS_SUCCESS, (v1\<lparr>gl_buf := f\<rparr>)\<lparr>gl_struct := of_nat (1 + length (others (gl_struct v) gs))\<rparr>, w)"
    using assms(2,3) f(1) by (simp add: nss_mcdb_acct_grouplist_decode_def mm(1,2) n gl_fill_def v1_def Let_def)
  ultimately show ?thesis by (auto simp: v1_def)
qed

text \<open>Too little room: the array is untouched and the size that is needed is returned.\<close>

lemma grouplist_decode_short:
  assumes "found_data m w (grouplist_image gs)" "length gs < INT_MAX"
    "gl_bufsz v < 1 + length (others (gl_struct v) gs)"
  shows "nss_mcdb_acct_grouplist_decode m v w =
    Some (NSS_STATUS_TRYAGAIN, v\<lparr>gl_struct := of_nat (1 + length (others (gl_struct v) gs))\<rparr>, w\<lparr>r_errno := ERANGE\<rparr>)"
proof -
  obtain mm where mm: "get_map (m_map m) w = Some mm" "map_load mm (m_dpos m) NSS_GL_HDRSZ = Some (htonl (of_nat (length gs)))"
    "gids_at mm (m_dpos m + of_nat NSS_GL_HDRSZ) gs"
    using assms(1) by (rule grouplist_found)
  have n: "unat (ntohl (htonl (of_nat (length gs))) NSS_GL_NGROUPS) = length gs"
    using assms(2) by (simp add: ntohl_htonl NSS_GL_NGROUPS_def unat_of_nat INT_MAX_def)
  have "length (others (gl_struct v) gs) \<le> length gs" by (simp add: others_def)
  then have "gl_bufsz v < 1 + length gs" using assms(3) by linarith
  then show ?thesis using assms(2,3) gl_count_eq [OF mm(3), of "gl_struct v" 1]
    by (simp add: nss_mcdb_acct_grouplist_decode_def mm(1,2) n Let_def)
qed

end
