(* ===== verification/Nss_Codec_Props.thy ===== *)
theory Nss_Codec_Props
  imports Nss_Grouplist_Proofs Reader_Props
begin

text \<open>
  What storing and reading back passwd, group and grouplist entries guarantees, from the
  encoder's buffer to the caller's struct.
\<close>

subsection \<open>A query that has found some data\<close>

definition data_rd :: "bytes \<Rightarrow> rd" where
  "data_rd data = ex_rd (ex_map \<lparr>f_bytes = mem_upd (\<lambda>_. 0) 0 data, f_size = length data, f_mtime = 0\<rparr>)"

definition data_query :: "bytes \<Rightarrow> mcdb" where
  "data_query data = (ex_query 0)\<lparr>m_dpos := 0, m_dlen := of_nat (length data)\<rparr>"

lemma found_data_ex: "length data < 2 ^ 32 \<Longrightarrow> found_data (data_query data) (data_rd data) data"
  by (simp add: found_data_def mcdb_data_def data_query_def data_rd_def ex_query_def ex_rd_def ex_map_def
    get_map_def map_load_def unat_of_nat)

lemma stored_prefix: "k \<le> length bs \<Longrightarrow> mem_slice (mem_upd f 0 bs) 0 k = take k bs"
  using take_mem_slice [of k "length bs" "mem_upd f 0 bs" 0] by simp

subsection \<open>passwd\<close>

text \<open>C27: a passwd entry that the encoder accepts for a data buffer of some size is rebuilt by
  the decoder, string by string, in every caller's buffer that is at least as large as that
  buffer without its header.\<close>

theorem passwd_roundtrip:
  assumes "nss_mcdb_acct_make_passwd_datastr bufsz buf pw e = Some (dlen, buf', e')" "dlen \<noteq> 0" "passwd_ok pw"
    and "found_data m w (mem_slice buf' 0 dlen)" "bufsz \<le> v_bufsz v + NSS_PW_HDRSZ"
  shows "\<exists>v'. nss_mcdb_acct_passwd_decode m v w = Some (NSS_STATUS_SUCCESS, v', w) \<and> passwd_view v' = Some pw"
proof -
  have fits: "passwd_fits bufsz pw" and r: "dlen = length (passwd_image pw) - 1" "buf' = mem_upd buf 0 (passwd_image pw)"
    using assms(1,2) by (auto simp: passwd_datastr_eq split: if_splits)
  have "mem_slice buf' 0 dlen = butlast (passwd_image pw)"
    unfolding r by (simp add: stored_prefix butlast_conv_take)
  moreover have "length (passwd_image pw) - NSS_PW_HDRSZ \<le> v_bufsz v"
    using fits assms(5) unfolding passwd_fits_def by linarith
  ultimately show ?thesis using passwd_decode_view [OF _ fits assms(3)] assms(4) by simp
qed

definition ex_pw :: "bytes passwd" where
  "ex_pw = \<lparr>pw_name = [114], pw_passwd = [120], pw_uid = 5, pw_gid = 0, pw_gecos = [], pw_dir = [47], pw_shell = []\<rparr>"

definition ex_vinfo :: "u64 \<Rightarrow> nat \<Rightarrow> 'e \<Rightarrow> 'e vinfo" where
  "ex_vinfo a n s = \<lparr>v_addr = a, v_bufsz = n, v_mem = (\<lambda>_. 7), v_struct = s\<rparr>"

lemma ex_vinfo_sel [simp]: "v_addr (ex_vinfo a n s) = a" "v_bufsz (ex_vinfo a n s) = n" "v_mem (ex_vinfo a n s) = (\<lambda>_. 7)"
  by (simp_all add: ex_vinfo_def)

definition ex_pw_vinfo :: "u64 passwd vinfo" where
  "ex_pw_vinfo = ex_vinfo 4096 9 \<lparr>pw_name = 0, pw_passwd = 0, pw_uid = 0, pw_gid = 0, pw_gecos = 0, pw_dir = 0, pw_shell = 0\<rparr>"

theorem passwd_roundtrip_witness:
  "\<exists>data v'. nss_mcdb_acct_passwd_decode (data_query data) ex_pw_vinfo (data_rd data) =
     Some (NSS_STATUS_SUCCESS, v', data_rd data) \<and> passwd_view v' = Some ex_pw"
proof -
  have len: "length (passwd_image ex_pw) = 24"
    unfolding length_passwd_image str_offs by (simp add: ex_pw_def NSS_PW_HDRSZ_def)
  have fits: "passwd_fits 25 ex_pw"
    unfolding passwd_fits_def len str_offs by (simp add: ex_pw_def USHRT_MAX_def)
  have enc: "nss_mcdb_acct_make_passwd_datastr 25 (\<lambda>_. 0) ex_pw 0 = Some (23, mem_upd (\<lambda>_. 0) 0 (passwd_image ex_pw), 0)"
    by (simp add: passwd_datastr_eq fits len)
  have ok: "passwd_ok ex_pw" by (simp add: passwd_ok_def passwd_strs_def ex_pw_def cstr_ok_def)
  have "25 \<le> v_bufsz ex_pw_vinfo + NSS_PW_HDRSZ" by (simp add: ex_pw_vinfo_def NSS_PW_HDRSZ_def)
  from passwd_roundtrip [OF enc _ ok found_data_ex this] show ?thesis by auto
qed

subsection \<open>group\<close>

lemma group_stored:
  assumes "nss_mcdb_acct_make_group_datastr bufsz buf gr e = Some (dlen, buf', e')" "dlen \<noteq> 0"
  shows "group_fits bufsz gr" "mem_slice buf' 0 dlen = group_image gr" "dlen = length (group_image gr)"
proof -
  show fits: "group_fits bufsz gr"
  proof (rule ccontr)
    assume "\<not> group_fits bufsz gr"
    from group_datastr_refuses [OF this, of buf e] assms show False by auto
  qed
  show "mem_slice buf' 0 dlen = group_image gr" "dlen = length (group_image gr)"
    using assms(1) group_datastr_fits [OF fits, of buf e] by auto
qed

text \<open>C28: a group entry without empty member names that the encoder accepts, and whose strings with their
  NULs have at most 65535 bytes, is rebuilt by the decoder, members and their order included, in every caller's buffer below
  4 GiB that is at least as large as the encoder's buffer without the header, whatever its alignment.  The encoder checks
  that its buffer is large enough, but not that the offset of the pointer array, which is the length of the
  strings, fits in the 16 bits in which it is stored.\<close>

theorem group_roundtrip:
  assumes "nss_mcdb_acct_make_group_datastr bufsz buf gr e = Some (dlen, buf', e')" "dlen \<noteq> 0" "group_ok gr"
    and "found_data m w (mem_slice buf' 0 dlen)" "dlen \<le> NSS_GR_HDRSZ + USHRT_MAX"
    and "bufsz \<le> v_bufsz v + NSS_GR_HDRSZ" "unat (v_addr v) + v_bufsz v \<le> 2 ^ 32"
  shows "\<exists>v'. nss_mcdb_acct_group_decode m v w = Some (NSS_STATUS_SUCCESS, v', w) \<and> group_view v' = Some gr"
proof -
  note S = group_stored [OF assms(1,2)]
  have "group_room v gr"
    using S(1) assms(6,7) unfolding group_room_def group_fits_def group_image_len by linarith
  then show ?thesis using group_decode_view [OF _ S(1) _ assms(3)] S(2,3) assms(4,5) by (simp add: group_image_len)
qed

definition ex_gr :: "(bytes, bytes list) group_ent" where
  "ex_gr = \<lparr>gr_name = [103], gr_passwd = [120], gr_gid = 5, gr_mem = [[97], [98, 99]]\<rparr>"

definition ex_gr_vinfo :: "u64 \<Rightarrow> (u64, u64) group_ent vinfo" where
  "ex_gr_vinfo a = ex_vinfo a 40 \<lparr>gr_name = 0, gr_passwd = 0, gr_gid = 0, gr_mem = 0\<rparr>"

lemma ex_gr_facts: "group_ok ex_gr" "length (group_image ex_gr) = 21" "group_fits 52 ex_gr"
proof -
  show "group_ok ex_gr" by (simp add: group_ok_def group_strs_def ex_gr_def cstr_ok_def)
  show l: "length (group_image ex_gr) = 21"
    by (simp add: group_image_len group_strs_def ex_gr_def NSS_GR_HDRSZ_def)
  show "group_fits 52 ex_gr"
    unfolding group_fits_def l by (simp add: ex_gr_def USHRT_MAX_def)
qed

theorem group_roundtrip_witness:
  "\<exists>data v'. nss_mcdb_acct_group_decode (data_query data) (ex_gr_vinfo 4099) (data_rd data) =
     Some (NSS_STATUS_SUCCESS, v', data_rd data) \<and> group_view v' = Some ex_gr"
proof -
  note enc = group_datastr_fits [OF ex_gr_facts(3), of "\<lambda>_. 0" 0, unfolded ex_gr_facts(2)]
  have b: "21 \<le> NSS_GR_HDRSZ + USHRT_MAX" "52 \<le> v_bufsz (ex_gr_vinfo 4099) + NSS_GR_HDRSZ"
    "unat (v_addr (ex_gr_vinfo 4099)) + v_bufsz (ex_gr_vinfo 4099) \<le> 2 ^ 32"
    by (simp_all add: ex_gr_vinfo_def USHRT_MAX_def NSS_GR_HDRSZ_def)
  from group_roundtrip [OF enc _ ex_gr_facts(1) found_data_ex b] show ?thesis by auto
qed

text \<open>C33: in a caller's buffer at or above 8 GiB every group entry is refused with TRYAGAIN and
  ERANGE, however large the buffer is: the alignment mask of the pointer array is a 32-bit one.\<close>

theorem group_decode_high_refused:
  assumes "found_data m w data" "NSS_GR_HDRSZ \<le> length data"
    and "2 ^ 33 \<le> unat (v_addr v)" "unat (v_addr v) < 2 ^ 63" "v_bufsz v < 2 ^ 63"
  shows "\<exists>v'. nss_mcdb_acct_group_decode m v w = Some (NSS_STATUS_TRYAGAIN, v', w\<lparr>r_errno := ERANGE\<rparr>)"
proof -
  obtain mm where mm: "get_map (m_map m) w = Some mm" "mm_size mm < 2 ^ 64"
      "map_load mm (m_dpos m) (unat (m_dlen m)) = Some data" "length data = unat (m_dlen m)"
    using assms(1) by (rule found_dataE)
  have "map_load mm (m_dpos m) NSS_GR_HDRSZ = Some (take NSS_GR_HDRSZ data)"
    using found_head [OF mm(3,2)] assms(2) mm(4) by simp
  from group_decode_high [OF mm(1) this assms(3-5)] show ?thesis by blast
qed

theorem group_decode_high_refused_witness:
  "\<exists>v'. nss_mcdb_acct_group_decode (data_query (group_image ex_gr)) (ex_gr_vinfo (2 ^ 40)) (data_rd (group_image ex_gr)) =
     Some (NSS_STATUS_TRYAGAIN, v', data_rd (group_image ex_gr)\<lparr>r_errno := ERANGE\<rparr>)"
  by (rule group_decode_high_refused [OF found_data_ex])
    (simp_all add: ex_gr_facts(2) ex_gr_vinfo_def NSS_GR_HDRSZ_def)


subsection \<open>grouplist\<close>



definition ex_gl :: "nat \<Rightarrow> gl_vinfo" where
  "ex_gl n = \<lparr>gl_buf = (\<lambda>_. 0), gl_bufsz = n, gl_struct = 5\<rparr>"



lemma gl_copy_full:
  "gids_at mm dptr (gs @ [g]) \<Longrightarrow> gid \<notin> set gs \<Longrightarrow> x + length gs = gl_bufsz v \<Longrightarrow>
   gl_copy mm gid (Suc (length gs)) dptr x v = None"
proof (induction gs arbitrary: dptr x v)
  case Nil
  then show ?case using gids_at_Cons(1) by simp
next
  case (Cons h gs)
  have g: "gid_at mm dptr = Some h" "gids_at mm (dptr + 4) (gs @ [g])"
    using gids_at_Cons [of mm dptr h "gs @ [g]"] Cons.prems(1) by simp_all
  have ih: "gl_copy mm gid (Suc (length gs)) (dptr + 4) (x + 1) (v\<lparr>gl_buf := (gl_buf v)(x := h)\<rparr>) = None"
    by (rule Cons.IH [OF g(2)]) (use Cons.prems(2,3) in simp_all)
  have hx: "h \<noteq> gid" "x < gl_bufsz v" using Cons.prems(2,3) by auto
  then show ?case unfolding list.size
    by (simp only: gl_copy.simps(2) [of mm gid "Suc (length gs)"] g(1) hx ih add_0_right add_Suc_right
      bind.bind_lunit guard_simps simp_thms if_True)
qed

text \<open>C32: if the user's own group is stored once, as the last of the list, then an array of exactly
  the size that the call with a smaller array asks for is overrun by one id.\<close>

theorem grouplist_exact_size_overrun:
  assumes "found_data m w (grouplist_image (gs @ [gl_struct v]))" "gl_struct v \<notin> set gs" "Suc (length gs) < INT_MAX"
    and "gl_bufsz v < Suc (length gs)"
  shows "\<exists>n. nss_mcdb_acct_grouplist_decode m v w =
      Some (NSS_STATUS_TRYAGAIN, v\<lparr>gl_struct := of_nat n\<rparr>, w\<lparr>r_errno := ERANGE\<rparr>) \<and>
    nss_mcdb_acct_grouplist_decode m (v\<lparr>gl_bufsz := n\<rparr>) w = None"
proof -
  let ?gs = "gs @ [gl_struct v]"
  let ?n = "Suc (length gs)"
  have o: "others (gl_struct v) ?gs = gs" using assms(2) by (auto simp: others_def filter_id_conv)
  have "nss_mcdb_acct_grouplist_decode m v w = Some (NSS_STATUS_TRYAGAIN, v\<lparr>gl_struct := of_nat ?n\<rparr>, w\<lparr>r_errno := ERANGE\<rparr>)"
    using grouplist_decode_short [OF assms(1), of v] assms(3,4) o by simp
  moreover have "nss_mcdb_acct_grouplist_decode m (v\<lparr>gl_bufsz := ?n\<rparr>) w = None"
  proof -
    obtain mm where mm: "get_map (m_map m) w = Some mm" "map_load mm (m_dpos m) NSS_GL_HDRSZ = Some (htonl (of_nat (length ?gs)))"
      "gids_at mm (m_dpos m + of_nat NSS_GL_HDRSZ) ?gs"
      using assms(1) by (rule grouplist_found)
    define hdr where "hdr = htonl (of_nat (length ?gs))"
    have n: "unat (ntohl hdr NSS_GL_NGROUPS) = ?n"
      using assms(3) by (simp add: hdr_def ntohl_htonl NSS_GL_NGROUPS_def unat_of_nat INT_MAX_def del: of_nat_Suc)
    have c: "gl_count mm (gl_struct v) ?n (m_dpos m + of_nat NSS_GL_HDRSZ) 1 = Some ?n"
      using gl_count_eq [OF mm(3), of "gl_struct v" 1] o by simp
    have "gl_copy mm (gl_struct v) ?n (m_dpos m + of_nat NSS_GL_HDRSZ) 1 (v\<lparr>gl_bufsz := ?n, gl_buf := (gl_buf v)(0 := gl_struct v)\<rparr>) = None"
      by (rule gl_copy_full [OF mm(3) assms(2)]) simp
    then have "gl_fill mm (Suc ?n) (m_dpos m + of_nat NSS_GL_HDRSZ) (v\<lparr>gl_bufsz := ?n\<rparr>) w = None"
      by (simp add: gl_fill_def del: gl_copy.simps)
    then show ?thesis
      using assms(3) c by (simp add: nss_mcdb_acct_grouplist_decode_def mm(1) mm(2) [folded hdr_def] n Let_def del: gl_count.simps)
  qed
  ultimately show ?thesis by blast
qed

theorem grouplist_exact_size_overrun_witness:
  "\<exists>n. nss_mcdb_acct_grouplist_decode (data_query (grouplist_image [7, 5])) (ex_gl 0 \<lparr>gl_bufsz := n\<rparr>) (data_rd (grouplist_image [7, 5])) = None"
proof -
  have "\<exists>n. nss_mcdb_acct_grouplist_decode (data_query (grouplist_image ([7] @ [gl_struct (ex_gl 0)]))) (ex_gl 0)
       (data_rd (grouplist_image ([7] @ [gl_struct (ex_gl 0)]))) = Some (NSS_STATUS_TRYAGAIN, ex_gl 0\<lparr>gl_struct := of_nat n\<rparr>,
         data_rd (grouplist_image ([7] @ [gl_struct (ex_gl 0)]))\<lparr>r_errno := ERANGE\<rparr>) \<and>
     nss_mcdb_acct_grouplist_decode (data_query (grouplist_image ([7] @ [gl_struct (ex_gl 0)]))) (ex_gl 0\<lparr>gl_bufsz := n\<rparr>)
       (data_rd (grouplist_image ([7] @ [gl_struct (ex_gl 0)]))) = None"
    by (rule grouplist_exact_size_overrun [OF found_data_ex]) (simp_all add: ex_gl_def grouplist_image_def INT_MAX_def)
  then show ?thesis by (auto simp: ex_gl_def)
qed


subsection \<open>Empty member names\<close>

definition ex_gr_empty :: "(bytes, bytes list) group_ent" where
  "ex_gr_empty = \<lparr>gr_name = [103], gr_passwd = [120], gr_gid = 5, gr_mem = [[97], [], [98]]\<rparr>"

definition ex_empty_vinfo :: "(u64, u64) group_ent vinfo" where
  "ex_empty_vinfo = ex_vinfo 4096 48 \<lparr>gr_name = 0, gr_passwd = 0, gr_gid = 0, gr_mem = 0\<rparr>"

text \<open>The caller's buffer after the decoding.\<close>

definition ex_empty_mem :: mem where
  "ex_empty_mem = mem_upd (mem_upd (\<lambda>_. 7) 0 [103, 0, 120, 0, 97, 0, 0, 98, 0]) 16
     [4, 16, 0, 0, 0, 0, 0, 0, 6, 16, 0, 0, 0, 0, 0, 0, 9, 16, 0, 0, 0, 0, 0, 0, 0, 0, 0, 0, 0, 0, 0, 0]"

lemma ex_empty_ptrs:
  "ptr_bytes 4100 = [4, 16, 0, 0, 0, 0, 0, 0]" "ptr_bytes 4102 = [6, 16, 0, 0, 0, 0, 0, 0]"
  "ptr_bytes 4105 = [9, 16, 0, 0, 0, 0, 0, 0]" "ptr_bytes 0 = [0, 0, 0, 0, 0, 0, 0, 0]"
  by code_simp+

lemma ex_empty_image: "group_image ex_gr_empty = [0, 2, 0, 4, 0, 9, 0, 3, 0, 0, 0, 5, 103, 0, 120, 0, 97, 0, 0, 98, 0]"
  by code_simp

lemma ex_empty_decode:
  "nss_mcdb_acct_group_decode (data_query (group_image ex_gr_empty)) ex_empty_vinfo (data_rd (group_image ex_gr_empty)) =
     Some (NSS_STATUS_SUCCESS, ex_empty_vinfo\<lparr>v_mem := ex_empty_mem,
       v_struct := \<lparr>gr_name = 4096, gr_passwd = 4098, gr_gid = 5, gr_mem = 4112\<rparr>\<rparr>, data_rd (group_image ex_gr_empty))"
proof -
  let ?m = "data_query (group_image ex_gr_empty)" and ?w = "data_rd (group_image ex_gr_empty)"
  let ?hdr = "[0, 2, 0, 4, 0, 9, 0, 3, 0, 0, 0, 5] :: bytes"
  let ?str = "[103, 0, 120, 0, 97, 0, 0, 98, 0] :: bytes"
  have "found_data ?m ?w (group_image ex_gr_empty)"
    by (rule found_data_ex) (simp add: ex_empty_image)
  then obtain mm where mm: "get_map (m_map ?m) ?w = Some mm" "mm_size mm < 2 ^ 64"
      "map_load mm (m_dpos ?m) (unat (m_dlen ?m)) = Some (group_image ex_gr_empty)"
      "length (group_image ex_gr_empty) = unat (m_dlen ?m)"
    by (rule found_dataE)
  have dl: "unat (m_dlen ?m) = 21" using mm(4) by (simp add: ex_empty_image)
  have hdr: "map_load mm (m_dpos ?m) NSS_GR_HDRSZ = Some ?hdr"
    using found_head [OF mm(3,2), of NSS_GR_HDRSZ] dl by (simp add: ex_empty_image NSS_GR_HDRSZ_def)
  have sd: "size_diff (unat (m_dlen ?m)) NSS_GR_HDRSZ = 9"
    using dl by (simp add: size_diff_le NSS_GR_HDRSZ_def)
  have dat: "map_load mm (m_dpos ?m + of_nat NSS_GR_HDRSZ) 9 = Some ?str"
    using found_part [OF mm(3,2), of NSS_GR_HDRSZ 9] dl by (simp add: ex_empty_image NSS_GR_HDRSZ_def)
  have f: "ntohs ?hdr NSS_GR_PASSWD = 2" "ntohs ?hdr NSS_GR_MEM_STR = 4" "ntohs ?hdr NSS_GR_MEM = 9"
      "ntohs ?hdr NSS_GR_MEM_NUM = 3" "ntohl ?hdr NSS_GR_GID = 5"
    by code_simp+
  have al: "(4096 + of_nat 9 + 7 :: u64) AND align_mask = 4112" by code_simp
  let ?v1 = "ex_empty_vinfo\<lparr>v_struct := \<lparr>gr_name = 4096, gr_passwd = 4098, gr_gid = 5, gr_mem = 4112\<rparr>, v_mem := mem_upd (\<lambda>_. 7) 0 ?str\<rparr>"
  let ?v2 = "?v1\<lparr>v_mem := mem_upd (mem_upd (\<lambda>_. 7) 0 ?str) 16 [4, 16, 0, 0, 0, 0, 0, 0]\<rparr>"
  let ?v3 = "?v1\<lparr>v_mem := mem_upd (mem_upd (\<lambda>_. 7) 0 ?str) 16 [4, 16, 0, 0, 0, 0, 0, 0, 6, 16, 0, 0, 0, 0, 0, 0]\<rparr>"
  let ?v4 = "?v1\<lparr>v_mem := mem_upd (mem_upd (\<lambda>_. 7) 0 ?str) 16
     [4, 16, 0, 0, 0, 0, 0, 0, 6, 16, 0, 0, 0, 0, 0, 0, 9, 16, 0, 0, 0, 0, 0, 0]\<rparr>"
  have app: "mem_upd (mem_upd g 16 xs) k ys = mem_upd g 16 (xs @ ys)" if "k = 16 + length xs" for g k xs and ys :: bytes
    using mem_upd_append [of g 16 xs ys] that by simp
  have s2: "vbuf_store 16 (ptr_bytes 4100) ?v1 = Some ?v2"
    by (simp add: vbuf_store_def buf_store_def ex_empty_ptrs ex_empty_vinfo_def)
  have n2: "scan_nul ?v2 4 = Some 5"
    by (simp add: scan_nul.simps [of _ 4] ex_empty_vinfo_def mem_upd_def)
  have s3: "vbuf_store 24 (ptr_bytes 4102) ?v2 = Some ?v3"
    by (simp add: vbuf_store_def buf_store_def ex_empty_ptrs ex_empty_vinfo_def app)
  have n3: "scan_nul ?v3 6 = Some 8"
    by (simp add: scan_nul.simps [of _ 6] scan_nul.simps [of _ 7] ex_empty_vinfo_def mem_upd_def)
  have s4: "vbuf_store 32 (ptr_bytes 4105) ?v3 = Some ?v4"
    by (simp add: vbuf_store_def buf_store_def ex_empty_ptrs ex_empty_vinfo_def app)
  have s5: "vbuf_store 40 (ptr_bytes 0) ?v4 = Some (?v1\<lparr>v_mem := ex_empty_mem\<rparr>)"
    by (simp add: vbuf_store_def buf_store_def ex_empty_ptrs ex_empty_vinfo_def app ex_empty_mem_def)
  have a: "v_addr ?v1 = 4096" "v_addr ?v2 = 4096" "v_addr ?v3 = 4096" by (simp_all add: ex_empty_vinfo_def)
  have g: "group_ptrs 2 1 16 4 ?v2 = Some ?v4"
    using s3 s4 n2 n3 a by (simp add: numeral_2_eq_2)
  have s1: "vbuf_store 0 ?str (ex_empty_vinfo\<lparr>v_struct := \<lparr>gr_name = 4096, gr_passwd = 4098, gr_gid = 5, gr_mem = 4112\<rparr>\<rparr>) = Some ?v1"
    by (simp add: vbuf_store_def buf_store_def ex_empty_vinfo_def)
  have a0: "v_addr ex_empty_vinfo = 4096" "v_bufsz ex_empty_vinfo = 48"
    "v_addr (ex_empty_vinfo\<lparr>v_struct := x\<rparr>) = 4096" "v_bufsz (ex_empty_vinfo\<lparr>v_struct := x\<rparr>) = 48" for x
    by (simp_all add: ex_empty_vinfo_def)
  show ?thesis
    unfolding nss_mcdb_acct_group_decode_def mm(1) hdr sd dat Let_def bind.bind_lunit f a0 al
    using s1 s2 g s5 by simp
qed

text \<open>C34: when the first empty member name of a stored entry is not the last member, the decoder's scan runs past its
  NUL: if the decoder returns (the scan may also run on behind the strings and out of the caller's buffer), it reports
  success, and the pointers up to the one of the empty name are right, but the next one is not the address of the next
  member: that member is left out, and the pointer is the address behind it.\<close>

theorem group_empty_member_misread:
  assumes "nss_mcdb_acct_make_group_datastr bufsz buf gr e = Some (dlen, buf', e')" "dlen \<noteq> 0" "\<forall>s \<in> set (group_strs gr). cstr_ok s"
    and "found_data m w (mem_slice buf' 0 dlen)" "dlen \<le> NSS_GR_HDRSZ + USHRT_MAX"
    and "bufsz \<le> v_bufsz v + NSS_GR_HDRSZ" "unat (v_addr v) + v_bufsz v \<le> 2 ^ 32"
    and "Suc i < length (gr_mem gr)" "gr_mem gr ! i = []" "\<forall>j < i. gr_mem gr ! j \<noteq> []"
    and "nss_mcdb_acct_group_decode m v w = Some (st, v', w')"
  shows "st = NSS_STATUS_SUCCESS \<and>
    (let arr = unat (gr_mem (v_struct v') - v_addr v); member = (\<lambda>j. v_addr v + of_nat (str_off (group_strs gr) (j + 2)))
     in (\<forall>j \<le> i. read_ptr v' (arr + 8 * j) = member j) \<and> read_ptr v' (arr + 8 * (i + 1)) = member (i + 2) \<and> member (i + 2) \<noteq> member (i + 1))"
proof -
  note S = group_stored [OF assms(1,2)]
  let ?ss = "group_strs gr"
  have L: "length (concat (map cz ?ss)) \<le> USHRT_MAX" using S(3) assms(5) by (simp add: group_image_len)
  have room: "group_room v gr"
    using S(1) assms(6,7) unfolding group_room_def group_fits_def group_image_len by linarith
  note E = group_decode_empty [OF assms(4) [unfolded S(2)] S(1) L room assms(3,8-11)]
  have k: "i + 3 < length ?ss" using assms(8) by (simp add: length_group_strs)
  have o: "str_off ?ss (i + 4) = str_off ?ss (i + 3) + Suc (length (?ss ! (i + 3)))" "str_off ?ss (i + 4) \<le> USHRT_MAX"
    using str_off_Suc [OF k] str_off_end [OF k] L by (simp_all add: numeral_eq_Suc cz_def)
  have "unat (of_nat x :: u64) = x" if "x \<le> USHRT_MAX" for x using that by (simp add: unat_of_nat USHRT_MAX_def)
  from this [OF o(2)] this [of "str_off ?ss (i + 3)"] o
  have "unat (of_nat (str_off ?ss (i + 4)) :: u64) \<noteq> unat (of_nat (str_off ?ss (i + 3)) :: u64)" by linarith
  then have "(of_nat (str_off ?ss (i + 4)) :: u64) \<noteq> of_nat (str_off ?ss (i + 3))" by metis
  moreover have "(i + 2) + 2 = i + 4" "(i + 1) + 2 = i + 3" by simp_all
  ultimately show ?thesis using E(1,3,6) E(5) unfolding nth_ptr_def Let_def by (simp only: Suc_eq_plus1) auto
qed

theorem group_empty_member_misread_witness:
  "\<exists>data v'. nss_mcdb_acct_group_decode (data_query data) ex_empty_vinfo (data_rd data) = Some (NSS_STATUS_SUCCESS, v', data_rd data) \<and>
     read_ptr v' 16 = 4100 \<and> read_ptr v' 24 = 4102 \<and> read_ptr v' 32 = 4105 \<and>
     group_view v' = Some (ex_gr_empty\<lparr>gr_mem := [[97], [], [7, 7, 7, 7, 7, 7, 7, 4, 16]]\<rparr>)"
proof -
  have l: "length (group_image ex_gr_empty) = 21" by (simp add: ex_empty_image)
  have fit: "group_fits 60 ex_gr_empty"
    unfolding group_fits_def l by (simp add: ex_gr_empty_def USHRT_MAX_def)
  note enc = group_datastr_fits [OF fit, of "\<lambda>_. 0" 0, unfolded l]
  have nz: "21 \<noteq> (0 :: nat)" by simp
  have b: "21 \<le> NSS_GR_HDRSZ + USHRT_MAX" "60 \<le> v_bufsz ex_empty_vinfo + NSS_GR_HDRSZ"
    "unat (v_addr ex_empty_vinfo) + v_bufsz ex_empty_vinfo \<le> 2 ^ 32"
    by (simp_all add: ex_empty_vinfo_def USHRT_MAX_def NSS_GR_HDRSZ_def)
  have g: "\<forall>s \<in> set (group_strs ex_gr_empty). cstr_ok s" "Suc 1 < length (gr_mem ex_gr_empty)" "gr_mem ex_gr_empty ! 1 = []"
    "\<forall>j < 1. gr_mem ex_gr_empty ! j \<noteq> []"
    by (simp_all add: group_strs_def ex_gr_empty_def cstr_ok_def)
  have img: "mem_slice (mem_upd (\<lambda>_. 0) 0 (group_image ex_gr_empty)) 0 21 = group_image ex_gr_empty" by (simp add: l)
  have fd: "found_data (data_query (group_image ex_gr_empty)) (data_rd (group_image ex_gr_empty))
      (mem_slice (mem_upd (\<lambda>_. 0) 0 (group_image ex_gr_empty)) 0 21)"
    unfolding img by (rule found_data_ex) (simp add: ex_empty_image)
  let ?v = "ex_empty_vinfo\<lparr>v_mem := ex_empty_mem, v_struct := \<lparr>gr_name = 4096, gr_passwd = 4098, gr_gid = 5, gr_mem = 4112\<rparr>\<rparr>"
  have a: "v_addr ?v = 4096" "v_addr ex_empty_vinfo = 4096" "gr_mem (v_struct ?v) - 4096 = (16 :: u64)" "unat (16 :: u64) = 16"
    by (simp_all add: ex_empty_vinfo_def)
  have offs: "str_off (group_strs ex_gr_empty) 2 = 4" "str_off (group_strs ex_gr_empty) 3 = 6" "str_off (group_strs ex_gr_empty) 5 = 9"
    by (simp_all add: str_off_def group_strs_def ex_gr_empty_def numeral_eq_Suc)
  have n: "0 \<le> (1 :: nat)" "0 + 2 = (2 :: nat)" "1 + 2 = (3 :: nat)" "(1 + 2) + 2 = (5 :: nat)" "16 + 8 * 0 = (16 :: nat)" "16 + 8 * 1 = (24 :: nat)"
    "16 + 8 * (1 + 1) = (32 :: nat)" by simp_all
  have "(\<forall>j \<le> 1. read_ptr ?v (16 + 8 * j) = 4096 + of_nat (str_off (group_strs ex_gr_empty) (j + 2))) \<and>
      read_ptr ?v (16 + 8 * (1 + 1)) = 4096 + of_nat (str_off (group_strs ex_gr_empty) ((1 + 2) + 2))"
    using group_empty_member_misread [OF enc nz g(1) fd b g(2-4) ex_empty_decode] unfolding Let_def a by blast
  then have "read_ptr ?v 16 = 4096 + of_nat (str_off (group_strs ex_gr_empty) 2)" "read_ptr ?v 24 = 4096 + of_nat (str_off (group_strs ex_gr_empty) 3)"
    "read_ptr ?v 32 = 4096 + of_nat (str_off (group_strs ex_gr_empty) 5)"
    using n by (metis n, metis n order_refl, metis n)
  moreover have "group_view ?v = Some (ex_gr_empty\<lparr>gr_mem := [[97], [], [7, 7, 7, 7, 7, 7, 7, 4, 16]]\<rparr>)" by code_simp
  ultimately show ?thesis using ex_empty_decode unfolding offs by (intro exI [of _ "group_image ex_gr_empty"] exI [of _ ?v]) simp
qed

subsection \<open>Bounds of the encoders\<close>



end
