(* ===== verification/Nss_Query_Proofs.thy ===== *)
theory Nss_Query_Proofs
  imports Nss_Acct Nss_Codec_Props
begin

text \<open>
  Queries of the nsswitch module on a shared map that is open and up to date: taking and dropping a
  reference, lookup with a tag, and the result of the decode routine that is run on what was found.
\<close>

subsection \<open>References\<close>

lemma unlocked [simp]: "\<not> r_lock w \<Longrightarrow> w\<lparr>r_lock := False\<rparr> = w"
  by (cases w) simp

lemma put_map_lock [simp]: "put_map p mm (w\<lparr>r_lock := b\<rparr>) = (put_map p mm w)\<lparr>r_lock := b\<rparr>"
  by (simp add: put_map_def)

lemma r_lock_put_map [simp]: "r_lock (put_map p mm w) = r_lock w" "get_map p (w\<lparr>r_lock := b\<rparr>) = get_map p w"
  by (simp_all add: put_map_def get_map_def)

lemma free_chain_None [simp]: "free_chain None w = Some w"
  by (subst free_chain.simps) simp

lemma register_newest:
  assumes "get_map p w = Some mm" "mm_ptr mm \<noteq> None" "mm_next mm = None" "\<not> r_lock w"
  shows "mcdb_mmap_thread_registration (Some p) True False w =
    Some (True, Some p, put_map p (mm\<lparr>mm_refcnt := mm_refcnt mm + 1\<rparr>) w)"
  using assms by (simp add: mcdb_mmap_thread_registration_def lock_acquire_def lock_release_def)

lemma unregister_shared:
  assumes "get_map p w = Some mm" "mm_refcnt mm \<noteq> 1" "\<not> r_lock w"
  shows "mcdb_mmap_thread_registration (Some p) False False w =
    Some (True, Some p, put_map p (mm\<lparr>mm_refcnt := mm_refcnt mm - 1\<rparr>) w)"
  using assms by (simp add: mcdb_mmap_thread_registration_def lock_acquire_def lock_release_def release_ref_def)

text \<open>The file behind a map has not changed since it was mapped (or cannot be looked at).\<close>

definition current_file :: "mcdb_mmap \<Rightarrow> rd \<Rightarrow> bool" where
  "current_file mm w \<longleftrightarrow> (\<exists>name. fname_str mm w = Some name \<and>
     (\<forall>x. Option.bind (dir_of (mm_dfd mm) w) (\<lambda>d. r_fs w d name) = Some x \<longrightarrow> f_mtime x = mm_mtime mm))"

lemma current_file_same:
  assumes "current_file mm w" "r_strs w' = r_strs w" "r_fds w' = r_fds w" "r_fs w' = r_fs w"
    and "mm_fname mm' = mm_fname mm" "mm_fnamebuf mm' = mm_fnamebuf mm" "mm_dfd mm' = mm_dfd mm" "mm_mtime mm' = mm_mtime mm"
  shows "current_file mm' w'"
proof -
  have "fname_str mm' w' = fname_str mm w" "dir_of (mm_dfd mm') w' = dir_of (mm_dfd mm) w"
    using assms(2-7) by (simp_all add: fname_str_def dir_of_def split: fname_ref.split)
  then show ?thesis using assms(1,4,8) by (simp add: current_file_def)
qed

lemma refresh_check_current:
  assumes "get_map p w = Some mm" "mm_ptr mm \<noteq> None" "current_file mm w"
  shows "\<exists>w1. mcdb_mmap_refresh_check p w = Some (False, w1) \<and> rd_same w w1"
proof -
  obtain name where n: "fname_str mm w = Some name"
    "\<And>x. Option.bind (dir_of (mm_dfd mm) w) (\<lambda>d. r_fs w d name) = Some x \<Longrightarrow> f_mtime x = mm_mtime mm"
    using assms(3) by (auto simp: current_file_def)
  obtain ok w1 where c: "rd_call w = (ok, w1)" by fastforce
  obtain st w2 where s: "sys_stat (mm_dfd mm) name w = (st, w2)" by fastforce
  have "rd_same w w2" "\<And>x. st = Some x \<Longrightarrow> f_mtime x = mm_mtime mm"
    using s c rd_call_same [OF c] rd_same_errno [OF rd_call_same [OF c], of ENOENT] n(2)
    by (auto simp: sys_stat_def split: if_splits option.splits)
  then show ?thesis using assms(1,2) n(1) s
    by (cases st) (auto simp: mcdb_mmap_refresh_check_def)
qed

subsection \<open>A database that is served\<close>

definition holds_db :: "kv list \<Rightarrow> mcdb_mmap \<Rightarrow> bool" where
  "holds_db recs mm \<longleftrightarrow> mm_next mm = None \<and> mm_hash_fn mm = Hash_djb \<and> db_mapped djb_hash recs mm \<and>
     mm_refcnt mm \<noteq> 0 \<and> mm_refcnt mm \<noteq> -1"

text \<open>No session is open, and the shared map holds the records and is up to date.\<close>

definition serves :: "nss_dbtype \<Rightarrow> kv list \<Rightarrow> nss \<Rightarrow> bool" where
  "serves db recs s \<longleftrightarrow> n_map s db = None \<and> \<not> r_lock (n_rd s) \<and>
     (\<exists>p mm. n_mmap s db = Some p \<and> get_map p (n_rd s) = Some mm \<and> holds_db recs mm \<and> current_file mm (n_rd s))"

lemma holds_db_ptr: "holds_db recs mm \<Longrightarrow> mm_ptr mm \<noteq> None"
  by (auto simp: holds_db_def db_mapped_def)

lemma holds_db_reading: "holds_db recs mm \<Longrightarrow> get_map (m_map m) w = Some (mm\<lparr>mm_refcnt := c\<rparr>) \<Longrightarrow>
    reading recs m w (mm\<lparr>mm_refcnt := c\<rparr>)"
  by (simp add: reading_def holds_db_def db_mapped_def)

lemma set_mmap_same [simp]: "n_mmap s db = p \<Longrightarrow> set_mmap db p s = s"
  by (cases s) (auto simp: set_mmap_def)

lemma rd_same_get: "rd_same w w1 \<Longrightarrow> get_map p w1 = get_map p w"
  by (simp add: rd_same_def get_map_def)

lemma getshared_served:
  assumes "n_map s db = None" "n_mmap s db = Some p" "get_map p (n_rd s) = Some mm" "holds_db recs mm"
    "current_file mm (n_rd s)" "\<not> r_lock (n_rd s)"
  shows "\<exists>w1. nss_mcdb_db_getshared db s = Some (Some p, s\<lparr>n_rd := put_map p (mm\<lparr>mm_refcnt := mm_refcnt mm + 1\<rparr>) w1\<rparr>) \<and>
    rd_same (n_rd s) w1"
proof -
  have reg: "mcdb_mmap_thread_registration (Some p) True False w1 =
      Some (True, Some p, put_map p (mm\<lparr>mm_refcnt := mm_refcnt mm + 1\<rparr>) w1)" if "rd_same (n_rd s) w1" for w1
    by (rule register_newest)
      (use assms holds_db_ptr rd_same_get [OF that] rd_sameD(5) [OF that] in \<open>auto simp: holds_db_def\<close>)
  obtain w1 where w1: "mcdb_mmap_refresh_check p (n_rd s) = Some (False, w1)" "rd_same (n_rd s) w1"
    using refresh_check_current [OF assms(3) holds_db_ptr [OF assms(4)] assms(5)] by blast
  show ?thesis
  proof (cases "skips_refresh db s")
    case True
    then show ?thesis using assms(1,2) reg [OF rd_same_refl]
      by (intro exI [of _ "n_rd s"]) (simp add: nss_mcdb_db_getshared_def Let_def)
  next
    case False
    then show ?thesis using assms(1,2) w1 reg [OF w1(2)]
      by (intro exI [of _ w1]) (simp add: nss_mcdb_db_getshared_def refresh_shared_def)
  qed
qed

text \<open>
  A thread that asks for the database gets a map that holds the records, with one more reference;
  \<^term>\<open>s1\<close> is the state in which that reference was taken.
\<close>

definition pinned :: "nss_dbtype \<Rightarrow> kv list \<Rightarrow> nss \<Rightarrow> nat \<Rightarrow> mcdb_mmap \<Rightarrow> rd \<Rightarrow> nss \<Rightarrow> bool" where
  "pinned db recs s p mm w1 s1 \<longleftrightarrow> n_map s1 db = None \<and> n_mmap s1 db = Some p \<and> get_map p (n_rd s1) = Some mm \<and>
     holds_db recs mm \<and> current_file mm (n_rd s1) \<and> \<not> r_lock (n_rd s1) \<and> rd_same (n_rd s1) w1 \<and> n_map s db = None \<and>
     nss_mcdb_db_getshared db s = Some (Some p, s1\<lparr>n_rd := put_map p (mm\<lparr>mm_refcnt := mm_refcnt mm + 1\<rparr>) w1\<rparr>)"

definition available :: "nss_dbtype \<Rightarrow> kv list \<Rightarrow> nss \<Rightarrow> bool" where
  "available db recs s \<longleftrightarrow> (\<exists>p mm w1 s1. pinned db recs s p mm w1 s1)"

lemma serves_available: "serves db recs s \<Longrightarrow> available db recs s"
proof -
  assume "serves db recs s"
  then obtain p mm where M: "n_map s db = None" "n_mmap s db = Some p" "get_map p (n_rd s) = Some mm" "holds_db recs mm"
    "current_file mm (n_rd s)" "\<not> r_lock (n_rd s)" by (auto simp: serves_def)
  from getshared_served [OF M] M show ?thesis unfolding available_def pinned_def by blast
qed

subsection \<open>Lookup with a tag\<close>

lemma findtag_first_map: "findtag_first P m key tagc w = Some (h, m', w') \<Longrightarrow> mcdb_findtagstart P m key tagc w = Some (b, m1, w1) \<Longrightarrow>
    m_map m' = m_map m1"
  by (auto simp: findtag_first_def bind_eq_Some_conv split: if_splits prod.splits dest: findtagnext_map)

lemma findtag_first_values:
  assumes "plasma_bigendian P" "reading recs m w mm"
  shows "\<exists>m'. m_map m' = m_map m \<and> (case db_values djb_hash recs (full_key key tagc) of
      [] \<Rightarrow> findtag_first P m key tagc w = Some (False, m', w)
    | v # vs \<Rightarrow> findtag_first P m key tagc w = Some (True, m', w) \<and> mcdb_data m' w = Some v)"
proof -
  obtain b m1 where s: "mcdb_findtagstart P m key tagc w = Some (b, m1, w)" and mp: "m_map m1 = m_map m"
    using findtagstart_props [OF assms, of key tagc] by (auto split: if_splits)
  note g = get_values_eq [OF assms, of key tagc, unfolded get_values_def s]
  show ?thesis
  proof (cases b)
    case False
    then show ?thesis using g s mp by (auto simp: findtag_first_def)
  next
    case True
    then have f: "find_all P m1 key tagc w = Some (db_values djb_hash recs (full_key key tagc))" using g by simp
    then obtain h m2 where n: "mcdb_findtagnext P m1 key tagc w = Some (h, m2)"
      by (subst (asm) find_all.simps) (auto simp: bind_eq_Some_conv)
    have r: "findtag_first P m key tagc w = Some (h, m2, w)" using s True n by (simp add: findtag_first_def)
    have "m_map m2 = m_map m" using findtag_first_map [OF r s] mp by simp
    then show ?thesis using f n r
      by (subst (asm) find_all.simps) (auto simp: bind_eq_Some_conv split: if_splits list.splits)
  qed
qed

subsection \<open>Decoding what was found\<close>

lemma reading_found_data:
  assumes "reading recs m w mm" "m_map m' = m_map m" "mcdb_data m' w = Some d"
  shows "found_data m' w d"
proof -
  have "get_map (m_map m') w = Some mm" "db_mapped djb_hash recs mm" using assms(1,2) by (simp_all add: reading_def)
  moreover have "mm_size mm < 2 ^ 64" using db_mappedD(6) [OF \<open>db_mapped djb_hash recs mm\<close>] by simp
  ultimately show ?thesis using assms(3) by (auto simp: found_data_def)
qed

text \<open>
  What a query needs of an entry's stored form and its decode routine: data that is the stored form
  of an entry is rebuilt in every buffer with room for it.
\<close>

locale entry_codec =
  fixes decode :: "'v decoder" and image :: "'e \<Rightarrow> bytes" and view :: "'v \<Rightarrow> 'e option" and room :: "'e \<Rightarrow> 'v \<Rightarrow> bool"
  assumes decode_image: "found_data m w (image e) \<Longrightarrow> room e v \<Longrightarrow>
    \<exists>v'. decode m v w = Some (NSS_STATUS_SUCCESS, v', w) \<and> view v' = Some e"
begin

lemma v_decode_image:
  assumes "found_data m (n_rd s) (image e)" "room e v"
  shows "\<exists>v'. v_decode decode m v s = Some (NSS_STATUS_SUCCESS, v', s) \<and> view v' = Some e"
proof -
  obtain v' where "decode m v (n_rd s) = Some (NSS_STATUS_SUCCESS, v', n_rd s)" "view v' = Some e"
    using decode_image [OF assms] by blast
  then show ?thesis by (auto simp: v_decode_def)
qed

end

lemma released_serves:
  assumes "n_map s db = None" "n_mmap s db = Some p" "get_map p (n_rd s) = Some mm" "holds_db recs mm"
    "current_file mm (n_rd s)" "\<not> r_lock (n_rd s)" "rd_same (n_rd s) w1"
  shows "\<exists>s3. nss_mcdb_db_relshared (Some p)
      (s\<lparr>n_rd := (put_map p (mm\<lparr>mm_refcnt := mm_refcnt mm + 1\<rparr>) w1)\<lparr>r_errno := e\<rparr>, n_errnop := o'\<rparr>) = Some (True, s3) \<and>
    serves db recs s3 \<and> n_errnop s3 = o' \<and> r_errno (n_rd s3) = e"
proof -
  let ?mm = "mm\<lparr>mm_refcnt := mm_refcnt mm + 1\<rparr>"
  let ?w = "(put_map p ?mm w1)\<lparr>r_errno := e\<rparr>"
  have g: "get_map p ?w = Some ?mm" "\<not> r_lock ?w" using rd_sameD(5) [OF assms(7)] assms(6) by (simp_all add: get_map_def put_map_def)
  have "mm_refcnt mm \<noteq> 0" using assms(4) by (simp add: holds_db_def)
  then have "mm_refcnt ?mm \<noteq> 1" by simp
  note u = unregister_shared [OF g(1) this g(2)]
  have cur: "current_file mm (put_map p mm ?w)"
    by (rule current_file_same [OF assms(5)]) (use rd_sameD [OF assms(7)] in \<open>simp_all add: put_map_def\<close>)
  show ?thesis using u assms(1,2,4) cur g(2)
    by (simp add: nss_mcdb_db_relshared_def serves_def put_map_def get_map_def)
qed

lemma errno_same [simp]: "w\<lparr>r_errno := r_errno w\<rparr> = w" "s\<lparr>n_errnop := n_errnop s\<rparr> = s" "s\<lparr>n_rd := v, n_errnop := n_errnop s\<rparr> = s\<lparr>n_rd := v\<rparr>"
  by simp_all

context entry_codec begin

text \<open>A lookup whose first value is the stored form of an entry.\<close>

lemma get_generic_finds:
  assumes P: "plasma_bigendian P" and S: "available db recs s"
    and vals: "db_values djb_hash recs (full_key key tagc) = image e # ds" and room: "room e v"
  shows "\<exists>v' s'. nss_mcdb_get_generic P db decode key tagc v s = Some (NSS_STATUS_SUCCESS, v', s') \<and> view v' = Some e \<and> serves db recs s'"
proof -
  obtain p mm w1 s1 where "pinned db recs s p mm w1 s1" using S by (auto simp: available_def)
  then have M: "n_map s1 db = None" "n_mmap s1 db = Some p" "get_map p (n_rd s1) = Some mm" "holds_db recs mm"
    "current_file mm (n_rd s1)" "\<not> r_lock (n_rd s1)" and w1: "rd_same (n_rd s1) w1" "n_map s db = None"
    "nss_mcdb_db_getshared db s = Some (Some p, s1\<lparr>n_rd := put_map p (mm\<lparr>mm_refcnt := mm_refcnt mm + 1\<rparr>) w1\<rparr>)"
    by (simp_all add: pinned_def)
  let ?mm = "mm\<lparr>mm_refcnt := mm_refcnt mm + 1\<rparr>"
  let ?w = "put_map p ?mm w1"
  have R: "reading recs (mcdb_on p) ?w ?mm" by (rule holds_db_reading [OF M(4)]) (simp add: mcdb_on_def get_map_def put_map_def)
  obtain m' where f: "findtag_first P (mcdb_on p) key tagc ?w = Some (True, m', ?w)" "m_map m' = p" "mcdb_data m' ?w = Some (image e)"
    using findtag_first_values [OF P R, of key tagc] vals by (auto simp: mcdb_on_def)
  have "found_data m' ?w (image e)" by (rule reading_found_data [OF R _ f(3)]) (simp add: f(2) mcdb_on_def)
  then obtain v' where d: "v_decode decode m' v (s1\<lparr>n_rd := ?w\<rparr>) = Some (NSS_STATUS_SUCCESS, v', s1\<lparr>n_rd := ?w\<rparr>)" "view v' = Some e"
    using v_decode_image [of m' "s1\<lparr>n_rd := ?w\<rparr>" e v] room by auto
  obtain s3 where "nss_mcdb_db_relshared (Some p) (s1\<lparr>n_rd := ?w\<rparr>) = Some (True, s3)" "serves db recs s3"
    using released_serves [OF M w1(1), where e = "r_errno ?w" and o' = "n_errnop s1"] by auto
  then have "nss_mcdb_get_generic P db decode key tagc v s = Some (NSS_STATUS_SUCCESS, v', s3)"
    using w1(3) f d(1) M(1) by (simp add: nss_mcdb_get_generic_def Let_def)
  with d(2) \<open>serves db recs s3\<close> show ?thesis by blast
qed

end

text \<open>A lookup without a value, whatever the decode routine.\<close>

lemma get_generic_misses:
  assumes P: "plasma_bigendian P" and S: "available db recs s" and vals: "db_values djb_hash recs (full_key key tagc) = []"
  shows "\<exists>s'. nss_mcdb_get_generic P db decode key tagc v s = Some (NSS_STATUS_NOTFOUND, v, s') \<and> serves db recs s' \<and>
    n_errnop s' = ENOENT \<and> r_errno (n_rd s') = ENOENT"
proof -
  obtain p mm w1 s1 where "pinned db recs s p mm w1 s1" using S by (auto simp: available_def)
  then have M: "n_map s1 db = None" "n_mmap s1 db = Some p" "get_map p (n_rd s1) = Some mm" "holds_db recs mm"
    "current_file mm (n_rd s1)" "\<not> r_lock (n_rd s1)" and w1: "rd_same (n_rd s1) w1" "n_map s db = None"
    "nss_mcdb_db_getshared db s = Some (Some p, s1\<lparr>n_rd := put_map p (mm\<lparr>mm_refcnt := mm_refcnt mm + 1\<rparr>) w1\<rparr>)"
    by (simp_all add: pinned_def)
  let ?mm = "mm\<lparr>mm_refcnt := mm_refcnt mm + 1\<rparr>"
  let ?w = "put_map p ?mm w1"
  have R: "reading recs (mcdb_on p) ?w ?mm" by (rule holds_db_reading [OF M(4)]) (simp add: mcdb_on_def get_map_def put_map_def)
  obtain m' where f: "findtag_first P (mcdb_on p) key tagc ?w = Some (False, m', ?w)" "m_map m' = p"
    using findtag_first_values [OF P R, of key tagc] vals by (auto simp: mcdb_on_def)
  obtain s3 where s3: "nss_mcdb_db_relshared (Some p) (enoent (s1\<lparr>n_rd := ?w\<rparr>)) = Some (True, s3)" "serves db recs s3"
      "n_errnop s3 = ENOENT" "r_errno (n_rd s3) = ENOENT"
    using released_serves [OF M w1(1), of ENOENT ENOENT] by (auto simp: enoent_def errnop_errno_def)
  then have "nss_mcdb_get_generic P db decode key tagc v s = Some (NSS_STATUS_NOTFOUND, v, s3)"
    using w1(3) f M(1) by (simp add: nss_mcdb_get_generic_def enoent_def errnop_errno_def)
  with s3 show ?thesis by blast
qed

end
