(* ===== verification/Nss_Session_Proofs.thy ===== *)
theory Nss_Session_Proofs
  imports Nss_Query_Proofs Scan_Proofs
begin

text \<open>
  Sessions of the nsswitch module: what the thread holds between \<^verbatim>\<open>set*ent\<close> and \<^verbatim>\<open>end*ent\<close>, and
  how each \<^verbatim>\<open>get*ent\<close> moves over the records that are still ahead.
\<close>

subsection \<open>A place in the records\<close>

text \<open>The records \<^term>\<open>rs\<close> are those from a position on; the scan may also have been moved to the
  end of the data part.\<close>

definition at_rest :: "kv list \<Rightarrow> kv list \<Rightarrow> mem \<Rightarrow> nat \<Rightarrow> bool" where
  "at_rest recs rs f pos \<longleftrightarrow>
     mem_slice f pos (length (data_bytes rs)) = data_bytes rs \<and> pos + length (data_bytes rs) = data_end recs \<and> set rs \<subseteq> set recs \<or>
     rs = [] \<and> pos = tables_start recs - 7"

lemma at_rest_start: "db_mapped hf recs mm \<Longrightarrow> at_rest recs recs (mm_bytes mm) MCDB_HEADER_SZ"
  using db_mappedD(2) [of hf recs mm] by (simp add: at_rest_def db_file_def data_end_def)

lemma at_rest_small:
  assumes "db_mapped hf recs mm" "at_rest recs rs (mm_bytes mm) pos"
  shows "pos < 2 ^ 62"
proof -
  have "tables_start recs < 2 ^ 62"
    using db_mappedD(5,6) [OF assms(1)] table_pos_ge [of recs hf MCDB_SLOTS] by simp
  then show ?thesis using assms(2) tables_start_ge(2) [of recs] by (auto simp: at_rest_def)
qed

lemma iter_step_stopped:
  "mcdb_iter_step P it w = Some (False, it1) \<Longrightarrow> it_ptr it1 = it_ptr it \<or> it_ptr it1 = it_eod it"
  by (auto simp: mcdb_iter_step_def Let_def bind_eq_Some_conv split: if_splits)

lemma iter_step_last:
  assumes P: "plasma_bigendian P" and mm: "get_map (it_map it) w = Some mm" and db: "db_mapped hf recs mm"
    and it: "it_ptr it = int pos" "it_eod it = int (tables_start recs) - 7" and r: "at_rest recs [] (mm_bytes mm) pos"
  shows "\<exists>it1 pos'. mcdb_iter_step P it w = Some (False, it1) \<and> it_ptr it1 = int pos' \<and> at_rest recs [] (mm_bytes mm) pos'"
proof -
  have ts: "7 \<le> tables_start recs" using tables_start_ge(1) [of recs] by (simp add: mcdb_consts)
  have "\<exists>it1. mcdb_iter_step P it w = Some (False, it1)"
  proof (cases "it_ptr it = int (data_end recs)")
    case True
    then show ?thesis using iter_step_end [OF P mm db _ it(2)] by blast
  next
    case False
    then have "\<not> it_ptr it < it_eod it" using r it ts by (auto simp: at_rest_def)
    then show ?thesis by (simp add: mcdb_iter_step_def)
  qed
  then obtain it1 where it1: "mcdb_iter_step P it w = Some (False, it1)" by blast
  have "at_rest recs [] (mm_bytes mm) (tables_start recs - 7)" by (simp add: at_rest_def)
  moreover have "it_eod it = int (tables_start recs - 7)" using it(2) ts by simp
  ultimately show ?thesis using iter_step_stopped [OF it1] it(1) r it1 by auto
qed

lemma iter_step_next:
  assumes P: "plasma_bigendian P" and mm: "get_map (it_map it) w = Some mm" and db: "db_mapped hf recs mm"
    and it: "it_ptr it = int pos" "it_eod it = int (tables_start recs) - 7" and r: "at_rest recs ((k, d) # rs) (mm_bytes mm) pos"
  shows "\<exists>it1 pos'. mcdb_iter_step P it w = Some (True, it1) \<and> it_ptr it1 = int pos' \<and> at_rest recs rs (mm_bytes mm) pos' \<and>
    it_eod it1 = it_eod it \<and> it_map it1 = it_map it \<and> mcdb_iter_key it1 w = Some k \<and> mcdb_iter_data it1 w = Some d"
proof -
  note D = db_mappedD [OF db]
  have split: "mem_slice (mm_bytes mm) pos (rec_len (k, d)) = rec_bytes (k, d)"
    "mem_slice (mm_bytes mm) (pos + rec_len (k, d)) (length (data_bytes rs)) = data_bytes rs"
    using r by (simp_all add: at_rest_def data_bytes_Cons mem_slice_add)
  have ends: "pos + rec_len (k, d) + length (data_bytes rs) = data_end recs" using r by (simp add: at_rest_def data_bytes_Cons)
  then have lim: "pos + rec_len (k, d) \<le> tables_start recs" using tables_start_ge(2) [of recs] by simp
  then have lim2: "pos + rec_len (k, d) \<le> mm_size mm" using D(5) table_pos_ge [of recs hf MCDB_SLOTS] by simp
  have len: "length k \<le> INT_MAX - 8" "length d \<le> INT_MAX - 8"
    using D(3) r by (auto simp: recs_ok_def at_rest_def)
  have "int pos < it_eod it" using lim it(2) by (simp add: rec_len_def)
  moreover have "at_rest recs rs (mm_bytes mm) (pos + rec_len (k, d))" using split(2) ends r by (simp add: at_rest_def)
  ultimately show ?thesis using iter_step_rec [OF P mm D(1) split(1) lim2 len it(1)] by blast
qed

text \<open>The first byte of a key that is not empty.\<close>

lemma iter_key_first:
  assumes "get_map (it_map it) w = Some mm" "mcdb_iter_key it w = Some k" "k \<noteq> []"
  shows "iter_load mm (it_ptr it - uint (it_dlen it) - uint (it_klen it)) 1 = Some [hd k]"
proof -
  obtain f where f: "mm_ptr mm = Some f" using assms by (auto simp: mcdb_iter_key_def iter_load_def split: option.splits)
  define a where "a = it_ptr it - uint (it_dlen it) - uint (it_klen it)"
  have a: "0 \<le> a" "nat a + unat (it_klen it) \<le> mm_size mm" "k = mem_slice f (nat a) (unat (it_klen it))"
    using assms f by (auto simp: mcdb_iter_key_def iter_load_def a_def split: if_splits)
  then obtain n where n: "unat (it_klen it) = Suc n" using assms(3) by (cases "unat (it_klen it)") (auto simp: mem_slice_def)
  then have "hd k = f (nat a)" using a(3) by (simp add: mem_slice_def upt_conv_Cons del: upt_Suc)
  moreover have "nat a + 1 \<le> mm_size mm" using a(2) n by simp
  ultimately show ?thesis using f a(1) by (simp add: iter_load_def a_def [symmetric] mem_slice_def)
qed

text \<open>The records that an enumeration has ahead, from the first one that it delivers.\<close>

definition entries_from :: "kv list \<Rightarrow> kv list" where
  "entries_from rs = dropWhile (\<lambda>r. hd (fst r) \<noteq> 61) rs"

lemma getent_scan_finds:
  assumes P: "plasma_bigendian P" and db: "db_mapped hf recs mm"
  shows "get_map (it_map it) w = Some mm \<Longrightarrow> it_ptr it = int pos \<Longrightarrow> it_eod it = int (tables_start recs) - 7 \<Longrightarrow>
    at_rest recs rs (mm_bytes mm) pos \<Longrightarrow> \<forall>r \<in> set rs. fst r \<noteq> [] \<Longrightarrow>
    \<exists>it1 pos'. it_ptr it1 = int pos' \<and> (case entries_from rs of
      [] \<Rightarrow> getent_scan P it w = Some (False, it1) \<and> at_rest recs [] (mm_bytes mm) pos'
    | r # rs' \<Rightarrow> getent_scan P it w = Some (True, it1) \<and> at_rest recs rs' (mm_bytes mm) pos' \<and> it_map it1 = it_map it \<and>
        mcdb_iter_data it1 w = Some (snd r))"
proof (induction rs arbitrary: it pos)
  case Nil
  from iter_step_last [OF P Nil(1) db Nil(2,3,4)] obtain it1 pos' where
    "mcdb_iter_step P it w = Some (False, it1)" "it_ptr it1 = int pos'" "at_rest recs [] (mm_bytes mm) pos'" by blast
  then show ?case by (intro exI [of _ it1] exI [of _ pos']) (subst getent_scan.simps, simp add: entries_from_def)
next
  case (Cons r rs)
  obtain k d where r: "r = (k, d)" by fastforce
  from iter_step_next [OF P Cons.prems(1) db Cons.prems(2,3) Cons.prems(4) [unfolded r]] obtain it1 pos' where
    s: "mcdb_iter_step P it w = Some (True, it1)" "it_ptr it1 = int pos'" "at_rest recs rs (mm_bytes mm) pos'"
    "it_eod it1 = it_eod it" "it_map it1 = it_map it" "mcdb_iter_key it1 w = Some k" "mcdb_iter_data it1 w = Some d" by blast
  have g: "get_map (it_map it1) w = Some mm" "k \<noteq> []" using Cons.prems(1,5) s(5) r by simp_all
  note step = s(1) g(1) iter_key_first [OF g(1) s(6) g(2)]
  show ?case
  proof (cases "hd k = 61")
    case True
    then have "getent_scan P it w = Some (True, it1)" using step by (subst getent_scan.simps) simp
    then show ?thesis using s True r by (intro exI [of _ it1] exI [of _ pos']) (simp add: entries_from_def)
  next
    case False
    then have same: "getent_scan P it w = getent_scan P it1 w" using step by (subst getent_scan.simps) simp
    have skip: "entries_from (r # rs) = entries_from rs" using False r by (simp add: entries_from_def)
    show ?thesis
      unfolding same skip s(5) [symmetric] by (rule Cons.IH) (use Cons.prems(3,5) s g in simp_all)
  qed
qed

subsection \<open>A session\<close>

text \<open>The thread holds one of the references of the current shared map, and these records are
  ahead of it.\<close>

definition in_session :: "nss_dbtype \<Rightarrow> kv list \<Rightarrow> kv list \<Rightarrow> nss \<Rightarrow> bool" where
  "in_session db recs rs s \<longleftrightarrow> (\<exists>p mm pos. n_map s db = Some p \<and> n_mmap s db = Some p \<and>
     get_map p (n_rd s) = Some (mm\<lparr>mm_refcnt := mm_refcnt mm + 1\<rparr>) \<and> holds_db recs mm \<and> current_file mm (n_rd s) \<and> \<not> r_lock (n_rd s) \<and>
     m_hpos (n_st s db) = word_of_nat pos \<and> at_rest recs rs (mm_bytes mm) pos)"

lemma setent_opens:
  assumes "available db recs s"
  shows "\<exists>s1. nss_mcdb_setent db s = Some (NSS_STATUS_SUCCESS, s1) \<and> in_session db recs recs s1"
proof -
  obtain p mm w1 s1 where "pinned db recs s p mm w1 s1" using assms by (auto simp: available_def)
  then have M: "n_map s1 db = None" "n_mmap s1 db = Some p" "get_map p (n_rd s1) = Some mm" "holds_db recs mm"
    "current_file mm (n_rd s1)" "\<not> r_lock (n_rd s1)" and w1: "rd_same (n_rd s1) w1" "n_map s db = None"
    "nss_mcdb_db_getshared db s = Some (Some p, s1\<lparr>n_rd := put_map p (mm\<lparr>mm_refcnt := mm_refcnt mm + 1\<rparr>) w1\<rparr>)"
    by (simp_all add: pinned_def)
  let ?w = "put_map p (mm\<lparr>mm_refcnt := mm_refcnt mm + 1\<rparr>) w1"
  have "current_file mm ?w" by (rule current_file_same [OF M(5)]) (use rd_sameD [OF w1(1)] in \<open>simp_all add: put_map_def\<close>)
  moreover have "\<not> r_lock ?w" using M(6) rd_sameD(5) [OF w1(1)] by simp
  moreover have "get_map p ?w = Some (mm\<lparr>mm_refcnt := mm_refcnt mm + 1\<rparr>)" by (simp add: get_map_def put_map_def)
  moreover have "at_rest recs recs (mm_bytes mm) MCDB_HEADER_SZ" using M(4) by (auto simp: holds_db_def intro: at_rest_start)
  ultimately show ?thesis using w1(2,3) M(2,4)
    by (simp add: nss_mcdb_setent_def set_map_def set_st_def in_session_def) blast
qed

lemma setent_rewinds:
  assumes "in_session db recs rs s"
  shows "\<exists>s1. nss_mcdb_setent db s = Some (NSS_STATUS_SUCCESS, s1) \<and> in_session db recs recs s1"
proof -
  obtain p mm pos where M: "n_map s db = Some p" "n_mmap s db = Some p" "get_map p (n_rd s) = Some (mm\<lparr>mm_refcnt := mm_refcnt mm + 1\<rparr>)"
    "holds_db recs mm" "current_file mm (n_rd s)" "\<not> r_lock (n_rd s)" using assms by (auto simp: in_session_def)
  have "at_rest recs recs (mm_bytes mm) MCDB_HEADER_SZ" using M(4) by (auto simp: holds_db_def intro: at_rest_start)
  then show ?thesis using M by (simp add: nss_mcdb_setent_def set_st_def in_session_def) blast
qed

lemma endent_closes:
  assumes "in_session db recs rs s"
  shows "\<exists>s1. nss_mcdb_endent db s = Some (NSS_STATUS_SUCCESS, s1) \<and> serves db recs s1"
proof -
  obtain p mm pos where M: "n_map s db = Some p" "n_mmap s db = Some p" "get_map p (n_rd s) = Some (mm\<lparr>mm_refcnt := mm_refcnt mm + 1\<rparr>)"
    "holds_db recs mm" "current_file mm (n_rd s)" "\<not> r_lock (n_rd s)" using assms by (auto simp: in_session_def)
  have "mm_refcnt mm \<noteq> 0" using M(4) by (simp add: holds_db_def)
  then have "mm_refcnt (mm\<lparr>mm_refcnt := mm_refcnt mm + 1\<rparr>) \<noteq> 1" by simp
  note u = unregister_shared [OF M(3) this M(6)]
  have "current_file mm (put_map p mm (n_rd s))"
    by (rule current_file_same [OF M(5)]) (simp_all add: put_map_def)
  then show ?thesis using u M
    by (simp add: nss_mcdb_endent_def nss_mcdb_db_relshared_def serves_def set_map_def put_map_def get_map_def)
qed

subsection \<open>The next entry\<close>

lemma sint_word_of_nat_small:
  assumes "n < 2 ^ 63"
  shows "sint (word_of_nat n :: u64) = int n"
proof -
  have "uint (word_of_nat n :: u64) = int n" using assms by (simp add: uint_nat unat_of_nat_u64)
  then show ?thesis using assms by (simp add: sint_uint signed_take_bit_int_eq_self)
qed

lemma iter_init_eod:
  assumes P: "plasma_bigendian P" and mm: "get_map (m_map m) w = Some mm" and db: "db_mapped hf recs mm"
  shows "\<exists>it0. mcdb_iter_init P m w = Some it0 \<and> it_eod it0 = int (tables_start recs) - 7 \<and> it_map it0 = m_map m"
proof -
  have "map_load_aligned mm 0 8 = Some (be_bytes 8 (tables_start recs))" using load_header(1) [OF db slots_0] by simp
  moreover have "tables_start recs < 2 ^ 62"
    using db_mappedD(5,6) [OF db] table_pos_ge [of recs hf MCDB_SLOTS] by simp
  then have "uint (uint64_strunpack_bigendian_aligned_macro P (be_bytes 8 (tables_start recs))) = int (tables_start recs)"
    by (simp add: unpack_be_bytes [OF P] uint_nat unat_of_nat_u64)
  ultimately show ?thesis using mm by (simp add: mcdb_iter_init_def)
qed

text \<open>The data on which the iteration stands, as the query that the decode routine is given.\<close>

lemma iter_data_found:
  assumes "get_map (it_map it) w = Some mm" "mm_size mm < 2 ^ 62" "mcdb_iter_data it w = Some d"
  shows "found_data (m\<lparr>m_map := it_map it, m_hpos := h, m_dpos := word_of_int (it_ptr it - uint (it_dlen it)), m_dlen := it_dlen it\<rparr>) w d"
proof -
  define a where "a = it_ptr it - uint (it_dlen it)"
  obtain f where f: "mm_ptr mm = Some f" "0 \<le> a" "nat a + unat (it_dlen it) \<le> mm_size mm" "d = mem_slice f (nat a) (unat (it_dlen it))"
    using assms by (auto simp: mcdb_iter_data_def iter_load_def a_def [symmetric] split: option.splits if_splits)
  have "(word_of_int a :: u64) = word_of_nat (nat a)" using f(2) by (simp add: of_nat_nat)
  then have "map_load mm (word_of_int a) (unat (it_dlen it)) = Some d"
    using map_load_nat [OF f(1) assms(2) f(3)] f(4) by simp
  then show ?thesis using assms(1,2) by (simp add: found_data_def mcdb_data_def a_def)
qed

text \<open>What the next call of \<^verbatim>\<open>get*ent\<close> does in a session, up to the decode routine: it moves past
  the entry before that routine is asked.\<close>

lemma getent_in_session:
  assumes P: "plasma_bigendian P" and S: "in_session db recs rs s" and keys: "\<forall>r \<in> set recs. fst r \<noteq> []"
  shows "case entries_from rs of
      [] \<Rightarrow> \<exists>s1. nss_mcdb_getent P db decode v s = Some (NSS_STATUS_NOTFOUND, v, enoent s1) \<and> in_session db recs [] s1
    | r # rs' \<Rightarrow> \<exists>s1 m. nss_mcdb_getent P db decode v s = v_decode decode m v s1 \<and> in_session db recs rs' s1 \<and> 
        found_data m (n_rd s1) (snd r)"
proof -
  obtain p mm0 pos where M: "n_map s db = Some p" "n_mmap s db = Some p" "get_map p (n_rd s) = Some (mm0\<lparr>mm_refcnt := mm_refcnt mm0 + 1\<rparr>)"
    "holds_db recs mm0" "current_file mm0 (n_rd s)" "\<not> r_lock (n_rd s)" "m_hpos (n_st s db) = word_of_nat pos"
    "at_rest recs rs (mm_bytes mm0) pos" using S by (auto simp: in_session_def)
  define mm where "mm = mm0\<lparr>mm_refcnt := mm_refcnt mm0 + 1\<rparr>"
  have g: "get_map p (n_rd s) = Some mm" "mm_bytes mm = mm_bytes mm0" "mm_size mm = mm_size mm0" using M(3) by (simp_all add: mm_def mm_bytes_def)
  have db: "db_mapped djb_hash recs mm" using M(4) by (simp add: holds_db_def db_mapped_def mm_def)
  define m where "m = (n_st s db)\<lparr>m_map := p\<rparr>"
  obtain it0 where it0: "mcdb_iter_init P m (n_rd s) = Some it0" "it_eod it0 = int (tables_start recs) - 7" "it_map it0 = p"
    using iter_init_eod [OF P _ db, of m "n_rd s"] g(1) by (auto simp: m_def)
  have small: "pos < 2 ^ 62" using at_rest_small [OF db] M(8) g(2) by simp
  have pos: "sint (m_hpos m) = int pos" using M(7) small sint_word_of_nat_small [of pos] by (simp add: m_def)
  have sub: "set rs \<subseteq> set recs" using M(8) by (auto simp: at_rest_def)
  define it where "it = it0\<lparr>it_ptr := sint (m_hpos m)\<rparr>"
  have h: "get_map (it_map it) (n_rd s) = Some mm" "it_ptr it = int pos" "it_eod it = int (tables_start recs) - 7"
    "at_rest recs rs (mm_bytes mm) pos" "\<forall>r \<in> set rs. fst r \<noteq> []"
    using it0 g pos M(8) keys sub by (auto simp: it_def)
  from getent_scan_finds [OF P db h] obtain it1 pos' where
    scan: "it_ptr it1 = int pos'" "case entries_from rs of
      [] \<Rightarrow> getent_scan P it (n_rd s) = Some (False, it1) \<and> at_rest recs [] (mm_bytes mm) pos'
    | r # rs' \<Rightarrow> getent_scan P it (n_rd s) = Some (True, it1) \<and> at_rest recs rs' (mm_bytes mm) pos' \<and> it_map it1 = it_map it \<and>
        mcdb_iter_data it1 (n_rd s) = Some (snd r)" by blast
  have open_: "nss_mcdb_getent P db decode v s = do {
       (found, it) \<leftarrow> getent_scan P it (n_rd s);
       let m1 = m\<lparr>m_hpos := word_of_int (it_ptr it)\<rparr>;
       if found then
         (let m2 = m1\<lparr>m_dpos := word_of_int (it_ptr it - uint (it_dlen it)), m_dlen := it_dlen it\<rparr>
          in v_decode decode m2 v (set_st db m2 s))
       else Some (NSS_STATUS_NOTFOUND, v, enoent (set_st db m1 s)) }"
    using M(1) it0(1) by (simp add: nss_mcdb_getent_def m_def it_def)
  have stays: "in_session db recs rs1 (set_st db m1 s)"
    if "m_map m1 = p" "m_hpos m1 = word_of_nat pos'" "at_rest recs rs1 (mm_bytes mm) pos'" for rs1 m1
    using M that g(2) unfolding in_session_def set_st_def by auto
  show ?thesis
  proof (cases "entries_from rs")
    case Nil
    let ?m1 = "m\<lparr>m_hpos := word_of_int (it_ptr it1)\<rparr>"
    have "in_session db recs [] (set_st db ?m1 s)" using scan Nil by (intro stays) (simp_all add: m_def)
    then show ?thesis using scan Nil by (auto simp: open_)
  next
    case (Cons r rs')
    let ?m2 = "m\<lparr>m_hpos := word_of_int (it_ptr it1), m_dpos := word_of_int (it_ptr it1 - uint (it_dlen it1)), m_dlen := it_dlen it1\<rparr>"
    have i: "getent_scan P it (n_rd s) = Some (True, it1)" "at_rest recs rs' (mm_bytes mm) pos'" "it_map it1 = p"
      "mcdb_iter_data it1 (n_rd s) = Some (snd r)" using scan(2) Cons it0(3) by (simp_all add: it_def)
    have "in_session db recs rs' (set_st db ?m2 s)" using scan(1) i(2) by (intro stays) (simp_all add: m_def)
    moreover have "found_data ?m2 (n_rd s) (snd r)"
      using iter_data_found [where it = it1 and w = "n_rd s" and mm = mm and d = "snd r" and m = "n_st s db" and h = "word_of_int (it_ptr it1)"] i g db_mappedD(6) [OF db]
      by (simp add: m_def)
    then have "found_data ?m2 (n_rd (set_st db ?m2 s)) (snd r)" by (simp add: set_st_def)
    moreover have "nss_mcdb_getent P db decode v s = v_decode decode ?m2 v (set_st db ?m2 s)" using i(1) by (simp add: open_ Let_def)
    ultimately show ?thesis using Cons by auto
  qed
qed

lemma in_session_errno [simp]:
  "in_session db recs rs (s\<lparr>n_errnop := e\<rparr>) = in_session db recs rs s"
  "in_session db recs rs (s\<lparr>n_rd := (n_rd s)\<lparr>r_errno := n\<rparr>\<rparr>) = in_session db recs rs s"
  by (simp_all add: in_session_def get_map_def current_file_def fname_str_def dir_of_def cong: fname_ref.case_cong)

lemma in_session_enoent: "in_session db recs rs s \<Longrightarrow> in_session db recs rs (enoent s)"
  by (simp add: enoent_def errnop_errno_def)

lemma getent_at_end:
  assumes "plasma_bigendian P" "in_session db recs rs s" "\<forall>r \<in> set recs. fst r \<noteq> []" "entries_from rs = []"
  shows "\<exists>s'. nss_mcdb_getent P db decode v s = Some (NSS_STATUS_NOTFOUND, v, s') \<and> in_session db recs [] s' \<and> n_errnop s' = ENOENT"
proof -
  obtain s1 where "nss_mcdb_getent P db decode v s = Some (NSS_STATUS_NOTFOUND, v, enoent s1)" "in_session db recs [] s1"
    using getent_in_session [OF assms(1-3), of decode v] assms(4) by auto
  then show ?thesis using in_session_enoent by (intro exI [of _ "enoent s1"]) (simp add: enoent_def errnop_errno_def)
qed

context entry_codec begin

lemma getent_next:
  assumes "plasma_bigendian P" "in_session db recs rs s" "\<forall>r \<in> set recs. fst r \<noteq> []" "entries_from rs = (k, image e) # rs'" "room e v"
  shows "\<exists>v' s'. nss_mcdb_getent P db decode v s = Some (NSS_STATUS_SUCCESS, v', s') \<and> view v' = Some e \<and> in_session db recs rs' s'"
proof -
  obtain s1 m where g: "nss_mcdb_getent P db decode v s = v_decode decode m v s1" "in_session db recs rs' s1"
    "found_data m (n_rd s1) (image e)"
    using getent_in_session [OF assms(1-3), of decode v] assms(4) by auto
  then show ?thesis using v_decode_image [OF g(3) assms(5)] by auto
qed

end

end
