(* ===== verification/Nss_Make.thy ===== *)
theory Nss_Make
  imports Nss_Acct_Make
begin

text \<open>
  Making a database from its flat file, nss_mcdb_make.c: the entry of /etc/nsswitch.conf that is
  stored as the first record, and \<^verbatim>\<open>nss_mcdb_make_dbfile\<close>, which maps the flat file, parses it
  into the database, and starts over if the file has changed meanwhile.

  As everywhere, the k-th external call fails or succeeds as the \<^verbatim>\<open>os\<close> decides.  The two files
  that are read belong to other processes: \<^term>\<open>inp k\<close> is the file of the input's name at the
  time of call k and \<^term>\<open>nsf k\<close> the content of nsswitch.conf.  A file that has been opened keeps
  its content; the comments of the code exclude files modified in place.
\<close>

record srcfile =
  sf_bytes :: bytes
  sf_ino :: nat
  sf_mtime :: int

text \<open>The memory of a mapped file: NUL up to the end of the last page.\<close>

definition map_mem :: "bytes \<Rightarrow> mem" where
  "map_mem bs = mem_upd (\<lambda>_. 0) 0 bs"

definition map_ext :: "nat \<Rightarrow> bytes \<Rightarrow> nat" where
  "map_ext pagesize bs = (length bs + (pagesize - 1)) div pagesize * pagesize"

subsection \<open>nsswitch.conf\<close>

text \<open>The part of a path behind its last slash.\<close>

definition basename :: "bytes \<Rightarrow> bytes" where
  "basename svc = rev (takeWhile (\<lambda>c. c \<noteq> 47) (rev svc))"

function skip_blank :: "nat \<Rightarrow> mem \<Rightarrow> nat \<Rightarrow> nat option" where
  "skip_blank ext f p =
     (if p < ext then (if f p = 32 \<or> f p = 9 then skip_blank ext f (Suc p) else Some p) else None)"
  by pat_completeness auto
termination by (relation "measure (\<lambda>(ext, f, p). ext - p)") auto

text \<open>\<^verbatim>\<open>strncmp(p, svc, strlen(svc)) == 0\<close>.\<close>

fun str_match :: "nat \<Rightarrow> mem \<Rightarrow> nat \<Rightarrow> bytes \<Rightarrow> bool option" where
  "str_match ext f p [] = Some True"
| "str_match ext f p (c # cs) = do {
     d \<leftarrow> text_at ext f p;
     if d = c then str_match ext f (Suc p) cs else Some False }"

text \<open>
  The entry is copied with blanks squeezed: the position where the loop stops, the number of
  bytes and the buffer.
\<close>

function copy_entry :: "nat \<Rightarrow> mem \<Rightarrow> nat \<Rightarrow> nat \<Rightarrow> nat \<Rightarrow> mem \<Rightarrow> (nat \<times> nat \<times> mem) option" where
  "copy_entry ext f datasz p i data =
     (if \<not> p < ext then None
      else if f p = 35 \<or> f p = 10 \<or> f p = 0 \<or> \<not> i < datasz then Some (p, i, data)
      else if f p = 92 \<and> \<not> Suc p < ext then None
      else if f p = 92 \<and> f (Suc p) = 10 then copy_entry ext f datasz (Suc (Suc p)) i data
      else if f p \<noteq> 32 \<and> f p \<noteq> 9 then copy_entry ext f datasz (Suc p) (Suc i) (data(i := f p))
      else if \<not> Suc p < ext then None
      else if f (Suc p) \<noteq> 32 \<and> f (Suc p) \<noteq> 9 then copy_entry ext f datasz (Suc p) (Suc i) (data(i := 32))
      else copy_entry ext f datasz (Suc p) i data)"
  by pat_completeness auto
termination by (relation "measure (\<lambda>(ext, f, datasz, p, i, data). ext - p)") auto

text \<open>To the end of the line, over continuation lines.\<close>

function line_end :: "nat \<Rightarrow> mem \<Rightarrow> nat \<Rightarrow> nat option" where
  "line_end ext f p =
     (if \<not> p < ext then None
      else if f p = 10 \<or> f p = 0 then Some p
      else if f p = 92 \<and> \<not> Suc p < ext then None
      else line_end ext f (if f p \<noteq> 92 \<or> f (Suc p) \<noteq> 10 then Suc p else Suc (Suc p)))"
  by pat_completeness auto
termination by (relation "measure (\<lambda>(ext, f, p). ext - p)") auto

declare skip_blank.simps [simp del] copy_entry.simps [simp del] line_end.simps [simp del]

datatype nsswitch_line = Entry_found mem | Entry_too_long | Text_ends | Not_here nat

text \<open>
  One line: if it is the entry of the service, it is copied and terminated.  A store outside the
  buffer is undefined, before its start (an empty entry) as well as after its end.
\<close>

definition nsswitch_line :: "nat \<Rightarrow> mem \<Rightarrow> bytes \<Rightarrow> nat \<Rightarrow> mem \<Rightarrow> nat \<Rightarrow> nsswitch_line option" where
  "nsswitch_line ext f svc datasz data p0 = do {
     p \<leftarrow> skip_blank ext f p0;
     c \<leftarrow> text_at ext f p;
     m \<leftarrow> (if c = hd (cz svc) then str_match ext f p svc else Some False);
     if \<not> m then Some (Not_here p)
     else do {
       p1 \<leftarrow> skip_blank ext f (p + length svc);
       c1 \<leftarrow> text_at ext f p1;
       if c1 \<noteq> 58 then Some (Not_here p1)
       else do {
         p2 \<leftarrow> skip_blank ext f (Suc p1);
         c2 \<leftarrow> text_at ext f p2;
         if c2 = 0 then Some Text_ends
         else if c2 = 35 \<or> c2 = 10 then Some (Not_here p2)
         else do {
           (p3, i, d) \<leftarrow> copy_entry ext f datasz p2 0 data;
           c3 \<leftarrow> text_at ext f p3;
           if c3 \<noteq> 35 \<and> c3 \<noteq> 10 \<and> c3 \<noteq> 0 then Some Entry_too_long
           else do {
             _ \<leftarrow> guard (0 < i);
             let j = (if d (i - 1) = 32 then i - 1 else i);
             _ \<leftarrow> guard (j < datasz);
             Some (Entry_found (d(j := 0))) } } } } }"

partial_function (option) nsswitch_search :: "nat \<Rightarrow> mem \<Rightarrow> bytes \<Rightarrow> nat \<Rightarrow> mem \<Rightarrow> nat \<Rightarrow> nsswitch_line option" where
  "nsswitch_search ext f svc datasz data p = do {
     c \<leftarrow> text_at ext f p;
     if c = 0 then Some Text_ends
     else do {
       r \<leftarrow> nsswitch_line ext f svc datasz data p;
       case r of
         Not_here q \<Rightarrow> do {
           e \<leftarrow> line_end ext f q;
           d \<leftarrow> text_at ext f e;
           if d = 0 then Some Text_ends else nsswitch_search ext f svc datasz data (Suc e) }
       | Entry_found d \<Rightarrow> Some (Entry_found d)
       | Entry_too_long \<Rightarrow> Some Entry_too_long
       | Text_ends \<Rightarrow> Some Text_ends } }"

definition mcdb_word :: bytes where "mcdb_word = [109, 99, 100, 98]"
definition mcdb_dns_words :: bytes where "mcdb_dns_words = [109, 99, 100, 98, 32, 100, 110, 115]"
definition hosts_word :: bytes where "hosts_word = [104, 111, 115, 116, 115]"

definition nsswitch_default :: "bytes \<Rightarrow> nat \<Rightarrow> mem \<Rightarrow> bool \<times> mem" where
  "nsswitch_default svc datasz data =
     (if length (cz mcdb_dns_words) \<ge> datasz then (False, data)
      else if svc \<noteq> hosts_word then (True, mem_upd data 0 (cz mcdb_word))
      else (True, mem_upd data 0 (cz mcdb_dns_words)))"

text \<open>
  The static mapping is the argument and result \<^term>\<open>nsw\<close>, the content of the file once it is
  mapped.  Without a mapping the service's path is compared whole.
\<close>

definition nss_mcdb_nsswitch ::
  "nat \<Rightarrow> (nat \<Rightarrow> bytes option) \<Rightarrow> bytes \<Rightarrow> nat \<Rightarrow> mem \<Rightarrow> bytes option \<Rightarrow> os \<Rightarrow> (bool \<times> mem \<times> bytes option \<times> os) option" where
  "nss_mcdb_nsswitch pagesize nsf svc datasz data nsw s =
    (let (go_on, nsw1, s1) =
       (if nsw \<noteq> None then (True, nsw, s)
        else
          (let there = nsf (o_step s); (ok, s1) = ext_call s                               \<comment> \<open>open\<close>
           in case there of
                None \<Rightarrow> (if ok then (True, None, s1\<lparr>o_errno := ENOENT\<rparr>) else (o_errno s1 = ENOENT, None, s1))
              | Some bs \<Rightarrow>
                  (if \<not> ok then (o_errno s1 = ENOENT, None, s1)
                   else
                     (let (ok2, s2) = ext_call s1;                                          \<comment> \<open>fstat\<close>
                          (ok3, s3) = (if ok2 then ext_call s2 else (False, s2));           \<comment> \<open>mmap\<close>
                          (ok4, s4) = (if ok3 \<and> bs = [] then (False, s3\<lparr>o_errno := EINVAL\<rparr>) else (ok3, s3))
                      in (True, if ok4 then Some bs else None, snd (ext_call s4))))))       \<comment> \<open>close\<close>
     in if \<not> go_on then Some (False, data, nsw1, s1)
        else case nsw1 of
          None \<Rightarrow> (let (ok, d) = nsswitch_default svc datasz data in Some (ok, d, None, s1))
        | Some bs \<Rightarrow> do {
            r \<leftarrow> nsswitch_search (map_ext pagesize bs) (map_mem bs) (basename svc) datasz data 0;
            case r of
              Entry_found d \<Rightarrow> Some (True, d, nsw1, s1)
            | Entry_too_long \<Rightarrow> Some (False, data, nsw1, s1)
            | Text_ends \<Rightarrow> (let (ok, d) = nsswitch_default (basename svc) datasz data in Some (ok, d, nsw1, s1))
            | Not_here _ \<Rightarrow> None })"

subsection \<open>Making the database\<close>

text \<open>
  What the run of a parser works on.  \<^verbatim>\<open>nss_mcdb_make_dbfile\<close> is given the parser and,
  for the group database, the flush function.
\<close>

record builder =
  bd_w :: winfo
  bd_g :: groupmems
  bd_nsw :: "bytes option"
  bd_os :: os

type_synonym parser = "nat \<Rightarrow> mem \<Rightarrow> builder \<Rightarrow> (bool \<times> builder) option"
type_synonym flusher = "builder \<Rightarrow> (bool \<times> builder) option"

definition bd_call :: "builder \<Rightarrow> bool \<times> builder" where
  "bd_call b = (let (ok, s) = ext_call (bd_os b) in (ok, b\<lparr>bd_os := s\<rparr>))"

text \<open>The first record: the entry of nsswitch.conf under an empty key with tag 0.\<close>

definition dbfile_nsswitch ::
  "plasma_endian \<Rightarrow> nat \<Rightarrow> (nat \<Rightarrow> bytes option) \<Rightarrow> bytes \<Rightarrow> builder \<Rightarrow> (bool \<times> builder) option" where
  "dbfile_nsswitch P pagesize nsf input b = do {
     let w = bd_w b;
     (ok, d, nsw, s1) \<leftarrow> nss_mcdb_nsswitch pagesize nsf input (wi_datasz w) (wi_data w) (bd_nsw b) (bd_os b);
     let w1 = w\<lparr>wi_data := d\<rparr>;
     if \<not> ok then Some (False, b\<lparr>bd_w := w1, bd_nsw := nsw, bd_os := s1\<rparr>)
     else do {
       str \<leftarrow> cstr_at (wi_datasz w) d 0;
       (ok2, w2, s2) \<leftarrow> nss_mcdb_make_mcdbctl_write P (w1\<lparr>wi_dlen := length str, wi_tagc := 0, wi_key := []\<rparr>) s1;
       Some (ok2, b\<lparr>bd_w := w2, bd_nsw := nsw, bd_os := s2\<rparr>) } }"

text \<open>The body of the loop from the mapping on: whether it completed the database.\<close>

definition dbfile_fill ::
  "plasma_endian \<Rightarrow> nat \<Rightarrow> (nat \<Rightarrow> bytes option) \<Rightarrow> bytes \<Rightarrow> parser \<Rightarrow> flusher option \<Rightarrow> srcfile \<Rightarrow> builder \<Rightarrow>
    (bool \<times> builder) option" where
  "dbfile_fill P pagesize nsf input parse flush src b = do {
     (rc, m1, s1) \<leftarrow> mcdb_make_start pagesize (mk_fd (wi_m (bd_w b))) (bd_os b);
     let b1 = b\<lparr>bd_w := (bd_w b)\<lparr>wi_m := m1\<rparr>, bd_os := s1\<rparr>;
     if rc \<noteq> 0 then Some (False, b1)
     else do {
       (ok, b2) \<leftarrow> dbfile_nsswitch P pagesize nsf input b1;
       if \<not> ok then Some (False, b2)
       else do {
         (ok, b3) \<leftarrow> parse (map_ext pagesize (sf_bytes src)) (map_mem (sf_bytes src)) b2;
         (ok, b4) \<leftarrow> (if \<not> ok then Some (False, b3) else case flush of None \<Rightarrow> Some (True, b3) | Some fl \<Rightarrow> fl b3);
         if \<not> ok then Some (False, b4)
         else do {
           (rc, m5, s5) \<leftarrow> mcdb_make_finish P (wi_m (bd_w b4)) (bd_os b4);
           Some (rc = 0, b4\<lparr>bd_w := (bd_w b4)\<lparr>wi_m := m5\<rparr>, bd_os := s5\<rparr>) } } } }"

text \<open>
  The loop.  \<^term>\<open>cur\<close> is the input file that is open, with whether it is mapped; the result is
  \<^verbatim>\<open>rc\<close>, what is open at the end, and the state.  An input that changes for ever is parsed for ever.
\<close>

partial_function (option) dbfile_loop ::
  "plasma_endian \<Rightarrow> nat \<Rightarrow> (nat \<Rightarrow> srcfile option) \<Rightarrow> (nat \<Rightarrow> bytes option) \<Rightarrow> bytes \<Rightarrow> parser \<Rightarrow> flusher option \<Rightarrow>
    bool \<Rightarrow> builder \<Rightarrow> (bool \<times> bool \<times> bool \<times> builder) option" where
  "dbfile_loop P pagesize inp nsf input parse flush again b0 = do {
     let (ok, b) =
       (if \<not> again then (True, b0)
        else
          (let b1 = snd (bd_call b0);                                                       \<comment> \<open>munmap\<close>
               (ok, b2) = bd_call b1                                                        \<comment> \<open>close\<close>
           in if \<not> ok then (False, b2)
              else (let (ok, s) = os_lseek 0 (bd_os b2) in (ok, b2\<lparr>bd_os := s\<rparr>))));
     if \<not> ok then Some (False, True, False, b)
     else
       (let there = inp (o_step (bd_os b)); (ok, b1) = bd_call b                            \<comment> \<open>open\<close>
        in if \<not> ok then Some (False, False, False, b1)
           else case there of
             None \<Rightarrow> Some (False, False, False, b1\<lparr>bd_os := (bd_os b1)\<lparr>o_errno := ENOENT\<rparr>\<rparr>)
           | Some src \<Rightarrow>
               (let (ok, b2) = bd_call b1                                                   \<comment> \<open>fstat\<close>
                in if \<not> ok then Some (False, True, False, b2)
                   else
                     (let (ok, b3) = bd_call b2                                             \<comment> \<open>mmap\<close>
                      in if \<not> ok then Some (False, True, False, b3)
                         else if sf_bytes src = [] then Some (False, True, False, b3\<lparr>bd_os := (bd_os b3)\<lparr>o_errno := EINVAL\<rparr>\<rparr>)
                         else do {
                           (rc, b4) \<leftarrow> dbfile_fill P pagesize nsf input parse flush src b3;
                           if \<not> rc then Some (False, True, True, b4)
                           else
                             (let now = inp (o_step (bd_os b4)); (ok, b5) = bd_call b4      \<comment> \<open>stat\<close>
                              in if \<not> ok then Some (True, True, True, b5)
                                 else case now of
                                   None \<Rightarrow> Some (True, True, True, b5\<lparr>bd_os := (bd_os b5)\<lparr>o_errno := ENOENT\<rparr>\<rparr>)
                                 | Some st \<Rightarrow>
                                     (if sf_ino src \<noteq> sf_ino st \<or> length (sf_bytes src) \<noteq> length (sf_bytes st) \<or>
                                         sf_mtime src \<noteq> sf_mtime st
                                      then dbfile_loop P pagesize inp nsf input parse flush True b5
                                      else Some (True, True, True, b5))) }))) }"

definition nss_mcdb_make_dbfile ::
  "plasma_endian \<Rightarrow> nat \<Rightarrow> (nat \<Rightarrow> srcfile option) \<Rightarrow> (nat \<Rightarrow> bytes option) \<Rightarrow> bytes \<Rightarrow> parser \<Rightarrow> flusher option \<Rightarrow>
    builder \<Rightarrow> (bool \<times> builder) option" where
  "nss_mcdb_make_dbfile P pagesize inp nsf input parse flush b0 = do {
     (rc, fd, map, b) \<leftarrow> dbfile_loop P pagesize inp nsf input parse flush False b0;
     (_, m1, s1) \<leftarrow> mcdb_make_destroy (wi_m (bd_w b)) (bd_os b);
     let errsave = o_errno s1;
     let s2 = (if map then snd (ext_call s1) else s1);                                      \<comment> \<open>munmap\<close>
     let (ok, s3) = (if fd then ext_call s2 else (True, s2));                               \<comment> \<open>close\<close>
     Some (rc \<and> ok, b\<lparr>bd_w := (bd_w b)\<lparr>wi_m := m1\<rparr>,
        bd_os := (if errsave \<noteq> 0 then s3\<lparr>o_errno := errsave\<rparr> else s3)\<rparr>) }"

subsection \<open>The two databases\<close>

definition passwd_enc :: "plasma_endian \<Rightarrow> bytes passwd \<Rightarrow> builder \<Rightarrow> (bool \<times> builder) option" where
  "passwd_enc P pw b = do {
     (ok, w, s) \<leftarrow> nss_mcdb_acct_make_passwd_encode P pw (bd_w b) (bd_os b);
     Some (ok, b\<lparr>bd_w := w, bd_os := s\<rparr>) }"

definition group_enc :: "plasma_endian \<Rightarrow> nat \<Rightarrow> (bytes, bytes list) group_ent \<Rightarrow> builder \<Rightarrow> (bool \<times> builder) option" where
  "group_enc P sc gr b = do {
     (ok, (w, g), s) \<leftarrow> nss_mcdb_acct_make_group_encode P sc gr (bd_w b, bd_g b) (bd_os b);
     Some (ok, b\<lparr>bd_w := w, bd_g := g, bd_os := s\<rparr>) }"

definition group_fl :: "plasma_endian \<Rightarrow> int \<Rightarrow> builder \<Rightarrow> (bool \<times> builder) option" where
  "group_fl P sc_ngroups b = do {
     (ok, w, g, s) \<leftarrow> nss_mcdb_acct_make_group_flush P sc_ngroups (bd_w b) (bd_g b) (bd_os b);
     Some (ok, b\<lparr>bd_w := w, bd_g := g, bd_os := s\<rparr>) }"

text \<open>The calls that the builder program makes for /etc/passwd and /etc/group.\<close>

definition make_passwd_db ::
  "plasma_endian \<Rightarrow> nat \<Rightarrow> (nat \<Rightarrow> srcfile option) \<Rightarrow> (nat \<Rightarrow> bytes option) \<Rightarrow> bytes \<Rightarrow> builder \<Rightarrow> (bool \<times> builder) option" where
  "make_passwd_db P pagesize inp nsf input b =
     nss_mcdb_make_dbfile P pagesize inp nsf input
       (\<lambda>ext f. nss_mcdb_acct_make_passwd_parse (passwd_enc P) ext 0 f) None b"

definition make_group_db ::
  "plasma_endian \<Rightarrow> nat \<Rightarrow> nat \<Rightarrow> int \<Rightarrow> (nat \<Rightarrow> srcfile option) \<Rightarrow> (nat \<Rightarrow> bytes option) \<Rightarrow> bytes \<Rightarrow> builder \<Rightarrow>
    (bool \<times> builder) option" where
  "make_group_db P pagesize sc sc_ngroups inp nsf input b =
     nss_mcdb_make_dbfile P pagesize inp nsf input
       (\<lambda>ext f. nss_mcdb_acct_make_group_parse (group_enc P sc) sc_ngroups ext 0 f)
       (Some (group_fl P sc_ngroups)) b"

end
