(* ===== verification/Nss_Make_Proofs.thy ===== *)
theory Nss_Make_Proofs
  imports Nss_Make Nss_Passwd_Proofs Makefmt_Proofs
begin

text \<open>
  Making the passwd database: writing a tagged record is adding a record whose key starts with
  the tag, an entry is two records, and a file of entries becomes the database of their records.
\<close>

subsection \<open>Writing a tagged record\<close>

lemma mk_access_hp [simp]: "mk_access (m\<lparr>mk_hp := h\<rparr>) w a n = mk_access m w a n"
  "mk_access (m\<lparr>mk_pos := p\<rparr>) w a n = mk_access m w a n" "mk_access m (w\<lparr>o_file := f\<rparr>) a n = mk_access m w a n"
  by (simp_all add: mk_access_def)

lemma addbuf_key_pieces:
  assumes "hash_pieces m"
  shows "do { (m2, w2) \<leftarrow> mcdb_make_addbuf_key m xs w; mcdb_make_addbuf_key m2 ys w2 } = mcdb_make_addbuf_key m (xs @ ys) w"
proof (cases "mk_access m w (mk_pos m) (length xs)")
  case False
  then have "\<not> mk_access m w (mk_pos m) (length (xs @ ys))" unfolding mk_access_def by auto
  with False show ?thesis
    by (simp add: mcdb_make_addbuf_key_def mcdb_make_addbuf_data_def mk_store_def)
next
  case True
  then have "mk_access m w (mk_pos m + length xs) (length ys) = mk_access m w (mk_pos m) (length xs + length ys)"
    unfolding mk_access_def by auto
  with True assms show ?thesis
    by (simp add: mcdb_make_addbuf_key_def mcdb_make_addbuf_data_def mk_store_def hash_pieces_def mem_upd_append add.assoc)
qed

definition w_data :: "winfo \<Rightarrow> bytes" where
  "w_data w = mem_slice (wi_data w) 0 (wi_dlen w)"

text \<open>\<^verbatim>\<open>nss_mcdb_make_mcdbctl_write\<close> against \<^verbatim>\<open>mcdb_make_add\<close>.\<close>

lemma write_eq_add:
  assumes "hash_pieces (wi_m w)" "wi_dlen w \<le> wi_datasz w"
  shows "nss_mcdb_make_mcdbctl_write P w s =
    map_option (\<lambda>(rc, m, s'). (rc = 0, w\<lparr>wi_m := m\<rparr>, s')) (mcdb_make_add P (wi_m w) (wi_tagc w # wi_key w) (w_data w) s)"
proof (cases "mcdb_make_addbegin P (wi_m w) (length (wi_key w) + 1) (wi_dlen w) s")
  case None
  then show ?thesis by (simp add: nss_mcdb_make_mcdbctl_write_def mcdb_make_add_def w_data_def)
next
  case (Some r)
  obtain rc m1 s1 where r: "r = (rc, m1, s1)" by (metis prod_cases3)
  have h1: "hash_pieces m1"
    using addbegin_hash_fn [OF Some [unfolded r]] assms(1) hash_pieces_cong by blast
  have key: "(do { (m2, w2) \<leftarrow> mcdb_make_addbuf_key m1 [wi_tagc w] s1; mcdb_make_addbuf_key m2 (wi_key w) w2 }) =
      mcdb_make_addbuf_key m1 (wi_tagc w # wi_key w) s1"
    using addbuf_key_pieces [OF h1, of "[wi_tagc w]" s1 "wi_key w"] by simp
  have step: "(do { (m2, w2) \<leftarrow> mcdb_make_addbuf_key m1 [wi_tagc w] s1; (m3, w3) \<leftarrow> mcdb_make_addbuf_key m2 (wi_key w) w2; k m3 w3 }) =
      (do { (m3, w3) \<leftarrow> mcdb_make_addbuf_key m1 (wi_tagc w # wi_key w) s1; k m3 w3 })" for k :: "mcdb_make \<Rightarrow> os \<Rightarrow> (bool \<times> winfo \<times> os) option"
    unfolding key [symmetric] by (cases "mcdb_make_addbuf_key m1 [wi_tagc w] s1") (auto split: prod.split)
  have dat: "buf_load (wi_datasz w) 0 (wi_dlen w) (wi_data w) = Some (w_data w)"
    using assms(2) by (simp add: buf_load_def w_data_def)
  show ?thesis
  proof (cases "rc = 0")
    case True
    have "nss_mcdb_make_mcdbctl_write P w s = do {
       (m3, s3) \<leftarrow> mcdb_make_addbuf_key m1 (wi_tagc w # wi_key w) s1;
       (m4, s4) \<leftarrow> mcdb_make_addbuf_data m3 (w_data w) s3;
       m5 \<leftarrow> mcdb_make_addend m4;
       Some (True, w\<lparr>wi_m := m5\<rparr>, s4) }"
      using Some r True by (simp add: nss_mcdb_make_mcdbctl_write_def dat step)
    moreover have "mcdb_make_add P (wi_m w) (wi_tagc w # wi_key w) (w_data w) s = do {
       (m3, s3) \<leftarrow> mcdb_make_addbuf_key m1 (wi_tagc w # wi_key w) s1;
       (m4, s4) \<leftarrow> mcdb_make_addbuf_data m3 (w_data w) s3;
       m5 \<leftarrow> mcdb_make_addend m4;
       Some (0, m5, s4) }"
      using Some r True by (simp add: mcdb_make_add_def w_data_def)
    ultimately show ?thesis
      by (cases "mcdb_make_addbuf_key m1 (wi_tagc w # wi_key w) s1")
        (auto simp: map_conv_bind_option Option.bind_assoc comp_def case_prod_unfold)
  next
    case False
    then have "rc = -1" using Some r
      by (auto simp: mcdb_make_addbegin_def mcdb_make_err_null_def Let_def bind_eq_Some_conv split: prod.splits if_splits)
    then show ?thesis using Some r False by (simp add: nss_mcdb_make_mcdbctl_write_def mcdb_make_add_def w_data_def)
  qed
qed

subsection \<open>The builder between two records\<close>

lemma make_inv_os:
  "make_inv pk hf base recs m w \<Longrightarrow> o_file w' = o_file w \<Longrightarrow> o_flen w' = o_flen w \<Longrightarrow> o_live w' = o_live w \<Longrightarrow>
   make_inv pk hf base recs m w'"
  by (auto simp: make_inv_def window_def mk_sized_def owns_blocks_def)

definition built :: "nat \<Rightarrow> nat multiset \<Rightarrow> kv list \<Rightarrow> winfo \<Rightarrow> os \<Rightarrow> bool" where
  "built pk base recs w s \<longleftrightarrow> make_inv pk djb_hash base recs (wi_m w) s \<and> mk_hash_fn (wi_m w) = Hash_djb"

text \<open>Limits of the writer that a list of records respects.\<close>

definition recs_fit :: "kv list \<Rightarrow> bool" where
  "recs_fit recs \<longleftrightarrow> data_end recs < 2 ^ 62 \<and> length recs < INT_MAX \<and>
     (\<forall>r \<in> set recs. length (fst r) \<le> INT_MAX - 8 \<and> length (snd r) \<le> INT_MAX - 8)"

lemma recs_fit_prefix: "recs_fit (xs @ ys) \<Longrightarrow> recs_fit xs"
  by (auto simp: recs_fit_def data_end_def data_bytes_append)

lemma write_built:
  assumes P: "plasma_bigendian P" and pk: "pk \<le> 30" and b: "built pk base recs w s" and sz: "wi_dlen w \<le> wi_datasz w"
    and fit: "recs_fit (recs @ [(wi_tagc w # wi_key w, w_data w)])" and will: "os_willing s"
  shows "\<exists>m s'. nss_mcdb_make_mcdbctl_write P w s = Some (True, w\<lparr>wi_m := m\<rparr>, s') \<and> os_willing s' \<and>
    built pk base (recs @ [(wi_tagc w # wi_key w, w_data w)]) (w\<lparr>wi_m := m\<rparr>) s'"
proof -
  let ?k = "wi_tagc w # wi_key w" and ?d = "w_data w"
  have inv: "make_inv pk djb_hash base recs (wi_m w) s" and h: "mk_hash_fn (wi_m w) = Hash_djb"
    using b by (simp_all add: built_def)
  have lim: "length ?k \<le> INT_MAX - 8" "length ?d \<le> INT_MAX - 8" "length recs < INT_MAX" "data_end recs + rec_len (?k, ?d) < 2 ^ 62"
    using fit by (simp_all add: recs_fit_def data_end_snoc)
  obtain rc m s' where a: "mcdb_make_add P (wi_m w) ?k ?d s = Some (rc, m, s')" "os_same s s'"
      "rc = 0 \<and> length ?k \<le> INT_MAX - 8 \<and> length ?d \<le> INT_MAX - 8 \<and> make_inv pk djb_hash base (recs @ [(?k, ?d)]) m s' \<or> rc = -1"
      "os_willing s \<and> length recs < INT_MAX \<and> length ?k \<le> INT_MAX - 8 \<and> length ?d \<le> INT_MAX - 8 \<longrightarrow> rc = 0"
    using add_props [OF P inv pk lim(4)] by blast
  have "rc = 0" using a(4) will lim by simp
  moreover have "mk_hash_fn m = Hash_djb" using add_hash_fn [OF a(1)] h by simp
  moreover have "os_willing s'" using os_willing_same [OF a(2)] will by simp
  ultimately show ?thesis
    using write_eq_add [OF hash_djb_pieces [OF h] sz, of P s] a(1,3)
    by (intro exI [of _ m] exI [of _ s']) (simp add: built_def)
qed

subsection \<open>The records of a passwd entry\<close>

definition passwd_recs :: "bytes passwd \<Rightarrow> kv list" where
  "passwd_recs pw = [(61 # pw_name pw, butlast (passwd_image pw)), (120 # htonl (pw_uid pw), butlast (passwd_image pw))]"

lemma built_data: "built pk base recs w s \<Longrightarrow> wi_m w' = wi_m w \<Longrightarrow> o_file s' = o_file s \<Longrightarrow> o_flen s' = o_flen s \<Longrightarrow>
    o_live s' = o_live s \<Longrightarrow> built pk base recs w' s'"
  unfolding built_def by (auto intro: make_inv_os)

lemma passwd_encode_built:
  assumes P: "plasma_bigendian P" and pk: "pk \<le> 30" and b: "built pk base recs w s" and will: "os_willing s"
    and fits: "passwd_fits (wi_datasz w) pw" and lim: "recs_fit (recs @ passwd_recs pw)"
  shows "\<exists>w' s'. nss_mcdb_acct_make_passwd_encode P pw w s = Some (True, w', s') \<and> os_willing s' \<and>
    wi_datasz w' = wi_datasz w \<and> built pk base (recs @ passwd_recs pw) w' s'"
proof -
  define dl where "dl = length (passwd_image pw) - 1"
  define w1 where "w1 = w\<lparr>wi_data := mem_upd (wi_data w) 0 (passwd_image pw), wi_dlen := dl, wi_tagc := 61, wi_key := pw_name pw\<rparr>"
  have dl: "0 < dl" "dl \<le> wi_datasz w"
    using fits by (simp_all add: dl_def passwd_fits_def length_passwd_image NSS_PW_HDRSZ_def)
  have dat: "w_data (w1\<lparr>wi_m := m, wi_tagc := t, wi_key := k\<rparr>) = butlast (passwd_image pw)" for m t k
    using take_mem_slice [of dl "length (passwd_image pw)" "mem_upd (wi_data w) 0 (passwd_image pw)" 0]
    by (simp add: w_data_def w1_def dl_def butlast_conv_take)
  have dat1: "w_data w1 = butlast (passwd_image pw)" using dat [where m = "wi_m w1" and t = "wi_tagc w1" and k = "wi_key w1"] by simp
  have sd: "s\<lparr>o_errno := o_errno s\<rparr> = s" by simp
  have b1: "built pk base recs w1 s" using b by (rule built_data) (simp_all add: w1_def)
  have r2: "passwd_recs pw = [(wi_tagc w1 # wi_key w1, w_data w1)] @ [(120 # htonl (pw_uid pw), butlast (passwd_image pw))]"
    by (simp add: passwd_recs_def dat1) (simp add: w1_def)
  have lim1: "recs_fit (recs @ [(wi_tagc w1 # wi_key w1, w_data w1)])"
    using lim unfolding r2 append_assoc [symmetric] by (rule recs_fit_prefix)
  have "wi_dlen w1 \<le> wi_datasz w1" using dl by (simp add: w1_def)
  from write_built [OF P pk b1 this lim1 will] obtain m2 s2 where
    w2: "nss_mcdb_make_mcdbctl_write P w1 s = Some (True, w1\<lparr>wi_m := m2\<rparr>, s2)" "os_willing s2"
      "built pk base (recs @ [(wi_tagc w1 # wi_key w1, w_data w1)]) (w1\<lparr>wi_m := m2\<rparr>) s2" by blast
  define w3 where "w3 = w1\<lparr>wi_m := m2, wi_tagc := 120, wi_key := htonl (pw_uid pw)\<rparr>"
  have b3: "built pk base (recs @ [(wi_tagc w1 # wi_key w1, w_data w1)]) w3 s2"
    using w2(3) by (rule built_data) (simp_all add: w3_def)
  have e3: "(wi_tagc w3 # wi_key w3, w_data w3) = (120 # htonl (pw_uid pw), butlast (passwd_image pw))"
    using dat [where m = m2 and t = 120 and k = "htonl (pw_uid pw)"] by (simp add: w3_def)
  have lim3: "recs_fit ((recs @ [(wi_tagc w1 # wi_key w1, w_data w1)]) @ [(wi_tagc w3 # wi_key w3, w_data w3)])"
    using lim unfolding r2 e3 by simp
  have "wi_dlen w3 \<le> wi_datasz w3" using dl by (simp add: w3_def w1_def)
  from write_built [OF P pk b3 this lim3 w2(2)] obtain m4 s4 where
    w4: "nss_mcdb_make_mcdbctl_write P w3 s2 = Some (True, w3\<lparr>wi_m := m4\<rparr>, s4)" "os_willing s4"
      "built pk base ((recs @ [(wi_tagc w1 # wi_key w1, w_data w1)]) @ [(wi_tagc w3 # wi_key w3, w_data w3)]) (w3\<lparr>wi_m := m4\<rparr>) s4"
    by blast
  have enc: "nss_mcdb_acct_make_passwd_datastr (wi_datasz w) (wi_data w) pw (o_errno s) =
      Some (dl, mem_upd (wi_data w) 0 (passwd_image pw), o_errno s)"
    using fits by (simp add: passwd_datastr_eq dl_def)
  have "nss_mcdb_acct_make_passwd_encode P pw w s = Some (True, w3\<lparr>wi_m := m4\<rparr>, s4)"
    using dl w2(1) w4(1) by (simp add: nss_mcdb_acct_make_passwd_encode_def enc write_tagged_def w1_def w3_def)
  moreover have "built pk base (recs @ passwd_recs pw) (w3\<lparr>wi_m := m4\<rparr>) s4"
    using w4(3) unfolding r2 e3 by simp
  ultimately show ?thesis using w4(2) by (intro exI [of _ "w3\<lparr>wi_m := m4\<rparr>"] exI [of _ s4]) (simp add: w3_def w1_def)
qed

end
