(* ===== verification/Nss_Parse_Proofs.thy ===== *)
theory Nss_Parse_Proofs
  imports Nss_Acct_Make Nss_Passwd_Proofs
begin

text \<open>
  The parsers of /etc/passwd and /etc/group against printing: a file of printed entries is
  parsed into exactly these entries, each passed to the encoder in order.
\<close>

subsection \<open>Fields\<close>

text \<open>A string that can be a field.\<close>

definition fld :: "bytes \<Rightarrow> bool" where
  "fld s \<longleftrightarrow> 58 \<notin> set s \<and> 10 \<notin> set s \<and> 0 \<notin> set s"

lemma fld_cstr: "fld s \<Longrightarrow> cstr_ok s"
  by (simp add: fld_def cstr_ok_def)

lemma tok_end_at:
  "set s \<inter> set stops = {} \<Longrightarrow> d \<in> set stops \<Longrightarrow> mem_slice f b (Suc (length s)) = s @ [d] \<Longrightarrow> b + length s < ext \<Longrightarrow>
   tok_end stops ext f b = Some (b + length s)"
proof (induction s arbitrary: b)
  case Nil
  then have "f b = d" by (simp add: mem_slice_def)
  with Nil show ?case by (simp add: tok_end.simps)
next
  case (Cons c s)
  have split: "mem_slice f b (Suc (Suc (length s))) = f b # mem_slice f (Suc b) (Suc (length s))"
    using mem_slice_add [of f b 1 "Suc (length s)"] by (simp add: mem_slice_def)
  then have "f b = c" "mem_slice f (Suc b) (Suc (length s)) = s @ [d]" using Cons.prems(3) by simp_all
  then show ?case using Cons.IH [of "Suc b"] Cons.prems by (simp add: tok_end.simps [of stops ext f b])
qed

lemma slice_piece:
  assumes "mem_slice f p (length (xs @ ys @ zs)) = xs @ ys @ zs"
  shows "mem_slice f (p + length xs) (length ys) = ys"
proof -
  have "mem_slice f (p + length xs) (length ys) = take (length ys) (drop (length xs) (mem_slice f p (length (xs @ ys @ zs))))"
    by (simp add: drop_mem_slice take_mem_slice)
  then show ?thesis by (simp only: assms) simp
qed

lemma slice_set:
  assumes "mem_slice f p n = xs @ d # zs" "n = length (xs @ d # zs)"
  shows "mem_slice (f(p + length xs := c)) p n = xs @ c # zs"
proof (rule nth_equalityI)
  show "length (mem_slice (f(p + length xs := c)) p n) = length (xs @ c # zs)" using assms(2) by simp
  fix i assume "i < length (mem_slice (f(p + length xs := c)) p n)"
  then have i: "i < n" by simp
  then have "f (p + i) = (xs @ d # zs) ! i" using assms(1) nth_mem_slice [of i n f p] by simp
  then show "mem_slice (f(p + length xs := c)) p n ! i = (xs @ c # zs) ! i"
    using i by (auto simp: nth_append nth_Cons split: nat.split)
qed

text \<open>
  The line in memory while it is parsed: the fields \<^term>\<open>dn\<close> are terminated by NUL already,
  \<^term>\<open>todo\<close> is the rest of the line.
\<close>

definition line_state :: "nat \<Rightarrow> nat \<Rightarrow> bytes list \<Rightarrow> bytes \<Rightarrow> nat \<Rightarrow> mem \<Rightarrow> mem \<Rightarrow> bool" where
  "line_state ext p dn todo n f0 f \<longleftrightarrow> n = length (concat (map cz dn) @ todo) \<and> p + n \<le> ext \<and>
     mem_slice f p n = concat (map cz dn) @ todo \<and> (\<forall>i \<ge> p + n. f i = f0 i)"

definition fpos :: "nat \<Rightarrow> bytes list \<Rightarrow> nat" where
  "fpos p dn = p + length (concat (map cz dn))"

lemma fpos_snoc: "fpos p (dn @ [s]) = Suc (fpos p dn + length s)"
  by (simp add: fpos_def)

lemma fpos_Nil [simp]: "fpos p [] = p"
  by (simp add: fpos_def)

lemma colon_field_step:
  assumes "line_state ext p dn (s @ d # todo) n f0 f" "fld s" "d = 58 \<or> d = 10" "ne \<Longrightarrow> s \<noteq> []"
  shows "\<exists>f'. colon_field ext ne d (fpos p dn) f = Some (Some (fpos p dn + length s, f')) \<and>
    line_state ext p (dn @ [s]) todo n f0 f'"
proof -
  let ?b = "fpos p dn"
  let ?pre = "concat (map cz dn)"
  have n: "n = length (?pre @ s @ d # todo)" "p + n \<le> ext" "mem_slice f p n = ?pre @ s @ d # todo" "\<forall>i \<ge> p + n. f i = f0 i"
    using assms(1) unfolding line_state_def by blast+
  have sl: "mem_slice f ?b (length (s @ [d])) = s @ [d]"
    unfolding fpos_def by (rule slice_piece [where zs = todo]) (use n in simp)
  have te: "TOKEN_COLONDELIM_END ext f ?b = Some (?b + length s)"
    unfolding TOKEN_COLONDELIM_END_def
    by (rule tok_end_at [of _ _ d]) (use assms(2,3) sl n in \<open>auto simp: fld_def fpos_def\<close>)
  have at: "f (?b + i) = (s @ [d]) ! i" if "i < length (s @ [d])" for i
    using nth_mem_slice [OF that, of f ?b] unfolding sl by simp
  have d: "f (?b + length s) = d" using at [of "length s"] by simp
  have c: "ne \<longrightarrow> f ?b \<noteq> 58"
  proof
    assume ne
    then obtain c0 s' where s: "s = c0 # s'" using assms(4) by (cases s) auto
    then have "f ?b = c0" using at [of 0] by simp
    then show "f ?b \<noteq> 58" using assms(2) s by (auto simp: fld_def)
  qed
  let ?f' = "f(?b + length s := 0)"
  have "mem_slice (f(p + length (?pre @ s) := 0)) p n = (?pre @ s) @ 0 # todo"
    by (rule slice_set [where d = d]) (use n in simp_all)
  then have "line_state ext p (dn @ [s]) todo n f0 ?f'"
    using n by (simp add: line_state_def fpos_def cz_def add.assoc)
  moreover have "colon_field ext ne d ?b f = Some (Some (?b + length s, ?f'))"
    using te d c n by (auto simp: colon_field_def text_at_def fpos_def)
  ultimately show ?thesis by blast
qed

text \<open>The fields that have been terminated, as strings.\<close>

lemma line_state_str:
  assumes "line_state ext p dn todo n f0 f" "k < length dn" "cstr_ok (dn ! k)"
  shows "cstr_at ext f (fpos p (take k dn)) = Some (dn ! k)"
proof -
  have "mem_slice f p (length (concat (map cz dn) @ todo)) = concat (map cz dn) @ todo"
    using assms(1) unfolding line_state_def by metis
  then have sl: "mem_slice f p (length (concat (map cz dn))) = concat (map cz dn)"
    using take_mem_slice [of "length (concat (map cz dn))" "length (concat (map cz dn) @ todo)" f p] by simp
  have "p + str_off dn k + length (cz (dn ! k)) \<le> ext"
    using str_off_end [OF assms(2)] assms(1) unfolding line_state_def by simp
  then have "cstr_at ext f (p + str_off dn k) = Some (dn ! k)"
    by (rule cstr_at_slice [OF assms(3) _ str_in_concat [OF assms(2) sl]])
  then show ?thesis by (simp add: fpos_def str_off_def)
qed

subsection \<open>Numbers\<close>

lemma digit_not: "is_digit c \<Longrightarrow> c \<noteq> 58 \<and> c \<noteq> 10 \<and> c \<noteq> 0 \<and> c \<noteq> 45 \<and> c \<noteq> 43 \<and> \<not> c_isspace c"
  by (auto simp: is_digit_def c_isspace_def word_le_nat_alt)

lemma dec_digits_fld: "fld (dec_digits n)"
  using dec_digits_digits digit_not unfolding fld_def by blast

lemma strtol10_dec: "n < 2 ^ 63 \<Longrightarrow> strtol10 (dec_digits n) = (int n, length (dec_digits n), False)"
proof -
  assume n: "n < 2 ^ 63"
  obtain c s where s: "dec_digits n = c # s" by (cases "dec_digits n") auto
  have dig: "\<forall>x \<in> set (dec_digits n). is_digit x" using dec_digits_digits by blast
  then have c: "is_digit c" using s by simp
  have "takeWhile c_isspace (dec_digits n) = []" using digit_not [OF c] s by simp
  moreover have "takeWhile is_digit (dec_digits n) = dec_digits n" using dig by simp
  moreover have "hd (dec_digits n) \<noteq> 45" "hd (dec_digits n) \<noteq> 43" using digit_not [OF c] s by simp_all
  moreover have "int n \<le> LONG_MAX" "LONG_MIN \<le> int n" using n by (simp_all add: LONG_MAX_def LONG_MIN_def)
  ultimately show ?thesis by (simp add: strtol10_def Let_def del: takeWhile_eq_all_conv)
qed

lemma id_of_str_dec:
  assumes "i \<noteq> -1"
  shows "id_of_str (dec_digits (unat i)) = Some i"
proof -
  have "strtol10 (dec_digits (unat i)) = (int (unat i), length (dec_digits (unat i)), False)"
    using unat_u32_less [of i] by (intro strtol10_dec) simp
  moreover have "word_of_int (int (unat i)) = i" by simp
  ultimately show ?thesis using assms by (simp add: id_of_str_def Let_def del: of_int_of_nat_eq)
qed

lemma id_field_step:
  assumes "line_state ext p dn (dec_digits (unat i) @ 58 # todo) n f0 f" "i \<noteq> -1"
  shows "\<exists>f'. id_field ext (fpos p dn) f = Some (Some (i, fpos p dn + length (dec_digits (unat i)), f')) \<and>
    line_state ext p (dn @ [dec_digits (unat i)]) todo n f0 f'"
proof -
  let ?s = "dec_digits (unat i)"
  obtain f' where f': "colon_field ext True 58 (fpos p dn) f = Some (Some (fpos p dn + length ?s, f'))"
      "line_state ext p (dn @ [?s]) todo n f0 f'"
    using colon_field_step [OF assms(1) dec_digits_fld, of True] by auto
  have "cstr_at ext f' (fpos p dn) = Some ?s"
    using line_state_str [OF f'(2), of "length dn"] fld_cstr [OF dec_digits_fld] by simp
  then show ?thesis using f' id_of_str_dec [OF assms(2)]
    by (intro exI [of _ f']) (simp add: id_field_def and_then_def)
qed

subsection \<open>passwd lines\<close>

definition passwd_fields :: "bytes passwd \<Rightarrow> bytes list" where
  "passwd_fields pw = [pw_name pw, pw_passwd pw, dec_digits (unat (pw_uid pw)), dec_digits (unat (pw_gid pw)),
     pw_gecos pw, pw_dir pw, pw_shell pw]"

definition print_passwd :: "bytes passwd \<Rightarrow> bytes" where
  "print_passwd pw = pw_name pw @ 58 # pw_passwd pw @ 58 # dec_digits (unat (pw_uid pw)) @ 58 # dec_digits (unat (pw_gid pw)) @ 58 #
     pw_gecos pw @ 58 # pw_dir pw @ 58 # pw_shell pw @ [10]"

text \<open>The entries that /etc/passwd can express.\<close>

definition passwd_printable :: "bytes passwd \<Rightarrow> bool" where
  "passwd_printable pw \<longleftrightarrow> (\<forall>s \<in> set (passwd_strs pw). fld s) \<and> pw_name pw \<noteq> [] \<and> pw_passwd pw \<noteq> [] \<and>
     hd (pw_name pw) \<noteq> 35 \<and> pw_uid pw \<noteq> -1 \<and> pw_gid pw \<noteq> -1"

lemma passwd_line_printed:
  assumes pr: "passwd_printable pw" and sl: "mem_slice f p (length (print_passwd pw)) = print_passwd pw"
    and ext: "p + length (print_passwd pw) \<le> ext"
  shows "\<exists>f'. passwd_line ext p f = Some (Some (pw, p + length (print_passwd pw) - 1, f')) \<and>
    (\<forall>i \<ge> p + length (print_passwd pw). f' i = f i)"
proof -
  let ?u = "dec_digits (unat (pw_uid pw))" and ?g = "dec_digits (unat (pw_gid pw))"
  let ?n = "length (print_passwd pw)"
  have fl: "fld (pw_name pw)" "fld (pw_passwd pw)" "fld (pw_gecos pw)" "fld (pw_dir pw)" "fld (pw_shell pw)"
    and ne: "pw_name pw \<noteq> []" "pw_passwd pw \<noteq> []" "pw_uid pw \<noteq> -1" "pw_gid pw \<noteq> -1"
    using pr by (simp_all add: passwd_printable_def passwd_strs_def)
  have s0: "line_state ext p [] (pw_name pw @ 58 # pw_passwd pw @ 58 # ?u @ 58 # ?g @ 58 #
     pw_gecos pw @ 58 # pw_dir pw @ 58 # pw_shell pw @ [10]) ?n f f"
    using sl ext by (simp add: line_state_def print_passwd_def)
  obtain f1 where 1: "colon_field ext True 58 p f = Some (Some (fpos p [] + length (pw_name pw), f1))"
      "line_state ext p ([] @ [pw_name pw]) (pw_passwd pw @ 58 # ?u @ 58 # ?g @ 58 # pw_gecos pw @ 58 # pw_dir pw @ 58 # pw_shell pw @ [10]) ?n f f1"
    using colon_field_step [OF s0 fl(1), of True] ne(1) by auto
  define d1 where "d1 = [pw_name pw]"
  have p1: "Suc (fpos p [] + length (pw_name pw)) = fpos p d1" using fpos_snoc [of p "[]"] by (simp add: d1_def)
  have l1: "line_state ext p d1 (pw_passwd pw @ 58 # ?u @ 58 # ?g @ 58 # pw_gecos pw @ 58 # pw_dir pw @ 58 # pw_shell pw @ [10]) ?n f f1"
    using 1(2) by (simp add: d1_def)
  obtain f2 where 2: "colon_field ext True 58 (fpos p d1) f1 = Some (Some (fpos p d1 + length (pw_passwd pw), f2))"
      "line_state ext p (d1 @ [pw_passwd pw]) (?u @ 58 # ?g @ 58 # pw_gecos pw @ 58 # pw_dir pw @ 58 # pw_shell pw @ [10]) ?n f f2"
    using colon_field_step [OF l1 fl(2), of True] ne(2) by auto
  define d2 where "d2 = d1 @ [pw_passwd pw]"
  obtain f3 where 3: "id_field ext (fpos p d2) f2 = Some (Some (pw_uid pw, fpos p d2 + length ?u, f3))"
      "line_state ext p (d2 @ [?u]) (?g @ 58 # pw_gecos pw @ 58 # pw_dir pw @ 58 # pw_shell pw @ [10]) ?n f f3"
    using id_field_step [OF 2(2) ne(3)] by (auto simp: d2_def)
  define d3 where "d3 = d2 @ [?u]"
  obtain f4 where 4: "id_field ext (fpos p d3) f3 = Some (Some (pw_gid pw, fpos p d3 + length ?g, f4))"
      "line_state ext p (d3 @ [?g]) (pw_gecos pw @ 58 # pw_dir pw @ 58 # pw_shell pw @ [10]) ?n f f4"
    using id_field_step [OF 3(2) ne(4)] by (auto simp: d3_def)
  define d4 where "d4 = d3 @ [?g]"
  obtain f5 where 5: "colon_field ext False 58 (fpos p d4) f4 = Some (Some (fpos p d4 + length (pw_gecos pw), f5))"
      "line_state ext p (d4 @ [pw_gecos pw]) (pw_dir pw @ 58 # pw_shell pw @ [10]) ?n f f5"
    using colon_field_step [OF 4(2) fl(3), of False] by (auto simp: d4_def)
  define d5 where "d5 = d4 @ [pw_gecos pw]"
  obtain f6 where 6: "colon_field ext False 58 (fpos p d5) f5 = Some (Some (fpos p d5 + length (pw_dir pw), f6))"
      "line_state ext p (d5 @ [pw_dir pw]) (pw_shell pw @ [10]) ?n f f6"
    using colon_field_step [OF 5(2) fl(4), of False] by (auto simp: d5_def)
  define d6 where "d6 = d5 @ [pw_dir pw]"
  obtain f7 where 7: "colon_field ext False 10 (fpos p d6) f6 = Some (Some (fpos p d6 + length (pw_shell pw), f7))"
      "line_state ext p (d6 @ [pw_shell pw]) [] ?n f f7"
    using colon_field_step [OF 6(2) fl(5), of False] by (auto simp: d6_def)
  have pos: "Suc (fpos p d1 + length (pw_passwd pw)) = fpos p d2" "Suc (fpos p d2 + length ?u) = fpos p d3"
      "Suc (fpos p d3 + length ?g) = fpos p d4" "Suc (fpos p d4 + length (pw_gecos pw)) = fpos p d5"
      "Suc (fpos p d5 + length (pw_dir pw)) = fpos p d6"
    by (simp_all only: fpos_snoc d2_def d3_def d4_def d5_def d6_def)
  have all: "d6 @ [pw_shell pw] = passwd_fields pw"
    by (simp add: d6_def d5_def d4_def d3_def d2_def d1_def passwd_fields_def)
  have ls: "line_state ext p (passwd_fields pw) [] ?n f f7" using 7(2) all by simp
  note str = line_state_str [OF ls]
  have strs: "cstr_at ext f7 p = Some (pw_name pw)" "cstr_at ext f7 (fpos p d1) = Some (pw_passwd pw)"
      "cstr_at ext f7 (fpos p d4) = Some (pw_gecos pw)" "cstr_at ext f7 (fpos p d5) = Some (pw_dir pw)"
      "cstr_at ext f7 (fpos p d6) = Some (pw_shell pw)"
    using str [of 0] str [of 1] str [of 4] str [of 5] str [of 6] fl fld_cstr
    by (simp_all add: passwd_fields_def d6_def d5_def d4_def d3_def d2_def d1_def)
  have q: "fpos p d6 + length (pw_shell pw) = p + ?n - 1"
  proof -
    have "?n = length (concat (map cz (passwd_fields pw)))" using ls by (simp add: line_state_def)
    then show ?thesis by (simp add: all [symmetric] fpos_def)
  qed
  have "passwd_line ext p f = Some (Some (pw, fpos p d6 + length (pw_shell pw), f7))"
    unfolding passwd_line_def and_then_def
    by (simp only: 1(1) 2(1) 3(1) 4(1) 5(1) 6(1) 7(1) bind.bind_lunit option.case prod.case p1 pos strs) simp
  moreover have "\<forall>i \<ge> p + ?n. f7 i = f i" using ls by (simp add: line_state_def)
  ultimately show ?thesis using q by auto
qed

subsection \<open>A whole file\<close>

text \<open>The encoder on each entry in order, until it fails.\<close>

fun encode_all :: "('e \<Rightarrow> 's \<Rightarrow> (bool \<times> 's) option) \<Rightarrow> 'e list \<Rightarrow> 's \<Rightarrow> (bool \<times> 's) option" where
  "encode_all enc [] s = Some (True, s)"
| "encode_all enc (e # es) s = do { (ok, s1) \<leftarrow> enc e s; if ok then encode_all enc es s1 else Some (False, s1) }"

definition print_passwds :: "bytes passwd list \<Rightarrow> bytes" where
  "print_passwds pws = concat (map print_passwd pws)"

lemma print_passwd_Cons: "passwd_printable pw \<Longrightarrow> \<exists>c t. print_passwd pw = c # t \<and> c \<noteq> 0 \<and> c \<noteq> 35"
  by (cases "pw_name pw") (auto simp: passwd_printable_def print_passwd_def passwd_strs_def fld_def)

lemma passwd_parse_at:
  "\<forall>pw \<in> set pws. passwd_printable pw \<Longrightarrow> mem_slice f p (length (print_passwds pws)) = print_passwds pws \<Longrightarrow>
   f (p + length (print_passwds pws)) = 0 \<Longrightarrow> p + length (print_passwds pws) < ext \<Longrightarrow>
   nss_mcdb_acct_make_passwd_parse enc ext p f s = encode_all enc pws s"
proof (induction pws arbitrary: p f s)
  case Nil
  then show ?case by (simp add: nss_mcdb_acct_make_passwd_parse.simps text_at_def print_passwds_def)
next
  case (Cons pw pws)
  let ?l = "print_passwd pw" and ?r = "print_passwds pws"
  have pr: "passwd_printable pw" "\<forall>pw \<in> set pws. passwd_printable pw" using Cons.prems(1) by simp_all
  have tot: "print_passwds (pw # pws) = ?l @ ?r" by (simp add: print_passwds_def)
  have sl: "mem_slice f p (length ?l) = ?l" "mem_slice f (p + length ?l) (length ?r) = ?r"
    using slice_piece [of f p "[]" ?l ?r] slice_piece [of f p ?l ?r "[]"] Cons.prems(2) unfolding tot by simp_all
  have end0: "f (p + length ?l + length ?r) = 0" "p + length ?l + length ?r < ext"
    using Cons.prems(3,4) unfolding tot by (simp_all add: add.assoc)
  obtain c t where ct: "?l = c # t" "c \<noteq> 0" "c \<noteq> 35" using print_passwd_Cons [OF pr(1)] by blast
  then have fp: "f p = c" using sl(1) by (simp add: mem_slice_def upt_conv_Cons del: upt_Suc)
  have len: "0 < length ?l" using ct by simp
  obtain f' where f': "passwd_line ext p f = Some (Some (pw, p + length ?l - 1, f'))" "\<forall>i \<ge> p + length ?l. f' i = f i"
    using passwd_line_printed [OF pr(1) sl(1), of ext] end0 by auto
  have "mem_slice f' (p + length ?l) (length ?r) = ?r"
    using sl(2) mem_slice_eqI [of "p + length ?l" "length ?r" f' f] f'(2) by simp
  then have ih: "nss_mcdb_acct_make_passwd_parse enc ext (p + length ?l) f' s1 = encode_all enc pws s1" for s1
    by (rule Cons.IH [OF pr(2)]) (use f'(2) end0 in simp_all)
  have q: "Suc (p + length ?l - Suc 0) = p + length ?l" using len by simp
  show ?case
    using ct(2,3) fp f'(1) end0 q by (subst nss_mcdb_acct_make_passwd_parse.simps) (simp add: text_at_def ih cong: if_cong)
qed


subsection \<open>group lines\<close>

text \<open>A string that can be a member; a colon is allowed.\<close>

definition mem_fld :: "bytes \<Rightarrow> bool" where
  "mem_fld s \<longleftrightarrow> s \<noteq> [] \<and> 44 \<notin> set s \<and> 10 \<notin> set s \<and> 0 \<notin> set s"

fun join_comma :: "bytes list \<Rightarrow> bytes" where
  "join_comma [] = []"
| "join_comma [m] = m"
| "join_comma (m # n # ms) = m @ 44 # join_comma (n # ms)"

lemma mem_cstr: "mem_fld s \<Longrightarrow> cstr_ok s"
  by (simp add: mem_fld_def cstr_ok_def)

lemma line_state_at:
  assumes "line_state ext p dn (s @ d # todo) n f0 f"
  shows "mem_slice f (fpos p dn) (Suc (length s)) = s @ [d]" "fpos p dn + length s < ext"
    "i < Suc (length s) \<Longrightarrow> f (fpos p dn + i) = (s @ [d]) ! i"
proof -
  let ?b = "fpos p dn" and ?pre = "concat (map cz dn)"
  have n: "n = length (?pre @ s @ d # todo)" "p + n \<le> ext" "mem_slice f p n = ?pre @ s @ d # todo"
    using assms unfolding line_state_def by blast+
  have sl: "mem_slice f ?b (length (s @ [d])) = s @ [d]"
    unfolding fpos_def by (rule slice_piece [where zs = todo]) (use n in simp)
  then show "mem_slice f ?b (Suc (length s)) = s @ [d]" by simp
  show "?b + length s < ext" using n(1,2) by (simp add: fpos_def)
  assume "i < Suc (length s)"
  then show "f (?b + i) = (s @ [d]) ! i"
    using nth_mem_slice [of i "length (s @ [d])" f ?b] unfolding sl by simp
qed

lemma line_state_next:
  assumes "line_state ext p dn (s @ d # todo) n f0 f"
  shows "line_state ext p (dn @ [s]) todo n f0 (f(fpos p dn + length s := 0))"
proof -
  let ?pre = "concat (map cz dn)"
  have n: "n = length (?pre @ s @ d # todo)" "p + n \<le> ext" "mem_slice f p n = ?pre @ s @ d # todo" "\<forall>i \<ge> p + n. f i = f0 i"
    using assms unfolding line_state_def by blast+
  have "mem_slice (f(p + length (?pre @ s) := 0)) p n = (?pre @ s) @ 0 # todo"
    by (rule slice_set [where d = d]) (use n in simp_all)
  then show ?thesis using n by (simp add: line_state_def fpos_def cz_def add.assoc)
qed

lemma comma_end:
  assumes "line_state ext p dn (s @ d # todo) n f0 f" "mem_fld s" "d = 44 \<or> d = 10"
  shows "TOKEN_COMMADELIM_END ext f (fpos p dn) = Some (fpos p dn + length s)"
    "text_at ext f (fpos p dn + length s) = Some d" "\<exists>c. text_at ext f (fpos p dn) = Some c \<and> c \<noteq> 10"
proof -
  note a = line_state_at [OF assms(1)]
  show "TOKEN_COMMADELIM_END ext f (fpos p dn) = Some (fpos p dn + length s)"
    unfolding TOKEN_COMMADELIM_END_def
    by (rule tok_end_at [of _ _ d]) (use assms(2,3) a in \<open>auto simp: mem_fld_def\<close>)
  show "text_at ext f (fpos p dn + length s) = Some d" using a(2,3) by (simp add: text_at_def)
  obtain c s' where "s = c # s'" "c \<noteq> 10" using assms(2) by (cases s) (auto simp: mem_fld_def)
  then show "\<exists>c. text_at ext f (fpos p dn) = Some c \<and> c \<noteq> 10" using a(2) a(3) [of 0] by (simp add: text_at_def)
qed

lemma group_line_members_printed:
  "line_state ext p dn (join_comma ms @ [10]) n f0 f \<Longrightarrow> \<forall>m \<in> set ms. mem_fld m \<Longrightarrow> length acc + length ms \<le> nmax \<Longrightarrow>
   \<exists>q f' todo. group_line_members ext nmax acc (fpos p dn) f =
       Some (Some (acc @ map (\<lambda>k. fpos p (dn @ take k ms)) [0..<length ms], q, f')) \<and>
     Suc q = p + n \<and> line_state ext p (dn @ ms) todo n f0 f'"
proof (induction ms arbitrary: dn acc f)
  case Nil
  then have ls: "line_state ext p dn ([] @ 10 # []) n f0 f" by simp
  have "text_at ext f (fpos p dn) = Some 10" using line_state_at [OF ls] line_state_at(3) [OF ls, of 0] by (simp add: text_at_def)
  moreover have "Suc (fpos p dn) = p + n" using ls by (simp add: line_state_def fpos_def)
  ultimately show ?case using ls by (intro exI [of _ "fpos p dn"] exI [of _ f] exI [of _ "[10]"]) (simp add: group_line_members.simps)
next
  case (Cons m ms)
  have mf: "mem_fld m" "\<forall>m \<in> set ms. mem_fld m" using Cons.prems(2) by simp_all
  show ?case
  proof (cases ms)
    case Nil
    then have ls: "line_state ext p dn (m @ 10 # []) n f0 f" using Cons.prems(1) by simp
    obtain c where t: "TOKEN_COMMADELIM_END ext f (fpos p dn) = Some (fpos p dn + length m)"
        "text_at ext f (fpos p dn + length m) = Some 10" "text_at ext f (fpos p dn) = Some c" "c \<noteq> 10"
      using comma_end [OF ls mf(1)] by auto
    note nx = line_state_next [OF ls]
    have "Suc (fpos p dn + length m) = p + n" using ls by (simp add: line_state_def fpos_def)
    moreover have "group_line_members ext nmax acc (fpos p dn) f =
        Some (Some (acc @ [fpos p dn], fpos p dn + length m, f(fpos p dn + length m := 0)))"
      using t Cons.prems(3) Nil by (subst group_line_members.simps) simp
    ultimately show ?thesis using nx Nil by auto
  next
    case (Cons m' ms')
    then have ls: "line_state ext p dn (m @ 44 # (join_comma ms @ [10])) n f0 f" using Cons.prems(1) by simp
    obtain c where t: "TOKEN_COMMADELIM_END ext f (fpos p dn) = Some (fpos p dn + length m)"
        "text_at ext f (fpos p dn + length m) = Some 44" "text_at ext f (fpos p dn) = Some c" "c \<noteq> 10"
      using comma_end [OF ls mf(1)] by auto
    let ?f1 = "f(fpos p dn + length m := 0)"
    have nx: "line_state ext p (dn @ [m]) (join_comma ms @ [10]) n f0 ?f1" by (rule line_state_next [OF ls])
    have "length (acc @ [fpos p dn]) + length ms \<le> nmax" using Cons.prems(3) by simp
    from Cons.IH [OF nx mf(2) this] obtain q f' todo where ih:
      "group_line_members ext nmax (acc @ [fpos p dn]) (fpos p (dn @ [m])) ?f1 =
       Some (Some ((acc @ [fpos p dn]) @ map (\<lambda>k. fpos p ((dn @ [m]) @ take k ms)) [0..<length ms], q, f'))"
      "Suc q = p + n" "line_state ext p ((dn @ [m]) @ ms) todo n f0 f'" by blast
    have sp: "Suc (fpos p dn + length m) = fpos p (dn @ [m])" by (simp add: fpos_snoc)
    have lt: "length acc < nmax" using Cons.prems(3) by simp
    have "group_line_members ext nmax acc (fpos p dn) f = group_line_members ext nmax (acc @ [fpos p dn]) (fpos p (dn @ [m])) ?f1"
      using t lt by (subst group_line_members.simps) (simp add: sp)
    moreover have "acc @ map (\<lambda>k. fpos p (dn @ take k (m # ms))) [0..<length (m # ms)] =
        (acc @ [fpos p dn]) @ map (\<lambda>k. fpos p ((dn @ [m]) @ take k ms)) [0..<length ms]"
      by (simp only: upt_conv_Cons list.size list.map map_Suc_upt [symmetric] map_map) (simp add: comp_def upt_conv_Cons map_Suc_upt [symmetric] del: upt_Suc)
    ultimately show ?thesis using ih by (intro exI [of _ q] exI [of _ f'] exI [of _ todo]) simp
  qed
qed


definition print_group :: "(bytes, bytes list) group_ent \<Rightarrow> bytes" where
  "print_group gr = gr_name gr @ 58 # gr_passwd gr @ 58 # dec_digits (unat (gr_gid gr)) @ 58 # join_comma (gr_mem gr) @ [10]"

definition group_printable :: "nat \<Rightarrow> (bytes, bytes list) group_ent \<Rightarrow> bool" where
  "group_printable nmax gr \<longleftrightarrow> fld (gr_name gr) \<and> fld (gr_passwd gr) \<and> gr_name gr \<noteq> [] \<and> gr_passwd gr \<noteq> [] \<and>
     hd (gr_name gr) \<noteq> 35 \<and> gr_gid gr \<noteq> -1 \<and> (\<forall>m \<in> set (gr_mem gr). mem_fld m) \<and> length (gr_mem gr) \<le> nmax"

lemma cstrs_at_map:
  "\<forall>k \<in> set ks. cstr_at ext f (b k) = Some (g k) \<Longrightarrow> cstrs_at ext f (map b ks) = Some (map g ks)"
  by (induction ks) auto

lemma group_line_printed:
  assumes pr: "group_printable nmax gr" and sl: "mem_slice f p (length (print_group gr)) = print_group gr"
    and ext: "p + length (print_group gr) \<le> ext"
  shows "\<exists>f'. group_line ext nmax p f = Some (Some (gr, p + length (print_group gr) - 1, f')) \<and>
    (\<forall>i \<ge> p + length (print_group gr). f' i = f i)"
proof -
  let ?g = "dec_digits (unat (gr_gid gr))" and ?ms = "gr_mem gr"
  let ?n = "length (print_group gr)"
  have fl: "fld (gr_name gr)" "fld (gr_passwd gr)" "\<forall>m \<in> set ?ms. mem_fld m"
    and ne: "gr_name gr \<noteq> []" "gr_passwd gr \<noteq> []" "gr_gid gr \<noteq> -1" "length ?ms \<le> nmax"
    using pr by (simp_all add: group_printable_def)
  have s0: "line_state ext p [] (gr_name gr @ 58 # gr_passwd gr @ 58 # ?g @ 58 # join_comma ?ms @ [10]) ?n f f"
    using sl ext by (simp add: line_state_def print_group_def)
  obtain f1 where 1: "colon_field ext True 58 p f = Some (Some (fpos p [] + length (gr_name gr), f1))"
      "line_state ext p ([] @ [gr_name gr]) (gr_passwd gr @ 58 # ?g @ 58 # join_comma ?ms @ [10]) ?n f f1"
    using colon_field_step [OF s0 fl(1), of True] ne(1) by auto
  define d1 where "d1 = [gr_name gr]"
  have p1: "Suc (fpos p [] + length (gr_name gr)) = fpos p d1" using fpos_snoc [of p "[]"] by (simp add: d1_def)
  have l1: "line_state ext p d1 (gr_passwd gr @ 58 # ?g @ 58 # join_comma ?ms @ [10]) ?n f f1"
    using 1(2) by (simp add: d1_def)
  obtain f2 where 2: "colon_field ext True 58 (fpos p d1) f1 = Some (Some (fpos p d1 + length (gr_passwd gr), f2))"
      "line_state ext p (d1 @ [gr_passwd gr]) (?g @ 58 # join_comma ?ms @ [10]) ?n f f2"
    using colon_field_step [OF l1 fl(2), of True] ne(2) by auto
  define d2 where "d2 = d1 @ [gr_passwd gr]"
  obtain f3 where 3: "id_field ext (fpos p d2) f2 = Some (Some (gr_gid gr, fpos p d2 + length ?g, f3))"
      "line_state ext p (d2 @ [?g]) (join_comma ?ms @ [10]) ?n f f3"
    using id_field_step [OF 2(2) ne(3)] by (auto simp: d2_def)
  define d3 where "d3 = d2 @ [?g]"
  have pos: "Suc (fpos p d1 + length (gr_passwd gr)) = fpos p d2" "Suc (fpos p d2 + length ?g) = fpos p d3"
    by (simp_all only: fpos_snoc d2_def d3_def)
  obtain q f4 todo where 4: "group_line_members ext nmax [] (fpos p d3) f3 =
       Some (Some ([] @ map (\<lambda>k. fpos p (d3 @ take k ?ms)) [0..<length ?ms], q, f4))"
     "Suc q = p + ?n" "line_state ext p (d3 @ ?ms) todo ?n f f4"
    using group_line_members_printed [OF 3(2) [folded d3_def] fl(3), of "[]" nmax] ne(4) by auto
  note str = line_state_str [OF 4(3)]
  have strs: "cstr_at ext f4 p = Some (gr_name gr)" "cstr_at ext f4 (fpos p d1) = Some (gr_passwd gr)"
    using str [of 0] str [of 1] fl fld_cstr by (simp_all add: d3_def d2_def d1_def)
  have mems: "cstrs_at ext f4 (map (\<lambda>k. fpos p (d3 @ take k ?ms)) [0..<length ?ms]) = Some (map ((!) ?ms) [0..<length ?ms])"
  proof (rule cstrs_at_map, rule)
    fix k assume "k \<in> set [0..<length ?ms]"
    then have k: "k < length ?ms" by simp
    then have "cstr_ok (?ms ! k)" using fl(3) mem_cstr by simp
    then show "cstr_at ext f4 (fpos p (d3 @ take k ?ms)) = Some (?ms ! k)"
      using str [of "length d3 + k"] k by simp
  qed
  have "group_line ext nmax p f = Some (Some (gr, q, f4))"
    unfolding group_line_def and_then_def
    by (simp only: 1(1) 2(1) 3(1) 4(1) bind.bind_lunit option.case prod.case p1 pos strs mems append_Nil map_nth) simp
  moreover have "\<forall>i \<ge> p + ?n. f4 i = f i" using 4(3) by (simp add: line_state_def)
  moreover have "q = p + ?n - 1" using 4(2) by simp
  ultimately show ?thesis by auto
qed

definition print_groups :: "(bytes, bytes list) group_ent list \<Rightarrow> bytes" where
  "print_groups grs = concat (map print_group grs)"

lemma print_group_Cons: "group_printable nmax gr \<Longrightarrow> \<exists>c t. print_group gr = c # t \<and> c \<noteq> 0 \<and> c \<noteq> 35"
  by (cases "gr_name gr") (auto simp: group_printable_def print_group_def fld_def)

lemma group_parse_at:
  "\<forall>gr \<in> set grs. group_printable (ngroups_limit sc) gr \<Longrightarrow> mem_slice f p (length (print_groups grs)) = print_groups grs \<Longrightarrow>
   f (p + length (print_groups grs)) = 0 \<Longrightarrow> p + length (print_groups grs) < ext \<Longrightarrow>
   nss_mcdb_acct_make_group_parse enc sc ext p f s = encode_all enc grs s"
proof (induction grs arbitrary: p f s)
  case Nil
  then show ?case by (simp add: nss_mcdb_acct_make_group_parse.simps text_at_def print_groups_def)
next
  case (Cons gr grs)
  let ?l = "print_group gr" and ?r = "print_groups grs"
  have pr: "group_printable (ngroups_limit sc) gr" "\<forall>gr \<in> set grs. group_printable (ngroups_limit sc) gr"
    using Cons.prems(1) by simp_all
  have tot: "print_groups (gr # grs) = ?l @ ?r" by (simp add: print_groups_def)
  have sl: "mem_slice f p (length ?l) = ?l" "mem_slice f (p + length ?l) (length ?r) = ?r"
    using slice_piece [of f p "[]" ?l ?r] slice_piece [of f p ?l ?r "[]"] Cons.prems(2) unfolding tot by simp_all
  have end0: "f (p + length ?l + length ?r) = 0" "p + length ?l + length ?r < ext"
    using Cons.prems(3,4) unfolding tot by (simp_all add: add.assoc)
  obtain c t where ct: "?l = c # t" "c \<noteq> 0" "c \<noteq> 35" using print_group_Cons [OF pr(1)] by blast
  then have fp: "f p = c" using sl(1) by (simp add: mem_slice_def upt_conv_Cons del: upt_Suc)
  have len: "0 < length ?l" using ct by simp
  obtain f' where f': "group_line ext (ngroups_limit sc) p f = Some (Some (gr, p + length ?l - 1, f'))" "\<forall>i \<ge> p + length ?l. f' i = f i"
    using group_line_printed [OF pr(1) sl(1), of ext] end0 by auto
  have "mem_slice f' (p + length ?l) (length ?r) = ?r"
    using sl(2) mem_slice_eqI [of "p + length ?l" "length ?r" f' f] f'(2) by simp
  then have ih: "nss_mcdb_acct_make_group_parse enc sc ext (p + length ?l) f' s1 = encode_all enc grs s1" for s1
    by (rule Cons.IH [OF pr(2)]) (use f'(2) end0 in simp_all)
  have q: "Suc (p + length ?l - Suc 0) = p + length ?l" using len by simp
  show ?case
    using ct(2,3) fp f'(1) end0 q by (subst nss_mcdb_acct_make_group_parse.simps) (simp add: text_at_def ih cong: if_cong)
qed

end
