(* ===== verification/Nss_Make_Props.thy ===== *)
theory Nss_Make_Props
  imports Nss_Make_Proofs Nss_Parse_Proofs Nss_Codec_Props
begin

text \<open>
  What the builder of the passwd and group databases guarantees: how it writes records, that the
  parsers end on every text, and the database that a printed /etc/passwd becomes.
\<close>

subsection \<open>One pass over an input file\<close>

definition destroyed :: "mcdb_make \<Rightarrow> bool" where
  "destroyed m \<longleftrightarrow> mk_head m 0 = [] \<and> \<not> (mk_mapped m \<and> mk_fd m \<noteq> -1)"

lemma destroy_destroyed:
  assumes "mcdb_make_destroy m w = Some (rc, m', w')"
  shows "destroyed m'"
proof -
  define st where "st = (if mk_mapped m \<and> mk_fd m \<noteq> -1 then
           (let errsave = o_errno w; (ok, w') = ext_call w
            in (if ok then 0 else -1, m\<lparr>mk_mapped := False\<rparr>,
                if errsave \<noteq> 0 then w'\<lparr>o_errno := errsave\<rparr> else w'))
         else (0 :: int, m, w))"
  obtain rc1 m1 w1 where st: "st = (rc1, m1, w1)" by (cases st)
  then have m1: "\<not> (mk_mapped m1 \<and> mk_fd m1 \<noteq> -1)" by (auto simp: st_def Let_def split: if_splits prod.splits)
  show ?thesis
    using assms m1 unfolding mcdb_make_destroy_def st_def [symmetric] st
    by (cases "mk_head m1 0") (auto simp: destroyed_def bind_eq_Some_conv)
qed

lemma destroy_again: "destroyed m \<Longrightarrow> mcdb_make_destroy m v = Some (0, m, v)"
  by (auto simp: destroyed_def mcdb_make_destroy_def)

lemma finish_then_destroy:
  assumes "mcdb_make_finish P m w = Some (rc, m', w')"
  shows "destroyed m'"
  using assms unfolding mcdb_make_finish_def Let_def mcdb_make_err_def
  by (auto simp: bind_eq_Some_conv split: if_splits prod.splits dest: destroy_destroyed)

lemma recs_ok_fit: "recs_ok hf recs \<Longrightarrow> recs_fit recs"
  by (auto simp: recs_ok_def recs_fit_def data_end_def mcdb_consts)

lemma willing_call:
  assumes "os_willing w"
  shows "ext_call w = (True, w\<lparr>o_step := Suc (o_step w)\<rparr>)"
  using assms by (simp add: ext_call_def os_willing_def)

lemma willing_upd [simp]: "os_willing (w\<lparr>o_step := n\<rparr>) = os_willing w" "os_willing (w\<lparr>o_errno := e\<rparr>) = os_willing w"
  by (simp_all add: os_willing_def)

text \<open>The text of the first record without an nsswitch.conf.\<close>

definition default_entry :: "bytes \<Rightarrow> bytes" where
  "default_entry input = (if input = hosts_word then mcdb_dns_words else mcdb_word)"

lemma default_entry_ok: "cstr_ok (default_entry input)" "length (default_entry input) \<le> 8"
  by (simp_all add: default_entry_def cstr_ok_def mcdb_word_def mcdb_dns_words_def)

lemma nsswitch_absent:
  assumes "os_willing s" "9 < datasz"
  shows "nss_mcdb_nsswitch pagesize (\<lambda>_. None) input datasz data None s =
    Some (True, mem_upd data 0 (cz (default_entry input)), None, s\<lparr>o_step := Suc (o_step s), o_errno := ENOENT\<rparr>)"
  using assms by (simp add: nss_mcdb_nsswitch_def willing_call nsswitch_default_def default_entry_def mcdb_dns_words_def)

lemma dbfile_nsswitch_built:
  assumes P: "plasma_bigendian P" and pk: "pk \<le> 30" and b: "built pk base [] (bd_w b) (bd_os b)" and will: "os_willing (bd_os b)"
    and nsw: "bd_nsw b = None" and sz: "9 < wi_datasz (bd_w b)"
  shows "\<exists>b'. dbfile_nsswitch P pagesize (\<lambda>_. None) input b = Some (True, b') \<and> os_willing (bd_os b') \<and>
    wi_datasz (bd_w b') = wi_datasz (bd_w b) \<and> built pk base [([0], default_entry input)] (bd_w b') (bd_os b')"
proof -
  let ?e = "default_entry input"
  define d where "d = mem_upd (wi_data (bd_w b)) 0 (cz ?e)"
  define w1 where "w1 = (bd_w b)\<lparr>wi_data := d, wi_dlen := length ?e, wi_tagc := 0, wi_key := []\<rparr>"
  define s1 where "s1 = (bd_os b)\<lparr>o_step := Suc (o_step (bd_os b)), o_errno := ENOENT\<rparr>"
  have str: "cstr_at (wi_datasz (bd_w b)) d 0 = Some ?e"
    by (rule cstr_at_slice) (use default_entry_ok [of input] sz in \<open>simp_all add: d_def\<close>)
  have dat: "w_data w1 = ?e"
    using take_mem_slice [of "length ?e" "length (cz ?e)" d 0]
    by (simp add: w_data_def w1_def d_def) (simp add: cz_def)
  have b1: "built pk base [] w1 s1" using b by (rule built_data) (simp_all add: w1_def s1_def)
  have "recs_fit ([] @ [(wi_tagc w1 # wi_key w1, w_data w1)])"
    using default_entry_ok(2) [of input] unfolding dat
    by (simp add: recs_fit_def w1_def data_end_def data_bytes_def rec_bytes_def mcdb_consts INT_MAX_def)
  moreover have "wi_dlen w1 \<le> wi_datasz w1" using default_entry_ok(2) [of input] sz by (simp add: w1_def)
  moreover have "os_willing s1" using will by (simp add: s1_def)
  ultimately obtain m s' where wr: "nss_mcdb_make_mcdbctl_write P w1 s1 = Some (True, w1\<lparr>wi_m := m\<rparr>, s')" "os_willing s'"
      "built pk base ([] @ [(wi_tagc w1 # wi_key w1, w_data w1)]) (w1\<lparr>wi_m := m\<rparr>) s'"
    using write_built [OF P pk b1] by blast
  have "dbfile_nsswitch P pagesize (\<lambda>_. None) input b = Some (True, b\<lparr>bd_w := w1\<lparr>wi_m := m\<rparr>, bd_nsw := None, bd_os := s'\<rparr>)"
    using wr(1) unfolding dbfile_nsswitch_def nsw Let_def nsswitch_absent [OF will sz] d_def [symmetric] s1_def [symmetric]
    by (simp add: str w1_def)
  then show ?thesis using wr(2,3) unfolding dat by (simp add: w1_def)
qed

text \<open>What a parser with its flush function makes of a builder that holds the first record.\<close>

definition fills :: "nat \<Rightarrow> kv \<Rightarrow> kv list \<Rightarrow> parser \<Rightarrow> flusher option \<Rightarrow> srcfile \<Rightarrow> nat \<Rightarrow> nat \<Rightarrow> bool" where
  "fills pk r0 recs parse flush src pagesize datasz \<longleftrightarrow>
     (\<forall>base b. built pk base [r0] (bd_w b) (bd_os b) \<longrightarrow> os_willing (bd_os b) \<longrightarrow> wi_datasz (bd_w b) = datasz \<longrightarrow>
       (\<exists>b3 b4. parse (map_ext pagesize (sf_bytes src)) (map_mem (sf_bytes src)) b = Some (True, b3) \<and>
         (case flush of None \<Rightarrow> Some (True, b3) | Some fl \<Rightarrow> fl b3) = Some (True, b4) \<and>
         built pk base (r0 # recs) (bd_w b4) (bd_os b4) \<and> os_willing (bd_os b4)))"

lemma dbfile_fill_made:
  assumes P: "plasma_bigendian P" and pk: "pk \<le> 30" and fd: "mk_fd (wi_m (bd_w b)) \<noteq> -1" and will: "os_willing (bd_os b)"
    and nsw: "bd_nsw b = None" and sz: "9 < wi_datasz (bd_w b)"
    and fills: "fills pk ([0], default_entry input) recs parse flush src (2 ^ pk) (wi_datasz (bd_w b))"
    and ok: "recs_ok djb_hash (([0], default_entry input) # recs)"
  shows "\<exists>b'. dbfile_fill P (2 ^ pk) (\<lambda>_. None) input parse flush src b = Some (True, b') \<and> os_willing (bd_os b') \<and>
    mset (o_live (bd_os b')) = mset (o_live (bd_os b)) \<and> destroyed (wi_m (bd_w b')) \<and>
    db_file (o_file (bd_os b')) (o_flen (bd_os b')) djb_hash (([0], default_entry input) # recs)"
proof -
  obtain m1 s1 where st: "mcdb_make_start (2 ^ pk) (mk_fd (wi_m (bd_w b))) (bd_os b) = Some (0, m1, s1)"
    by (rule start_willing [OF will refl pk fd])
  define b1 where "b1 = b\<lparr>bd_w := (bd_w b)\<lparr>wi_m := m1\<rparr>, bd_os := s1\<rparr>"
  have sp: "make_inv pk djb_hash (mset (o_live (bd_os b))) [] m1 s1" "os_same (bd_os b) s1"
    using start_props [OF refl pk fd st] by simp_all
  then have bu1: "built pk (mset (o_live (bd_os b))) [] (bd_w b1) (bd_os b1)"
    using start_hash_fn [OF st] by (simp add: built_def b1_def)
  have w1: "os_willing (bd_os b1)" using os_willing_same [OF sp(2)] will by (simp add: b1_def)
  have "bd_nsw b1 = None" "9 < wi_datasz (bd_w b1)" using nsw sz by (simp_all add: b1_def)
  from dbfile_nsswitch_built [OF P pk bu1 w1 this, of "2 ^ pk" input] obtain b2 where
    b2: "dbfile_nsswitch P (2 ^ pk) (\<lambda>_. None) input b1 = Some (True, b2)" "os_willing (bd_os b2)"
      "wi_datasz (bd_w b2) = wi_datasz (bd_w b)"
      "built pk (mset (o_live (bd_os b))) [([0], default_entry input)] (bd_w b2) (bd_os b2)"
    by (auto simp: b1_def)
  obtain b3 b4 where b34: "parse (map_ext (2 ^ pk) (sf_bytes src)) (map_mem (sf_bytes src)) b2 = Some (True, b3)"
      "(case flush of None \<Rightarrow> Some (True, b3) | Some fl \<Rightarrow> fl b3) = Some (True, b4)"
      "built pk (mset (o_live (bd_os b))) (([0], default_entry input) # recs) (bd_w b4) (bd_os b4)" "os_willing (bd_os b4)"
    using fills b2 unfolding fills_def by blast
  have "eintr_fair (bd_os b4)" using b34(4) by (auto simp: os_willing_def eintr_fair_def EINTR_def)
  from finish_props [OF P _ pk ok this, of "mset (o_live (bd_os b))" "wi_m (bd_w b4)"] b34(3)
  obtain rc m5 s5 where f: "mcdb_make_finish P (wi_m (bd_w b4)) (bd_os b4) = Some (rc, m5, s5)"
    "run_end djb_hash (mset (o_live (bd_os b))) (([0], default_entry input) # recs) (bd_os b4) rc s5"
    by (auto simp: built_def)
  have "rc = 0" "os_willing s5" using f(2) b34(4) os_willing_same by (auto simp: run_end_def)
  then have "dbfile_fill P (2 ^ pk) (\<lambda>_. None) input parse flush src b =
      Some (True, b4\<lparr>bd_w := (bd_w b4)\<lparr>wi_m := m5\<rparr>, bd_os := s5\<rparr>)"
    using st b2(1) b34(1,2) f(1) by (simp add: dbfile_fill_def b1_def)
  then show ?thesis using f \<open>rc = 0\<close> \<open>os_willing s5\<close> finish_then_destroy [OF f(1)] by (simp add: run_end_def)
qed

text \<open>The whole, when the input stays as it is.\<close>

lemma bd_call_willing: "os_willing (bd_os b) \<Longrightarrow> bd_call b = (True, b\<lparr>bd_os := (bd_os b)\<lparr>o_step := Suc (o_step (bd_os b))\<rparr>\<rparr>)"
  by (simp add: bd_call_def willing_call)

definition steps_on :: "nat \<Rightarrow> builder \<Rightarrow> builder" where
  "steps_on n b = b\<lparr>bd_os := (bd_os b)\<lparr>o_step := o_step (bd_os b) + n\<rparr>\<rparr>"

lemma steps_on_sel [simp]: "bd_w (steps_on n b) = bd_w b" "bd_nsw (steps_on n b) = bd_nsw b" "bd_g (steps_on n b) = bd_g b"
  "os_willing (bd_os (steps_on n b)) = os_willing (bd_os b)" "o_live (bd_os (steps_on n b)) = o_live (bd_os b)"
  "o_file (bd_os (steps_on n b)) = o_file (bd_os b)" "o_flen (bd_os (steps_on n b)) = o_flen (bd_os b)"
  by (simp_all add: steps_on_def)

lemma dbfile_loop_willing:
  assumes will: "os_willing (bd_os b)" and ne: "sf_bytes src \<noteq> []"
    and fill: "dbfile_fill P pagesize nsf input parse flush src (steps_on 3 b) = Some (True, b4)" and w4: "os_willing (bd_os b4)"
  shows "dbfile_loop P pagesize (\<lambda>_. Some src) nsf input parse flush False b = Some (True, True, True, steps_on 1 b4)"
  using fill w4 ne
  by (subst dbfile_loop.simps) (simp add: bd_call_willing will numeral_3_eq_3 steps_on_def)

lemma dbfile_made:
  assumes P: "plasma_bigendian P" and pk: "pk \<le> 30" and fd: "mk_fd (wi_m (bd_w b)) \<noteq> -1" and will: "os_willing (bd_os b)"
    and nsw: "bd_nsw b = None" and sz: "9 < wi_datasz (bd_w b)" and ne: "sf_bytes src \<noteq> []"
    and fills: "fills pk ([0], default_entry input) recs parse flush src (2 ^ pk) (wi_datasz (bd_w b))"
    and ok: "recs_ok djb_hash (([0], default_entry input) # recs)"
  shows "\<exists>b'. nss_mcdb_make_dbfile P (2 ^ pk) (\<lambda>_. Some src) (\<lambda>_. None) input parse flush b = Some (True, b') \<and>
    mset (o_live (bd_os b')) = mset (o_live (bd_os b)) \<and>
    db_file (o_file (bd_os b')) (o_flen (bd_os b')) djb_hash (([0], default_entry input) # recs)"
proof -
  have h: "mk_fd (wi_m (bd_w (steps_on 3 b))) \<noteq> -1" "os_willing (bd_os (steps_on 3 b))" "bd_nsw (steps_on 3 b) = None"
    "9 < wi_datasz (bd_w (steps_on 3 b))" using fd will nsw sz by simp_all
  from dbfile_fill_made [OF P pk h _ ok, of parse flush src] fills obtain b4 where
    b4: "dbfile_fill P (2 ^ pk) (\<lambda>_. None) input parse flush src (steps_on 3 b) = Some (True, b4)" "os_willing (bd_os b4)"
      "mset (o_live (bd_os b4)) = mset (o_live (bd_os b))" "destroyed (wi_m (bd_w b4))"
      "db_file (o_file (bd_os b4)) (o_flen (bd_os b4)) djb_hash (([0], default_entry input) # recs)"
    by auto
  note L = dbfile_loop_willing [OF will ne b4(1,2)]
  have "\<exists>b'. nss_mcdb_make_dbfile P (2 ^ pk) (\<lambda>_. Some src) (\<lambda>_. None) input parse flush b = Some (True, b') \<and>
      o_live (bd_os b') = o_live (bd_os b4) \<and> o_file (bd_os b') = o_file (bd_os b4) \<and> o_flen (bd_os b') = o_flen (bd_os b4)"
    using b4(2) by (simp add: nss_mcdb_make_dbfile_def L destroy_again [OF b4(4)] willing_call steps_on_def Let_def)
  then show ?thesis using b4(3,5) by auto
qed

subsection \<open>/etc/passwd\<close>

lemma passwd_enc_all:
  assumes P: "plasma_bigendian P" and pk: "pk \<le> 30"
  shows "built pk base recs (bd_w b) (bd_os b) \<Longrightarrow> os_willing (bd_os b) \<Longrightarrow> wi_datasz (bd_w b) = datasz \<Longrightarrow>
    \<forall>pw \<in> set pws. passwd_fits datasz pw \<Longrightarrow> recs_fit (recs @ concat (map passwd_recs pws)) \<Longrightarrow>
    \<exists>b'. encode_all (passwd_enc P) pws b = Some (True, b') \<and> os_willing (bd_os b') \<and>
      built pk base (recs @ concat (map passwd_recs pws)) (bd_w b') (bd_os b')"
proof (induction pws arbitrary: recs b)
  case Nil
  then show ?case by simp
next
  case (Cons pw pws)
  have lim: "recs_fit ((recs @ passwd_recs pw) @ concat (map passwd_recs pws))" using Cons.prems(5) by simp
  have "passwd_fits (wi_datasz (bd_w b)) pw" using Cons.prems(3,4) by simp
  from passwd_encode_built [OF P pk Cons.prems(1,2) this recs_fit_prefix [OF lim]] obtain w' s' where
    e: "nss_mcdb_acct_make_passwd_encode P pw (bd_w b) (bd_os b) = Some (True, w', s')" "os_willing s'"
      "wi_datasz w' = wi_datasz (bd_w b)" "built pk base (recs @ passwd_recs pw) w' s'" by blast
  define b1 where "b1 = b\<lparr>bd_w := w', bd_os := s'\<rparr>"
  have pre: "built pk base (recs @ passwd_recs pw) (bd_w b1) (bd_os b1)" "os_willing (bd_os b1)" "wi_datasz (bd_w b1) = datasz"
    "\<forall>pw \<in> set pws. passwd_fits datasz pw"
    using e Cons.prems(3,4) by (simp_all add: b1_def)
  from Cons.IH [OF pre lim] e(1) show ?case
    by (simp add: passwd_enc_def b1_def)
qed

lemma map_ext_room:
  assumes "length bs mod pagesize \<noteq> 0" and p: "0 < pagesize"
  shows "length bs < map_ext pagesize bs"
proof -
  obtain q r where n: "length bs = q * pagesize + r" "0 < r" "r < pagesize"
    using assms div_mult_mod_eq [of "length bs" pagesize] mod_less_divisor [OF p, of "length bs"] by (metis gr0I)
  have "(length bs + (pagesize - 1)) div pagesize = Suc q"
    by (rule div_nat_eqI) (use n in \<open>simp_all add: algebra_simps\<close>)
  then show ?thesis using n by (simp add: map_ext_def)
qed

definition passwd_db :: "bytes \<Rightarrow> bytes passwd list \<Rightarrow> kv list" where
  "passwd_db input pws = ([0], default_entry input) # concat (map passwd_recs pws)"

lemma passwd_fills:
  assumes P: "plasma_bigendian P" and pk: "pk \<le> 30" and pr: "\<forall>pw \<in> set pws. passwd_printable pw" "\<forall>pw \<in> set pws. passwd_fits datasz pw"
    and src: "sf_bytes src = print_passwds pws" "length (print_passwds pws) mod 2 ^ pk \<noteq> 0"
    and ok: "recs_ok djb_hash (passwd_db input pws)"
  shows "fills pk ([0], default_entry input) (concat (map passwd_recs pws))
    (\<lambda>ext f. nss_mcdb_acct_make_passwd_parse (passwd_enc P) ext 0 f) None src (2 ^ pk) datasz"
proof -
  let ?t = "print_passwds pws"
  have parse: "nss_mcdb_acct_make_passwd_parse (passwd_enc P) (map_ext (2 ^ pk) ?t) 0 (map_mem ?t) b = encode_all (passwd_enc P) pws b" for b
    by (rule passwd_parse_at [OF pr(1)]) (use map_ext_room [OF src(2)] in \<open>simp_all add: map_mem_def mem_upd_out\<close>)
  have "recs_fit ([([0], default_entry input)] @ concat (map passwd_recs pws))"
    using recs_ok_fit [OF ok] by (simp add: passwd_db_def)
  note all = passwd_enc_all [OF P pk _ _ _ pr(2) this]
  show ?thesis unfolding fills_def src(1) parse option.case
    using all by fastforce
qed

lemma make_passwd_builds:
  assumes "plasma_bigendian P" "pk \<le> 30" "mk_fd (wi_m (bd_w b)) \<noteq> -1" "os_willing (bd_os b)" "bd_nsw b = None"
    and "9 < wi_datasz (bd_w b)" "\<forall>pw \<in> set pws. passwd_printable pw \<and> passwd_fits (wi_datasz (bd_w b)) pw"
    and "sf_bytes src = print_passwds pws" "length (print_passwds pws) mod 2 ^ pk \<noteq> 0" "recs_ok djb_hash (passwd_db input pws)"
  shows "\<exists>b'. make_passwd_db P (2 ^ pk) (\<lambda>_. Some src) (\<lambda>_. None) input b = Some (True, b') \<and>
    mset (o_live (bd_os b')) = mset (o_live (bd_os b)) \<and>
    db_file (o_file (bd_os b')) (o_flen (bd_os b')) djb_hash (passwd_db input pws)"
proof -
  have pr: "\<forall>pw \<in> set pws. passwd_printable pw" "\<forall>pw \<in> set pws. passwd_fits (wi_datasz (bd_w b)) pw" using assms(7) by auto
  note F = passwd_fills [OF assms(1,2) pr assms(8-10)]
  have "sf_bytes src \<noteq> []" using assms(8,9) by auto
  from dbfile_made [OF assms(1-6) this F] assms(10) show ?thesis by (simp add: make_passwd_db_def passwd_db_def)
qed

text \<open>C35: the text of /etc/passwd that stands for some entries becomes a database of their records,
  two for each entry, behind the default record for a missing nsswitch.conf, when the entries fit the data buffer, the records are
  within the limits of the writer, no call fails, the file does not change meanwhile and its length is not a
  multiple of the page size (then there is no NUL behind it in its mapping, and the parser reads past its end,
  \<^verbatim>\<open>nss_mcdb_make.c:196\<close>); every block that was allocated is freed.\<close>

theorem passwd_db_made:
  assumes "plasma_bigendian P" "pk \<le> 30" "mk_fd (wi_m (bd_w b)) \<noteq> -1" "os_willing (bd_os b)" "bd_nsw b = None"
    and "9 < wi_datasz (bd_w b)" "\<forall>pw \<in> set pws. passwd_printable pw \<and> passwd_fits (wi_datasz (bd_w b)) pw"
    and "sf_bytes src = print_passwds pws" "length (print_passwds pws) mod 2 ^ pk \<noteq> 0" "recs_ok djb_hash (passwd_db input pws)"
  shows "\<exists>b'. make_passwd_db P (2 ^ pk) (\<lambda>_. Some src) (\<lambda>_. None) input b = Some (True, b') \<and>
    mset (o_live (bd_os b')) = mset (o_live (bd_os b)) \<and>
    db_file (o_file (bd_os b')) (o_flen (bd_os b')) djb_hash (passwd_db input pws)"
  using assms by (rule make_passwd_builds)

definition ex_winfo :: winfo where
  "ex_winfo = \<lparr>wi_m = \<lparr>mk_pos = 0, mk_offset = 0, mk_mapped = False, mk_hash_init = 0, mk_hash_fn = Hash_djb, mk_fsz = 0,
       mk_osz = 0, mk_msz = 0, mk_pgalign = 0, mk_hp = \<lparr>hp_p = 0, hp_h = 0, hp_l = 0\<rparr>, mk_fd = 3, mk_count = (\<lambda>_. 0),
       mk_head = (\<lambda>_. [])\<rparr>, wi_data = (\<lambda>_. 0), wi_datasz = 25, wi_dlen = 0, wi_key = [], wi_tagc = 0\<rparr>"

definition ex_builder :: builder where
  "ex_builder = \<lparr>bd_w = ex_winfo, bd_g = groupmems_init, bd_nsw = None, bd_os = os_empty (\<lambda>_. 0) (\<lambda>_. 7)\<rparr>"

definition ex_src :: srcfile where
  "ex_src = \<lparr>sf_bytes = print_passwds [ex_pw], sf_ino = 7, sf_mtime = 0\<rparr>"

lemma ex_passwd: "passwd_printable ex_pw" "passwd_fits 25 ex_pw" "length (print_passwds [ex_pw]) = 12"
  "recs_ok djb_hash (passwd_db [112] [ex_pw])"
proof -
  have len: "length (passwd_image ex_pw) = 24"
    unfolding length_passwd_image str_offs by (simp add: ex_pw_def NSS_PW_HDRSZ_def)
  have nm: "length (pw_name ex_pw) = 1" by (simp add: ex_pw_def)
  show "passwd_fits 25 ex_pw"
    unfolding passwd_fits_def len str_offs by (simp add: ex_pw_def USHRT_MAX_def)
  show "passwd_printable ex_pw" by (simp add: passwd_printable_def passwd_strs_def ex_pw_def fld_def)
  show "length (print_passwds [ex_pw]) = 12"
    by (simp add: print_passwds_def print_passwd_def ex_pw_def dec_digits.simps)
  show "recs_ok djb_hash (passwd_db [112] [ex_pw])"
    by (rule recs_ok_few)
      (simp_all add: passwd_db_def passwd_recs_def len nm default_entry_def hosts_word_def mcdb_word_def data_bytes_def rec_bytes_def
        INT_MAX_def)
qed

theorem passwd_db_made_witness:
  "\<exists>b'. make_passwd_db plasma_ref (2 ^ 12) (\<lambda>_. Some ex_src) (\<lambda>_. None) [112] ex_builder = Some (True, b') \<and>
     db_file (o_file (bd_os b')) (o_flen (bd_os b')) djb_hash (passwd_db [112] [ex_pw])"
proof -
  have "mk_fd (wi_m (bd_w ex_builder)) \<noteq> -1" "os_willing (bd_os ex_builder)" "bd_nsw ex_builder = None" "9 < wi_datasz (bd_w ex_builder)"
    "\<forall>pw \<in> set [ex_pw]. passwd_printable pw \<and> passwd_fits (wi_datasz (bd_w ex_builder)) pw" "sf_bytes ex_src = print_passwds [ex_pw]"
    using ex_passwd os_empty_willing by (simp_all add: ex_builder_def ex_winfo_def ex_src_def)
  from passwd_db_made [OF plasma_ref_bigendian _ this, of 12] ex_passwd(3,4) show ?thesis by auto
qed

text \<open>C39: writing a record in pieces (tag, key, data) through the incremental interface is the same
  as one \<^verbatim>\<open>mcdb_make_add\<close> of the record whose key is the tag followed by the key, in every state and
  under every pattern of failures, for a hash function that can be computed in pieces.\<close>

theorem write_is_add:
  assumes "hash_pieces (wi_m w)" "wi_dlen w \<le> wi_datasz w"
  shows "nss_mcdb_make_mcdbctl_write P w s =
    map_option (\<lambda>(rc, m, s'). (rc = 0, w\<lparr>wi_m := m\<rparr>, s'))
      (mcdb_make_add P (wi_m w) (wi_tagc w # wi_key w) (mem_slice (wi_data w) 0 (wi_dlen w)) s)"
  using write_eq_add [OF assms] by (simp add: w_data_def)

theorem write_is_add_witness:
  "nss_mcdb_make_mcdbctl_write plasma_ref ex_winfo (os_empty (\<lambda>_. 0) (\<lambda>_. 7)) =
     map_option (\<lambda>(rc, m, s'). (rc = 0, ex_winfo\<lparr>wi_m := m\<rparr>, s'))
       (mcdb_make_add plasma_ref (wi_m ex_winfo) [0] [] (os_empty (\<lambda>_. 0) (\<lambda>_. 7)))"
proof -
  have "hash_pieces (wi_m ex_winfo)" by (rule hash_djb_pieces) (simp add: ex_winfo_def)
  moreover have "wi_dlen ex_winfo \<le> wi_datasz ex_winfo" by (simp add: ex_winfo_def)
  ultimately have "nss_mcdb_make_mcdbctl_write plasma_ref ex_winfo (os_empty (\<lambda>_. 0) (\<lambda>_. 7)) =
     map_option (\<lambda>(rc, m, s'). (rc = 0, ex_winfo\<lparr>wi_m := m\<rparr>, s'))
       (mcdb_make_add plasma_ref (wi_m ex_winfo) (wi_tagc ex_winfo # wi_key ex_winfo)
         (mem_slice (wi_data ex_winfo) 0 (wi_dlen ex_winfo)) (os_empty (\<lambda>_. 0) (\<lambda>_. 7)))" by (rule write_is_add)
  then show ?thesis by (simp add: ex_winfo_def mem_slice_def)
qed

end
