(* ===== verification/Nss_Query_Props.thy ===== *)
theory Nss_Query_Props
  imports Nss_Session_Proofs Nss_Make_Props
begin

text \<open>
  Lookups and enumerations of the passwd and group databases from the files that the builder
  makes: the first query opens the shared map, a session walks over the entries in their order.
\<close>

subsection \<open>The decoders as codecs\<close>

definition passwd_room :: "bytes passwd \<Rightarrow> u64 passwd vinfo \<Rightarrow> bool" where
  "passwd_room pw v \<longleftrightarrow> passwd_ok pw \<and> (\<exists>n. passwd_fits n pw) \<and> length (passwd_image pw) - NSS_PW_HDRSZ \<le> v_bufsz v"

definition group_room_for :: "(bytes, bytes list) group_ent \<Rightarrow> (u64, u64) group_ent vinfo \<Rightarrow> bool" where
  "group_room_for gr v \<longleftrightarrow> group_ok gr \<and> (\<exists>n. group_fits n gr) \<and>
     length (concat (map cz (group_strs gr))) \<le> USHRT_MAX \<and> group_room v gr"

interpretation pw_codec: entry_codec nss_mcdb_acct_passwd_decode "\<lambda>pw. butlast (passwd_image pw)" passwd_view passwd_room
proof
  fix m w e v assume "found_data m w (butlast (passwd_image e))" "passwd_room e v"
  then show "\<exists>v'. nss_mcdb_acct_passwd_decode m v w = Some (NSS_STATUS_SUCCESS, v', w) \<and> passwd_view v' = Some e"
    using passwd_decode_view by (auto simp: passwd_room_def)
qed

interpretation gr_codec: entry_codec nss_mcdb_acct_group_decode group_image group_view group_room_for
proof
  fix m w e v assume "found_data m w (group_image e)" "group_room_for e v"
  then show "\<exists>v'. nss_mcdb_acct_group_decode m v w = Some (NSS_STATUS_SUCCESS, v', w) \<and> group_view v' = Some e"
    using group_decode_view by (auto simp: group_room_for_def)
qed

subsection \<open>The first query of a database\<close>

lemma create_own_willing:
  assumes "r_fail w = (\<lambda>_. 0)" "r_newfd w (r_step w) \<noteq> -1" "r_fs w None fname = Some x" "f_size x \<noteq> 0"
    "length fname < 112" "get_map q w \<noteq> None"
  shows "\<exists>w' mm. mcdb_mmap_create (Some q) None fname w = Some (Some q, w') \<and> get_map q w' = Some mm \<and> map_of_file x mm \<and>
    mm_refcnt mm = 1 \<and> fname_str mm w' = Some fname \<and> mm_dfd mm = -1 \<and> r_fs w' = r_fs w \<and> r_lock w' = r_lock w"
proof -
  have fd: "(r_newfd w (r_step w) = -1) = False" using assms(2) by simp
  show ?thesis using assms(1,3-6) 
    by (simp add: mcdb_mmap_create_def rd_call_def create_open_dir_def create_name_def mmap_blank_def fd
     mcdb_mmap_reopen_def fname_str_def open_fd_def dir_of_def mcdb_mmap_init_def mcdb_mmap_unmap_def sys_fstat_def
     sys_mmap_def get_map_def put_map_def nointr_close_def map_of_file_def Let_def)
qed

lemma length_dbnames: "length (nss_dbnames db) < 112"
  by (cases db) (simp_all add: str_bytes_def NSS_MCDB_DBPATH_def)

text \<open>A thread that has not used the module yet, in a process that has not opened the database and is
  refused nothing; the database is a file with these records.\<close>

definition nss_idle :: "nss_dbtype \<Rightarrow> nss \<Rightarrow> bool" where
  "nss_idle db s \<longleftrightarrow> n_map s db = None \<and> n_mmap s db = None \<and> \<not> n_mutex s \<and> \<not> r_lock (n_rd s) \<and>
     r_fail (n_rd s) = (\<lambda>_. 0) \<and> (\<forall>k. r_newfd (n_rd s) k \<noteq> -1) \<and> get_map (n_mmap_st s db) (n_rd s) \<noteq> None"

definition unopened :: "nss_dbtype \<Rightarrow> kv list \<Rightarrow> nss \<Rightarrow> bool" where
  "unopened db recs s \<longleftrightarrow> nss_idle db s \<and> (\<exists>x. r_fs (n_rd s) None (nss_dbnames db) = Some x \<and> disk_db x recs)"

lemmas unopened_defs = unopened_def nss_idle_def

lemma disk_db_size: "disk_db x recs \<Longrightarrow> f_size x \<noteq> 0"
  using table_pos_ge [of recs djb_hash MCDB_SLOTS] tables_start_ge(1) [of recs]
  by (auto simp: disk_db_def db_file_def mcdb_consts)

lemma map_of_file_holds: "disk_db x recs \<Longrightarrow> map_of_file x mm \<Longrightarrow> mm_refcnt mm = 1 \<Longrightarrow> holds_db recs mm"
  using reader_stride [of "f_bytes x" "f_size x" djb_hash recs]
  by (auto simp: holds_db_def map_of_file_def disk_db_def db_mapped_def)

lemma openshared_unopened:
  assumes "unopened db recs s"
  shows "\<exists>s1. nss_mcdb_db_openshared db s = Some (True, s1) \<and> serves db recs s1"
proof -
  let ?w = "n_rd s"
  obtain x where x: "r_fs ?w None (nss_dbnames db) = Some x" "disk_db x recs" using assms by (auto simp: unopened_defs)
  let ?w1 = "?w\<lparr>r_step := Suc (r_step ?w)\<rparr>"
  have "r_fail ?w1 = (\<lambda>_. 0)" "r_newfd ?w1 (r_step ?w1) \<noteq> -1" "r_fs ?w1 None (nss_dbnames db) = Some x"
    "get_map (n_mmap_st s db) ?w1 \<noteq> None" using assms x by (simp_all add: unopened_defs get_map_def)
  from create_own_willing [OF this(1-3) disk_db_size [OF x(2)] length_dbnames this(4)] obtain w' mm where
    c: "mcdb_mmap_create (Some (n_mmap_st s db)) None (nss_dbnames db) ?w1 = Some (Some (n_mmap_st s db), w')"
      "get_map (n_mmap_st s db) w' = Some mm" "map_of_file x mm" "mm_refcnt mm = 1"
      "fname_str mm w' = Some (nss_dbnames db)" "mm_dfd mm = -1" "r_fs w' = r_fs ?w" "r_lock w' = r_lock ?w" by auto
  have "current_file mm w'" using c(3,5-7) x(1) by (simp add: current_file_def dir_of_def map_of_file_def)
  moreover have "holds_db recs mm" by (rule map_of_file_holds [OF x(2) c(3,4)])
  moreover have e: "?w1\<lparr>r_errno := r_errno ?w\<rparr> = ?w1" by simp
  moreover have "rd_call ?w = (True, ?w1)" using assms by (simp add: rd_call_def unopened_defs)
  ultimately show ?thesis using assms c(1,2,8)
    by (simp add: nss_mcdb_db_openshared_def mutex_lock_def unopened_defs serves_def set_mmap_def mutex_unlock_def)
qed

lemma unopened_available:
  assumes "unopened db recs s"
  shows "available db recs s"
proof -
  obtain s1 where s1: "nss_mcdb_db_openshared db s = Some (True, s1)" "serves db recs s1"
    using openshared_unopened [OF assms] by blast
  then obtain p mm where M: "n_map s1 db = None" "n_mmap s1 db = Some p" "get_map p (n_rd s1) = Some mm" "holds_db recs mm"
    "current_file mm (n_rd s1)" "\<not> r_lock (n_rd s1)" by (auto simp: serves_def)
  have "mcdb_mmap_thread_registration (Some p) True False (n_rd s1) =
      Some (True, Some p, put_map p (mm\<lparr>mm_refcnt := mm_refcnt mm + 1\<rparr>) (n_rd s1))"
    by (rule register_newest) (use M holds_db_ptr in \<open>auto simp: holds_db_def\<close>)
  moreover have "n_map s db = None" "n_mmap s db = None" using assms by (simp_all add: unopened_defs)
  ultimately have "pinned db recs s p mm (n_rd s1) s1"
    using M s1(1) by (simp add: pinned_def nss_mcdb_db_getshared_def Let_def)
  then show ?thesis by (auto simp: available_def)
qed

subsection \<open>The values of a passwd database\<close>

lemma htonl_inject: "htonl a = htonl b \<Longrightarrow> a = b"
  using be_bytes_inject [of "unat a" 4 "unat b"] unat_u32_less [of a] unat_u32_less [of b] by (simp add: htonl_def word_unat_eq_iff)

lemma passwd_name_recs:
  assumes "distinct (map pw_name pws)"
  shows "pw \<in> set pws \<Longrightarrow> filter (\<lambda>r. fst r = 61 # pw_name pw) (concat (map passwd_recs pws)) = [(61 # pw_name pw, butlast (passwd_image pw))]"
    and "name \<notin> pw_name ` set pws \<Longrightarrow> filter (\<lambda>r. fst r = 61 # name) (concat (map passwd_recs pws)) = []"
proof -
  show none: "name \<notin> pw_name ` set pws \<Longrightarrow> filter (\<lambda>r. fst r = 61 # name) (concat (map passwd_recs pws)) = []" for name pws
    by (induction pws) (auto simp: passwd_recs_def)
  show "pw \<in> set pws \<Longrightarrow> filter (\<lambda>r. fst r = 61 # pw_name pw) (concat (map passwd_recs pws)) = [(61 # pw_name pw, butlast (passwd_image pw))]"
    using assms by (induction pws) (auto simp: passwd_recs_def none)
qed

lemma passwd_uid_recs:
  assumes "distinct (map pw_uid pws)"
  shows "pw \<in> set pws \<Longrightarrow>
    filter (\<lambda>r. fst r = 120 # htonl (pw_uid pw)) (concat (map passwd_recs pws)) = [(120 # htonl (pw_uid pw), butlast (passwd_image pw))]"
proof -
  have none: "uid \<notin> pw_uid ` set pws \<Longrightarrow> filter (\<lambda>r. fst r = 120 # htonl uid) (concat (map passwd_recs pws)) = []" for uid pws
    by (induction pws) (auto simp: passwd_recs_def dest: htonl_inject)
  show "pw \<in> set pws \<Longrightarrow>
      filter (\<lambda>r. fst r = 120 # htonl (pw_uid pw)) (concat (map passwd_recs pws)) = [(120 # htonl (pw_uid pw), butlast (passwd_image pw))]"
    using assms by (induction pws) (auto simp: passwd_recs_def none dest: htonl_inject)
qed

lemma db_values_single: "filter (\<lambda>r. fst r = k) recs = [(k, d)] \<Longrightarrow> db_values hf recs k = [d]"
  and db_values_none: "filter (\<lambda>r. fst r = k) recs = [] \<Longrightarrow> db_values hf recs k = []"
  using db_values_mset [of hf recs k] by simp_all

lemma passwd_db_values:
  assumes "distinct (map pw_name pws)" "distinct (map pw_uid pws)"
  shows "pw \<in> set pws \<Longrightarrow> db_values hf (passwd_db input pws) (full_key (pw_name pw) 61) = [butlast (passwd_image pw)]"
    and "pw \<in> set pws \<Longrightarrow> db_values hf (passwd_db input pws) (full_key (htonl (pw_uid pw)) 120) = [butlast (passwd_image pw)]"
    and "name \<notin> pw_name ` set pws \<Longrightarrow> db_values hf (passwd_db input pws) (full_key name 61) = []"
  using passwd_name_recs [OF assms(1)] passwd_uid_recs [OF assms(2)]
  by (auto intro!: db_values_single db_values_none simp: full_key_def passwd_db_def)


subsection \<open>The passwd database answers\<close>

lemma passwd_get_generic:
  assumes P: "plasma_bigendian P" and S: "available db (passwd_db input pws) s" 
    and dist: "distinct (map pw_name pws)" "distinct (map pw_uid pws)" and pw: "pw \<in> set pws" and room: "passwd_room pw v"
  shows "\<exists>v' s'. nss_mcdb_get_generic P db nss_mcdb_acct_passwd_decode (pw_name pw) 61 v s = Some (NSS_STATUS_SUCCESS, v', s') \<and>
      passwd_view v' = Some pw \<and> serves db (passwd_db input pws) s'"
    and "\<exists>v' s'. nss_mcdb_get_generic P db nss_mcdb_acct_passwd_decode (htonl (pw_uid pw)) 120 v s = Some (NSS_STATUS_SUCCESS, v', s') \<and>
      passwd_view v' = Some pw \<and> serves db (passwd_db input pws) s'"
  using pw_codec.get_generic_finds [OF P S passwd_db_values(1) [OF dist pw, of djb_hash input] room]
    pw_codec.get_generic_finds [OF P S passwd_db_values(2) [OF dist pw, of djb_hash input] room] by blast+

lemma printable_room:
  assumes "passwd_printable pw" "passwd_fits n pw" "n \<le> v_bufsz v + NSS_PW_HDRSZ"
  shows "passwd_room pw v"
  using assms by (auto simp: passwd_room_def passwd_printable_def passwd_ok_def passwd_fits_def intro: fld_cstr)

definition made_file :: "builder \<Rightarrow> int \<Rightarrow> disk_file" where
  "made_file b t = \<lparr>f_bytes = o_file (bd_os b), f_size = o_flen (bd_os b), f_mtime = t\<rparr>"

lemma made_unopened:
  assumes "db_file (o_file (bd_os b)) (o_flen (bd_os b)) djb_hash recs" "recs_ok djb_hash recs"
    and "nss_idle db s" "r_fs (n_rd s) None (nss_dbnames db) = Some (made_file b t)"
  shows "available db recs s"
  by (rule unopened_available) (use assms in \<open>simp add: unopened_def disk_db_def made_file_def\<close>)

text \<open>C6: end to end: when the builder has turned the text of /etc/passwd into a database, a process
  that finds that file at the place of the passwd database gets from \<^verbatim>\<open>getpwnam_r\<close> and
  \<^verbatim>\<open>getpwuid_r\<close> exactly the entry of the text, and \<^verbatim>\<open>ENOENT\<close> for a name that is not in it; after
  each of these queries the shared map is open, no reference is held, and it answers again.\<close>

theorem passwd_file_lookup:
  assumes "plasma_bigendian P" "pk \<le> 30" "mk_fd (wi_m (bd_w b)) \<noteq> -1" "os_willing (bd_os b)" "bd_nsw b = None"
    and "9 < wi_datasz (bd_w b)" "\<forall>pw \<in> set pws. passwd_printable pw \<and> passwd_fits (wi_datasz (bd_w b)) pw"
    and "sf_bytes src = print_passwds pws" "length (print_passwds pws) mod 2 ^ pk \<noteq> 0" "recs_ok djb_hash (passwd_db input pws)"
    and "distinct (map pw_name pws)" "distinct (map pw_uid pws)" "wi_datasz (bd_w b) \<le> v_bufsz v + NSS_PW_HDRSZ"
  shows "\<exists>b'. make_passwd_db P (2 ^ pk) (\<lambda>_. Some src) (\<lambda>_. None) input b = Some (True, b') \<and>
    (\<forall>t s. nss_idle NSS_DBTYPE_PASSWD s \<longrightarrow> r_fs (n_rd s) None (nss_dbnames NSS_DBTYPE_PASSWD) = Some (made_file b' t) \<longrightarrow>
      (\<forall>pw \<in> set pws.
        (\<exists>v' s'. nss_mcdb_getpwnam_r P (pw_name pw) v s = Some (NSS_STATUS_SUCCESS, v', s') \<and> passwd_view v' = Some pw \<and>
          serves NSS_DBTYPE_PASSWD (passwd_db input pws) s') \<and>
        (\<exists>v' s'. nss_mcdb_getpwuid_r P (pw_uid pw) v s = Some (NSS_STATUS_SUCCESS, v', s') \<and> passwd_view v' = Some pw \<and>
          serves NSS_DBTYPE_PASSWD (passwd_db input pws) s')) \<and>
      (\<forall>name. name \<notin> pw_name ` set pws \<longrightarrow>
        (\<exists>s'. nss_mcdb_getpwnam_r P name v s = Some (NSS_STATUS_NOTFOUND, v, s') \<and> n_errnop s' = ENOENT \<and>
          serves NSS_DBTYPE_PASSWD (passwd_db input pws) s')))"
proof -
  obtain b' where b': "make_passwd_db P (2 ^ pk) (\<lambda>_. Some src) (\<lambda>_. None) input b = Some (True, b')"
    "db_file (o_file (bd_os b')) (o_flen (bd_os b')) djb_hash (passwd_db input pws)"
    using make_passwd_builds [OF assms(1-10)] by blast
  note S = made_unopened [OF b'(2) assms(10)]
  have room: "passwd_room pw v" if "pw \<in> set pws" for pw using assms(7,13) that by (auto intro: printable_room)
  note found = passwd_get_generic [OF assms(1) S assms(11,12) _ room]
  note none = get_generic_misses [OF assms(1) S passwd_db_values(3) [OF assms(11,12), of _ djb_hash input]]
  show ?thesis
    unfolding nss_mcdb_getpwnam_r_def nss_mcdb_getpwuid_r_def
  proof (intro exI [of _ b'] conjI allI impI ballI, goal_cases)
    case 1
    show ?case by (rule b'(1))
  next
    case (2 t s pw)
    then show ?case by (intro found(1))
  next
    case (3 t s pw)
    then show ?case by (intro found(2))
  next
    case (4 t s name)
    obtain s' where "nss_mcdb_get_generic P NSS_DBTYPE_PASSWD nss_mcdb_acct_passwd_decode name 61 v s = Some (NSS_STATUS_NOTFOUND, v, s')"
      "serves NSS_DBTYPE_PASSWD (passwd_db input pws) s'" "n_errnop s' = ENOENT"
      using none [OF 4, of nss_mcdb_acct_passwd_decode v] by (elim exE conjE)
    then show ?case by (intro exI [of _ s']) simp
  qed
qed

text \<open>A process that has opened nothing, with one file under the name of the database.\<close>

definition ex_nss :: "nss_dbtype \<Rightarrow> disk_file \<Rightarrow> nss" where
  "ex_nss db x = \<lparr>n_rd = (rd_start (\<lambda>_. 0) (\<lambda>d n. if d = None \<and> n = nss_dbnames db then Some x else None))\<lparr>r_maps := [0 \<mapsto> mmap_blank False], r_fresh := 1\<rparr>,
     n_mmap = (\<lambda>_. None), n_mmap_st = (\<lambda>_. 0), n_map = (\<lambda>_. None), n_st = (\<lambda>_. ex_query 0), n_mutex = False,
     n_stayopen = False, n_errnop = 0\<rparr>"

lemma ex_nss_idle: "nss_idle db (ex_nss db x)" "r_fs (n_rd (ex_nss db x)) None (nss_dbnames db) = Some x"
  by (simp_all add: nss_idle_def ex_nss_def rd_start_def get_map_def)

lemma ex_passwd_hyps:
  "mk_fd (wi_m (bd_w ex_builder)) \<noteq> -1" "os_willing (bd_os ex_builder)" "bd_nsw ex_builder = None" "9 < wi_datasz (bd_w ex_builder)"
  "\<forall>pw \<in> set [ex_pw]. passwd_printable pw \<and> passwd_fits (wi_datasz (bd_w ex_builder)) pw" "sf_bytes ex_src = print_passwds [ex_pw]"
  "length (print_passwds [ex_pw]) mod 2 ^ 12 \<noteq> 0" "wi_datasz (bd_w ex_builder) \<le> v_bufsz ex_pw_vinfo + NSS_PW_HDRSZ"
  using ex_passwd os_empty_willing
  by (simp_all add: ex_builder_def ex_winfo_def ex_src_def ex_pw_vinfo_def NSS_PW_HDRSZ_def)

theorem passwd_file_lookup_witness:
  "\<exists>b' v' s' s2. make_passwd_db plasma_ref (2 ^ 12) (\<lambda>_. Some ex_src) (\<lambda>_. None) [112] ex_builder = Some (True, b') \<and>
     nss_mcdb_getpwnam_r plasma_ref [114] ex_pw_vinfo (ex_nss NSS_DBTYPE_PASSWD (made_file b' 0)) = Some (NSS_STATUS_SUCCESS, v', s') \<and>
     passwd_view v' = Some ex_pw \<and>
     nss_mcdb_getpwnam_r plasma_ref [115] ex_pw_vinfo (ex_nss NSS_DBTYPE_PASSWD (made_file b' 0)) = Some (NSS_STATUS_NOTFOUND, ex_pw_vinfo, s2)"
proof -
  let ?answers = "\<lambda>b'. (\<forall>t s. nss_idle NSS_DBTYPE_PASSWD s \<longrightarrow> r_fs (n_rd s) None (nss_dbnames NSS_DBTYPE_PASSWD) = Some (made_file b' t) \<longrightarrow>
      (\<forall>pw \<in> set [ex_pw].
        (\<exists>v' s'. nss_mcdb_getpwnam_r plasma_ref (pw_name pw) ex_pw_vinfo s = Some (NSS_STATUS_SUCCESS, v', s') \<and> passwd_view v' = Some pw \<and>
          serves NSS_DBTYPE_PASSWD (passwd_db [112] [ex_pw]) s') \<and>
        (\<exists>v' s'. nss_mcdb_getpwuid_r plasma_ref (pw_uid pw) ex_pw_vinfo s = Some (NSS_STATUS_SUCCESS, v', s') \<and> passwd_view v' = Some pw \<and>
          serves NSS_DBTYPE_PASSWD (passwd_db [112] [ex_pw]) s')) \<and>
      (\<forall>name. name \<notin> pw_name ` set [ex_pw] \<longrightarrow>
        (\<exists>s'. nss_mcdb_getpwnam_r plasma_ref name ex_pw_vinfo s = Some (NSS_STATUS_NOTFOUND, ex_pw_vinfo, s') \<and> n_errnop s' = ENOENT \<and>
          serves NSS_DBTYPE_PASSWD (passwd_db [112] [ex_pw]) s')))"
  have nm: "pw_name ex_pw = [114]" by (simp add: ex_pw_def)
  have L: "\<exists>b'. make_passwd_db plasma_ref (2 ^ 12) (\<lambda>_. Some ex_src) (\<lambda>_. None) [112] ex_builder = Some (True, b') \<and> ?answers b'"
    by (rule passwd_file_lookup [OF plasma_ref_bigendian _ ex_passwd_hyps(1-7) ex_passwd(4) _ _ ex_passwd_hyps(8)]) simp_all
  show ?thesis
  proof (rule ex_forward [OF L], elim conjE)
    fix b' assume b': "make_passwd_db plasma_ref (2 ^ 12) (\<lambda>_. Some ex_src) (\<lambda>_. None) [112] ex_builder = Some (True, b')" "?answers b'"
    note A = b'(2) [THEN spec [of _ 0], THEN spec [of _ "ex_nss NSS_DBTYPE_PASSWD (made_file b' 0)"], THEN mp, THEN mp, OF ex_nss_idle]
    from A [THEN conjunct1, THEN bspec [of _ _ ex_pw]] A [THEN conjunct2, THEN spec [of _ "[115]"]] b'(1)
    show "\<exists>v' s' s2. make_passwd_db plasma_ref (2 ^ 12) (\<lambda>_. Some ex_src) (\<lambda>_. None) [112] ex_builder = Some (True, b') \<and>
     nss_mcdb_getpwnam_r plasma_ref [114] ex_pw_vinfo (ex_nss NSS_DBTYPE_PASSWD (made_file b' 0)) = Some (NSS_STATUS_SUCCESS, v', s') \<and>
     passwd_view v' = Some ex_pw \<and>
     nss_mcdb_getpwnam_r plasma_ref [115] ex_pw_vinfo (ex_nss NSS_DBTYPE_PASSWD (made_file b' 0)) = Some (NSS_STATUS_NOTFOUND, ex_pw_vinfo, s2)"
      by (auto simp: nm)
  qed
qed
end
