(* ===== verification/Nss_Session_Props.thy ===== *)
theory Nss_Session_Props
  imports Nss_Query_Props
begin

text \<open>
  Enumerating the passwd database between \<^verbatim>\<open>setpwent\<close> and \<^verbatim>\<open>endpwent\<close>.
\<close>

subsection \<open>What is ahead in a passwd database\<close>

lemma passwd_db_keys: "\<forall>r \<in> set (passwd_db input pws). fst r \<noteq> []"
  by (auto simp: passwd_db_def passwd_recs_def)

lemma entries_from_passwd:
  "entries_from (passwd_db input pws) = entries_from (concat (map passwd_recs pws))"
  "entries_from (concat (map passwd_recs (pw # pws))) =
     (61 # pw_name pw, butlast (passwd_image pw)) # (120 # htonl (pw_uid pw), butlast (passwd_image pw)) # concat (map passwd_recs pws)"
  "entries_from ((120 # htonl (pw_uid pw), butlast (passwd_image pw)) # concat (map passwd_recs pws)) =
     entries_from (concat (map passwd_recs pws))"
  "entries_from [] = []"
  by (simp_all add: entries_from_def passwd_db_def passwd_recs_def)

text \<open>A session in which these entries are still to come.\<close>

definition passwd_session :: "bytes \<Rightarrow> bytes passwd list \<Rightarrow> bytes passwd list \<Rightarrow> nss \<Rightarrow> bool" where
  "passwd_session input all ahead s \<longleftrightarrow> (\<exists>rs. in_session NSS_DBTYPE_PASSWD (passwd_db input all) rs s \<and>
     entries_from rs = entries_from (concat (map passwd_recs ahead)))"

lemma passwd_session_start: "in_session NSS_DBTYPE_PASSWD (passwd_db input pws) (passwd_db input pws) s \<Longrightarrow> passwd_session input pws pws s"
  using entries_from_passwd(1) by (auto simp: passwd_session_def)

lemma passwd_session_step:
  assumes "in_session NSS_DBTYPE_PASSWD (passwd_db input all)
      ((120 # htonl (pw_uid pw), butlast (passwd_image pw)) # concat (map passwd_recs ahead)) s"
  shows "passwd_session input all ahead s"
  using assms entries_from_passwd(3) by (auto simp: passwd_session_def)

lemma getpwent_next:
  assumes P: "plasma_bigendian P" and S: "passwd_session input all (pw # ahead) s" and room: "passwd_room pw v"
  shows "\<exists>v' s'. nss_mcdb_getpwent_r P v s = Some (NSS_STATUS_SUCCESS, v', s') \<and> passwd_view v' = Some pw \<and> passwd_session input all ahead s'"
proof -
  obtain rs where "in_session NSS_DBTYPE_PASSWD (passwd_db input all) rs s" "entries_from rs = (61 # pw_name pw, butlast (passwd_image pw)) #
      (120 # htonl (pw_uid pw), butlast (passwd_image pw)) # concat (map passwd_recs ahead)"
    using S entries_from_passwd(2) by (auto simp: passwd_session_def)
  from pw_codec.getent_next [OF P this(1) passwd_db_keys this(2) room] show ?thesis
    unfolding nss_mcdb_getpwent_r_def using passwd_session_step by blast
qed

lemma getpwent_last:
  assumes P: "plasma_bigendian P" and S: "passwd_session input all [] s"
  shows "\<exists>s'. nss_mcdb_getpwent_r P v s = Some (NSS_STATUS_NOTFOUND, v, s') \<and> n_errnop s' = ENOENT \<and> passwd_session input all [] s'"
proof -
  obtain rs where "in_session NSS_DBTYPE_PASSWD (passwd_db input all) rs s" "entries_from rs = []"
    using S entries_from_passwd(4) by (auto simp: passwd_session_def)
  from getent_at_end [OF P this(1) passwd_db_keys this(2), of nss_mcdb_acct_passwd_decode v] show ?thesis
    unfolding nss_mcdb_getpwent_r_def passwd_session_def by auto
qed

lemma endpwent_session:
  assumes "passwd_session input all ahead s"
  shows "\<exists>s'. nss_mcdb_endpwent s = Some s' \<and> serves NSS_DBTYPE_PASSWD (passwd_db input all) s'"
  using assms endent_closes by (fastforce simp: passwd_session_def nss_mcdb_endpwent_def)

text \<open>The caller: one call for each buffer.\<close>

fun getpwents :: "plasma_endian \<Rightarrow> u64 passwd vinfo list \<Rightarrow> nss \<Rightarrow> ((nss_status \<times> u64 passwd vinfo) list \<times> nss) option" where
  "getpwents P [] s = Some ([], s)"
| "getpwents P (v # vs) s = do {
     (st, v', s1) \<leftarrow> nss_mcdb_getpwent_r P v s;
     (rest, s2) \<leftarrow> getpwents P vs s1;
     Some ((st, v') # rest, s2) }"

lemma getpwents_all:
  assumes P: "plasma_bigendian P"
  shows "list_all2 passwd_room pws vs \<Longrightarrow> passwd_session input all pws s \<Longrightarrow>
    \<exists>res s'. getpwents P vs s = Some (res, s') \<and> map fst res = replicate (length pws) NSS_STATUS_SUCCESS \<and>
      map (passwd_view \<circ> snd) res = map Some pws \<and> passwd_session input all [] s'"
proof (induction pws vs arbitrary: s rule: list_all2_induct)
  case Nil
  then show ?case by simp
next
  case (Cons pw pws v vs)
  from getpwent_next [OF P Cons.prems Cons.hyps(1)] obtain v' s1 where
    "nss_mcdb_getpwent_r P v s = Some (NSS_STATUS_SUCCESS, v', s1)" "passwd_view v' = Some pw" "passwd_session input all pws s1" by blast
  moreover from Cons.IH [OF this(3)] obtain res s' where "getpwents P vs s1 = Some (res, s')"
    "map fst res = replicate (length pws) NSS_STATUS_SUCCESS" "map (passwd_view \<circ> snd) res = map Some pws" "passwd_session input all [] s'"
    by blast
  ultimately show ?case by (simp add: comp_def)
qed

lemma setpwent_session:
  assumes "available NSS_DBTYPE_PASSWD (passwd_db input pws) s \<or> passwd_session input pws ahead s"
  shows "\<exists>s1. nss_mcdb_setpwent s = Some s1 \<and> passwd_session input pws pws s1"
  using assms
proof
  assume "available NSS_DBTYPE_PASSWD (passwd_db input pws) s"
  from setent_opens [OF this] show ?thesis using passwd_session_start by (fastforce simp: nss_mcdb_setpwent_def)
next
  assume "passwd_session input pws ahead s"
  then obtain rs where "in_session NSS_DBTYPE_PASSWD (passwd_db input pws) rs s" by (auto simp: passwd_session_def)
  from setent_rewinds [OF this] show ?thesis using passwd_session_start by (fastforce simp: nss_mcdb_setpwent_def)
qed

subsection \<open>The properties\<close>

text \<open>C37: \<^verbatim>\<open>setpwent\<close> opens the database, or goes back to its start in a session, from wherever that is;
  then \<^verbatim>\<open>getpwent_r\<close> delivers each entry once, in the order of the text that the database was made
  from, then \<^verbatim>\<open>ENOENT\<close>; \<^verbatim>\<open>endpwent\<close> gives the reference back, and the shared map stays open.\<close>

theorem passwd_enumeration:
  assumes "plasma_bigendian P" "available NSS_DBTYPE_PASSWD (passwd_db input pws) s \<or> passwd_session input pws ahead s"
    and "list_all2 passwd_room pws vs"
  shows "\<exists>s1 res s2 s3 s4. nss_mcdb_setpwent s = Some s1 \<and> getpwents P vs s1 = Some (res, s2) \<and>
    map fst res = replicate (length pws) NSS_STATUS_SUCCESS \<and> map (passwd_view \<circ> snd) res = map Some pws \<and>
    nss_mcdb_getpwent_r P v s2 = Some (NSS_STATUS_NOTFOUND, v, s3) \<and> n_errnop s3 = ENOENT \<and>
    nss_mcdb_endpwent s3 = Some s4 \<and> serves NSS_DBTYPE_PASSWD (passwd_db input pws) s4"
proof -
  obtain s1 where s1: "nss_mcdb_setpwent s = Some s1" "passwd_session input pws pws s1" using setpwent_session [OF assms(2)] by blast
  from getpwents_all [OF assms(1,3) s1(2)] obtain res s2 where s2: "getpwents P vs s1 = Some (res, s2)"
    "map fst res = replicate (length pws) NSS_STATUS_SUCCESS" "map (passwd_view \<circ> snd) res = map Some pws" "passwd_session input pws [] s2"
    by blast
  from getpwent_last [OF assms(1) s2(4)] obtain s3 where s3: "nss_mcdb_getpwent_r P v s2 = Some (NSS_STATUS_NOTFOUND, v, s3)"
    "n_errnop s3 = ENOENT" "passwd_session input pws [] s3" by blast
  from endpwent_session [OF s3(3)] s1(1) s2(1-3) s3(1,2) show ?thesis by blast
qed

lemma passwd_decode_small:
  assumes "found_data m w (butlast (passwd_image pw))" "v_bufsz v < length (passwd_image pw) - NSS_PW_HDRSZ"
  shows "nss_mcdb_acct_passwd_decode m v w = Some (NSS_STATUS_TRYAGAIN, v, w\<lparr>r_errno := ERANGE\<rparr>)"
proof -
  obtain mm where mm: "get_map (m_map m) w = Some mm" "length (butlast (passwd_image pw)) = unat (m_dlen m)"
    using found_dataE [OF assms(1)] by blast
  have "NSS_PW_HDRSZ < length (passwd_image pw)" by (simp add: length_passwd_image)
  then have hdr: "NSS_PW_HDRSZ \<le> unat (m_dlen m)" "length (passwd_image pw) = Suc (unat (m_dlen m))" using mm(2) by simp_all
  have "size_diff (unat (m_dlen m)) NSS_PW_HDRSZ = unat (m_dlen m) - NSS_PW_HDRSZ"
    by (rule size_diff_le [OF hdr(1)]) (use unat_u32_less [of "m_dlen m"] in simp)
  then have "\<not> size_diff (unat (m_dlen m)) NSS_PW_HDRSZ < v_bufsz v" using assms(2) hdr by simp
  then show ?thesis using mm(1) by (simp add: nss_mcdb_acct_passwd_decode_def Let_def)
qed

text \<open>C38: an entry that does not fit in the caller's buffer is reported with \<^verbatim>\<open>ERANGE\<close>, and the
  enumeration has already moved past it: the next call, whatever its buffer, looks at the entries behind it.\<close>

theorem getpwent_erange_skips:
  assumes "plasma_bigendian P" "passwd_session input pws (pw # ahead) s"
    and "v_bufsz v < length (passwd_image pw) - NSS_PW_HDRSZ"
  shows "\<exists>s1. nss_mcdb_getpwent_r P v s = Some (NSS_STATUS_TRYAGAIN, v, s1) \<and> n_errnop s1 = ERANGE \<and> passwd_session input pws ahead s1 \<and>
    (case ahead of
       [] \<Rightarrow> \<exists>s2. nss_mcdb_getpwent_r P u s1 = Some (NSS_STATUS_NOTFOUND, u, s2)
     | pw2 # _ \<Rightarrow> passwd_room pw2 u \<longrightarrow>
         (\<exists>u' s2. nss_mcdb_getpwent_r P u s1 = Some (NSS_STATUS_SUCCESS, u', s2) \<and> passwd_view u' = Some pw2))"
proof -
  obtain rs where rs: "in_session NSS_DBTYPE_PASSWD (passwd_db input pws) rs s" "entries_from rs = (61 # pw_name pw, butlast (passwd_image pw)) #
      (120 # htonl (pw_uid pw), butlast (passwd_image pw)) # concat (map passwd_recs ahead)"
    using assms(2) entries_from_passwd(2) by (auto simp: passwd_session_def)
  from getent_in_session [OF assms(1) rs(1) passwd_db_keys, of nss_mcdb_acct_passwd_decode v] rs(2) obtain s0 m where
    g: "nss_mcdb_getpwent_r P v s = v_decode nss_mcdb_acct_passwd_decode m v s0" "found_data m (n_rd s0) (butlast (passwd_image pw))"
      "in_session NSS_DBTYPE_PASSWD (passwd_db input pws)
        ((120 # htonl (pw_uid pw), butlast (passwd_image pw)) # concat (map passwd_recs ahead)) s0"
    by (auto simp: nss_mcdb_getpwent_r_def)
  define s1 where "s1 = s0\<lparr>n_rd := (n_rd s0)\<lparr>r_errno := ERANGE\<rparr>\<rparr>\<lparr>n_errnop := ERANGE\<rparr>"
  have r: "nss_mcdb_getpwent_r P v s = Some (NSS_STATUS_TRYAGAIN, v, s1)"
    unfolding g(1) v_decode_def passwd_decode_small [OF g(2) assms(3)] by (simp add: s1_def)
  have ses: "passwd_session input pws ahead s1" by (rule passwd_session_step) (use g(3) in \<open>simp add: s1_def\<close>)
  have "case ahead of
       [] \<Rightarrow> \<exists>s2. nss_mcdb_getpwent_r P u s1 = Some (NSS_STATUS_NOTFOUND, u, s2)
     | pw2 # _ \<Rightarrow> passwd_room pw2 u \<longrightarrow>
         (\<exists>u' s2. nss_mcdb_getpwent_r P u s1 = Some (NSS_STATUS_SUCCESS, u', s2) \<and> passwd_view u' = Some pw2)"
    using ses getpwent_last [OF assms(1), of input pws s1 u] getpwent_next [OF assms(1), of input pws _ _ s1 u]
    by (auto split: list.split) blast+
  with r ses show ?thesis by (intro exI [of _ s1]) (simp add: s1_def)
qed


subsection \<open>Witnesses\<close>

definition ex_pw2 :: "bytes passwd" where
  "ex_pw2 = ex_pw\<lparr>pw_name := [115], pw_uid := 6\<rparr>"

lemma ex_pws_image: "length (passwd_image ex_pw) = 24" "length (passwd_image ex_pw2) = 24"
  unfolding length_passwd_image str_offs by (simp_all add: ex_pw_def ex_pw2_def NSS_PW_HDRSZ_def)

lemma ex_pws_room: "passwd_room ex_pw ex_pw_vinfo" "passwd_room ex_pw2 ex_pw_vinfo"
proof -
  have "passwd_fits 25 ex_pw2"
    unfolding passwd_fits_def ex_pws_image str_offs by (simp add: ex_pw_def ex_pw2_def USHRT_MAX_def)
  moreover have "passwd_printable ex_pw2" by (simp add: passwd_printable_def passwd_strs_def ex_pw_def ex_pw2_def fld_def)
  moreover have "25 \<le> v_bufsz ex_pw_vinfo + NSS_PW_HDRSZ" by (simp add: ex_pw_vinfo_def NSS_PW_HDRSZ_def)
  ultimately show "passwd_room ex_pw ex_pw_vinfo" "passwd_room ex_pw2 ex_pw_vinfo"
    using ex_passwd(1,2) by (blast intro: printable_room)+
qed

lemma ex_pws_file: "\<exists>x. disk_db x (passwd_db [112] [ex_pw, ex_pw2])"
proof -
  have nm: "length (pw_name ex_pw) = 1" "length (pw_name ex_pw2) = 1" by (simp_all add: ex_pw_def ex_pw2_def)
  have ok: "recs_ok djb_hash (passwd_db [112] [ex_pw, ex_pw2])"
    by (rule recs_ok_few) (simp_all add: passwd_db_def passwd_recs_def ex_pws_image nm default_entry_def hosts_word_def
      mcdb_word_def data_bytes_def rec_bytes_def INT_MAX_def)
  obtain w' where "make_db plasma_ref (2 ^ 12) 3 (passwd_db [112] [ex_pw, ex_pw2]) (os_empty (\<lambda>_. 0) (\<lambda>_. 7)) = Some (0, w')"
    using make_db_willing [OF plasma_ref_bigendian _ _ os_empty_willing(1) ok, of 12 3] by auto
  from make_db_file [OF plasma_ref_bigendian _ _ os_empty_willing(2) ok this] ok
  have "disk_db \<lparr>f_bytes = o_file w', f_size = o_flen w', f_mtime = 0\<rparr> (passwd_db [112] [ex_pw, ex_pw2])" by (simp add: disk_db_def)
  then show ?thesis by blast
qed

lemma ex_pws_available: "disk_db x recs \<Longrightarrow> available db recs (ex_nss db x)"
  by (rule unopened_available) (use ex_nss_idle in \<open>auto simp: unopened_def\<close>)

theorem passwd_enumeration_witness:
  "\<exists>x s1 res s2 s3 s4. disk_db x (passwd_db [112] [ex_pw, ex_pw2]) \<and>
     nss_mcdb_setpwent (ex_nss NSS_DBTYPE_PASSWD x) = Some s1 \<and>
     getpwents plasma_ref [ex_pw_vinfo, ex_pw_vinfo] s1 = Some (res, s2) \<and> map (passwd_view \<circ> snd) res = [Some ex_pw, Some ex_pw2] \<and>
     nss_mcdb_getpwent_r plasma_ref ex_pw_vinfo s2 = Some (NSS_STATUS_NOTFOUND, ex_pw_vinfo, s3) \<and> nss_mcdb_endpwent s3 = Some s4"
proof -
  obtain x where x: "disk_db x (passwd_db [112] [ex_pw, ex_pw2])" using ex_pws_file by blast
  have room: "list_all2 passwd_room [ex_pw, ex_pw2] [ex_pw_vinfo, ex_pw_vinfo]" using ex_pws_room by simp
  from passwd_enumeration [OF plasma_ref_bigendian disjI1 [OF ex_pws_available [OF x, of NSS_DBTYPE_PASSWD]] room, of ex_pw_vinfo] x
  show ?thesis by (simp del: getpwents.simps) (elim exE conjE, intro exI conjI, assumption+)
qed

lemma ex_pws_session: "disk_db x (passwd_db [112] [ex_pw, ex_pw2]) \<Longrightarrow>
    \<exists>s. nss_mcdb_setpwent (ex_nss NSS_DBTYPE_PASSWD x) = Some s \<and> passwd_session [112] [ex_pw, ex_pw2] [ex_pw, ex_pw2] s"
  using setpwent_session ex_pws_available by blast

definition ex_pw_small :: "u64 passwd vinfo" where
  "ex_pw_small = ex_vinfo 4096 3 (v_struct ex_pw_vinfo)"

theorem getpwent_erange_skips_witness:
  "\<exists>x s s1 u' s2. disk_db x (passwd_db [112] [ex_pw, ex_pw2]) \<and> nss_mcdb_setpwent (ex_nss NSS_DBTYPE_PASSWD x) = Some s \<and>
     nss_mcdb_getpwent_r plasma_ref ex_pw_small s = Some (NSS_STATUS_TRYAGAIN, ex_pw_small, s1) \<and> n_errnop s1 = ERANGE \<and>
     nss_mcdb_getpwent_r plasma_ref ex_pw_vinfo s1 = Some (NSS_STATUS_SUCCESS, u', s2) \<and> passwd_view u' = Some ex_pw2"
proof -
  obtain x where x: "disk_db x (passwd_db [112] [ex_pw, ex_pw2])" using ex_pws_file by blast
  obtain s where s: "nss_mcdb_setpwent (ex_nss NSS_DBTYPE_PASSWD x) = Some s" "passwd_session [112] [ex_pw, ex_pw2] [ex_pw, ex_pw2] s"
    using ex_pws_session [OF x] by blast
  have small: "v_bufsz ex_pw_small < length (passwd_image ex_pw) - NSS_PW_HDRSZ"
    by (simp add: ex_pws_image ex_pw_small_def NSS_PW_HDRSZ_def)
  from getpwent_erange_skips [OF plasma_ref_bigendian s(2) small, of ex_pw_vinfo] ex_pws_room(2) x s(1)
  show ?thesis by auto
qed

end
