(* ===== verification/Nss_Authn.thy ===== *)
theory Nss_Authn
  imports Nss_Mcdb Nss_Acct_Make
begin

text \<open>
  The shadow database, nss_mcdb_authn.c and nss_mcdb_authn_make.c: the stored form of its entries,
  the parser of /etc/shadow, and the entry points.  The numbers of an entry are \<^verbatim>\<open>long\<close>, stored as 32
  bits; the struct is polymorphic in what a string is, as for passwd.
\<close>

record 's spwd =
  sp_namp :: 's
  sp_pwdp :: 's
  sp_lstchg :: u64
  sp_min :: u64
  sp_max :: u64
  sp_warn :: u64
  sp_inact :: u64
  sp_expire :: u64
  sp_flag :: u64

definition NSS_SP_LSTCHG :: nat where "NSS_SP_LSTCHG = 0"
definition NSS_SP_MIN :: nat where "NSS_SP_MIN = 4"
definition NSS_SP_MAX :: nat where "NSS_SP_MAX = 8"
definition NSS_SP_WARN :: nat where "NSS_SP_WARN = 12"
definition NSS_SP_INACT :: nat where "NSS_SP_INACT = 16"
definition NSS_SP_EXPIRE :: nat where "NSS_SP_EXPIRE = 20"
definition NSS_SP_FLAG :: nat where "NSS_SP_FLAG = 24"
definition NSS_SP_PWDP :: nat where "NSS_SP_PWDP = 28"
definition NSS_SP_HDRSZ :: nat where "NSS_SP_HDRSZ = 32"

lemmas nss_authn_consts = NSS_SP_LSTCHG_def NSS_SP_MIN_def NSS_SP_MAX_def NSS_SP_WARN_def NSS_SP_INACT_def
  NSS_SP_EXPIRE_def NSS_SP_FLAG_def NSS_SP_PWDP_def NSS_SP_HDRSZ_def

subsection \<open>Encoding\<close>

definition spwd_hdr :: "'s spwd \<Rightarrow> nat \<Rightarrow> bytes" where
  "spwd_hdr sp sp_pwdp_offset =
     mem_slice
       (put_hdr (NSS_SP_HDRSZ - 2) [0, 0] (put_hdr NSS_SP_PWDP (htons sp_pwdp_offset)
       (put_hdr NSS_SP_FLAG (htonl (ucast (sp_flag sp))) (put_hdr NSS_SP_EXPIRE (htonl (ucast (sp_expire sp)))
       (put_hdr NSS_SP_INACT (htonl (ucast (sp_inact sp))) (put_hdr NSS_SP_WARN (htonl (ucast (sp_warn sp)))
       (put_hdr NSS_SP_MAX (htonl (ucast (sp_max sp))) (put_hdr NSS_SP_MIN (htonl (ucast (sp_min sp)))
       (put_hdr NSS_SP_LSTCHG (htonl (ucast (sp_lstchg sp))) (\<lambda>_. 0)))))))))) 0 NSS_SP_HDRSZ"

definition nss_mcdb_authn_make_spwd_datastr ::
  "nat \<Rightarrow> mem \<Rightarrow> bytes spwd \<Rightarrow> nat \<Rightarrow> (nat \<times> mem \<times> nat) option" where
  "nss_mcdb_authn_make_spwd_datastr bufsz buf sp errno =
    (let sp_pwdp_offset = 1 + length (sp_namp sp);
         dlen = NSS_SP_HDRSZ + sp_pwdp_offset + (1 + length (sp_pwdp sp))
     in if dlen \<le> bufsz \<and> sp_pwdp_offset \<le> USHRT_MAX then do {
          b1 \<leftarrow> buf_store bufsz 0 (spwd_hdr sp sp_pwdp_offset) buf;
          b2 \<leftarrow> buf_store bufsz NSS_SP_HDRSZ (cz (sp_namp sp)) b1;
          b3 \<leftarrow> buf_store bufsz (NSS_SP_HDRSZ + sp_pwdp_offset) (cz (sp_pwdp sp)) b2;
          Some (dlen - 1, b3, errno) }
        else Some (0, buf, ERANGE))"

definition nss_mcdb_authn_make_spwd_encode ::
  "plasma_endian \<Rightarrow> bytes spwd \<Rightarrow> winfo \<Rightarrow> os \<Rightarrow> (bool \<times> winfo \<times> os) option" where
  "nss_mcdb_authn_make_spwd_encode P sp w s = do {
     (dlen, buf, e) \<leftarrow> nss_mcdb_authn_make_spwd_datastr (wi_datasz w) (wi_data w) sp (o_errno s);
     let w1 = w\<lparr>wi_data := buf, wi_dlen := dlen\<rparr>;
     let s1 = s\<lparr>o_errno := e\<rparr>;
     if dlen = 0 then Some (False, w1, s1)
     else write_tagged P 61 (sp_namp sp) w1 s1 }"

subsection \<open>/etc/shadow\<close>

definition INT_MIN :: int where "INT_MIN = - (2 ^ 31)"

text \<open>A number of a shadow line; an empty field is -1.\<close>

definition long_of_str :: "bytes \<Rightarrow> u64 option" where
  "long_of_str s =
    (let (n, e, erange) = strtol10 s
     in if e \<noteq> length s \<or> (n = LONG_MIN \<or> n = LONG_MAX) \<and> erange then None
        else if n < INT_MIN \<or> int INT_MAX < n then None else Some (word_of_int n))"

definition nss_mcdb_authn_make_parse_long_int_colon ::
  "nat \<Rightarrow> nat \<Rightarrow> mem \<Rightarrow> (u64 \<times> nat \<times> mem) option option" where
  "nss_mcdb_authn_make_parse_long_int_colon ext b f = do {
     p \<leftarrow> TOKEN_COLONDELIM_END ext f b;
     d \<leftarrow> text_at ext f p;
     if d \<noteq> 58 then Some None
     else if b = p then Some (Some (-1, p, f))
     else do {
       let f1 = f(p := 0);
       s \<leftarrow> cstr_at ext f1 b;
       Some (map_option (\<lambda>n. (n, p, f1)) (long_of_str s)) } }"

text \<open>\<^verbatim>\<open>strtoul(s, &e, 10)\<close> on 64 bits: a minus sign negates the result.\<close>

definition ULONG_MAX :: nat where "ULONG_MAX = 2 ^ 64 - 1"

definition strtoul_10 :: "bytes \<Rightarrow> nat \<times> nat \<times> bool" where
  "strtoul_10 s =
    (let ws = length (takeWhile c_isspace s); r = drop ws s;
         neg = (r \<noteq> [] \<and> hd r = 45); sg = (if r \<noteq> [] \<and> (hd r = 45 \<or> hd r = 43) then 1 else 0);
         ds = takeWhile is_digit (drop sg r); v = dec_val ds; e = ws + sg + length ds
     in if ds = [] then (0, 0, False)
        else if ULONG_MAX < v then (ULONG_MAX, e, True)
        else (if neg then (2 ^ 64 - v) mod 2 ^ 64 else v, e, False))"

definition flag_of_str :: "bytes \<Rightarrow> u64 option" where
  "flag_of_str s =
    (let (u, e, erange) = strtoul_10 s
     in if e \<noteq> length s \<or> u = ULONG_MAX \<and> erange then None
        else if 4294967295 < u then None else Some (ucast (word_of_nat u :: u32)))"

text \<open>The last field, up to the end of the line; an empty one is \<^verbatim>\<open>~0\<close>.\<close>

definition flag_field :: "nat \<Rightarrow> nat \<Rightarrow> mem \<Rightarrow> (u64 \<times> nat \<times> mem) option option" where
  "flag_field ext b f = do {
     p \<leftarrow> TOKEN_COLONDELIM_END ext f b;
     d \<leftarrow> text_at ext f p;
     if d \<noteq> 10 then Some None
     else if b = p then Some (Some (-1, p, f))
     else do {
       let f1 = f(p := 0);
       s \<leftarrow> cstr_at ext f1 b;
       Some (map_option (\<lambda>u. (u, p, f1)) (flag_of_str s)) } }"

definition shadow_line :: "nat \<Rightarrow> nat \<Rightarrow> mem \<Rightarrow> (bytes spwd \<times> nat \<times> mem) option option" where
  "shadow_line ext b f =
     and_then (colon_field ext True 58 b f) (\<lambda>(p1, f1).
     and_then (colon_field ext True 58 (Suc p1) f1) (\<lambda>(p2, f2).
     and_then (nss_mcdb_authn_make_parse_long_int_colon ext (Suc p2) f2) (\<lambda>(lstchg, p3, f3).
     and_then (nss_mcdb_authn_make_parse_long_int_colon ext (Suc p3) f3) (\<lambda>(mn, p4, f4).
     and_then (nss_mcdb_authn_make_parse_long_int_colon ext (Suc p4) f4) (\<lambda>(mx, p5, f5).
     and_then (nss_mcdb_authn_make_parse_long_int_colon ext (Suc p5) f5) (\<lambda>(warn, p6, f6).
     and_then (nss_mcdb_authn_make_parse_long_int_colon ext (Suc p6) f6) (\<lambda>(inact, p7, f7).
     and_then (nss_mcdb_authn_make_parse_long_int_colon ext (Suc p7) f7) (\<lambda>(expire, p8, f8).
     and_then (flag_field ext (Suc p8) f8) (\<lambda>(flag, p9, f9). do {
       namp \<leftarrow> cstr_at ext f9 b;
       pwdp \<leftarrow> cstr_at ext f9 (Suc p1);
       Some (Some (\<lparr>sp_namp = namp, sp_pwdp = pwdp, sp_lstchg = lstchg, sp_min = mn, sp_max = mx, sp_warn = warn,
                    sp_inact = inact, sp_expire = expire, sp_flag = flag\<rparr>, p9, f9)) })))))))))"

partial_function (option) nss_mcdb_authn_make_shadow_parse ::
  "(bytes spwd \<Rightarrow> 's \<Rightarrow> (bool \<times> 's) option) \<Rightarrow> nat \<Rightarrow> nat \<Rightarrow> mem \<Rightarrow> 's \<Rightarrow> (bool \<times> 's) option" where
  "nss_mcdb_authn_make_shadow_parse enc ext p f s = do {
     c \<leftarrow> text_at ext f p;
     if c = 0 then Some (True, s)
     else if c = 35 then do {
       q \<leftarrow> TOKEN_POUNDCOMMENT_SKIP ext f p;
       d \<leftarrow> text_at ext f q;
       if d \<noteq> 0 then nss_mcdb_authn_make_shadow_parse enc ext (Suc q) f s else Some (True, s) }
     else do {
       r \<leftarrow> shadow_line ext p f;
       case r of None \<Rightarrow> Some (False, s)
       | Some (sp, q, f1) \<Rightarrow> do {
           (ok, s1) \<leftarrow> enc sp s;
           if ok then nss_mcdb_authn_make_shadow_parse enc ext (Suc q) f1 s1 else Some (False, s1) } } }"

subsection \<open>Decoding\<close>

definition long_of_u32 :: "u32 \<Rightarrow> u64" where
  "long_of_u32 u = word_of_int (sint u)"

definition nss_mcdb_authn_spwd_decode :: "u64 spwd vinfo decoder" where
  "nss_mcdb_authn_spwd_decode m v w = do {
     mm \<leftarrow> get_map (m_map m) w;
     let dlen = size_diff (unat (m_dlen m)) NSS_SP_HDRSZ;
     if dlen < v_bufsz v then do {
       dat \<leftarrow> map_load mm (m_dpos m + of_nat NSS_SP_HDRSZ) dlen;
       v1 \<leftarrow> vbuf_store 0 dat v;
       v2 \<leftarrow> vbuf_store dlen [0] v1;
       hdr \<leftarrow> map_load mm (m_dpos m) NSS_SP_HDRSZ;
       let num = (\<lambda>field. long_of_u32 (ntohl hdr field));
       Some (NSS_STATUS_SUCCESS,
         v2\<lparr>v_struct := \<lparr>sp_namp = v_addr v, sp_pwdp = v_addr v + of_nat (ntohs hdr NSS_SP_PWDP),
               sp_lstchg = num NSS_SP_LSTCHG, sp_min = num NSS_SP_MIN, sp_max = num NSS_SP_MAX,
               sp_warn = num NSS_SP_WARN, sp_inact = num NSS_SP_INACT, sp_expire = num NSS_SP_EXPIRE,
               sp_flag = ucast (ntohl hdr NSS_SP_FLAG)\<rparr>\<rparr>, w) }
     else Some (NSS_STATUS_TRYAGAIN, v, w\<lparr>r_errno := ERANGE\<rparr>) }"

subsection \<open>Entry points\<close>

definition nss_mcdb_setspent :: "nss \<Rightarrow> nss option" where
  "nss_mcdb_setspent s = map_option snd (nss_mcdb_setent NSS_DBTYPE_SHADOW s)"

definition nss_mcdb_endspent :: "nss \<Rightarrow> nss option" where
  "nss_mcdb_endspent s = map_option snd (nss_mcdb_endent NSS_DBTYPE_SHADOW s)"

definition nss_mcdb_getspent_r ::
  "plasma_endian \<Rightarrow> u64 spwd vinfo \<Rightarrow> nss \<Rightarrow> (nss_status \<times> u64 spwd vinfo \<times> nss) option" where
  "nss_mcdb_getspent_r P v s = nss_mcdb_getent P NSS_DBTYPE_SHADOW nss_mcdb_authn_spwd_decode v s"

definition nss_mcdb_getspnam_r ::
  "plasma_endian \<Rightarrow> bytes \<Rightarrow> u64 spwd vinfo \<Rightarrow> nss \<Rightarrow> (nss_status \<times> u64 spwd vinfo \<times> nss) option" where
  "nss_mcdb_getspnam_r P name v s = nss_mcdb_get_generic P NSS_DBTYPE_SHADOW nss_mcdb_authn_spwd_decode name 61 v s"

end
