(* ===== verification/Nss_Authn_Proofs.thy ===== *)
theory Nss_Authn_Proofs
  imports Nss_Authn Nss_Session_Proofs Nss_Parse_Total Nss_Make_Proofs
begin

text \<open>
  Entries of the shadow database: what the encoder stores, what the decoder gives back of it, the
  decoder as a codec for the queries, and the parser as a line parser.
\<close>

subsection \<open>Headers\<close>

lemma length_spwd_hdr [simp]: "length (spwd_hdr sp n) = NSS_SP_HDRSZ"
  by (simp add: spwd_hdr_def)

lemma be_val_htonl_u32: "(word_of_nat (be_val (htonl v)) :: u32) = v"
  using be_val_htonl .

lemma spwd_hdr_fields:
  assumes "n \<le> USHRT_MAX"
  shows "ntohs (spwd_hdr sp n) NSS_SP_PWDP = n" "ntohl (spwd_hdr sp n) NSS_SP_LSTCHG = ucast (sp_lstchg sp)"
    "ntohl (spwd_hdr sp n) NSS_SP_MIN = ucast (sp_min sp)" "ntohl (spwd_hdr sp n) NSS_SP_MAX = ucast (sp_max sp)"
    "ntohl (spwd_hdr sp n) NSS_SP_WARN = ucast (sp_warn sp)" "ntohl (spwd_hdr sp n) NSS_SP_INACT = ucast (sp_inact sp)"
    "ntohl (spwd_hdr sp n) NSS_SP_EXPIRE = ucast (sp_expire sp)" "ntohl (spwd_hdr sp n) NSS_SP_FLAG = ucast (sp_flag sp)"
  using assms by (simp_all add: spwd_hdr_def nss_authn_consts hdr_simps)

subsection \<open>Encoding\<close>

definition spwd_strs :: "bytes spwd \<Rightarrow> bytes list" where
  "spwd_strs sp = [sp_namp sp, sp_pwdp sp]"

definition spwd_image :: "bytes spwd \<Rightarrow> bytes" where
  "spwd_image sp = spwd_hdr sp (str_off (spwd_strs sp) 1) @ concat (map cz (spwd_strs sp))"

definition spwd_fits :: "nat \<Rightarrow> bytes spwd \<Rightarrow> bool" where
  "spwd_fits bufsz sp \<longleftrightarrow> length (spwd_image sp) \<le> bufsz \<and> str_off (spwd_strs sp) 1 \<le> USHRT_MAX"

lemma spwd_str_off: "str_off (spwd_strs sp) 1 = 1 + length (sp_namp sp)" "str_off (spwd_strs sp) 0 = 0"
  by (simp_all add: str_off_def spwd_strs_def)

lemma length_spwd_image: "length (spwd_image sp) = NSS_SP_HDRSZ + (1 + length (sp_namp sp)) + (1 + length (sp_pwdp sp))"
  by (simp add: spwd_image_def spwd_str_off) (simp add: spwd_strs_def)

lemma spwd_datastr_eq:
  "nss_mcdb_authn_make_spwd_datastr bufsz buf sp e =
     (if spwd_fits bufsz sp then Some (length (spwd_image sp) - 1, mem_upd buf 0 (spwd_image sp), e) else Some (0, buf, ERANGE))"
proof (cases "spwd_fits bufsz sp")
  case True
  then have "NSS_SP_HDRSZ + (1 + length (sp_namp sp)) + (1 + length (sp_pwdp sp)) \<le> bufsz" "1 + length (sp_namp sp) \<le> USHRT_MAX"
    unfolding spwd_fits_def length_spwd_image spwd_str_off by simp_all
  then show ?thesis using True
    by (simp add: nss_mcdb_authn_make_spwd_datastr_def Let_def buf_store_in store_next length_spwd_image)
      (simp add: spwd_image_def spwd_strs_def str_off_def)
next
  case False
  then show ?thesis
    unfolding spwd_fits_def length_spwd_image spwd_str_off by (auto simp: nss_mcdb_authn_make_spwd_datastr_def Let_def)
qed

subsection \<open>Decoding\<close>

text \<open>A header followed by NUL-terminated strings, of which the last lacks its NUL: the loads and
  stores of a decoder that copies the strings to the start of the buffer.\<close>

lemma copied_strings:
  assumes found: "found_data m w (hdr @ butlast (concat (map cz ss)))" and ne: "ss \<noteq> []" 
    and fit: "length (concat (map cz ss)) \<le> v_bufsz v"
  obtains mm where "get_map (m_map m) w = Some mm" "size_diff (unat (m_dlen m)) (length hdr) = length (concat (map cz ss)) - 1"
    "map_load mm (m_dpos m) (length hdr) = Some hdr"
    "map_load mm (m_dpos m + of_nat (length hdr)) (length (concat (map cz ss)) - 1) = Some (butlast (concat (map cz ss)))"
    "vbuf_store 0 (butlast (concat (map cz ss))) v = Some (v\<lparr>v_mem := mem_upd (v_mem v) 0 (butlast (concat (map cz ss)))\<rparr>)"
    "vbuf_store (length (concat (map cz ss)) - 1) [0] (v\<lparr>v_mem := mem_upd (v_mem v) 0 (butlast (concat (map cz ss)))\<rparr>) =
      Some (v\<lparr>v_mem := mem_upd (v_mem v) 0 (concat (map cz ss))\<rparr>)"
    "length (concat (map cz ss)) - 1 < v_bufsz v"
proof -
  define S where "S = concat (map cz ss)"
  obtain mm where mm: "get_map (m_map m) w = Some mm" "mm_size mm < 2 ^ 64"
      "map_load mm (m_dpos m) (unat (m_dlen m)) = Some (hdr @ butlast S)" "length (hdr @ butlast S) = unat (m_dlen m)"
    using found_dataE [OF found] unfolding S_def by metis
  obtain ss' s where "ss = ss' @ [s]" using ne by (cases ss rule: rev_cases) auto
  then have S: "S = butlast S @ [0]" "S \<noteq> []" by (simp_all add: S_def cz_def butlast_append)
  then have pos: "0 < length S" by simp
  have len: "unat (m_dlen m) = length hdr + (length S - 1)" using mm(4) by simp
  have "size_diff (unat (m_dlen m)) (length hdr) = length S - 1"
    using len unat_u32_less [of "m_dlen m"] by (simp add: size_diff_le)
  moreover have "map_load mm (m_dpos m) (length hdr) = Some hdr"
    using found_head [OF mm(3,2), of "length hdr"] len by simp
  moreover have "map_load mm (m_dpos m + of_nat (length hdr)) (length S - 1) = Some (butlast S)"
    using found_part [OF mm(3,2), of "length hdr" "length S - 1"] len by simp
  moreover have "vbuf_store 0 (butlast S) v = Some (v\<lparr>v_mem := mem_upd (v_mem v) 0 (butlast S)\<rparr>)"
    using fit by (simp add: vbuf_store_def buf_store_def S_def)
  moreover have "mem_upd (mem_upd (v_mem v) 0 (butlast S)) (length S - 1) [0] = mem_upd (v_mem v) 0 S"
    using store_next [of "length S - 1" "butlast S" "v_mem v" "[0]"] S(1) by simp
  then have "vbuf_store (length S - 1) [0] (v\<lparr>v_mem := mem_upd (v_mem v) 0 (butlast S)\<rparr>) = Some (v\<lparr>v_mem := mem_upd (v_mem v) 0 S\<rparr>)"
    using fit pos by (simp add: vbuf_store_def buf_store_def S_def)
  moreover have "length S \<le> v_bufsz v" using fit by (simp only: S_def)
  then have "length S - 1 < v_bufsz v" using pos by linarith
  ultimately show ?thesis using mm(1) that [of mm] by (simp only: S_def)
qed

definition spwd_view :: "u64 spwd vinfo \<Rightarrow> bytes spwd option" where
  "spwd_view v = do {
     namp \<leftarrow> ptr_str v (sp_namp (v_struct v));
     pwdp \<leftarrow> ptr_str v (sp_pwdp (v_struct v));
     Some \<lparr>sp_namp = namp, sp_pwdp = pwdp, sp_lstchg = sp_lstchg (v_struct v), sp_min = sp_min (v_struct v),
       sp_max = sp_max (v_struct v), sp_warn = sp_warn (v_struct v), sp_inact = sp_inact (v_struct v),
       sp_expire = sp_expire (v_struct v), sp_flag = sp_flag (v_struct v)\<rparr> }"

text \<open>What 32 bits keep of the numbers.\<close>

definition spwd_stored :: "bytes spwd \<Rightarrow> bytes spwd" where
  "spwd_stored sp = sp\<lparr>sp_lstchg := long_of_u32 (ucast (sp_lstchg sp)), sp_min := long_of_u32 (ucast (sp_min sp)),
     sp_max := long_of_u32 (ucast (sp_max sp)), sp_warn := long_of_u32 (ucast (sp_warn sp)),
     sp_inact := long_of_u32 (ucast (sp_inact sp)), sp_expire := long_of_u32 (ucast (sp_expire sp)),
     sp_flag := ucast (ucast (sp_flag sp) :: u32)\<rparr>"

definition spwd_ok :: "bytes spwd \<Rightarrow> bool" where
  "spwd_ok sp \<longleftrightarrow> cstr_ok (sp_namp sp) \<and> cstr_ok (sp_pwdp sp)"

lemma spwd_decode_view:
  assumes "found_data m w (butlast (spwd_image sp))" "spwd_fits bufsz sp" "spwd_ok sp" "length (spwd_image sp) - NSS_SP_HDRSZ \<le> v_bufsz v"
  shows "\<exists>v'. nss_mcdb_authn_spwd_decode m v w = Some (NSS_STATUS_SUCCESS, v', w) \<and> spwd_view v' = Some (spwd_stored sp)"
proof -
  let ?ss = "spwd_strs sp"
  let ?S = "concat (map cz ?ss)" and ?hdr = "spwd_hdr sp (str_off ?ss 1)"
  define v' where "v' = v\<lparr>v_mem := mem_upd (v_mem v) 0 ?S, v_struct := \<lparr>sp_namp = v_addr v, sp_pwdp = v_addr v + of_nat (str_off ?ss 1),
      sp_lstchg = sp_lstchg (spwd_stored sp), sp_min = sp_min (spwd_stored sp), sp_max = sp_max (spwd_stored sp),
      sp_warn = sp_warn (spwd_stored sp), sp_inact = sp_inact (spwd_stored sp), sp_expire = sp_expire (spwd_stored sp),
      sp_flag = sp_flag (spwd_stored sp)\<rparr>\<rparr>"
  have ne: "?S \<noteq> []" "?ss \<noteq> []" by (simp_all add: spwd_strs_def cz_def)
  have bl: "butlast (spwd_image sp) = ?hdr @ butlast ?S" using ne(1) by (simp add: spwd_image_def butlast_append del: concat_eq_Nil_conv)
  have fit: "length ?S \<le> v_bufsz v" using assms(4) by (simp add: spwd_image_def)
  have off: "str_off ?ss 1 \<le> USHRT_MAX" using assms(2) by (simp add: spwd_fits_def)
  obtain mm where c: "get_map (m_map m) w = Some mm" "size_diff (unat (m_dlen m)) NSS_SP_HDRSZ = length ?S - 1"
    "map_load mm (m_dpos m) NSS_SP_HDRSZ = Some ?hdr" "map_load mm (m_dpos m + of_nat NSS_SP_HDRSZ) (length ?S - 1) = Some (butlast ?S)"
    "vbuf_store 0 (butlast ?S) v = Some (v\<lparr>v_mem := mem_upd (v_mem v) 0 (butlast ?S)\<rparr>)"
    "vbuf_store (length ?S - 1) [0] (v\<lparr>v_mem := mem_upd (v_mem v) 0 (butlast ?S)\<rparr>) = Some (v\<lparr>v_mem := mem_upd (v_mem v) 0 ?S\<rparr>)"
    "length ?S - 1 < v_bufsz v"
    using copied_strings [OF assms(1) [unfolded bl] ne(2) fit, unfolded length_spwd_hdr] .
  have dec: "nss_mcdb_authn_spwd_decode m v w = Some (NSS_STATUS_SUCCESS, v', w)"
    using c(7) by (simp only: nss_mcdb_authn_spwd_decode_def c(1-6) Let_def bind.bind_lunit spwd_hdr_fields [OF off] if_True)
      (simp add: v'_def spwd_stored_def)
  have p: "ptr_str v' (v_addr v + of_nat (str_off ?ss k)) = Some (?ss ! k)" if "k < 2" for k
  proof -
    have "str_off ?ss k \<le> str_off ?ss 1" using that by (auto simp: less_2_cases_iff spwd_str_off)
    then have "str_off ?ss k < 2 ^ 64" using off by (simp add: USHRT_MAX_def)
    moreover have "cstr_ok (?ss ! k)" using assms(3) that by (auto simp: spwd_ok_def spwd_strs_def less_2_cases_iff)
    moreover have "k < length ?ss" using that by (simp add: spwd_strs_def)
    ultimately show ?thesis using ptr_str_nth [of k ?ss v'] fit by (simp add: v'_def)
  qed
  have "spwd_view v' = Some (spwd_stored sp)"
    using p [of 0] p [of 1] by (simp add: spwd_view_def spwd_str_off(2)) (simp add: v'_def spwd_strs_def spwd_stored_def)
  with dec show ?thesis by blast
qed

subsection \<open>Numbers of 32 bits\<close>

text \<open>A \<^verbatim>\<open>long\<close> in the range of \<^verbatim>\<open>int\<close>, which is what the parser accepts.\<close>

definition int_range :: "u64 \<Rightarrow> bool" where
  "int_range x \<longleftrightarrow> INT_MIN \<le> sint x \<and> sint x \<le> int INT_MAX"

lemma sint_ucast_small:
  assumes "int_range x"
  shows "sint (ucast x :: u32) = sint x"
proof -
  have "(ucast x :: u32) = word_of_int (sint x)"
    by transfer (simp add: take_bit_signed_take_bit)
  then have "sint (ucast x :: u32) = signed_take_bit 31 (sint x)"
    by (simp only: sint_sbintrunc') simp
  then show ?thesis using assms
    by (simp add: int_range_def INT_MIN_def INT_MAX_def signed_take_bit_int_eq_self)
qed

lemma long_of_u32_small: "int_range x \<Longrightarrow> long_of_u32 (ucast x) = x"
  by (simp add: long_of_u32_def sint_ucast_small)

lemma ucast_small: "unat x < 2 ^ 32 \<Longrightarrow> ucast (ucast (x :: u64) :: u32) = x"
  by (simp add: word_unat_eq_iff unsigned_ucast_eq unsigned_take_bit_eq take_bit_nat_eq_self)

lemma empty_flag: "ucast (ucast (- 1 :: u64) :: u32) = (4294967295 :: u64)"
  by transfer (simp add: take_bit_minus_one_eq_mask mask_eq_exp_minus_1)

lemma empty_number: "long_of_u32 (ucast (- 1 :: u64)) = - 1"
  by (rule long_of_u32_small) (simp add: int_range_def INT_MIN_def)

definition spwd_small :: "bytes spwd \<Rightarrow> bool" where
  "spwd_small sp \<longleftrightarrow> int_range (sp_lstchg sp) \<and> int_range (sp_min sp) \<and> int_range (sp_max sp) \<and> int_range (sp_warn sp) \<and>
     int_range (sp_inact sp) \<and> int_range (sp_expire sp) \<and> unat (sp_flag sp) < 2 ^ 32"

lemma spwd_stored_small: "spwd_small sp \<Longrightarrow> spwd_stored sp = sp"
  by (simp add: spwd_small_def spwd_stored_def long_of_u32_small ucast_small)

definition spwd_room :: "bytes spwd \<Rightarrow> u64 spwd vinfo \<Rightarrow> bool" where
  "spwd_room sp v \<longleftrightarrow> spwd_ok sp \<and> spwd_small sp \<and> (\<exists>n. spwd_fits n sp) \<and> length (spwd_image sp) - NSS_SP_HDRSZ \<le> v_bufsz v"

interpretation sp_codec: entry_codec nss_mcdb_authn_spwd_decode "\<lambda>sp. butlast (spwd_image sp)" spwd_view spwd_room
proof
  fix m w e v assume "found_data m w (butlast (spwd_image e))" "spwd_room e v"
  then show "\<exists>v'. nss_mcdb_authn_spwd_decode m v w = Some (NSS_STATUS_SUCCESS, v', w) \<and> spwd_view v' = Some e"
    using spwd_decode_view spwd_stored_small by (fastforce simp: spwd_room_def)
qed

subsection \<open>The parser ends\<close>

lemma colon_end_before:
  assumes "nul_at ext z f" "b \<le> z"
  obtains p where "TOKEN_COLONDELIM_END ext f b = Some p" "text_at ext f p = Some (f p)" "b \<le> p" "p \<le> z" "f p \<noteq> 0 \<Longrightarrow> p < z"
proof -
  obtain p where p: "tok_end [58, 10, 0] ext f b = Some p" "b \<le> p" "p \<le> z"
    using tok_end_before [of "[58, 10, 0]" ext z f b] assms by auto
  have "p = z \<Longrightarrow> f p = 0" using assms by (simp add: nul_at_def)
  then show ?thesis using p that text_at_before [OF assms(1) p(3)]
    by (auto simp: TOKEN_COLONDELIM_END_def order.order_iff_strict)
qed

text \<open>A number up to a delimiter, with a default for an empty field: the common shape of the two.\<close>

lemma number_field_ok:
  assumes f: "nul_at ext z f" "b \<le> z" and d: "delim \<noteq> 0"
  shows "step_ok (\<lambda>(n, p, f1). ahead ext z b p f1) (do {
     p \<leftarrow> TOKEN_COLONDELIM_END ext f b;
     d \<leftarrow> text_at ext f p;
     if d \<noteq> delim then Some None
     else if b = p then Some (Some (dflt, p, f))
     else do {
       let f1 = f(p := 0);
       s \<leftarrow> cstr_at ext f1 b;
       Some (map_option (\<lambda>n. (n, p, f1)) (conv s)) } })"
proof -
  obtain p where p: "TOKEN_COLONDELIM_END ext f b = Some p" "text_at ext f p = Some (f p)" "b \<le> p" "p \<le> z" "f p \<noteq> 0 \<Longrightarrow> p < z"
    using colon_end_before [OF f] by metis
  show ?thesis
  proof (cases "f p = delim \<and> b \<noteq> p")
    case False
    then show ?thesis using p f d by (auto simp: ahead_def)
  next
    case True
    then have lt: "p < z" using p(5) d by auto
    have a: "ahead ext z b p (f(p := 0))" using lt p(3) f(1) by (auto simp: ahead_def nul_at_def)
    obtain s where "cstr_at ext (f(p := 0)) b = Some s" using cstr_at_ahead [OF a, of b] p(3) by auto
    then show ?thesis using p True a by (cases "conv s") (simp_all add: Let_def)
  qed
qed

lemma long_field_ok: "ahead ext z b p f \<Longrightarrow>
    step_ok (\<lambda>(n, q, f1). ahead ext z (Suc p) q f1) (nss_mcdb_authn_make_parse_long_int_colon ext (Suc p) f)"
  unfolding nss_mcdb_authn_make_parse_long_int_colon_def by (rule number_field_ok) (simp_all add: ahead_def)

lemma flag_field_ok: "ahead ext z b p f \<Longrightarrow> step_ok (\<lambda>(n, q, f1). ahead ext z (Suc p) q f1) (flag_field ext (Suc p) f)"
  unfolding flag_field_def by (rule number_field_ok) (simp_all add: ahead_def)

lemma shadow_line_ok:
  assumes f: "nul_at ext z f" and b: "b \<le> z"
  shows "step_ok (\<lambda>(sp, q, f1). ahead ext z b q f1) (shadow_line ext b f)"
  unfolding shadow_line_def
  apply (rule step_ok_and_then [OF colon_field_ok [OF f b]], simp, clarify)
  apply (rule step_ok_and_then [OF next_colon_field], assumption, simp, clarify)
  apply (rule step_ok_and_then [OF long_field_ok], assumption, clarify)+
  apply (rule step_ok_and_then [OF flag_field_ok], assumption, clarify)
  subgoal premises a for p1 f1 p2 f2 n3 p3 f3 n4 p4 f4 n5 p5 f5 n6 p6 f6 n7 p7 f7 n8 p8 f8 n9 p9 f9
  proof -
    have le: "b \<le> z" "Suc p1 \<le> z" "b \<le> p9" and n9: "nul_at ext z f9" "ahead ext z (Suc p8) p9 f9" using a by (simp_all add: ahead_def)
    obtain s1 s2 where "cstr_at ext f9 b = Some s1" "cstr_at ext f9 (Suc p1) = Some s2" using cstr_at_before [OF n9(1)] le(1,2) by meson
    then show ?thesis using n9(2) le(3) by (simp add: ahead_def)
  qed
  done

interpretation sp_parser: line_parser nss_mcdb_authn_make_shadow_parse shadow_line
  by unfold_locales (rule nss_mcdb_authn_make_shadow_parse.simps, rule shadow_line_ok)

text \<open>Like the parsers of passwd and group, that of /etc/shadow returns on every text.\<close>

theorem shadow_parser_returns:
  assumes "z < ext" "f z = 0" "p \<le> z" "\<And>sp s. enc sp s \<noteq> None"
  shows "\<exists>r. nss_mcdb_authn_make_shadow_parse enc ext p f s = Some r"
  using sp_parser.parse_returns [OF assms(4), of ext z f p] assms(1-3) by (simp add: nul_at_def)

subsection \<open>Storing and reading back\<close>

text \<open>C30: a shadow entry that the encoder accepts is rebuilt by the decoder in every buffer that is as
  large as the encoder's without its header: all of it, -1 included, when the numbers are in the range of
  \<^verbatim>\<open>int\<close> and the flag in that of \<^verbatim>\<open>unsigned int\<close>; otherwise what 32 bits keep of them, so that the flag
  of an entry whose flag is empty (\<^verbatim>\<open>~0\<close>) comes back as 4294967295.\<close>

theorem shadow_roundtrip:
  assumes "nss_mcdb_authn_make_spwd_datastr bufsz buf sp e = Some (dlen, buf', e')" "dlen \<noteq> 0" "spwd_ok sp"
    and "found_data m w (mem_slice buf' 0 dlen)" "bufsz \<le> v_bufsz v + NSS_SP_HDRSZ"
  shows "(\<exists>v'. nss_mcdb_authn_spwd_decode m v w = Some (NSS_STATUS_SUCCESS, v', w) \<and> spwd_view v' = Some (spwd_stored sp)) \<and>
    (spwd_small sp \<longrightarrow> spwd_stored sp = sp) \<and> (sp_flag sp = -1 \<longrightarrow> sp_flag (spwd_stored sp) = 4294967295)"
proof -
  have fits: "spwd_fits bufsz sp" and r: "dlen = length (spwd_image sp) - 1" "buf' = mem_upd buf 0 (spwd_image sp)"
    using assms(1,2) by (auto simp: spwd_datastr_eq split: if_splits)
  have "mem_slice buf' 0 dlen = butlast (spwd_image sp)"
    unfolding r by (simp add: stored_prefix butlast_conv_take)
  moreover have "length (spwd_image sp) - NSS_SP_HDRSZ \<le> v_bufsz v"
    using fits assms(5) unfolding spwd_fits_def by linarith
  ultimately have "\<exists>v'. nss_mcdb_authn_spwd_decode m v w = Some (NSS_STATUS_SUCCESS, v', w) \<and> spwd_view v' = Some (spwd_stored sp)"
    using spwd_decode_view [OF _ fits assms(3)] assms(4) by simp
  moreover have "sp_flag sp = -1 \<longrightarrow> sp_flag (spwd_stored sp) = 4294967295"
    by (simp add: spwd_stored_def empty_flag)
  ultimately show ?thesis using spwd_stored_small by blast
qed

definition ex_sp :: "bytes spwd" where
  "ex_sp = \<lparr>sp_namp = [114], sp_pwdp = [42], sp_lstchg = 7, sp_min = 0, sp_max = 99, sp_warn = -1, sp_inact = -1, sp_expire = -1, sp_flag = -1\<rparr>"

definition ex_sp_vinfo :: "u64 spwd vinfo" where
  "ex_sp_vinfo = ex_vinfo 4096 9 \<lparr>sp_namp = 0, sp_pwdp = 0, sp_lstchg = 0, sp_min = 0, sp_max = 0, sp_warn = 0, sp_inact = 0, sp_expire = 0, sp_flag = 0\<rparr>"

theorem shadow_roundtrip_witness:
  "\<exists>data v'. nss_mcdb_authn_spwd_decode (data_query data) ex_sp_vinfo (data_rd data) = Some (NSS_STATUS_SUCCESS, v', data_rd data) \<and>
     spwd_view v' = Some (ex_sp\<lparr>sp_flag := 4294967295\<rparr>)"
proof -
  have len: "length (spwd_image ex_sp) = 36" unfolding length_spwd_image by (simp add: ex_sp_def NSS_SP_HDRSZ_def)
  have fits: "spwd_fits 41 ex_sp" unfolding spwd_fits_def len spwd_str_off by (simp add: ex_sp_def USHRT_MAX_def)
  let ?buf = "mem_upd (\<lambda>_. 0) 0 (spwd_image ex_sp)"
  have enc: "nss_mcdb_authn_make_spwd_datastr 41 (\<lambda>_. 0) ex_sp 0 = Some (35, ?buf, 0)" by (simp add: spwd_datastr_eq fits len)
  have ok: "spwd_ok ex_sp" by (simp add: spwd_ok_def ex_sp_def cstr_ok_def)
  have found: "found_data (data_query (mem_slice ?buf 0 35)) (data_rd (mem_slice ?buf 0 35)) (mem_slice ?buf 0 35)"
    by (rule found_data_ex) simp
  have sz: "41 \<le> v_bufsz ex_sp_vinfo + NSS_SP_HDRSZ" by (simp add: ex_sp_vinfo_def NSS_SP_HDRSZ_def)
  have st: "spwd_stored ex_sp = ex_sp\<lparr>sp_flag := 4294967295\<rparr>" by (simp add: spwd_stored_def ex_sp_def empty_flag empty_number) (simp add: long_of_u32_def)
  from shadow_roundtrip [OF enc _ ok found sz] show ?thesis unfolding st by auto
qed

end
