(* ===== verification/Nss_Driver.thy ===== *)
theory Nss_Driver
  imports Nss_Make Nss_Authn Nss_Mcdb Mcdb_Makefn
begin

text \<open>
  The program that makes all databases, nss_mcdbctl.c: a table of flat files with their parsers, and
  a loop that makes the database of each file that is newer than its database, in a temporary file
  that replaces the database when it is complete.

  The flat files belong to other processes, as in nss_mcdb_make.c: \<^term>\<open>inp name k\<close> is the file of
  that name at the time of call k, \<^term>\<open>nsm k\<close> the modification time of nsswitch.conf.  The
  databases are files of the \<^verbatim>\<open>fs\<close>, with the modification times \<^term>\<open>mtimes\<close> of those that exist
  when the program starts.
\<close>

subsection \<open>The table\<close>

record fdb_st =
  fdb_file :: bytes
  fdb_mcdbfile :: bytes
  fdb_datasz :: nat
  fdb_parse :: parser
  fdb_flush :: "flusher option"

definition shadow_file :: bytes where "shadow_file = str_bytes ''/etc/shadow''"
definition passwd_file :: bytes where "passwd_file = str_bytes ''/etc/passwd''"
definition group_file :: bytes where "group_file = str_bytes ''/etc/group''"

definition shadow_enc :: "plasma_endian \<Rightarrow> bytes spwd \<Rightarrow> builder \<Rightarrow> (bool \<times> builder) option" where
  "shadow_enc P sp b = do {
     (ok, w, s) \<leftarrow> nss_mcdb_authn_make_spwd_encode P sp (bd_w b) (bd_os b);
     Some (ok, b\<lparr>bd_w := w, bd_os := s\<rparr>) }"

definition shadow_fdb :: "plasma_endian \<Rightarrow> nat \<Rightarrow> fdb_st" where
  "shadow_fdb P sc_getpw_r_size_max =
     \<lparr>fdb_file = shadow_file, fdb_mcdbfile = str_bytes (NSS_MCDB_DBPATH @ ''shadow.mcdb''),
      fdb_datasz = NSS_SP_HDRSZ + sc_getpw_r_size_max,
      fdb_parse = (\<lambda>ext f. nss_mcdb_authn_make_shadow_parse (shadow_enc P) ext 0 f), fdb_flush = None\<rparr>"

definition passwd_fdb :: "plasma_endian \<Rightarrow> nat \<Rightarrow> fdb_st" where
  "passwd_fdb P sc_getpw_r_size_max =
     \<lparr>fdb_file = passwd_file, fdb_mcdbfile = str_bytes (NSS_MCDB_DBPATH @ ''passwd.mcdb''),
      fdb_datasz = NSS_PW_HDRSZ + sc_getpw_r_size_max,
      fdb_parse = (\<lambda>ext f. nss_mcdb_acct_make_passwd_parse (passwd_enc P) ext 0 f), fdb_flush = None\<rparr>"

text \<open>\<^term>\<open>sc\<close> and \<^term>\<open>sc_ngroups\<close> are what \<^verbatim>\<open>sysconf()\<close> says about the number of groups of a user.\<close>

definition group_fdb :: "plasma_endian \<Rightarrow> nat \<Rightarrow> int \<Rightarrow> nat \<Rightarrow> fdb_st" where
  "group_fdb P sc sc_ngroups sc_getgr_r_size_max =
     \<lparr>fdb_file = group_file, fdb_mcdbfile = str_bytes (NSS_MCDB_DBPATH @ ''group.mcdb''),
      fdb_datasz = NSS_GR_HDRSZ + sc_getgr_r_size_max,
      fdb_parse = (\<lambda>ext f. nss_mcdb_acct_make_group_parse (group_enc P sc) sc_ngroups ext 0 f),
      fdb_flush = Some (group_fl P sc_ngroups)\<rparr>"

text \<open>The rows of the network databases are the argument \<^term>\<open>netdb\<close>.\<close>

definition fdb :: "plasma_endian \<Rightarrow> nat \<Rightarrow> int \<Rightarrow> int \<Rightarrow> int \<Rightarrow> fdb_st list \<Rightarrow> fdb_st list" where
  "fdb P sc sc_ngroups sc_getpw_r_size_max sc_getgr_r_size_max netdb =
     [shadow_fdb P (nat sc_getpw_r_size_max), passwd_fdb P (nat sc_getpw_r_size_max),
      group_fdb P sc sc_ngroups (nat sc_getgr_r_size_max)] @ netdb"

definition DBUFSZ :: nat where "DBUFSZ = 4096"
definition SHRT_MAX :: int where "SHRT_MAX = 32767"

subsection \<open>One database\<close>

text \<open>From the temporary file to its cleanup.  \<^verbatim>\<open>m.fd\<close> is one field of \<^verbatim>\<open>struct mcdb_make\<close>, which
  the writer and the naming functions share.\<close>

definition with_fd :: "int \<Rightarrow> builder \<Rightarrow> builder" where
  "with_fd fd b = b\<lparr>bd_w := (bd_w b)\<lparr>wi_m := (wi_m (bd_w b))\<lparr>mk_fd := fd\<rparr>\<rparr>\<rparr>"

definition fdb_make ::
  "plasma_endian \<Rightarrow> nat \<Rightarrow> (bytes \<Rightarrow> nat \<Rightarrow> srcfile option) \<Rightarrow> (nat \<Rightarrow> bytes option) \<Rightarrow> fdb_st \<Rightarrow> nat \<Rightarrow> builder \<Rightarrow> fs \<Rightarrow>
    (bool \<times> builder \<times> fs) option" where
  "fdb_make P pagesize inp nsf e st_mode b w = do {
     (rc, mf, w1) \<leftarrow> mcdb_makefn_start (fdb_mcdbfile e) w;
     if rc \<noteq> 0 then Some (False, with_fd (mf_fd mf) b, w1)
     else do {
       let mf1 = mf\<lparr>mf_st_mode := st_mode\<rparr>;
       (ok, b2) \<leftarrow> nss_mcdb_make_dbfile P pagesize (inp (fdb_file e)) nsf (fdb_file e) (fdb_parse e) (fdb_flush e)
                     ((with_fd (mf_fd mf1) b)\<lparr>bd_os := fs_os w1\<rparr>);
       let w2 = w1\<lparr>fs_os := bd_os b2\<rparr>;
       let (rc, mf2, w3) = (if ok then mcdb_makefn_finish mf1 True w2 else (-1, mf1, w2));
       (mf3, w4) \<leftarrow> mcdb_makefn_cleanup mf2 w3;
       Some (rc = 0, with_fd (mf_fd mf3) b2, w4) } }"

text \<open>
  One pass of the loop: \<^verbatim>\<open>rc\<close>, and whether the loop goes on.  A flat file that does not exist is
  skipped with \<^verbatim>\<open>rc\<close> false.
\<close>

definition fdb_step ::
  "plasma_endian \<Rightarrow> nat \<Rightarrow> (bytes \<Rightarrow> nat \<Rightarrow> srcfile option) \<Rightarrow> (nat \<Rightarrow> bytes option) \<Rightarrow> (nat \<Rightarrow> int) \<Rightarrow> int \<Rightarrow> fdb_st \<Rightarrow>
    builder \<Rightarrow> fs \<Rightarrow> (bool \<times> bool \<times> builder \<times> fs) option" where
  "fdb_step P pagesize inp nsf mtimes mtime_nsswitch e b w =
     (let b1 = b\<lparr>bd_w := (bd_w b)\<lparr>wi_datasz := fdb_datasz e\<rparr>\<rparr>;
          there = inp (fdb_file e) (o_step (fs_os w)); (ok, w1) = fs_call w                   \<comment> \<open>stat\<close>
      in if \<not> ok then Some (False, o_errno (fs_os w1) = ENOENT, b1, w1)
         else case there of
           None \<Rightarrow> Some (False, True, b1, fs_error ENOENT w1)
         | Some src \<Rightarrow>
             (let (old, w2) = fs_stat (fdb_mcdbfile e) w1;
                  (st_mtime, st_mode) =
                    (case old of Some i \<Rightarrow> (mtimes i, fs_mode w2 i)
                     | None \<Rightarrow> (0, if fdb_file e \<noteq> shadow_file then 292 else S_IRUSR))
              in if old = None \<and> o_errno (fs_os w2) \<noteq> ENOENT then Some (False, False, b1, w2)
                 else if sf_mtime src < st_mtime \<and> mtime_nsswitch < st_mtime then Some (True, True, b1, w2)
                 else do {
                   (rc, b2, w3) \<leftarrow> fdb_make P pagesize inp nsf e st_mode b1 w2;
                   Some (rc, rc, b2, w3) }))"

subsection \<open>The program\<close>

datatype stop = Aborted | Ended bool

text \<open>The assertion that the data buffer is large enough ends the program.\<close>

fun fdb_loop ::
  "plasma_endian \<Rightarrow> nat \<Rightarrow> (bytes \<Rightarrow> nat \<Rightarrow> srcfile option) \<Rightarrow> (nat \<Rightarrow> bytes option) \<Rightarrow> (nat \<Rightarrow> int) \<Rightarrow> int \<Rightarrow> fdb_st list \<Rightarrow>
    bool \<Rightarrow> builder \<Rightarrow> fs \<Rightarrow> (stop \<times> builder \<times> fs) option" where
  "fdb_loop P pagesize inp nsf mtimes mtime_nsswitch [] rc b w = Some (Ended rc, b, w)"
| "fdb_loop P pagesize inp nsf mtimes mtime_nsswitch (e # es) rc b w =
     (if DBUFSZ < fdb_datasz e then Some (Aborted, b, w)
      else do {
        (rc1, go_on, b1, w1) \<leftarrow> fdb_step P pagesize inp nsf mtimes mtime_nsswitch e b w;
        if go_on then fdb_loop P pagesize inp nsf mtimes mtime_nsswitch es rc1 b1 w1 else Some (Ended rc1, b1, w1) })"

text \<open>The builder at the start: \<^verbatim>\<open>struct mcdb_make\<close> is cleared, the data buffer is not.\<close>

definition builder_init :: "mem \<Rightarrow> fs \<Rightarrow> builder" where
  "builder_init garbage w =
     \<lparr>bd_w = \<lparr>wi_m = \<lparr>mk_pos = 0, mk_offset = 0, mk_mapped = False, mk_hash_init = 0, mk_hash_fn = Hash_djb, mk_fsz = 0, mk_osz = 0,
          mk_msz = 0, mk_pgalign = 0, mk_hp = \<lparr>hp_p = 0, hp_h = 0, hp_l = 0\<rparr>, mk_fd = 0, mk_count = (\<lambda>_. 0), mk_head = (\<lambda>_. [])\<rparr>,
        wi_data = garbage, wi_datasz = DBUFSZ, wi_dlen = 0, wi_key = [], wi_tagc = 0\<rparr>,
      bd_g = groupmems_init, bd_nsw = None, bd_os = fs_os w\<rparr>"

definition bad_size :: "int \<Rightarrow> bool" where
  "bad_size sc \<longleftrightarrow> sc \<le> 0 \<or> SHRT_MAX < sc"

datatype main_end = Abort | Exit int

definition nss_mcdbctl_main ::
  "plasma_endian \<Rightarrow> nat \<Rightarrow> (bytes \<Rightarrow> nat \<Rightarrow> srcfile option) \<Rightarrow> (nat \<Rightarrow> bytes option) \<Rightarrow> (nat \<Rightarrow> int option) \<Rightarrow> (nat \<Rightarrow> int) \<Rightarrow>
    nat \<Rightarrow> int \<Rightarrow> int \<Rightarrow> int \<Rightarrow> int \<Rightarrow> nat \<Rightarrow> mem \<Rightarrow> fdb_st list \<Rightarrow> fs \<Rightarrow> (main_end \<times> fs) option" where
  "nss_mcdbctl_main P pagesize inp nsf nsm mtimes sc sc_ngroups sc_getpw_r_size_max sc_getgr_r_size_max sc_host_name_max
       euid garbage netdb w =
     (let (data, w1) = fs_malloc w;
          there = nsm (o_step (fs_os w1)); (ok, w2) = fs_call w1;                              \<comment> \<open>stat\<close>
          (mtime_nsswitch, w3) =
            (if \<not> ok then (0, w2) else case there of Some t \<Rightarrow> (t, w2) | None \<Rightarrow> (0, fs_error ENOENT w2))
      in case data of
           None \<Rightarrow> Some (Exit (-1), w3)
         | Some blk \<Rightarrow>
             (if bad_size sc_getpw_r_size_max \<or> bad_size sc_getgr_r_size_max \<or> bad_size sc_host_name_max
              then do { w4 \<leftarrow> fs_free blk w3; Some (Exit (-1), w4) }
              else do {
                let rows = fdb P sc sc_ngroups sc_getpw_r_size_max sc_getgr_r_size_max netdb;
                (stop, b, w4) \<leftarrow> fdb_loop P pagesize inp nsf mtimes mtime_nsswitch (if euid = 0 then rows else tl rows) False
                                    (builder_init garbage w3) w3;
                case stop of
                  Aborted \<Rightarrow> Some (Abort, w4)
                | Ended rc \<Rightarrow> do { w5 \<leftarrow> fs_free blk w4; Some (Exit (if rc then 0 else 1), w5) } }))"

end
