(* ===== verification/Nss_Build_Safe.thy ===== *)
theory Nss_Build_Safe
  imports Nss_Make_Props Nss_Authn_Proofs Nss_Driver
begin

text \<open>
  The builders under every pattern of failures: whatever a flat file contains and whichever call
  fails, a run that is defined either completes a database or gives its blocks back.
\<close>

subsection \<open>The descriptor stays the same\<close>

lemma upsize_parts_fd:
  "mk_fd (fst (snd (upsize_file m off msz w))) = mk_fd m" "mk_fd (fst (snd (upsize_unmap m w))) = mk_fd m"
  by (simp_all add: upsize_file_def upsize_unmap_def Let_def split: prod.split)

lemma upsize_fd:
  assumes "mcdb_mmap_upsize m sz w = (ok, m', w')"
  shows "mk_fd m' = mk_fd m"
proof -
  define off where "off = pg_down (mk_pgalign m) (mk_pos m)"
  define msz where "msz = (if MCDB_MMAP_SZ > sz - off then MCDB_MMAP_SZ else pg_up (mk_pgalign m) (sz - off))"
  obtain ok1 m1 w1 where 1: "upsize_file m off msz w = (ok1, m1, w1)" by (metis prod_cases3)
  obtain ok2 m2 w2 where 2: "upsize_unmap m1 w1 = (ok2, m2, w2)" by (metis prod_cases3)
  obtain ok3 w3 where 3: "ext_call w2 = (ok3, w3)" by fastforce
  have "mk_fd m1 = mk_fd m" "mk_fd m2 = mk_fd m1"
    using upsize_parts_fd(1) [of m off msz w] upsize_parts_fd(2) [of m1 w1] 1 2 by simp_all
  then show ?thesis using assms
    unfolding mcdb_mmap_upsize_def Let_def off_def [symmetric] msz_def [symmetric] 1 2 3 prod.case by (auto split: if_splits)
qed

lemma finish_slots_fd: "finish_slots P b n i m hdr w = Some (i', m', hdr', w') \<Longrightarrow> mk_fd m' = mk_fd m"
proof (induction P b n i m hdr w rule: finish_slots.induct)
  case (2 P b n i m hdr w)
  then show ?case
    by (auto simp: Let_def bind_eq_Some_conv dest!: upsize_fd split: prod.splits if_splits)
qed simp

lemma destroy_fd:
  assumes "mcdb_make_destroy m w = Some (rc, m', w')"
  shows "mk_fd m' = mk_fd m"
proof -
  define st where "st = (if mk_mapped m \<and> mk_fd m \<noteq> -1 then
           (let errsave = o_errno w; (ok, w') = ext_call w
            in (if ok then 0 else -1, m\<lparr>mk_mapped := False\<rparr>,
                if errsave \<noteq> 0 then w'\<lparr>o_errno := errsave\<rparr> else w'))
         else (0 :: int, m, w))"
  obtain rc1 m1 w1 where st: "st = (rc1, m1, w1)" by (cases st)
  then have "mk_fd m1 = mk_fd m" by (auto simp: st_def Let_def split: if_splits prod.splits)
  then show ?thesis
    using assms unfolding mcdb_make_destroy_def st_def [symmetric] st
    by (cases "mk_head m1 0") (auto simp: bind_eq_Some_conv)
qed

lemma err_fd: "mcdb_make_err m e w = Some (rc, m', w') \<Longrightarrow> mk_fd m' = mk_fd m"
  by (auto simp: mcdb_make_err_def bind_eq_Some_conv dest: destroy_fd)

lemma finish_fd:
  assumes run: "mcdb_make_finish P m w = Some (rc, m', w')"
  shows "mk_fd m' = mk_fd m"
proof (cases "\<not> mk_mapped m \<or> unat (sum_list (map (mk_count m) [0..<MCDB_SLOTS])) > INT_MAX")
  case True
  then show ?thesis using run by (auto simp: mcdb_make_finish_def Let_def dest: err_fd split: if_splits)
next
  case False
  define d where "d = (MCDB_PAD_ALIGN - mk_pos m mod MCDB_PAD_ALIGN) mod MCDB_PAD_ALIGN"
  obtain ok m1 w1 where up: "(if mk_offset m + mk_msz m < mk_pos m + d then mcdb_mmap_upsize m (mk_pos m + d) w else (True, m, w)) = (ok, m1, w1)"
    by (metis prod_cases3)
  then have m1: "mk_fd m1 = mk_fd m" by (auto dest: upsize_fd split: if_splits)
  note R = run [unfolded mcdb_make_finish_def Let_def, folded d_def, unfolded up prod.case]
  show ?thesis
  proof (cases ok)
    case False
    then show ?thesis using R \<open>\<not> (_ \<or> _)\<close> m1 by (auto dest: err_fd)
  next
    case True
    then obtain w2 i m3 hdr w3 where f: "finish_slots P (if mk_pos m1 + d < UINT_MAX then 3 else 4) MCDB_SLOTS 0
        (m1\<lparr>mk_pos := mk_pos m1 + d\<rparr>) (\<lambda>_. 0) w2 = Some (i, m3, hdr, w3)"
      and r: "(do {
                (ok4, w4) \<leftarrow> (if i = MCDB_SLOTS then mcdb_mmap_commit m3 (mem_slice hdr 0 MCDB_HEADER_SZ) w3
                             else Some (False, w3));
                (rc, m5, w5) \<leftarrow> mcdb_make_destroy m3 w4;
                Some (if ok4 then rc else -1, m5, w5) }) = Some (rc, m', w')"
      using R False by (simp add: bind_eq_Some_conv) blast
    have "\<exists>w4 rc5. mcdb_make_destroy m3 w4 = Some (rc5, m', w')"
      using r by (auto simp: bind_eq_Some_conv simp del: if_split)
    then show ?thesis using finish_slots_fd [OF f] m1 by (auto dest: destroy_fd)
  qed
qed

lemma owned_start_failed:
  assumes "fd \<noteq> -1" "pk \<le> 30" "mcdb_make_start (2 ^ pk) fd w = Some (rc, m, w')" "rc \<noteq> 0"
  shows "destroyed m \<and> mset (o_live w') = mset (o_live w) \<and> os_same w w'"
proof -
  have "destroyed m" using assms(3,4)
    by (auto simp: mcdb_make_start_def Let_def bind_eq_Some_conv dest: destroy_destroyed split: prod.splits option.splits if_splits)
  then show ?thesis using start_failed [OF assms] by simp
qed

subsection \<open>Filling a database\<close>

text \<open>
  Between two records: what has been written is a list of at most \<^term>\<open>n\<close> records, of which the first has
  the empty key with tag 0, and the allocated blocks are the writer's and those of \<^term>\<open>base\<close>.  After a
  failure, other blocks (the pools of the group table) can be left beside them.
\<close>

definition rec_small :: "kv \<Rightarrow> bool" where
  "rec_small r \<longleftrightarrow> length (fst r) \<le> 2 ^ 17 \<and> length (snd r) \<le> 2 ^ 17"

definition listed :: "nat \<Rightarrow> kv list \<Rightarrow> bool" where
  "listed n recs \<longleftrightarrow> length recs \<le> n \<and> (\<forall>r \<in> set recs. rec_small r) \<and> recs \<noteq> [] \<and> fst (hd recs) = [0]"

definition filling :: "nat \<Rightarrow> nat multiset \<Rightarrow> os \<Rightarrow> nat \<Rightarrow> nat \<Rightarrow> winfo \<Rightarrow> os \<Rightarrow> bool" where
  "filling pk base s0 datasz n w s \<longleftrightarrow> (\<exists>recs. built pk base recs w s \<and> listed n recs) \<and> os_same s0 s \<and>
     wi_datasz w = datasz \<and> mk_fd (wi_m w) \<noteq> -1"

definition stopped :: "nat multiset \<Rightarrow> os \<Rightarrow> winfo \<Rightarrow> os \<Rightarrow> bool" where
  "stopped base s0 w s \<longleftrightarrow> (\<exists>b. base \<subseteq># b \<and> owns_blocks b (wi_m w) s) \<and> os_same s0 s"

lemma data_end_small: "\<forall>r \<in> set recs. rec_small r \<Longrightarrow> data_end recs \<le> MCDB_HEADER_SZ + length recs * (8 + 2 ^ 18)"
proof -
  assume "\<forall>r \<in> set recs. rec_small r"
  then have "length (data_bytes recs) \<le> length recs * (8 + 2 ^ 18)"
    by (induction recs) (auto simp: data_bytes_def rec_small_def rec_bytes_def)
  then show ?thesis by (simp add: data_end_def)
qed

lemma listed_ok:
  assumes "listed n recs" "n \<le> 2 ^ 27"
  shows "recs_ok hf recs"
proof (rule recs_ok_few)
  have "length recs * (8 + 2 ^ 18) \<le> 2 ^ 27 * (8 + 2 ^ 18)" using assms by (auto simp: listed_def)
  then show "length (data_bytes recs) < 2 ^ 61" using data_end_small [of recs] assms(1) by (simp add: listed_def data_end_def)
  show "\<forall>r \<in> set recs. length (fst r) \<le> INT_MAX - 8 \<and> length (snd r) \<le> INT_MAX - 8"
    using assms(1) by (auto simp: listed_def rec_small_def INT_MAX_def intro: order_trans)
  show "length recs \<le> 2 ^ 27" using assms by (simp add: listed_def)
qed

lemma filling_mono: "filling pk base s0 datasz n w s \<Longrightarrow> n \<le> n' \<Longrightarrow> filling pk base s0 datasz n' w s"
  by (auto simp: filling_def listed_def intro: order_trans)

lemma filling_stopped: "filling pk base s0 datasz n w s \<Longrightarrow> stopped base s0 w s"
  by (auto simp: filling_def stopped_def built_def make_inv_def)

text \<open>Neither the buffer nor errno matter.\<close>

lemma filling_data: "filling pk base s0 datasz n w s \<Longrightarrow> wi_m w' = wi_m w \<Longrightarrow> wi_datasz w' = wi_datasz w \<Longrightarrow>
    filling pk base s0 datasz n w' (s\<lparr>o_errno := e\<rparr>)"
  using built_data [of pk base _ w s w' "s\<lparr>o_errno := e\<rparr>"] by (auto simp: filling_def os_same_def)

lemma filling_data1: "filling pk base s0 datasz n w s \<Longrightarrow> wi_m w' = wi_m w \<Longrightarrow> wi_datasz w' = wi_datasz w \<Longrightarrow>
    filling pk base s0 datasz n w' s"
  using built_data [of pk base _ w s w' s] by (auto simp: filling_def)

lemma stopped_data: "stopped base s0 w s \<Longrightarrow> wi_m w' = wi_m w \<Longrightarrow> stopped base s0 w' (s\<lparr>o_errno := e\<rparr>)"
  using owns_blocks_cong [of _ "wi_m w" s "wi_m w'" "s\<lparr>o_errno := e\<rparr>"] by (auto simp: stopped_def os_same_def)

text \<open>What a step that may fail leaves.\<close>

definition filled :: "nat \<Rightarrow> nat multiset \<Rightarrow> os \<Rightarrow> nat \<Rightarrow> nat \<Rightarrow> bool \<Rightarrow> winfo \<Rightarrow> os \<Rightarrow> bool" where
  "filled pk base s0 datasz n ok w s \<longleftrightarrow> (if ok then filling pk base s0 datasz n w s else stopped base s0 w s)"

lemma add_fd:
  assumes "mcdb_make_add P m k d w = Some (rc, m', w')"
  shows "mk_fd m' = mk_fd m"
proof -
  have alloc: "mcdb_hplist_alloc m w = Some (ok, m', w') \<Longrightarrow> mk_fd m' = mk_fd m" for m w ok m' w'
    by (auto simp: mcdb_hplist_alloc_def Let_def bind_eq_Some_conv neq_Nil_conv split: list.splits option.splits prod.splits if_splits)
  have beg: "mcdb_make_addbegin P m kl dl w = Some (rc, m', w') \<Longrightarrow> mk_fd m' = mk_fd m" for m kl dl w rc m' w'
    by (auto simp: mcdb_make_addbegin_def mcdb_make_err_null_def Let_def bind_eq_Some_conv
        dest!: alloc upsize_fd split: prod.splits if_splits)
  have addend: "mcdb_make_addend m = Some m' \<Longrightarrow> mk_fd m' = mk_fd m" for m m'
    by (auto simp: mcdb_make_addend_def Let_def split: list.splits if_splits)
  show ?thesis using assms
    by (auto simp: mcdb_make_add_def mcdb_make_addbuf_key_def mcdb_make_addbuf_data_def bind_eq_Some_conv dest!: beg addend split: if_splits)
qed

lemma write_added:
  assumes P: "plasma_bigendian P" and pk: "pk \<le> 30" and b: "built pk base recs w s"
    and n: "length recs < 2 ^ 27" "\<forall>r \<in> set recs. rec_small r"
    and sz: "wi_dlen w \<le> wi_datasz w" "wi_datasz w \<le> 2 ^ 17" "length (wi_key w) < 2 ^ 17"
    and run: "nss_mcdb_make_mcdbctl_write P w s = Some (ok, w', s')"
  shows "os_same s s' \<and> (\<exists>m. w' = w\<lparr>wi_m := m\<rparr> \<and> mk_fd m = mk_fd (wi_m w)) \<and> owns_blocks base (wi_m w') s' \<and>
    rec_small (wi_tagc w # wi_key w, w_data w) \<and> (ok \<longrightarrow> built pk base (recs @ [(wi_tagc w # wi_key w, w_data w)]) w' s')"
proof -
  let ?k = "wi_tagc w # wi_key w" and ?d = "w_data w"
  have inv: "make_inv pk djb_hash base recs (wi_m w) s" and h: "mk_hash_fn (wi_m w) = Hash_djb" using b by (simp_all add: built_def)
  have small: "rec_small (?k, ?d)" using sz by (simp add: rec_small_def w_data_def)
  have "(length recs + 1) * (8 + 2 ^ 18) \<le> 2 ^ 27 * (8 + 2 ^ 18)" using n(1) by (intro mult_right_mono) auto
  then have "data_end (recs @ [(?k, ?d)]) < 2 ^ 62" using data_end_small [of "recs @ [(?k, ?d)]"] n small by (simp add: MCDB_HEADER_SZ_def)
  then have lim: "data_end recs + rec_len (?k, ?d) < 2 ^ 62" by (simp add: data_end_snoc)
  obtain rc m s1 where a: "mcdb_make_add P (wi_m w) ?k ?d s = Some (rc, m, s1)" "os_same s s1" "owns_blocks base m s1"
      "rc = 0 \<and> make_inv pk djb_hash base (recs @ [(?k, ?d)]) m s1 \<or> rc = -1"
    using add_props [OF P inv pk lim] by blast
  have eq: "ok = (rc = 0)" "w' = w\<lparr>wi_m := m\<rparr>" "s' = s1"
    using run write_eq_add [OF hash_djb_pieces [OF h] sz(1), of P s] a(1) by auto
  have "built pk base (recs @ [(?k, ?d)]) w' s1" if "rc = 0"
    using that a(4) add_hash_fn [OF a(1)] h eq by (simp add: built_def)
  then show ?thesis using a(2,3) eq small add_fd [OF a(1)] by auto
qed

lemma write_filled:
  assumes P: "plasma_bigendian P" and pk: "pk \<le> 30" and b: "filling pk base s0 datasz n w s" and n: "n < 2 ^ 27"
    and sz: "wi_dlen w \<le> wi_datasz w" "wi_datasz w \<le> 2 ^ 17" "length (wi_key w) < 2 ^ 17"
    and run: "nss_mcdb_make_mcdbctl_write P w s = Some (ok, w', s')"
  shows "filled pk base s0 datasz (Suc n) ok w' s' \<and> (\<exists>m. w' = w\<lparr>wi_m := m\<rparr>)"
proof -
  obtain recs where r: "built pk base recs w s" "listed n recs" using b by (auto simp: filling_def)
  have "length recs < 2 ^ 27" "\<forall>r \<in> set recs. rec_small r" using r(2) n by (auto simp: listed_def)
  note A = write_added [OF P pk r(1) this sz run]
  have "listed (Suc n) (recs @ [(wi_tagc w # wi_key w, w_data w)])" using r(2) A by (auto simp: listed_def)
  moreover have "os_same s0 s'" using b A by (auto simp: filling_def intro: os_same_trans)
  ultimately show ?thesis using A b by (auto simp: filled_def filling_def stopped_def)
qed

end
