(* ===== verification/Nss_Entry_Safe.thy ===== *)
theory Nss_Entry_Safe
  imports Nss_Build_Safe
begin

text \<open>
  Parsers that write entries: what one line contributes is bounded by its length, so an invariant that each
  entry keeps and that counts records is kept by a whole text.  The parsers of /etc/passwd and
  /etc/shadow.
\<close>

subsection \<open>Lines move forward\<close>

lemma and_then_Some: "and_then x k = Some (Some r) \<longleftrightarrow> (\<exists>a. x = Some (Some a) \<and> k a = Some (Some r))"
  by (cases x) (auto simp: and_then_def split: option.splits)

lemma tok_end_range: "tok_end stops ext f b = Some p \<Longrightarrow> b \<le> p \<and> p < ext \<and> f p \<in> set stops"
proof (induction stops ext f b rule: tok_end.induct)
  case (1 stops ext f b)
  then show ?case by (subst (asm) (2) tok_end.simps) (force split: if_splits dest: Suc_leD)
qed

lemma colon_field_range: "colon_field ext ne d b f = Some (Some (p, f1)) \<Longrightarrow> b \<le> p \<and> p < ext"
  by (auto simp: colon_field_def TOKEN_COLONDELIM_END_def bind_eq_Some_conv dest!: tok_end_range split: if_splits)

lemma id_field_range: "id_field ext b f = Some (Some (i, p, f1)) \<Longrightarrow> b \<le> p \<and> p < ext"
  by (auto simp: id_field_def and_then_Some bind_eq_Some_conv dest!: colon_field_range)

lemma number_field_range: "nss_mcdb_authn_make_parse_long_int_colon ext b f = Some (Some (i, p, f1)) \<Longrightarrow> b \<le> p \<and> p < ext"
  by (auto simp: nss_mcdb_authn_make_parse_long_int_colon_def TOKEN_COLONDELIM_END_def bind_eq_Some_conv Let_def
      dest!: tok_end_range split: if_splits)

lemma flag_field_range: "flag_field ext b f = Some (Some (i, p, f1)) \<Longrightarrow> b \<le> p \<and> p < ext"
  by (auto simp: flag_field_def TOKEN_COLONDELIM_END_def bind_eq_Some_conv Let_def dest!: tok_end_range split: if_splits)

lemmas field_ranges = colon_field_range id_field_range number_field_range flag_field_range

lemma passwd_line_range: "passwd_line ext b f = Some (Some (pw, q, f1)) \<Longrightarrow> b + 6 \<le> q \<and> q < ext"
  by (auto simp: passwd_line_def and_then_Some bind_eq_Some_conv dest!: field_ranges)

lemma shadow_line_range: "shadow_line ext b f = Some (Some (sp, q, f1)) \<Longrightarrow> b + 8 \<le> q \<and> q < ext"
  by (auto simp: shadow_line_def and_then_Some bind_eq_Some_conv dest!: field_ranges)

subsection \<open>Texts\<close>

locale counted_parser = line_parser parse line
  for parse :: "('e \<Rightarrow> 's \<Rightarrow> (bool \<times> 's) option) \<Rightarrow> nat \<Rightarrow> nat \<Rightarrow> mem \<Rightarrow> 's \<Rightarrow> (bool \<times> 's) option"
    and line :: "nat \<Rightarrow> nat \<Rightarrow> mem \<Rightarrow> ('e \<times> nat \<times> mem) option option" +
  fixes weight :: "'e \<Rightarrow> nat"
  assumes line_weight: "line ext b f = Some (Some (e, q, f1)) \<Longrightarrow> b \<le> q \<and> q < ext \<and> weight e \<le> Suc q - b"
begin

text \<open>I counts what the entries so far weigh, J is what remains after a failure.\<close>

lemma parse_keeps:
  assumes mono: "\<And>n n' s. I n s \<Longrightarrow> n \<le> n' \<Longrightarrow> I n' s" and stop: "\<And>n s. I n s \<Longrightarrow> J s"
    and enc: "\<And>n e s ok s'. I n s \<Longrightarrow> n + weight e \<le> N + ext \<Longrightarrow> enc e s = Some (ok, s') \<Longrightarrow> if ok then I (n + weight e) s' else J s'"
  shows "parse enc ext p f s = Some (ok, s') \<Longrightarrow> I n s \<Longrightarrow> n \<le> N + p \<Longrightarrow> if ok then I (N + ext) s' else J s'"
proof (induction "ext - p" arbitrary: p f s n rule: less_induct)
  case less
  obtain c where c: "text_at ext f p = Some c"
    using less.prems(1) by (subst (asm) parse_step) (auto simp: bind_eq_Some_conv)
  then have p: "p < ext" by (simp add: text_at_def split: if_splits)
  have fin: "I (N + ext) s" using mono [OF less.prems(2)] less.prems(3) p by simp
  consider "c = 0" | "c = 35" | "c \<noteq> 0" "c \<noteq> 35" by blast
  then show ?case
  proof cases
    case 1
    then show ?thesis using less.prems(1) c fin by (subst (asm) parse_step) simp
  next
    case 2
    then obtain q d where q: "tok_end [10, 0] ext f (Suc p) = Some q" "text_at ext f q = Some d"
      "(if d \<noteq> 0 then parse enc ext (Suc q) f s else Some (True, s)) = Some (ok, s')"
      using less.prems(1) c by (subst (asm) parse_step) (auto simp: bind_eq_Some_conv TOKEN_POUNDCOMMENT_SKIP_def)
    have "ext - Suc q < ext - p" "n \<le> N + Suc q" using tok_end_range [OF q(1)] less.prems(3) p by auto
    then show ?thesis using less.hyps [of "Suc q" f s n] less.prems(2) q(3) fin by (cases "d = 0") auto
  next
    case 3
    then obtain r where r: "line ext p f = Some r" "(case r of None \<Rightarrow> Some (False, s)
       | Some (e, q, f1) \<Rightarrow> do {
           (ok, s1) \<leftarrow> enc e s;
           if ok then parse enc ext (Suc q) f1 s1 else Some (False, s1) }) = Some (ok, s')"
      using less.prems(1) c by (subst (asm) parse_step) (auto simp: bind_eq_Some_conv)
    show ?thesis
    proof (cases r)
      case None
      then show ?thesis using r(2) stop [OF less.prems(2)] by simp
    next
      case (Some t)
      obtain e q f1 where t: "t = (e, q, f1)" by (metis prod_cases3)
      obtain ok1 s1 where e: "enc e s = Some (ok1, s1)" "(if ok1 then parse enc ext (Suc q) f1 s1 else Some (False, s1)) = Some (ok, s')"
        using r(2) Some t by (auto simp: bind_eq_Some_conv)
      have w: "p \<le> q" "q < ext" "weight e \<le> Suc q - p" using line_weight r(1) Some t by blast+
      then have "n + weight e \<le> N + ext" "n + weight e \<le> N + Suc q" "ext - Suc q < ext - p" using less.prems(3) by auto
      then show ?thesis using enc [OF less.prems(2) _ e(1)] less.hyps [of "Suc q" f1 s1 "n + weight e"] e(2) by (cases ok1) auto
    qed
  qed
qed

end

subsection \<open>Entries of passwd and shadow\<close>

text \<open>The first record goes under the name with tag \<^verbatim>\<open>=\<close>.\<close>

lemma tagged_filled:
  assumes "plasma_bigendian P" "pk \<le> 30" "filling pk base s0 datasz n w s" "n < 2 ^ 27"
    and "wi_dlen w \<le> wi_datasz w" "wi_datasz w \<le> 2 ^ 17" "length key < 2 ^ 17"
    and "write_tagged P t key w s = Some (ok, w', s')"
  shows "filled pk base s0 datasz (Suc n) ok w' s' \<and> wi_dlen w' = wi_dlen w \<and> wi_datasz w' = wi_datasz w"
proof -
  have "filling pk base s0 datasz n (w\<lparr>wi_tagc := t, wi_key := key\<rparr>) s" by (rule filling_data1 [OF assms(3)]) simp_all
  from write_filled [OF assms(1,2) this assms(4)] assms(5-8) show ?thesis by (auto simp: write_tagged_def)
qed

lemma stopped_after: "filled pk base s0 datasz n False w s \<longleftrightarrow> stopped base s0 w s"
  "filled pk base s0 datasz n True w s \<longleftrightarrow> filling pk base s0 datasz n w s"
  by (simp_all add: filled_def)

lemma refused_filled: "filling pk base s0 datasz n w s \<Longrightarrow> wi_m w' = wi_m w \<Longrightarrow> filled pk base s0 datasz n' False w' (s\<lparr>o_errno := e\<rparr>)"
  using stopped_data [OF filling_stopped] by (simp add: stopped_after)

text \<open>Two records of the same data, as for an entry under its name and its number.\<close>

lemma two_tagged_filled:
  assumes P: "plasma_bigendian P" and pk: "pk \<le> 30" and f: "filling pk base s0 datasz n w s" and n: "n + 2 \<le> 2 ^ 27"
    and sz: "wi_dlen w \<le> wi_datasz w" "wi_datasz w \<le> 2 ^ 17" "length k1 < 2 ^ 17" "length k2 < 2 ^ 17"
    and run: "do {
       (ok, w2, s2) \<leftarrow> write_tagged P t1 k1 w s;
       if \<not> ok then Some (False, w2, s2) else write_tagged P t2 k2 w2 s2 } = Some (ok, w', s')"
  shows "filled pk base s0 datasz (n + 2) ok w' s'"
proof -
  obtain ok2 w2 s2 where w2: "write_tagged P t1 k1 w s = Some (ok2, w2, s2)"
    "(if \<not> ok2 then Some (False, w2, s2) else write_tagged P t2 k2 w2 s2) = Some (ok, w', s')"
    using run by (auto simp: bind_eq_Some_conv)
  have "n < 2 ^ 27" using n by simp
  from tagged_filled [OF P pk f this sz(1,2,3) w2(1)]
  have F: "filled pk base s0 datasz (Suc n) ok2 w2 s2" "wi_dlen w2 = wi_dlen w" "wi_datasz w2 = wi_datasz w" by simp_all
  show ?thesis
  proof (cases ok2)
    case False
    then show ?thesis using w2(2) F(1) by (auto simp: stopped_after)
  next
    case True
    then have "filling pk base s0 datasz (Suc n) w2 s2" "write_tagged P t2 k2 w2 s2 = Some (ok, w', s')"
      using w2(2) F(1) by (simp_all add: stopped_after)
    from tagged_filled [OF P pk this(1) _ _ _ sz(4) this(2)] n sz F(2,3) show ?thesis by simp
  qed
qed

lemma passwd_encode_filled:
  assumes P: "plasma_bigendian P" and pk: "pk \<le> 30" and f: "filling pk base s0 datasz n w s" and n: "n + 2 \<le> 2 ^ 27"
    and sz: "datasz < 2 ^ 17" and run: "nss_mcdb_acct_make_passwd_encode P pw w s = Some (ok, w', s')"
  shows "filled pk base s0 datasz (n + 2) ok w' s'"
proof (cases "passwd_fits (wi_datasz w) pw")
  case False
  then have "ok = False" "w' = w\<lparr>wi_data := wi_data w, wi_dlen := 0\<rparr>" "s' = s\<lparr>o_errno := ERANGE\<rparr>"
    using run by (simp_all add: nss_mcdb_acct_make_passwd_encode_def passwd_datastr_eq)
  then show ?thesis using refused_filled [OF f] by simp
next
  case True
  define w1 where "w1 = w\<lparr>wi_data := mem_upd (wi_data w) 0 (passwd_image pw), wi_dlen := length (passwd_image pw) - 1\<rparr>"
  have dsz: "wi_datasz w = datasz" using f by (simp add: filling_def)
  have len: "length (pw_name pw) < length (passwd_image pw)" "1 < length (passwd_image pw)"
    unfolding length_passwd_image by (simp_all add: str_off_def passwd_strs_def NSS_PW_HDRSZ_def)
  have fit: "length (passwd_image pw) \<le> datasz" using True dsz by (simp add: passwd_fits_def)
  have f1: "filling pk base s0 datasz n w1 s" by (rule filling_data1 [OF f]) (simp_all add: w1_def)
  have "do { (ok, w2, s2) \<leftarrow> write_tagged P 61 (pw_name pw) w1 s;
       if \<not> ok then Some (False, w2, s2) else write_tagged P 120 (htonl (pw_uid pw)) w2 s2 } = Some (ok, w', s')"
    using run True len(2) by (simp add: nss_mcdb_acct_make_passwd_encode_def passwd_datastr_eq w1_def)
  then show ?thesis
    by (rule two_tagged_filled [OF P pk f1 n, rotated 4]) (use len fit sz dsz in \<open>simp_all add: w1_def\<close>)
qed

lemma spwd_encode_filled:
  assumes P: "plasma_bigendian P" and pk: "pk \<le> 30" and f: "filling pk base s0 datasz n w s" and n: "n < 2 ^ 27"
    and sz: "datasz < 2 ^ 17" and run: "nss_mcdb_authn_make_spwd_encode P sp w s = Some (ok, w', s')"
  shows "filled pk base s0 datasz (Suc n) ok w' s'"
proof (cases "spwd_fits (wi_datasz w) sp")
  case False
  then have "ok = False" "w' = w\<lparr>wi_data := wi_data w, wi_dlen := 0\<rparr>" "s' = s\<lparr>o_errno := ERANGE\<rparr>"
    using run by (simp_all add: nss_mcdb_authn_make_spwd_encode_def spwd_datastr_eq)
  then show ?thesis using refused_filled [OF f] by simp
next
  case True
  define w1 where "w1 = w\<lparr>wi_data := mem_upd (wi_data w) 0 (spwd_image sp), wi_dlen := length (spwd_image sp) - 1\<rparr>"
  have dsz: "wi_datasz w = datasz" using f by (simp add: filling_def)
  have len: "length (sp_namp sp) < length (spwd_image sp)" "1 < length (spwd_image sp)"
    unfolding length_spwd_image by simp_all
  have fit: "length (spwd_image sp) \<le> datasz" using True dsz by (simp add: spwd_fits_def)
  have f1: "filling pk base s0 datasz n w1 s" by (rule filling_data1 [OF f]) (simp_all add: w1_def)
  have "write_tagged P 61 (sp_namp sp) w1 s = Some (ok, w', s')"
    using run True len(2) by (simp add: nss_mcdb_authn_make_spwd_encode_def spwd_datastr_eq w1_def)
  then show ?thesis
    using tagged_filled [OF P pk f1 n, of "sp_namp sp"] len fit sz dsz by (simp add: w1_def)
qed

subsection \<open>Sound parsers\<close>

text \<open>The invariant on the builder: the group table holds no blocks.\<close>

definition g_blocks :: "groupmems \<Rightarrow> nat multiset" where
  "g_blocks g = (case gs_hashmap g of None \<Rightarrow> {#} | Some (b, _) \<Rightarrow> {#b#}) + mset (po_blocks (gs_pool g)) + mset (po_blocks (gs_strpool g))"

definition b_filling :: "nat \<Rightarrow> nat multiset \<Rightarrow> os \<Rightarrow> nat \<Rightarrow> nat \<Rightarrow> builder \<Rightarrow> bool" where
  "b_filling pk base s0 datasz n b \<longleftrightarrow> filling pk base s0 datasz n (bd_w b) (bd_os b) \<and> g_blocks (bd_g b) = {#}"

definition b_stopped :: "nat multiset \<Rightarrow> os \<Rightarrow> builder \<Rightarrow> bool" where
  "b_stopped base s0 b \<longleftrightarrow> stopped base s0 (bd_w b) (bd_os b)"

text \<open>
  What the program needs of a row of its table: on every text of at most 32 MB, and whichever call fails, a run of
  the parser and the flush function that is defined either extends the records or leaves what can be
  given back.
\<close>

definition run_parser :: "parser \<Rightarrow> flusher option \<Rightarrow> nat \<Rightarrow> mem \<Rightarrow> builder \<Rightarrow> (bool \<times> builder) option" where
  "run_parser parse flush ext f b = do {
     (ok, b3) \<leftarrow> parse ext f b;
     if \<not> ok then Some (False, b3) else case flush of None \<Rightarrow> Some (True, b3) | Some fl \<Rightarrow> fl b3 }"

definition sound_parser :: "nat \<Rightarrow> parser \<Rightarrow> flusher option \<Rightarrow> bool" where
  "sound_parser datasz parse flush \<longleftrightarrow> (\<forall>pk base s0 ext f b ok b'. pk \<le> 30 \<longrightarrow> ext \<le> 2 ^ 25 \<longrightarrow> b_filling pk base s0 datasz 1 b \<longrightarrow>
     run_parser parse flush ext f b = Some (ok, b') \<longrightarrow>
     (if ok then b_filling pk base s0 datasz (2 ^ 27) b' else b_stopped base s0 b'))"

locale building_parser = counted_parser parse line weight
  for parse :: "('e \<Rightarrow> builder \<Rightarrow> (bool \<times> builder) option) \<Rightarrow> nat \<Rightarrow> nat \<Rightarrow> mem \<Rightarrow> builder \<Rightarrow> (bool \<times> builder) option"
    and line :: "nat \<Rightarrow> nat \<Rightarrow> mem \<Rightarrow> ('e \<times> nat \<times> mem) option option"
    and weight :: "'e \<Rightarrow> nat"
begin

lemma parser_sound:
  assumes enc_fills: "\<And>pk base s0 n e b ok b'. pk \<le> 30 \<Longrightarrow> b_filling pk base s0 datasz n b \<Longrightarrow> n + weight e \<le> 2 ^ 27 \<Longrightarrow> enc e b = Some (ok, b') \<Longrightarrow>
    if ok then b_filling pk base s0 datasz (n + weight e) b' else b_stopped base s0 b'"
  shows "sound_parser datasz (\<lambda>ext f. parse enc ext 0 f) None"
  unfolding sound_parser_def
proof (intro allI impI)
  fix pk base s0 ext f b ok b'
  assume h: "pk \<le> (30 :: nat)" "ext \<le> (2 :: nat) ^ 25" "b_filling pk base s0 datasz 1 b"
    "run_parser (\<lambda>ext f. parse enc ext 0 f) None ext f b = Some (ok, b')"
  then have run: "parse enc ext 0 f b = Some (ok, b')"
    by (auto simp: run_parser_def bind_eq_Some_conv split: if_splits)
  have mono: "b_filling pk base s0 datasz n' s" if "b_filling pk base s0 datasz n s" "n \<le> n'" for n n' s
    using that by (auto simp: b_filling_def intro: filling_mono)
  have "if ok then b_filling pk base s0 datasz (1 + ext) b' else b_stopped base s0 b'"
  proof (rule parse_keeps [where I = "b_filling pk base s0 datasz" and J = "b_stopped base s0", OF mono _ _ run h(3)])
    fix n e b ok b' assume e: "b_filling pk base s0 datasz n b" "n + weight e \<le> 1 + ext" "enc e b = Some (ok, b')"
    have "n + weight e \<le> 2 ^ 27" using e(2) h(2) by simp
    from enc_fills [OF h(1) e(1) this e(3)]
    show "if ok then b_filling pk base s0 datasz (n + weight e) b' else b_stopped base s0 b'" .
  qed (auto simp: b_filling_def b_stopped_def intro: filling_stopped)
  then show "if ok then b_filling pk base s0 datasz (2 ^ 27) b' else b_stopped base s0 b'"
    using mono [of "1 + ext" b' "2 ^ 27"] h(2) by auto
qed

end

text \<open>An encoder of one entry that does not touch the group table.\<close>

lemma b_filled:
  assumes "filled pk base s0 datasz n ok w s" "g_blocks (bd_g b) = {#}"
  shows "if ok then b_filling pk base s0 datasz n (b\<lparr>bd_w := w, bd_os := s\<rparr>) else b_stopped base s0 (b\<lparr>bd_w := w, bd_os := s\<rparr>)"
  using assms by (simp add: filled_def b_filling_def b_stopped_def)

interpretation passwd_building: building_parser nss_mcdb_acct_make_passwd_parse passwd_line "\<lambda>_. 2"
  by unfold_locales (auto dest!: passwd_line_range)

interpretation shadow_building: building_parser nss_mcdb_authn_make_shadow_parse shadow_line "\<lambda>_. 1"
  by unfold_locales (auto dest!: shadow_line_range)

lemma passwd_sound:
  assumes P: "plasma_bigendian P" and sz: "datasz < 2 ^ 17"
  shows "sound_parser datasz (\<lambda>ext f. nss_mcdb_acct_make_passwd_parse (passwd_enc P) ext 0 f) None"
proof (rule passwd_building.parser_sound)
  fix pk base s0 n pw b ok b'
  assume b: "pk \<le> (30 :: nat)" "b_filling pk base s0 datasz n b" "n + 2 \<le> (2 :: nat) ^ 27" "passwd_enc P pw b = Some (ok, b')"
  then obtain w s where e: "nss_mcdb_acct_make_passwd_encode P pw (bd_w b) (bd_os b) = Some (ok, w, s)" "b' = b\<lparr>bd_w := w, bd_os := s\<rparr>"
    by (auto simp: passwd_enc_def bind_eq_Some_conv)
  have f: "filling pk base s0 datasz n (bd_w b) (bd_os b)" "g_blocks (bd_g b) = {#}" using b(2) by (simp_all add: b_filling_def)
  show "if ok then b_filling pk base s0 datasz (n + 2) b' else b_stopped base s0 b'"
    unfolding e(2) by (rule b_filled [OF passwd_encode_filled [OF P b(1) f(1) b(3) sz e(1)] f(2)])
qed

lemma shadow_sound:
  assumes P: "plasma_bigendian P" and sz: "datasz < 2 ^ 17"
  shows "sound_parser datasz (\<lambda>ext f. nss_mcdb_authn_make_shadow_parse (shadow_enc P) ext 0 f) None"
proof (rule shadow_building.parser_sound)
  fix pk base s0 n sp b ok b'
  assume b: "pk \<le> (30 :: nat)" "b_filling pk base s0 datasz n b" "n + 1 \<le> (2 :: nat) ^ 27" "shadow_enc P sp b = Some (ok, b')"
  then obtain w s where e: "nss_mcdb_authn_make_spwd_encode P sp (bd_w b) (bd_os b) = Some (ok, w, s)" "b' = b\<lparr>bd_w := w, bd_os := s\<rparr>"
    by (auto simp: shadow_enc_def bind_eq_Some_conv)
  have f: "filling pk base s0 datasz n (bd_w b) (bd_os b)" "g_blocks (bd_g b) = {#}" using b(2) by (simp_all add: b_filling_def)
  have "n < 2 ^ 27" using b(3) by simp
  from b_filled [OF spwd_encode_filled [OF P b(1) f(1) this sz e(1)] f(2)]
  show "if ok then b_filling pk base s0 datasz (n + 1) b' else b_stopped base s0 b'" unfolding e(2) by simp
qed

end
