(* ===== verification/Nss_Dbfile_Safe.thy ===== *)
theory Nss_Dbfile_Safe
  imports Nss_Entry_Safe
begin

text \<open>
  Making one database under every pattern of failures: a defined run of \<^verbatim>\<open>nss_mcdb_make_dbfile\<close> over a
  sound parser returns true only for a complete database.
\<close>

subsection \<open>The record of nsswitch.conf\<close>

lemma cstr_at_length: "cstr_at ext f b = Some s \<Longrightarrow> b + length s < ext"
proof (induction ext f b arbitrary: s rule: cstr_at.induct)
  case (1 ext f b)
  then show ?case by (subst (asm) (2) cstr_at.simps) (fastforce simp: bind_eq_Some_conv split: if_splits)
qed

definition os_calls :: "os \<Rightarrow> os \<Rightarrow> bool" where
  "os_calls s s' \<longleftrightarrow> os_same s s' \<and> o_file s' = o_file s \<and> o_flen s' = o_flen s \<and> o_live s' = o_live s"

lemma os_calls_refl [simp]: "os_calls s s" "os_calls s (s'\<lparr>o_errno := e\<rparr>) = os_calls s s'"
  by (simp_all add: os_calls_def os_same_def)

lemma os_calls_trans: "os_calls s s1 \<Longrightarrow> os_calls s1 s2 \<Longrightarrow> os_calls s s2"
  by (simp add: os_calls_def os_same_def)

lemma ext_call_calls: "ext_call s = (ok, s') \<Longrightarrow> os_calls s s'"
  using ext_call_props [of s ok s'] by (auto simp: os_calls_def os_same_def)

lemma snd_call_calls: "os_calls s (snd (ext_call s))"
  by (cases "ext_call s") (auto dest: ext_call_calls)

lemma lseek_calls: "os_lseek n s = (ok, s') \<Longrightarrow> os_calls s s'"
  using lseek_props [of n s ok s'] by (simp add: os_calls_def)

lemma bd_call_calls: "bd_call b = (ok, b') \<Longrightarrow> os_calls (bd_os b) (bd_os b') \<and> bd_w b' = bd_w b \<and> bd_g b' = bd_g b"
  by (auto simp: bd_call_def dest: ext_call_calls split: prod.splits)

lemma nsswitch_calls:
  assumes "nss_mcdb_nsswitch pagesize nsf svc datasz data nsw s = Some (ok, d, nsw', s')"
  shows "os_calls s s'"
proof -
  define opened where "opened = (if nsw \<noteq> None then (True, nsw, s)
        else
          (let there = nsf (o_step s); (ok, s1) = ext_call s
           in case there of
                None \<Rightarrow> (if ok then (True, None, s1\<lparr>o_errno := ENOENT\<rparr>) else (o_errno s1 = ENOENT, None, s1))
              | Some bs \<Rightarrow>
                  (if \<not> ok then (o_errno s1 = ENOENT, None, s1)
                   else
                     (let (ok2, s2) = ext_call s1;
                          (ok3, s3) = (if ok2 then ext_call s2 else (False, s2));
                          (ok4, s4) = (if ok3 \<and> bs = [] then (False, s3\<lparr>o_errno := EINVAL\<rparr>) else (ok3, s3))
                      in (True, if ok4 then Some bs else None, snd (ext_call s4))))))"
  obtain go_on nsw1 s1 where r: "opened = (go_on, nsw1, s1)" by (cases opened)
  have "os_calls s s1"
  proof (cases "nsw = None")
    case False
    then show ?thesis using r by (simp add: opened_def)
  next
    case True
    obtain ok a where c1: "ext_call s = (ok, a)" by fastforce
    obtain ok2 s2 where c2: "ext_call a = (ok2, s2)" by fastforce
    obtain ok3 s3 where c3: "(if ok2 then ext_call s2 else (False, s2)) = (ok3, s3)" by fastforce
    have A: "os_calls s a" using ext_call_calls [OF c1] .
    have "os_calls s2 s3" using c3 ext_call_calls [of s2 ok3 s3] by (cases ok2) auto
    then have s3: "os_calls s s3" using os_calls_trans [OF os_calls_trans [OF A ext_call_calls [OF c2]]] by blast
    have "s1 = a \<or> s1 = a\<lparr>o_errno := ENOENT\<rparr> \<or> s1 = snd (ext_call s3) \<or> s1 = snd (ext_call (s3\<lparr>o_errno := EINVAL\<rparr>))"
      using r True by (cases "nsf (o_step s)") (auto simp: opened_def c1 c2 c3 Let_def split: if_splits)
    moreover have "os_calls s (snd (ext_call s3))" "os_calls s (snd (ext_call (s3\<lparr>o_errno := EINVAL\<rparr>)))"
      using os_calls_trans [OF s3 snd_call_calls] os_calls_trans [OF _ snd_call_calls, of s "s3\<lparr>o_errno := EINVAL\<rparr>"] s3 by simp_all
    ultimately show ?thesis using A by auto
  qed
  moreover have "s' = s1"
    using assms unfolding nss_mcdb_nsswitch_def opened_def [symmetric] r
    by (auto simp: Let_def bind_eq_Some_conv split: if_splits option.splits prod.splits nsswitch_line.splits)
      (metis nsswitch_line.exhaust)
  ultimately show ?thesis by simp
qed

subsection \<open>One pass\<close>

lemma sound_parserD:
  assumes "sound_parser datasz parse flush" "pk \<le> 30" "ext \<le> 2 ^ 25" "b_filling pk base s0 datasz 1 b"
    and "run_parser parse flush ext f b = Some (ok, b')"
  shows "if ok then b_filling pk base s0 datasz (2 ^ 27) b' else b_stopped base s0 b'"
  using assms unfolding sound_parser_def by blast

text \<open>The builder between two databases.\<close>

definition b_idle :: "nat multiset \<Rightarrow> os \<Rightarrow> nat \<Rightarrow> builder \<Rightarrow> bool" where
  "b_idle base s0 datasz b \<longleftrightarrow> destroyed (wi_m (bd_w b)) \<and> mk_fd (wi_m (bd_w b)) \<noteq> -1 \<and> wi_datasz (bd_w b) = datasz \<and>
     g_blocks (bd_g b) = {#} \<and> os_same s0 (bd_os b) \<and> mset (o_live (bd_os b)) = base"

text \<open>After a failure: what the writer still holds can be given back.\<close>

definition b_halted :: "nat multiset \<Rightarrow> os \<Rightarrow> builder \<Rightarrow> bool" where
  "b_halted base s0 b \<longleftrightarrow> os_same s0 (bd_os b) \<and> (\<exists>rest. base \<subseteq># rest \<and>
     (destroyed (wi_m (bd_w b)) \<and> mset (o_live (bd_os b)) = rest \<or> owns_blocks rest (wi_m (bd_w b)) (bd_os b)))"

lemma stopped_halted: "b_stopped base s0 b \<Longrightarrow> b_halted base s0 b"
  by (auto simp: b_stopped_def stopped_def b_halted_def)

lemma idle_halted: "b_idle base s0 datasz b \<Longrightarrow> b_halted base s0 b"
  by (auto simp: b_idle_def b_halted_def)

text \<open>The file holds a database whose first record is the entry of nsswitch.conf.\<close>

definition os_db :: "os \<Rightarrow> bool" where
  "os_db s \<longleftrightarrow> (\<exists>recs. db_file (o_file s) (o_flen s) djb_hash recs \<and> recs \<noteq> [] \<and> fst (hd recs) = [0])"

lemma idle_calls: "b_idle base s0 datasz b \<Longrightarrow> os_calls (bd_os b) s \<Longrightarrow> bd_w b' = bd_w b \<Longrightarrow> bd_g b' = bd_g b \<Longrightarrow> bd_os b' = s \<Longrightarrow>
    b_idle base s0 datasz b'"
  by (auto simp: b_idle_def os_calls_def intro: os_same_trans)

lemma halted_calls: "b_halted base s0 b \<Longrightarrow> os_calls (bd_os b) s \<Longrightarrow> bd_w b' = bd_w b \<Longrightarrow> bd_os b' = s \<Longrightarrow> b_halted base s0 b'"
  unfolding b_halted_def os_calls_def by (auto intro: os_same_trans owns_blocks_cong)

lemma dbfile_nsswitch_filled:
  assumes P: "plasma_bigendian P" and pk: "pk \<le> 30" and b: "built pk base [] (bd_w b) (bd_os b)"
    and st: "wi_datasz (bd_w b) = datasz" "datasz < 2 ^ 17" "mk_fd (wi_m (bd_w b)) \<noteq> -1" "os_same s0 (bd_os b)" "g_blocks (bd_g b) = {#}"
    and run: "dbfile_nsswitch P pagesize nsf input b = Some (ok, b')"
  shows "if ok then b_filling pk base s0 datasz 1 b' else b_stopped base s0 b'"
proof -
  obtain ok1 d nsw s1 where n: "nss_mcdb_nsswitch pagesize nsf input datasz (wi_data (bd_w b)) (bd_nsw b) (bd_os b) = Some (ok1, d, nsw, s1)"
    using run st(1) by (auto simp: dbfile_nsswitch_def bind_eq_Some_conv Let_def)
  have C: "os_calls (bd_os b) s1" by (rule nsswitch_calls [OF n])
  then have same: "os_same s0 s1" using st(4) by (auto simp: os_calls_def intro: os_same_trans)
  show ?thesis
  proof (cases ok1)
    case False
    then have "ok = False" "b' = b\<lparr>bd_w := (bd_w b)\<lparr>wi_data := d\<rparr>, bd_nsw := nsw, bd_os := s1\<rparr>"
      using run n st(1) by (simp_all add: dbfile_nsswitch_def Let_def)
    moreover have "owns_blocks base (wi_m (bd_w b)) s1"
      using b C by (auto simp: built_def make_inv_def os_calls_def intro: owns_blocks_cong)
    ultimately show ?thesis using same by (auto simp: b_stopped_def stopped_def)
  next
    case True
    obtain str ok2 w2 s2 where w: "cstr_at datasz d 0 = Some str"
      "nss_mcdb_make_mcdbctl_write P ((bd_w b)\<lparr>wi_data := d, wi_dlen := length str, wi_tagc := 0, wi_key := []\<rparr>) s1 = Some (ok2, w2, s2)"
      "ok = ok2" "b' = b\<lparr>bd_w := w2, bd_nsw := nsw, bd_os := s2\<rparr>"
      using run n st(1) True by (auto simp: dbfile_nsswitch_def Let_def bind_eq_Some_conv)
    let ?w = "(bd_w b)\<lparr>wi_data := d, wi_dlen := length str, wi_tagc := 0, wi_key := []\<rparr>"
    have bw: "built pk base [] ?w s1" using b C by (auto simp: os_calls_def intro: built_data)
    have sz: "wi_dlen ?w \<le> wi_datasz ?w" "wi_datasz ?w \<le> 2 ^ 17" "length (wi_key ?w) < 2 ^ 17"
      using cstr_at_length [OF w(1)] st(1,2) by simp_all
    have small: "length ([] :: kv list) < 2 ^ 27" "\<forall>r \<in> set ([] :: kv list). rec_small r" by simp_all
    note A = write_added [OF P pk bw small sz w(2)]
    have "os_same s0 s2" using same A by (auto intro: os_same_trans)
    moreover have "wi_datasz w2 = datasz" "mk_fd (wi_m w2) \<noteq> -1" using A st(1,3) by auto
    moreover have "ok2 \<Longrightarrow> \<exists>recs. built pk base recs w2 s2 \<and> listed 1 recs"
      using A by (intro exI [of _ "[] @ [(wi_tagc ?w # wi_key ?w, w_data ?w)]"]) (simp add: listed_def)
    ultimately show ?thesis using A w(3,4) st(5)
      by (auto simp: b_filling_def filling_def b_stopped_def stopped_def)
  qed
qed

lemma dbfile_fill_safe:
  assumes P: "plasma_bigendian P" and pk: "pk \<le> 30" and fair: "eintr_fair s0" and b: "b_idle base s0 datasz b" and dsz: "datasz < 2 ^ 17"
    and sound: "sound_parser datasz parse flush" and ext: "map_ext (2 ^ pk) (sf_bytes src) \<le> 2 ^ 25"
    and run: "dbfile_fill P (2 ^ pk) nsf input parse flush src b = Some (ok, b')"
  shows "if ok then b_idle base s0 datasz b' \<and> os_db (bd_os b') else b_halted base s0 b'"
proof -
  obtain rc m1 s1 where st: "mcdb_make_start (2 ^ pk) (mk_fd (wi_m (bd_w b))) (bd_os b) = Some (rc, m1, s1)"
    using run by (auto simp: dbfile_fill_def bind_eq_Some_conv)
  define b1 where "b1 = b\<lparr>bd_w := (bd_w b)\<lparr>wi_m := m1\<rparr>, bd_os := s1\<rparr>"
  have idle: "mk_fd (wi_m (bd_w b)) \<noteq> -1" "wi_datasz (bd_w b) = datasz" "g_blocks (bd_g b) = {#}" "os_same s0 (bd_os b)"
    "mset (o_live (bd_os b)) = base" using b by (simp_all add: b_idle_def)
  show ?thesis
  proof (cases "rc = 0")
    case False
    then have "ok = False" "b' = b1" using run st by (simp_all add: dbfile_fill_def b1_def)
    then show ?thesis using owned_start_failed [OF idle(1) pk st False] idle(4,5)
      by (auto simp: b_halted_def b1_def intro: os_same_trans)
  next
    case True
    have S: "make_inv pk djb_hash base [] m1 s1" "os_same (bd_os b) s1" 
      using start_props [OF refl pk idle(1) st [unfolded True]] idle(5) by simp_all
    have fd1: "mk_fd m1 \<noteq> -1" using S(1) by (auto simp: make_inv_def window_def mk_sized_def)
    have b1: "built pk base [] (bd_w b1) (bd_os b1)" using S(1) start_hash_fn [OF st [unfolded True]] by (simp add: built_def b1_def)
    have same1: "os_same s0 (bd_os b1)" using os_same_trans [OF idle(4) S(2)] by (simp add: b1_def)
    obtain ok2 b2 where n: "dbfile_nsswitch P (2 ^ pk) nsf input b1 = Some (ok2, b2)"
      using run st True by (auto simp: dbfile_fill_def b1_def bind_eq_Some_conv)
    have N: "if ok2 then b_filling pk base s0 datasz 1 b2 else b_stopped base s0 b2"
      by (rule dbfile_nsswitch_filled [OF P pk b1 _ dsz _ same1 _ n]) (use idle fd1 in \<open>simp_all add: b1_def\<close>)
    show ?thesis
    proof (cases ok2)
      case False
      then have "ok = False" "b' = b2" using run st True n by (simp_all add: dbfile_fill_def b1_def)
      then show ?thesis using N False stopped_halted by simp
    next
      case ok2: True
      obtain ok4 b4 where p: "run_parser parse flush (map_ext (2 ^ pk) (sf_bytes src)) (map_mem (sf_bytes src)) b2 = Some (ok4, b4)"
        "(if \<not> ok4 then Some (False, b4)
         else do {
           (rc, m5, s5) \<leftarrow> mcdb_make_finish P (wi_m (bd_w b4)) (bd_os b4);
           Some (rc = 0, b4\<lparr>bd_w := (bd_w b4)\<lparr>wi_m := m5\<rparr>, bd_os := s5\<rparr>) }) = Some (ok, b')"
        using run st True n ok2 by (auto simp: dbfile_fill_def b1_def run_parser_def bind_eq_Some_conv)
      have F: "if ok4 then b_filling pk base s0 datasz (2 ^ 27) b4 else b_stopped base s0 b4"
        by (rule sound_parserD [OF sound pk ext _ p(1)]) (use N ok2 in simp)
      show ?thesis
      proof (cases ok4)
        case False
        then show ?thesis using p(2) F stopped_halted by simp
      next
        case ok4: True
        obtain recs where r: "make_inv pk djb_hash base recs (wi_m (bd_w b4)) (bd_os b4)" "listed (2 ^ 27) recs" "os_same s0 (bd_os b4)"
          "wi_datasz (bd_w b4) = datasz" "mk_fd (wi_m (bd_w b4)) \<noteq> -1" "g_blocks (bd_g b4) = {#}"
          using F ok4 by (auto simp: b_filling_def filling_def built_def)
        obtain rc m5 s5 where f: "mcdb_make_finish P (wi_m (bd_w b4)) (bd_os b4) = Some (rc, m5, s5)"
          "run_end djb_hash base recs (bd_os b4) rc s5"
          using finish_props [OF P r(1) pk listed_ok [OF r(2) le_refl] eintr_fair_same [OF r(3) fair]] by blast
        have e: "ok = (rc = 0)" "b' = b4\<lparr>bd_w := (bd_w b4)\<lparr>wi_m := m5\<rparr>, bd_os := s5\<rparr>" using p(2) ok4 f(1) by simp_all
        have "b_idle base s0 datasz b'"
          using finish_then_destroy [OF f(1)] finish_fd [OF f(1)] r f(2) e(2) by (auto simp: b_idle_def run_end_def intro: os_same_trans)
        moreover have "ok \<Longrightarrow> os_db (bd_os b')" using f(2) e r(2) by (auto simp: os_db_def run_end_def listed_def)
        ultimately show ?thesis using idle_halted by auto
      qed
    qed
  qed
qed

subsection \<open>The loop\<close>

text \<open>What the loop returns: \<^verbatim>\<open>rc\<close>, whether a file is open and mapped, and the state.\<close>

definition loop_safe :: "nat multiset \<Rightarrow> os \<Rightarrow> nat \<Rightarrow> bool \<times> bool \<times> bool \<times> builder \<Rightarrow> bool" where
  "loop_safe base s0 datasz r \<longleftrightarrow> (case r of (ok, fd, mapped, b) \<Rightarrow>
     if ok then b_idle base s0 datasz b \<and> os_db (bd_os b) else b_halted base s0 b)"

lemma loop_safe_simps [simp]:
  "loop_safe base s0 datasz (True, fd, mapped, b) \<longleftrightarrow> b_idle base s0 datasz b \<and> os_db (bd_os b)"
  "loop_safe base s0 datasz (False, fd, mapped, b) \<longleftrightarrow> b_halted base s0 b"
  by (simp_all add: loop_safe_def)

lemma os_db_calls: "os_db s \<Longrightarrow> os_calls s s' \<Longrightarrow> os_db s'"
  by (simp add: os_db_def os_calls_def)

lemma idle_bd_call: "b_idle base s0 datasz b \<Longrightarrow> bd_call b = (ok, b') \<Longrightarrow> b_idle base s0 datasz b'"
  using bd_call_calls [of b ok b'] by (auto intro: idle_calls)

lemma idle_errno: "b_idle base s0 datasz b \<Longrightarrow> b_idle base s0 datasz (b\<lparr>bd_os := (bd_os b)\<lparr>o_errno := e\<rparr>\<rparr>)"
  by (erule idle_calls [where s = "(bd_os b)\<lparr>o_errno := e\<rparr>"]) simp_all

text \<open>The input is opened and mapped again.\<close>

lemma rewind_idle:
  assumes b: "b_idle base s0 datasz b0"
    and run: "(if \<not> again then (True, b0)
        else
          (let b1 = snd (bd_call b0);
               (ok, b2) = bd_call b1
           in if \<not> ok then (False, b2)
              else (let (ok, s) = os_lseek 0 (bd_os b2) in (ok, b2\<lparr>bd_os := s\<rparr>)))) = (ok, b)"
  shows "b_idle base s0 datasz b"
proof (cases again)
  case False
  then show ?thesis using b run by simp
next
  case True
  obtain ok1 b1 where c1: "bd_call b0 = (ok1, b1)" by fastforce
  obtain ok2 b2 where c2: "bd_call b1 = (ok2, b2)" by fastforce
  obtain ok3 s3 where c3: "os_lseek 0 (bd_os b2) = (ok3, s3)" by fastforce
  have b2: "b_idle base s0 datasz b2" by (rule idle_bd_call [OF idle_bd_call [OF b c1] c2])
  have "b = b2 \<or> b = b2\<lparr>bd_os := s3\<rparr>" using run True by (auto simp: c1 c2 c3 split: if_splits)
  then show ?thesis using b2 idle_calls [OF b2 lseek_calls [OF c3]] by auto
qed

lemma dbfile_pass_safe:
  assumes P: "plasma_bigendian P" and pk: "pk \<le> 30" and fair: "eintr_fair s0" and dsz: "datasz < 2 ^ 17"
    and sound: "sound_parser datasz parse flush" and ext: "\<And>k src. inp k = Some src \<Longrightarrow> map_ext (2 ^ pk) (sf_bytes src) \<le> 2 ^ 25"
    and b: "b_idle base s0 datasz b" and again: "\<And>b5. b_idle base s0 datasz b5 \<Longrightarrow> k b5 = Some r \<Longrightarrow> loop_safe base s0 datasz r"
    and run: "(let there = inp (o_step (bd_os b)); (ok, b1) = bd_call b
        in if \<not> ok then Some (False, False, False, b1)
           else case there of
             None \<Rightarrow> Some (False, False, False, b1\<lparr>bd_os := (bd_os b1)\<lparr>o_errno := ENOENT\<rparr>\<rparr>)
           | Some src \<Rightarrow>
               (let (ok, b2) = bd_call b1
                in if \<not> ok then Some (False, True, False, b2)
                   else
                     (let (ok, b3) = bd_call b2
                      in if \<not> ok then Some (False, True, False, b3)
                         else if sf_bytes src = [] then Some (False, True, False, b3\<lparr>bd_os := (bd_os b3)\<lparr>o_errno := EINVAL\<rparr>\<rparr>)
                         else do {
                           (rc, b4) \<leftarrow> dbfile_fill P (2 ^ pk) nsf input parse flush src b3;
                           if \<not> rc then Some (False, True, True, b4)
                           else
                             (let now = inp (o_step (bd_os b4)); (ok, b5) = bd_call b4
                              in if \<not> ok then Some (True, True, True, b5)
                                 else case now of
                                   None \<Rightarrow> Some (True, True, True, b5\<lparr>bd_os := (bd_os b5)\<lparr>o_errno := ENOENT\<rparr>\<rparr>)
                                 | Some st \<Rightarrow>
                                     (if sf_ino src \<noteq> sf_ino st \<or> length (sf_bytes src) \<noteq> length (sf_bytes st) \<or>
                                         sf_mtime src \<noteq> sf_mtime st
                                      then k b5 else Some (True, True, True, b5))) }))) = Some r"
  shows "loop_safe base s0 datasz r"
proof -
  obtain ok1 b1 where c1: "bd_call b = (ok1, b1)" by fastforce
  have b1: "b_idle base s0 datasz b1" by (rule idle_bd_call [OF b c1])
  obtain ok2 b2 where c2: "bd_call b1 = (ok2, b2)" by fastforce
  have b2: "b_idle base s0 datasz b2" by (rule idle_bd_call [OF b1 c2])
  obtain ok3 b3 where c3: "bd_call b2 = (ok3, b3)" by fastforce
  have b3: "b_idle base s0 datasz b3" by (rule idle_bd_call [OF b2 c3])
  note halted = idle_halted [OF b1] idle_halted [OF b2] idle_halted [OF b3] idle_halted [OF idle_errno [OF b1]] idle_halted [OF idle_errno [OF b3]]
  show ?thesis
  proof (cases "ok1 \<and> inp (o_step (bd_os b)) \<noteq> None \<and> ok2 \<and> ok3 \<and> sf_bytes (the (inp (o_step (bd_os b)))) \<noteq> []")
    case False
    then show ?thesis using run halted by (auto simp: c1 c2 c3 Let_def split: if_splits option.splits)
  next
    case True
    then obtain src where src: "inp (o_step (bd_os b)) = Some src" "sf_bytes src \<noteq> []" and ok: "ok1" "ok2" "ok3" by auto
    obtain rc b4 where f: "dbfile_fill P (2 ^ pk) nsf input parse flush src b3 = Some (rc, b4)"
      using run by (auto simp: c1 c2 c3 src ok bind_eq_Some_conv)
    have F: "if rc then b_idle base s0 datasz b4 \<and> os_db (bd_os b4) else b_halted base s0 b4"
      by (rule dbfile_fill_safe [OF P pk fair b3 dsz sound ext [OF src(1)] f])
    obtain ok5 b5 where c5: "bd_call b4 = (ok5, b5)" by fastforce
    show ?thesis
    proof (cases rc)
      case False
      then show ?thesis using run F by (auto simp: c1 c2 c3 src ok f)
    next
      case rc: True
      have b5: "b_idle base s0 datasz b5" "os_db (bd_os b5)"
        using F rc idle_bd_call [OF _ c5] os_db_calls bd_call_calls [OF c5] by auto
      have "r = (True, True, True, b5) \<or> r = (True, True, True, b5\<lparr>bd_os := (bd_os b5)\<lparr>o_errno := ENOENT\<rparr>\<rparr>) \<or> k b5 = Some r"
        using run rc by (auto simp: c1 c2 c3 src ok f c5 split: if_splits option.splits)
      moreover have "os_db ((bd_os b5)\<lparr>o_errno := ENOENT\<rparr>)" using os_db_calls [OF b5(2)] by simp
      ultimately show ?thesis using b5 idle_errno [OF b5(1)] again [OF b5(1)] by auto
    qed
  qed
qed

lemma dbfile_loop_safe:
  assumes P: "plasma_bigendian P" and pk: "pk \<le> 30" and fair: "eintr_fair s0" and dsz: "datasz < 2 ^ 17"
    and sound: "sound_parser datasz parse flush" and ext: "\<And>k src. inp k = Some src \<Longrightarrow> map_ext (2 ^ pk) (sf_bytes src) \<le> 2 ^ 25"
    and b: "b_idle base s0 datasz b0" and run: "dbfile_loop P (2 ^ pk) inp nsf input parse flush again b0 = Some r"
  shows "loop_safe base s0 datasz r"
proof -
  define Q where "Q = (\<lambda>((((((((P', pg :: nat), inp'), nsf' :: nat \<Rightarrow> bytes option), input' :: bytes), parse'), flush'), again' :: bool), b0) r.
    P' = P \<and> pg = 2 ^ pk \<and> inp' = inp \<and> nsf' = nsf \<and> input' = input \<and> parse' = parse \<and> flush' = flush \<longrightarrow>
    b_idle base s0 datasz b0 \<longrightarrow> loop_safe base s0 datasz r)"
  have "Q ((((((((P, 2 ^ pk), inp), nsf), input), parse), flush), again), b0) r"
  proof (rule dbfile_loop.raw_induct [where Pa = Q, OF _ run], goal_cases)
    case (1 f P' pg inp' nsf' input' parse' flush' again' b0 r)
    show ?case unfolding Q_def prod.case
    proof (intro impI, elim conjE)
      assume eq: "P' = P" "pg = 2 ^ pk" "inp' = inp" "nsf' = nsf" "input' = input" "parse' = parse" "flush' = flush"
        and b0: "b_idle base s0 datasz b0"
      obtain ok b where rw: "(if \<not> again' then (True, b0)
        else
          (let b1 = snd (bd_call b0);
               (ok, b2) = bd_call b1
           in if \<not> ok then (False, b2)
              else (let (ok, s) = os_lseek 0 (bd_os b2) in (ok, b2\<lparr>bd_os := s\<rparr>)))) = (ok, b)" by fastforce
      have idle: "b_idle base s0 datasz b" by (rule rewind_idle [OF b0 rw])
      note rw' = rw [unfolded Let_def]
      show "loop_safe base s0 datasz r"
      proof (cases ok)
        case False
        then show ?thesis using 1(2) idle_halted [OF idle] unfolding rw by auto
      next
        case True
        show ?thesis
        proof (rule dbfile_pass_safe [OF P pk fair dsz sound ext idle, where k = "\<lambda>b5. f P (2 ^ pk) inp nsf input parse flush True b5"])
          show "b_idle base s0 datasz b5 \<Longrightarrow> f P (2 ^ pk) inp nsf input parse flush True b5 = Some r \<Longrightarrow> loop_safe base s0 datasz r" for b5
            using 1(1) unfolding Q_def by auto
        qed (use 1(2) True in \<open>simp_all only: rw' eq Let_def prod.case not_True_eq_False if_False\<close>)
      qed
    qed
  qed
  then show ?thesis using b by (simp add: Q_def)
qed

subsection \<open>The whole\<close>

lemma dbfile_safe:
  assumes P: "plasma_bigendian P" and pk: "pk \<le> 30" and fair: "eintr_fair s0" and dsz: "datasz < 2 ^ 17"
    and sound: "sound_parser datasz parse flush" and ext: "\<And>k src. inp k = Some src \<Longrightarrow> map_ext (2 ^ pk) (sf_bytes src) \<le> 2 ^ 25"
    and b: "b_idle base s0 datasz b0" and run: "nss_mcdb_make_dbfile P (2 ^ pk) inp nsf input parse flush b0 = Some (ok, b')"
  shows "os_same s0 (bd_os b') \<and> base \<subseteq># mset (o_live (bd_os b')) \<and> (ok \<longrightarrow> b_idle base s0 datasz b' \<and> os_db (bd_os b'))"
proof -
  obtain rc fd mapped b where l: "dbfile_loop P (2 ^ pk) inp nsf input parse flush False b0 = Some (rc, fd, mapped, b)"
    using run by (auto simp: nss_mcdb_make_dbfile_def bind_eq_Some_conv)
  have L: "if rc then b_idle base s0 datasz b \<and> os_db (bd_os b) else b_halted base s0 b"
    using dbfile_loop_safe [OF P pk fair dsz sound ext b l] by (cases rc) simp_all
  then have "b_halted base s0 b" using idle_halted by (cases rc) auto
  then have "os_same s0 (bd_os b) \<and> (\<exists>r m1 s1. mcdb_make_destroy (wi_m (bd_w b)) (bd_os b) = Some (r, m1, s1) \<and>
      os_same (bd_os b) s1 \<and> base \<subseteq># mset (o_live s1))"
    unfolding b_halted_def using destroy_again destroy_returns_blocks by (fastforce simp: os_same_def)
  then obtain r m1 s1 where d: "mcdb_make_destroy (wi_m (bd_w b)) (bd_os b) = Some (r, m1, s1)" "os_same s0 s1" "base \<subseteq># mset (o_live s1)"
    by (auto intro: os_same_trans)
  define s2 where "s2 = (if mapped then snd (ext_call s1) else s1)"
  obtain ok3 s3 where s3: "(if fd then ext_call s2 else (True, s2)) = (ok3, s3)" by fastforce
  define s4 where "s4 = (if o_errno s1 \<noteq> 0 then s3\<lparr>o_errno := o_errno s1\<rparr> else s3)"
  have "os_calls s2 s3" using s3 ext_call_calls [of s2 ok3 s3] by (cases fd) auto
  moreover have "os_calls s1 s2" using snd_call_calls by (simp add: s2_def)
  ultimately have C: "os_calls s1 s4" unfolding s4_def by (auto intro: os_calls_trans)
  have e: "ok = (rc \<and> ok3)" "b' = b\<lparr>bd_w := (bd_w b)\<lparr>wi_m := m1\<rparr>, bd_os := s4\<rparr>"
    using run l d(1) s3 [unfolded s2_def] by (simp_all add: nss_mcdb_make_dbfile_def Let_def s4_def)
  have "b_idle base s0 datasz b' \<and> os_db (bd_os b')" if ok
  proof -
    have i: "b_idle base s0 datasz b" "os_db (bd_os b)" using L that e(1) by auto
    then have "m1 = wi_m (bd_w b)" "s1 = bd_os b" using d(1) destroy_again by (auto simp: b_idle_def)
    then show ?thesis using i C e(2) idle_calls [OF i(1) C [unfolded \<open>s1 = bd_os b\<close>]] os_db_calls by auto
  qed
  then show ?thesis using d(2,3) C e(2) by (auto simp: os_calls_def intro: os_same_trans)
qed

end
