(* ===== verification/Nss_Group_Safe.thy ===== *)
theory Nss_Group_Safe
  imports Nss_Dbfile_Safe
begin

text \<open>
  The parser and the flush function of the group database are sound: the table of memberships owns
  its blocks beside the writer's, counts one record per entry, and gives its blocks back at the end.
\<close>

subsection \<open>Blocks that come and go\<close>

definition grows :: "os \<Rightarrow> os \<Rightarrow> nat multiset \<Rightarrow> bool" where
  "grows s s' D \<longleftrightarrow> os_same s s' \<and> o_file s' = o_file s \<and> o_flen s' = o_flen s \<and> mset (o_live s') = mset (o_live s) + D"

lemma grows_refl [simp]: "grows s s {#}"
  by (simp add: grows_def os_same_def)

lemma grows_trans: "grows s s1 D \<Longrightarrow> grows s1 s2 E \<Longrightarrow> grows s s2 (D + E)"
  by (auto simp: grows_def intro: os_same_trans)

lemma malloc_grows: "os_malloc s = (r, s') \<Longrightarrow> grows s s' (case r of None \<Rightarrow> {#} | Some b \<Rightarrow> {#b#})"
  using malloc_props [of s r s'] by (auto simp: grows_def split: option.splits)

lemma free_list_grows: "os_free_list ps s = Some s' \<Longrightarrow> grows s' s (mset ps)"
proof (induction ps arbitrary: s)
  case (Cons p ps)
  then obtain s1 where s1: "os_free p s = Some s1" "os_free_list ps s1 = Some s'" by (auto simp: bind_eq_Some_conv)
  have "grows s1 s {#p#}" using s1(1) by (auto simp: os_free_def grows_def os_same_def split: if_splits)
  then show ?case using grows_trans [OF Cons.IH [OF s1(2)]] by fastforce
qed simp

lemma free_grows: "os_free p s = Some s' \<Longrightarrow> grows s' s {#p#}"
  using free_list_grows [of "[p]" s s'] by simp

lemma filling_grows:
  assumes "filling pk base s0 datasz n w s" "grows s s' D"
  shows "filling pk (base + D) s0 datasz n w s'"
proof -
  have "built pk (base + D) recs w s'" if "built pk base recs w s" for recs
    using that assms(2) by (auto simp: built_def make_inv_def grows_def window_def mk_sized_def owns_blocks_def ac_simps)
  then show ?thesis using assms by (auto simp: filling_def grows_def intro: os_same_trans)
qed

lemma owns_shrinks: "owns_blocks (base + D) m s \<Longrightarrow> grows s' s D \<Longrightarrow> owns_blocks base m s'"
  by (auto simp: owns_blocks_def grows_def ac_simps)

lemma filling_shrinks:
  assumes "filling pk (base + D) s0 datasz n w s" "grows s' s D"
  shows "filling pk base s0 datasz n w s'"
proof -
  have "built pk base recs w s'" if "built pk (base + D) recs w s" for recs
    using that owns_shrinks [OF _ assms(2)] assms(2) by (auto simp: built_def make_inv_def grows_def window_def mk_sized_def)
  then show ?thesis using assms by (auto simp: filling_def grows_def os_same_def)
qed

lemma stopped_shrinks:
  assumes "stopped (base + D) s0 w s" "grows s' s D"
  shows "stopped base s0 w s'"
proof -
  obtain b where b: "base + D \<subseteq># b" "owns_blocks b (wi_m w) s" using assms(1) by (auto simp: stopped_def)
  then obtain c where c: "b = (base + c) + D" by (metis mset_subset_eq_exists_conv union_assoc union_commute)
  then have "owns_blocks (base + c) (wi_m w) s'" using owns_shrinks [OF _ assms(2)] b(2) by simp
  moreover have "base \<subseteq># base + c" by simp
  ultimately have "\<exists>b. base \<subseteq># b \<and> owns_blocks b (wi_m w) s'" by blast
  then show ?thesis using assms by (simp add: stopped_def grows_def os_same_def)
qed

lemma stopped_weaken: "stopped (base + D) s0 w s \<Longrightarrow> stopped base s0 w s"
  unfolding stopped_def by (metis mset_subset_eq_add_left subset_mset.order_trans)

subsection \<open>The table\<close>

definition g_count :: "groupmems \<Rightarrow> nat" where
  "g_count g = (case gs_hashmap g of None \<Rightarrow> 0 | Some (_, hm) \<Rightarrow> \<Sum>i < groupmem_hashmap_sz. length (hm i))"

definition g_named :: "groupmems \<Rightarrow> bool" where
  "g_named g \<longleftrightarrow> (case gs_hashmap g of None \<Rightarrow> True | Some (_, hm) \<Rightarrow> \<forall>i. \<forall>gm \<in> set (hm i). length (gm_name gm) < 2 ^ 17)"

lemma pool_alloc_grows:
  assumes "nss_mcdb_acct_make_groupmem_pool_alloc sc sz p s = (ok, p', s')"
  shows "\<exists>D. grows s s' D \<and> mset (po_blocks p') = mset (po_blocks p) + D"
proof -
  obtain r s1 where m: "os_malloc s = (r, s1)" by fastforce
  show ?thesis
    using assms malloc_grows [OF m] by (auto simp: nss_mcdb_acct_make_groupmem_pool_alloc_def m split: if_splits option.splits
        intro: exI [of _ "{#}"] exI [of _ "{#the r#}"])
qed

lemma pool_take_grows:
  assumes "pool_take sc sz p s = Some (ok, p', s')"
  shows "(\<exists>D. grows s s' D \<and> mset (po_blocks p') = mset (po_blocks p) + D) \<and> (ok \<longrightarrow> sz < 2 ^ 17)"
proof -
  obtain ok1 p1 s1 where a: "(if sz \<le> po_sz p \<and> po_idx p \<le> po_sz p - sz then (True, p, s)
         else nss_mcdb_acct_make_groupmem_pool_alloc sc sz p s) = (ok1, p1, s1)" by (metis prod_cases3)
  have "\<exists>D. grows s s1 D \<and> mset (po_blocks p1) = mset (po_blocks p) + D"
    using a pool_alloc_grows [of sc sz p s ok1 p1 s1] by (auto split: if_splits intro: exI [of _ "{#}"])
  then show ?thesis using assms unfolding pool_take_def a
    by (auto simp: guard_def bind_eq_Some_conv GROUPMEM_POOL_SZ_def split: if_splits)
qed

lemma grouplist_free_grows:
  assumes "nss_mcdb_acct_make_grouplist_free rc g s = Some (rc', g', s')"
  shows "rc' = rc \<and> g_blocks g' = {#} \<and> grows s' s (g_blocks g)"
proof -
  obtain s1 s2 where f: "(case gs_hashmap g of None \<Rightarrow> Some s | Some (b, _) \<Rightarrow> os_free b s) = Some s1"
    "os_free_list (po_blocks (gs_pool g)) s1 = Some s2" "os_free_list (po_blocks (gs_strpool g)) s2 = Some s'"
    "rc' = rc" "g' = \<lparr>gs_hashmap = None, gs_pool = (gs_pool g)\<lparr>po_blocks := []\<rparr>, gs_strpool = (gs_strpool g)\<lparr>po_blocks := []\<rparr>\<rparr>"
    using assms by (auto simp: nss_mcdb_acct_make_grouplist_free_def bind_eq_Some_conv)
  have "grows s1 s (case gs_hashmap g of None \<Rightarrow> {#} | Some (b, _) \<Rightarrow> {#b#})"
    using f(1) free_grows by (auto split: option.splits)
  then have "grows s' s (mset (po_blocks (gs_strpool g)) + mset (po_blocks (gs_pool g)) + (case gs_hashmap g of None \<Rightarrow> {#} | Some (b, _) \<Rightarrow> {#b#}))"
    using grows_trans [OF free_list_grows [OF f(3)] free_list_grows [OF f(2)]] grows_trans by blast
  then show ?thesis using f(4,5) by (simp add: g_blocks_def ac_simps)
qed

lemma groupmem_find_less: "groupmem_find h name gms = Some k \<Longrightarrow> k < length gms"
  by (induction h name gms arbitrary: k rule: groupmem_find.induct) (auto split: if_splits)

lemma count_cons: "(\<Sum>j < n. length ((hm(i := gm # hm i)) j)) \<le> Suc (\<Sum>j < (n :: nat). length (hm j))"
proof (induction n)
  case (Suc n)
  have out: "(\<Sum>j < n. length ((hm(i := gm # hm i)) j)) = (\<Sum>j < n. length (hm j))" if "n \<le> i"
    using that by (intro sum.cong) auto
  show ?case using Suc out by (cases "n = i") auto
qed simp

lemma count_update: "(\<Sum>j < n. length ((hm(i := (hm i)[k := gm])) j)) = (\<Sum>j < (n :: nat). length (hm j))"
  by (rule sum.cong) auto

text \<open>Adding a membership: the table grows by at most one entry, or everything it held is freed.\<close>

definition took :: "groupmems \<Rightarrow> os \<Rightarrow> bool \<Rightarrow> groupmems \<Rightarrow> os \<Rightarrow> bool" where
  "took g s ok g' s' \<longleftrightarrow> (if ok then (\<exists>D. grows s s' D \<and> g_blocks g' = g_blocks g + D) \<and> g_named g' \<and> g_count g' \<le> Suc (g_count g)
     else grows s' s (g_blocks g))"

lemma took_free:
  assumes "grows s s2 D" "g_blocks g2 = g_blocks g + D" "nss_mcdb_acct_make_grouplist_free False g2 s2 = Some (ok, g', s')"
  shows "took g s ok g' s'"
  using assms(1,2) grouplist_free_grows [OF assms(3)] by (auto simp: took_def grows_def os_same_def)

text \<open>The table with its hash map.\<close>

lemma hashmap_ready:
  assumes "(case gs_hashmap g of Some _ \<Rightarrow> (g, s)
            | None \<Rightarrow> (case os_malloc s of (None, s') \<Rightarrow> (g, s')
                | (Some b, s') \<Rightarrow> (g\<lparr>gs_hashmap := Some (b, \<lambda>_. [])\<rparr>, s'))) = (g1, s1)" "g_named g"
  shows "(\<exists>D. grows s s1 D \<and> g_blocks g1 = g_blocks g + D) \<and> g_named g1 \<and> g_count g1 = g_count g \<and>
    gs_pool g1 = gs_pool g \<and> gs_strpool g1 = gs_strpool g"
proof (cases "gs_hashmap g")
  case (Some x)
  then show ?thesis using assms by (auto intro: exI [of _ "{#}"])
next
  case None
  obtain r s' where m: "os_malloc s = (r, s')" by fastforce
  show ?thesis
    using assms None malloc_grows [OF m]
    by (cases r) (auto simp: m g_blocks_def g_named_def g_count_def intro: exI [of _ "{#}"] exI [of _ "{#the r#}"])
qed

lemma gm_push_name: "gm_push gid gm = Some gm' \<Longrightarrow> gm_name gm' = gm_name gm"
  by (auto simp: gm_push_def split: if_splits)

lemma grows_more:
  assumes "\<exists>D. grows s s1 D \<and> g_blocks g1 = g_blocks g + D" "\<exists>E. grows s1 s2 E \<and> g_blocks g2 = g_blocks g1 + E"
  shows "\<exists>D. grows s s2 D \<and> g_blocks g2 = g_blocks g + D"
proof -
  obtain D E where "grows s s1 D" "g_blocks g1 = g_blocks g + D" "grows s1 s2 E" "g_blocks g2 = g_blocks g1 + E" using assms by blast
  then show ?thesis using grows_trans by (intro exI [of _ "D + E"]) (auto simp: ac_simps)
qed

lemma take_grows:
  assumes "\<exists>D. grows s s1 D \<and> g_blocks g1 = g_blocks g + D"
  shows "pool_take sc sz (gs_pool g1) s1 = Some (ok, p, s2) \<Longrightarrow> \<exists>D. grows s s2 D \<and> g_blocks (g1\<lparr>gs_pool := p\<rparr>) = g_blocks g + D"
    "pool_take sc sz (gs_strpool g1) s1 = Some (ok, p, s2) \<Longrightarrow> \<exists>D. grows s s2 D \<and> g_blocks (g1\<lparr>gs_strpool := p\<rparr>) = g_blocks g + D"
  by (rule grows_more [OF assms]; use pool_take_grows in \<open>force simp: g_blocks_def ac_simps\<close>)+

lemma g_count_hashmap: "gs_hashmap g = Some (b, hm) \<Longrightarrow> g_count g = (\<Sum>i < groupmem_hashmap_sz. length (hm i))"
  by (simp add: g_count_def)

lemma add_new_took:
  assumes H: "\<exists>D. grows s s1 D \<and> g_blocks g1 = g_blocks g + D" "g_named g1" "g_count g1 = g_count g" "gs_hashmap g1 = Some (b, hm)"
    and run: "do {
         (ok, p, s2) \<leftarrow> pool_take sc (sizeof_groupmem + 4 * 4) (gs_pool g1) s1;
         let g2 = g1\<lparr>gs_pool := p\<rparr>;
         if \<not> ok then nss_mcdb_acct_make_grouplist_free False g2 s2
         else do {
           (ok, q, s3) \<leftarrow> pool_take sc (length name + 1) (gs_strpool g2) s2;
           let g3 = g2\<lparr>gs_strpool := q\<rparr>;
           if \<not> ok then nss_mcdb_acct_make_grouplist_free False g3 s3
           else do {
             gm \<leftarrow> gm_push gid \<lparr>gm_name = name, gm_namelen = nl, gm_hash = h, gm_gids = [], gm_gidlist_sz = 4\<rparr>;
             Some (True, g3\<lparr>gs_hashmap := Some (b, hm(i := gm # hm i))\<rparr>, s3) } } } = Some (ok, g', s')"
  shows "took g s ok g' s'"
proof -
  obtain ok2 p s2 where p: "pool_take sc (sizeof_groupmem + 4 * 4) (gs_pool g1) s1 = Some (ok2, p, s2)"
    using run by (auto simp: Let_def bind_eq_Some_conv)
  note G2 = take_grows(1) [OF H(1) p]
  show ?thesis
  proof (cases ok2)
    case False
    then show ?thesis using took_free G2 run p by fastforce
  next
    case ok2: True
    obtain ok3 q s3 where q: "pool_take sc (length name + 1) (gs_strpool (g1\<lparr>gs_pool := p\<rparr>)) s2 = Some (ok3, q, s3)"
      using run p ok2 by (auto simp: Let_def bind_eq_Some_conv)
    let ?g3 = "g1\<lparr>gs_pool := p\<rparr>\<lparr>gs_strpool := q\<rparr>"
    note G3 = take_grows(2) [OF G2 q]
    show ?thesis
    proof (cases ok3)
      case False
      then have "nss_mcdb_acct_make_grouplist_free False ?g3 s3 = Some (ok, g', s')" using run p ok2 q by simp
      then show ?thesis using took_free G3 by blast
    next
      case ok3: True
      obtain gm where gm: "gm_push gid \<lparr>gm_name = name, gm_namelen = nl, gm_hash = h, gm_gids = [], gm_gidlist_sz = 4\<rparr> = Some gm"
        "ok" "g' = ?g3\<lparr>gs_hashmap := Some (b, hm(i := gm # hm i))\<rparr>" "s' = s3"
        using run p ok2 q ok3 by (auto simp: Let_def bind_eq_Some_conv)
      have "length (gm_name gm) < 2 ^ 17" using gm_push_name [OF gm(1)] pool_take_grows [OF q] ok3 by simp
      then have "g_named g'" using H(2,4) gm(3) by (simp add: g_named_def)
      moreover have "g_count g' = (\<Sum>j < groupmem_hashmap_sz. length ((hm(i := gm # hm i)) j))" by (simp add: g_count_def gm(3) del: fun_upd_apply)
      then have "g_count g' \<le> Suc (g_count g)"
        using count_cons [where n = groupmem_hashmap_sz and hm = hm and i = i and gm = gm] unfolding H(3) [symmetric] g_count_hashmap [OF H(4)] by simp
      moreover have "g_blocks g' = g_blocks ?g3" using gm(3) H(4) by (simp add: g_blocks_def)
      ultimately show ?thesis using G3 gm(2,4) by (simp add: took_def)
    qed
  qed
qed

lemma add_known_took:
  assumes H: "\<exists>D. grows s s1 D \<and> g_blocks g1 = g_blocks g + D" "g_named g1" "g_count g1 = g_count g" "gs_hashmap g1 = Some (b, hm)"
    and k: "k < length (hm i)"
    and run: "(if length (gm_gids (hm i ! k)) = gm_gidlist_sz (hm i ! k) then do {
         (ok, p, s2) \<leftarrow> pool_take sc (sizeof_groupmem + 4 * gm_gidlist_sz (hm i ! k) + 4 * 32) (gs_pool g1) s1;
         let g2 = g1\<lparr>gs_pool := p\<rparr>;
         if \<not> ok then nss_mcdb_acct_make_grouplist_free False g2 s2
         else do {
           _ \<leftarrow> gm_push gid ((hm i ! k)\<lparr>gm_gidlist_sz := gm_gidlist_sz (hm i ! k) + 32\<rparr>);
           Some (True, g2, s2) } }
       else do {
         gm' \<leftarrow> gm_push gid (hm i ! k);
         Some (True, g1\<lparr>gs_hashmap := Some (b, hm(i := (hm i)[k := gm']))\<rparr>, s1) }) = Some (ok, g', s')"
  shows "took g s ok g' s'"
proof (cases "length (gm_gids (hm i ! k)) = gm_gidlist_sz (hm i ! k)")
  case True
  obtain ok2 p s2 where p: "pool_take sc (sizeof_groupmem + 4 * gm_gidlist_sz (hm i ! k) + 4 * 32) (gs_pool g1) s1 = Some (ok2, p, s2)"
    using run True by (auto simp: Let_def bind_eq_Some_conv)
  note G2 = take_grows(1) [OF H(1) p]
  show ?thesis
  proof (cases ok2)
    case False
    then show ?thesis using took_free G2 run True p by fastforce
  next
    case ok2: True
    then have "ok" "g' = g1\<lparr>gs_pool := p\<rparr>" "s' = s2" using run True p by (auto simp: Let_def bind_eq_Some_conv)
    then show ?thesis using G2 H(2,3) by (simp add: took_def g_named_def g_count_def)
  qed
next
  case False
  obtain gm where gm: "gm_push gid (hm i ! k) = Some gm" "ok" "g' = g1\<lparr>gs_hashmap := Some (b, hm(i := (hm i)[k := gm]))\<rparr>" "s' = s1"
    using run False by (auto simp: Let_def bind_eq_Some_conv)
  have nm: "\<forall>gm \<in> set (hm i). length (gm_name gm) < 2 ^ 17" for i using H(2,4) by (simp add: g_named_def)
  have "length (gm_name gm) < 2 ^ 17" using gm_push_name [OF gm(1)] nm [of i] k by auto
  then have "g_named g'" using nm gm(3) set_update_subset_insert [of "hm i" k gm] by (auto simp: g_named_def)
  moreover have "g_count g' = (\<Sum>j < groupmem_hashmap_sz. length ((hm(i := (hm i)[k := gm])) j))" by (simp add: g_count_def gm(3) del: fun_upd_apply)
  then have "g_count g' = g_count g" unfolding H(3) [symmetric] g_count_hashmap [OF H(4)] count_update .
  moreover have "g_blocks g' = g_blocks g1" using gm(3) H(4) by (simp add: g_blocks_def)
  ultimately show ?thesis using H(1) gm(2,4) by (simp add: took_def)
qed

lemma grouplist_add_took:
  assumes run: "nss_mcdb_acct_make_grouplist_add sc name gid g s = Some (ok, g', s')" and named: "g_named g"
  shows "took g s ok g' s'"
proof -
  let ?h = "uint32_hash_djb UINT32_HASH_DJB_INIT name"
  obtain g1 s1 where h: "(case gs_hashmap g of Some _ \<Rightarrow> (g, s)
            | None \<Rightarrow> (case os_malloc s of (None, s') \<Rightarrow> (g, s')
                | (Some b, s') \<Rightarrow> (g\<lparr>gs_hashmap := Some (b, \<lambda>_. [])\<rparr>, s'))) = (g1, s1)" by fastforce
  have H: "\<exists>D. grows s s1 D \<and> g_blocks g1 = g_blocks g + D" "g_named g1" "g_count g1 = g_count g"
    using hashmap_ready [OF h named] by simp_all
  note R = run [unfolded nss_mcdb_acct_make_grouplist_add_def Let_def h prod.case]
  show ?thesis
  proof (cases "gs_hashmap g1")
    case None
    then show ?thesis using took_free H(1) R by fastforce
  next
    case (Some x)
    obtain b hm where bh: "gs_hashmap g1 = Some (b, hm)" using Some by (cases x) auto
    show ?thesis
    proof (cases "groupmem_find ?h name (hm (bucket_of ?h))")
      case None
      show ?thesis
        by (rule add_new_took [OF H bh]) (use R bh None in \<open>simp only: option.case prod.case Let_def\<close>)
    next
      case (Some k)
      show ?thesis
        by (rule add_known_took [OF H bh groupmem_find_less [OF Some]]) (use R bh Some in \<open>simp only: option.case prod.case Let_def\<close>)
    qed
  qed
qed

subsection \<open>Entries\<close>

definition g_filling :: "nat \<Rightarrow> nat multiset \<Rightarrow> os \<Rightarrow> nat \<Rightarrow> nat \<Rightarrow> builder \<Rightarrow> bool" where
  "g_filling pk base s0 datasz n b \<longleftrightarrow> g_named (bd_g b) \<and>
     (\<exists>m. m + g_count (bd_g b) \<le> n \<and> filling pk (base + g_blocks (bd_g b)) s0 datasz m (bd_w b) (bd_os b))"

lemma add_members_took:
  "add_members sc ms gid g s = Some (ok, g', s') \<Longrightarrow> g_named g \<Longrightarrow> filling pk (base + g_blocks g) s0 datasz n w s \<Longrightarrow>
   if ok then filling pk (base + g_blocks g') s0 datasz n w s' \<and> g_named g' \<and> g_count g' \<le> g_count g + length ms else stopped base s0 w s'"
proof (induction ms arbitrary: g s)
  case (Cons m ms)
  obtain ok1 g1 s1 where a: "nss_mcdb_acct_make_grouplist_add sc m gid g s = Some (ok1, g1, s1)"
    "(if ok1 then add_members sc ms gid g1 s1 else Some (False, g1, s1)) = Some (ok, g', s')"
    using Cons.prems(1) by (auto simp: bind_eq_Some_conv)
  note T = grouplist_add_took [OF a(1) Cons.prems(2)]
  show ?case
  proof (cases ok1)
    case False
    then have "filling pk base s0 datasz n w s1" using T filling_shrinks [OF Cons.prems(3)] by (simp add: took_def)
    then show ?thesis using False a(2) filling_stopped by auto
  next
    case True
    then have G: "g_named g1" "g_count g1 \<le> Suc (g_count g)" using T by (simp_all add: took_def)
    have "filling pk (base + g_blocks g1) s0 datasz n w s1"
      using T True filling_grows [OF Cons.prems(3)] by (auto simp: took_def ac_simps)
    moreover have "add_members sc ms gid g1 s1 = Some (ok, g', s')" using a(2) True by simp
    ultimately show ?thesis using Cons.IH [of g1 s1] G by (cases ok) auto
  qed
qed simp

lemma group_encode_filled:
  assumes P: "plasma_bigendian P" and pk: "pk \<le> 30" and f: "filling pk (base + g_blocks g) s0 datasz m w s" and g: "g_named g"
    and m: "m + 2 \<le> 2 ^ 27" and sz: "datasz < 2 ^ 17"
    and run: "nss_mcdb_acct_make_group_encode P sc gr (w, g) s = Some (ok, (w', g'), s')"
  shows "if ok then filling pk (base + g_blocks g') s0 datasz (m + 2) w' s' \<and> g_named g' \<and> g_count g' \<le> g_count g + length (gr_mem gr)
    else stopped base s0 w' s'"
proof -
  obtain ok0 g1 s1 where a: "add_members sc (gr_mem gr) (gr_gid gr) g s = Some (ok0, g1, s1)"
    using run by (auto simp: nss_mcdb_acct_make_group_encode_def bind_eq_Some_conv)
  note A = add_members_took [OF a g f]
  show ?thesis
  proof (cases ok0)
    case False
    then show ?thesis using run A by (simp add: nss_mcdb_acct_make_group_encode_def a)
  next
    case True
    then have F: "filling pk (base + g_blocks g1) s0 datasz m w s1" "g_named g1" "g_count g1 \<le> g_count g + length (gr_mem gr)" using A by simp_all
    have dsz: "wi_datasz w = datasz" using f by (simp add: filling_def)
    show ?thesis
    proof (cases "group_fits (wi_datasz w) gr")
      case False
      then obtain d where "nss_mcdb_acct_make_group_datastr (wi_datasz w) (wi_data w) gr (o_errno s1) = Some (0, d, ERANGE)"
        using group_datastr_refuses by blast
      then have "ok = False" "w' = w\<lparr>wi_data := d, wi_dlen := 0\<rparr>" "s' = s1\<lparr>o_errno := ERANGE\<rparr>"
        using run True by (simp_all add: nss_mcdb_acct_make_group_encode_def a)
      then have "ok = False" "stopped (base + g_blocks g1) s0 w' s'" using refused_filled [OF F(1), of w'] by (simp_all add: stopped_after)
      then show ?thesis using stopped_weaken by simp
    next
      case fits: True
      let ?w = "w\<lparr>wi_data := mem_upd (wi_data w) 0 (group_image gr), wi_dlen := length (group_image gr)\<rparr>"
      have len: "0 < length (group_image gr)" "length (group_image gr) \<le> datasz" "length (gr_name gr) < 2 ^ 17"
        using fits dsz by (simp_all add: group_fits_def length_group_image NSS_GR_HDRSZ_def USHRT_MAX_def)
      have "do { (ok, w2, s2) \<leftarrow> write_tagged P 61 (gr_name gr) ?w s1;
         if \<not> ok then Some (False, w2, s2) else write_tagged P 120 (htonl (gr_gid gr)) w2 s2 } = Some (ok, w', s') \<and> g' = g1"
        using run True group_datastr_fits [OF fits, of "wi_data w" "o_errno s1"] len(1)
        by (auto simp: nss_mcdb_acct_make_group_encode_def a bind_eq_Some_conv split: if_splits)
      then have W: "do { (ok, w2, s2) \<leftarrow> write_tagged P 61 (gr_name gr) ?w s1;
         if \<not> ok then Some (False, w2, s2) else write_tagged P 120 (htonl (gr_gid gr)) w2 s2 } = Some (ok, w', s')" "g' = g1" by blast+
      have f1: "filling pk (base + g_blocks g1) s0 datasz m ?w s1" by (rule filling_data1 [OF F(1)]) simp_all
      have "filled pk (base + g_blocks g1) s0 datasz (m + 2) ok w' s'"
        by (rule two_tagged_filled [OF P pk f1 m _ _ _ _ W(1)]) (use len sz dsz in simp_all)
      then show ?thesis using F(2,3) W(2) stopped_weaken by (auto simp: filled_def)
    qed
  qed
qed

subsection \<open>The flush\<close>

lemma flush_bucket_filled:
  assumes P: "plasma_bigendian P" and pk: "pk \<le> 30" and sz: "datasz < 2 ^ 17" and ng: "ngids < 2 ^ 32"
  shows "flush_bucket P ngids gms w s = Some (ok, w', s') \<Longrightarrow> filling pk base s0 datasz n w s \<Longrightarrow> n + length gms \<le> 2 ^ 27 \<Longrightarrow>
    \<forall>gm \<in> set gms. length (gm_name gm) < 2 ^ 17 \<Longrightarrow> filled pk base s0 datasz (n + length gms) ok w' s'"
proof (induction gms arbitrary: n w s)
  case (Cons gm gms)
  note f = Cons.prems(2)
  have dsz: "wi_datasz w = datasz" using f by (simp add: filling_def)
  let ?k = "take (unat (gm_namelen gm)) (gm_name gm)" and ?im = "grouplist_image (gm_gids gm)"
  show ?case
  proof (cases "length (gm_gids gm) \<le> ngids \<and> length ?im \<le> datasz")
    case False
    have "ok = False \<and> (s' = s \<or> s' = s\<lparr>o_errno := ERANGE\<rparr>) \<and> wi_m w' = wi_m w"
      using Cons.prems(1) False dsz ng by (auto simp: grouplist_datastr_eq split: if_splits)
    then show ?thesis using refused_filled [OF f, of w'] refused_filled [OF f, of w' _ "o_errno s"] by (elim conjE disjE) simp_all
  next
    case True
    let ?w = "w\<lparr>wi_key := ?k, wi_data := mem_upd (wi_data w) 0 ?im, wi_dlen := length ?im\<rparr>"
    have "0 < length ?im" by (simp add: grouplist_image_def)
    then obtain ok1 w1 s1 where w: "nss_mcdb_make_mcdbctl_write P ?w s = Some (ok1, w1, s1)"
      "(if ok1 then flush_bucket P ngids gms w1 s1 else Some (False, w1, s1)) = Some (ok, w', s')"
      using Cons.prems(1) True dsz ng by (auto simp: grouplist_datastr_eq bind_eq_Some_conv split: if_splits)
    have f1: "filling pk base s0 datasz n ?w s" by (rule filling_data1 [OF f]) simp_all
    have n: "n < 2 ^ 27" using Cons.prems(3) by simp
    have "length ?k < 2 ^ 17" using Cons.prems(4) by (simp add: min_def)
    then have F: "filled pk base s0 datasz (Suc n) ok1 w1 s1"
      using write_filled [OF P pk f1 n _ _ _ w(1)] True dsz sz by simp
    show ?thesis
    proof (cases ok1)
      case False
      then show ?thesis using F w(2) by (auto simp: stopped_after)
    next
      case ok1: True
      then show ?thesis using Cons.IH [of w1 s1 "Suc n"] F w(2) Cons.prems(3,4) by (simp add: stopped_after)
    qed
  qed
qed (simp add: stopped_after)

lemma flush_buckets_filled:
  assumes P: "plasma_bigendian P" and pk: "pk \<le> 30" and sz: "datasz < 2 ^ 17" and ng: "ngids < 2 ^ 32"
    and nm: "\<forall>i. \<forall>gm \<in> set (hm i). length (gm_name gm) < 2 ^ 17"
  shows "flush_buckets P ngids hm k i w s = Some (ok, w', s') \<Longrightarrow> filling pk base s0 datasz n w s \<Longrightarrow>
    n + (\<Sum>j < k. length (hm (i + j))) \<le> 2 ^ 27 \<Longrightarrow> filled pk base s0 datasz (n + (\<Sum>j < k. length (hm (i + j)))) ok w' s'"
proof (induction k arbitrary: n i w s)
  case (Suc k)
  obtain ok1 w1 s1 where b: "flush_bucket P ngids (hm i) w s = Some (ok1, w1, s1)"
    "(if ok1 then flush_buckets P ngids hm k (Suc i) w1 s1 else Some (False, w1, s1)) = Some (ok, w', s')"
    using Suc.prems(1) by (auto simp: bind_eq_Some_conv)
  have sum: "(\<Sum>j < Suc k. length (hm (i + j))) = length (hm i) + (\<Sum>j < k. length (hm (Suc i + j)))"
    by (simp add: sum.lessThan_Suc_shift del: sum.lessThan_Suc)
  have F: "filled pk base s0 datasz (n + length (hm i)) ok1 w1 s1"
    by (rule flush_bucket_filled [OF P pk sz ng b(1) Suc.prems(2)]) (use Suc.prems(3) nm sum in auto)
  show ?case
  proof (cases ok1)
    case False
    then show ?thesis using F b(2) by (auto simp: stopped_after)
  next
    case True
    then show ?thesis using Suc.IH [of "Suc i" w1 s1 "n + length (hm i)"] F b(2) Suc.prems(3) unfolding sum by (simp add: stopped_after ac_simps)
  qed
qed (simp add: stopped_after)

lemma group_flush_filled:
  assumes P: "plasma_bigendian P" and pk: "pk \<le> 30" and sz: "datasz < 2 ^ 17"
    and b: "g_filling pk base s0 datasz (2 ^ 27) b" and run: "group_fl P sc b = Some (ok, b')"
  shows "if ok then b_filling pk base s0 datasz (2 ^ 27) b' else b_stopped base s0 b'"
proof -
  obtain blk hm ok1 w1 s1 g1 s2 where r: "gs_hashmap (bd_g b) = Some (blk, hm)"
    "flush_buckets P (ngroups_limit sc) hm groupmem_hashmap_sz 0 ((bd_w b)\<lparr>wi_tagc := 126\<rparr>) (bd_os b) = Some (ok1, w1, s1)"
    "nss_mcdb_acct_make_grouplist_free ok1 (bd_g b) s1 = Some (ok, g1, s2)" "b' = b\<lparr>bd_w := w1, bd_g := g1, bd_os := s2\<rparr>"
    using run by (auto simp: group_fl_def nss_mcdb_acct_make_group_flush_def bind_eq_Some_conv Let_def)
  note G = grouplist_free_grows [OF r(3)]
  obtain m where m: "m + g_count (bd_g b) \<le> 2 ^ 27" "filling pk (base + g_blocks (bd_g b)) s0 datasz m (bd_w b) (bd_os b)"
    and nm: "\<forall>i. \<forall>gm \<in> set (hm i). length (gm_name gm) < 2 ^ 17"
    using b r(1) by (auto simp: g_filling_def g_named_def)
  have f: "filling pk (base + g_blocks (bd_g b)) s0 datasz m ((bd_w b)\<lparr>wi_tagc := 126\<rparr>) (bd_os b)" by (rule filling_data1 [OF m(2)]) simp_all
  have "ngroups_limit sc < 2 ^ 32" by (auto simp: ngroups_limit_def NSS_MCDB_NGROUPS_MAX_def)
  from flush_buckets_filled [OF P pk sz this nm r(2) f] m(1)
  have F: "filled pk (base + g_blocks (bd_g b)) s0 datasz (m + g_count (bd_g b)) ok1 w1 s1" by (simp add: g_count_hashmap [OF r(1)])
  show ?thesis
  proof (cases ok1)
    case True
    then have "filling pk base s0 datasz (m + g_count (bd_g b)) w1 s2" using F G filling_shrinks by (auto simp: stopped_after)
    then show ?thesis using True G r(4) filling_mono [OF _ m(1)] by (simp add: b_filling_def)
  next
    case False
    then show ?thesis using F G r(4) stopped_shrinks by (auto simp: stopped_after b_stopped_def)
  qed
qed

subsection \<open>The text\<close>

text \<open>An entry weighs its two records and one per member.\<close>

lemma group_members_range:
  "group_line_members ext nmax ms b f = Some (Some (ms', q, f1)) \<Longrightarrow> b \<le> q \<and> q < ext \<and> length ms' \<le> length ms + (q - b)"
proof (induction "ext - b" arbitrary: ms b f rule: less_induct)
  case less
  obtain c where c: "text_at ext f b = Some c" using less.prems by (subst (asm) group_line_members.simps) (auto simp: bind_eq_Some_conv)
  then have b: "b < ext" "f b = c" by (auto simp: text_at_def split: if_splits)
  show ?case
  proof (cases "c = 10")
    case True
    then show ?thesis using less.prems c b by (subst (asm) group_line_members.simps) simp
  next
    case False
    obtain p where p: "tok_end [44, 10, 0] ext f b = Some p" "f p \<noteq> 0"
      "(if f p \<noteq> 10 then group_line_members ext nmax (ms @ [b]) (Suc p) (f(p := 0)) else Some (Some (ms @ [b], p, f(p := 0)))) = Some (Some (ms', q, f1))"
      using less.prems c False
      by (subst (asm) group_line_members.simps)
        (auto simp: bind_eq_Some_conv TOKEN_COMMADELIM_END_def text_at_def split: if_splits)
    note R = tok_end_range [OF p(1)]
    show ?thesis
    proof (cases "f p = 10")
      case True
      then have "b \<noteq> p" using b False by auto
      then show ?thesis using p(3) True R by auto
    next
      case nl: False
      have "ext - Suc p < ext - b" using R by auto
      from less.hyps [OF this, of "ms @ [b]" "f(p := 0)"] p(3) nl R show ?thesis by auto
    qed
  qed
qed

lemma length_cstrs_at: "cstrs_at ext f bs = Some ss \<Longrightarrow> length ss = length bs"
  by (induction bs arbitrary: ss) (auto simp: bind_eq_Some_conv)

lemma group_line_range:
  assumes "group_line ext nmax b f = Some (Some (gr, q, f1))"
  shows "b \<le> q \<and> q < ext \<and> 2 + length (gr_mem gr) \<le> Suc q - b"
  using assms
  by (fastforce simp: group_line_def and_then_Some bind_eq_Some_conv dest!: field_ranges group_members_range length_cstrs_at)

interpretation group_counted: counted_parser "\<lambda>enc. nss_mcdb_acct_make_group_parse enc sc" "\<lambda>ext. group_line ext (ngroups_limit sc)"
    "\<lambda>gr. 2 + length (gr_mem gr)" for sc
  by unfold_locales (rule group_line_range)

lemma group_sound:
  assumes P: "plasma_bigendian P" and sz: "datasz < 2 ^ 17"
  shows "sound_parser datasz (\<lambda>ext f. nss_mcdb_acct_make_group_parse (group_enc P sc) scn ext 0 f) (Some (group_fl P scn))"
  unfolding sound_parser_def
proof (intro allI impI)
  fix pk base s0 ext f b ok b'
  assume h: "pk \<le> (30 :: nat)" "ext \<le> (2 :: nat) ^ 25" "b_filling pk base s0 datasz 1 b"
    "run_parser (\<lambda>ext f. nss_mcdb_acct_make_group_parse (group_enc P sc) scn ext 0 f) (Some (group_fl P scn)) ext f b = Some (ok, b')"
  then obtain ok3 b3 where p: "nss_mcdb_acct_make_group_parse (group_enc P sc) scn ext 0 f b = Some (ok3, b3)"
    "(if \<not> ok3 then Some (False, b3) else group_fl P scn b3) = Some (ok, b')"
    unfolding run_parser_def option.case by (auto simp: bind_eq_Some_conv)
  have mono: "g_filling pk base s0 datasz n' s" if "g_filling pk base s0 datasz n s" "n \<le> n'" for n n' s
    using that by (auto simp: g_filling_def intro: order_trans)
  have stop: "b_stopped base s0 s" if "g_filling pk base s0 datasz n s" for n s
    using that by (auto simp: g_filling_def b_stopped_def intro: stopped_weaken filling_stopped)
  have start: "g_filling pk base s0 datasz 1 b"
    using h(3) by (auto simp: b_filling_def g_filling_def g_blocks_def g_named_def g_count_def split: option.splits)
  have "if ok3 then g_filling pk base s0 datasz (1 + ext) b3 else b_stopped base s0 b3"
  proof (rule group_counted.parse_keeps [where I = "g_filling pk base s0 datasz" and J = "b_stopped base s0", OF mono stop _ p(1) start])
    fix n gr b ok b' assume e: "g_filling pk base s0 datasz n b" "n + (2 + length (gr_mem gr)) \<le> 1 + ext" "group_enc P sc gr b = Some (ok, b')"
    then obtain m where m: "g_named (bd_g b)" "m + g_count (bd_g b) \<le> n" "filling pk (base + g_blocks (bd_g b)) s0 datasz m (bd_w b) (bd_os b)"
      by (auto simp: g_filling_def)
    obtain w g s where r: "nss_mcdb_acct_make_group_encode P sc gr (bd_w b, bd_g b) (bd_os b) = Some (ok, (w, g), s)"
      "b' = b\<lparr>bd_w := w, bd_g := g, bd_os := s\<rparr>" using e(3) by (auto simp: group_enc_def bind_eq_Some_conv)
    have "m + 2 \<le> 2 ^ 27" using m(2) e(2) h(2) by simp
    from group_encode_filled [OF P h(1) m(3,1) this sz r(1)]
    show "if ok then g_filling pk base s0 datasz (n + (2 + length (gr_mem gr))) b' else b_stopped base s0 b'"
      using m(2) r(2) by (cases ok) (auto simp: g_filling_def b_stopped_def intro!: exI [of _ "m + 2"])
  qed simp_all
  then show "if ok then b_filling pk base s0 datasz (2 ^ 27) b' else b_stopped base s0 b'"
    using p(2) mono [of "1 + ext" b3 "2 ^ 27"] h(2) group_flush_filled [OF P h(1) sz, of base s0 b3 scn ok b'] by (cases ok3) auto
qed

end
