(* ===== verification/Nss_Driver_Proofs.thy ===== *)
theory Nss_Driver_Proofs
  imports Nss_Group_Safe Makefn_Proofs
begin

text \<open>
  The program that makes all databases: whatever fails, each database is the old file, untouched, or a
  new complete one.
\<close>

subsection \<open>Databases as files\<close>

lemma db_file_cong:
  assumes "db_file f n hf recs" "\<And>a. a < n \<Longrightarrow> g a = f a"
  shows "db_file g n hf recs"
proof -
  have n: "n = table_pos hf recs MCDB_SLOTS" using assms(1) by (simp add: db_file_def)
  have "db_prefix hf recs MCDB_SLOTS f" using assms(1) by (simp add: db_file_def db_prefix_def)
  then have "db_prefix hf recs MCDB_SLOTS g" by (rule db_prefix_cong) (simp add: assms(2) n)
  moreover have "header_at g hf recs i" if i: "i < MCDB_SLOTS" for i
  proof -
    have "i * 16 + 16 \<le> n"
      using i n table_pos_mono [of 0 MCDB_SLOTS hf recs] by (simp add: tables_start_def data_end_def mcdb_consts)
    then have "mem_slice g (i * 16 + a) k = mem_slice f (i * 16 + a) k" if "a + k \<le> 16" for a k
      using that assms(2) by (intro mem_slice_eqI) auto
    from this [of 0 8] this [of 8 4] this [of 12 4] show ?thesis using assms(1) i by (simp add: db_file_def header_at_def)
  qed
  ultimately show ?thesis using n by (simp add: db_file_def db_prefix_def)
qed

text \<open>The content of a file is a complete database with the entry of nsswitch.conf first.\<close>

definition complete_db :: "bytes \<Rightarrow> bool" where
  "complete_db bs \<longleftrightarrow> (\<exists>recs. db_file (mem_of bs) (length bs) djb_hash recs \<and> recs \<noteq> [] \<and> fst (hd recs) = [0])"

lemma complete_db_out:
  assumes "db_file (o_file s) (o_flen s) djb_hash recs"
  shows "db_file (mem_of (mem_slice (o_file s) 0 (o_flen s))) (o_flen s) djb_hash recs"
  by (rule db_file_cong [OF assms]) (simp add: mem_of_def nth_mem_slice)

lemma out_complete: "os_db (fs_os w) \<Longrightarrow> complete_db (fs_content w (fs_out w))"
  using complete_db_out [of "fs_os w"] by (auto simp: os_db_def complete_db_def fs_content_def)

subsection \<open>From a started file to its cleanup\<close>

lemma started_mode: "started fname w m w1 \<Longrightarrow> started fname w (m\<lparr>mf_st_mode := st\<rparr>) w1"
  by (cases m) (auto simp: started_def mf_tmp_name_def mf_new_name_def)

text \<open>What publishing a file leaves, if \<^term>\<open>good\<close>, and giving it up otherwise.\<close>

definition published :: "bytes \<Rightarrow> fs \<Rightarrow> bool \<Rightarrow> fs \<Rightarrow> bool" where
  "published fname w ok w' \<longleftrightarrow> os_same (fs_os w) (fs_os w') \<and> fs_fresh w \<le> fs_fresh w' \<and> fs_suffix w' = fs_suffix w \<and>
     fs_out w' < fs_fresh w' \<and>
     (\<forall>i < fs_fresh w. fs_content w' i = fs_content w i \<and> fs_mode w' i = fs_mode w i) \<and>
     (\<forall>n. n \<noteq> fname \<and> n \<noteq> tmp_name fname w \<longrightarrow> fs_dir w' n = fs_dir w n) \<and>
     fs_dir w' fname = (if ok then Some (fs_fresh w) else fs_dir w fname)"

lemma publish_props:
  assumes st: "started fname w m w1" and D: "mset (o_live (fs_os w1)) \<subseteq># mset (o_live o2)" "os_same (fs_os w1) o2"
    and suf: "fs_suffix w1 = fs_suffix w"
  shows "\<exists>rc m2 w3 m3 w4. (if good then mcdb_makefn_finish m True (w1\<lparr>fs_os := o2\<rparr>) else (-1, m, w1\<lparr>fs_os := o2\<rparr>)) = (rc, m2, w3) \<and>
    mcdb_makefn_cleanup m2 w3 = Some (m3, w4) \<and> published fname w (rc = 0) w4 \<and> (rc = 0 \<longrightarrow> good) \<and>
    mset (o_live (fs_os w4)) + mset (o_live (fs_os w1)) = mset (o_live o2) + mset (o_live (fs_os w)) \<and>
    (os_willing (fs_os w) \<and> good \<longrightarrow> rc = 0) \<and>
    (rc = 0 \<longrightarrow> fs_out w4 = fs_fresh w \<and> o_file (fs_os w4) = o_file o2 \<and> o_flen (fs_os w4) = o_flen o2 \<and>
       fs_mode w4 (fs_fresh w) = mf_st_mode m \<and> fs_fresh w4 = Suc (fs_fresh w))"
proof -
  let ?w2 = "w1\<lparr>fs_os := o2\<rparr>" and ?tmp = "tmp_name fname w"
  obtain blk bs where blk: "mf_fntmp m = Some (blk, bs)" "o_live (fs_os w1) = blk # o_live (fs_os w)" using st by (auto simp: started_def)
  obtain rest where rest: "mset (o_live o2) = add_mset blk rest"
    using D(1) blk(2) by (auto simp: mset_subset_eq_exists_conv)
  have S: "mf_tmp_name m = ?tmp" "mf_new_name m = fname" "0 \<le> mf_fd m"
      "os_same (fs_os w) (fs_os w1)" "fs_out w1 = fs_fresh w" "fs_fresh w1 = Suc (fs_fresh w)" "fs_dir w1 = (fs_dir w)(?tmp \<mapsto> fs_fresh w)"
      "fs_mode w1 = (fs_mode w)(fs_fresh w := 384)" "fs_fds w1 = (mf_fd m, fs_fresh w) # fs_fds w" "\<forall>i < fs_fresh w. fs_data w1 i = fs_content w i"
      "fs_dir w ?tmp = None"
    using st by (simp_all add: started_def)
  have tmp_ne: "?tmp \<noteq> fname" by (simp add: tmp_name_def)
  obtain rcf mf wf where fin: "mcdb_makefn_finish m True ?w2 = (rcf, mf, wf)" by (metis prod_cases3)
  have "map_of (fs_fds ?w2) (mf_fd m) = Some (fs_fresh w)" "fs_dir ?w2 (mf_tmp_name m) = Some (fs_fresh w)" using S by simp_all
  note F = makefn_finish_props [OF this S(3) fin]
  define m2 where "m2 = (if good then mf else m)"
  define w3 where "w3 = (if good then wf else ?w2)"
  define rc where "rc = (if good then rcf else -1)"
  have will2: "os_willing (fs_os ?w2) = os_willing (fs_os w)" using os_willing_same [OF S(4)] os_willing_same [OF D(2)] by simp
  have C: "kept ?w2 w3" "mf_fntmp m2 = mf_fntmp m" "\<forall>j. j \<noteq> fs_fresh w \<longrightarrow> fs_mode w3 j = fs_mode w1 j"
    "rc = 0 \<and> good \<and> mf_fd m2 = -1 \<and> fs_dir w3 = (fs_dir w)(fname \<mapsto> fs_fresh w) \<and> fs_mode w3 (fs_fresh w) = mf_st_mode m \<or>
     rc \<noteq> 0 \<and> mf_fd m2 \<noteq> -1 \<and> fs_dir w3 = fs_dir w1 \<and> (os_willing (fs_os w) \<longrightarrow> \<not> good)"
    using F S(1-3,7,11) will2 by (auto simp: m2_def w3_def rc_def fun_eq_iff)
  have tn: "mf_tmp_name m2 = ?tmp" using S(1) C(2) by (simp add: mf_tmp_name_def)
  have "mset (o_live (fs_os w3)) = add_mset blk rest" using C(1) rest by (simp add: kept_def)
  moreover have "mf_fd m2 \<noteq> -1 \<Longrightarrow> fs_dir w3 (mf_tmp_name m2) = Some (fs_fresh w)" using C(4) S(7) tn by auto
  ultimately obtain m3 w4 ls where cl: "mcdb_makefn_cleanup m2 w3 = Some (m3, w4)"
    "kept (w3\<lparr>fs_os := (fs_os w3)\<lparr>o_live := ls\<rparr>\<rparr>) w4" "fs_mode w4 = fs_mode w3"
    "mset ls = rest" "if mf_fd m2 = -1 then fs_dir w4 = fs_dir w3
     else fs_dir w4 = fs_dir w3 \<or> fs_dir w4 = (fs_dir w3)(?tmp := None)"
    using makefn_cleanup_props [of m2 blk bs w3] C(2) blk(1) unfolding tn by metis
  have out: "fs_out w4 = fs_fresh w" "o_file (fs_os w4) = o_file o2" "o_flen (fs_os w4) = o_flen o2" "fs_fresh w4 = Suc (fs_fresh w)"
    "fs_suffix w4 = fs_suffix w" "os_same (fs_os w) (fs_os w4)"
    using cl(2) C(1) S(4,5,6) D(2) suf by (simp_all add: kept_def os_same_def)
  have content: "fs_content w4 i = fs_content w i" if "i < fs_fresh w" for i
    using that S(5,10) C(1) cl(2) by (simp add: fs_content_def kept_def)
  have modes: "fs_mode w4 i = fs_mode w i" if "i < fs_fresh w" for i using that S(8) C(3) cl(3) by simp
  have dir: "(\<forall>n. n \<noteq> fname \<and> n \<noteq> ?tmp \<longrightarrow> fs_dir w4 n = fs_dir w n) \<and> fs_dir w4 fname = (if rc = 0 then Some (fs_fresh w) else fs_dir w fname)"
    using C(4)
  proof (elim disjE conjE)
    assume "rc = 0" "mf_fd m2 = -1" "fs_dir w3 = (fs_dir w)(fname \<mapsto> fs_fresh w)"
    then show ?thesis using cl(5) by simp
  next
    assume "rc \<noteq> 0" "mf_fd m2 \<noteq> -1" "fs_dir w3 = fs_dir w1"
    then show ?thesis using cl(5) S(7) tmp_ne by auto
  qed
  have "published fname w (rc = 0) w4" using out content modes dir by (simp add: published_def)
  moreover have "(if good then mcdb_makefn_finish m True ?w2 else (-1, m, ?w2)) = (rc, m2, w3)" by (simp add: fin m2_def w3_def rc_def)
  moreover have "mset (o_live (fs_os w4)) + mset (o_live (fs_os w1)) = mset (o_live o2) + mset (o_live (fs_os w))"
    using cl(2,4) rest blk(2) by (simp add: kept_def)
  ultimately show ?thesis using cl(1,3) C(4) out by auto
qed

subsection \<open>One row\<close>

lemma start_suffix:
  assumes "mcdb_makefn_start fname w = Some (rc, m, w')"
  shows "fs_suffix w' = fs_suffix w"
proof -
  have stat: "fs_stat n w = (r, w1) \<Longrightarrow> fs_suffix w1 = fs_suffix w" for n w r w1
    using stat_kept(1) by (simp add: kept_def)
  have mal: "fs_malloc w = (r, w1) \<Longrightarrow> fs_suffix w1 = fs_suffix w" for w r w1
    by (auto simp: fs_malloc_def split: prod.splits)
  have mk: "fs_mkstemp t w = (fd, n, w1) \<Longrightarrow> fs_suffix w1 = fs_suffix w" for t w fd n w1
    by (auto simp: fs_mkstemp_def fs_call_def fs_error_def fs_open_def Let_def split: prod.splits if_splits)
  have free: "fs_free p w = Some w1 \<Longrightarrow> fs_suffix w1 = fs_suffix w" for p w w1
    by (auto simp: fs_free_def)
  have create: "makefn_create f st m w = Some (rc, m', w1) \<Longrightarrow> fs_suffix w1 = fs_suffix w" for f st m w rc m' w1
    by (auto simp: makefn_create_def Let_def bind_eq_Some_conv dest!: mal mk free split: prod.splits option.splits if_splits)
  show ?thesis using assms
    by (auto simp: mcdb_makefn_start_def fs_error_def Let_def dest!: stat create split: prod.splits option.splits if_splits)
qed

text \<open>The builder between two rows: nothing is mapped and nothing allocated.\<close>

definition b_rest :: "builder \<Rightarrow> bool" where
  "b_rest b \<longleftrightarrow> mk_head (wi_m (bd_w b)) 0 = [] \<and> \<not> mk_mapped (wi_m (bd_w b)) \<and> g_blocks (bd_g b) = {#}"

lemma idle_rest: "b_idle base s0 datasz b \<Longrightarrow> b_rest (with_fd fd b)"
  by (auto simp: b_idle_def b_rest_def destroyed_def with_fd_def)

lemma rest_idle:
  assumes "b_rest b" "fd \<noteq> -1" "wi_datasz (bd_w b) = datasz"
  shows "b_idle (mset (o_live s)) s datasz ((with_fd fd b)\<lparr>bd_os := s\<rparr>)"
  using assms by (simp add: b_idle_def b_rest_def destroyed_def with_fd_def os_same_def)

text \<open>What a row of the table needs: a sound parser, a buffer that the allocated one holds, and flat files of at
  most 32 MB.\<close>

definition sound_row :: "nat \<Rightarrow> (bytes \<Rightarrow> nat \<Rightarrow> srcfile option) \<Rightarrow> fdb_st \<Rightarrow> bool" where
  "sound_row pk inp e \<longleftrightarrow> sound_parser (fdb_datasz e) (fdb_parse e) (fdb_flush e) \<and>
     (\<forall>k src. inp (fdb_file e) k = Some src \<longrightarrow> map_ext (2 ^ pk) (sf_bytes src) \<le> 2 ^ 25)"

text \<open>The next inode has become a complete database.\<close>

definition fresh_db :: "fs \<Rightarrow> fs \<Rightarrow> bool" where
  "fresh_db w w' \<longleftrightarrow> fs_fresh w < fs_fresh w' \<and> complete_db (fs_content w' (fs_fresh w))"

lemma kept_published: "kept w w' \<Longrightarrow> names_kept w w' \<Longrightarrow> fs_out w < fs_fresh w \<Longrightarrow> published fname w False w'"
  by (simp add: published_def kept_content) (simp add: kept_def names_kept_def)

lemma fdb_make_published:
  assumes P: "plasma_bigendian P" and pk: "pk \<le> 30" and fair: "eintr_fair (fs_os w)" and n: "named (fdb_mcdbfile e) w"
    and row: "sound_row pk inp e" and dsz: "wi_datasz (bd_w b) = fdb_datasz e" "fdb_datasz e \<le> DBUFSZ" and b: "b_rest b"
    and run: "fdb_make P (2 ^ pk) inp nsf e st_mode b w = Some (ok, b', w')"
  shows "published (fdb_mcdbfile e) w ok w' \<and> (ok \<longrightarrow> b_rest b' \<and> fresh_db w w' \<and> fs_mode w' (fs_fresh w) = st_mode)"
proof -
  let ?f = "fdb_mcdbfile e"
  obtain rc mf w1 where s: "mcdb_makefn_start ?f w = Some (rc, mf, w1)" "start_end ?f w rc mf w1" using makefn_start_props [OF n] by blast
  show ?thesis
  proof (cases "rc = 0")
    case False
    then have "ok = False" "w' = w1" using run s(1) by (simp_all add: fdb_make_def)
    moreover have "kept w w1" "names_kept w w1" using s(2) False by (auto simp: start_end_def)
    ultimately show ?thesis using kept_published n by (simp add: named_def)
  next
    case True
    then have st: "started ?f w mf w1" using s(2) by (auto simp: start_end_def)
    let ?mf = "mf\<lparr>mf_st_mode := st_mode\<rparr>"
    let ?b = "(with_fd (mf_fd mf) b)\<lparr>bd_os := fs_os w1\<rparr>"
    obtain good b2 where d: "nss_mcdb_make_dbfile P (2 ^ pk) (inp (fdb_file e)) nsf (fdb_file e) (fdb_parse e) (fdb_flush e) ?b = Some (good, b2)"
      using run s(1) True by (auto simp: fdb_make_def bind_eq_Some_conv Let_def)
    have fd: "mf_fd mf \<noteq> -1" and same: "os_same (fs_os w) (fs_os w1)" using st by (auto simp: started_def)
    have d17: "fdb_datasz e < 2 ^ 17" using dsz(2) by (simp add: DBUFSZ_def)
    have idle: "b_idle (mset (o_live (fs_os w1))) (fs_os w1) (fdb_datasz e) ?b" by (rule rest_idle [OF b fd dsz(1)])
    have D: "os_same (fs_os w1) (bd_os b2)" "mset (o_live (fs_os w1)) \<subseteq># mset (o_live (bd_os b2))"
      "good \<Longrightarrow> b_idle (mset (o_live (fs_os w1))) (fs_os w1) (fdb_datasz e) b2 \<and> os_db (bd_os b2)"
      using dbfile_safe [OF P pk eintr_fair_same [OF same fair] d17 _ _ idle d] row by (simp_all add: sound_row_def)
    obtain rcf m2 w3 m3 w4 where p: "(if good then mcdb_makefn_finish ?mf True (w1\<lparr>fs_os := bd_os b2\<rparr>) else (-1, ?mf, w1\<lparr>fs_os := bd_os b2\<rparr>)) = (rcf, m2, w3)"
      "mcdb_makefn_cleanup m2 w3 = Some (m3, w4)" "published ?f w (rcf = 0) w4" "rcf = 0 \<Longrightarrow> good"
      "rcf = 0 \<Longrightarrow> fs_out w4 = fs_fresh w \<and> o_file (fs_os w4) = o_file (bd_os b2) \<and> o_flen (fs_os w4) = o_flen (bd_os b2) \<and>
         fs_mode w4 (fs_fresh w) = mf_st_mode ?mf \<and> fs_fresh w4 = Suc (fs_fresh w)"
      using publish_props [OF started_mode [OF st, of st_mode] D(2,1) start_suffix [OF s(1)], of good] by blast
    have e: "ok = (rcf = 0)" "b' = with_fd (mf_fd m3) b2" "w' = w4"
      using run s(1) True d p(1,2) by (auto simp: fdb_make_def Let_def)
    have "b_rest b' \<and> fresh_db w w' \<and> fs_mode w' (fs_fresh w) = st_mode" if ok
    proof -
      have z: "rcf = 0" using that e(1) by simp
      then have i: "b_idle (mset (o_live (fs_os w1))) (fs_os w1) (fdb_datasz e) b2" "os_db (bd_os b2)" using D(3) p(4) by auto
      have "os_db (fs_os w4)" using i(2) p(5) [OF z] by (simp add: os_db_def)
      then show ?thesis using out_complete [of w4] p(5) [OF z] idle_rest [OF i(1)] e by (simp add: fresh_db_def)
    qed
    then show ?thesis using p(3) e by simp
  qed
qed

text \<open>
  A row whose pass begins in the state \<^verbatim>\<open>w\<close> is skipped when the \<^verbatim>\<open>stat()\<close> of its flat file, which is the
  first call of the pass, says that there is no such file, or when it succeeds and the database is newer than
  what it reports and than nsswitch.conf.
\<close>

definition skipped :: "(bytes \<Rightarrow> nat \<Rightarrow> srcfile option) \<Rightarrow> (nat \<Rightarrow> int) \<Rightarrow> int \<Rightarrow> fs \<Rightarrow> fdb_st \<Rightarrow> bool" where
  "skipped inp mtimes mt w e \<longleftrightarrow>
     (let k = o_step (fs_os w); err = o_fail (fs_os w) k in
      err = ENOENT \<or> err = 0 \<and> (case inp (fdb_file e) k of None \<Rightarrow> True
        | Some src \<Rightarrow> \<exists>i. fs_dir w (fdb_mcdbfile e) = Some i \<and> sf_mtime src < mtimes i \<and> mt < mtimes i))"

text \<open>The permissions of a new database: those of the old one, and without an old one read only, for the shadow
  database by the owner alone.\<close>

definition default_mode :: "fdb_st \<Rightarrow> nat" where
  "default_mode e = (if fdb_file e \<noteq> shadow_file then 292 else S_IRUSR)"

definition mode_ok :: "fs \<Rightarrow> fdb_st \<Rightarrow> nat \<Rightarrow> bool" where
  "mode_ok w e st_mode \<longleftrightarrow> st_mode = default_mode e \<or> (\<exists>i. fs_dir w (fdb_mcdbfile e) = Some i \<and> st_mode = fs_mode w i)"

lemma fdb_step_published:
  assumes P: "plasma_bigendian P" and pk: "pk \<le> 30" and fair: "eintr_fair (fs_os w)" and n: "named (fdb_mcdbfile e) w"
    and row: "sound_row pk inp e" and dsz: "fdb_datasz e \<le> DBUFSZ" and b: "b_rest b" and mt: "0 \<le> mt"
    and run: "fdb_step P (2 ^ pk) inp nsf mtimes mt e b w = Some (rc, go_on, b', w')"
  shows "\<exists>ok. published (fdb_mcdbfile e) w ok w' \<and> (go_on \<longrightarrow> b_rest b') \<and>
    (ok \<longrightarrow> fresh_db w w' \<and> mode_ok w e (fs_mode w' (fs_fresh w))) \<and> (go_on \<and> \<not> ok \<longrightarrow> skipped inp mtimes mt w e) \<and> (rc \<longrightarrow> go_on)"
proof -
  let ?b = "b\<lparr>bd_w := (bd_w b)\<lparr>wi_datasz := fdb_datasz e\<rparr>\<rparr>"
  have rest: "b_rest ?b" using b by (simp add: b_rest_def)
  have out: "fs_out w < fs_fresh w" using n by (simp add: named_def)
  obtain ok1 w1 where c: "fs_call w = (ok1, w1)" by fastforce
  note K1 = call_kept(1,2) [OF c]
  have err: "if ok1 then o_fail (fs_os w) (o_step (fs_os w)) = 0 else o_fail (fs_os w) (o_step (fs_os w)) = o_errno (fs_os w1)"
    using c by (auto simp: fs_call_def ext_call_def Let_def split: if_splits)
  obtain old w2 where st: "fs_stat (fdb_mcdbfile e) w1 = (old, w2)" by fastforce
  note S = stat_kept(1,2,3) [OF st]
  have k2: "kept w w2" "names_kept w w2" using kept_trans [OF K1(1) S(1)] K1(2) S(2) by (simp_all add: names_kept_def)
  have stay: "published (fdb_mcdbfile e) w False w'" if "kept w w'" "names_kept w w'" for w' using kept_published that out by blast
  have old: "old = Some i \<Longrightarrow> fs_dir w (fdb_mcdbfile e) = Some i" for i using S(3) K1(2) by (simp add: names_kept_def)
  consider (stay) "kept w w'" "names_kept w w'" "b_rest b'" "go_on \<Longrightarrow> skipped inp mtimes mt w e" "rc \<Longrightarrow> go_on"
    | (make) st_mode where "fdb_make P (2 ^ pk) inp nsf e st_mode ?b w2 = Some (rc, b', w')" "go_on = rc" "mode_ok w e st_mode"
  proof (cases "\<not> ok1 \<or> inp (fdb_file e) (o_step (fs_os w)) = None")
    case True
    then have "(w' = w1 \<or> w' = fs_error ENOENT w1) \<and> b' = ?b \<and> \<not> rc \<and> (go_on \<longrightarrow> skipped inp mtimes mt w e)" using run err
      by (cases ok1; cases "inp (fdb_file e) (o_step (fs_os w))") (auto simp: fdb_step_def c Let_def skipped_def)
    moreover have "kept w (fs_error ENOENT w1)" "names_kept w (fs_error ENOENT w1)"
      using K1 kept_trans [OF K1(1) error_kept(1)] by (simp_all add: names_kept_def fs_error_def)
    ultimately show ?thesis using that(1) K1 rest by blast
  next
    case False
    then obtain src where src: "ok1" "inp (fdb_file e) (o_step (fs_os w)) = Some src" by auto
    obtain st_mtime st_mode where tm: "(case old of Some i \<Rightarrow> (mtimes i, fs_mode w2 i)
        | None \<Rightarrow> (0, if fdb_file e \<noteq> shadow_file then 292 else S_IRUSR)) = (st_mtime, st_mode)" by fastforce
    have "b' = ?b \<and> w' = w2 \<and> \<not> go_on \<and> \<not> rc \<or> b' = ?b \<and> w' = w2 \<and> go_on \<and> sf_mtime src < st_mtime \<and> mt < st_mtime \<or>
        fdb_make P (2 ^ pk) inp nsf e st_mode ?b w2 = Some (rc, b', w') \<and> go_on = rc"
      using run src tm by (auto simp: fdb_step_def c st Let_def tm bind_eq_Some_conv split: if_splits)
    moreover have "mode_ok w e st_mode"
      using tm old k2(2) by (cases old) (auto simp: mode_ok_def default_mode_def names_kept_def)
    moreover have "skipped inp mtimes mt w e" if "sf_mtime src < st_mtime" "mt < st_mtime"
      using that tm old src mt err by (cases old) (auto simp: skipped_def Let_def)
    ultimately show ?thesis using that k2 rest by blast
  qed
  then show ?thesis
  proof cases
    case stay
    with \<open>\<And>w'. kept w w' \<Longrightarrow> names_kept w w' \<Longrightarrow> published (fdb_mcdbfile e) w False w'\<close> show ?thesis by blast
  next
    case make
    have n2: "named (fdb_mcdbfile e) w2" using n k2(1) by (simp add: named_def kept_def)
    have f2: "eintr_fair (fs_os w2)" using eintr_fair_same fair k2(1) by (auto simp: kept_def)
    have "wi_datasz (bd_w ?b) = fdb_datasz e" by simp
    from fdb_make_published [OF P pk f2 n2 row this dsz rest make(1)]
    have M: "published (fdb_mcdbfile e) w2 rc w'" "rc \<Longrightarrow> b_rest b' \<and> fresh_db w2 w' \<and> fs_mode w' (fs_fresh w2) = st_mode" by blast+
    have t: "tmp_name (fdb_mcdbfile e) w2 = tmp_name (fdb_mcdbfile e) w" using k2(1) by (simp add: tmp_name_def kept_def)
    have "published (fdb_mcdbfile e) w rc w'"
      using M(1) k2(2) unfolding published_def t kept_content [OF k2(1)]
      using k2(1) by (auto simp: kept_def names_kept_def intro: os_same_trans)
    moreover have "fs_fresh w2 = fs_fresh w" using k2(1) by (simp add: kept_def)
    ultimately show ?thesis using M(2) make(2,3) by (intro exI [of _ rc]) (auto simp: fresh_db_def)
  qed
qed

end
