(* ===== verification/Nss_Driver_Props.thy ===== *)
theory Nss_Driver_Props
  imports Nss_Driver_Proofs
begin

text \<open>
  The loop over the table of databases, and the properties of the whole program nss_mcdbctl.
\<close>

subsection \<open>What a pass over the table leaves\<close>
















subsection \<open>The program\<close>

text \<open>Calls that leave every file and every name alone.\<close>

definition quiet :: "fs \<Rightarrow> fs \<Rightarrow> bool" where
  "quiet w w' \<longleftrightarrow> os_same (fs_os w) (fs_os w') \<and> fs_suffix w' = fs_suffix w \<and> fs_fresh w' = fs_fresh w \<and> fs_out w' = fs_out w \<and>
     fs_dir w' = fs_dir w \<and> fs_mode w' = fs_mode w \<and> fs_content w' = fs_content w"

lemma quiet_trans: "quiet w w1 \<Longrightarrow> quiet w1 w2 \<Longrightarrow> quiet w w2"
  by (auto simp: quiet_def intro: os_same_trans)

lemma kept_quiet: "kept w w' \<Longrightarrow> names_kept w w' \<Longrightarrow> quiet w w'"
  by (simp add: quiet_def kept_content fun_eq_iff) (simp add: kept_def names_kept_def)

lemma malloc_quiet: "fs_malloc w = (r, w') \<Longrightarrow> quiet w w'"
  by (auto simp: fs_malloc_def os_malloc_def ext_call_def Let_def quiet_def os_same_def fs_content_def fun_eq_iff split: if_splits)

lemma free_quiet: "fs_free blk w = Some w' \<Longrightarrow> quiet w w'"
  by (auto simp: fs_free_def os_free_def quiet_def os_same_def fs_content_def fun_eq_iff split: if_splits)















lemma db_names_differ [simp]: "str_bytes (NSS_MCDB_DBPATH @ ''passwd.mcdb'') \<noteq> str_bytes (NSS_MCDB_DBPATH @ ''group.mcdb'')"
  by (simp add: str_bytes_def)



subsection \<open>A run in which nothing fails\<close>

text \<open>The flat file of some entries of /etc/passwd, and the new database made of it.\<close>

definition accounts_file :: "nat \<Rightarrow> nat \<Rightarrow> bytes passwd list \<Rightarrow> srcfile \<Rightarrow> bool" where
  "accounts_file pk datasz pws src \<longleftrightarrow> (\<forall>pw \<in> set pws. passwd_printable pw \<and> passwd_fits datasz pw) \<and>
     sf_bytes src = print_passwds pws \<and> length (print_passwds pws) mod 2 ^ pk \<noteq> 0 \<and> map_ext (2 ^ pk) (sf_bytes src) \<le> 2 ^ 25 \<and>
     recs_ok djb_hash (passwd_db passwd_file pws)"

definition passwd_made :: "bytes passwd list \<Rightarrow> bytes \<Rightarrow> nat \<Rightarrow> fs \<Rightarrow> fs \<Rightarrow> bool" where
  "passwd_made pws f st_mode w w' \<longleftrightarrow> published f w True w' \<and> fs_fresh w' = Suc (fs_fresh w) \<and>
     db_file (mem_of (fs_content w' (fs_fresh w))) (length (fs_content w' (fs_fresh w))) djb_hash (passwd_db passwd_file pws) \<and>
     fs_mode w' (fs_fresh w) = st_mode \<and> mset (o_live (fs_os w')) = mset (o_live (fs_os w))"

lemma fdb_make_passwd:
  assumes P: "plasma_bigendian P" "pk \<le> 30" and will: "os_willing (fs_os w)" and n: "named f w" "fs_dir w (tmp_name f w) = None"
    and reg: "\<And>i. fs_dir w f = Some i \<Longrightarrow> fs_reg w i" and f: "f = fdb_mcdbfile (passwd_fdb P sz)"
    and b: "wi_datasz (bd_w b) = NSS_PW_HDRSZ + sz" "bd_nsw b = None" "b_rest b" "NSS_PW_HDRSZ + sz \<le> DBUFSZ"
    and inp: "inp passwd_file = (\<lambda>_. Some src)" and src: "accounts_file pk (NSS_PW_HDRSZ + sz) pws src"
  shows "\<exists>b' w'. fdb_make P (2 ^ pk) inp (\<lambda>_. None) (passwd_fdb P sz) st_mode b w = Some (True, b', w') \<and> passwd_made pws f st_mode w w'"
proof -
  have pws: "\<forall>pw \<in> set pws. passwd_printable pw \<and> passwd_fits (NSS_PW_HDRSZ + sz) pw" "sf_bytes src = print_passwds pws"
    "length (print_passwds pws) mod 2 ^ pk \<noteq> 0" "recs_ok djb_hash (passwd_db passwd_file pws)" "map_ext (2 ^ pk) (sf_bytes src) \<le> 2 ^ 25"
    using src unfolding accounts_file_def by blast+
  obtain rc mf w1 where s: "mcdb_makefn_start f w = Some (rc, mf, w1)" "start_end f w rc mf w1" using makefn_start_props [OF n(1)] by blast
  then have rc: "rc = 0" and st: "started f w mf w1" using will n(2) reg by (auto simp: start_end_def)
  let ?mf = "mf\<lparr>mf_st_mode := st_mode\<rparr>"
  let ?b = "(with_fd (mf_fd mf) b)\<lparr>bd_os := fs_os w1\<rparr>"
  have same: "os_same (fs_os w) (fs_os w1)" using st by (simp add: started_def)
  have h: "mk_fd (wi_m (bd_w ?b)) \<noteq> -1" "os_willing (bd_os ?b)" "bd_nsw ?b = None" "9 < wi_datasz (bd_w ?b)"
    "\<forall>pw \<in> set pws. passwd_printable pw \<and> passwd_fits (wi_datasz (bd_w ?b)) pw"
    using st os_willing_same [OF same] will b pws(1) by (auto simp: started_def with_fd_def NSS_PW_HDRSZ_def)
  obtain b2 where d: "make_passwd_db P (2 ^ pk) (\<lambda>_. Some src) (\<lambda>_. None) passwd_file ?b = Some (True, b2)"
    "mset (o_live (bd_os b2)) = mset (o_live (fs_os w1))" "db_file (o_file (bd_os b2)) (o_flen (bd_os b2)) djb_hash (passwd_db passwd_file pws)"
    using make_passwd_builds [OF P h pws(2-4)] by auto
  then have d1: "nss_mcdb_make_dbfile P (2 ^ pk) (inp passwd_file) (\<lambda>_. None) passwd_file (fdb_parse (passwd_fdb P sz)) (fdb_flush (passwd_fdb P sz)) ?b =
      Some (True, b2)" by (simp add: make_passwd_db_def inp passwd_fdb_def)
  have fair: "eintr_fair (fs_os w1)" using h(2) by (auto simp: os_willing_def eintr_fair_def EINTR_def)
  have fd: "mf_fd mf \<noteq> -1" using st by (simp add: started_def)
  have d17: "NSS_PW_HDRSZ + sz < 2 ^ 17" using b(4) by (simp add: DBUFSZ_def)
  have snd: "sound_parser (NSS_PW_HDRSZ + sz) (fdb_parse (passwd_fdb P sz)) (fdb_flush (passwd_fdb P sz))"
    using passwd_sound [OF P(1) d17] by (simp add: passwd_fdb_def)
  have small: "\<And>k src'. inp passwd_file k = Some src' \<Longrightarrow> map_ext (2 ^ pk) (sf_bytes src') \<le> 2 ^ 25" using pws(5) inp by simp
  from dbfile_safe [OF P fair d17 snd small rest_idle [OF b(3) fd b(1)] d1]
  have same2: "os_same (fs_os w1) (bd_os b2)" by simp
  have live: "mset (o_live (fs_os w1)) \<subseteq># mset (o_live (bd_os b2))" using d(2) by simp
  obtain rcf m2 w3 m3 w4 where p: "mcdb_makefn_finish ?mf True (w1\<lparr>fs_os := bd_os b2\<rparr>) = (rcf, m2, w3)" "mcdb_makefn_cleanup m2 w3 = Some (m3, w4)"
    "published f w (rcf = 0) w4" "mset (o_live (fs_os w4)) + mset (o_live (fs_os w1)) = mset (o_live (bd_os b2)) + mset (o_live (fs_os w))" "rcf = 0"
    "fs_out w4 = fs_fresh w \<and> o_file (fs_os w4) = o_file (bd_os b2) \<and> o_flen (fs_os w4) = o_flen (bd_os b2) \<and>
     fs_mode w4 (fs_fresh w) = mf_st_mode ?mf \<and> fs_fresh w4 = Suc (fs_fresh w)"
    using publish_props [OF started_mode [OF st, of st_mode] live same2 start_suffix [OF s(1)], of True] will by auto
  have "fdb_make P (2 ^ pk) inp (\<lambda>_. None) (passwd_fdb P sz) st_mode b w = Some (True, with_fd (mf_fd m3) b2, w4)"
    using s(1) rc d1 p(1,2,5) f by (simp add: fdb_make_def passwd_fdb_def)
  moreover have "db_file (mem_of (fs_content w4 (fs_fresh w))) (length (fs_content w4 (fs_fresh w))) djb_hash (passwd_db passwd_file pws)"
    using complete_db_out [of "fs_os w4"] p(6) d(3) by (simp add: fs_content_def)
  moreover have "mset (o_live (fs_os w4)) = mset (o_live (fs_os w))" using p(4) d(2) by simp
  ultimately show ?thesis using p(3,5,6) by (auto simp: passwd_made_def)
qed

lemma fdb_step_passwd:
  assumes P: "plasma_bigendian P" "pk \<le> 30" and will: "os_willing (fs_os w)" and n: "named f w" "fs_dir w (tmp_name f w) = None"
    and reg: "\<And>i. fs_dir w f = Some i \<Longrightarrow> fs_reg w i" and f: "f = fdb_mcdbfile (passwd_fdb P sz)"
    and b: "bd_nsw b = None" "b_rest b" "NSS_PW_HDRSZ + sz \<le> DBUFSZ"
    and inp: "inp passwd_file = (\<lambda>_. Some src)" and src: "accounts_file pk (NSS_PW_HDRSZ + sz) pws src"
    and old: "\<And>i. fs_dir w f = Some i \<Longrightarrow> mtimes i \<le> sf_mtime src"
  shows "\<exists>b' w'. fdb_step P (2 ^ pk) inp (\<lambda>_. None) mtimes 0 (passwd_fdb P sz) b w = Some (True, True, b', w') \<and>
    passwd_made pws f (case fs_dir w f of None \<Rightarrow> 292 | Some i \<Rightarrow> fs_mode w i) w w'"
proof -
  let ?e = "passwd_fdb P sz"
  let ?b = "b\<lparr>bd_w := (bd_w b)\<lparr>wi_datasz := fdb_datasz ?e\<rparr>\<rparr>"
  have e: "fdb_file ?e = passwd_file" "fdb_datasz ?e = NSS_PW_HDRSZ + sz" by (simp_all add: passwd_fdb_def)
  have ne: "passwd_file \<noteq> shadow_file" by (simp add: passwd_file_def shadow_file_def str_bytes_def)
  obtain ok w1 where c: "fs_call w = (ok, w1)" by fastforce
  note K = call_kept [OF c]
  obtain r w2 where st: "fs_stat f w1 = (r, w2)" by fastforce
  note S = stat_kept [OF st]
  have will1: "os_willing (fs_os w1)" using kept_willing [OF K(1)] will by simp
  have k2: "kept w w2" "names_kept w w2" using kept_trans [OF K(1) S(1)] K(2) S(2) by (simp_all add: names_kept_def)
  have r: "r = fs_dir w f" "r = None \<Longrightarrow> o_errno (fs_os w2) = ENOENT" using S(4) [OF will1] K(2) by (simp_all add: names_kept_def)
  define md where "md = (case fs_dir w f of None \<Rightarrow> 292 | Some i \<Rightarrow> fs_mode w i)"
  have "fdb_step P (2 ^ pk) inp (\<lambda>_. None) mtimes 0 ?e b w =
      do { (rc, b2, w3) \<leftarrow> fdb_make P (2 ^ pk) inp (\<lambda>_. None) ?e md ?b w2; Some (rc, rc, b2, w3) }"
    unfolding fdb_step_def c Let_def prod.case f [symmetric] st
    using K(3) [OF will] r old k2(2) inp e(1) ne by (cases "fs_dir w f") (auto simp: md_def names_kept_def)
  moreover have n2: "named f w2" "fs_dir w2 (tmp_name f w2) = None" "\<And>i. fs_dir w2 f = Some i \<Longrightarrow> fs_reg w2 i"
    using n reg k2 by (simp_all add: named_def kept_def names_kept_def tmp_name_def)
  moreover have will2: "os_willing (fs_os w2)" using kept_willing [OF k2(1)] will by simp
  moreover have "wi_datasz (bd_w ?b) = NSS_PW_HDRSZ + sz" "bd_nsw ?b = None" "b_rest ?b" using b e(2) by (simp_all add: b_rest_def)
  then obtain b' w' where m: "fdb_make P (2 ^ pk) inp (\<lambda>_. None) ?e md ?b w2 = Some (True, b', w')" "passwd_made pws f md w2 w'"
    using fdb_make_passwd [where inp = inp, OF P will2 n2 f _ _ _ b(3) inp src] by blast
  moreover have "passwd_made pws f md w w'"
    using m(2) k2 unfolding passwd_made_def published_def kept_content [OF k2(1)]
    by (auto simp: kept_def names_kept_def tmp_name_def intro: os_same_trans)
  ultimately show ?thesis by (simp add: md_def)
qed

lemma fdb_loop_absent:
  "os_willing (fs_os w) \<Longrightarrow> (\<And>e k. e \<in> set es \<Longrightarrow> inp (fdb_file e) k = None \<and> fdb_datasz e \<le> DBUFSZ) \<Longrightarrow>
    \<exists>b' w'. fdb_loop P ps inp nsf mtimes mt es rc b w = Some (Ended (es = [] \<and> rc), b', w') \<and> kept w w' \<and> names_kept w w'"
proof (induction es arbitrary: rc b w)
  case Nil
  then show ?case by simp
next
  case (Cons e es)
  obtain ok w1 where c: "fs_call w = (ok, w1)" by fastforce
  note K = call_kept [OF c]
  let ?b = "b\<lparr>bd_w := (bd_w b)\<lparr>wi_datasz := fdb_datasz e\<rparr>\<rparr>" and ?w = "fs_error ENOENT w1"
  have e: "inp (fdb_file e) k = None" "fdb_datasz e \<le> DBUFSZ" for k using Cons.prems(2) by simp_all
  have step: "fdb_step P ps inp nsf mtimes mt e b w = Some (False, True, ?b, ?w)"
    using K(3) [OF Cons.prems(1)] e(1) by (simp add: fdb_step_def c Let_def)
  have k: "kept w ?w" "names_kept w ?w" using kept_trans [OF K(1) error_kept(1)] K(2) by (simp_all add: names_kept_def fs_error_def)
  have "os_willing (fs_os ?w)" using kept_willing [OF k(1)] Cons.prems(1) by simp
  then obtain b' w' where r: "fdb_loop P ps inp nsf mtimes mt es False ?b ?w = Some (Ended False, b', w')" "kept ?w w'" "names_kept ?w w'"
    using Cons.IH [of ?w False ?b] Cons.prems(2) by fastforce
  then show ?case using step e(2) kept_trans [OF k(1) r(2)] k(2) by (auto simp: names_kept_def)
qed

text \<open>C36: when /etc/passwd is the only flat file and no call fails, nss_mcdbctl run by an ordinary user makes the
  database of its entries under the name at which the module for nsswitch.conf looks for it, with the permissions
  of the old one or readable by all, changes no other name but that of its temporary file - and exits with status 1, although
  nothing failed, because the status is that of the last row of the table, whose flat file is not there.\<close>

theorem passwd_made_exit_1:
  assumes P: "plasma_bigendian P" "pk \<le> 30" and will: "os_willing (fs_os w)"
    and w: "length (fs_suffix w) = 6" "0 \<notin> set (fs_suffix w)" "fs_out w < fs_fresh w"
    and f: "f = nss_dbnames NSS_DBTYPE_PASSWD" "fs_dir w (tmp_name f w) = None" "\<forall>i. fs_dir w f = Some i \<longrightarrow> fs_reg w i \<and> mtimes i \<le> sf_mtime src"
    and sz: "\<not> bad_size pwsz" "\<not> bad_size grsz" "\<not> bad_size hnsz" "NSS_PW_HDRSZ + nat pwsz \<le> DBUFSZ" "NSS_GR_HDRSZ + nat grsz \<le> DBUFSZ"
    and netdb: "\<forall>e \<in> set netdb. fdb_file e \<noteq> passwd_file \<and> fdb_datasz e \<le> DBUFSZ"
    and src: "accounts_file pk (NSS_PW_HDRSZ + nat pwsz) pws src" and user: "euid \<noteq> 0"
  shows "\<exists>w' i. nss_mcdbctl_main P (2 ^ pk) (\<lambda>n _. if n = passwd_file then Some src else None) (\<lambda>_. None) (\<lambda>_. None) mtimes sc scn pwsz grsz
       hnsz euid garbage netdb w = Some (Exit 1, w') \<and>
     fs_dir w' f = Some i \<and> db_file (mem_of (fs_content w' i)) (length (fs_content w' i)) djb_hash (passwd_db passwd_file pws) \<and>
     fs_mode w' i = (case fs_dir w f of None \<Rightarrow> 292 | Some j \<Rightarrow> fs_mode w j) \<and>
     (\<forall>n. n \<noteq> f \<and> n \<noteq> tmp_name f w \<longrightarrow> fs_dir w' n = fs_dir w n)"
proof -
  let ?inp = "\<lambda>n _. if n = passwd_file then Some src else None" and ?e = "passwd_fdb P (nat pwsz)"
  let ?rest = "group_fdb P sc scn (nat grsz) # netdb"
  have fe: "f = fdb_mcdbfile ?e" "0 \<notin> set f" by (simp_all add: f(1) passwd_fdb_def str_bytes_def NSS_MCDB_DBPATH_def)
  obtain data w1 where m: "fs_malloc w = (data, w1)" by fastforce
  note M = malloc_kept [OF m]
  obtain blk where blk: "data = Some blk" using M(3) [OF will] by blast
  note k1 = M(4) [OF blk]
  obtain ok w2 where c: "fs_call w1 = (ok, w2)" by fastforce
  note K = call_kept [OF c]
  let ?w3 = "fs_error ENOENT w2"
  have k3: "kept w1 ?w3" "names_kept w1 ?w3" using kept_trans [OF K(1) error_kept(1)] K(2) by (simp_all add: names_kept_def fs_error_def)
  have will1: "os_willing (fs_os w1)" using kept_willing [OF k1] will by (simp add: os_willing_def)
  have q: "quiet w ?w3" using malloc_quiet [OF m] kept_quiet [OF k3] by (rule quiet_trans)
  have live: "o_live (fs_os ?w3) = blk # o_live (fs_os w)" using k1 k3(1) by (simp add: kept_def)
  have reg: "fs_reg ?w3 = fs_reg w" using k1 k3(1) by (simp add: kept_def)
  have will3: "os_willing (fs_os ?w3)" using kept_willing [OF k3(1)] will1 by simp
  have n3: "named f ?w3" "fs_dir ?w3 (tmp_name f ?w3) = None" "\<And>i. fs_dir ?w3 f = Some i \<Longrightarrow> fs_reg ?w3 i"
    "\<And>i. fs_dir ?w3 f = Some i \<Longrightarrow> mtimes i \<le> sf_mtime src"
    using w f(2,3) fe(2) q unfolding reg by (simp_all add: named_def quiet_def tmp_name_def)
  have b: "bd_nsw (builder_init garbage ?w3) = None" "b_rest (builder_init garbage ?w3)"
    by (simp_all add: b_rest_def builder_init_def groupmems_init_def g_blocks_def pool_empty_def)
  define md where "md = (case fs_dir w f of None \<Rightarrow> 292 | Some i \<Rightarrow> fs_mode w i)"
  have md3: "(case fs_dir ?w3 f of None \<Rightarrow> 292 | Some i \<Rightarrow> fs_mode ?w3 i) = md" using q by (auto simp: quiet_def md_def split: option.splits)
  obtain b4 w4 where s: "fdb_step P (2 ^ pk) ?inp (\<lambda>_. None) mtimes 0 ?e (builder_init garbage ?w3) ?w3 = Some (True, True, b4, w4)"
    "passwd_made pws f md ?w3 w4"
    using fdb_step_passwd [where inp = ?inp and mtimes = mtimes, OF P will3 n3(1-3) fe(1) b sz(4) _ src n3(4)] unfolding md3 by auto
  have will4: "os_willing (fs_os w4)" using s(2) will3 os_willing_same by (auto simp: passwd_made_def published_def)
  have rest: "?inp (fdb_file e) k = None \<and> fdb_datasz e \<le> DBUFSZ" if "e \<in> set ?rest" for e k
    using that netdb sz(5) by (auto simp: group_fdb_def group_file_def passwd_file_def str_bytes_def)
  obtain b5 w5 where l: "fdb_loop P (2 ^ pk) ?inp (\<lambda>_. None) mtimes 0 ?rest True b4 w4 = Some (Ended False, b5, w5)" "kept w4 w5" "names_kept w4 w5"
    using fdb_loop_absent [where inp = ?inp, OF will4 rest] by fastforce
  have "mset (o_live (fs_os w5)) = add_mset blk (mset (o_live (fs_os w)))" using s(2) l(2) live by (simp add: passwd_made_def kept_def)
  from free_kept [OF this] obtain w' where fr: "fs_free blk w5 = Some w'" by blast
  have run: "fdb_loop P (2 ^ pk) ?inp (\<lambda>_. None) mtimes 0 (?e # ?rest) False (builder_init garbage ?w3) ?w3 = Some (Ended False, b5, w5)"
    using s(1) l(1) sz(4) by (simp add: passwd_fdb_def)
  have main: "nss_mcdbctl_main P (2 ^ pk) ?inp (\<lambda>_. None) (\<lambda>_. None) mtimes sc scn pwsz grsz hnsz euid garbage netdb w = Some (Exit 1, w')"
    using K(3) [OF will1] run fr sz(1-3) user unfolding nss_mcdbctl_main_def m c blk Let_def prod.case option.case fdb_def
    by simp
  have q5: "quiet w4 w'" using kept_quiet [OF l(2,3)] free_quiet [OF fr] by (rule quiet_trans)
  have t: "tmp_name f ?w3 = tmp_name f w" using q by (simp add: quiet_def tmp_name_def)
  have "fs_dir w' f = Some (fs_fresh w) \<and>
      db_file (mem_of (fs_content w' (fs_fresh w))) (length (fs_content w' (fs_fresh w))) djb_hash (passwd_db passwd_file pws) \<and>
      fs_mode w' (fs_fresh w) = md \<and> (\<forall>n. n \<noteq> f \<and> n \<noteq> tmp_name f w \<longrightarrow> fs_dir w' n = fs_dir w n)"
    using s(2) q q5 unfolding passwd_made_def published_def t by (simp add: quiet_def)
  then show ?thesis using main md_def by blast
qed

lemma ex_accounts: "accounts_file 12 (NSS_PW_HDRSZ + nat 1024) [ex_pw] ex_src"
proof -
  have len: "length (passwd_image ex_pw) = 24"
    unfolding length_passwd_image str_offs by (simp add: ex_pw_def NSS_PW_HDRSZ_def)
  have "passwd_fits (NSS_PW_HDRSZ + nat 1024) ex_pw"
    unfolding passwd_fits_def len str_offs by (simp add: ex_pw_def USHRT_MAX_def NSS_PW_HDRSZ_def)
  moreover have nm: "length (pw_name ex_pw) = 1" by (simp add: ex_pw_def)
  have "recs_ok djb_hash (passwd_db passwd_file [ex_pw])"
    by (rule recs_ok_few) (simp_all add: passwd_db_def passwd_recs_def len nm default_entry_def hosts_word_def mcdb_word_def data_bytes_def
        rec_bytes_def INT_MAX_def passwd_file_def str_bytes_def)
  ultimately show ?thesis using ex_passwd(1,3) by (simp add: accounts_file_def ex_src_def map_ext_def)
qed

theorem passwd_made_exit_1_witness:
  "\<exists>w' i. nss_mcdbctl_main plasma_ref (2 ^ 12) (\<lambda>n _. if n = passwd_file then Some ex_src else None) (\<lambda>_. None) (\<lambda>_. None) (\<lambda>_. 0)
     65536 65536 1024 1024 64 1000 (\<lambda>_. 0) [] ex_fs = Some (Exit 1, w') \<and> fs_dir w' (nss_dbnames NSS_DBTYPE_PASSWD) = Some i \<and>
     db_file (mem_of (fs_content w' i)) (length (fs_content w' i)) djb_hash (passwd_db passwd_file [ex_pw]) \<and> fs_mode w' i = 292"
proof -
  have dir: "fs_dir ex_fs (tmp_name (nss_dbnames NSS_DBTYPE_PASSWD) ex_fs) = None" "fs_dir ex_fs (nss_dbnames NSS_DBTYPE_PASSWD) = None"
    by (simp_all add: ex_fs_def tmp_name_def str_bytes_def NSS_MCDB_DBPATH_def)
  have sz: "\<not> bad_size 1024" "\<not> bad_size 64" "NSS_PW_HDRSZ + nat 1024 \<le> DBUFSZ" "NSS_GR_HDRSZ + nat 1024 \<le> DBUFSZ"
    by (simp_all add: bad_size_def SHRT_MAX_def DBUFSZ_def NSS_PW_HDRSZ_def NSS_GR_HDRSZ_def)
  have names: "length (fs_suffix ex_fs) = 6" "0 \<notin> set (fs_suffix ex_fs)" "fs_out ex_fs < fs_fresh ex_fs" using ex_fs_named(1) by (simp_all add: named_def)
  from passwd_made_exit_1 [OF plasma_ref_bigendian _ ex_fs_named(3) names refl dir(1) _ sz(1) sz(1) sz(2-4) _ ex_accounts, where euid = 1000 and netdb = "[]" and
      mtimes = "\<lambda>_. 0" and sc = 65536 and scn = 65536 and garbage = "\<lambda>_. 0"]
  show ?thesis using dir(2) by auto
qed

end
