(* ===== verification/Thread_Chain.thy ===== *)
theory Thread_Chain
  imports Open_Proofs Mcdb_Thread
begin

text \<open>
  The chain of maps behind a thread-safe refresh: the maps from the oldest to the newest, each with
  the number of its users and the two flags in its reference count.  What registration, release and
  refresh do to such a chain.
\<close>

subsection \<open>Reference counts\<close>

text \<open>A count of users with the flags "not the oldest" and "being reopened".\<close>

definition refw :: "nat \<Rightarrow> bool \<Rightarrow> bool \<Rightarrow> u32" where
  "refw c b r = word_of_nat c + (if b then REFCNT_NOT_OLDEST else 0) + (if r then REFCNT_REOPENING else 0)"

lemma refcnt_flags: "REFCNT_NOT_OLDEST = push_bit 30 1" "REFCNT_REOPENING = push_bit 31 1"
  by (simp_all add: REFCNT_NOT_OLDEST_def REFCNT_REOPENING_def push_bit_eq_mult)

lemma low_bits:
  assumes "c < 2 ^ 30"
  shows "bit (word_of_nat c :: u32) k \<longleftrightarrow> k < 30 \<and> bit c k"
proof -
  have "\<not> bit c k" if "30 \<le> k"
  proof -
    have "c < 2 ^ k" using assms power_increasing [OF that, of "2 :: nat"] by linarith
    then show ?thesis by (simp add: bit_iff_odd)
  qed
  then show ?thesis by (auto simp: bit_of_nat_iff not_less [symmetric])
qed

lemma flag_bits: "bit (if b then REFCNT_NOT_OLDEST else 0) k \<longleftrightarrow> b \<and> k = 30"
  "bit (if r then REFCNT_REOPENING else 0) k \<longleftrightarrow> r \<and> k = 31"
proof -
  have "bit (push_bit n (1 :: u32)) k \<longleftrightarrow> k = n" if "n < 32" for n
    using that by (auto simp only: bit_push_bit_iff bit_1_iff possible_bit_word) auto
  from this [of 30] this [of 31] show "bit (if b then REFCNT_NOT_OLDEST else 0) k \<longleftrightarrow> b \<and> k = 30"
    "bit (if r then REFCNT_REOPENING else 0) k \<longleftrightarrow> r \<and> k = 31" unfolding refcnt_flags by (cases b; cases r; simp)+
qed

lemma bit_refw:
  assumes "c < 2 ^ 30"
  shows "bit (refw c b r) k \<longleftrightarrow> k < 30 \<and> bit c k \<or> b \<and> k = 30 \<or> r \<and> k = 31"
proof -
  have "refw c b r = (word_of_nat c OR (if b then REFCNT_NOT_OLDEST else 0)) OR (if r then REFCNT_REOPENING else 0)"
    unfolding refw_def
    by (subst disjunctive_add, simp add: low_bits [OF assms] flag_bits)
      (subst disjunctive_add, auto simp: low_bits [OF assms] flag_bits bit_or_iff)
  then show ?thesis by (simp add: low_bits [OF assms] flag_bits bit_or_iff)
qed

lemma unat_refw:
  assumes "c < 2 ^ 30"
  shows "unat (refw c b r) = c + (if b then 2 ^ 30 else 0) + (if r then 2 ^ 31 else 0)"
proof -
  have e: "refw c b r = word_of_nat (c + (if b then 2 ^ 30 else 0) + (if r then 2 ^ 31 else 0))"
    by (simp add: refw_def REFCNT_NOT_OLDEST_def REFCNT_REOPENING_def)
  show ?thesis unfolding e by (rule unat_of_nat_u32) (use assms in simp)
qed

lemma refw_inc: "refw c b r + 1 = refw (Suc c) b r"
  and refw_dec: "0 < c \<Longrightarrow> refw c b r - 1 = refw (c - 1) b r"
  by (simp_all add: refw_def of_nat_diff)

lemma refw_zero: "c < 2 ^ 30 \<Longrightarrow> refw c b r = 0 \<longleftrightarrow> c = 0 \<and> \<not> b \<and> \<not> r"
  using unat_refw [of c b r] by (auto simp: word_unat_eq_iff split: if_splits)

lemma refw_ops:
  assumes "c < 2 ^ 30"
  shows "refw c b r AND NOT REFCNT_NOT_OLDEST = refw c False r" "refw c b r OR REFCNT_REOPENING = refw c b True"
    "refw c b r AND NOT REFCNT_REOPENING = refw c b False" "refw c b r < REFCNT_REOPENING \<longleftrightarrow> \<not> r"
proof -
  note bits = bit_refw [OF assms] flag_bits [of True, simplified]
  show "refw c b r AND NOT REFCNT_NOT_OLDEST = refw c False r" "refw c b r OR REFCNT_REOPENING = refw c b True"
    "refw c b r AND NOT REFCNT_REOPENING = refw c b False"
    by (rule bit_word_eqI, auto simp: bits bit_and_iff bit_or_iff bit_not_iff)+
  have "unat REFCNT_REOPENING = 2 ^ 31" by (simp add: REFCNT_REOPENING_def)
  then show "refw c b r < REFCNT_REOPENING \<longleftrightarrow> \<not> r" using unat_refw [OF assms, of b r] assms by (auto simp: word_less_nat_alt)
qed

subsection \<open>Chains\<close>

text \<open>\<^term>\<open>c\<close> counts the users of a map, \<^term>\<open>R\<close> holds the maps that are flagged as being reopened.\<close>

definition node :: "(nat \<Rightarrow> nat) \<Rightarrow> nat set \<Rightarrow> bool \<Rightarrow> nat \<Rightarrow> nat option \<Rightarrow> rd \<Rightarrow> bool" where
  "node c R b p nx w \<longleftrightarrow> (\<exists>mm. get_map p w = Some mm \<and> mm_ptr mm \<noteq> None \<and> mm_next mm = nx \<and>
     mm_refcnt mm = refw (c p) b (p \<in> R) \<and> fname_str mm w \<noteq> None)"

definition first :: "nat list \<Rightarrow> nat option \<Rightarrow> nat option" where
  "first ps z = (case ps of [] \<Rightarrow> z | q # _ \<Rightarrow> Some q)"

lemma first_simps [simp]: "first [] z = z" "first (q # qs) z = Some q"
  by (simp_all add: first_def)

fun chain :: "(nat \<Rightarrow> nat) \<Rightarrow> nat set \<Rightarrow> bool \<Rightarrow> nat list \<Rightarrow> nat option \<Rightarrow> rd \<Rightarrow> bool" where
  "chain c R b [] z w \<longleftrightarrow> True"
| "chain c R b (p # ps) z w \<longleftrightarrow> node c R b p (first ps z) w \<and> chain c R True ps z w"

lemma chain_append: "chain c R b (xs @ ys) z w \<longleftrightarrow> chain c R b xs (first ys z) w \<and> chain c R (b \<or> xs \<noteq> []) ys z w"
proof (induction xs arbitrary: b)
  case (Cons x xs)
  have "first (xs @ ys) z = first xs (first ys z)" by (cases xs) simp_all
  with Cons show ?case by auto
qed simp

lemma node_cong:
  assumes "node c R b p nx w" "get_map p w' = get_map p w" "c' p = c p" "p \<in> R' \<longleftrightarrow> p \<in> R" "r_strs w' = r_strs w"
  shows "node c' R' b p nx w'"
proof -
  have "fname_str mm w' = fname_str mm w" for mm using assms(5) by (simp add: fname_str_def split: fname_ref.split)
  then show ?thesis using assms by (auto simp: node_def)
qed

lemma chain_cong:
  assumes "\<forall>p \<in> set ps. get_map p w' = get_map p w \<and> c' p = c p \<and> (p \<in> R' \<longleftrightarrow> p \<in> R)" "r_strs w' = r_strs w"
  shows "chain c R b ps z w \<Longrightarrow> chain c' R' b ps z w'"
  using assms(1)
proof (induction ps arbitrary: b)
  case (Cons p ps)
  then have "node c' R' b p (first ps z) w'" using assms(2) by (auto intro: node_cong)
  then show ?case using Cons by simp
qed simp

text \<open>A map of the chain, with its neighbours.\<close>

lemma chain_split:
  assumes "chain c R b ns z w" "p \<in> set ns" "distinct ns"
  obtains xs ys where "ns = xs @ p # ys" "chain c R b xs (Some p) w" "node c R (b \<or> xs \<noteq> []) p (first ys z) w" "chain c R True ys z w"
proof -
  obtain xs ys where ns: "ns = xs @ p # ys" using assms(2) by (auto simp: in_set_conv_decomp)
  show ?thesis by (rule that [of xs ys]) (use assms(1) ns in \<open>auto simp: chain_append\<close>)
qed

text \<open>Changing one reference count.\<close>

lemma chain_update:
  assumes ch: "chain c R b ns z w" and d: "distinct ns" and p: "p \<in> set ns" "get_map p w = Some mm"
    and new: "\<And>b. mm_refcnt mm = refw (c p) b (p \<in> R) \<Longrightarrow> r = refw (c' p) b (p \<in> R')"
    and same: "\<forall>x \<in> set ns. x \<noteq> p \<longrightarrow> c' x = c x \<and> (x \<in> R' \<longleftrightarrow> x \<in> R)"
  shows "chain c' R' b ns z (put_map p (mm\<lparr>mm_refcnt := r\<rparr>) w)"
proof -
  from chain_split [OF ch p(1) d] obtain xs ys where s: "ns = xs @ p # ys" "chain c R b xs (Some p) w"
    "node c R (b \<or> xs \<noteq> []) p (first ys z) w" "chain c R True ys z w" by blast
  let ?w = "put_map p (mm\<lparr>mm_refcnt := r\<rparr>) w"
  have "chain c' R' b xs (Some p) ?w" by (rule chain_cong [OF _ _ s(2)]) (use d s(1) same in auto)
  moreover have "chain c' R' True ys z ?w" by (rule chain_cong [OF _ _ s(4)]) (use d s(1) same in auto)
  moreover have "node c' R' (b \<or> xs \<noteq> []) p (first ys z) ?w"
    using s(3) p(2) new by (auto simp: node_def fname_str_def split: fname_ref.splits)
  ultimately show ?thesis using s(1) by (simp add: chain_append)
qed

lemma chain_last_node: "chain c R b (p # ps) None w \<Longrightarrow> chain_last p w = Some (last (p # ps))"
proof (induction ps arbitrary: p b)
  case Nil
  then show ?case by (subst chain_last.simps) (auto simp: node_def)
next
  case (Cons q qs)
  then have "chain_last q w = Some (last (q # qs))" by auto
  then show ?case using Cons.prems by (subst chain_last.simps) (auto simp: node_def)
qed

subsection \<open>Releasing unused maps\<close>

text \<open>The list of maps that are to be freed: they are linked, and have no names.\<close>

fun freelist :: "nat option \<Rightarrow> nat list \<Rightarrow> rd \<Rightarrow> bool" where
  "freelist z [] w \<longleftrightarrow> z = None"
| "freelist z (x # xs) w \<longleftrightarrow> z = Some x \<and> (\<exists>mm. get_map x w = Some mm \<and> mm_fname mm = Fname_null \<and> freelist (mm_next mm) xs w)"

lemma freelist_cong: "\<forall>x \<in> set xs. get_map x w' = get_map x w \<Longrightarrow> freelist z xs w \<Longrightarrow> freelist z xs w'"
  by (induction xs arbitrary: z) auto

definition maps_only :: "rd \<Rightarrow> rd \<Rightarrow> bool" where
  "maps_only w w' \<longleftrightarrow> r_lock w' = r_lock w \<and> r_strs w' = r_strs w \<and> r_fresh w' = r_fresh w"

lemma maps_only_put [simp]: "maps_only w (put_map p mm v) = maps_only w v"
  by (simp add: maps_only_def)

lemma maps_only_refl [simp]: "maps_only w w"
  by (simp add: maps_only_def)

lemma maps_only_trans: "maps_only w v \<Longrightarrow> maps_only v u \<Longrightarrow> maps_only w u"
  by (simp add: maps_only_def)

definition unused :: "(nat \<Rightarrow> nat) \<Rightarrow> nat set \<Rightarrow> nat \<Rightarrow> bool" where
  "unused c R x \<longleftrightarrow> c x = 0 \<and> x \<notin> R"

lemma collect_unused_chain:
  "get_map p w = Some mm \<Longrightarrow> mm_next mm = first ps None \<Longrightarrow> chain c R True ps None w \<Longrightarrow> distinct (p # ps) \<Longrightarrow>
   \<forall>x. c x < 2 ^ 30 \<Longrightarrow> freelist um fs w \<Longrightarrow> set fs \<inter> set (p # ps) = {} \<Longrightarrow>
   \<exists>um' w' nx. collect_unused p um w = Some (first (dropWhile (unused c R) ps) None, um', w') \<and> maps_only w w' \<and>
     (\<forall>x. x \<notin> insert p (set (takeWhile (unused c R) ps)) \<union> set fs \<longrightarrow> get_map x w' = get_map x w) \<and>
     get_map p w' = Some (mm\<lparr>mm_next := nx\<rparr>) \<and> freelist um' (rev (takeWhile (unused c R) ps) @ fs) w'"
proof (induction ps arbitrary: w mm um fs)
  case Nil
  then show ?case by (subst collect_unused.simps) (auto intro!: exI [of _ "mm_next mm"])
next
  case (Cons q qs)
  obtain nx where nx: "get_map q w = Some nx" "mm_next nx = first qs None" "mm_refcnt nx = refw (c q) True (q \<in> R)"
    using Cons.prems(3) by (auto simp: node_def)
  have test: "mm_refcnt nx AND NOT REFCNT_NOT_OLDEST = 0 \<longleftrightarrow> unused c R q"
    using Cons.prems(5) nx(3) by (simp add: refw_ops refw_zero unused_def)
  show ?case
  proof (cases "unused c R q")
    case False
    then show ?thesis using Cons.prems nx test
      by (subst collect_unused.simps) (auto intro!: exI [of _ "mm_next mm"])
  next
    case True
    define w2 where "w2 = put_map q (nx\<lparr>mm_next := um, mm_fname := Fname_null\<rparr>) (put_map p (mm\<lparr>mm_next := mm_next nx\<rparr>) w)"
    have step: "collect_unused p um w = collect_unused p (Some q) w2"
      using Cons.prems(1,2) nx test True by (subst collect_unused.simps) (simp add: w2_def)
    have "p \<noteq> q" "p \<notin> set qs" "q \<notin> set qs" "p \<notin> set fs" "q \<notin> set fs" using Cons.prems(4,7) by auto
    then have others: "\<forall>x \<in> set qs. get_map x w2 = get_map x w" "\<forall>x \<in> set fs. get_map x w2 = get_map x w"
      by (auto simp: w2_def)
    moreover have "get_map p w2 = Some (mm\<lparr>mm_next := mm_next nx\<rparr>)" using \<open>p \<noteq> q\<close> by (simp add: w2_def)
    moreover have "mm_next (mm\<lparr>mm_next := mm_next nx\<rparr>) = first qs None" using nx(2) by simp
    have tail: "chain c R True qs None w" using Cons.prems(3) by simp
    have strs: "r_strs w2 = r_strs w" by (simp add: w2_def)
    have h: "get_map p w2 = Some (mm\<lparr>mm_next := mm_next nx\<rparr>)" "mm_next (mm\<lparr>mm_next := mm_next nx\<rparr>) = first qs None"
      "chain c R True qs None w2" "distinct (p # qs)" "freelist (Some q) (q # fs) w2" "set (q # fs) \<inter> set (p # qs) = {}"
      using \<open>p \<noteq> q\<close> nx(2) chain_cong [OF _ strs tail, of c R] others(1) freelist_cong [OF others(2) Cons.prems(6)] Cons.prems(4,7)
      by (auto simp: w2_def)
    from Cons.IH [OF h(1-4) Cons.prems(5) h(5,6)] obtain um' w' nx' where
      IH: "collect_unused p (Some q) w2 = Some (first (dropWhile (unused c R) qs) None, um', w')"
      "maps_only w2 w'" "\<forall>x. x \<notin> insert p (set (takeWhile (unused c R) qs)) \<union> set (q # fs) \<longrightarrow> get_map x w' = get_map x w2"
      "get_map p w' = Some (mm\<lparr>mm_next := mm_next nx\<rparr>\<lparr>mm_next := nx'\<rparr>)"
      "freelist um' (rev (takeWhile (unused c R) qs) @ q # fs) w'"
      by blast
    have "maps_only w w'" using maps_only_trans [of w w2 w'] IH(2) by (simp add: w2_def)
    moreover have "\<forall>x. x \<notin> insert p (set (takeWhile (unused c R) (q # qs))) \<union> set fs \<longrightarrow> get_map x w' = get_map x w"
      using IH(3) True by (auto simp: w2_def)
    ultimately show ?thesis using step IH(1,4,5) True by auto
  qed
qed

lemma free_nameless:
  assumes "get_map p w = Some mm" "mm_fname mm = Fname_null"
  shows "\<exists>w1. mcdb_mmap_free (Some p) w = Some w1 \<and> maps_only w w1 \<and> (\<forall>x. x \<noteq> p \<longrightarrow> get_map x w1 = get_map x w) \<and>
    (\<forall>mm1. get_map p w1 = Some mm1 \<longrightarrow> mm_ptr mm1 = None)"
  using assms
  by (auto simp: mcdb_mmap_free_def mcdb_mmap_unmap_def free_map_def maps_only_def get_map_def Let_def)

lemma free_chain_list:
  "freelist z xs w \<Longrightarrow> distinct xs \<Longrightarrow>
   \<exists>w'. free_chain z w = Some w' \<and> maps_only w w' \<and> (\<forall>x. x \<notin> set xs \<longrightarrow> get_map x w' = get_map x w) \<and>
     (\<forall>x \<in> set xs. \<forall>mm. get_map x w' = Some mm \<longrightarrow> mm_ptr mm = None)"
proof (induction xs arbitrary: z w)
  case Nil
  then show ?case by (subst free_chain.simps) simp
next
  case (Cons p ps)
  obtain mm where mm: "z = Some p" "get_map p w = Some mm" "mm_fname mm = Fname_null" "freelist (mm_next mm) ps w"
    using Cons.prems(1) by auto
  obtain w1 where w1: "mcdb_mmap_free (Some p) w = Some w1" "maps_only w w1" "\<forall>x. x \<noteq> p \<longrightarrow> get_map x w1 = get_map x w"
    "\<forall>mm1. get_map p w1 = Some mm1 \<longrightarrow> mm_ptr mm1 = None"
    using free_nameless [OF mm(2,3)] by blast
  have "freelist (mm_next mm) ps w1" by (rule freelist_cong [OF _ mm(4)]) (use w1(3) Cons.prems(2) in auto)
  with Cons.IH Cons.prems(2) obtain w' where w': "free_chain (mm_next mm) w1 = Some w'" "maps_only w1 w'"
    "\<forall>x. x \<notin> set ps \<longrightarrow> get_map x w' = get_map x w1" "\<forall>x \<in> set ps. \<forall>mm. get_map x w' = Some mm \<longrightarrow> mm_ptr mm = None"
    by (metis distinct.simps(2))
  have "free_chain z w = Some w'" using mm w1(1) w'(1) by (subst free_chain.simps) simp
  then show ?case using w' w1 maps_only_trans [OF w1(2) w'(2)] Cons.prems(2) by auto
qed


subsection \<open>Dropping a reference\<close>

text \<open>The maps that remain in the chain: the last user of the oldest map takes with it the maps
  behind it that have no users.\<close>

definition last_user :: "(nat \<Rightarrow> nat) \<Rightarrow> nat set \<Rightarrow> nat list \<Rightarrow> nat \<Rightarrow> bool" where
  "last_user c R ns p \<longleftrightarrow> c p = 1 \<and> p = hd ns \<and> p \<notin> R"

definition remaining :: "(nat \<Rightarrow> nat) \<Rightarrow> nat set \<Rightarrow> nat list \<Rightarrow> nat \<Rightarrow> nat list" where
  "remaining c R ns p = (if last_user c R ns p then dropWhile (unused c R) (tl ns) else ns)"

lemma remaining_subset: "set (remaining c R ns p) \<subseteq> set ns"
  using set_dropWhileD [of _ "unused c R" "tl ns"] list.set_sel(2) [of ns] by (cases ns) (auto simp: remaining_def dest: set_dropWhileD)

lemma release_ref_keeps:
  assumes ch: "chain c R False ns None w" "distinct ns" "p \<in> set ns" "0 < c p" and small: "\<forall>x. c x < 2 ^ 30"
    and more: "\<not> last_user c R ns p"
  shows "\<exists>w'. release_ref p w = Some (None, w') \<and> maps_only w w' \<and> (\<forall>x. x \<noteq> p \<longrightarrow> get_map x w' = get_map x w) \<and>
    chain (c(p := c p - 1)) R False ns None w'"
proof -
  obtain xs ys where s: "ns = xs @ p # ys" "node c R (False \<or> xs \<noteq> []) p (first ys None) w"
    using chain_split [OF ch(1,3,2)] by metis
  then obtain mm where mm: "get_map p w = Some mm" "mm_refcnt mm = refw (c p) (xs \<noteq> []) (p \<in> R)" by (auto simp: node_def)
  have r: "mm_refcnt mm - 1 = refw (c p - 1) (xs \<noteq> []) (p \<in> R)" using mm(2) refw_dec [OF ch(4)] by simp
  have "c p - 1 < 2 ^ 30" using small by (meson less_imp_diff_less)
  then have "mm_refcnt mm - 1 \<noteq> 0" using more s(1) ch(2,4) unfolding r refw_zero [OF \<open>c p - 1 < 2 ^ 30\<close>]
    by (auto simp: last_user_def)
  moreover have "chain (c(p := c p - 1)) R False ns None (put_map p (mm\<lparr>mm_refcnt := mm_refcnt mm - 1\<rparr>) w)"
    by (rule chain_update [OF ch(1-3) mm(1)]) (use refw_dec [OF ch(4)] in auto)
  ultimately show ?thesis using mm(1) by (auto simp: release_ref_def Let_def)
qed

lemma unmark_oldest:
  assumes ch: "chain c R True rest None w" "distinct rest" and small: "\<forall>x. c x < 2 ^ 30"
  shows "\<exists>w'. (case first rest None of None \<Rightarrow> Some w | Some q \<Rightarrow> do { n \<leftarrow> get_map q w;
        Some (put_map q (n\<lparr>mm_refcnt := mm_refcnt n AND NOT REFCNT_NOT_OLDEST\<rparr>) w) }) = Some w' \<and>
    maps_only w w' \<and> (\<forall>x. x \<notin> set rest \<longrightarrow> get_map x w' = get_map x w) \<and> chain c R False rest None w'"
proof (cases rest)
  case (Cons q qs)
  obtain n where n: "get_map q w = Some n" "node c R True q (first qs None) w" "chain c R True qs None w"
    using ch(1) Cons by (auto simp: node_def)
  let ?w = "put_map q (n\<lparr>mm_refcnt := mm_refcnt n AND NOT REFCNT_NOT_OLDEST\<rparr>) w"
  have "chain c R True qs None ?w"
    by (rule chain_cong [OF _ _ n(3)]) (use ch(2) Cons in auto)
  moreover have "node c R False q (first qs None) ?w"
    using n small by (auto simp: node_def refw_ops fname_str_def split: fname_ref.splits)
  ultimately show ?thesis using n(1) Cons by auto
qed simp

lemma release_ref_frees:
  assumes ch: "chain c R False (p # ps) None w" "distinct (p # ps)" and last: "c p = 1" "p \<notin> R" and small: "\<forall>x. c x < 2 ^ 30"
  shows "\<exists>w'. release_ref p w = Some (Some p, w') \<and> maps_only w w' \<and> (\<forall>x. x \<notin> set (p # ps) \<longrightarrow> get_map x w' = get_map x w) \<and>
    freelist (Some p) (p # rev (takeWhile (unused c R) ps)) w' \<and> chain c R False (dropWhile (unused c R) ps) None w'"
proof -
  obtain mm where mm: "get_map p w = Some mm" "mm_next mm = first ps None" "mm_refcnt mm = refw 1 False False"
    using ch(1) last by (auto simp: node_def)
  let ?rest = "dropWhile (unused c R) ps" and ?us = "takeWhile (unused c R) ps"
  have r0: "mm_refcnt mm - 1 = 0" using mm(3) by (simp add: refw_def)
  define w1 where "w1 = put_map p (mm\<lparr>mm_refcnt := 0\<rparr>) w"
  have g1: "get_map p w1 = Some (mm\<lparr>mm_refcnt := 0\<rparr>)" "mm_next (mm\<lparr>mm_refcnt := 0\<rparr>) = first ps None"
    using mm(2) by (simp_all add: w1_def)
  have ch_tl: "chain c R True ps None w" using ch(1) by simp
  have ch1: "chain c R True ps None w1"
    by (rule chain_cong [OF _ _ ch_tl]) (use ch(2) in \<open>auto simp: w1_def\<close>)
  have nil: "freelist None [] w1" "set ([] :: nat list) \<inter> set (p # ps) = {}" by simp_all
  from collect_unused_chain [OF g1 ch1 ch(2) small nil] obtain um w2 nx where
    C: "collect_unused p None w1 = Some (first ?rest None, um, w2)" "maps_only w1 w2"
      "\<forall>x. x \<notin> insert p (set ?us) \<longrightarrow> get_map x w2 = get_map x w1"
      "get_map p w2 = Some (mm\<lparr>mm_refcnt := 0, mm_next := nx\<rparr>)" "freelist um (rev ?us) w2" by auto
  have app: "ps = ?us @ ?rest" by simp
  have dis: "p \<notin> set ps" "set ?us \<inter> set ?rest = {}" "distinct ?rest" using ch(2) app by (metis distinct.simps(2), metis distinct.simps(2) distinct_append, simp add: distinct_dropWhile)
  have sub: "set ?us \<subseteq> set ps" "set ?rest \<subseteq> set ps" by (auto dest: set_takeWhileD set_dropWhileD)
  have "chain c R True (?us @ ?rest) None w1" using ch1 by simp
  then have tl1: "chain c R True ?rest None w1" unfolding chain_append by simp
  have strs2: "r_strs w2 = r_strs w1" using C(2) by (simp add: maps_only_def)
  have ch2: "chain c R True ?rest None w2"
    by (rule chain_cong [OF _ strs2 tl1]) (use C(3) dis sub in auto)
  have frame2: "\<forall>x. x \<notin> set (p # ps) \<longrightarrow> get_map x w2 = get_map x w" using C(3) sub by (auto simp: w1_def)
  have only2: "maps_only w w2" using C(2) by (simp add: w1_def maps_only_def)
  from unmark_oldest [OF ch2 dis(3) small] obtain w3 where w3:
    "(case first ?rest None of None \<Rightarrow> Some w2 | Some q \<Rightarrow> do { n \<leftarrow> get_map q w2;
        Some (put_map q (n\<lparr>mm_refcnt := mm_refcnt n AND NOT REFCNT_NOT_OLDEST\<rparr>) w2) }) = Some w3"
    "maps_only w2 w3" "\<forall>x. x \<notin> set ?rest \<longrightarrow> get_map x w3 = get_map x w2" "chain c R False ?rest None w3" by blast
  define w4 where "w4 = put_map p (mm\<lparr>mm_refcnt := 0, mm_next := um, mm_fname := Fname_null\<rparr>) w3"
  have gp: "get_map p w3 = Some (mm\<lparr>mm_refcnt := 0, mm_next := nx\<rparr>)" using C(4) w3(3) dis(1) sub by auto
  have "release_ref p w = Some (Some p, w4)"
    using mm(1) r0 C(1) w3(1) gp by (simp add: release_ref_def w1_def [symmetric] w4_def)
  moreover have "maps_only w w4" using maps_only_trans [OF only2 w3(2)] by (simp add: w4_def)
  moreover have "freelist (Some p) (p # rev ?us) w4"
  proof -
    have "freelist um (rev ?us) w4"
      by (rule freelist_cong [OF _ C(5)]) (use w3(3) dis sub in \<open>auto simp: w4_def\<close>)
    then show ?thesis by (simp add: w4_def)
  qed
  moreover have "chain c R False ?rest None w4"
    by (rule chain_cong [OF _ _ w3(4)]) (use dis(1) sub in \<open>auto simp: w4_def\<close>)
  moreover have "\<forall>x. x \<notin> set (p # ps) \<longrightarrow> get_map x w4 = get_map x w" using frame2 w3(3) sub by (auto simp: w4_def)
  ultimately show ?thesis by blast
qed


subsection \<open>Registration\<close>

lemma get_map_lock [simp]: "get_map p (w\<lparr>r_lock := b\<rparr>) = get_map p w"
  by (simp add: get_map_def)

lemma chain_lock: "chain c R b ns z w \<Longrightarrow> chain c R b ns z (w\<lparr>r_lock := l\<rparr>)"
  by (rule chain_cong) simp_all

text \<open>What an operation leaves alone.\<close>

definition outside :: "nat set \<Rightarrow> rd \<Rightarrow> rd \<Rightarrow> bool" where
  "outside A w w' \<longleftrightarrow> (\<forall>x. x \<notin> A \<longrightarrow> get_map x w' = get_map x w) \<and> r_strs w' = r_strs w \<and> r_fresh w' = r_fresh w"

lemma drop_reference:
  assumes ch: "chain c R False ns None w" "distinct ns" "p \<in> set ns" "0 < c p" and small: "\<forall>x. c x < 2 ^ 30" and lock: "r_lock w"
  shows "\<exists>um w1 w2 w3. release_ref p w = Some (um, w1) \<and> lock_release w1 = Some w2 \<and> free_chain um w2 = Some w3 \<and>
    \<not> r_lock w3 \<and> outside (set ns) w w3 \<and> chain (c(p := c p - 1)) R False (remaining c R ns p) None w3 \<and>
    (last_user c R ns p \<longrightarrow> (\<forall>mm. get_map p w3 = Some mm \<longrightarrow> mm_ptr mm = None))"
proof (cases "last_user c R ns p")
  case False
  from release_ref_keeps [OF ch small False] obtain w1 where
    w1: "release_ref p w = Some (None, w1)" "maps_only w w1" "\<forall>x. x \<noteq> p \<longrightarrow> get_map x w1 = get_map x w"
      "chain (c(p := c p - 1)) R False ns None w1" by blast
  have "free_chain None v = Some v" for v by (subst free_chain.simps) simp
  moreover have "outside (set ns) w (w1\<lparr>r_lock := False\<rparr>)" using w1(2,3) ch(3) by (auto simp: outside_def maps_only_def)
  ultimately show ?thesis using w1 lock chain_lock [OF w1(4), of False] False
    by (simp add: lock_release_def maps_only_def remaining_def)
next
  case True
  then obtain ps where ns: "ns = p # ps" using ch(3) by (cases ns) (auto simp: last_user_def)
  have lu: "c p = 1" "p \<notin> R" using True ns by (simp_all add: last_user_def)
  let ?us = "takeWhile (unused c R) ps" and ?rest = "dropWhile (unused c R) ps"
  from release_ref_frees [OF ch(1,2) [unfolded ns] lu small] obtain w1 where
    w1: "release_ref p w = Some (Some p, w1)" "maps_only w w1" "\<forall>x. x \<notin> set (p # ps) \<longrightarrow> get_map x w1 = get_map x w"
      "freelist (Some p) (p # rev ?us) w1" "chain c R False ?rest None w1" by (elim exE conjE) (rule that)
  have dis: "distinct (p # rev ?us)" "set ?us \<inter> set ?rest = {}" "p \<notin> set ?rest"
  proof -
    have p: "p \<notin> set ps" "distinct ps" using ch(2) ns by simp_all
    then have d: "distinct (?us @ ?rest)" by simp
    have sub: "set ?us \<subseteq> set ps" "set ?rest \<subseteq> set ps" by (auto dest: set_takeWhileD set_dropWhileD)
    show "distinct (p # rev ?us)" "set ?us \<inter> set ?rest = {}" "p \<notin> set ?rest"
      using d [unfolded distinct_append] sub p(1) by auto
  qed
  have fl: "freelist (Some p) (p # rev ?us) (w1\<lparr>r_lock := False\<rparr>)" by (rule freelist_cong [OF _ w1(4)]) simp
  from free_chain_list [OF fl dis(1)] obtain w3 where
    w3: "free_chain (Some p) (w1\<lparr>r_lock := False\<rparr>) = Some w3" "maps_only (w1\<lparr>r_lock := False\<rparr>) w3"
      "\<forall>x. x \<notin> set (p # rev ?us) \<longrightarrow> get_map x w3 = get_map x (w1\<lparr>r_lock := False\<rparr>)"
      "\<forall>x \<in> set (p # rev ?us). \<forall>mm. get_map x w3 = Some mm \<longrightarrow> mm_ptr mm = None" by blast
  have gone: "\<forall>mm. get_map p w3 = Some mm \<longrightarrow> mm_ptr mm = None" using w3(4) by simp
  have strs: "r_strs w3 = r_strs w1" using w3(2) by (simp add: maps_only_def)
  have "chain (c(p := c p - 1)) R False ?rest None w3"
    by (rule chain_cong [OF _ strs w1(5)]) (use w3(3) dis in auto)
  moreover have "outside (set ns) w w3"
    using w1(2,3) w3(2,3) ns set_takeWhileD [of _ "unused c R" ps] by (auto simp: outside_def maps_only_def)
  ultimately show ?thesis using w1(1,2) w3(1,2) lock True ns gone
    by (simp add: lock_release_def maps_only_def remaining_def)
qed

lemma chain_get:
  assumes "chain c R b ns z w" "p \<in> set ns" "distinct ns"
  obtains mm where "get_map p w = Some mm" "mm_ptr mm \<noteq> None" "fname_str mm w \<noteq> None" "z = None \<Longrightarrow> mm_next mm = None \<longleftrightarrow> p = last ns"
    "b \<or> p \<noteq> hd ns \<Longrightarrow> mm_refcnt mm = refw (c p) True (p \<in> R)" "\<not> b \<Longrightarrow> p = hd ns \<Longrightarrow> mm_refcnt mm = refw (c p) False (p \<in> R)"
proof -
  from chain_split [OF assms] obtain xs ys where s: "ns = xs @ p # ys" "node c R (b \<or> xs \<noteq> []) p (first ys z) w" by metis
  have l: "p = last ns \<longleftrightarrow> ys = []" using s(1) assms(3) by (cases ys rule: rev_cases) auto
  have h: "p = hd ns \<longleftrightarrow> xs = []" using s(1) assms(3) by (cases xs) auto
  obtain mm where "get_map p w = Some mm" "mm_ptr mm \<noteq> None" "fname_str mm w \<noteq> None" "mm_next mm = first ys z"
    "mm_refcnt mm = refw (c p) (b \<or> xs \<noteq> []) (p \<in> R)" using s(2) by (auto simp: node_def)
  then show ?thesis using that l h by (cases ys) auto
qed

lemma registration_decr:
  assumes ch: "chain c R False ns None w" "distinct ns" "p \<in> set ns" "0 < c p" and small: "\<forall>x. c x < 2 ^ 30" and lock: "\<not> r_lock w"
  shows "\<exists>mp w'. mcdb_mmap_thread_registration (Some p) False False w = Some (True, mp, w') \<and>
    \<not> r_lock w' \<and> outside (set ns) w w' \<and> chain (c(p := c p - 1)) R False (remaining c R ns p) None w'"
proof -
  let ?w = "w\<lparr>r_lock := True\<rparr>"
  from drop_reference [OF chain_lock [OF ch(1)] ch(2-4) small, of True] obtain um w1 w2 w3 where
    "release_ref p ?w = Some (um, w1)" "lock_release w1 = Some w2" "free_chain um w2 = Some w3"
    "\<not> r_lock w3" "outside (set ns) ?w w3" "chain (c(p := c p - 1)) R False (remaining c R ns p) None w3" by auto
  moreover obtain mm where "get_map p w = Some mm" using chain_get [OF ch(1,3,2)] by blast
  ultimately show ?thesis using lock
    by (simp add: mcdb_mmap_thread_registration_def lock_acquire_def outside_def)
qed

definition incr_counts :: "(nat \<Rightarrow> nat) \<Rightarrow> nat list \<Rightarrow> nat \<Rightarrow> nat \<Rightarrow> nat" where
  "incr_counts c ns p = (let c1 = c(last ns := Suc (c (last ns))) in if p = last ns then c1 else c1(p := c1 p - 1))"

definition incr_chain :: "(nat \<Rightarrow> nat) \<Rightarrow> nat set \<Rightarrow> nat list \<Rightarrow> nat \<Rightarrow> nat list" where
  "incr_chain c R ns p = (if p = last ns then ns else remaining (c(last ns := Suc (c (last ns)))) R ns p)"

lemma registration_incr:
  assumes ch: "chain c R False ns None w" "distinct ns" "p \<in> set ns" and user: "p \<noteq> last ns \<Longrightarrow> 0 < c p"
    and small: "\<forall>x. Suc (c x) < 2 ^ 30" and lock: "r_lock w = locked"
  shows "\<exists>w'. mcdb_mmap_thread_registration (Some p) True locked w = Some (True, Some (last ns), w') \<and>
    \<not> r_lock w' \<and> outside (set ns) w w' \<and> chain (incr_counts c ns p) R False (incr_chain c R ns p) None w' \<and>
    (p \<noteq> last ns \<and> last_user c R ns p \<longrightarrow> (\<forall>mm. get_map p w' = Some mm \<longrightarrow> mm_ptr mm = None))"
proof -
  let ?w = "w\<lparr>r_lock := True\<rparr>" and ?l = "last ns"
  define c1 where "c1 = c(?l := Suc (c ?l))"
  have acq: "(if locked then Some w else lock_acquire w) = Some ?w" using lock by (cases w) (simp add: lock_acquire_def)
  note chw = chain_lock [OF ch(1), of True]
  have ln: "?l \<in> set ns" using ch(3) by (cases ns) auto
  obtain mm where mm: "get_map p w = Some mm" "mm_ptr mm \<noteq> None" "mm_next mm = None \<longleftrightarrow> p = ?l"
    using chain_get [OF ch(1,3,2)] by metis
  obtain n where n: "get_map ?l w = Some n" using chain_get [OF ch(1) ln ch(2)] by metis
  define w1 where "w1 = put_map ?l (n\<lparr>mm_refcnt := mm_refcnt n + 1\<rparr>) ?w"
  have ch1: "chain c1 R False ns None w1"
    unfolding w1_def by (rule chain_update [OF chw ch(2) ln]) (use n refw_inc in \<open>auto simp: c1_def\<close>)
  have small1: "\<forall>x. c1 x < 2 ^ 30" using small by (auto simp: c1_def intro: Suc_lessD)
  show ?thesis
  proof (cases "p = ?l")
    case True
    have fc: "free_chain None v = Some v" for v by (subst free_chain.simps) simp
    have "mcdb_mmap_thread_registration (Some p) True locked w = Some (True, Some ?l, w1\<lparr>r_lock := False\<rparr>)"
      using True mm n by (simp add: mcdb_mmap_thread_registration_def acq lock_release_def w1_def fc)
    then show ?thesis using chain_lock [OF ch1, of False] True ln
      by (auto simp: incr_counts_def incr_chain_def c1_def Let_def outside_def w1_def)
  next
    case False
    then have "0 < c1 p" using user by (simp add: c1_def)
    from drop_reference [OF ch1 ch(2,3) this small1] obtain um w2 w3 w4 where
      D: "release_ref p w1 = Some (um, w2)" "lock_release w2 = Some w3" "free_chain um w3 = Some w4"
        "\<not> r_lock w4" "outside (set ns) w1 w4" "chain (c1(p := c1 p - 1)) R False (remaining c1 R ns p) None w4"
        "last_user c1 R ns p \<longrightarrow> (\<forall>mm. get_map p w4 = Some mm \<longrightarrow> mm_ptr mm = None)"
      by (auto simp: w1_def)
    have lu: "last_user c1 R ns p = last_user c R ns p" using False by (simp add: last_user_def c1_def)
    obtain xs ys where s: "ns = xs @ p # ys" "node c R (False \<or> xs \<noteq> []) p (first ys None) ?w" "chain c R True ys None ?w"
      using chain_split [OF chw ch(3,2)] by metis
    obtain q qs where ys: "ys = q # qs" using False s(1) by (cases ys) auto
    have q: "mm_next mm = Some q" using s(2) mm(1) ys by (auto simp: node_def)
    have "chain_last q ?w = Some ?l" using chain_last_node [of c R True q qs ?w] s(1,3) ys by simp
    then have "mcdb_mmap_thread_registration (Some p) True locked w = Some (True, Some ?l, w4)"
      using False mm(1,2) q n D(1-3) by (auto simp: mcdb_mmap_thread_registration_def acq w1_def)
    moreover have "outside (set ns) w w4" using D(5) ln by (auto simp: outside_def w1_def)
    ultimately show ?thesis using D(4,6,7) lu False by (simp add: incr_counts_def incr_chain_def c1_def Let_def)
  qed
qed


subsection \<open>The refresh\<close>

lemma reopen_claim_moves:
  assumes ch: "chain c R False ns None w" "distinct ns" "p \<in> set ns" "p \<noteq> last ns" "0 < c p" and small: "\<forall>x. Suc (c x) < 2 ^ 30"
    and lock: "\<not> r_lock w"
  shows "\<exists>w'. reopen_claim p w = Some (Claim_registered True (Some (last ns)), w') \<and>
    \<not> r_lock w' \<and> outside (set ns) w w' \<and> chain (incr_counts c ns p) R False (incr_chain c R ns p) None w'"
proof -
  let ?w = "w\<lparr>r_lock := True\<rparr>"
  obtain mm where mm: "get_map p w = Some mm" "mm_next mm \<noteq> None" using chain_get [OF ch(1,3,2)] ch(4) by metis
  from registration_incr [OF chain_lock [OF ch(1)] ch(2,3) ch(5) small, of True True] obtain w' where
    "mcdb_mmap_thread_registration (Some p) True True ?w = Some (True, Some (last ns), w')" "\<not> r_lock w'" "outside (set ns) ?w w'"
    "chain (incr_counts c ns p) R False (incr_chain c R ns p) None w'" by auto
  then show ?thesis using mm lock by (auto simp: reopen_claim_def lock_acquire_def outside_def)
qed

lemma reopen_claim_last:
  assumes ch: "chain c R False ns None w" "distinct ns" "p \<in> set ns" "p = last ns" and small: "\<forall>x. c x < 2 ^ 30" and lock: "\<not> r_lock w"
  shows "\<exists>w'. reopen_claim p w = Some (if p \<in> R then Claim_busy else Claim_ours, w') \<and>
    \<not> r_lock w' \<and> outside (set ns) w w' \<and> chain c (insert p R) False ns None w'"
proof -
  let ?w = "w\<lparr>r_lock := True\<rparr>"
  obtain mm where mm: "get_map p w = Some mm" "mm_next mm = None" "\<exists>b. mm_refcnt mm = refw (c p) b (p \<in> R)"
    using chain_get [OF ch(1,3,2)] ch(4) by metis
  have less: "mm_refcnt mm < REFCNT_REOPENING \<longleftrightarrow> p \<notin> R" using mm(3) refw_ops(4) small by auto
  show ?thesis
  proof (cases "p \<in> R")
    case True
    then show ?thesis using mm less lock chain_lock [OF ch(1), of False]
      by (simp add: reopen_claim_def lock_acquire_def lock_release_def outside_def insert_absorb)
  next
    case False
    let ?w1 = "put_map p (mm\<lparr>mm_refcnt := mm_refcnt mm OR REFCNT_REOPENING\<rparr>) ?w"
    have "chain c (insert p R) False ns None ?w1"
      by (rule chain_update [OF chain_lock [OF ch(1)] ch(2,3)]) (use mm(1) False small refw_ops(2) in auto)
    from chain_lock [OF this, of False] show ?thesis using False mm less lock ch(3)
      by (auto simp: reopen_claim_def lock_acquire_def lock_release_def outside_def)
  qed
qed

text \<open>Reopening a map that no other thread has seen.\<close>

definition same_name :: "mcdb_mmap \<Rightarrow> mcdb_mmap \<Rightarrow> bool" where
  "same_name mm mm1 \<longleftrightarrow> mm_fname mm1 = mm_fname mm \<and> mm_fnamebuf mm1 = mm_fnamebuf mm"

lemma same_nameD: "same_name mm mm1 \<Longrightarrow> r_strs w1 = r_strs w \<Longrightarrow> fname_str mm1 w1 = fname_str mm w"
  by (simp add: same_name_def fname_str_def split: fname_ref.split)

lemma outside_calls:
  "rd_call w = (ok, w1) \<Longrightarrow> outside A w w1 \<and> r_lock w1 = r_lock w"
  "outside A w w1 \<Longrightarrow> outside A w (w1\<lparr>r_errno := e\<rparr>)"
  "outside A w w1 \<Longrightarrow> outside A w (w1\<lparr>r_fds := f\<rparr>)"
  "outside A w w1 \<Longrightarrow> p \<in> A \<Longrightarrow> outside A w (put_map p mm w1)"
  "outside A w w1 \<Longrightarrow> outside A w1 w2 \<Longrightarrow> outside A w w2"
  by (auto simp: outside_def get_map_def rd_call_def Let_def split: if_splits)

lemma init_frame:
  assumes "get_map p w = Some mm"
  shows "\<exists>ok w1 mm1. mcdb_mmap_init p fd w = Some (ok, w1) \<and> get_map p w1 = Some mm1 \<and> outside {p} w w1 \<and> r_lock w1 = r_lock w \<and>
    same_name mm mm1 \<and> (ok \<longrightarrow> mm_ptr mm1 \<noteq> None \<and> mm_next mm1 = None \<and> mm_refcnt mm1 = 0)"
proof -
  obtain w1 where u: "mcdb_mmap_unmap p w = Some w1" "get_map p w1 = Some (mm\<lparr>mm_ptr := None, mm_size := 0\<rparr>)"
    "outside {p} w w1" "r_lock w1 = r_lock w"
    using assms by (auto simp: mcdb_mmap_unmap_def outside_def)
  obtain st w2 where st: "sys_fstat fd w1 = (st, w2)" by fastforce
  note s = rd_sameD [OF fstat_props(1) [OF st]]
  show ?thesis
  proof (cases st)
    case None
    then have "mcdb_mmap_init p fd w = Some (False, w2)" using u(1) st by (simp add: mcdb_mmap_init_def)
    then show ?thesis using u s by (auto simp: outside_def get_map_def same_name_def)
  next
    case (Some x)
    obtain ok w3 where m1: "sys_mmap (f_size x) w2 = (ok, w3)" by fastforce
    obtain ok' w4 where m2: "(if \<not> ok \<and> r_errno w3 = EINVAL then sys_mmap (f_size x) w3 else (ok, w3)) = (ok', w4)" by fastforce
    have "rd_same w1 w4"
      using rd_same_trans [OF fstat_props(1) [OF st] rd_same_trans [OF mmap_props [OF m1]]] mmap_props m2
      by (auto split: if_splits)
    note s4 = rd_sameD [OF this]
    have g4: "get_map p w4 = Some (mm\<lparr>mm_ptr := None, mm_size := 0\<rparr>)" using u(2) s4 by (simp add: get_map_def)
    have o4: "outside {p} w w4" "r_lock w4 = r_lock w" using u(3,4) s4 by (auto simp: outside_def get_map_def)
    show ?thesis
      using u(1) st Some m1 m2 g4 o4 outside_calls(4) [OF o4(1), of p]
      by (auto simp: mcdb_mmap_init_def Let_def same_name_def)
  qed
qed

lemma open_fd_frame: "open_fd obj w = (fd, w1) \<Longrightarrow> outside A w w1 \<and> r_lock w1 = r_lock w"
  by (auto simp: open_fd_def rd_call_def Let_def outside_def get_map_def split: if_splits option.splits)

lemma reopen_frame:
  assumes mm: "get_map p w = Some mm" "fname_str mm w \<noteq> None"
  shows "\<exists>ok w1 mm1. mcdb_mmap_reopen p w = Some (ok, w1) \<and> get_map p w1 = Some mm1 \<and> outside {p} w w1 \<and> r_lock w1 = r_lock w \<and>
    same_name mm mm1 \<and> (ok \<longrightarrow> mm_ptr mm1 \<noteq> None \<and> mm_next mm1 = None \<and> mm_refcnt mm1 = 0)"
proof -
  obtain name where name: "fname_str mm w = Some name" using mm(2) by blast
  let ?obj = "map_option Fd_file (Option.bind (dir_of (mm_dfd mm) w) (\<lambda>d. r_fs w d name))"
  obtain h w1 where o: "open_fd ?obj w = (h, w1)" by fastforce
  note O = open_fd_frame [OF o, of "{}"]
  have g: "get_map p w1 = Some mm" using O mm by (simp add: outside_def)
  show ?thesis
  proof (cases "h = -1")
    case True
    then show ?thesis using O g mm name o by (auto simp: mcdb_mmap_reopen_def outside_def same_name_def)
  next
    case False
    from init_frame [OF g, of h] obtain ok w2 mm2 where i: "mcdb_mmap_init p h w1 = Some (ok, w2)"
      "get_map p w2 = Some mm2" "outside {p} w1 w2" "r_lock w2 = r_lock w1" "same_name mm mm2"
      "ok \<longrightarrow> mm_ptr mm2 \<noteq> None \<and> mm_next mm2 = None \<and> mm_refcnt mm2 = 0" by blast
    have "mcdb_mmap_reopen p w = Some (ok, nointr_close h w2)" using mm name o False i(1) by (simp add: mcdb_mmap_reopen_def)
    then show ?thesis using i O by (auto simp: outside_def)
  qed
qed

lemma reopen_open_frame:
  assumes mm: "get_map p w = Some mm" "fname_str mm w \<noteq> None" "p \<noteq> r_fresh w"
  shows "\<exists>r w'. reopen_open p w = Some (r, w') \<and> r_lock w' = r_lock w \<and> r_strs w' = r_strs w \<and> r_fresh w \<le> r_fresh w' \<and>
    (\<forall>x. x \<noteq> r_fresh w \<longrightarrow> get_map x w' = get_map x w) \<and>
    (case r of None \<Rightarrow> True | Some q \<Rightarrow> q = r_fresh w \<and> q < r_fresh w' \<and> node (\<lambda>_. 0) {} True q None w')"
proof (cases "mm_has_malloc mm")
  case False
  then show ?thesis using mm by (intro exI [of _ None] exI [of _ w]) (simp add: reopen_open_def)
next
  case True
  obtain ok w1 where c: "rd_call w = (ok, w1)" by fastforce
  note C = outside_calls(1) [OF c, of "{}"]
  show ?thesis
  proof (cases ok)
    case False
    then have "reopen_open p w = Some (None, w1)" using mm True c by (simp add: reopen_open_def rd_malloc_def)
    then show ?thesis using C by (auto simp: outside_def)
  next
    case ok: True
    let ?q = "r_fresh w" and ?mm0 = "mm\<lparr>mm_ptr := None\<rparr>"
    have f1: "r_fresh w1 = ?q" using C by (simp add: outside_def)
    define w2 where "w2 = put_map ?q ?mm0 (w1\<lparr>r_fresh := Suc ?q\<rparr>)"
    have w2: "get_map ?q w2 = Some ?mm0" "r_strs w2 = r_strs w" "r_lock w2 = r_lock w" "r_fresh w2 = Suc ?q"
      "\<forall>x. x \<noteq> ?q \<longrightarrow> get_map x w2 = get_map x w"
      using C by (auto simp: w2_def outside_def get_map_def)
    have "fname_str ?mm0 w2 \<noteq> None" using mm(2) same_nameD [of mm ?mm0 w2 w] w2(2) by (simp add: same_name_def)
    from reopen_frame [OF w2(1) this] obtain rc w3 n where R: "mcdb_mmap_reopen ?q w2 = Some (rc, w3)" "get_map ?q w3 = Some n"
      "outside {?q} w2 w3" "r_lock w3 = r_lock w2" "same_name ?mm0 n" "rc \<longrightarrow> mm_ptr n \<noteq> None \<and> mm_next n = None \<and> mm_refcnt n = 0"
      by blast
    have open_: "reopen_open p w = (if \<not> rc then do { w4 \<leftarrow> free_map ?q w3; Some (None, w4) }
        else Some (Some ?q, put_map ?q (n\<lparr>mm_hash_init := mm_hash_init mm, mm_hash_fn := mm_hash_fn mm,
                    mm_refcnt := mm_refcnt n OR REFCNT_NOT_OLDEST\<rparr>) w3))"
      using mm(1) True c ok f1 R(1,2) by (simp add: reopen_open_def rd_malloc_def w2_def)
    show ?thesis
    proof (cases rc)
      case False
      then show ?thesis using R w2 open_ by (auto simp: free_map_def outside_def get_map_def)
    next
      case rc: True
      let ?n = "n\<lparr>mm_hash_init := mm_hash_init mm, mm_hash_fn := mm_hash_fn mm, mm_refcnt := mm_refcnt n OR REFCNT_NOT_OLDEST\<rparr>"
      have "fname_str ?n (put_map ?q ?n w3) = fname_str mm w"
        by (rule same_nameD) (use R(3,5) w2(2) in \<open>simp_all add: same_name_def outside_def\<close>)
      then have "fname_str ?n (put_map ?q ?n w3) \<noteq> None" using mm(2) by simp
      moreover have "mm_refcnt n OR REFCNT_NOT_OLDEST = refw 0 True False" using R(6) rc by (simp add: refw_def)
      ultimately have "node (\<lambda>_. 0) {} True ?q None (put_map ?q ?n w3)" using R(6) rc by (simp add: node_def)
      then show ?thesis using open_ rc R(3,4) w2 by (auto simp: outside_def)
    qed
  qed
qed


text \<open>Linking the new map behind the newest, and finishing: the thread moves on to the newest map.\<close>

lemma reopen_link_chain:
  assumes ch: "chain c R False ns None w" "distinct ns" "p \<in> set ns" "p = last ns" 
    and q: "q \<notin> set ns" "node (\<lambda>_. 0) {} True q None w" "c q = 0" "q \<notin> R"
  shows "\<exists>w'. reopen_link p q w = Some w' \<and> r_lock w' = r_lock w \<and> outside {p} w w' \<and> chain c R False (ns @ [q]) None w'"
proof -
  obtain xs ys where s: "ns = xs @ p # ys" "chain c R False xs (Some p) w" "node c R (False \<or> xs \<noteq> []) p (first ys None) w"
    using chain_split [OF ch(1,3,2)] by metis
  have "ys \<noteq> [] \<Longrightarrow> last ns \<in> set ys" using s(1) by simp
  moreover have "p \<notin> set ys" using s(1) ch(2) by simp
  ultimately have ys: "ys = []" using ch(4) by metis
  obtain mm where mm: "get_map p w = Some mm" using s(3) by (auto simp: node_def)
  define w' where "w' = put_map p (mm\<lparr>mm_next := Some q\<rparr>) w"
  have "chain c R False xs (Some p) w'" by (rule chain_cong [OF _ _ s(2)]) (use s(1) ch(2) in \<open>auto simp: w'_def\<close>)
  moreover have "node c R (xs \<noteq> []) p (Some q) w'"
    using s(3) ys mm by (auto simp: node_def w'_def fname_str_def split: fname_ref.splits)
  moreover have "node c R True q None w'"
    by (rule node_cong [OF q(2)]) (use q ch(3) in \<open>auto simp: w'_def\<close>)
  ultimately have "chain c R False (ns @ [q]) None w'" using s(1) ys by (simp add: chain_append)
  then show ?thesis using mm by (auto simp: reopen_link_def w'_def outside_def)
qed

lemma reopen_finish_chain:
  assumes ch: "chain c R False ns None w" "distinct ns" "p \<in> set ns" "p \<noteq> last ns" "0 < c p" and small: "\<forall>x. Suc (c x) < 2 ^ 30"
    and lock: "\<not> r_lock w" and claimed: "p \<in> R"
  shows "\<exists>w'. reopen_finish p w = Some (True, Some (last ns), w') \<and> \<not> r_lock w' \<and> outside (set ns) w w' \<and>
    chain (incr_counts c ns p) (R - {p}) False (incr_chain c (R - {p}) ns p) None w'"
proof -
  obtain mm where mm: "get_map p w = Some mm" using chain_get [OF ch(1,3,2)] by metis
  define w1 where "w1 = put_map p (mm\<lparr>mm_refcnt := mm_refcnt mm AND NOT REFCNT_REOPENING\<rparr>) (w\<lparr>r_lock := True\<rparr>)"
  have sm: "c p < 2 ^ 30" using small by (meson Suc_lessD)
  have "chain c (R - {p}) False ns None w1"
    unfolding w1_def by (rule chain_update [OF chain_lock [OF ch(1)] ch(2,3)]) (use mm claimed refw_ops(3) [OF sm] in auto)
  from registration_incr [OF this ch(2,3) ch(5) small, of True] obtain w' where
    "mcdb_mmap_thread_registration (Some p) True True w1 = Some (True, Some (last ns), w')" "\<not> r_lock w'" "outside (set ns) w1 w'"
    "chain (incr_counts c ns p) (R - {p}) False (incr_chain c (R - {p}) ns p) None w'" by (auto simp: w1_def)
  then show ?thesis using mm lock ch(3) by (auto simp: reopen_finish_def lock_acquire_def w1_def outside_def)
qed

subsection \<open>What remains of the chain\<close>

lemma remaining_keeps:
  assumes "distinct ns" "p \<in> set ns" "x \<in> set ns" "0 < (c(p := c p - 1)) x \<or> x \<in> R"
  shows "x \<in> set (remaining c R ns p)"
proof (cases "last_user c R ns p")
  case True
  then obtain ps where ns: "ns = p # ps" using assms(2) by (cases ns) (auto simp: last_user_def)
  have "x \<noteq> p" using True assms(4) ns by (auto simp: last_user_def)
  then have "x \<in> set (takeWhile (unused c R) ps @ dropWhile (unused c R) ps)" "\<not> unused c R x"
    using assms(3,4) ns by (auto simp: unused_def)
  then have "x \<in> set (dropWhile (unused c R) ps)" unfolding set_append by (auto dest: set_takeWhileD)
  then show ?thesis using True ns by (simp add: remaining_def)
qed (use assms in \<open>simp add: remaining_def\<close>)

lemma distinct_remaining: "distinct ns \<Longrightarrow> distinct (remaining c R ns p)"
  by (cases ns) (auto simp: remaining_def distinct_dropWhile)

lemma last_remaining: "remaining c R ns p \<noteq> [] \<Longrightarrow> last (remaining c R ns p) = last ns"
proof (cases "last_user c R ns p")
  case True
  assume ne: "remaining c R ns p \<noteq> []"
  then obtain q qs where ns: "ns = q # qs" using True by (cases ns) (auto simp: remaining_def)
  have "dropWhile (unused c R) qs \<noteq> []" using ne True ns by (simp add: remaining_def)
  then have "last (dropWhile (unused c R) qs) = last (takeWhile (unused c R) qs @ dropWhile (unused c R) qs)" by (rule last_appendR [symmetric])
  moreover have "qs \<noteq> []" using \<open>dropWhile (unused c R) qs \<noteq> []\<close> by auto
  ultimately show ?thesis using True ns by (simp add: remaining_def)
qed (simp add: remaining_def)

lemma incr_chain_facts:
  assumes "distinct ns" "p \<in> set ns"
  shows "distinct (incr_chain c R ns p)" "set (incr_chain c R ns p) \<subseteq> set ns"
    "x \<in> set ns \<Longrightarrow> 0 < incr_counts c ns p x \<or> x \<in> R \<Longrightarrow> x \<in> set (incr_chain c R ns p)"
    "incr_chain c R ns p \<noteq> [] \<and> last (incr_chain c R ns p) = last ns"
proof -
  show "distinct (incr_chain c R ns p)" "set (incr_chain c R ns p) \<subseteq> set ns"
    using assms distinct_remaining remaining_subset by (auto simp: incr_chain_def)
  show keep: "x \<in> set (incr_chain c R ns p)" if "x \<in> set ns" "0 < incr_counts c ns p x \<or> x \<in> R" for x
    using that remaining_keeps [OF assms, of x "c(last ns := Suc (c (last ns)))" R]
    by (auto simp: incr_chain_def incr_counts_def Let_def split: if_splits)
  have ln: "last ns \<in> set ns" using assms(2) by (cases ns) auto
  have "0 < incr_counts c ns p (last ns)" by (auto simp: incr_counts_def Let_def)
  then have "last ns \<in> set (incr_chain c R ns p)" using keep [OF ln] by blast
  then have "incr_chain c R ns p \<noteq> []" by auto
  then show "incr_chain c R ns p \<noteq> [] \<and> last (incr_chain c R ns p) = last ns"
    using last_remaining by (auto simp: incr_chain_def)
qed

end
