(* ===== verification/Thread_Props.thy ===== *)
theory Thread_Props
  imports Thread_Chain
begin

text \<open>
  Threads that use one database: they join, move on to the newest map, leave, and refresh it when
  its file has been replaced, in any interleaving of the critical sections and of the steps of a
  refresh.  In every state that they reach each registered thread stands on a map that is mapped,
  the reference counts are the numbers of registered threads, and no operation goes wrong.
\<close>

subsection \<open>Threads\<close>

text \<open>How far a thread is in \<^verbatim>\<open>mcdb_mmap_reopen_threadsafe\<close>.\<close>

datatype reopen_job = No_job | Claimed | Opened nat | Linked

text \<open>\<^term>\<open>ts_map\<close> is the map pointer of each registered thread.\<close>

record tsys =
  ts_map :: "nat \<Rightarrow> nat option"
  ts_job :: "nat \<Rightarrow> reopen_job"
  ts_rd :: rd

definition thread_moves :: "nat \<Rightarrow> nat option \<Rightarrow> rd \<Rightarrow> tsys \<Rightarrow> tsys" where
  "thread_moves t mp w s = s\<lparr>ts_map := (ts_map s)(t := mp), ts_rd := w\<rparr>"

definition set_job :: "nat \<Rightarrow> reopen_job \<Rightarrow> tsys \<Rightarrow> tsys" where
  "set_job t j s = s\<lparr>ts_job := (ts_job s)(t := j)\<rparr>"

text \<open>
  A thread that joins is given the pointer of a registered thread that is on the newest map; joining through a
  map that has a successor is not a step, because it takes away a reference of another thread,
  as the last property of this theory says.  A thread that is refreshing does nothing else.  The files may change at any time.
\<close>

inductive thread_step :: "tsys \<Rightarrow> tsys \<Rightarrow> bool" where
  Join: "ts_map s t = Some p \<Longrightarrow> ts_map s t' = None \<Longrightarrow> get_map p (ts_rd s) = Some mm \<Longrightarrow> mm_next mm = None \<Longrightarrow>
    card (dom (ts_map s)) + 2 < 2 ^ 30 \<Longrightarrow>
    mcdb_mmap_thread_registration (Some p) True False (ts_rd s) = Some (r, mp, w) \<Longrightarrow> thread_step s (thread_moves t' mp w s)"
| Refresh_self: "ts_map s t = Some p \<Longrightarrow> ts_job s t = No_job \<Longrightarrow> mcdb_thread_refresh_self p (ts_rd s) = Some (mp, w) \<Longrightarrow>
    thread_step s (thread_moves t mp w s)"
| Leave: "ts_map s t = Some p \<Longrightarrow> ts_job s t = No_job \<Longrightarrow>
    mcdb_mmap_thread_registration (Some p) False False (ts_rd s) = Some (r, mp, w) \<Longrightarrow> thread_step s (thread_moves t None w s)"
| Claim: "ts_map s t = Some p \<Longrightarrow> ts_job s t = No_job \<Longrightarrow> reopen_claim p (ts_rd s) = Some (Claim_ours, w) \<Longrightarrow>
    thread_step s (set_job t Claimed (s\<lparr>ts_rd := w\<rparr>))"
| Claim_busy: "ts_map s t = Some p \<Longrightarrow> ts_job s t = No_job \<Longrightarrow> reopen_claim p (ts_rd s) = Some (Claim_busy, w) \<Longrightarrow>
    thread_step s (s\<lparr>ts_rd := w\<rparr>)"
| Claim_moved: "ts_map s t = Some p \<Longrightarrow> ts_job s t = No_job \<Longrightarrow> reopen_claim p (ts_rd s) = Some (Claim_registered r mp, w) \<Longrightarrow>
    thread_step s (thread_moves t mp w s)"
| Open: "ts_map s t = Some p \<Longrightarrow> ts_job s t = Claimed \<Longrightarrow> reopen_open p (ts_rd s) = Some (Some q, w) \<Longrightarrow>
    thread_step s (set_job t (Opened q) (s\<lparr>ts_rd := w\<rparr>))"
| Open_fails: "ts_map s t = Some p \<Longrightarrow> ts_job s t = Claimed \<Longrightarrow> reopen_open p (ts_rd s) = Some (None, w) \<Longrightarrow>
    thread_step s (set_job t No_job (s\<lparr>ts_rd := w\<rparr>))"
| Link: "ts_map s t = Some p \<Longrightarrow> ts_job s t = Opened q \<Longrightarrow> reopen_link p q (ts_rd s) = Some w \<Longrightarrow>
    thread_step s (set_job t Linked (s\<lparr>ts_rd := w\<rparr>))"
| Finish: "ts_map s t = Some p \<Longrightarrow> ts_job s t = Linked \<Longrightarrow> reopen_finish p (ts_rd s) = Some (r, mp, w) \<Longrightarrow>
    thread_step s (set_job t No_job (thread_moves t mp w s))"
| Files: "thread_step s (s\<lparr>ts_rd := (ts_rd s)\<lparr>r_fs := fs\<rparr>\<rparr>)"

inductive_cases thread_stepE: "thread_step s s'"

text \<open>One thread has opened the database.\<close>

definition thread_start :: "tsys \<Rightarrow> bool" where
  "thread_start s \<longleftrightarrow> (\<exists>t p mm. ts_map s = [t \<mapsto> p] \<and> ts_job s = (\<lambda>_. No_job) \<and> get_map p (ts_rd s) = Some mm \<and>
     mm_ptr mm \<noteq> None \<and> mm_next mm = None \<and> mm_refcnt mm = 1 \<and> fname_str mm (ts_rd s) \<noteq> None \<and>
     \<not> r_lock (ts_rd s) \<and> p < r_fresh (ts_rd s))"

subsection \<open>Counting threads\<close>

definition users :: "(nat \<Rightarrow> nat option) \<Rightarrow> nat \<Rightarrow> nat" where
  "users u p = card {t. u t = Some p}"

lemma finite_users: "finite (dom u) \<Longrightarrow> finite {t. u t = Some p}"
  by (rule finite_subset [of _ "dom u"]) auto

lemma users_le: "finite (dom u) \<Longrightarrow> users u p \<le> card (dom u)"
  unfolding users_def by (rule card_mono) auto

lemma users_pos: "finite (dom u) \<Longrightarrow> u t = Some p \<Longrightarrow> 0 < users u p"
  using finite_users [of u p] by (auto simp: users_def card_gt_0_iff)

lemma users_upd:
  assumes "finite (dom u)"
  shows "users (u(t := v)) p = users u p - (if u t = Some p then 1 else 0) + (if v = Some p then 1 else 0)"
proof -
  let ?A = "{x. u x = Some p}"
  have "{x. (u(t := v)) x = Some p} = (if v = Some p then insert t (?A - {t}) else ?A - {t})" by auto
  moreover have "u t = Some p \<Longrightarrow> 0 < card ?A" using users_pos [OF assms] by (simp add: users_def)
  ultimately show ?thesis using finite_users [OF assms, of p] by (auto simp: users_def card_Diff_singleton_if card_insert_if)
qed

lemma users_moved:
  assumes "finite (dom u)" "u t = Some p" "p \<noteq> last ns"
  shows "users (u(t \<mapsto> last ns)) = incr_counts (users u) ns p"
  using assms by (auto simp: fun_eq_iff users_upd incr_counts_def Let_def)

lemma users_joined:
  assumes "finite (dom u)" "u t = None"
  shows "users (u(t \<mapsto> last ns)) = incr_counts (users u) ns (last ns)"
  using assms by (auto simp: fun_eq_iff users_upd incr_counts_def Let_def)

lemma users_left:
  assumes "finite (dom u)" "u t = Some p"
  shows "users (u(t := None)) = (users u)(p := users u p - 1)"
  using assms by (auto simp: fun_eq_iff users_upd)

lemma card_dom_upd:
  assumes "finite (dom u)"
  shows "finite (dom (u(t := v)))" "card (dom (u(t := v))) \<le> Suc (card (dom u))" "u t \<noteq> None \<or> v = None \<Longrightarrow> card (dom (u(t := v))) \<le> card (dom u)"
proof -
  have sub: "dom (u(t := v)) \<subseteq> insert t (dom u)" "u t \<noteq> None \<or> v = None \<Longrightarrow> dom (u(t := v)) \<subseteq> dom u" by auto
  show "finite (dom (u(t := v)))" using sub(1) assms by (meson finite_insert finite_subset)
  have "card (insert t (dom u)) \<le> Suc (card (dom u))" using assms by (simp add: card_insert_if)
  moreover have "card (dom (u(t := v))) \<le> card (insert t (dom u))" by (rule card_mono) (use assms sub(1) in auto)
  ultimately show "card (dom (u(t := v))) \<le> Suc (card (dom u))" by linarith
  show "u t \<noteq> None \<or> v = None \<Longrightarrow> card (dom (u(t := v))) \<le> card (dom u)" using sub(2) assms by (intro card_mono)
qed

subsection \<open>The invariant\<close>

text \<open>A refresh in progress: its thread is on a claimed map, the newest unless the new map is
  already linked behind it; no two refreshes are on the same map; an opened map is still private.\<close>

definition jobs_ok :: "nat list \<Rightarrow> nat set \<Rightarrow> tsys \<Rightarrow> bool" where
  "jobs_ok ns R s \<longleftrightarrow>
     (\<forall>t. ts_job s t \<noteq> No_job \<longrightarrow> (\<exists>p \<in> R. ts_map s t = Some p \<and> (p = last ns \<longleftrightarrow> ts_job s t \<noteq> Linked))) \<and>
     (\<forall>t t'. ts_job s t \<noteq> No_job \<longrightarrow> ts_job s t' \<noteq> No_job \<longrightarrow> ts_map s t = ts_map s t' \<longrightarrow> t = t') \<and>
     (\<forall>t q. ts_job s t = Opened q \<longrightarrow> q \<notin> set ns \<and> q < r_fresh (ts_rd s) \<and> node (\<lambda>_. 0) {} True q None (ts_rd s))"

definition threads_at :: "nat list \<Rightarrow> nat set \<Rightarrow> tsys \<Rightarrow> bool" where
  "threads_at ns R s \<longleftrightarrow> distinct ns \<and> chain (users (ts_map s)) R False ns None (ts_rd s) \<and> \<not> r_lock (ts_rd s) \<and>
     finite (dom (ts_map s)) \<and> Suc (card (dom (ts_map s))) < 2 ^ 30 \<and> ran (ts_map s) \<subseteq> set ns \<and> R \<subseteq> set ns \<and>
     (\<forall>x \<in> set ns. x < r_fresh (ts_rd s)) \<and> jobs_ok ns R s"

definition threads_ok :: "tsys \<Rightarrow> bool" where
  "threads_ok s \<longleftrightarrow> (\<exists>ns R. threads_at ns R s)"

lemma threads_atD:
  assumes "threads_at ns R s"
  shows "distinct ns" "chain (users (ts_map s)) R False ns None (ts_rd s)" "\<not> r_lock (ts_rd s)" "finite (dom (ts_map s))"
    "Suc (card (dom (ts_map s))) < 2 ^ 30" "R \<subseteq> set ns" "\<forall>x \<in> set ns. x < r_fresh (ts_rd s)" "jobs_ok ns R s"
    "ts_map s t = Some p \<Longrightarrow> p \<in> set ns" "ts_map s t = Some p \<Longrightarrow> 0 < users (ts_map s) p" "\<forall>x. Suc (users (ts_map s) x) < 2 ^ 30"
    "\<forall>x. users (ts_map s) x < 2 ^ 30"
proof -
  show A: "distinct ns" "chain (users (ts_map s)) R False ns None (ts_rd s)" "\<not> r_lock (ts_rd s)" "finite (dom (ts_map s))"
    "Suc (card (dom (ts_map s))) < 2 ^ 30" "R \<subseteq> set ns" "\<forall>x \<in> set ns. x < r_fresh (ts_rd s)" "jobs_ok ns R s"
    using assms by (simp_all add: threads_at_def)
  show "ts_map s t = Some p \<Longrightarrow> p \<in> set ns" using assms by (auto simp: threads_at_def ran_def)
  show "ts_map s t = Some p \<Longrightarrow> 0 < users (ts_map s) p" using A(4) by (rule users_pos)
  show "\<forall>x. Suc (users (ts_map s) x) < 2 ^ 30" "\<forall>x. users (ts_map s) x < 2 ^ 30"
    using users_le [OF A(4)] A(5) by (meson Suc_le_mono le_less_trans, meson le_less_trans Suc_lessD)
qed

lemma jobs_okD:
  assumes "jobs_ok ns R s"
  shows "ts_job s t \<noteq> No_job \<Longrightarrow> \<exists>p \<in> R. ts_map s t = Some p \<and> (p = last ns \<longleftrightarrow> ts_job s t \<noteq> Linked)"
    "ts_job s t \<noteq> No_job \<Longrightarrow> ts_job s t' \<noteq> No_job \<Longrightarrow> ts_map s t = ts_map s t' \<Longrightarrow> t = t'"
    "ts_job s t = Opened q \<Longrightarrow> q \<notin> set ns \<and> q < r_fresh (ts_rd s) \<and> node (\<lambda>_. 0) {} True q None (ts_rd s)"
  using assms by (auto simp: jobs_ok_def)

lemma thread_start_ok: "thread_start s \<Longrightarrow> threads_ok s"
proof -
  assume "thread_start s"
  then obtain t p mm where s: "ts_map s = [t \<mapsto> p]" "ts_job s = (\<lambda>_. No_job)" "get_map p (ts_rd s) = Some mm"
     "mm_ptr mm \<noteq> None" "mm_next mm = None" "mm_refcnt mm = 1" "fname_str mm (ts_rd s) \<noteq> None"
     "\<not> r_lock (ts_rd s)" "p < r_fresh (ts_rd s)" by (auto simp: thread_start_def)
  have u: "users (ts_map s) p = 1" by (simp add: s(1) users_def)
  have "jobs_ok [p] {} s" by (simp add: jobs_ok_def s(2))
  moreover have "chain (users (ts_map s)) {} False [p] None (ts_rd s)"
    using s u by (simp add: node_def refw_def)
  ultimately have "threads_at [p] {} s" using s by (simp add: threads_at_def)
  then show ?thesis by (auto simp: threads_ok_def)
qed


subsection \<open>Every operation keeps the invariant\<close>

text \<open>A thread that is not refreshing, or finishes its refresh, goes to the newest map.\<close>

lemma jobs_ok_moved:
  assumes J: "jobs_ok ns R s" and j: "ts_job s t = No_job \<and> R' = R \<or> ts_job s t = Linked \<and> ts_map s t = Some p \<and> R' = R - {p}"
    and sub: "set ns' \<subseteq> set ns" "last ns' = last ns" and out: "outside (set ns) (ts_rd s) w"
  shows "jobs_ok ns' R' (set_job t No_job (thread_moves t mp w s))"
proof -
  have other: "t' \<noteq> t \<and> ts_job s t' \<noteq> No_job" if "ts_job (set_job t No_job (thread_moves t mp w s)) t' \<noteq> No_job" for t'
    using that by (auto simp: set_job_def thread_moves_def split: if_splits)
  have priv: "node (\<lambda>_. 0) {} True q None w" if "ts_job s t' = Opened q" for t' q
    using jobs_okD(3) [OF J that] out by (auto simp: outside_def intro: node_cong)
  show ?thesis
    unfolding jobs_ok_def
  proof (intro conjI allI impI)
    fix t' assume "ts_job (set_job t No_job (thread_moves t mp w s)) t' \<noteq> No_job"
    then have t': "t' \<noteq> t" "ts_job s t' \<noteq> No_job" using other by blast+
    obtain p' where p': "p' \<in> R" "ts_map s t' = Some p'" "p' = last ns \<longleftrightarrow> ts_job s t' \<noteq> Linked" using jobs_okD(1) [OF J t'(2)] by blast
    have "p' \<in> R'" using j p'(1,2) jobs_okD(2) [OF J t'(2), of t] t'(1) by auto
    then show "\<exists>p \<in> R'. ts_map (set_job t No_job (thread_moves t mp w s)) t' = Some p \<and>
        (p = last ns' \<longleftrightarrow> ts_job (set_job t No_job (thread_moves t mp w s)) t' \<noteq> Linked)"
      using p' t'(1) sub(2) by (auto simp: set_job_def thread_moves_def)
  next
    fix t1 t2 assume a: "ts_job (set_job t No_job (thread_moves t mp w s)) t1 \<noteq> No_job"
      "ts_job (set_job t No_job (thread_moves t mp w s)) t2 \<noteq> No_job"
      "ts_map (set_job t No_job (thread_moves t mp w s)) t1 = ts_map (set_job t No_job (thread_moves t mp w s)) t2"
    have o1: "t1 \<noteq> t" "ts_job s t1 \<noteq> No_job" and o2: "t2 \<noteq> t" "ts_job s t2 \<noteq> No_job" using other a(1,2) by blast+
    have "ts_map s t1 = ts_map s t2" using a(3) o1(1) o2(1) by (simp add: set_job_def thread_moves_def)
    with o1(2) o2(2) show "t1 = t2" by (rule jobs_okD(2) [OF J])
  next
    fix t' q assume "ts_job (set_job t No_job (thread_moves t mp w s)) t' = Opened q"
    then have "ts_job s t' = Opened q" by (auto simp: set_job_def thread_moves_def split: if_splits)
    from jobs_okD(3) [OF J this] priv [OF this] out sub(1)
    show "q \<notin> set ns'" "q < r_fresh (ts_rd (set_job t No_job (thread_moves t mp w s)))"
      "node (\<lambda>_. 0) {} True q None (ts_rd (set_job t No_job (thread_moves t mp w s)))"
      by (auto simp: set_job_def thread_moves_def outside_def)
  qed
qed

lemma threads_at_moved:
  assumes T: "threads_at ns R s" and j: "ts_job s t = No_job \<and> R' = R \<or> ts_job s t = Linked \<and> ts_map s t = Some p \<and> R' = R - {p}"
    and m: "ts_map s t = Some p \<and> p \<noteq> last ns \<or> ts_map s t = None \<and> p = last ns \<and> p \<in> set ns \<and> card (dom (ts_map s)) + 2 < 2 ^ 30"
    and w: "\<not> r_lock w" "outside (set ns) (ts_rd s) w" "chain (incr_counts (users (ts_map s)) ns p) R' False (incr_chain (users (ts_map s)) R' ns p) None w"
  shows "threads_ok (set_job t No_job (thread_moves t (Some (last ns)) w s))"
proof -
  let ?u = "users (ts_map s)" let ?ns = "incr_chain ?u R' ns p" and ?s = "set_job t No_job (thread_moves t (Some (last ns)) w s)"
  note D = threads_atD [OF T]
  have p: "p \<in> set ns" using m D(9) by blast
  note I = incr_chain_facts [OF D(1) p, where c = ?u and R = R']
  have cnt: "users ((ts_map s)(t \<mapsto> last ns)) = incr_counts ?u ns p" using m users_moved [OF D(4)] users_joined [OF D(4)] by auto
  have R': "R' \<subseteq> set ns" using j D(6) by auto
  have "ran ((ts_map s)(t \<mapsto> last ns)) \<subseteq> set ?ns"
  proof
    fix x assume "x \<in> ran ((ts_map s)(t \<mapsto> last ns))"
    then obtain t' where t': "((ts_map s)(t \<mapsto> last ns)) t' = Some x" by (auto simp: ran_def)
    have "0 < incr_counts ?u ns p x" using users_pos [OF card_dom_upd(1) [OF D(4)] t'] unfolding cnt .
    moreover have "x \<in> set ns" using t' D(9) I(4) I(2) p by (auto split: if_splits) 
    ultimately show "x \<in> set ?ns" using I(3) by blast
  qed
  moreover have "R' \<subseteq> set ?ns" using I(3) R' by blast
  moreover have "Suc (card (dom ((ts_map s)(t \<mapsto> last ns)))) < 2 ^ 30"
    using m card_dom_upd(2,3) [OF D(4), of t "Some (last ns)"] D(5) by auto
  moreover have "jobs_ok ?ns R' ?s" using jobs_ok_moved [OF D(8) j I(2) _ w(2)] I(4) by blast
  moreover have "\<forall>x \<in> set ?ns. x < r_fresh w" using I(2) D(7) w(2) by (auto simp: outside_def)
  ultimately have "threads_at ?ns R' ?s"
    using I(1) w(1,3) card_dom_upd(1) [OF D(4), of t "Some (last ns)"] cnt by (simp add: threads_at_def set_job_def thread_moves_def)
  then show ?thesis by (auto simp: threads_ok_def)
qed

lemma set_job_same: "ts_job s t = No_job \<Longrightarrow> set_job t No_job (thread_moves t mp w s) = thread_moves t mp w s"
  by (cases s) (auto simp: set_job_def thread_moves_def)


lemma idle_unless: "threads_at ns R s \<Longrightarrow> ts_map s t = None \<Longrightarrow> ts_job s t = No_job"
  using jobs_okD(1) [OF threads_atD(8), of ns R s t] by force

lemma join_ok:
  assumes T: "threads_ok s" and t: "ts_map s t = Some p" "ts_map s t' = None" "get_map p (ts_rd s) = Some mm" "mm_next mm = None"
    "card (dom (ts_map s)) + 2 < 2 ^ 30"
  shows "\<exists>w. mcdb_mmap_thread_registration (Some p) True False (ts_rd s) = Some (True, Some p, w) \<and> threads_ok (thread_moves t' (Some p) w s)"
proof -
  obtain ns R where A: "threads_at ns R s" using T by (auto simp: threads_ok_def)
  note D = threads_atD [OF A]
  have p: "p \<in> set ns" "p = last ns" using D(9) [OF t(1)] chain_get [OF D(2) D(9) [OF t(1)] D(1)] t(3,4) by auto
  from registration_incr [OF D(2,1) p(1) _ D(11), of False] D(3) p(2) obtain w where
    w: "mcdb_mmap_thread_registration (Some p) True False (ts_rd s) = Some (True, Some (last ns), w)" "\<not> r_lock w"
      "outside (set ns) (ts_rd s) w" "chain (incr_counts (users (ts_map s)) ns p) R False (incr_chain (users (ts_map s)) R ns p) None w"
    by blast
  have j: "ts_job s t' = No_job" by (rule idle_unless [OF A t(2)])
  have "threads_ok (set_job t' No_job (thread_moves t' (Some (last ns)) w s))"
    by (rule threads_at_moved [OF A _ _ w(2-4)]) (use j t(2,5) p in auto)
  then show ?thesis using w(1) p(2) set_job_same [of s t', OF j] by auto
qed

lemma refresh_self_ok:
  assumes T: "threads_ok s" and t: "ts_map s t = Some p" "ts_job s t = No_job"
  shows "\<exists>mp w. mcdb_thread_refresh_self p (ts_rd s) = Some (mp, w) \<and> threads_ok (thread_moves t mp w s)"
proof -
  obtain ns R where A: "threads_at ns R s" using T by (auto simp: threads_ok_def)
  note D = threads_atD [OF A]
  have p: "p \<in> set ns" using D(9) [OF t(1)] .
  obtain mm where mm: "get_map p (ts_rd s) = Some mm" "mm_next mm = None \<longleftrightarrow> p = last ns" using chain_get [OF D(2) p D(1)] by metis
  show ?thesis
  proof (cases "p = last ns")
    case True
    have "thread_moves t (Some p) (ts_rd s) s = s" using t(1) by (cases s) (auto simp: thread_moves_def)
    then show ?thesis using T mm True by (simp add: mcdb_thread_refresh_self_def)
  next
    case False
    from registration_incr [OF D(2,1) p _ D(11), of False] D(3) D(10) [OF t(1)] obtain w where
      w: "mcdb_mmap_thread_registration (Some p) True False (ts_rd s) = Some (True, Some (last ns), w)" "\<not> r_lock w"
        "outside (set ns) (ts_rd s) w" "chain (incr_counts (users (ts_map s)) ns p) R False (incr_chain (users (ts_map s)) R ns p) None w"
      by blast
    have "threads_ok (set_job t No_job (thread_moves t (Some (last ns)) w s))"
      by (rule threads_at_moved [OF A _ _ w(2-4)]) (use t False in auto)
    then show ?thesis using w(1) mm False set_job_same [of s t, OF t(2)] by (auto simp: mcdb_thread_refresh_self_def)
  qed
qed

lemma leave_ok:
  assumes T: "threads_ok s" and t: "ts_map s t = Some p" "ts_job s t = No_job"
  shows "\<exists>mp w. mcdb_mmap_thread_registration (Some p) False False (ts_rd s) = Some (True, mp, w) \<and> threads_ok (thread_moves t None w s)"
proof -
  obtain ns R where A: "threads_at ns R s" using T by (auto simp: threads_ok_def)
  note D = threads_atD [OF A]
  have p: "p \<in> set ns" using D(9) [OF t(1)] .
  let ?u = "users (ts_map s)" let ?ns = "remaining ?u R ns p"
  from registration_decr [OF D(2,1) p D(10) [OF t(1)] D(12,3)] obtain mp w where
    w: "mcdb_mmap_thread_registration (Some p) False False (ts_rd s) = Some (True, mp, w)" "\<not> r_lock w"
      "outside (set ns) (ts_rd s) w" "chain (?u(p := ?u p - 1)) R False ?ns None w" by blast
  note cnt = users_left [OF D(4) t(1)]
  have keep: "x \<in> set ns \<Longrightarrow> 0 < users ((ts_map s)(t := None)) x \<or> x \<in> R \<Longrightarrow> x \<in> set ?ns" for x
    unfolding cnt by (rule remaining_keeps [OF D(1) p])
  have ran: "ran ((ts_map s)(t := None)) \<subseteq> set ?ns"
  proof
    fix x assume "x \<in> ran ((ts_map s)(t := None))"
    then obtain t' where t': "((ts_map s)(t := None)) t' = Some x" by (auto simp: ran_def)
    then have "x \<in> set ns" using D(9) by (auto split: if_splits)
    then show "x \<in> set ?ns" using keep users_pos [OF card_dom_upd(1) [OF D(4)] t'] by blast
  qed
  have R: "R \<subseteq> set ?ns" using keep D(6) by blast
  have "jobs_ok ?ns R (set_job t No_job (thread_moves t None w s))"
  proof (cases "?ns = []")
    case True
    then have "R = {}" using R by simp
    then have "ts_job s t' = No_job" for t' using jobs_okD(1) [OF D(8), of t'] by auto
    then show ?thesis by (simp add: jobs_ok_def set_job_def thread_moves_def)
  next
    case False
    show ?thesis by (rule jobs_ok_moved [OF D(8) _ remaining_subset last_remaining [OF False] w(3)]) (use t in auto)
  qed
  moreover have "Suc (card (dom ((ts_map s)(t := None)))) < 2 ^ 30" using card_dom_upd(3) [OF D(4), of t None] D(5) by simp
  moreover have "\<forall>x \<in> set ?ns. x < r_fresh w" using remaining_subset D(7) w(3) by (fastforce simp: outside_def)
  ultimately have "threads_at ?ns R (thread_moves t None w s)"
    using w(2,4) card_dom_upd(1) [OF D(4), of t None] distinct_remaining [OF D(1)] cnt ran R set_job_same [of s t, OF t(2)]
    by (simp add: threads_at_def thread_moves_def)
  then show ?thesis using w(1) by (auto simp: threads_ok_def)
qed

text \<open>The steps of a refresh; the maps that are known stay as they are while a new one is made.\<close>

definition grows :: "nat list \<Rightarrow> rd \<Rightarrow> rd \<Rightarrow> bool" where
  "grows ns w w' \<longleftrightarrow> (\<forall>x. x \<notin> set ns \<and> x < r_fresh w \<longrightarrow> get_map x w' = get_map x w) \<and> r_strs w' = r_strs w \<and> r_fresh w \<le> r_fresh w'"

lemma outside_grows: "outside (set ns) w w' \<Longrightarrow> grows ns w w'"
  by (auto simp: outside_def grows_def)

lemma jobs_ok_grows:
  assumes J: "jobs_ok ns R s" and w: "grows ns (ts_rd s) w" and R: "R \<subseteq> R'"
  shows "jobs_ok ns R' (s\<lparr>ts_rd := w\<rparr>)"
proof -
  have "q \<notin> set ns \<and> q < r_fresh w \<and> node (\<lambda>_. 0) {} True q None w" if "ts_job s t = Opened q" for t q
  proof -
    have q: "q \<notin> set ns" "q < r_fresh (ts_rd s)" "node (\<lambda>_. 0) {} True q None (ts_rd s)" using jobs_okD(3) [OF J that] by auto
    have "node (\<lambda>_. 0) {} True q None w" by (rule node_cong [OF q(3)]) (use q w in \<open>auto simp: grows_def\<close>)
    then show ?thesis using q w by (auto simp: grows_def)
  qed
  moreover have "\<exists>p \<in> R'. ts_map s t = Some p \<and> (p = last ns \<longleftrightarrow> ts_job s t \<noteq> Linked)" if "ts_job s t \<noteq> No_job" for t
    using jobs_okD(1) [OF J that] R by blast
  ultimately show ?thesis using jobs_okD(2) [OF J] unfolding jobs_ok_def by simp
qed

lemma jobs_ok_set:
  assumes J: "jobs_ok ns R s" and p: "ts_map s t = Some p"
    and j: "j \<noteq> No_job \<Longrightarrow> p \<in> R \<and> (p = last ns \<longleftrightarrow> j \<noteq> Linked)" "\<And>q. j = Opened q \<Longrightarrow> q \<notin> set ns \<and> q < r_fresh (ts_rd s) \<and> node (\<lambda>_. 0) {} True q None (ts_rd s)"
    and alone: "\<And>t'. t' \<noteq> t \<Longrightarrow> ts_job s t' \<noteq> No_job \<Longrightarrow> ts_map s t' \<noteq> Some p"
  shows "jobs_ok ns R (set_job t j s)"
proof -
  have e: "ts_job (set_job t j s) = (ts_job s)(t := j)" "ts_map (set_job t j s) = ts_map s" "ts_rd (set_job t j s) = ts_rd s"
    by (simp_all add: set_job_def)
  have 1: "\<exists>p \<in> R. ts_map s t' = Some p \<and> (p = last ns \<longleftrightarrow> ((ts_job s)(t := j)) t' \<noteq> Linked)" if "((ts_job s)(t := j)) t' \<noteq> No_job" for t'
    using that jobs_okD(1) [OF J, of t'] p j(1) by (cases "t' = t") auto
  have 2: "t1 = t2" if "((ts_job s)(t := j)) t1 \<noteq> No_job" "((ts_job s)(t := j)) t2 \<noteq> No_job" "ts_map s t1 = ts_map s t2" for t1 t2
  proof (cases "t1 = t")
    case True
    then show ?thesis using that(2,3) p alone [of t2] by (cases "t2 = t") simp_all
  next
    case False
    then have j1: "ts_job s t1 \<noteq> No_job" using that(1) by simp
    have "t2 \<noteq> t" using alone [OF False j1] that(3) p by auto
    then show ?thesis using that(2,3) by (intro jobs_okD(2) [OF J j1]) simp_all
  qed
  have 3: "q \<notin> set ns \<and> q < r_fresh (ts_rd s) \<and> node (\<lambda>_. 0) {} True q None (ts_rd s)"
    if "((ts_job s)(t := j)) t' = Opened q" for t' q
  proof (cases "t' = t")
    case True
    then show ?thesis using that by (intro j(2)) simp
  next
    case False
    then show ?thesis using that by (intro jobs_okD(3) [OF J, of t']) simp
  qed
  show ?thesis unfolding jobs_ok_def e using 1 2 3 by blast
qed

lemma threads_at_jobs:
  assumes T: "threads_at ns R s" and w: "\<not> r_lock w" "grows ns (ts_rd s) w" "chain (users (ts_map s)) R' False ns None w" "R' \<subseteq> set ns"
    and J: "jobs_ok ns R' (set_job t j (s\<lparr>ts_rd := w\<rparr>))"
  shows "threads_ok (set_job t j (s\<lparr>ts_rd := w\<rparr>))"
proof -
  have "\<forall>x \<in> set ns. x < r_fresh w" using threads_atD(7) [OF T] w(2) by (auto simp: grows_def)
  then have "threads_at ns R' (set_job t j (s\<lparr>ts_rd := w\<rparr>))"
    using T w(1,3,4) J by (simp add: threads_at_def set_job_def)
  then show ?thesis by (auto simp: threads_ok_def)
qed

lemma set_job_id: "ts_job s t = j \<Longrightarrow> set_job t j (s\<lparr>ts_rd := w\<rparr>) = s\<lparr>ts_rd := w\<rparr>"
  by (cases s) (auto simp: set_job_def)

definition claim_next :: "nat \<Rightarrow> claim_result \<Rightarrow> rd \<Rightarrow> tsys \<Rightarrow> tsys" where
  "claim_next t r w s = (case r of Claim_registered _ mp \<Rightarrow> thread_moves t mp w s | Claim_busy \<Rightarrow> s\<lparr>ts_rd := w\<rparr>
     | Claim_ours \<Rightarrow> set_job t Claimed (s\<lparr>ts_rd := w\<rparr>))"

lemma claim_ok:
  assumes T: "threads_ok s" and t: "ts_map s t = Some p" "ts_job s t = No_job"
  shows "\<exists>r w. reopen_claim p (ts_rd s) = Some (r, w) \<and> threads_ok (claim_next t r w s)"
proof -
  obtain ns R where A: "threads_at ns R s" using T by (auto simp: threads_ok_def)
  note D = threads_atD [OF A]
  have p: "p \<in> set ns" using D(9) [OF t(1)] .
  show ?thesis
  proof (cases "p = last ns")
    case False
    from reopen_claim_moves [OF D(2,1) p False D(10) [OF t(1)] D(11,3)] obtain w where
      w: "reopen_claim p (ts_rd s) = Some (Claim_registered True (Some (last ns)), w)" "\<not> r_lock w" "outside (set ns) (ts_rd s) w"
        "chain (incr_counts (users (ts_map s)) ns p) R False (incr_chain (users (ts_map s)) R ns p) None w" by blast
    have "threads_ok (set_job t No_job (thread_moves t (Some (last ns)) w s))"
      by (rule threads_at_moved [OF A _ _ w(2-4)]) (use t False in auto)
    then show ?thesis using w(1) set_job_same [of s t, OF t(2)] by (auto simp: claim_next_def)
  next
    case True
    from reopen_claim_last [OF D(2,1) p True D(12,3)] obtain w where
      w: "reopen_claim p (ts_rd s) = Some (if p \<in> R then Claim_busy else Claim_ours, w)" "\<not> r_lock w" "outside (set ns) (ts_rd s) w"
        "chain (users (ts_map s)) (insert p R) False ns None w" by blast
    have sub: "insert p R \<subseteq> set ns" using D(6) p by simp
    have J: "jobs_ok ns (insert p R) (s\<lparr>ts_rd := w\<rparr>)" by (rule jobs_ok_grows [OF D(8) outside_grows [OF w(3)]]) auto
    show ?thesis
    proof (cases "p \<in> R")
      case True
      have e: "set_job t No_job (s\<lparr>ts_rd := w\<rparr>) = s\<lparr>ts_rd := w\<rparr>" by (rule set_job_id [OF t(2)])
      have "threads_ok (s\<lparr>ts_rd := w\<rparr>)"
        using threads_at_jobs [OF A w(2) outside_grows [OF w(3)] w(4) sub, of t No_job] J unfolding e by blast
      then show ?thesis using w(1) True by (simp add: claim_next_def)
    next
      case False
      have "ts_map s t' \<noteq> Some p" if "ts_job s t' \<noteq> No_job" for t' using jobs_okD(1) [OF D(8) that] False by auto
      then have "jobs_ok ns (insert p R) (set_job t Claimed (s\<lparr>ts_rd := w\<rparr>))"
        by (intro jobs_ok_set [OF J]) (use t(1) True in auto)
      from threads_at_jobs [OF A w(2) outside_grows [OF w(3)] w(4) sub this] w(1) False show ?thesis by (simp add: claim_next_def)
    qed
  qed
qed

definition open_job :: "nat option \<Rightarrow> reopen_job" where
  "open_job r = (case r of None \<Rightarrow> No_job | Some q \<Rightarrow> Opened q)"

lemma open_ok:
  assumes T: "threads_ok s" and t: "ts_map s t = Some p" "ts_job s t = Claimed"
  shows "\<exists>r w. reopen_open p (ts_rd s) = Some (r, w) \<and> threads_ok (set_job t (open_job r) (s\<lparr>ts_rd := w\<rparr>))"
proof -
  obtain ns R where A: "threads_at ns R s" using T by (auto simp: threads_ok_def)
  note D = threads_atD [OF A]
  have p: "p \<in> set ns" "p \<noteq> r_fresh (ts_rd s)" "p \<in> R" "p = last ns"
    using D(9) [OF t(1)] D(7) jobs_okD(1) [OF D(8), of t] t by auto
  obtain mm where mm: "get_map p (ts_rd s) = Some mm" "fname_str mm (ts_rd s) \<noteq> None" using chain_get [OF D(2) p(1) D(1)] by metis
  from reopen_open_frame [OF mm p(2)] obtain r w where
    w: "reopen_open p (ts_rd s) = Some (r, w)" "r_lock w = r_lock (ts_rd s)" "r_strs w = r_strs (ts_rd s)" "r_fresh (ts_rd s) \<le> r_fresh w"
      "\<forall>x. x \<noteq> r_fresh (ts_rd s) \<longrightarrow> get_map x w = get_map x (ts_rd s)"
      "case r of None \<Rightarrow> True | Some q \<Rightarrow> q = r_fresh (ts_rd s) \<and> q < r_fresh w \<and> node (\<lambda>_. 0) {} True q None w" by blast
  have g: "grows ns (ts_rd s) w" using w(3-5) by (auto simp: grows_def)
  have ch: "chain (users (ts_map s)) R False ns None w" by (rule chain_cong [OF _ w(3) D(2)]) (use w(5) D(7) in auto)
  have J: "jobs_ok ns R (s\<lparr>ts_rd := w\<rparr>)" by (rule jobs_ok_grows [OF D(8) g]) simp
  have alone: "ts_map s t' \<noteq> Some p" if "t' \<noteq> t" "ts_job s t' \<noteq> No_job" for t'
    using jobs_okD(2) [OF D(8) that(2), of t] that t by auto
  have "jobs_ok ns R (set_job t (open_job r) (s\<lparr>ts_rd := w\<rparr>))"
    by (rule jobs_ok_set [OF J]) (use t(1) p(3,4) alone w(6) D(7) in \<open>auto simp: open_job_def split: option.splits\<close>)
  from threads_at_jobs [OF A _ g ch D(6) this] w(1,2) D(3) show ?thesis by auto
qed

lemma link_ok:
  assumes T: "threads_ok s" and t: "ts_map s t = Some p" "ts_job s t = Opened q"
  shows "\<exists>w. reopen_link p q (ts_rd s) = Some w \<and> threads_ok (set_job t Linked (s\<lparr>ts_rd := w\<rparr>))"
proof -
  obtain ns R where A: "threads_at ns R s" using T by (auto simp: threads_ok_def)
  note D = threads_atD [OF A]
  have p: "p \<in> set ns" "p \<in> R" "p = last ns" using D(9) [OF t(1)] jobs_okD(1) [OF D(8), of t] t by auto
  have q: "q \<notin> set ns" "q < r_fresh (ts_rd s)" "node (\<lambda>_. 0) {} True q None (ts_rd s)" using jobs_okD(3) [OF D(8) t(2)] by auto
  have "{x. ts_map s x = Some q} = {}" using q(1) D(9) by auto
  then have uq: "users (ts_map s) q = 0" unfolding users_def by simp
  have "q \<notin> R" using q(1) D(6) by auto
  from reopen_link_chain [OF D(2,1) p(1,3) q(1,3) uq this] obtain w where
    w: "reopen_link p q (ts_rd s) = Some w" "r_lock w = r_lock (ts_rd s)" "outside {p} (ts_rd s) w"
      "chain (users (ts_map s)) R False (ns @ [q]) None w" by blast
  have others: "ts_job s t' = Linked" "ts_map s t' \<noteq> Some p" if "t' \<noteq> t" "ts_job s t' \<noteq> No_job" for t'
  proof -
    show ne: "ts_map s t' \<noteq> Some p" using jobs_okD(2) [OF D(8) that(2), of t] that(1) t by auto
    show "ts_job s t' = Linked" using jobs_okD(1) [OF D(8) that(2)] ne p(3) by auto
  qed
  let ?s = "set_job t Linked (s\<lparr>ts_rd := w\<rparr>)"
  have job: "ts_job ?s t' = Linked \<and> ts_map ?s t' = ts_map s t' \<and> ts_job s t' \<noteq> No_job" if "ts_job ?s t' \<noteq> No_job" for t'
    using that others(1) [of t'] t(2) by (auto simp: set_job_def split: if_splits)
  have "jobs_ok (ns @ [q]) R ?s"
    unfolding jobs_ok_def
  proof (intro conjI allI impI)
    fix t' assume "ts_job ?s t' \<noteq> No_job"
    note j = job [OF this]
    obtain p' where "p' \<in> R" "ts_map s t' = Some p'" using jobs_okD(1) [OF D(8), of t'] j by blast
    moreover have "p' \<noteq> q" using \<open>p' \<in> R\<close> \<open>q \<notin> R\<close> by blast
    ultimately show "\<exists>p \<in> R. ts_map ?s t' = Some p \<and> (p = last (ns @ [q]) \<longleftrightarrow> ts_job ?s t' \<noteq> Linked)" using j by auto
  next
    fix t1 t2 assume a: "ts_job ?s t1 \<noteq> No_job" "ts_job ?s t2 \<noteq> No_job" "ts_map ?s t1 = ts_map ?s t2"
    show "t1 = t2" by (rule jobs_okD(2) [OF D(8)]) (use job [OF a(1)] job [OF a(2)] a(3) in auto)
  next
    fix t' q' assume "ts_job ?s t' = Opened q'"
    then show "q' \<notin> set (ns @ [q])" "q' < r_fresh (ts_rd ?s)" "node (\<lambda>_. 0) {} True q' None (ts_rd ?s)" using job [of t'] by auto
  qed
  then have "threads_at (ns @ [q]) R ?s"
    using D(1,3-7) q(1,2) w(2-4) D(9) by (auto simp: threads_at_def set_job_def outside_def ran_def)
  then show ?thesis using w(1) by (auto simp: threads_ok_def)
qed

lemma finish_ok:
  assumes T: "threads_ok s" and t: "ts_map s t = Some p" "ts_job s t = Linked"
  shows "\<exists>mp w. reopen_finish p (ts_rd s) = Some (True, mp, w) \<and> threads_ok (set_job t No_job (thread_moves t mp w s))"
proof -
  obtain ns R where A: "threads_at ns R s" using T by (auto simp: threads_ok_def)
  note D = threads_atD [OF A]
  have p: "p \<in> set ns" "p \<in> R" "p \<noteq> last ns" using D(9) [OF t(1)] jobs_okD(1) [OF D(8), of t] t by auto
  from reopen_finish_chain [OF D(2,1) p(1,3) D(10) [OF t(1)] D(11,3) p(2)] obtain w where
    w: "reopen_finish p (ts_rd s) = Some (True, Some (last ns), w)" "\<not> r_lock w" "outside (set ns) (ts_rd s) w"
      "chain (incr_counts (users (ts_map s)) ns p) (R - {p}) False (incr_chain (users (ts_map s)) (R - {p}) ns p) None w" by blast
  have "threads_ok (set_job t No_job (thread_moves t (Some (last ns)) w s))"
    by (rule threads_at_moved [OF A _ _ w(2-4)]) (use t p(3) in auto)
  then show ?thesis using w(1) by auto
qed

lemma files_ok:
  assumes T: "threads_ok s"
  shows "threads_ok (s\<lparr>ts_rd := (ts_rd s)\<lparr>r_fs := fs\<rparr>\<rparr>)"
proof -
  obtain ns R where A: "threads_at ns R s" using T by (auto simp: threads_ok_def)
  note D = threads_atD [OF A]
  let ?w = "(ts_rd s)\<lparr>r_fs := fs\<rparr>"
  have g: "grows ns (ts_rd s) ?w" by (simp add: grows_def get_map_def)
  have "chain (users (ts_map s)) R False ns None ?w" by (rule chain_cong [OF _ _ D(2)]) (simp_all add: get_map_def)
  then have "threads_at ns R (s\<lparr>ts_rd := ?w\<rparr>)"
    using A jobs_ok_grows [OF D(8) g, of R] by (simp add: threads_at_def)
  then show ?thesis by (auto simp: threads_ok_def)
qed

lemma thread_step_ok: "thread_step s s' \<Longrightarrow> threads_ok s \<Longrightarrow> threads_ok s'"
proof (induction rule: thread_step.induct)
  case (Join s t p t' mm r mp w)
  from join_ok [OF Join(7) Join(1-5)] Join(6) show ?case by auto
next
  case (Refresh_self s t p mp w)
  from refresh_self_ok [OF Refresh_self(4) Refresh_self(1,2)] Refresh_self(3) show ?case by auto
next
  case (Leave s t p r mp w)
  from leave_ok [OF Leave(4) Leave(1,2)] Leave(3) show ?case by auto
next
  case (Claim s t p w)
  from claim_ok [OF Claim(4) Claim(1,2)] Claim(3) show ?case by (auto simp: claim_next_def)
next
  case (Claim_busy s t p w)
  from claim_ok [OF Claim_busy(4) Claim_busy(1,2)] Claim_busy(3) show ?case by (auto simp: claim_next_def)
next
  case (Claim_moved s t p r mp w)
  from claim_ok [OF Claim_moved(4) Claim_moved(1,2)] Claim_moved(3) show ?case by (auto simp: claim_next_def)
next
  case (Open s t p q w)
  from open_ok [OF Open(4) Open(1,2)] Open(3) show ?case by (auto simp: open_job_def)
next
  case (Open_fails s t p w)
  from open_ok [OF Open_fails(4) Open_fails(1,2)] Open_fails(3) show ?case by (auto simp: open_job_def)
next
  case (Link s t p q w)
  from link_ok [OF Link(4) Link(1,2)] Link(3) show ?case by auto
next
  case (Finish s t p r mp w)
  from finish_ok [OF Finish(4) Finish(1,2)] Finish(3) show ?case by auto
next
  case (Files s fs)
  from files_ok [OF Files] show ?case .
qed

subsection \<open>The properties\<close>

lemma reachable_ok: "thread_step\<^sup>*\<^sup>* s0 s \<Longrightarrow> thread_start s0 \<Longrightarrow> threads_ok s"
  by (induction rule: rtranclp_induct) (auto intro: thread_start_ok thread_step_ok)

lemma refw_users: "c < 2 ^ 30 \<Longrightarrow> refw c b r AND 0x3FFFFFFF = word_of_nat c"
proof -
  assume c: "c < 2 ^ 30"
  have m: "(0x3FFFFFFF :: u32) = mask 30" by (simp add: mask_eq_exp_minus_1)
  show ?thesis unfolding m by (rule bit_word_eqI) (auto simp: bit_and_iff bit_mask_iff bit_refw [OF c] low_bits [OF c])
qed

text \<open>C8: invariant of the reference counts: in every state that threads reach from the opening of a
  database, by joining with the pointer of a thread that is on the newest map, moving on, leaving and refreshing in any
  order, with refreshes in progress, the map of a registered thread is mapped, and its reference count without the two
  flags is the number of threads that are registered on it.  A thread that joins through a map which has a successor
  breaks this; the next property says how.\<close>

theorem registered_threads_counted:
  assumes "thread_start s0" "thread_step\<^sup>*\<^sup>* s0 s" "ts_map s t = Some p"
  shows "\<exists>mm. get_map p (ts_rd s) = Some mm \<and> mm_ptr mm \<noteq> None \<and>
    mm_refcnt mm AND 0x3FFFFFFF = word_of_nat (card {t'. ts_map s t' = Some p})"
proof -
  obtain ns R where A: "threads_at ns R s" using reachable_ok [OF assms(2,1)] by (auto simp: threads_ok_def)
  note D = threads_atD [OF A]
  obtain mm where "get_map p (ts_rd s) = Some mm" "mm_ptr mm \<noteq> None" "\<exists>b. mm_refcnt mm = refw (users (ts_map s) p) b (p \<in> R)"
    using chain_get [OF D(2) D(9) [OF assms(3)] D(1)] by metis
  then show ?thesis using refw_users D(12) by (auto simp: users_def)
qed

lemma refw_one:
  assumes "c < 2 ^ 30"
  shows "refw c b r = 1 \<longleftrightarrow> c = 1 \<and> \<not> b \<and> \<not> r"
proof -
  have "refw c b r = 1 \<longleftrightarrow> unat (refw c b r) = 1" by (simp add: word_unat_eq_iff)
  then show ?thesis unfolding unat_refw [OF assms] using assms by (auto split: if_splits)
qed

text \<open>What the steps leave out: a thread that joins with the pointer of a registered thread whose map already has a
  successor, as it has between the link and the end of a refresh and until that thread moves on.\<close>

lemma outdated_join_drops_reference:
  assumes "thread_start s0" "thread_step\<^sup>*\<^sup>* s0 s" "ts_map s t = Some p" "get_map p (ts_rd s) = Some mm" "mm_next mm \<noteq> None"
  shows "\<exists>q w. mcdb_mmap_thread_registration (Some p) True False (ts_rd s) = Some (True, Some q, w) \<and> q \<noteq> p \<and>
    (if mm_refcnt mm = 1 then \<forall>mm'. get_map p w = Some mm' \<longrightarrow> mm_ptr mm' = None
     else \<exists>mm'. get_map p w = Some mm' \<and> mm_refcnt mm' AND 0x3FFFFFFF = word_of_nat (card {t'. ts_map s t' = Some p} - 1))"
proof -
  obtain ns R where A: "threads_at ns R s" using reachable_ok [OF assms(2,1)] by (auto simp: threads_ok_def)
  note D = threads_atD [OF A]
  let ?u = "users (ts_map s)"
  have p: "p \<in> set ns" "0 < ?u p" using D(9,10) assms(3) by blast+
  obtain b where mm: "p \<noteq> last ns" "mm_refcnt mm = refw (?u p) b (p \<in> R)" "b \<longleftrightarrow> p \<noteq> hd ns"
    using chain_get [OF D(2) p(1) D(1)] assms(4,5) by (metis option.inject)
  have one: "mm_refcnt mm = 1 \<longleftrightarrow> last_user ?u R ns p" using mm(2,3) refw_one D(12) by (auto simp: last_user_def)
  from registration_incr [OF D(2,1) p(1) p(2) D(11), of False] D(3) obtain w where
    w: "mcdb_mmap_thread_registration (Some p) True False (ts_rd s) = Some (True, Some (last ns), w)"
      "chain (incr_counts ?u ns p) R False (incr_chain ?u R ns p) None w"
      "last_user ?u R ns p \<Longrightarrow> \<forall>mm. get_map p w = Some mm \<longrightarrow> mm_ptr mm = None" using mm(1) by blast
  have "\<exists>mm'. get_map p w = Some mm' \<and> mm_refcnt mm' AND 0x3FFFFFFF = word_of_nat (?u p - 1)" if "\<not> last_user ?u R ns p"
  proof -
    have "incr_chain ?u R ns p = ns" using that mm(1) by (auto simp: incr_chain_def remaining_def last_user_def)
    then have ch: "chain (incr_counts ?u ns p) R False ns None w" and c: "incr_counts ?u ns p p = ?u p - 1"
      using w(2) mm(1) by (simp_all add: incr_counts_def Let_def)
    obtain mm' where "get_map p w = Some mm'" "\<exists>b. mm_refcnt mm' = refw (?u p - 1) b (p \<in> R)"
      using chain_get [OF ch p(1) D(1)] unfolding c by metis
    then show ?thesis using refw_users [of "?u p - 1"] D(12) by (auto simp: less_imp_diff_less)
  qed
  then show ?thesis using w(1,3) mm(1) one by (auto simp: users_def)
qed

text \<open>C9: in every such state, which no thread has reached by joining through an outdated map, whatever a registered thread
  does next is defined: no map is used after it was freed, no lock is taken twice, and the open of a new file never
  needs a name that is gone.  The code also lets a thread join with the pointer of a registered thread whose map
  has a successor.  Such a registration succeeds and delivers another map, the newest, but takes away a reference that the joining thread
  never had: the map of the registered thread is unmapped when its count was 1, although the thread is still on it, and
  otherwise its count without the flags is one lower than the number of threads that are on it.\<close>

theorem registered_threads_safe:
  assumes "thread_start s0" "thread_step\<^sup>*\<^sup>* s0 s" "ts_map s t = Some p"
  shows "(ts_job s t = No_job \<longrightarrow> mcdb_thread_refresh_self p (ts_rd s) \<noteq> None \<and>
      mcdb_mmap_thread_registration (Some p) False False (ts_rd s) \<noteq> None \<and> reopen_claim p (ts_rd s) \<noteq> None) \<and>
    (ts_job s t = Claimed \<longrightarrow> reopen_open p (ts_rd s) \<noteq> None) \<and>
    (\<forall>q. ts_job s t = Opened q \<longrightarrow> reopen_link p q (ts_rd s) \<noteq> None) \<and>
    (ts_job s t = Linked \<longrightarrow> reopen_finish p (ts_rd s) \<noteq> None) \<and>
    (\<forall>mm. get_map p (ts_rd s) = Some mm \<longrightarrow> mm_next mm \<noteq> None \<longrightarrow>
       (\<exists>q w. mcdb_mmap_thread_registration (Some p) True False (ts_rd s) = Some (True, Some q, w) \<and> q \<noteq> p \<and>
         (if mm_refcnt mm = 1 then \<forall>mm'. get_map p w = Some mm' \<longrightarrow> mm_ptr mm' = None
          else \<exists>mm'. get_map p w = Some mm' \<and> mm_refcnt mm' AND 0x3FFFFFFF = word_of_nat (card {t'. ts_map s t' = Some p} - 1))))"
proof (intro conjI)
  note T = reachable_ok [OF assms(2,1)]
  note ops = refresh_self_ok [OF T assms(3)] leave_ok [OF T assms(3)] claim_ok [OF T assms(3)] open_ok [OF T assms(3)]
    link_ok [OF T assms(3)] finish_ok [OF T assms(3)]
  show "ts_job s t = No_job \<longrightarrow> mcdb_thread_refresh_self p (ts_rd s) \<noteq> None \<and>
      mcdb_mmap_thread_registration (Some p) False False (ts_rd s) \<noteq> None \<and> reopen_claim p (ts_rd s) \<noteq> None"
    "ts_job s t = Claimed \<longrightarrow> reopen_open p (ts_rd s) \<noteq> None"
    "\<forall>q. ts_job s t = Opened q \<longrightarrow> reopen_link p q (ts_rd s) \<noteq> None"
    "ts_job s t = Linked \<longrightarrow> reopen_finish p (ts_rd s) \<noteq> None" using ops by fastforce+
qed (use outdated_join_drops_reference [OF assms] in blast)

definition ex_threads :: tsys where
  "ex_threads = \<lparr>ts_map = [0 \<mapsto> 0], ts_job = (\<lambda>_. No_job),
     ts_rd = (rd_start (\<lambda>_. 0) (\<lambda>_ _. None))\<lparr>r_fresh := 1, r_maps := [0 \<mapsto>
       (mmap_blank False)\<lparr>mm_ptr := Some (\<lambda>_. 0), mm_size := 4096, mm_refcnt := 1, mm_fname := Fname_buf\<rparr>]\<rparr>\<rparr>"

lemma ex_threads_start: "thread_start ex_threads"
  by (auto simp: thread_start_def ex_threads_def rd_start_def mmap_blank_def get_map_def fname_str_def)

lemma ex_threads_join: "\<exists>w. thread_step\<^sup>*\<^sup>* ex_threads (thread_moves 1 (Some 0) w ex_threads)"
proof -
  define mm where "mm = (mmap_blank False)\<lparr>mm_ptr := Some (\<lambda>_. 0), mm_size := 4096, mm_refcnt := 1, mm_fname := Fname_buf\<rparr>"
  have h: "ts_map ex_threads 0 = Some 0" "ts_map ex_threads 1 = None" "get_map 0 (ts_rd ex_threads) = Some mm" "mm_next mm = None"
    "card (dom (ts_map ex_threads)) + 2 < 2 ^ 30"
    by (simp_all add: ex_threads_def get_map_def mm_def mmap_blank_def rd_start_def)
  from join_ok [OF thread_start_ok [OF ex_threads_start] h] obtain w where
    "mcdb_mmap_thread_registration (Some 0) True False (ts_rd ex_threads) = Some (True, Some 0, w)" by blast
  from thread_step.Join [OF h this] show ?thesis by blast
qed

theorem registered_threads_counted_witness:
  "\<exists>s mm. thread_step\<^sup>*\<^sup>* ex_threads s \<and> ts_map s 1 = Some 0 \<and> get_map 0 (ts_rd s) = Some mm \<and> mm_refcnt mm AND 0x3FFFFFFF = 2"
proof -
  obtain w where w: "thread_step\<^sup>*\<^sup>* ex_threads (thread_moves 1 (Some 0) w ex_threads)" (is "thread_step\<^sup>*\<^sup>* _ ?s") using ex_threads_join by blast
  have m: "ts_map ?s 1 = Some 0" "{t. ts_map ?s t = Some 0} = {0, 1}" by (auto simp: thread_moves_def ex_threads_def)
  from registered_threads_counted [OF ex_threads_start w m(1)] obtain mm where
    "get_map 0 (ts_rd ?s) = Some mm" "mm_refcnt mm AND 0x3FFFFFFF = 2" unfolding m(2) by auto
  then show ?thesis using w m(1) by blast
qed

text \<open>Two threads; the first finds that the file was replaced and moves on to the new map.\<close>

definition ex_moved :: tsys where
  "ex_moved = ex_threads\<lparr>ts_rd := (ts_rd ex_threads)\<lparr>r_fs := (\<lambda>_ _. Some \<lparr>f_bytes = (\<lambda>_. 1), f_size = 4096, f_mtime = 1\<rparr>)\<rparr>\<rparr>"

lemmas ex_moved_simps = ex_moved_def ex_threads_def rd_start_def mmap_blank_def get_map_def put_map_def lock_acquire_def lock_release_def
  thread_moves_def set_job_def REFCNT_REOPENING_def REFCNT_NOT_OLDEST_def

lemma ex_moved_reached:
  "\<exists>s mm. thread_step\<^sup>*\<^sup>* ex_moved s \<and> ts_map s 1 = Some 0 \<and> get_map 0 (ts_rd s) = Some mm \<and> mm_next mm = Some 1 \<and> mm_refcnt mm = 1"
proof -
  define m0 where "m0 = (mmap_blank False)\<lparr>mm_ptr := Some (\<lambda>_. 0), mm_size := 4096, mm_refcnt := 1, mm_fname := Fname_buf\<rparr>"
  have fc: "free_chain None v = Some v" for v by (subst free_chain.simps) simp
  have h: "ts_map ex_moved 0 = Some 0" "ts_map ex_moved 1 = None" "get_map 0 (ts_rd ex_moved) = Some m0" "mm_next m0 = None"
    "card (dom (ts_map ex_moved)) + 2 < 2 ^ 30" by (simp_all add: ex_moved_simps m0_def)
  obtain w1 where w1: "mcdb_mmap_thread_registration (Some 0) True False (ts_rd ex_moved) = Some (True, Some 0, w1)"
    "w1 = put_map 0 (m0\<lparr>mm_refcnt := 2\<rparr>) (ts_rd ex_moved)"
    by (simp add: mcdb_mmap_thread_registration_def fc ex_moved_simps m0_def)
  define s1 where "s1 = thread_moves 1 (Some 0) w1 ex_moved"
  have t1: "thread_step ex_moved s1" unfolding s1_def by (rule thread_step.Join [OF h w1(1)])
  obtain w2 where w2: "reopen_claim 0 (ts_rd s1) = Some (Claim_ours, w2)" "w2 = put_map 0 (m0\<lparr>mm_refcnt := 0x80000002\<rparr>) w1"
    by (simp add: s1_def reopen_claim_def w1(2) ex_moved_simps m0_def)
  define s2 where "s2 = set_job 0 Claimed (s1\<lparr>ts_rd := w2\<rparr>)"
  have t2: "thread_step s1 s2" unfolding s2_def by (rule thread_step.Claim [OF _ _ w2(1)]) (simp_all add: s1_def ex_moved_simps)
  obtain w3 n where w3: "reopen_open 0 (ts_rd s2) = Some (Some 1, w3)" "get_map 0 w3 = Some (m0\<lparr>mm_refcnt := 0x80000002\<rparr>)"
    "get_map 1 w3 = Some n" "mm_next n = None" "\<not> r_lock w3"
    by (simp add: s2_def s1_def reopen_open_def w2(2) w1(2) ex_moved_simps m0_def rd_malloc_def rd_call_def mcdb_mmap_reopen_def
      fname_str_def open_fd_def dir_of_def mcdb_mmap_init_def mcdb_mmap_unmap_def sys_fstat_def sys_mmap_def nointr_close_def Let_def)
  define s3 where "s3 = set_job 0 (Opened 1) (s2\<lparr>ts_rd := w3\<rparr>)"
  have t3: "thread_step s2 s3" unfolding s3_def by (rule thread_step.Open [OF _ _ w3(1)]) (simp_all add: s2_def s1_def ex_moved_simps)
  obtain w4 where w4: "reopen_link 0 1 (ts_rd s3) = Some w4" "w4 = put_map 0 (m0\<lparr>mm_refcnt := 0x80000002, mm_next := Some 1\<rparr>) w3"
    using w3(2) by (simp add: s3_def set_job_def reopen_link_def)
  define s4 where "s4 = set_job 0 Linked (s3\<lparr>ts_rd := w4\<rparr>)"
  have t4: "thread_step s3 s4" unfolding s4_def by (rule thread_step.Link [OF _ _ w4(1)]) (simp_all add: s3_def s2_def s1_def ex_moved_simps)
  have last: "chain_last (Suc 0) w = Some 1" if "get_map 1 w = Some n" for w using that w3(4) by (subst chain_last.simps) simp
  obtain w5 where w5: "reopen_finish 0 (ts_rd s4) = Some (True, Some 1, w5)"
    "get_map 0 w5 = Some (m0\<lparr>mm_refcnt := 1, mm_next := Some 1\<rparr>)"
    using w3(3,5) by (simp add: s4_def set_job_def reopen_finish_def w4(2) lock_acquire_def lock_release_def mcdb_mmap_thread_registration_def
      last fc release_ref_def REFCNT_REOPENING_def m0_def mmap_blank_def Let_def)
  define s5 where "s5 = set_job 0 No_job (thread_moves 0 (Some 1) w5 s4)"
  have t5: "thread_step s4 s5" unfolding s5_def by (rule thread_step.Finish [OF _ _ w5(1)]) (simp_all add: s4_def s3_def s2_def s1_def ex_moved_simps)
  have "thread_step\<^sup>*\<^sup>* ex_moved s5" using t1 t2 t3 t4 t5 by (meson converse_rtranclp_into_rtranclp rtranclp.rtrancl_refl)
  moreover have "ts_map s5 1 = Some 0" "ts_rd s5 = w5" by (simp_all add: s5_def s4_def s3_def s2_def s1_def thread_moves_def set_job_def)
  ultimately show ?thesis using w5(2) by (intro exI [of _ s5]) simp
qed

theorem registered_threads_safe_witness:
  "(\<exists>s. thread_step\<^sup>*\<^sup>* ex_threads s \<and> ts_map s 0 = Some 0 \<and> ts_job s 0 = Claimed \<and> reopen_open 0 (ts_rd s) \<noteq> None) \<and>
   (\<exists>s q w. thread_step\<^sup>*\<^sup>* ex_moved s \<and> ts_map s 1 = Some 0 \<and>
     mcdb_mmap_thread_registration (Some 0) True False (ts_rd s) = Some (True, Some q, w) \<and> (\<forall>mm'. get_map 0 w = Some mm' \<longrightarrow> mm_ptr mm' = None))"
proof
  show "\<exists>s. thread_step\<^sup>*\<^sup>* ex_threads s \<and> ts_map s 0 = Some 0 \<and> ts_job s 0 = Claimed \<and> reopen_open 0 (ts_rd s) \<noteq> None"
  proof -
    have u: "ts_map ex_threads 0 = Some 0" "ts_job ex_threads 0 = No_job" by (simp_all add: ex_threads_def)
    obtain w where c: "reopen_claim 0 (ts_rd ex_threads) = Some (Claim_ours, w)"
      by (simp add: ex_threads_def reopen_claim_def lock_acquire_def lock_release_def rd_start_def get_map_def put_map_def
        mmap_blank_def REFCNT_REOPENING_def)
    define s where "s = set_job 0 Claimed (ex_threads\<lparr>ts_rd := w\<rparr>)"
    have st: "thread_step\<^sup>*\<^sup>* ex_threads s" unfolding s_def using thread_step.Claim [OF u c] by blast
    have m: "ts_map s 0 = Some 0" "ts_job s 0 = Claimed" by (simp_all add: s_def set_job_def u)
    from registered_threads_safe [OF ex_threads_start st m(1)] st m show ?thesis by auto
  qed
  show "\<exists>s q w. thread_step\<^sup>*\<^sup>* ex_moved s \<and> ts_map s 1 = Some 0 \<and>
     mcdb_mmap_thread_registration (Some 0) True False (ts_rd s) = Some (True, Some q, w) \<and> (\<forall>mm'. get_map 0 w = Some mm' \<longrightarrow> mm_ptr mm' = None)"
  proof -
    obtain s mm where s: "thread_step\<^sup>*\<^sup>* ex_moved s" "ts_map s 1 = Some 0" "get_map 0 (ts_rd s) = Some mm" "mm_next mm = Some 1" "mm_refcnt mm = 1"
      using ex_moved_reached by blast
    have st: "thread_start ex_moved"
      by (auto simp: thread_start_def ex_moved_def ex_threads_def rd_start_def mmap_blank_def get_map_def fname_str_def)
    from registered_threads_safe [OF st s(1,2)] s(3-5) obtain q w where
      "mcdb_mmap_thread_registration (Some 0) True False (ts_rd s) = Some (True, Some q, w)" "\<forall>mm'. get_map 0 w = Some mm' \<longrightarrow> mm_ptr mm' = None" by auto
    then show ?thesis using s(1,2) by blast
  qed
qed

end
