(* ===== verification/Spec2Isabelle.thy ===== *)
theory Spec2Isabelle
  imports Mcdbctl_Proofs Nss_Parse_Total Nss_Session_Props Nss_Authn_Proofs Nss_Driver_Props Thread_Props
begin

text \<open>
  A verification of mcdb, a constant database in the style of cdb that is mapped into memory, and
  of the nsswitch module and database builders that rest on it.

  \<^bold>\<open>The program.\<close>  A database file is a header of 256 slots, the records (two lengths, key, data) in
  the order in which they were added, and for each slot a hash table of twice as many cells as the slot
  has records.  The writer (\<^verbatim>\<open>mcdb_make.c\<close>) appends records through a moving window of a mapped file,
  remembers hash and position of each in lists per slot, and writes the tables at the end.  The reader
  (\<^verbatim>\<open>mcdb.c\<close>) maps a file read-only, looks keys up by open addressing, and iterates.  Threads share a
  map under a reference count and a spin lock, and move to a new map when the file has been replaced.
  \<^verbatim>\<open>mcdb_makefmt.c\<close> converts a text of records into a database, \<^verbatim>\<open>mcdb_makefn.c\<close> puts the result under
  a name by renaming a temporary file, \<^verbatim>\<open>mcdbctl.c\<close> is the tool around both.  In \<^verbatim>\<open>nss/\<close>,
  \<^verbatim>\<open>nss_mcdb_make.c\<close> and \<^verbatim>\<open>nss_mcdb_acct_make.c\<close> turn /etc/passwd and /etc/group into databases whose
  values are packed C structs, and \<^verbatim>\<open>nss_mcdb.c\<close> and \<^verbatim>\<open>nss_mcdb_acct.c\<close> answer the calls of the C
  library from them.

  \<^bold>\<open>How it is modelled.\<close>  A C function is a HOL function that passes explicit state and returns an option:
  \<^term>\<open>None\<close> is behaviour that C leaves undefined (a load or store outside an object, use of freed memory, a
  read of an indeterminate value, a lock taken twice) or a loop that does not end.  One such case is left in the writer:
  when its first mapping is refused, \<^verbatim>\<open>mcdb_make_start\<close> follows an uninitialised pointer.  The condition
  \<^verbatim>\<open>start_refused\<close> of \<^verbatim>\<open>Make_Start\<close> says when this happens, and the safety theorems of the writer and of the
  conversions say that a run has no result exactly then.  A null pointer or an
  error code is an ordinary result.  Machine integers are words of their width.  Memory is a function from
  offsets to bytes with the size of the object beside it.  Every external call asks the environment for its
  outcome: a function from the number of the call to an errno value (0 for success), and for reads and
  writes to the number of bytes that are transferred, so that a theorem without a hypothesis on these
  functions speaks about every pattern of failures.  The byte-order primitives come from the plasma
  submodule, which is not part of the repository; they are the parameter \<^verbatim>\<open>P\<close> of the definitions that use
  them, with the documented behaviour as the hypothesis \<^verbatim>\<open>plasma_bigendian P\<close>, which the concrete
  instance \<^verbatim>\<open>plasma_ref\<close> satisfies.

  \<^bold>\<open>Theories, in the order of the code.\<close>

  \<^item> \<^verbatim>\<open>Mcdb_Prelude\<close>: bytes, big-endian integers, memory as a function, and the lemmas on them that all
    components share.  \<^verbatim>\<open>Uint32\<close> (\<^verbatim>\<open>uint32.c/h\<close>): packing, the djb hash, decimal and hexadecimal texts.
    \<^verbatim>\<open>Linear_Probe\<close>: open addressing as a locale over the home cell of an entry, with the order in which
    equal keys are met.

  \<^item> Writer.  \<^verbatim>\<open>Mcdb_Os\<close>: the environment, \<^verbatim>\<open>nointr_write\<close> and the file behind the window.  \<^verbatim>\<open>Mcdb_Make\<close>
    (\<^verbatim>\<open>mcdb_make.c/h\<close>): start, the three-part and the one-call add, finish, destroy.  \<^verbatim>\<open>Mcdb_Format\<close>: the
    format as a predicate \<^verbatim>\<open>db_file\<close> over a file and a list of records, and the limits \<^verbatim>\<open>recs_ok\<close>; it
    interprets the probe locale on the slot tables.  \<^verbatim>\<open>Make_Window\<close>, \<^verbatim>\<open>Make_Lists\<close>, \<^verbatim>\<open>Make_Add\<close>,
    \<^verbatim>\<open>Make_Start\<close>, \<^verbatim>\<open>Make_Tables\<close>, \<^verbatim>\<open>Make_Finish\<close>: the invariant \<^verbatim>\<open>make_inv\<close> of the state (window, lists,
    allocated blocks, records so far) and its preservation by each operation.  \<^verbatim>\<open>Make_Db\<close>: a whole run is
    safe, and succeeds when nothing is refused.

  \<^item> Reader.  \<^verbatim>\<open>Mcdb_Map\<close> and \<^verbatim>\<open>Mcdb_Find\<close> (\<^verbatim>\<open>mcdb.c/h\<close>): the heap of maps, opening and releasing; lookup in
    tables of both widths, bounded reads, counting, validation, iteration.  \<^verbatim>\<open>Db_Values\<close>, \<^verbatim>\<open>Find_Loads\<close>,
    \<^verbatim>\<open>Find_Steps\<close>, \<^verbatim>\<open>Find_Proofs\<close>: a probe of the file is a probe of the abstract table, so a lookup
    yields the list \<^verbatim>\<open>db_values\<close>.  \<^verbatim>\<open>Scan_Proofs\<close>: iteration and counts.  \<^verbatim>\<open>Open_Proofs\<close>: opening
    a file gives a map that is ready, and what is taken is given back on every path.  \<^verbatim>\<open>Reader_Props\<close>:
    the properties, with the round trip from writer to reader.

  \<^item> Threads.  \<^verbatim>\<open>Mcdb_Thread\<close> (\<^verbatim>\<open>mcdb.c\<close>): registration, release of unused maps, refresh; what happens under the
    spin lock is one step, a refresh is the four steps between which other threads can run.
    \<^verbatim>\<open>Thread_Chain\<close>: the chain of maps from oldest to newest, with users and flags in the reference counts,
    and what each operation makes of it.  \<^verbatim>\<open>Thread_Props\<close>: the step relation of threads that join, move
    on, leave and refresh in any interleaving, its invariant by rule induction, and that no step is undefined.  A
    thread joins through the newest map; that joining through a map with a successor, which the code allows, takes away the
    reference of another thread is a theorem of its own.

  \<^item> Texts and tool.  \<^verbatim>\<open>Mcdb_Makefmt\<close> with \<^verbatim>\<open>Makefmt_Input\<close>, \<^verbatim>\<open>Makefmt_Preamble\<close>, \<^verbatim>\<open>Makefmt_Record\<close>,
    \<^verbatim>\<open>Makefmt_Proofs\<close> (\<^verbatim>\<open>mcdb_makefmt.c\<close>): the parser over a buffer that is refilled by reads of any length
    reads the same records as over the whole text.  \<^verbatim>\<open>Mcdb_Makefn\<close>, \<^verbatim>\<open>Makefn_Proofs\<close>
    (\<^verbatim>\<open>mcdb_makefn.c\<close>): the old file stays or the new one is complete.  \<^verbatim>\<open>Mcdbctl_Out\<close>,
    \<^verbatim>\<open>Mcdbctl_Out_Proofs\<close>, \<^verbatim>\<open>Mcdbctl\<close>, \<^verbatim>\<open>Mcdbctl_Proofs\<close> (\<^verbatim>\<open>mcdbctl.c\<close>): dump, get, stats, uniq, make and
    the exit status.

  \<^item> Entries of the nsswitch databases.  \<^verbatim>\<open>Nss_Struct\<close> and \<^verbatim>\<open>Nss_Acct_Codec\<close> (\<^verbatim>\<open>nss_mcdb_acct_make.c\<close>,
    \<^verbatim>\<open>nss_mcdb_acct.c\<close>): C structs whose strings and arrays live in a caller's buffer with an address, the
    encoders and decoders of passwd, group and group-list entries.  \<^verbatim>\<open>Nss_Passwd_Proofs\<close>, \<^verbatim>\<open>Nss_Group_Proofs\<close>,
    \<^verbatim>\<open>Nss_Group_Decode\<close>, \<^verbatim>\<open>Nss_Grouplist_Proofs\<close>, \<^verbatim>\<open>Nss_Codec_Props\<close>: round trips, bounds, and the
    inputs on which the decoders go wrong.

  \<^item> Builders.  \<^verbatim>\<open>Nss_Groupmem\<close> and \<^verbatim>\<open>Nss_Acct_Make\<close> (\<^verbatim>\<open>nss_mcdb_acct_make.c\<close>): the pools and hash map of
    memberships, the parsers of /etc/passwd and /etc/group.  \<^verbatim>\<open>Nss_Make\<close> (\<^verbatim>\<open>nss_mcdb_make.c\<close>): the
    nsswitch.conf record and the loop around one flat file.  \<^verbatim>\<open>Nss_Make_Proofs\<close>, \<^verbatim>\<open>Nss_Parse_Proofs\<close>,
    \<^verbatim>\<open>Nss_Make_Props\<close>: a printed /etc/passwd becomes the database of its entries.  \<^verbatim>\<open>Nss_Parse_Total\<close>: the
    parsers end on every text; the locale \<^verbatim>\<open>line_parser\<close> is interpreted on both.

  \<^item> Queries.  \<^verbatim>\<open>Nss_Mcdb\<close> (\<^verbatim>\<open>nss_mcdb.c\<close>) and \<^verbatim>\<open>Nss_Acct\<close> (\<^verbatim>\<open>nss_mcdb_acct.c\<close>): the shared maps, the session of
    a thread, lookup, enumeration, and the entry points with the merge of supplementary groups.
    \<^verbatim>\<open>Nss_Query_Proofs\<close>: lookups on a served database; the locale \<^verbatim>\<open>entry_codec\<close> is what a query needs of
    a stored form and its decoder.  \<^verbatim>\<open>Nss_Session_Proofs\<close>: the place of a session in the records.
    \<^verbatim>\<open>Nss_Query_Props\<close>: the locale interpreted on both codecs, and /etc/passwd from the text to the answer
    of \<^verbatim>\<open>getpwnam_r\<close>.  \<^verbatim>\<open>Nss_Session_Props\<close>: enumeration.

  \<^item> Shadow.  \<^verbatim>\<open>Nss_Authn\<close> (\<^verbatim>\<open>nss_mcdb_authn.c\<close>, \<^verbatim>\<open>nss_mcdb_authn_make.c\<close>): stored form, parser of /etc/shadow,
    entry points.  \<^verbatim>\<open>Nss_Authn_Proofs\<close>: round trip; the locales \<^verbatim>\<open>entry_codec\<close> and \<^verbatim>\<open>line_parser\<close>
    interpreted on it.

  \<^item> The program that makes all databases.  \<^verbatim>\<open>Nss_Driver\<close> (\<^verbatim>\<open>nss_mcdbctl.c\<close>): the table of flat files and the
    loop over it, on the \<^verbatim>\<open>fs\<close> of \<^verbatim>\<open>Mcdb_Makefn\<close>; the rows of the network databases are a parameter.
    \<^verbatim>\<open>Nss_Build_Safe\<close>, \<^verbatim>\<open>Nss_Entry_Safe\<close>, \<^verbatim>\<open>Nss_Group_Safe\<close>, \<^verbatim>\<open>Nss_Dbfile_Safe\<close>: the builder under any pattern of
    failures keeps the invariant \<^verbatim>\<open>make_inv\<close> of the writer or stops; the locales \<^verbatim>\<open>counted_parser\<close> and
    \<^verbatim>\<open>building_parser\<close>, interpreted on the parsers, bound the records of a text by its size.
    \<^verbatim>\<open>Nss_Driver_Proofs\<close>, \<^verbatim>\<open>Nss_Driver_Props\<close>: each database is the old file or a new complete one; the list
    \<^verbatim>\<open>row_starts\<close> of the states in which the passes over the rows begin says which \<^verbatim>\<open>stat\<close> call decided that a row is skipped.

  \<^bold>\<open>Bounds and loops.\<close>  Loops of the C code whose end depends on data are \<^verbatim>\<open>partial_function (option)\<close>; that
  they end is proved where a property says that a function returns (the probe: a table has an empty cell;
  retries: \<^verbatim>\<open>eintr_fair\<close>, a call is not interrupted forever; the parsers: the text ends with a NUL in its
  mapping; a chain of maps is finite).  There is no fuel.  \<^verbatim>\<open>recs_ok\<close> bounds keys and data by what
  \<^verbatim>\<open>mcdb_make_addbegin\<close> accepts, the number of records by INT_MAX, a slot by 2^27 records (above that a
  32-bit shift of \<^verbatim>\<open>mcdb_make_finish\<close> wraps) and the file by 2^61 bytes.  Page sizes are powers of two up to
  2^30.  At most 2^30 threads are registered, because two bits of the reference count are flags.

  \<^bold>\<open>Not modelled.\<close>  The databases of \<^verbatim>\<open>nss_mcdb_netdb*.c\<close> and \<^verbatim>\<open>nss_mcdb_misc*.c\<close>, which repeat the
  patterns of passwd and group for other structs (in \<^verbatim>\<open>Nss_Driver\<close> their rows are an argument, and the theorem on
  all databases assumes that their parsers fill the database as the modelled ones are proved to do); \<^verbatim>\<open>nss_mcdb_innetgr.c\<close> (calls of libc around a lookup); the adapters for Solaris and AIX; the Perl, Python, Ruby and Lua bindings in \<^verbatim>\<open>contrib/\<close>; the programs in \<^verbatim>\<open>t/\<close>.
  Of the modelled files: retry wrappers that are one macro of the plasma submodule, advice to the
  kernel (\<^verbatim>\<open>madvise\<close>), the wording of messages and of the usage text, the branches for
  32-bit builds and for systems other than Linux with glibc, and memory ordering below the level of the
  spin lock.  In the queries of the nsswitch module the state is that of one thread; the concurrent part
  of the protocol is in \<^verbatim>\<open>Thread_Props\<close>.
\<close>

end
